(* ===== verification/Prelude.thy ===== *)
theory Prelude
  imports "HOL-Library.Word" "HOL-Library.Multiset" "HOL-Library.While_Combinator"
    "HOL-Library.Code_Target_Nat"
begin

text \<open>
  Shared vocabulary of the development: machine integers, results, and the generic facts on
  lists, options and multisets that the component theories use.

  Counters of type \<^verbatim>\<open>usize\<close> and byte counts of type \<^verbatim>\<open>u64\<close> are natural numbers: the checked
  operations of Rust are written out against the 64-bit bound, and the unchecked \<open>+=\<close> and \<open>-=\<close>
  of the source wrap at \<open>2 ^ 64\<close> (as a release build does; a debug build panics there). The
  invariants of the component theories show that no wrap-around happens. Identities and match
  keys, which the source only compares, increments with a check, or hashes with a wrapping
  product, are machine words.
\<close>

section \<open>Machine integers\<close>

type_synonym u32 = "32 word"
type_synonym u64 = "64 word"
type_synonym usize = nat
type_synonym RetainedBytes = nat
type_synonym Moment = nat
type_synonym Deadline = nat
type_synonym byte = "8 word"

definition USIZE_MAX :: nat where
  "USIZE_MAX = 18446744073709551615"

definition usize_checked_add :: "usize \<Rightarrow> usize \<Rightarrow> usize option" where
  "usize_checked_add a b = (if a + b \<le> USIZE_MAX then Some (a + b) else None)"

definition usize_checked_sub :: "usize \<Rightarrow> usize \<Rightarrow> usize option" where
  "usize_checked_sub a b = (if b \<le> a then Some (a - b) else None)"

definition usize_checked_mul :: "usize \<Rightarrow> usize \<Rightarrow> usize option" where
  "usize_checked_mul a b = (if a * b \<le> USIZE_MAX then Some (a * b) else None)"

definition usize_saturating_add :: "usize \<Rightarrow> usize \<Rightarrow> usize" where
  "usize_saturating_add a b = min (a + b) USIZE_MAX"

text \<open>The unchecked operators \<open>+= 1\<close> and \<open>-= 1\<close>.\<close>

definition usize_inc :: "usize \<Rightarrow> usize" where
  "usize_inc a = (a + 1) mod (USIZE_MAX + 1)"

definition usize_dec :: "usize \<Rightarrow> usize" where
  "usize_dec a = (a + USIZE_MAX) mod (USIZE_MAX + 1)"

definition u64_checked_inc :: "u64 \<Rightarrow> u64 option" where
  "u64_checked_inc w = (if w = - 1 then None else Some (w + 1))"

lemma usize_inc_exact: "a < USIZE_MAX \<Longrightarrow> usize_inc a = Suc a"
  by (simp add: usize_inc_def)

lemma usize_dec_exact: "0 < a \<Longrightarrow> a \<le> USIZE_MAX \<Longrightarrow> usize_dec a = a - 1"
proof -
  assume a: "0 < a" "a \<le> USIZE_MAX"
  then have "a + USIZE_MAX = (a - 1) + (USIZE_MAX + 1)" by simp
  then have "usize_dec a = ((a - 1) + (USIZE_MAX + 1)) mod (USIZE_MAX + 1)"
    by (simp only: usize_dec_def)
  also have "\<dots> = (a - 1) mod (USIZE_MAX + 1)" by (rule mod_add_self2)
  also have "\<dots> = a - 1" using a by (simp add: mod_less)
  finally show ?thesis .
qed

lemma usize_checked_sub_Some [simp]:
  "usize_checked_sub a b = Some c \<longleftrightarrow> b \<le> a \<and> c = a - b"
  by (auto simp: usize_checked_sub_def)

lemma usize_checked_sub_None [simp]: "usize_checked_sub a b = None \<longleftrightarrow> a < b"
  by (auto simp: usize_checked_sub_def)

lemma usize_checked_add_Some [simp]:
  "usize_checked_add a b = Some c \<longleftrightarrow> a + b \<le> USIZE_MAX \<and> c = a + b"
  by (auto simp: usize_checked_add_def)

lemma usize_checked_add_None [simp]: "usize_checked_add a b = None \<longleftrightarrow> USIZE_MAX < a + b"
  by (auto simp: usize_checked_add_def)

lemma u64_checked_inc_Some_unat: "u64_checked_inc w = Some v \<Longrightarrow> unat v = Suc (unat w)"
proof -
  assume "u64_checked_inc w = Some v"
  then have "w \<noteq> - 1" and v: "v = 1 + w" by (auto simp: u64_checked_inc_def split: if_splits)
  then have "1 + w \<noteq> 0" by (metis add_eq_0_iff minus_minus add.commute)
  then show ?thesis unfolding v by (rule unatSuc)
qed

section \<open>Collections of proof rules\<close>

named_theorems op_defs \<open>definitions of the operations, for unfolding a single step\<close>
named_theorems frame_simps \<open>what an operation leaves unchanged\<close>
named_theorems inv_intros \<open>each operation keeps the invariant of its component\<close>

section \<open>Lists\<close>

text \<open>The index of the first element that satisfies a predicate: \<^verbatim>\<open>iter().position(..)\<close>.\<close>

fun position :: "('a \<Rightarrow> bool) \<Rightarrow> 'a list \<Rightarrow> nat option" where
  "position p [] = None"
| "position p (x # xs) = (if p x then Some 0 else map_option Suc (position p xs))"

text \<open>Removal by index, \<^verbatim>\<open>VecDeque::remove\<close> and \<^verbatim>\<open>Vec::remove\<close> within bounds.\<close>

definition remove_nth :: "nat \<Rightarrow> 'a list \<Rightarrow> 'a list" where
  "remove_nth i xs = take i xs @ drop (Suc i) xs"

lemma position_None [simp]: "position p xs = None \<longleftrightarrow> (\<forall>x \<in> set xs. \<not> p x)"
  by (induction xs) auto

lemma position_Some:
  "position p xs = Some i \<Longrightarrow> i < length xs \<and> p (xs ! i) \<and> (\<forall>j < i. \<not> p (xs ! j))"
proof (induction xs arbitrary: i)
  case Nil
  then show ?case by simp
next
  case (Cons x xs)
  show ?case
  proof (cases "p x")
    case True
    with Cons.prems show ?thesis by simp
  next
    case False
    with Cons.prems obtain k where k: "position p xs = Some k" "i = Suc k" by auto
    from Cons.IH [OF k(1)] False k(2) show ?thesis
      by (auto simp: nth_Cons split: nat.splits)
  qed
qed

lemma position_split:
  assumes "position p xs = Some i"
  obtains ys x zs where "xs = ys @ x # zs" "length ys = i" "p x" "\<forall>y \<in> set ys. \<not> p y"
proof -
  from position_Some [OF assms] have i: "i < length xs" "p (xs ! i)" "\<forall>j < i. \<not> p (xs ! j)"
    by auto
  have "xs = take i xs @ xs ! i # drop (Suc i) xs" using i(1) by (rule id_take_nth_drop)
  moreover have "\<forall>y \<in> set (take i xs). \<not> p y" using i by (auto simp: in_set_conv_nth)
  ultimately show ?thesis using that [of "take i xs" "xs ! i" "drop (Suc i) xs"] i by simp
qed

lemma position_append_first:
  "\<forall>y \<in> set ys. \<not> p y \<Longrightarrow> p x \<Longrightarrow> position p (ys @ x # zs) = Some (length ys)"
  by (induction ys) auto

lemma remove_nth_append [simp]: "remove_nth (length ys) (ys @ x # zs) = ys @ zs"
  by (simp add: remove_nth_def)

lemma length_remove_nth: "i < length xs \<Longrightarrow> length (remove_nth i xs) = length xs - 1"
  by (simp add: remove_nth_def)

end
