(* ===== verification/Vocabulary.thy ===== *)
theory Vocabulary
  imports Prelude
begin

text \<open>
  The value types of \<^verbatim>\<open>bornera-core\<close>: identities and their generator (\<^verbatim>\<open>identity.rs\<close>), delivery
  certainty (\<^verbatim>\<open>delivery.rs\<close>), the limits of one epoch (\<^verbatim>\<open>limits.rs\<close>), admission classes, gates and
  options (\<^verbatim>\<open>admission/gate.rs\<close>, \<^verbatim>\<open>admission/options.rs\<close>), closure reasons and operation outcomes,
  together with the record of the functions that come from the crates \<^verbatim>\<open>calandria\<close> and
  \<^verbatim>\<open>bytebudget\<close>, which the model takes as a parameter.
\<close>

section \<open>Identities\<close>

type_synonym EndpointId = u64
type_synonym LaneId = u32
type_synonym ConnectionId = u64
type_synonym ConnectionEpoch = u64
type_synonym OperationId = u64
type_synonym EffectId = u64
type_synonym MatchKey = u32

record IdentitySeeds =
  seed_operation :: u64
  seed_effect :: u64

definition IdentitySeeds_ZERO :: IdentitySeeds where
  "IdentitySeeds_ZERO = \<lparr>seed_operation = 0, seed_effect = 0\<rparr>"

record IdentityGenerator =
  gen_operation :: "u64 option"
  gen_effect :: "u64 option"

definition identity_generator_new :: "IdentitySeeds \<Rightarrow> IdentityGenerator" where
  "identity_generator_new seeds =
     \<lparr>gen_operation = Some (seed_operation seeds), gen_effect = Some (seed_effect seeds)\<rparr>"

definition identity_available :: "IdentityGenerator \<Rightarrow> bool" where
  "identity_available g \<longleftrightarrow> gen_operation g \<noteq> None \<and> gen_effect g \<noteq> None"

definition identity_take ::
  "IdentityGenerator \<Rightarrow> (OperationId \<times> EffectId) option \<times> IdentityGenerator" where
  "identity_take g =
     (case gen_operation g of
        None \<Rightarrow> (None, g)
      | Some operation \<Rightarrow>
          (case gen_effect g of
             None \<Rightarrow> (None, g)
           | Some effect \<Rightarrow>
               (Some (operation, effect),
                g\<lparr>gen_operation := u64_checked_inc operation,
                  gen_effect := u64_checked_inc effect\<rparr>)))"

section \<open>Delivery certainty\<close>

datatype Delivery = NotSent | PossiblySent

definition possibly_sent :: "Delivery \<Rightarrow> Delivery" where
  "possibly_sent d = PossiblySent"

section \<open>Limits of one connection epoch\<close>

datatype LimitsError = ZeroOperationCapacity | ZeroWriteCapacity | EmptyMatchKeySpace

record MatchKeySpace =
  ks_first :: MatchKey
  ks_last :: MatchKey

definition match_key_space_new :: "u32 \<Rightarrow> u32 \<Rightarrow> LimitsError + MatchKeySpace" where
  "match_key_space_new first last' =
     (if first > last' then Inl EmptyMatchKeySpace
      else Inr \<lparr>ks_first = first, ks_last = last'\<rparr>)"

definition match_key_space_capacity :: "MatchKeySpace \<Rightarrow> nat" where
  "match_key_space_capacity s = unat (ks_last s) - unat (ks_first s) + 1"

definition match_key_space_next :: "MatchKeySpace \<Rightarrow> MatchKey \<Rightarrow> MatchKey" where
  "match_key_space_next s current = (if current = ks_last s then ks_first s else current + 1)"

record ConnectionLimits =
  max_operations :: usize
  max_retained_bytes :: RetainedBytes
  max_write_frames :: usize
  max_write_retained_bytes :: RetainedBytes
  match_keys :: MatchKeySpace

definition connection_limits_new ::
  "usize \<Rightarrow> RetainedBytes \<Rightarrow> usize \<Rightarrow> RetainedBytes \<Rightarrow> MatchKeySpace \<Rightarrow> LimitsError + ConnectionLimits"
  where
  "connection_limits_new mo mr mw mwr keys =
     (if mo = 0 then Inl ZeroOperationCapacity
      else if mw = 0 then Inl ZeroWriteCapacity
      else Inr \<lparr>max_operations = mo, max_retained_bytes = mr, max_write_frames = mw,
                max_write_retained_bytes = mwr, match_keys = keys\<rparr>)"

section \<open>Admission classes, gates and options\<close>

datatype AdmissionClass = Session | Regular

datatype AdmissionGate = SessionOnly | Open | Draining | GateClosed

fun admits :: "AdmissionGate \<Rightarrow> AdmissionClass \<Rightarrow> bool" where
  "admits SessionOnly Session = True"
| "admits Open Session = True"
| "admits Open Regular = True"
| "admits _ _ = False"

datatype CompletionMode = ReplyExpected | WriteComplete

record OperationOptions =
  opt_deadline :: Deadline
  opt_class :: AdmissionClass
  opt_retained_bytes :: RetainedBytes
  opt_write_retained_bytes :: RetainedBytes
  opt_completion_mode :: CompletionMode

definition options_until :: "Deadline \<Rightarrow> OperationOptions" where
  "options_until deadline =
     \<lparr>opt_deadline = deadline, opt_class = Regular, opt_retained_bytes = 0,
      opt_write_retained_bytes = 0, opt_completion_mode = ReplyExpected\<rparr>"

definition options_session :: "OperationOptions \<Rightarrow> OperationOptions" where
  "options_session opts = opts\<lparr>opt_class := Session\<rparr>"

definition options_retained_bytes :: "RetainedBytes \<Rightarrow> OperationOptions \<Rightarrow> OperationOptions" where
  "options_retained_bytes n opts = opts\<lparr>opt_retained_bytes := n\<rparr>"

definition options_write_retained_bytes ::
  "RetainedBytes \<Rightarrow> OperationOptions \<Rightarrow> OperationOptions" where
  "options_write_retained_bytes n opts = opts\<lparr>opt_write_retained_bytes := n\<rparr>"

definition options_completion_mode :: "CompletionMode \<Rightarrow> OperationOptions \<Rightarrow> OperationOptions" where
  "options_completion_mode m opts = opts\<lparr>opt_completion_mode := m\<rparr>"

section \<open>Closure, failure and outcomes\<close>

datatype CloseReason =
    Drained
  | Requested
  | DeadlineAfterPossibleSend
  | TransportLost
  | ConnectFailed
  | ConnectTimedOut
  | UnexpectedReply
  | MalformedReply
  | InboundRetainedCapacity
  | CloseMatchKeyMismatch (close_expected: MatchKey) (close_received: MatchKey)

datatype OperationPhase = Queued | Writing | AwaitingReply | Terminal

datatype OperationFailure =
    FailDeadlineElapsed
  | ConnectionClosed CloseReason
  | FailMatchKeyMismatch (fail_expected: MatchKey) (fail_received: MatchKey)

datatype 'r OperationOutcome =
    OutReply 'r
  | OutWriteComplete Delivery
  | OutFailed OperationFailure Delivery
  | OutCancelled Delivery

datatype ReserveError =
    AdmissionClosed
  | DeadlineElapsed
  | OperationCapacity
  | RetainedByteCapacity
  | WriteCapacity
  | MatchKeyExhausted
  | IdentityExhausted
  | OwnerPoisoned

section \<open>Functions of other crates\<close>

text \<open>
  \<^verbatim>\<open>calandria\<close> provides \<^verbatim>\<open>RetainedBytes\<close> with checked arithmetic and \<^verbatim>\<open>Deadline::is_elapsed_at\<close>;
  \<^verbatim>\<open>bytebudget\<close> provides the opaque \<^verbatim>\<open>ByteBudget\<close> (the type variable \<open>'g\<close>). None of them is part
  of the repository, so an operation that calls them takes this record. The flag records whether
  the build has debug assertions, on which the hot-path ownership audit depends.
\<close>

record 'g externals =
  debug_assertions :: bool
  rb_checked_add :: "RetainedBytes \<Rightarrow> RetainedBytes \<Rightarrow> RetainedBytes option"
  rb_checked_sub :: "RetainedBytes \<Rightarrow> RetainedBytes \<Rightarrow> RetainedBytes option"
  rb_try_from :: "usize \<Rightarrow> RetainedBytes option"
  is_elapsed_at :: "Deadline \<Rightarrow> Moment \<Rightarrow> bool"
  bb_new :: "nat \<Rightarrow> 'g"
  bb_used :: "'g \<Rightarrow> nat"
  bb_limit :: "'g \<Rightarrow> nat"
  bb_can_reserve :: "'g \<Rightarrow> nat \<Rightarrow> bool"
  bb_try_reserve :: "'g \<Rightarrow> nat \<Rightarrow> bool \<times> 'g"
  bb_release :: "'g \<Rightarrow> nat \<Rightarrow> bool \<times> 'g"

text \<open>
  What the code relies on: checked arithmetic is exact and fails only on 64-bit overflow or on
  underflow, and a budget counts exactly what was reserved and not yet released, refusing to
  exceed its limit and to release more than it counts.
\<close>

definition bytes_laws :: "'g externals \<Rightarrow> bool" where
  "bytes_laws X \<longleftrightarrow>
     (\<forall>a b. rb_checked_add X a b = (if a + b \<le> USIZE_MAX then Some (a + b) else None)) \<and>
     (\<forall>a b. rb_checked_sub X a b = (if b \<le> a then Some (a - b) else None))"

definition budget_laws :: "'g externals \<Rightarrow> bool" where
  "budget_laws X \<longleftrightarrow>
     (\<forall>l. bb_used X (bb_new X l) = 0 \<and> bb_limit X (bb_new X l) = l) \<and>
     (\<forall>g n. bb_can_reserve X g n \<longleftrightarrow> bb_used X g + n \<le> bb_limit X g) \<and>
     (\<forall>g n. fst (bb_try_reserve X g n) \<longleftrightarrow> bb_used X g + n \<le> bb_limit X g) \<and>
     (\<forall>g n. bb_used X g + n \<le> bb_limit X g \<longrightarrow>
        bb_used X (snd (bb_try_reserve X g n)) = bb_used X g + n \<and>
        bb_limit X (snd (bb_try_reserve X g n)) = bb_limit X g) \<and>
     (\<forall>g n. fst (bb_release X g n) \<longleftrightarrow> n \<le> bb_used X g) \<and>
     (\<forall>g n. n \<le> bb_used X g \<longrightarrow>
        bb_used X (snd (bb_release X g n)) = bb_used X g - n \<and>
        bb_limit X (snd (bb_release X g n)) = bb_limit X g)"

definition externals_ok :: "'g externals \<Rightarrow> bool" where
  "externals_ok X \<longleftrightarrow> bytes_laws X \<and> budget_laws X"

text \<open>An instance with a counter and its limit for the budget, on which witnesses evaluate.\<close>

definition counting_externals :: "(nat \<times> nat) externals" where
  "counting_externals =
     \<lparr>debug_assertions = True,
      rb_checked_add = (\<lambda>a b. if a + b \<le> USIZE_MAX then Some (a + b) else None),
      rb_checked_sub = (\<lambda>a b. if b \<le> a then Some (a - b) else None),
      rb_try_from = (\<lambda>n. if n \<le> USIZE_MAX then Some n else None),
      is_elapsed_at = (\<lambda>deadline now. deadline \<le> now),
      bb_new = (\<lambda>l. (0, l)),
      bb_used = fst,
      bb_limit = snd,
      bb_can_reserve = (\<lambda>(u, l) n. u + n \<le> l),
      bb_try_reserve = (\<lambda>(u, l) n. if u + n \<le> l then (True, u + n, l) else (False, u, l)),
      bb_release = (\<lambda>(u, l) n. if n \<le> u then (True, u - n, l) else (False, u, l))\<rparr>"

lemma counting_externals_ok: "externals_ok counting_externals"
  by (auto simp: externals_ok_def bytes_laws_def budget_laws_def counting_externals_def
      split: prod.splits)

lemma rb_checked_add_ok:
  "externals_ok X \<Longrightarrow> rb_checked_add X a b = (if a + b \<le> USIZE_MAX then Some (a + b) else None)"
  by (simp add: externals_ok_def bytes_laws_def)

lemma rb_checked_sub_ok:
  "externals_ok X \<Longrightarrow> rb_checked_sub X a b = (if b \<le> a then Some (a - b) else None)"
  by (simp add: externals_ok_def bytes_laws_def)

lemma budget_ok:
  assumes "externals_ok X"
  shows "bb_used X (bb_new X l) = 0" "bb_limit X (bb_new X l) = l"
    and "bb_can_reserve X g n \<longleftrightarrow> bb_used X g + n \<le> bb_limit X g"
    and "fst (bb_try_reserve X g n) \<longleftrightarrow> bb_used X g + n \<le> bb_limit X g"
    and "bb_used X g + n \<le> bb_limit X g \<Longrightarrow> bb_used X (snd (bb_try_reserve X g n)) = bb_used X g + n"
    and "bb_used X g + n \<le> bb_limit X g \<Longrightarrow> bb_limit X (snd (bb_try_reserve X g n)) = bb_limit X g"
    and "fst (bb_release X g n) \<longleftrightarrow> n \<le> bb_used X g"
    and "n \<le> bb_used X g \<Longrightarrow> bb_used X (snd (bb_release X g n)) = bb_used X g - n"
    and "n \<le> bb_used X g \<Longrightarrow> bb_limit X (snd (bb_release X g n)) = bb_limit X g"
  using assms by (simp_all add: externals_ok_def budget_laws_def)

section \<open>Identity generation\<close>

text \<open>
  An identity is fresh for a generator when the generator has not reached it: it lies below the
  next value, or the domain is exhausted.
\<close>

definition below_next :: "u64 option \<Rightarrow> u64 \<Rightarrow> bool" where
  "below_next next i \<longleftrightarrow> (case next of None \<Rightarrow> True | Some n \<Rightarrow> i < n)"

lemma below_next_checked_inc: "i \<le> n \<Longrightarrow> below_next (u64_checked_inc n) i"
  using u64_checked_inc_Some_unat [of n]
  by (force simp: below_next_def word_less_nat_alt word_le_nat_alt split: option.splits)

lemma below_next_mono: "below_next (Some n) i \<Longrightarrow> below_next (u64_checked_inc n) i"
  by (rule below_next_checked_inc) (simp add: below_next_def)

lemma identity_available_take:
  "identity_available g \<longleftrightarrow> (\<exists>oe g'. identity_take g = (Some oe, g'))"
  by (auto simp: identity_available_def identity_take_def split: option.splits)

lemma identity_take_Some:
  assumes "identity_take g = (Some (i, e), g')"
  shows "gen_operation g = Some i" "gen_effect g = Some e"
    "gen_operation g' = u64_checked_inc i" "gen_effect g' = u64_checked_inc e"
  using assms by (auto simp: identity_take_def split: option.splits)

end
