(* ===== verification/KeySet.thy ===== *)
theory KeySet
  imports Vocabulary
begin

text \<open>
  \<^verbatim>\<open>admission/key_set.rs\<close>: the preallocated open-addressing set of active match keys, with linear
  probing and deletion by re-inserting the rest of the probe cluster. The locale \<open>key_store\<close> is
  the interface the reservation ledger relies on; its interpretation on \<open>ActiveKeySet\<close> is the
  correctness of the hash table.
\<close>

section \<open>The hash table\<close>

record ActiveKeySet =
  slots :: "MatchKey option list"
  set_len :: usize

text \<open>\<^verbatim>\<open>usize::checked_next_power_of_two\<close>.\<close>

function next_power_from :: "nat \<Rightarrow> nat \<Rightarrow> nat" where
  "next_power_from p n = (if p = 0 \<or> n \<le> p then p else next_power_from (2 * p) n)"
  by pat_completeness auto
termination
  by (relation "measure (\<lambda>(p, n). n - p)") auto

declare next_power_from.simps [simp del]

definition checked_next_power_of_two :: "usize \<Rightarrow> usize option" where
  "checked_next_power_of_two n =
     (let p = next_power_from 1 n in if p \<le> USIZE_MAX then Some p else None)"

definition key_set_new :: "usize \<Rightarrow> ActiveKeySet" where
  "key_set_new max_keys =
     (let doubled = Option.bind (usize_checked_mul max_keys 2) checked_next_power_of_two;
          capacity = max (case doubled of None \<Rightarrow> max_keys | Some c \<Rightarrow> c) 1
      in \<lparr>slots = replicate capacity None, set_len = 0\<rparr>)"

text \<open>\<^verbatim>\<open>home\<close> and \<^verbatim>\<open>next\<close>: a multiplicative hash with a wrapping 32-bit product, and the cyclic
  successor of an index; both depend on the table only through its length.\<close>

definition home :: "nat \<Rightarrow> MatchKey \<Rightarrow> nat" where
  "home n key = unat (key * 0x9e3779b1) mod n"

definition next_index :: "nat \<Rightarrow> nat \<Rightarrow> nat" where
  "next_index n index = (if index + 1 = n then 0 else index + 1)"

text \<open>The bounded probe loops of \<^verbatim>\<open>find\<close> and \<^verbatim>\<open>insert\<close>; the counter is the number of probes left.\<close>

fun find_from :: "MatchKey option list \<Rightarrow> MatchKey \<Rightarrow> nat \<Rightarrow> nat \<Rightarrow> nat option" where
  "find_from xs key 0 index = None"
| "find_from xs key (Suc n) index =
     (case xs ! index of
        Some existing \<Rightarrow>
          if existing = key then Some index
          else find_from xs key n (next_index (length xs) index)
      | None \<Rightarrow> None)"

definition key_set_find :: "MatchKey \<Rightarrow> ActiveKeySet \<Rightarrow> nat option" where
  "key_set_find key s =
     find_from (slots s) key (length (slots s)) (home (length (slots s)) key)"

definition key_set_contains :: "MatchKey \<Rightarrow> ActiveKeySet \<Rightarrow> bool" where
  "key_set_contains key s \<longleftrightarrow> key_set_find key s \<noteq> None"

fun insert_from :: "ActiveKeySet \<Rightarrow> MatchKey \<Rightarrow> nat \<Rightarrow> nat \<Rightarrow> bool \<times> ActiveKeySet" where
  "insert_from s key 0 index = (False, s)"
| "insert_from s key (Suc n) index =
     (case slots s ! index of
        Some existing \<Rightarrow>
          if existing = key then (False, s)
          else insert_from s key n (next_index (length (slots s)) index)
      | None \<Rightarrow>
          (True, s\<lparr>slots := (slots s)[index := Some key], set_len := usize_inc (set_len s)\<rparr>))"

definition key_set_insert :: "MatchKey \<Rightarrow> ActiveKeySet \<Rightarrow> bool \<times> ActiveKeySet" where
  "key_set_insert key s =
     insert_from s key (length (slots s)) (home (length (slots s)) key)"

text \<open>
  The loop \<^verbatim>\<open>while let Some(displaced) = self.slots[cursor].take()\<close> of \<^verbatim>\<open>remove\<close>. Its state is the
  table, the cursor and whether every re-insertion has succeeded (the source returns \<open>false\<close> at
  the first that does not).
\<close>

definition reinsert_step ::
  "ActiveKeySet \<times> nat \<times> bool \<Rightarrow> ActiveKeySet \<times> nat \<times> bool" where
  "reinsert_step = (\<lambda>(s, cursor, ok).
     (case slots s ! cursor of
        None \<Rightarrow> (s, cursor, ok)
      | Some displaced \<Rightarrow>
          let taken = s\<lparr>slots := (slots s)[cursor := None], set_len := usize_dec (set_len s)\<rparr>;
              (inserted, s') = key_set_insert displaced taken
          in if inserted then (s', next_index (length (slots s')) cursor, True)
             else (s', cursor, False)))"

definition reinsert_continues :: "ActiveKeySet \<times> nat \<times> bool \<Rightarrow> bool" where
  "reinsert_continues = (\<lambda>(s, cursor, ok). ok \<and> slots s ! cursor \<noteq> None)"

definition key_set_remove :: "MatchKey \<Rightarrow> ActiveKeySet \<Rightarrow> bool \<times> ActiveKeySet" where
  "key_set_remove key s =
     (case key_set_find key s of
        None \<Rightarrow> (False, s)
      | Some index \<Rightarrow>
          let s1 = s\<lparr>slots := (slots s)[index := None], set_len := usize_dec (set_len s)\<rparr>;
              (s2, cursor, ok) =
                while reinsert_continues reinsert_step
                  (s1, next_index (length (slots s1)) index, True)
          in (ok, s2))"

section \<open>The interface of a bounded key set\<close>

text \<open>
  \<open>room s\<close> is the number of keys the set can hold, \<open>keys s\<close> the set it stands for.
\<close>

locale key_store =
  fixes contains :: "'k \<Rightarrow> 's \<Rightarrow> bool"
    and insert_key :: "'k \<Rightarrow> 's \<Rightarrow> bool \<times> 's"
    and remove_key :: "'k \<Rightarrow> 's \<Rightarrow> bool \<times> 's"
    and len :: "'s \<Rightarrow> nat"
    and room :: "'s \<Rightarrow> nat"
    and keys :: "'s \<Rightarrow> 'k set"
    and invar :: "'s \<Rightarrow> bool"
  assumes contains_iff: "invar s \<Longrightarrow> contains k s \<longleftrightarrow> k \<in> keys s"
    and len_card: "invar s \<Longrightarrow> len s = card (keys s)"
    and finite_keys: "invar s \<Longrightarrow> finite (keys s)"
    and insert_fresh: "invar s \<Longrightarrow> k \<notin> keys s \<Longrightarrow> len s < room s \<Longrightarrow>
      insert_key k s = (True, s') \<Longrightarrow> invar s' \<and> keys s' = insert k (keys s) \<and> room s' = room s"
    and insert_succeeds: "invar s \<Longrightarrow> k \<notin> keys s \<Longrightarrow> len s < room s \<Longrightarrow> fst (insert_key k s)"
    and insert_present: "invar s \<Longrightarrow> k \<in> keys s \<Longrightarrow> insert_key k s = (False, s)"
    and remove_present: "invar s \<Longrightarrow> k \<in> keys s \<Longrightarrow> remove_key k s = (True, s') \<Longrightarrow>
      invar s' \<and> keys s' = keys s - {k} \<and> room s' = room s"
    and remove_succeeds: "invar s \<Longrightarrow> k \<in> keys s \<Longrightarrow> fst (remove_key k s)"
    and remove_absent: "invar s \<Longrightarrow> k \<notin> keys s \<Longrightarrow> remove_key k s = (False, s)"
begin

lemma insertE:
  assumes "invar s" "k \<notin> keys s" "len s < room s"
  obtains s' where "insert_key k s = (True, s')" "invar s'" "keys s' = insert k (keys s)"
    "room s' = room s" "len s' = Suc (len s)"
proof -
  from insert_succeeds [OF assms] obtain s' where s': "insert_key k s = (True, s')"
    by (cases "insert_key k s") auto
  note facts = insert_fresh [OF assms s']
  then have "len s' = Suc (len s)"
    using assms len_card [of s] len_card [of s'] finite_keys [of s] by simp
  with s' facts that show thesis by blast
qed

lemma removeE:
  assumes "invar s" "k \<in> keys s"
  obtains s' where "remove_key k s = (True, s')" "invar s'" "keys s' = keys s - {k}"
    "room s' = room s" "Suc (len s') = len s"
proof -
  from remove_succeeds [OF assms] obtain s' where s': "remove_key k s = (True, s')"
    by (cases "remove_key k s") auto
  note facts = remove_present [OF assms s']
  have "Suc (len s') = len s"
    using assms facts len_card [of s] len_card [of s'] finite_keys [of s]
      card_Suc_Diff1 [of "keys s" k] by simp
  with s' facts that show thesis by blast
qed

text \<open>Inserting a fresh key and removing it again gives back the same set.\<close>

lemma insert_remove_roundtrip:
  assumes "invar s" "k \<notin> keys s" "len s < room s"
    and "insert_key k s = (b, s1)" "remove_key k s1 = (c, s2)"
  shows "b \<and> c \<and> invar s2 \<and> keys s2 = keys s \<and> len s2 = len s"
proof -
  obtain s' where s': "insert_key k s = (True, s')" "invar s'" "keys s' = insert k (keys s)"
    "len s' = Suc (len s)"
    using insertE [OF assms(1-3)] by blast
  then have "k \<in> keys s'" by simp
  with s'(2) obtain s'' where "remove_key k s' = (True, s'')" "invar s''" "keys s'' = keys s' - {k}"
    "Suc (len s'') = len s'"
    by (rule removeE)
  with s' assms show ?thesis by auto
qed

end

section \<open>Probe sequences\<close>

lemma next_index_mod: "0 < n \<Longrightarrow> next_index n ((h + u) mod n) = (h + Suc u) mod n"
  by (auto simp: next_index_def mod_Suc)

lemma home_less: "0 < n \<Longrightarrow> home n k < n"
  by (simp add: home_def)

lemma home_mod [simp]: "home n k mod n = home n k"
  by (simp add: home_def)

lemma probe_inj:
  fixes h u v n :: nat
  assumes "u < n" "v < n" "(h + u) mod n = (h + v) mod n"
  shows "u = v"
proof -
  have "int ((h + u) mod n) = int ((h + v) mod n)" using assms(3) by simp
  then have "(int h + int u) mod int n = (int h + int v) mod int n"
    by (simp add: zmod_int)
  then have "int n dvd (int u - int v)"
    by (metis mod_eq_dvd_iff add_diff_cancel_left)
  moreover have "\<bar>int u - int v\<bar> < int n" using assms by simp
  ultimately show ?thesis
    by (metis dvd_imp_le_int abs_of_nat linorder_not_less of_nat_eq_iff right_minus_eq)
qed

section \<open>The table invariant\<close>

text \<open>
  No key is stored twice; every stored key is reached from its home slot over occupied slots only;
  at least one slot is empty; the length counts the stored keys.
\<close>

definition no_dup :: "MatchKey option list \<Rightarrow> bool" where
  "no_dup xs \<longleftrightarrow>
     (\<forall>i < length xs. \<forall>j < length xs. xs ! i \<noteq> None \<longrightarrow> xs ! i = xs ! j \<longrightarrow> i = j)"

definition full_path :: "MatchKey option list \<Rightarrow> nat \<Rightarrow> nat \<Rightarrow> bool" where
  "full_path xs h t \<longleftrightarrow> (\<forall>u < t. xs ! ((h + u) mod length xs) \<noteq> None)"

definition reachable_keys :: "MatchKey option list \<Rightarrow> bool" where
  "reachable_keys xs \<longleftrightarrow>
     (\<forall>j < length xs. \<forall>k. xs ! j = Some k \<longrightarrow>
        (\<exists>t < length xs. j = (home (length xs) k + t) mod length xs \<and>
           full_path xs (home (length xs) k) t))"

definition stored :: "MatchKey option list \<Rightarrow> MatchKey set" where
  "stored xs = {k. Some k \<in> set xs}"

definition key_set_keys :: "ActiveKeySet \<Rightarrow> MatchKey set" where
  "key_set_keys s = stored (slots s)"

definition key_set_room :: "ActiveKeySet \<Rightarrow> nat" where
  "key_set_room s = length (slots s) - 1"

definition key_set_inv :: "ActiveKeySet \<Rightarrow> bool" where
  "key_set_inv s \<longleftrightarrow>
     0 < length (slots s) \<and> length (slots s) \<le> USIZE_MAX \<and>
     no_dup (slots s) \<and> reachable_keys (slots s) \<and>
     None \<in> set (slots s) \<and> set_len s = card (stored (slots s))"

lemma stored_nth: "k \<in> stored xs \<longleftrightarrow> (\<exists>j < length xs. xs ! j = Some k)"
  by (auto simp: stored_def in_set_conv_nth)

lemma finite_stored [simp]: "finite (stored xs)"
proof -
  have "stored xs \<subseteq> the ` set xs" by (force simp: stored_def)
  then show ?thesis by (rule finite_subset) simp
qed

lemma card_stored_le: "card (stored xs) \<le> length xs"
proof -
  have "stored xs \<subseteq> the ` set xs" by (force simp: stored_def)
  then have "card (stored xs) \<le> card (the ` set xs)" by (intro card_mono) auto
  also have "\<dots> \<le> card (set xs)" by (rule card_image_le) simp
  also have "\<dots> \<le> length xs" by (rule card_length)
  finally show ?thesis .
qed

lemma full_table_card:
  assumes "no_dup xs" "None \<notin> set xs"
  shows "card (stored xs) = length xs"
proof -
  have all: "xs ! i \<noteq> None" if "i < length xs" for i using assms(2) that by (metis nth_mem)
  have "inj_on (\<lambda>i. the (xs ! i)) {..<length xs}"
    using assms(1) all unfolding no_dup_def inj_on_def by (metis lessThan_iff option.expand)
  moreover have "stored xs = (\<lambda>i. the (xs ! i)) ` {..<length xs}"
    using all by (force simp: stored_nth)
  ultimately show ?thesis by (simp add: card_image)
qed

text \<open>A probe distance from any home to any index.\<close>

lemma probe_distance:
  fixes h j n :: nat
  assumes "j < n" "h < n"
  obtains t where "t < n" "j = (h + t) mod n"
proof (cases "h \<le> j")
  case True
  with assms that [of "j - h"] show ?thesis by simp
next
  case False
  then have "(h + (n + j - h)) mod n = j" using assms by simp
  with False assms that [of "n + j - h"] show ?thesis by simp
qed

text \<open>The first empty slot met from a home.\<close>

lemma first_empty:
  assumes "i < length xs" "xs ! i = None" "h < length xs" "i = (h + t) mod length xs"
  obtains v where "v \<le> t" "xs ! ((h + v) mod length xs) = None" "full_path xs h v"
proof -
  let ?P = "\<lambda>v. xs ! ((h + v) mod length xs) = None"
  have "?P t" using assms by simp
  then have "?P (LEAST v. ?P v)" "(LEAST v. ?P v) \<le> t"
    by (rule LeastI, rule Least_le)
  moreover have "full_path xs h (LEAST v. ?P v)"
    unfolding full_path_def using not_less_Least by blast
  ultimately show ?thesis using that by blast
qed

section \<open>Lookup and insertion\<close>

lemma find_from_Some:
  "find_from xs key n i = Some j \<Longrightarrow> i < length xs \<Longrightarrow> j < length xs \<and> xs ! j = Some key"
proof (induction n arbitrary: i)
  case 0
  then show ?case by simp
next
  case (Suc n)
  have "next_index (length xs) i < length xs" using Suc.prems(2) by (auto simp: next_index_def)
  with Suc show ?case by (auto split: option.splits if_splits)
qed

lemma find_from_hit:
  assumes "0 < length xs" "u \<le> t" "t < u + n" "xs ! ((h + t) mod length xs) = Some key"
    and "full_path xs h t"
    and "\<And>v. v < t \<Longrightarrow> xs ! ((h + v) mod length xs) \<noteq> Some key"
  shows "find_from xs key n ((h + u) mod length xs) = Some ((h + t) mod length xs)"
  using assms(2,3)
proof (induction n arbitrary: u)
  case 0
  then show ?case by simp
next
  case (Suc n)
  show ?case
  proof (cases "u = t")
    case True
    with assms(4) show ?thesis by simp
  next
    case False
    with Suc.prems have "Suc u \<le> t" "t < Suc u + n" by auto
    from Suc.IH [OF this] have "find_from xs key n ((h + Suc u) mod length xs) =
        Some ((h + t) mod length xs)" .
    moreover obtain e where "xs ! ((h + u) mod length xs) = Some e" "e \<noteq> key"
      using assms(5,6) False Suc.prems unfolding full_path_def by (metis le_neq_implies_less not_None_eq)
    ultimately show ?thesis using next_index_mod [OF assms(1), of h u] by simp
  qed
qed

lemma key_set_find_present:
  assumes inv: "key_set_inv s" and k: "k \<in> key_set_keys s"
  obtains j where "key_set_find k s = Some j" "j < length (slots s)" "slots s ! j = Some k"
proof -
  let ?xs = "slots s" let ?N = "length ?xs" let ?h = "home ?N k"
  from k obtain j where j: "j < ?N" "?xs ! j = Some k"
    by (auto simp: key_set_keys_def stored_nth)
  with inv obtain t where t: "t < ?N" "j = (?h + t) mod ?N" "full_path ?xs ?h t"
    unfolding key_set_inv_def reachable_keys_def by meson
  have N: "0 < ?N" using j by linarith
  have "?xs ! ((?h + v) mod ?N) \<noteq> Some k" if "v < t" for v
  proof
    assume "?xs ! ((?h + v) mod ?N) = Some k"
    with j inv N have "(?h + v) mod ?N = j"
      unfolding key_set_inv_def no_dup_def by (metis mod_less_divisor option.distinct(1))
    with t that show False using probe_inj [of v ?N t ?h] by simp
  qed
  then have "find_from ?xs k ?N ((?h + 0) mod ?N) = Some ((?h + t) mod ?N)"
    using t j N by (intro find_from_hit) auto
  with t j that show ?thesis by (simp add: key_set_find_def)
qed

lemma key_set_find_Some:
  assumes "key_set_inv s" "key_set_find k s = Some j"
  shows "j < length (slots s)" "slots s ! j = Some k" "k \<in> key_set_keys s"
proof -
  have "0 < length (slots s)" using assms(1) by (simp add: key_set_inv_def)
  with assms(2) show *: "j < length (slots s)" "slots s ! j = Some k"
    using find_from_Some [of "slots s" k "length (slots s)"] home_less
    by (auto simp: key_set_find_def)
  then show "k \<in> key_set_keys s" by (auto simp: key_set_keys_def stored_nth)
qed

lemma key_set_contains_iff: "key_set_inv s \<Longrightarrow> key_set_contains k s \<longleftrightarrow> k \<in> key_set_keys s"
  by (auto simp: key_set_contains_def elim: key_set_find_present dest: key_set_find_Some(3))

text \<open>Insertion of an absent key writes the first empty slot of its probe sequence.\<close>

lemma insert_from_empty:
  assumes "0 < length (slots s)" "u \<le> t" "t < u + n"
    and "slots s ! ((h + t) mod length (slots s)) = None"
    and "full_path (slots s) h t"
    and "key \<notin> stored (slots s)"
  shows "insert_from s key n ((h + u) mod length (slots s)) =
    (True, s\<lparr>slots := (slots s)[(h + t) mod length (slots s) := Some key],
             set_len := usize_inc (set_len s)\<rparr>)"
  using assms(2,3)
proof (induction n arbitrary: u)
  case 0
  then show ?case by simp
next
  case (Suc n)
  show ?case
  proof (cases "u = t")
    case True
    with assms(4) show ?thesis by simp
  next
    case False
    with Suc.prems have "Suc u \<le> t" "t < Suc u + n" by auto
    note IH = Suc.IH [OF this]
    obtain e where e: "slots s ! ((h + u) mod length (slots s)) = Some e"
      using assms(5) False Suc.prems unfolding full_path_def by (metis le_neq_implies_less not_None_eq)
    then have "e \<noteq> key"
      using assms(1,6) by (metis mod_less_divisor stored_nth)
    with e IH show ?thesis using next_index_mod [OF assms(1), of h u] by simp
  qed
qed

lemma insert_from_present:
  assumes "0 < length (slots s)" "u \<le> t" "t < u + n"
    and "slots s ! ((h + t) mod length (slots s)) = Some key"
    and "full_path (slots s) h t"
  shows "insert_from s key n ((h + u) mod length (slots s)) = (False, s)"
  using assms(2,3)
proof (induction n arbitrary: u)
  case 0
  then show ?case by simp
next
  case (Suc n)
  show ?case
  proof (cases "u = t")
    case True
    with assms(4) show ?thesis by simp
  next
    case False
    with Suc.prems have "Suc u \<le> t" "t < Suc u + n" by auto
    note IH = Suc.IH [OF this]
    obtain e where e: "slots s ! ((h + u) mod length (slots s)) = Some e"
      using assms(5) False Suc.prems unfolding full_path_def by (metis le_neq_implies_less not_None_eq)
    with IH show ?thesis using next_index_mod [OF assms(1), of h u] by (cases "e = key") simp_all
  qed
qed

lemma full_path_update_Some:
  "full_path xs h t \<Longrightarrow> full_path (xs[i := Some k]) h t"
  by (cases "i < length xs") (auto simp: full_path_def nth_list_update list_update_beyond)

lemma stored_update_Some:
  assumes "i < length xs" "xs ! i = None"
  shows "stored (xs[i := Some k]) = insert k (stored xs)"
  unfolding stored_nth set_eq_iff insert_iff
  using assms by (auto simp: nth_list_update split: if_splits) (metis option.distinct(1))

lemma no_dup_update_Some:
  assumes "no_dup xs" "i < length xs" "k \<notin> stored xs"
  shows "no_dup (xs[i := Some k])"
  using assms unfolding no_dup_def stored_nth
  by (auto simp: nth_list_update split: if_splits)

lemma insert_absent:
  assumes "k \<notin> stored (slots s)" "c < length (slots s)" "slots s ! c = None"
    and "c = (home (length (slots s)) k + t) mod length (slots s)" "t < length (slots s)"
  obtains v where "v \<le> t" "slots s ! ((home (length (slots s)) k + v) mod length (slots s)) = None"
    "full_path (slots s) (home (length (slots s)) k) v"
    "key_set_insert k s =
       (True, s\<lparr>slots := (slots s)[(home (length (slots s)) k + v) mod length (slots s) := Some k],
                set_len := usize_inc (set_len s)\<rparr>)"
proof -
  let ?N = "length (slots s)" let ?h = "home ?N k"
  have N: "0 < ?N" using assms(2) by linarith
  from first_empty [OF assms(2,3) home_less [OF N] assms(4)] obtain v where
    v: "v \<le> t" "slots s ! ((?h + v) mod ?N) = None" "full_path (slots s) ?h v" by blast
  then have "insert_from s k ?N ((?h + 0) mod ?N) =
      (True, s\<lparr>slots := (slots s)[(?h + v) mod ?N := Some k], set_len := usize_inc (set_len s)\<rparr>)"
    using assms N by (intro insert_from_empty) auto
  with v that show ?thesis by (simp add: key_set_insert_def)
qed

lemma key_set_insert_present: "key_set_inv s \<Longrightarrow> k \<in> key_set_keys s \<Longrightarrow> key_set_insert k s = (False, s)"
proof -
  let ?N = "length (slots s)" let ?h = "home ?N k"
  assume inv: "key_set_inv s" and k: "k \<in> key_set_keys s"
  then obtain j where "j < ?N" "slots s ! j = Some k" by (auto simp: key_set_keys_def stored_nth)
  moreover from this inv obtain t where "t < ?N" "j = (?h + t) mod ?N" "full_path (slots s) ?h t"
    unfolding key_set_inv_def reachable_keys_def by meson
  ultimately have "insert_from s k ?N ((?h + 0) mod ?N) = (False, s)"
    by (intro insert_from_present) auto
  then show ?thesis by (simp add: key_set_insert_def)
qed

lemma reachable_keys_insert:
  assumes "reachable_keys xs" "full_path xs (home (length xs) k) v" "v < length xs"
    and "i = (home (length xs) k + v) mod length xs"
  shows "reachable_keys (xs[i := Some k])"
  unfolding reachable_keys_def
proof (intro allI impI)
  fix j k' assume j: "j < length (xs[i := Some k])" "xs[i := Some k] ! j = Some k'"
  show "\<exists>t < length (xs[i := Some k]).
     j = (home (length (xs[i := Some k])) k' + t) mod length (xs[i := Some k]) \<and>
     full_path (xs[i := Some k]) (home (length (xs[i := Some k])) k') t"
  proof (cases "j = i")
    case True
    with j have "k' = k" by simp
    with True assms show ?thesis by (auto intro: full_path_update_Some)
  next
    case False
    with j assms(1) obtain t where "t < length xs" "j = (home (length xs) k' + t) mod length xs"
      "full_path xs (home (length xs) k') t"
      unfolding reachable_keys_def by auto
    then show ?thesis by (auto intro: full_path_update_Some)
  qed
qed

lemma key_set_insert_fresh:
  assumes inv: "key_set_inv s" and k: "k \<notin> key_set_keys s"
    and room: "set_len s < key_set_room s"
  obtains s' where "key_set_insert k s = (True, s')" "key_set_inv s'"
    "key_set_keys s' = insert k (key_set_keys s)" "length (slots s') = length (slots s)"
proof -
  let ?xs = "slots s" let ?N = "length ?xs" let ?h = "home ?N k"
  have N: "0 < ?N" "?N \<le> USIZE_MAX" and len: "set_len s = card (stored ?xs)"
    and nd: "no_dup ?xs" and rk: "reachable_keys ?xs" and "None \<in> set ?xs"
    using inv by (auto simp: key_set_inv_def)
  then obtain c where c: "c < ?N" "?xs ! c = None" by (metis in_set_conv_nth)
  obtain t where t: "t < ?N" "c = (?h + t) mod ?N"
    using probe_distance [OF c(1) home_less [OF N(1)]] by blast
  have k': "k \<notin> stored ?xs" using k by (simp add: key_set_keys_def)
  from insert_absent [OF k' c t(2,1)] obtain v where
    v: "v \<le> t" "?xs ! ((?h + v) mod ?N) = None" "full_path ?xs ?h v"
    "key_set_insert k s = (True, s\<lparr>slots := ?xs[(?h + v) mod ?N := Some k],
       set_len := usize_inc (set_len s)\<rparr>)" by blast
  define ys where "ys = ?xs[(?h + v) mod ?N := Some k]"
  define s' where "s' = s\<lparr>slots := ys, set_len := usize_inc (set_len s)\<rparr>"
  have st: "stored ys = insert k (stored ?xs)"
    unfolding ys_def using v(2) N by (intro stored_update_Some) auto
  have nd': "no_dup ys" unfolding ys_def using nd N k' by (intro no_dup_update_Some) auto
  have rk': "reachable_keys ys"
    unfolding ys_def using rk v t by (intro reachable_keys_insert) auto
  have "set_len s < USIZE_MAX" using room N by (simp add: key_set_room_def)
  then have len': "usize_inc (set_len s) = card (stored ys)"
    using len st k' by (simp add: usize_inc_exact)
  have "None \<in> set ys"
  proof (rule ccontr)
    assume "None \<notin> set ys"
    with nd' have "card (stored ys) = length ys" by (rule full_table_card)
    with st k' len room show False by (simp add: ys_def key_set_room_def)
  qed
  with nd' rk' len' N have "key_set_inv s'" by (simp add: s'_def key_set_inv_def ys_def)
  with v(4) st that [of s'] show ?thesis
    by (simp add: s'_def ys_def key_set_keys_def)
qed

section \<open>Removal\<close>

text \<open>
  Between two iterations the cursor is \<open>m\<close> slots after the removed index \<open>i\<close>, and the cluster it
  walks ends at the empty slot \<open>m\<^sub>e\<close> slots after \<open>i\<close>. No probe path crosses that slot, and every key
  is reachable over occupied slots or still lies ahead of the cursor.
\<close>

definition cluster_inv :: "MatchKey option list \<Rightarrow> nat \<Rightarrow> nat \<Rightarrow> nat \<Rightarrow> bool" where
  "cluster_inv xs i e m \<longleftrightarrow>
     m \<le> e \<and> e < length xs \<and> no_dup xs \<and>
     (\<forall>u. m \<le> u \<and> u < e \<longrightarrow> xs ! ((i + u) mod length xs) \<noteq> None) \<and>
     xs ! ((i + e) mod length xs) = None \<and>
     (\<forall>j < length xs. \<forall>k. xs ! j = Some k \<longrightarrow>
        (\<exists>t < length xs. j = (home (length xs) k + t) mod length xs \<and>
           (\<forall>u < t. (home (length xs) k + u) mod length xs \<noteq> (i + e) mod length xs) \<and>
           (full_path xs (home (length xs) k) t \<or>
            (\<exists>u. m \<le> u \<and> u < e \<and> j = (i + u) mod length xs))))"

lemma cluster_end: "cluster_inv xs i e e \<Longrightarrow> reachable_keys xs"
  unfolding cluster_inv_def reachable_keys_def by (meson linorder_not_less)

lemma stored_update_None:
  assumes "no_dup xs" "i < length xs" "xs ! i = Some k"
  shows "stored (xs[i := None]) = stored xs - {k}"
proof (rule set_eqI)
  fix k'
  have "k' \<in> stored (xs[i := None]) \<longleftrightarrow> (\<exists>j < length xs. j \<noteq> i \<and> xs ! j = Some k')"
    unfolding stored_nth using assms(2) by (auto simp: nth_list_update split: if_splits)
  also have "\<dots> \<longleftrightarrow> (\<exists>j < length xs. xs ! j = Some k') \<and> k' \<noteq> k"
    using assms unfolding no_dup_def by (metis option.distinct(1) option.inject)
  finally show "k' \<in> stored (xs[i := None]) \<longleftrightarrow> k' \<in> stored xs - {k}"
    by (simp add: stored_nth)
qed

lemma no_dup_update_None: "no_dup xs \<Longrightarrow> no_dup (xs[i := None])"
  unfolding no_dup_def by (cases "i < length xs") (auto simp: nth_list_update split: if_splits)

text \<open>A slot ahead of the cursor that a path enters from the cursor stays ahead of it.\<close>

lemma ahead_of_cursor:
  fixes i m e n h a t :: nat
  assumes "(h + a) mod n = (i + m) mod n" "a < t" "t < n" "m < e" "e < n"
    and "\<forall>u < t. (h + u) mod n \<noteq> (i + e) mod n"
    and "(h + t) mod n \<noteq> (i + e) mod n"
  shows "\<exists>u. m < u \<and> u < e \<and> (h + t) mod n = (i + u) mod n"
proof -
  have shift: "(h + (a + d)) mod n = (i + (m + d)) mod n" for d
    using assms(1) by (metis add.assoc mod_add_left_eq)
  have "t - a < e - m"
  proof (rule ccontr)
    assume "\<not> t - a < e - m"
    then have le: "a + (e - m) \<le> t" using assms(2) by simp
    have "(h + (a + (e - m))) mod n = (i + e) mod n"
      using shift [of "e - m"] assms(4) by simp
    with le assms(6,7) show False by (metis le_neq_implies_less)
  qed
  moreover have "(h + t) mod n = (i + (m + (t - a))) mod n"
    using shift [of "t - a"] assms(2) by simp
  ultimately show ?thesis using assms(2,4) by (intro exI [of _ "m + (t - a)"]) auto
qed

lemma cluster_step:
  assumes inv: "cluster_inv xs i e m" and m: "m < e"
    and d: "xs ! ((i + m) mod length xs) = Some d"
    and v: "v < length xs" "xs[(i + m) mod length xs := None] ! ((home (length xs) d + v) mod length xs) = None"
      "full_path (xs[(i + m) mod length xs := None]) (home (length xs) d) v"
      "(home (length xs) d + v) mod length xs \<noteq> (i + e) mod length xs"
      "\<forall>u < v. (home (length xs) d + u) mod length xs \<noteq> (i + e) mod length xs"
  shows "cluster_inv (xs[(i + m) mod length xs := None, (home (length xs) d + v) mod length xs := Some d])
     i e (Suc m)"
proof -
  let ?N = "length xs"
  define c where "c = (i + m) mod ?N"
  define p where "p = (home ?N d + v) mod ?N"
  define ys where "ys = xs[c := None, p := Some d]"
  have N: "0 < ?N" "e < ?N" and nd: "no_dup xs" using inv by (auto simp: cluster_inv_def)
  have cN: "c < ?N" "p < ?N" using N by (auto simp: c_def p_def)
  have ys_nth: "ys ! j = (if j = p then Some d else if j = c then None else xs ! j)"
    if "j < ?N" for j using that cN by (simp add: ys_def nth_list_update)
  have ne: "(i + u) mod ?N \<noteq> (i + u') mod ?N" if "u < u'" "u' \<le> e" for u u'
    using probe_inj [of u ?N u' i] that N by auto
  have "d \<notin> stored (xs[c := None])"
    using stored_update_None [OF nd cN(1)] d by (simp add: c_def)
  then have nd': "no_dup ys"
    unfolding ys_def using nd cN by (intro no_dup_update_Some no_dup_update_None) auto
  have ahead: "\<forall>u. Suc m \<le> u \<and> u < e \<longrightarrow> ys ! ((i + u) mod ?N) \<noteq> None"
  proof (intro allI impI)
    fix u assume u: "Suc m \<le> u \<and> u < e"
    then have "xs ! ((i + u) mod ?N) \<noteq> None" using inv by (simp add: cluster_inv_def)
    moreover have "(i + u) mod ?N \<noteq> c" unfolding c_def using ne [of m u] u by auto
    ultimately show "ys ! ((i + u) mod ?N) \<noteq> None" using N by (simp add: ys_nth)
  qed
  have stop: "ys ! ((i + e) mod ?N) = None"
    using inv N v(4) by (simp add: ys_nth p_def cluster_inv_def)
  have "\<exists>t < ?N. j = (home ?N k + t) mod ?N \<and> (\<forall>u < t. (home ?N k + u) mod ?N \<noteq> (i + e) mod ?N) \<and>
       (full_path ys (home ?N k) t \<or> (\<exists>u. Suc m \<le> u \<and> u < e \<and> j = (i + u) mod ?N))"
    if j: "j < ?N" "ys ! j = Some k" for j k
  proof (cases "j = p")
    case True
    with j have "k = d" by (simp add: ys_nth)
    moreover have "full_path ys (home ?N d) v"
      using full_path_update_Some [OF v(3)] by (simp add: ys_def c_def)
    ultimately show ?thesis using True v(1,5) by (auto simp: p_def)
  next
    case False
    with j have jc: "j \<noteq> c" "xs ! j = Some k" by (auto simp: ys_nth split: if_splits)
    with inv j(1) obtain t where t: "t < ?N" "j = (home ?N k + t) mod ?N"
      "\<forall>u < t. (home ?N k + u) mod ?N \<noteq> (i + e) mod ?N"
      "full_path xs (home ?N k) t \<or> (\<exists>u. m \<le> u \<and> u < e \<and> j = (i + u) mod ?N)"
      unfolding cluster_inv_def by blast
    have je: "j \<noteq> (i + e) mod ?N" using inv jc(2) by (auto simp: cluster_inv_def)
    have "full_path ys (home ?N k) t \<or> (\<exists>u. Suc m \<le> u \<and> u < e \<and> j = (i + u) mod ?N)"
      using t(4)
    proof (elim disjE exE conjE)
      fix u assume "m \<le> u" "u < e" "j = (i + u) mod ?N"
      with jc(1) show ?thesis by (metis c_def le_neq_implies_less Suc_leI)
    next
      assume fp: "full_path xs (home ?N k) t"
      show ?thesis
      proof (cases "\<exists>a < t. (home ?N k + a) mod ?N = c")
        case True
        then obtain a where "a < t" "(home ?N k + a) mod ?N = (i + m) mod ?N" by (auto simp: c_def)
        with t m N je show ?thesis
          using ahead_of_cursor [of "home ?N k" a ?N i m t e] by (auto simp: Suc_le_eq)
      next
        case False
        with fp N have "\<forall>u < t. ys ! ((home ?N k + u) mod ?N) \<noteq> None"
          by (simp add: full_path_def ys_nth)
        then show ?thesis by (simp add: full_path_def ys_def)
      qed
    qed
    with t show ?thesis by blast
  qed
  with nd' ahead stop N m show ?thesis
    unfolding cluster_inv_def ys_def [symmetric] c_def [symmetric] p_def [symmetric]
    by (simp add: ys_def)
qed

text \<open>One iteration of the loop, on tables whose cluster invariant holds.\<close>

lemma reinsert_step_cluster:
  assumes inv: "cluster_inv (slots s) i e m" and m: "m < e"
    and len: "set_len s = card (stored (slots s))" "length (slots s) \<le> USIZE_MAX"
  obtains s' where "reinsert_step (s, (i + m) mod length (slots s), True) =
      (s', (i + Suc m) mod length (slots s'), True)"
    "cluster_inv (slots s') i e (Suc m)" "stored (slots s') = stored (slots s)"
    "length (slots s') = length (slots s)" "set_len s' = set_len s"
proof -
  let ?xs = "slots s" let ?N = "length ?xs" let ?c = "(i + m) mod ?N"
  have N: "0 < ?N" "e < ?N" and nd: "no_dup ?xs" using inv by (auto simp: cluster_inv_def)
  have c: "?c < ?N" using N by simp
  from inv m obtain d where d: "?xs ! ?c = Some d" by (auto simp: cluster_inv_def)
  from inv c d obtain t where t: "t < ?N" "?c = (home ?N d + t) mod ?N"
    "\<forall>u < t. (home ?N d + u) mod ?N \<noteq> (i + e) mod ?N"
    unfolding cluster_inv_def by blast
  define taken where "taken = s\<lparr>slots := ?xs[?c := None], set_len := usize_dec (set_len s)\<rparr>"
  have sl: "slots taken = ?xs[?c := None]" "length (slots taken) = ?N" by (simp_all add: taken_def)
  have st: "stored (slots taken) = stored ?xs - {d}"
    using stored_update_None [OF nd c d] by (simp add: sl)
  have din: "d \<in> stored ?xs" using c d by (auto simp: stored_nth)
  obtain v where v: "v \<le> t" "slots taken ! ((home ?N d + v) mod ?N) = None"
    "full_path (slots taken) (home ?N d) v"
    "key_set_insert d taken = (True, taken\<lparr>slots := (slots taken)[(home ?N d + v) mod ?N := Some d],
       set_len := usize_inc (set_len taken)\<rparr>)"
    using insert_absent [of d taken ?c t] st t c unfolding sl by auto
  define s' where "s' = taken\<lparr>slots := (slots taken)[(home ?N d + v) mod ?N := Some d],
       set_len := usize_inc (set_len taken)\<rparr>"
  have "?c \<noteq> (i + e) mod ?N" using probe_inj [of m ?N e i] m N by auto
  with v(1) t have "(home ?N d + v) mod ?N \<noteq> (i + e) mod ?N" by (metis le_neq_implies_less)
  with v t have cl: "cluster_inv (slots s') i e (Suc m)"
    using cluster_step [OF inv m d, of v] by (simp add: s'_def sl)
  have "stored (slots s') = insert d (stored (slots taken))"
    unfolding s'_def using v(2) N by (simp add: stored_update_Some sl)
  with st din have st': "stored (slots s') = stored ?xs" by auto
  have "0 < card (stored ?xs)" using din card_gt_0_iff by fastforce
  moreover have "card (stored ?xs) \<le> USIZE_MAX" using card_stored_le [of ?xs] len(2) by linarith
  ultimately have "set_len s' = set_len s"
    using len(1) by (simp add: s'_def taken_def usize_dec_exact usize_inc_exact)
  moreover have "length (slots s') = ?N" by (simp add: s'_def sl)
  moreover have "reinsert_step (s, ?c, True) = (s', (i + Suc m) mod ?N, True)"
    using d v(4) next_index_mod [OF N(1), of i m]
    by (simp add: reinsert_step_def taken_def s'_def Let_def)
  ultimately show ?thesis using that cl st' by simp
qed

text \<open>The loop stops at the end of the cluster: both its termination and its result.\<close>

lemma reinsert_loop:
  assumes "cluster_inv (slots s) i e m"
    and "set_len s = card (stored (slots s))" "length (slots s) \<le> USIZE_MAX"
  shows "\<exists>s'. while_option reinsert_continues reinsert_step (s, (i + m) mod length (slots s), True) =
      Some (s', (i + e) mod length (slots s), True) \<and>
      cluster_inv (slots s') i e e \<and> stored (slots s') = stored (slots s) \<and>
      length (slots s') = length (slots s) \<and> set_len s' = set_len s"
  using assms
proof (induction "e - m" arbitrary: s m)
  case 0
  then have "m = e" by (auto simp: cluster_inv_def)
  moreover from this 0 have "slots s ! ((i + e) mod length (slots s)) = None"
    by (auto simp: cluster_inv_def)
  ultimately show ?case using "0.prems"
    by (subst while_option_unfold) (simp add: reinsert_continues_def)
next
  case (Suc n)
  then have m: "m < e" by simp
  with Suc.prems(1) have "slots s ! ((i + m) mod length (slots s)) \<noteq> None"
    by (auto simp: cluster_inv_def)
  then have go: "reinsert_continues (s, (i + m) mod length (slots s), True)"
    by (simp add: reinsert_continues_def)
  obtain s1 where s1: "reinsert_step (s, (i + m) mod length (slots s), True) =
      (s1, (i + Suc m) mod length (slots s1), True)"
    "cluster_inv (slots s1) i e (Suc m)" "stored (slots s1) = stored (slots s)"
    "length (slots s1) = length (slots s)" "set_len s1 = set_len s"
    using reinsert_step_cluster [OF Suc.prems(1) m Suc.prems(2,3)] by blast
  have "n = e - Suc m" using Suc.hyps(2) by simp
  from Suc.hyps(1) [OF this s1(2)] s1(3,4,5) Suc.prems(2,3) show ?case
    using go s1(1) by (subst while_option_unfold) simp
qed

lemma cluster_init:
  assumes inv: "key_set_inv s" and i: "i < length (slots s)" "slots s ! i = Some key"
  obtains e where "cluster_inv ((slots s)[i := None]) i e 1"
proof -
  let ?xs = "slots s" let ?N = "length ?xs" let ?ys = "?xs[i := None]"
  from inv have N: "0 < ?N" and nd: "no_dup ?xs" and rk: "reachable_keys ?xs" and "None \<in> set ?xs"
    by (auto simp: key_set_inv_def)
  then obtain z where z: "z < ?N" "?xs ! z = None" by (metis in_set_conv_nth)
  obtain t where t: "t < ?N" "z = (i + t) mod ?N" using probe_distance [OF z(1) i(1)] by blast
  from first_empty [OF z i(1) t(2)] obtain e where
    e: "e \<le> t" "?xs ! ((i + e) mod ?N) = None" "full_path ?xs i e" by blast
  have e1: "1 \<le> e" using e(2) i by (cases e) auto
  have eN: "e < ?N" using e(1) t(1) by simp
  have ys_nth: "?ys ! j = (if j = i then None else ?xs ! j)" if "j < ?N" for j
    using that by (simp add: nth_list_update)
  have away: "(i + u) mod ?N \<noteq> i" if "1 \<le> u" "u < ?N" for u
    using probe_inj [of 0 ?N u i] that i(1) by fastforce
  have ei: "?ys ! ((i + e) mod ?N) = None" using e(2) N by (simp add: ys_nth)
  have "\<exists>t < ?N. j = (home ?N k + t) mod ?N \<and> (\<forall>u < t. (home ?N k + u) mod ?N \<noteq> (i + e) mod ?N) \<and>
       (full_path ?ys (home ?N k) t \<or> (\<exists>u. 1 \<le> u \<and> u < e \<and> j = (i + u) mod ?N))"
    if j: "j < ?N" "?ys ! j = Some k" for j k
  proof -
    have jx: "?xs ! j = Some k" "j \<noteq> i" using j by (auto simp: ys_nth split: if_splits)
    with rk j(1) obtain t where t: "t < ?N" "j = (home ?N k + t) mod ?N" "full_path ?xs (home ?N k) t"
      unfolding reachable_keys_def by blast
    have no_e: "\<forall>u < t. (home ?N k + u) mod ?N \<noteq> (i + e) mod ?N"
      using t(3) e(2) unfolding full_path_def by metis
    have je: "j \<noteq> (i + e) mod ?N" using e(2) jx(1) by auto
    have "full_path ?ys (home ?N k) t \<or> (\<exists>u. 1 \<le> u \<and> u < e \<and> j = (i + u) mod ?N)"
    proof (cases "\<exists>a < t. (home ?N k + a) mod ?N = i")
      case True
      then obtain a where "a < t" "(home ?N k + a) mod ?N = (i + 0) mod ?N" using i(1) by auto
      with t no_e je eN e1 show ?thesis
        using ahead_of_cursor [of "home ?N k" a ?N i 0 t e] by (auto simp: Suc_le_eq)
    next
      case False
      with t(3) N show ?thesis by (auto simp: full_path_def nth_list_update)
    qed
    with t no_e show ?thesis by blast
  qed
  moreover have "\<forall>u. 1 \<le> u \<and> u < e \<longrightarrow> ?ys ! ((i + u) mod ?N) \<noteq> None"
    using e away t(1) N unfolding full_path_def by (auto simp: ys_nth)
  ultimately have "cluster_inv ?ys i e 1"
    using ei e1 e(1) t(1) no_dup_update_None [OF nd] unfolding cluster_inv_def by simp
  with that show ?thesis by blast
qed

lemma key_set_remove_absent: "key_set_inv s \<Longrightarrow> k \<notin> key_set_keys s \<Longrightarrow> key_set_remove k s = (False, s)"
  using key_set_contains_iff [of s k] by (simp add: key_set_remove_def key_set_contains_def)

lemma key_set_remove_present:
  assumes inv: "key_set_inv s" and k: "k \<in> key_set_keys s"
  obtains s' where "key_set_remove k s = (True, s')" "key_set_inv s'"
    "key_set_keys s' = key_set_keys s - {k}" "length (slots s') = length (slots s)"
proof -
  let ?N = "length (slots s)"
  obtain i where i: "key_set_find k s = Some i" "i < ?N" "slots s ! i = Some k"
    using key_set_find_present [OF inv k] by blast
  define s1 where "s1 = s\<lparr>slots := (slots s)[i := None], set_len := usize_dec (set_len s)\<rparr>"
  have sl: "slots s1 = (slots s)[i := None]" "length (slots s1) = ?N" by (simp_all add: s1_def)
  from inv have N: "0 < ?N" "?N \<le> USIZE_MAX" and nd: "no_dup (slots s)"
    and len: "set_len s = card (stored (slots s))" by (auto simp: key_set_inv_def)
  obtain e where cl: "cluster_inv (slots s1) i e 1" using cluster_init [OF inv i(2,3)] sl by auto
  have st: "stored (slots s1) = stored (slots s) - {k}"
    using stored_update_None [OF nd i(2,3)] by (simp add: sl)
  have kin: "k \<in> stored (slots s)" using k by (simp add: key_set_keys_def)
  then have pos: "0 < card (stored (slots s))" using card_gt_0_iff by fastforce
  have "card (stored (slots s)) \<le> USIZE_MAX" using card_stored_le [of "slots s"] N by linarith
  with pos have len1: "set_len s1 = card (stored (slots s1))"
    using len kin by (simp add: s1_def usize_dec_exact) (simp add: st [unfolded sl])
  from reinsert_loop [OF cl len1] N sl obtain s2 where s2:
    "while_option reinsert_continues reinsert_step (s1, (i + 1) mod ?N, True) =
       Some (s2, (i + e) mod ?N, True)"
    "cluster_inv (slots s2) i e e" "stored (slots s2) = stored (slots s1)"
    "length (slots s2) = ?N" "set_len s2 = set_len s1" by auto
  have "while reinsert_continues reinsert_step (s1, next_index ?N i, True) =
      (s2, (i + e) mod ?N, True)"
    using s2(1) next_index_mod [OF N(1), of i 0] i(2) by (simp add: while_def)
  then have "key_set_remove k s = (True, s2)"
    using i(1) sl by (simp add: key_set_remove_def s1_def [symmetric] Let_def)
  moreover have "key_set_inv s2"
    using s2 cluster_end [OF s2(2)] N len1 unfolding key_set_inv_def cluster_inv_def
    by (metis mod_less_divisor nth_mem)
  ultimately show ?thesis using that s2(3,4) st by (simp add: key_set_keys_def)
qed

lemma next_power_from_ge: "0 < p \<Longrightarrow> n \<le> next_power_from p n"
proof (induction p n rule: next_power_from.induct)
  case (1 p n)
  show ?case
  proof (cases "n \<le> p")
    case True
    then show ?thesis by (simp add: next_power_from.simps [of p n])
  next
    case False
    with 1 show ?thesis by (simp add: next_power_from.simps [of p n])
  qed
qed

lemma next_power_from_le: "0 < p \<Longrightarrow> p \<le> 2 * n \<Longrightarrow> next_power_from p n \<le> 2 * n"
proof (induction p n rule: next_power_from.induct)
  case (1 p n)
  show ?case
  proof (cases "n \<le> p")
    case True
    with 1 show ?thesis by (simp add: next_power_from.simps [of p n])
  next
    case False
    with 1 show ?thesis by (simp add: next_power_from.simps [of p n])
  qed
qed

text \<open>
  A new set has room for \<open>max_keys\<close> keys, provided four times that many slots are representable
  (beyond that bound the allocation of the table itself fails).
\<close>

lemma key_set_new_inv:
  assumes "0 < n" "4 * n \<le> USIZE_MAX"
  shows "key_set_inv (key_set_new n)" "key_set_keys (key_set_new n) = {}"
    "n \<le> key_set_room (key_set_new n)" "set_len (key_set_new n) = 0"
proof -
  define c where "c = next_power_from 1 (n * 2)"
  have c: "2 * n \<le> c" "c \<le> 4 * n"
    using next_power_from_ge [of 1 "n * 2"] next_power_from_le [of 1 "n * 2"] assms
    by (simp_all add: c_def)
  have c1: "next_power_from (Suc 0) (n * 2) = c" by (simp add: c_def)
  from c have new: "key_set_new n = \<lparr>slots = replicate c None, set_len = 0\<rparr>"
    using assms
    by (simp add: key_set_new_def usize_checked_mul_def checked_next_power_of_two_def c1
        Let_def max_def)
  have st: "stored (replicate c None) = {}" by (auto simp: stored_def)
  show "key_set_inv (key_set_new n)"
    using c assms st by (simp add: new key_set_inv_def no_dup_def reachable_keys_def)
  show "key_set_keys (key_set_new n) = {}" by (simp add: new key_set_keys_def st)
  show "n \<le> key_set_room (key_set_new n)" using c assms by (simp add: new key_set_room_def)
  show "set_len (key_set_new n) = 0" by (simp add: new)
qed

interpretation active: key_store key_set_contains key_set_insert key_set_remove set_len
  key_set_room key_set_keys key_set_inv
proof
  fix s :: ActiveKeySet and k s'
  assume inv: "key_set_inv s"
  show "key_set_contains k s \<longleftrightarrow> k \<in> key_set_keys s" using inv by (rule key_set_contains_iff)
  show "set_len s = card (key_set_keys s)" using inv by (simp add: key_set_inv_def key_set_keys_def)
  show "finite (key_set_keys s)" by (simp add: key_set_keys_def)
  show "k \<in> key_set_keys s \<Longrightarrow> key_set_insert k s = (False, s)"
    using inv by (rule key_set_insert_present)
  show "k \<notin> key_set_keys s \<Longrightarrow> key_set_remove k s = (False, s)"
    using inv by (rule key_set_remove_absent)
  show "k \<in> key_set_keys s \<Longrightarrow> fst (key_set_remove k s)"
    by (rule key_set_remove_present [OF inv, of k]) simp_all
  show "k \<in> key_set_keys s \<Longrightarrow> key_set_remove k s = (True, s') \<Longrightarrow>
      key_set_inv s' \<and> key_set_keys s' = key_set_keys s - {k} \<and> key_set_room s' = key_set_room s"
    by (rule key_set_remove_present [OF inv, of k]) (simp_all add: key_set_room_def)
  assume "k \<notin> key_set_keys s" and "set_len s < key_set_room s"
  note ins = key_set_insert_fresh [OF inv this]
  show "fst (key_set_insert k s)" by (rule ins) simp
  show "key_set_insert k s = (True, s') \<Longrightarrow>
      key_set_inv s' \<and> key_set_keys s' = insert k (key_set_keys s) \<and> key_set_room s' = key_set_room s"
    by (rule ins) (simp add: key_set_room_def)
qed

end
