(* ===== verification/Ledger.thy ===== *)
theory Ledger
  imports KeySet
begin

text \<open>
  \<^verbatim>\<open>admission/ledger.rs\<close> and \<^verbatim>\<open>admission/permit.rs\<close>: the single-owner accounting behind permits and
  accepted operations. The relation \<open>accounts\<close> is the abstract specification: the ledger stands for
  a multiset of reservations held by permits and a multiset of reservations held by accepted
  operations, each with a flag that tells whether it still holds write capacity.
\<close>

section \<open>The ledger\<close>

record Reservation =
  res_retained_bytes :: RetainedBytes
  res_write_retained_bytes :: RetainedBytes
  res_match_key :: MatchKey

record ReservationLedger =
  led_limits :: ConnectionLimits
  led_operations :: usize
  led_permits :: usize
  led_retained_bytes :: RetainedBytes
  led_write_frames :: usize
  led_write_retained_bytes :: RetainedBytes
  led_active_keys :: ActiveKeySet
  led_next_key :: MatchKey
  led_poisoned :: bool

definition ledger_new :: "ConnectionLimits \<Rightarrow> ReservationLedger" where
  "ledger_new limits =
     \<lparr>led_limits = limits, led_operations = 0, led_permits = 0, led_retained_bytes = 0,
      led_write_frames = 0, led_write_retained_bytes = 0,
      led_active_keys = key_set_new (max_operations limits),
      led_next_key = ks_first (match_keys limits), led_poisoned = False\<rparr>"

definition poison_ledger :: "ReservationLedger \<Rightarrow> ReservationLedger" where
  "poison_ledger L = L\<lparr>led_poisoned := True\<rparr>"

text \<open>The candidate loop of \<^verbatim>\<open>allocate_key\<close>: at most \<open>n\<close> candidates, starting at \<open>c\<close>.\<close>

fun first_free :: "('k \<Rightarrow> bool) \<Rightarrow> ('k \<Rightarrow> 'k) \<Rightarrow> nat \<Rightarrow> 'k \<Rightarrow> 'k option" where
  "first_free used next 0 c = None"
| "first_free used next (Suc n) c = (if \<not> used c then Some c else first_free used next n (next c))"

definition allocate_key :: "ReservationLedger \<Rightarrow> (ReserveError + MatchKey) \<times> ReservationLedger" where
  "allocate_key L =
     (case usize_checked_add (set_len (led_active_keys L)) 1 of
        None \<Rightarrow> (Inl OwnerPoisoned, poison_ledger L)
      | Some attempts \<Rightarrow>
          (case first_free (\<lambda>k. key_set_contains k (led_active_keys L))
                  (match_key_space_next (match_keys (led_limits L))) attempts (led_next_key L) of
             Some candidate \<Rightarrow>
               (Inr candidate,
                L\<lparr>led_next_key := match_key_space_next (match_keys (led_limits L)) candidate\<rparr>)
           | None \<Rightarrow> (Inl MatchKeyExhausted, L)))"

definition ledger_reserve ::
  "'g externals \<Rightarrow> RetainedBytes \<Rightarrow> RetainedBytes \<Rightarrow> ReservationLedger \<Rightarrow>
   (ReserveError + Reservation) \<times> ReservationLedger" where
  "ledger_reserve X retained write_retained L =
     (if led_poisoned L then (Inl OwnerPoisoned, L)
      else if led_operations L = max_operations (led_limits L) then (Inl OperationCapacity, L)
      else (case rb_checked_add X (led_retained_bytes L) retained of
        None \<Rightarrow> (Inl RetainedByteCapacity, L)
      | Some next_retained \<Rightarrow>
          if next_retained > max_retained_bytes (led_limits L) then (Inl RetainedByteCapacity, L)
          else if led_write_frames L = max_write_frames (led_limits L) then (Inl WriteCapacity, L)
          else (case rb_checked_add X (led_write_retained_bytes L) write_retained of
            None \<Rightarrow> (Inl WriteCapacity, L)
          | Some next_write \<Rightarrow>
              if next_write > max_write_retained_bytes (led_limits L) then (Inl WriteCapacity, L)
              else (case allocate_key L of
                (Inl e, L1) \<Rightarrow> (Inl e, L1)
              | (Inr key, L1) \<Rightarrow>
                  (case key_set_insert key (led_active_keys L1) of
                     (False, keys) \<Rightarrow>
                       (Inl OwnerPoisoned, L1\<lparr>led_active_keys := keys, led_poisoned := True\<rparr>)
                   | (True, keys) \<Rightarrow>
                       (Inr \<lparr>res_retained_bytes = retained, res_write_retained_bytes = write_retained,
                             res_match_key = key\<rparr>,
                        L1\<lparr>led_active_keys := keys,
                           led_operations := usize_inc (led_operations L1),
                           led_permits := usize_inc (led_permits L1),
                           led_retained_bytes := next_retained,
                           led_write_frames := usize_inc (led_write_frames L1),
                           led_write_retained_bytes := next_write\<rparr>))))))"

definition ledger_commit ::
  "'g externals \<Rightarrow> Reservation \<Rightarrow> RetainedBytes \<Rightarrow> ReservationLedger \<Rightarrow> ReservationLedger" where
  "ledger_commit X r actual L =
     (case usize_checked_sub (led_permits L) 1 of
        None \<Rightarrow> poison_ledger L
      | Some permits \<Rightarrow>
          (case rb_checked_sub X (res_write_retained_bytes r) actual of
             None \<Rightarrow> poison_ledger L
           | Some unused \<Rightarrow>
               (case rb_checked_sub X (led_write_retained_bytes L) unused of
                  None \<Rightarrow> poison_ledger L
                | Some write_retained \<Rightarrow>
                    L\<lparr>led_permits := permits, led_write_retained_bytes := write_retained\<rparr>)))"

definition ledger_release_all ::
  "'g externals \<Rightarrow> Reservation \<Rightarrow> bool \<Rightarrow> bool \<Rightarrow> ReservationLedger \<Rightarrow> ReservationLedger" where
  "ledger_release_all X r write_held release_permit L =
     (case usize_checked_sub (led_operations L) 1 of
        None \<Rightarrow> poison_ledger L
      | Some operations \<Rightarrow>
          (case rb_checked_sub X (led_retained_bytes L) (res_retained_bytes r) of
             None \<Rightarrow> poison_ledger L
           | Some retained \<Rightarrow>
               (case (if release_permit then usize_checked_sub (led_permits L) 1
                      else Some (led_permits L)) of
                  None \<Rightarrow> poison_ledger L
                | Some permits \<Rightarrow>
                    (case (if write_held then
                             (case usize_checked_sub (led_write_frames L) 1 of
                                None \<Rightarrow> None
                              | Some frames \<Rightarrow>
                                  (case rb_checked_sub X (led_write_retained_bytes L)
                                          (res_write_retained_bytes r) of
                                     None \<Rightarrow> None
                                   | Some bytes \<Rightarrow> Some (frames, bytes)))
                           else Some (led_write_frames L, led_write_retained_bytes L)) of
                       None \<Rightarrow> poison_ledger L
                     | Some (frames, bytes) \<Rightarrow>
                         (case key_set_remove (res_match_key r) (led_active_keys L) of
                            (False, keys) \<Rightarrow> L\<lparr>led_active_keys := keys, led_poisoned := True\<rparr>
                          | (True, keys) \<Rightarrow>
                              L\<lparr>led_active_keys := keys, led_operations := operations,
                                led_permits := permits, led_retained_bytes := retained,
                                led_write_frames := frames,
                                led_write_retained_bytes := bytes\<rparr>)))))"

definition ledger_rollback_permit ::
  "'g externals \<Rightarrow> Reservation \<Rightarrow> ReservationLedger \<Rightarrow> ReservationLedger" where
  "ledger_rollback_permit X r L = ledger_release_all X r True True L"

definition ledger_release_operation ::
  "'g externals \<Rightarrow> Reservation \<Rightarrow> bool \<Rightarrow> ReservationLedger \<Rightarrow> ReservationLedger" where
  "ledger_release_operation X r write_held L = ledger_release_all X r write_held False L"

definition ledger_release_write ::
  "'g externals \<Rightarrow> RetainedBytes \<Rightarrow> ReservationLedger \<Rightarrow> ReservationLedger" where
  "ledger_release_write X write_retained L =
     (case usize_checked_sub (led_write_frames L) 1 of
        None \<Rightarrow> poison_ledger L
      | Some frames \<Rightarrow>
          (case rb_checked_sub X (led_write_retained_bytes L) write_retained of
             None \<Rightarrow> poison_ledger L
           | Some retained \<Rightarrow>
               L\<lparr>led_write_frames := frames, led_write_retained_bytes := retained\<rparr>))"

section \<open>Permits\<close>

text \<open>
  A permit shares the ledger of its machine (\<^verbatim>\<open>Rc<RefCell<ReservationLedger>>\<close>). The ledger value is
  kept by the machine; the permit records which ledger it points to, by the identity of the
  allocation.
\<close>

type_synonym LedgerRef = nat

record OperationPermit =
  permit_ledger :: LedgerRef
  permit_epoch :: ConnectionEpoch
  permit_operation :: OperationId
  permit_effect :: EffectId
  permit_deadline :: Deadline
  permit_class :: AdmissionClass
  permit_completion :: CompletionMode
  permit_reservation :: Reservation
  permit_active :: bool

definition permit_commit ::
  "'g externals \<Rightarrow> RetainedBytes \<Rightarrow> OperationPermit \<Rightarrow> ReservationLedger \<Rightarrow>
   OperationPermit \<times> ReservationLedger" where
  "permit_commit X actual p L =
     (p\<lparr>permit_reservation := (permit_reservation p)\<lparr>res_write_retained_bytes := actual\<rparr>,
        permit_active := False\<rparr>,
      ledger_commit X (permit_reservation p) actual L)"

definition permit_drop ::
  "'g externals \<Rightarrow> OperationPermit \<Rightarrow> ReservationLedger \<Rightarrow> OperationPermit \<times> ReservationLedger" where
  "permit_drop X p L =
     (if permit_active p
      then (p\<lparr>permit_active := False\<rparr>, ledger_rollback_permit X (permit_reservation p) L)
      else (p, L))"

section \<open>Key allocation\<close>

definition key_space :: "MatchKeySpace \<Rightarrow> MatchKey set" where
  "key_space s = {k. ks_first s \<le> k \<and> k \<le> ks_last s}"

lemma first_free_Some:
  "first_free used next n c = Some k \<Longrightarrow> \<not> used k \<and> (\<exists>i < n. k = (next ^^ i) c)"
proof (induction n arbitrary: c)
  case 0
  then show ?case by simp
next
  case (Suc n)
  show ?case
  proof (cases "used c")
    case True
    with Suc obtain i where "\<not> used k" "i < n" "k = (next ^^ i) (next c)" by fastforce
    then show ?thesis by (intro conjI exI [of _ "Suc i"]) (simp_all add: funpow_swap1)
  next
    case False
    with Suc.prems show ?thesis by (auto intro: exI [of _ 0])
  qed
qed

lemma first_free_None:
  "first_free used next n c = None \<Longrightarrow> i < n \<Longrightarrow> used ((next ^^ i) c)"
proof (induction n arbitrary: c i)
  case 0
  then show ?case by simp
next
  case (Suc n)
  then have "used c" "first_free used next n (next c) = None" by (auto split: if_splits)
  with Suc show ?case by (cases i) (auto simp: funpow_swap1)
qed

context key_store
begin

text \<open>
  The scan of \<open>len s + 1\<close> candidates finds a free key whenever the candidates are distinct: only
  \<open>len s\<close> of them can be in use.
\<close>

lemma scan_finds_free:
  assumes "invar s" "inj_on (\<lambda>i. (next ^^ i) c) {..<Suc (len s)}"
  shows "\<exists>k. first_free (\<lambda>k. contains k s) next (Suc (len s)) c = Some k \<and> k \<notin> keys s"
proof (cases "first_free (\<lambda>k. contains k s) next (Suc (len s)) c")
  case None
  have "(\<lambda>i. (next ^^ i) c) ` {..<Suc (len s)} \<subseteq> keys s"
    using first_free_None [OF None] contains_iff [OF assms(1)] by auto
  then have "card ((\<lambda>i. (next ^^ i) c) ` {..<Suc (len s)}) \<le> card (keys s)"
    by (rule card_mono [OF finite_keys [OF assms(1)]])
  then show ?thesis using card_image [OF assms(2)] len_card [OF assms(1)] by simp
next
  case (Some k)
  with first_free_Some [OF Some] contains_iff [OF assms(1)] show ?thesis by auto
qed

end

text \<open>The cyclic successor on the key space, in terms of offsets from its first key.\<close>

lemma key_space_offset:
  assumes "ks_first s \<le> ks_last s" "k \<in> key_space s"
  shows "match_key_space_next s k \<in> key_space s"
    "unat (match_key_space_next s k) - unat (ks_first s) =
       Suc (unat k - unat (ks_first s)) mod match_key_space_capacity s"
proof -
  have bounds: "unat (ks_first s) \<le> unat k" "unat k \<le> unat (ks_last s)"
    using assms(2) by (auto simp: key_space_def word_le_nat_alt)
  consider (last) "k = ks_last s" | (inner) "k \<noteq> ks_last s" by blast
  then have "match_key_space_next s k \<in> key_space s \<and>
    unat (match_key_space_next s k) - unat (ks_first s) =
       Suc (unat k - unat (ks_first s)) mod match_key_space_capacity s"
  proof cases
    case last
    with assms show ?thesis
      by (simp add: match_key_space_next_def match_key_space_capacity_def key_space_def)
  next
    case inner
    then have lt: "unat k < unat (ks_last s)"
      using bounds word_unat_eq_iff [of k "ks_last s"] by linarith
    then have "k + 1 \<noteq> 0"
      by (metis add.commute add_eq_0_iff2 linorder_not_less max_word_max word_le_nat_alt word_order.extremum_unique)
    then have u: "unat (k + 1) = Suc (unat k)" using unatSuc [of k] by (simp add: add.commute)
    have "unat k - unat (ks_first s) < match_key_space_capacity s - 1"
      using lt bounds by (simp add: match_key_space_capacity_def)
    then have "Suc (unat k - unat (ks_first s)) < match_key_space_capacity s" by simp
    then show ?thesis using inner u lt bounds
      by (auto simp: match_key_space_next_def key_space_def word_le_nat_alt)
  qed
  then show "match_key_space_next s k \<in> key_space s"
    "unat (match_key_space_next s k) - unat (ks_first s) =
       Suc (unat k - unat (ks_first s)) mod match_key_space_capacity s" by auto
qed

lemma key_space_iterate:
  assumes "ks_first s \<le> ks_last s" "k \<in> key_space s"
  shows "(match_key_space_next s ^^ i) k \<in> key_space s \<and>
    unat ((match_key_space_next s ^^ i) k) - unat (ks_first s) =
       (unat k - unat (ks_first s) + i) mod match_key_space_capacity s"
proof (induction i)
  case 0
  have "unat k - unat (ks_first s) < match_key_space_capacity s"
    using assms(2) by (auto simp: key_space_def match_key_space_capacity_def word_le_nat_alt)
  with assms(2) show ?case by simp
next
  case (Suc i)
  then show ?case
    using key_space_offset [OF assms(1), of "(match_key_space_next s ^^ i) k"]
    by (simp add: mod_Suc_eq)
qed

lemma key_space_inj:
  assumes "ks_first s \<le> ks_last s" "k \<in> key_space s" "n \<le> match_key_space_capacity s"
  shows "inj_on (\<lambda>i. (match_key_space_next s ^^ i) k) {..<n}"
proof (rule inj_onI)
  fix i j assume "i \<in> {..<n}" "j \<in> {..<n}"
    and eq: "(match_key_space_next s ^^ i) k = (match_key_space_next s ^^ j) k"
  then have "i < match_key_space_capacity s" "j < match_key_space_capacity s" using assms(3) by auto
  with eq show "i = j"
    using key_space_iterate [OF assms(1,2), of i] key_space_iterate [OF assms(1,2), of j]
      probe_inj [of i _ j "unat k - unat (ks_first s)"] by metis
qed

lemma finite_key_space [simp]: "finite (key_space s)"
  by (rule finite_subset [of _ UNIV]) auto

lemma card_key_space:
  assumes "ks_first s \<le> ks_last s"
  shows "card (key_space s) = match_key_space_capacity s"
proof -
  let ?c = "match_key_space_capacity s"
  let ?f = "\<lambda>i. (match_key_space_next s ^^ i) (ks_first s)"
  have first: "ks_first s \<in> key_space s" using assms by (simp add: key_space_def)
  have "bij_betw (\<lambda>k. unat k - unat (ks_first s)) (key_space s) {..<?c}"
  proof (rule bij_betwI')
    fix x y assume "x \<in> key_space s" "y \<in> key_space s"
    then show "(unat x - unat (ks_first s) = unat y - unat (ks_first s)) = (x = y)"
      using word_unat_eq_iff [of x y] by (auto simp: key_space_def word_le_nat_alt)
  next
    fix x assume "x \<in> key_space s"
    then show "unat x - unat (ks_first s) \<in> {..<?c}"
      by (auto simp: key_space_def match_key_space_capacity_def word_le_nat_alt)
  next
    fix y assume "y \<in> {..<?c}"
    then show "\<exists>x \<in> key_space s. y = unat x - unat (ks_first s)"
      using key_space_iterate [OF assms first, of y] by (metis add_0 diff_self_eq_0 lessThan_iff mod_less)
  qed
  then show ?thesis using bij_betw_same_card by fastforce
qed

section \<open>The abstract account\<close>

text \<open>Limits a 64-bit host can represent, with a nonempty key range.\<close>

definition limits_ok :: "ConnectionLimits \<Rightarrow> bool" where
  "limits_ok l \<longleftrightarrow>
     0 < max_operations l \<and> 4 * max_operations l \<le> USIZE_MAX \<and>
     0 < max_write_frames l \<and> max_write_frames l \<le> USIZE_MAX \<and>
     max_retained_bytes l \<le> USIZE_MAX \<and> max_write_retained_bytes l \<le> USIZE_MAX \<and>
     ks_first (match_keys l) \<le> ks_last (match_keys l)"

abbreviation sum_retained :: "Reservation multiset \<Rightarrow> nat" where
  "sum_retained M \<equiv> sum_mset (image_mset res_retained_bytes M)"

abbreviation sum_write :: "Reservation multiset \<Rightarrow> nat" where
  "sum_write M \<equiv> sum_mset (image_mset res_write_retained_bytes M)"

definition holders :: "Reservation multiset \<Rightarrow> (Reservation \<times> bool) multiset \<Rightarrow> Reservation multiset" where
  "holders P A = P + image_mset fst A"

definition writers :: "Reservation multiset \<Rightarrow> (Reservation \<times> bool) multiset \<Rightarrow> Reservation multiset" where
  "writers P A = P + image_mset fst (filter_mset snd A)"

definition accounts ::
  "ReservationLedger \<Rightarrow> Reservation multiset \<Rightarrow> (Reservation \<times> bool) multiset \<Rightarrow> bool" where
  "accounts L P A \<longleftrightarrow>
     \<not> led_poisoned L \<and> limits_ok (led_limits L) \<and>
     key_set_inv (led_active_keys L) \<and>
     max_operations (led_limits L) \<le> key_set_room (led_active_keys L) \<and>
     key_set_keys (led_active_keys L) \<subseteq> key_space (match_keys (led_limits L)) \<and>
     led_next_key L \<in> key_space (match_keys (led_limits L)) \<and>
     image_mset res_match_key (holders P A) = mset_set (key_set_keys (led_active_keys L)) \<and>
     led_permits L = size P \<and>
     led_operations L = size (holders P A) \<and> led_operations L \<le> max_operations (led_limits L) \<and>
     led_retained_bytes L = sum_retained (holders P A) \<and>
     led_retained_bytes L \<le> max_retained_bytes (led_limits L) \<and>
     led_write_frames L = size (writers P A) \<and>
     led_write_frames L \<le> max_write_frames (led_limits L) \<and>
     led_write_retained_bytes L = sum_write (writers P A) \<and>
     led_write_retained_bytes L \<le> max_write_retained_bytes (led_limits L)"

lemma holders_simps [simp]:
  "holders (add_mset r P) A = add_mset r (holders P A)"
  "holders P (add_mset (r, h) A) = add_mset r (holders P A)"
  "holders {#} {#} = {#}"
  by (simp_all add: holders_def)

lemma writers_simps [simp]:
  "writers (add_mset r P) A = add_mset r (writers P A)"
  "writers P (add_mset (r, True) A) = add_mset r (writers P A)"
  "writers P (add_mset (r, False) A) = writers P A"
  "writers {#} {#} = {#}"
  by (simp_all add: writers_def)

lemma accounts_new: "limits_ok l \<Longrightarrow> accounts (ledger_new l) {#} {#}"
  using key_set_new_inv [of "max_operations l"]
  by (simp add: accounts_def ledger_new_def limits_ok_def key_space_def)

lemma account_keys:
  assumes "accounts L P A"
  shows "key_set_keys (led_active_keys L) = res_match_key ` (set_mset P \<union> fst ` set_mset A)"
proof -
  have "finite (key_set_keys (led_active_keys L))"
    using assms active.finite_keys by (simp add: accounts_def)
  then have "key_set_keys (led_active_keys L) = set_mset (mset_set (key_set_keys (led_active_keys L)))" by simp
  also have "mset_set (key_set_keys (led_active_keys L)) = image_mset res_match_key (holders P A)"
    using assms by (simp add: accounts_def)
  finally show ?thesis by (simp add: holders_def image_Un image_image)
qed

lemma accounts_len: "accounts L P A \<Longrightarrow> set_len (led_active_keys L) = led_operations L"
  unfolding accounts_def using active.len_card [of "led_active_keys L"]
  by (metis size_image_mset size_mset_set)

section \<open>Every operation refines its abstract step\<close>

lemma allocate_key_free:
  assumes acc: "accounts L P A"
    and free: "key_set_keys (led_active_keys L) \<noteq> key_space (match_keys (led_limits L))"
  obtains k n where "allocate_key L = (Inr k, L\<lparr>led_next_key := n\<rparr>)"
    "k \<in> key_space (match_keys (led_limits L))" "n \<in> key_space (match_keys (led_limits L))"
    "k \<notin> key_set_keys (led_active_keys L)"
proof -
  let ?ks = "match_keys (led_limits L)" and ?S = "led_active_keys L"
  from acc have inv: "key_set_inv ?S" and sub: "key_set_keys ?S \<subseteq> key_space ?ks"
    and nx: "led_next_key L \<in> key_space ?ks" and lim: "limits_ok (led_limits L)"
    by (auto simp: accounts_def)
  from lim have ne: "ks_first ?ks \<le> ks_last ?ks" by (simp add: limits_ok_def)
  have "card (key_set_keys ?S) < card (key_space ?ks)"
    using sub free by (intro psubset_card_mono) auto
  then have "Suc (set_len ?S) \<le> match_key_space_capacity ?ks"
    using active.len_card [OF inv] card_key_space [OF ne] by simp
  from active.scan_finds_free [OF inv key_space_inj [OF ne nx this]] obtain k where
    k: "first_free (\<lambda>k. key_set_contains k ?S) (match_key_space_next ?ks) (Suc (set_len ?S))
          (led_next_key L) = Some k" "k \<notin> key_set_keys ?S" by blast
  from first_free_Some [OF k(1)] key_space_iterate [OF ne nx] have kin: "k \<in> key_space ?ks" by auto
  have "set_len ?S + 1 \<le> USIZE_MAX"
    using accounts_len [OF acc] acc by (auto simp: accounts_def limits_ok_def)
  then have "allocate_key L = (Inr k, L\<lparr>led_next_key := match_key_space_next ?ks k\<rparr>)"
    using k by (simp add: allocate_key_def usize_checked_add_def)
  then show ?thesis using that kin k(2) key_space_offset(1) [OF ne kin] by blast
qed

lemma allocate_key_exhausted:
  assumes acc: "accounts L P A"
    and full: "key_set_keys (led_active_keys L) = key_space (match_keys (led_limits L))"
  shows "allocate_key L = (Inl MatchKeyExhausted, L)"
proof -
  let ?ks = "match_keys (led_limits L)" and ?S = "led_active_keys L"
  from acc have inv: "key_set_inv ?S" and nx: "led_next_key L \<in> key_space ?ks"
    and ne: "ks_first ?ks \<le> ks_last ?ks"
    by (auto simp: accounts_def limits_ok_def)
  have "first_free (\<lambda>k. key_set_contains k ?S) (match_key_space_next ?ks) n (led_next_key L) = None" for n
    using first_free_Some [of "\<lambda>k. key_set_contains k ?S" "match_key_space_next ?ks" n "led_next_key L"]
      key_space_iterate [OF ne nx] active.contains_iff [OF inv] full
    by (metis not_Some_eq)
  moreover have "set_len ?S + 1 \<le> USIZE_MAX"
    using accounts_len [OF acc] acc by (auto simp: accounts_def limits_ok_def)
  ultimately show ?thesis
    by (simp del: first_free.simps add: allocate_key_def usize_checked_add_def)
qed

text \<open>Whether a reservation fits, and the error the ledger reports when it does not.\<close>

definition reserve_refusal ::
  "ReservationLedger \<Rightarrow> RetainedBytes \<Rightarrow> RetainedBytes \<Rightarrow> ReserveError option" where
  "reserve_refusal L retained write_retained =
     (if led_operations L = max_operations (led_limits L) then Some OperationCapacity
      else if led_retained_bytes L + retained > max_retained_bytes (led_limits L)
        then Some RetainedByteCapacity
      else if led_write_frames L = max_write_frames (led_limits L) then Some WriteCapacity
      else if led_write_retained_bytes L + write_retained > max_write_retained_bytes (led_limits L)
        then Some WriteCapacity
      else if key_set_keys (led_active_keys L) = key_space (match_keys (led_limits L))
        then Some MatchKeyExhausted
      else None)"

lemma ledger_reserve_refused:
  assumes "externals_ok X" "accounts L P A" "reserve_refusal L r w = Some e"
  shows "ledger_reserve X r w L = (Inl e, L)"
proof -
  have lim: "max_retained_bytes (led_limits L) \<le> USIZE_MAX"
    "max_write_retained_bytes (led_limits L) \<le> USIZE_MAX" "\<not> led_poisoned L"
    using assms(2) by (auto simp: accounts_def limits_ok_def)
  show ?thesis
    using assms(3) lim allocate_key_exhausted [OF assms(2)]
    by (auto simp: reserve_refusal_def ledger_reserve_def rb_checked_add_ok [OF assms(1)]
        split: if_splits)
qed

lemma ledger_reserve_accepted:
  assumes X: "externals_ok X" and acc: "accounts L P A" and ok: "reserve_refusal L r w = None"
  obtains k L' where
    "ledger_reserve X r w L =
       (Inr \<lparr>res_retained_bytes = r, res_write_retained_bytes = w, res_match_key = k\<rparr>, L')"
    "accounts L' (add_mset \<lparr>res_retained_bytes = r, res_write_retained_bytes = w, res_match_key = k\<rparr> P) A"
    "k \<in> key_space (match_keys (led_limits L))" "k \<notin> key_set_keys (led_active_keys L)"
    "led_limits L' = led_limits L"
proof -
  let ?S = "led_active_keys L" and ?l = "led_limits L"
  have lim: "max_retained_bytes ?l \<le> USIZE_MAX" "max_write_retained_bytes ?l \<le> USIZE_MAX"
    "\<not> led_poisoned L" "max_operations ?l < USIZE_MAX" "max_write_frames ?l \<le> USIZE_MAX"
    using acc by (auto simp: accounts_def limits_ok_def)
  have fit: "led_operations L < max_operations ?l" "led_retained_bytes L + r \<le> max_retained_bytes ?l"
    "led_write_frames L < max_write_frames ?l"
    "led_write_retained_bytes L + w \<le> max_write_retained_bytes ?l"
    "key_set_keys ?S \<noteq> key_space (match_keys ?l)"
    using ok acc by (auto simp: reserve_refusal_def accounts_def split: if_splits)
  from allocate_key_free [OF acc fit(5)] obtain k n where
    k: "allocate_key L = (Inr k, L\<lparr>led_next_key := n\<rparr>)" "k \<in> key_space (match_keys ?l)"
    "n \<in> key_space (match_keys ?l)" "k \<notin> key_set_keys ?S" by blast
  have inv: "key_set_inv ?S" and "set_len ?S < key_set_room ?S"
    using acc accounts_len [OF acc] fit(1) by (auto simp: accounts_def)
  from active.insertE [OF inv k(4) this(2)] obtain S' where
    S': "key_set_insert k ?S = (True, S')" "key_set_inv S'"
    "key_set_keys S' = insert k (key_set_keys ?S)" "key_set_room S' = key_set_room ?S" by blast
  let ?res = "\<lparr>res_retained_bytes = r, res_write_retained_bytes = w, res_match_key = k\<rparr>"
  define L' where "L' = L\<lparr>led_next_key := n, led_active_keys := S',
    led_operations := Suc (led_operations L), led_permits := Suc (led_permits L),
    led_retained_bytes := led_retained_bytes L + r, led_write_frames := Suc (led_write_frames L),
    led_write_retained_bytes := led_write_retained_bytes L + w\<rparr>"
  have "led_permits L < USIZE_MAX" using acc fit(1) lim(4) by (auto simp: accounts_def holders_def)
  then have "ledger_reserve X r w L = (Inr ?res, L')"
    using fit lim k(1) S'(1)
    by (auto simp: ledger_reserve_def rb_checked_add_ok [OF X] L'_def usize_inc_exact)
  moreover have "accounts L' (add_mset ?res P) A"
    using acc fit k S' active.finite_keys [OF inv] by (auto simp: accounts_def L'_def)
  ultimately show ?thesis using that k by (simp add: L'_def)
qed

lemma ledger_commit_accounts:
  assumes X: "externals_ok X" and acc: "accounts L (add_mset r P) A"
    and le: "actual \<le> res_write_retained_bytes r"
  shows "accounts (ledger_commit X r actual L) P (add_mset (r\<lparr>res_write_retained_bytes := actual\<rparr>, True) A)"
proof -
  have "res_write_retained_bytes r - actual \<le> led_write_retained_bytes L" "1 \<le> led_permits L"
    using acc by (auto simp: accounts_def)
  with le have "ledger_commit X r actual L = L\<lparr>led_permits := led_permits L - 1,
      led_write_retained_bytes := led_write_retained_bytes L - (res_write_retained_bytes r - actual)\<rparr>"
    by (simp add: ledger_commit_def rb_checked_sub_ok [OF X] usize_checked_sub_def)
  with acc le show ?thesis by (auto simp: accounts_def)
qed

lemma mset_set_remove:
  assumes "add_mset k M = mset_set S" "finite S"
  shows "M = mset_set (S - {k})"
proof -
  have "k \<in> S" using assms by (metis finite_set_mset_mset_set union_single_eq_member)
  then have "mset_set S = add_mset k (mset_set (S - {k}))"
    using assms(2) by (metis mset_set.remove)
  with assms(1) show ?thesis by simp
qed

text \<open>Both releases, for any reservation the account holds.\<close>

lemma ledger_release_all_exact:
  assumes X: "externals_ok X" and acc: "accounts L P A"
    and r: "r \<in># holders P A" and wr: "held \<Longrightarrow> r \<in># writers P A" and pr: "permit \<Longrightarrow> P \<noteq> {#}"
  obtains S' where
    "ledger_release_all X r held permit L =
       L\<lparr>led_active_keys := S', led_operations := led_operations L - 1,
         led_permits := (if permit then led_permits L - 1 else led_permits L),
         led_retained_bytes := led_retained_bytes L - res_retained_bytes r,
         led_write_frames := (if held then led_write_frames L - 1 else led_write_frames L),
         led_write_retained_bytes :=
           (if held then led_write_retained_bytes L - res_write_retained_bytes r
            else led_write_retained_bytes L)\<rparr>"
    "key_set_inv S'" "key_set_keys S' = key_set_keys (led_active_keys L) - {res_match_key r}"
    "key_set_room S' = key_set_room (led_active_keys L)"
proof -
  let ?S = "led_active_keys L"
  from acc have inv: "key_set_inv ?S" by (simp add: accounts_def)
  from r obtain H where H: "holders P A = add_mset r H" by (metis multi_member_split)
  have "res_match_key r \<in># image_mset res_match_key (holders P A)" using r by simp
  then have "res_match_key r \<in> key_set_keys ?S"
    using acc active.finite_keys [OF inv] unfolding accounts_def
    by (metis finite_set_mset_mset_set)
  from active.removeE [OF inv this] obtain S' where
    S': "key_set_remove (res_match_key r) ?S = (True, S')" "key_set_inv S'"
    "key_set_keys S' = key_set_keys ?S - {res_match_key r}" "key_set_room S' = key_set_room ?S"
    by blast
  have ops: "1 \<le> led_operations L" "res_retained_bytes r \<le> led_retained_bytes L"
    using acc H by (auto simp: accounts_def)
  have perm: "permit \<Longrightarrow> 1 \<le> led_permits L" using acc pr by (cases P) (auto simp: accounts_def)
  have wh: "held \<Longrightarrow> 1 \<le> led_write_frames L \<and> res_write_retained_bytes r \<le> led_write_retained_bytes L"
    using acc wr by (auto simp: accounts_def dest!: multi_member_split)
  show ?thesis
    using that [of S'] S' ops perm wh
    by (simp add: ledger_release_all_def rb_checked_sub_ok [OF X] usize_checked_sub_def)
qed

lemma ledger_rollback_accounts:
  assumes X: "externals_ok X" and acc: "accounts L (add_mset r P) A"
  shows "accounts (ledger_rollback_permit X r L) P A"
proof -
  obtain S' where S': "ledger_rollback_permit X r L =
      L\<lparr>led_active_keys := S', led_operations := led_operations L - 1, led_permits := led_permits L - 1,
        led_retained_bytes := led_retained_bytes L - res_retained_bytes r,
        led_write_frames := led_write_frames L - 1,
        led_write_retained_bytes := led_write_retained_bytes L - res_write_retained_bytes r\<rparr>"
    "key_set_inv S'" "key_set_keys S' = key_set_keys (led_active_keys L) - {res_match_key r}"
    "key_set_room S' = key_set_room (led_active_keys L)"
    using ledger_release_all_exact [OF X acc, of r True True] by (auto simp: ledger_rollback_permit_def)
  with acc active.finite_keys show ?thesis
    by (auto simp: accounts_def intro: mset_set_remove)
qed

lemma ledger_release_accounts:
  assumes X: "externals_ok X" and acc: "accounts L P (add_mset (r, held) A)"
  shows "accounts (ledger_release_operation X r held L) P A"
proof -
  have wr: "held \<Longrightarrow> r \<in># writers P (add_mset (r, held) A)" by (cases held) simp_all
  obtain S' where S': "ledger_release_operation X r held L =
      L\<lparr>led_active_keys := S', led_operations := led_operations L - 1, led_permits := led_permits L,
        led_retained_bytes := led_retained_bytes L - res_retained_bytes r,
        led_write_frames := (if held then led_write_frames L - 1 else led_write_frames L),
        led_write_retained_bytes :=
           (if held then led_write_retained_bytes L - res_write_retained_bytes r
            else led_write_retained_bytes L)\<rparr>"
    "key_set_inv S'" "key_set_keys S' = key_set_keys (led_active_keys L) - {res_match_key r}"
    "key_set_room S' = key_set_room (led_active_keys L)"
    using ledger_release_all_exact [OF X acc, of r held False] wr
    by (auto simp: ledger_release_operation_def)
  with acc active.finite_keys show ?thesis
    by (cases held) (auto simp: accounts_def intro: mset_set_remove)
qed

lemma ledger_release_write_accounts:
  assumes X: "externals_ok X" and acc: "accounts L P (add_mset (r, True) A)"
  shows "accounts (ledger_release_write X (res_write_retained_bytes r) L) P (add_mset (r, False) A)"
proof -
  have "1 \<le> led_write_frames L" "res_write_retained_bytes r \<le> led_write_retained_bytes L"
    using acc by (auto simp: accounts_def)
  then have "ledger_release_write X (res_write_retained_bytes r) L =
      L\<lparr>led_write_frames := led_write_frames L - 1,
        led_write_retained_bytes := led_write_retained_bytes L - res_write_retained_bytes r\<rparr>"
    by (simp add: ledger_release_write_def rb_checked_sub_ok [OF X] usize_checked_sub_def)
  with acc show ?thesis by (auto simp: accounts_def)
qed

section \<open>The interface to the connection machine\<close>

text \<open>
  What the machine relies on: each operation of the book is one step on the multisets of permits
  and accepted operations it stands for. A closing machine releases a whole queue of operations.
\<close>

locale reservation_book =
  fixes commit :: "'r \<Rightarrow> nat \<Rightarrow> 'l \<Rightarrow> 'l"
    and rollback :: "'r \<Rightarrow> 'l \<Rightarrow> 'l"
    and release :: "'r \<Rightarrow> bool \<Rightarrow> 'l \<Rightarrow> 'l"
    and release_write :: "nat \<Rightarrow> 'l \<Rightarrow> 'l"
    and charge :: "'r \<Rightarrow> nat"
    and recharge :: "nat \<Rightarrow> 'r \<Rightarrow> 'r"
    and book :: "'l \<Rightarrow> 'r multiset \<Rightarrow> ('r \<times> bool) multiset \<Rightarrow> bool"
  assumes commit_step: "book L (add_mset r P) A \<Longrightarrow> actual \<le> charge r \<Longrightarrow>
      book (commit r actual L) P (add_mset (recharge actual r, True) A)"
    and rollback_step: "book L (add_mset r P) A \<Longrightarrow> book (rollback r L) P A"
    and release_step: "book L P (add_mset (r, h) A) \<Longrightarrow> book (release r h L) P A"
    and release_write_step: "book L P (add_mset (r, True) A) \<Longrightarrow>
      book (release_write (charge r) L) P (add_mset (r, False) A)"
begin

lemma release_list:
  "book L P (mset xs + A) \<Longrightarrow> book (fold (\<lambda>(r, h). release r h) xs L) P A"
proof (induction xs arbitrary: L)
  case Nil
  then show ?case by simp
next
  case (Cons x xs)
  obtain r h where "x = (r, h)" by (cases x)
  with Cons.prems have "book (release r h L) P (mset xs + A)" by (simp add: release_step)
  with Cons.IH \<open>x = (r, h)\<close> show ?case by simp
qed

text \<open>A permit that is committed with its full charge and then released leaves no trace.\<close>

lemma commit_release:
  assumes "book L (add_mset r P) A" "actual \<le> charge r"
  shows "book (release (recharge actual r) True (commit r actual L)) P A"
  using commit_step [OF assms] by (rule release_step)

lemma rollback_list: "book L (mset rs + P) A \<Longrightarrow> book (fold rollback rs L) P A"
  by (induction rs arbitrary: L) (simp_all add: rollback_step)

end

interpretation ledger: reservation_book "ledger_commit X" "ledger_rollback_permit X"
  "ledger_release_operation X" "ledger_release_write X" res_write_retained_bytes
  "\<lambda>n r. r\<lparr>res_write_retained_bytes := n\<rparr>" "\<lambda>L P A. externals_ok X \<and> accounts L P A"
  for X :: "'g externals"
  by unfold_locales
    (auto intro: ledger_commit_accounts ledger_rollback_accounts ledger_release_accounts
      ledger_release_write_accounts)

lemma permit_drop_accounts:
  assumes "externals_ok X" "accounts L (add_mset (permit_reservation p) P) A" "permit_active p"
  shows "accounts (snd (permit_drop X p L)) P A" "\<not> permit_active (fst (permit_drop X p L))"
  using ledger_rollback_accounts [OF assms(1,2)] assms(3) by (simp_all add: permit_drop_def)

text \<open>Releases keep the configured limits.\<close>

lemma ledger_limits_kept [simp, frame_simps]:
  "led_limits (ledger_commit X r a L) = led_limits L"
  "led_limits (ledger_release_all X r h p L) = led_limits L"
  "led_limits (ledger_rollback_permit X r L) = led_limits L"
  "led_limits (ledger_release_operation X r h L) = led_limits L"
  "led_limits (ledger_release_write X w L) = led_limits L"
  by (simp_all add: ledger_commit_def ledger_release_all_def ledger_rollback_permit_def
      ledger_release_operation_def ledger_release_write_def poison_ledger_def
      split: option.split prod.split bool.split)

end
