(* ===== verification/Matching.thy ===== *)
theory Matching
  imports Ledger
begin

text \<open>
  \<^verbatim>\<open>operation/record.rs\<close> and \<^verbatim>\<open>matching/ordered_verified.rs\<close>: the accepted operations of one epoch in
  wire order. Replies are matched against the front only.
\<close>

section \<open>Operation records and the pending queue\<close>

record OperationRecord =
  rec_id :: OperationId
  rec_effect :: EffectId
  rec_deadline :: Deadline
  rec_reservation :: Reservation
  rec_phase :: OperationPhase
  rec_completion :: CompletionMode
  rec_delivery :: Delivery
  rec_write_held :: bool

record OrderedVerified =
  ov_key_space :: MatchKeySpace
  ov_capacity :: usize
  ov_pending :: "OperationRecord list"

definition matching_new :: "MatchKeySpace \<Rightarrow> usize \<Rightarrow> OrderedVerified" where
  "matching_new space capacity =
     \<lparr>ov_key_space = space, ov_capacity = capacity, ov_pending = []\<rparr>"

definition matching_index_of :: "OperationId \<Rightarrow> OrderedVerified \<Rightarrow> nat option" where
  "matching_index_of oid m = position (\<lambda>r. rec_id r = oid) (ov_pending m)"

definition matching_push :: "OperationRecord \<Rightarrow> OrderedVerified \<Rightarrow> OrderedVerified" where
  "matching_push r m = m\<lparr>ov_pending := ov_pending m @ [r]\<rparr>"

definition matching_get_indexed ::
  "OperationId \<Rightarrow> OrderedVerified \<Rightarrow> (nat \<times> OperationRecord) option" where
  "matching_get_indexed oid m =
     (case matching_index_of oid m of
        None \<Rightarrow> None
      | Some index \<Rightarrow>
          (if index < length (ov_pending m) then Some (index, ov_pending m ! index) else None))"

definition matching_get :: "OperationId \<Rightarrow> OrderedVerified \<Rightarrow> OperationRecord option" where
  "matching_get oid m = map_option snd (matching_get_indexed oid m)"

text \<open>A mutation through \<^verbatim>\<open>get_mut\<close>: the record found is replaced by its image under \<open>f\<close>.\<close>

definition matching_update ::
  "OperationId \<Rightarrow> (OperationRecord \<Rightarrow> OperationRecord) \<Rightarrow> OrderedVerified \<Rightarrow> OrderedVerified" where
  "matching_update oid f m =
     (case matching_index_of oid m of
        None \<Rightarrow> m
      | Some index \<Rightarrow> m\<lparr>ov_pending := (ov_pending m)[index := f (ov_pending m ! index)]\<rparr>)"

definition matching_front :: "OrderedVerified \<Rightarrow> OperationRecord option" where
  "matching_front m = (case ov_pending m of [] \<Rightarrow> None | r # _ \<Rightarrow> Some r)"

definition front_match_key :: "OrderedVerified \<Rightarrow> MatchKey option" where
  "front_match_key m = map_option (\<lambda>r. res_match_key (rec_reservation r)) (matching_front m)"

definition matching_pop_front :: "OrderedVerified \<Rightarrow> OperationRecord option \<times> OrderedVerified" where
  "matching_pop_front m =
     (case ov_pending m of
        [] \<Rightarrow> (None, m)
      | r # rs \<Rightarrow> (Some r, m\<lparr>ov_pending := rs\<rparr>))"

definition matching_remove ::
  "OperationId \<Rightarrow> OrderedVerified \<Rightarrow> OperationRecord option \<times> OrderedVerified" where
  "matching_remove oid m =
     (case matching_index_of oid m of
        None \<Rightarrow> (None, m)
      | Some index \<Rightarrow>
          (if index < length (ov_pending m)
           then (Some (ov_pending m ! index), m\<lparr>ov_pending := remove_nth index (ov_pending m)\<rparr>)
           else (None, m)))"

definition pending_operations :: "OrderedVerified \<Rightarrow> usize" where
  "pending_operations m = length (ov_pending m)"

definition matching_is_empty :: "OrderedVerified \<Rightarrow> bool" where
  "matching_is_empty m \<longleftrightarrow> ov_pending m = []"

definition terminal_len :: "OrderedVerified \<Rightarrow> usize" where
  "terminal_len m = length (filter (\<lambda>r. rec_phase r = Terminal) (ov_pending m))"

definition active_len :: "OrderedVerified \<Rightarrow> usize" where
  "active_len m = length (filter (\<lambda>r. rec_phase r \<noteq> Terminal) (ov_pending m))"

section \<open>Access by identity\<close>

text \<open>The first record of an identity splits the queue; with distinct identities it is the only one.\<close>

lemma matching_index_split:
  assumes "matching_index_of oid m = Some i"
  obtains ys r zs where "ov_pending m = ys @ r # zs" "length ys = i" "rec_id r = oid"
    "\<forall>y \<in> set ys. rec_id y \<noteq> oid"
  using position_split [OF assms [unfolded matching_index_of_def]] by metis

lemma matching_get_split:
  assumes "matching_get oid m = Some r"
  obtains ys zs where "ov_pending m = ys @ r # zs" "rec_id r = oid" "\<forall>y \<in> set ys. rec_id y \<noteq> oid"
    "matching_index_of oid m = Some (length ys)"
proof -
  from assms obtain i where i: "matching_index_of oid m = Some i" "r = ov_pending m ! i"
    by (auto simp: matching_get_def matching_get_indexed_def split: option.splits if_splits)
  from matching_index_split [OF i(1)] obtain ys r' zs where s: "ov_pending m = ys @ r' # zs"
    "length ys = i" "rec_id r' = oid" "\<forall>y \<in> set ys. rec_id y \<noteq> oid" by blast
  with i that [of ys zs] show ?thesis by (metis nth_append_length)
qed

lemma matching_get_None: "matching_get oid m = None \<longleftrightarrow> (\<forall>r \<in> set (ov_pending m). rec_id r \<noteq> oid)"
proof (cases "matching_index_of oid m")
  case None
  then show ?thesis
    by (simp add: matching_get_def matching_get_indexed_def) (simp add: matching_index_of_def)
next
  case (Some i)
  then have "i < length (ov_pending m)" "rec_id (ov_pending m ! i) = oid"
    using position_Some by (auto simp: matching_index_of_def)
  with Some show ?thesis
    by (auto simp: matching_get_def matching_get_indexed_def dest: nth_mem)
qed

lemma matching_at:
  assumes "ov_pending m = ys @ r # zs" "\<forall>y \<in> set ys. rec_id y \<noteq> rec_id r"
  shows "matching_index_of (rec_id r) m = Some (length ys)"
    and "matching_get_indexed (rec_id r) m = Some (length ys, r)"
    and "matching_get (rec_id r) m = Some r"
    and "matching_update (rec_id r) f m = m\<lparr>ov_pending := ys @ f r # zs\<rparr>"
    and "matching_remove (rec_id r) m = (Some r, m\<lparr>ov_pending := ys @ zs\<rparr>)"
proof -
  show idx: "matching_index_of (rec_id r) m = Some (length ys)"
    using assms by (simp add: matching_index_of_def position_append_first)
  show gi: "matching_get_indexed (rec_id r) m = Some (length ys, r)"
    using assms idx by (simp add: matching_get_indexed_def)
  show "matching_get (rec_id r) m = Some r" using gi by (simp add: matching_get_def)
  show "matching_update (rec_id r) f m = m\<lparr>ov_pending := ys @ f r # zs\<rparr>"
    using assms idx by (simp add: matching_update_def)
  show "matching_remove (rec_id r) m = (Some r, m\<lparr>ov_pending := ys @ zs\<rparr>)"
    using assms idx by (simp add: matching_remove_def)
qed

lemma active_terminal_len: "active_len m + terminal_len m = pending_operations m"
  using sum_length_filter_compl [of "\<lambda>r. rec_phase r \<noteq> Terminal" "ov_pending m"]
  by (simp add: active_len_def terminal_len_def pending_operations_def)

end
