(* ===== verification/Machine.thy ===== *)
theory Machine
  imports Matching
begin

text \<open>
  \<^verbatim>\<open>connection/\<close>: the deterministic policy of one connection epoch, without the frames. Every
  operation returns its data-only transition together with the next machine state. The machine
  keeps the ledger value that its permits share; \<open>m_ledger_ref\<close> is the identity of that allocation.
\<close>

section \<open>Data\<close>

datatype ConnectionPhase = Live | Closing | PhaseClosed

datatype 'r ConnectionEffect =
    ScheduleDeadline (sched_epoch: ConnectionEpoch) (sched_operation: OperationId)
      (sched_deadline: Deadline)
  | DiscardWrite (disc_effect: EffectId) (disc_epoch: ConnectionEpoch) (disc_operation: OperationId)
  | CancelDeadline (canc_epoch: ConnectionEpoch) (canc_operation: OperationId)
  | CloseEpoch (close_epoch: ConnectionEpoch) (close_reason_of: CloseReason)
  | PublishOutcome (pub_epoch: ConnectionEpoch) (pub_operation: OperationId)
      (pub_outcome: "'r OperationOutcome")

definition effect_failed ::
  "ConnectionEpoch \<Rightarrow> OperationId \<Rightarrow> OperationFailure \<Rightarrow> Delivery \<Rightarrow> 'r ConnectionEffect" where
  "effect_failed epoch operation failure delivery =
     PublishOutcome epoch operation (OutFailed failure delivery)"

datatype InputDisposition =
    Applied
  | IgnoredStaleEpoch
  | IgnoredUnknownOperation
  | IgnoredStaleEffect
  | AlreadyTerminal
  | IgnoredInvalidPhase
  | Fault

datatype CancelOutcome =
    CancelledNotSent
  | ObservationCancelled Delivery
  | CancelAlreadyTerminal

record 'r ConnectionTransition =
  tr_disposition :: InputDisposition
  tr_cancel_outcome :: "CancelOutcome option"
  tr_effects :: "'r ConnectionEffect list"

definition transition_new :: "InputDisposition \<Rightarrow> 'r ConnectionTransition" where
  "transition_new d = \<lparr>tr_disposition = d, tr_cancel_outcome = None, tr_effects = []\<rparr>"

definition transition_cancelled ::
  "CancelOutcome \<Rightarrow> 'r ConnectionTransition \<Rightarrow> 'r ConnectionTransition" where
  "transition_cancelled outcome t = t\<lparr>tr_cancel_outcome := Some outcome\<rparr>"

definition transition_push ::
  "'r ConnectionEffect \<Rightarrow> 'r ConnectionTransition \<Rightarrow> 'r ConnectionTransition" where
  "transition_push effect t = t\<lparr>tr_effects := tr_effects t @ [effect]\<rparr>"

datatype ConnectionInput =
    OpenAdmission ConnectionEpoch
  | Cancel ConnectionEpoch OperationId
  | InputDeadlineElapsed ConnectionEpoch OperationId Moment
  | ReplyMalformed ConnectionEpoch
  | BeginDrain ConnectionEpoch
  | CloseRequested ConnectionEpoch CloseReason
  | EpochClosed ConnectionEpoch

record 'r InboundReply =
  reply_epoch :: ConnectionEpoch
  reply_key :: MatchKey
  reply_frame :: 'r

record ConnectionMachine =
  m_endpoint :: EndpointId
  m_lane :: LaneId
  m_connection :: ConnectionId
  m_epoch :: ConnectionEpoch
  m_phase :: ConnectionPhase
  m_gate :: AdmissionGate
  m_close_reason :: "CloseReason option"
  m_identities :: IdentityGenerator
  m_ledger_ref :: LedgerRef
  m_ledger :: ReservationLedger
  m_matching :: OrderedVerified

definition machine_with_identity_seeds ::
  "LedgerRef \<Rightarrow> EndpointId \<Rightarrow> LaneId \<Rightarrow> ConnectionId \<Rightarrow> ConnectionEpoch \<Rightarrow> ConnectionLimits \<Rightarrow>
   IdentitySeeds \<Rightarrow> ConnectionMachine" where
  "machine_with_identity_seeds ref endpoint lane connection epoch limits seeds =
     \<lparr>m_endpoint = endpoint, m_lane = lane, m_connection = connection, m_epoch = epoch,
      m_phase = Live, m_gate = SessionOnly, m_close_reason = None,
      m_identities = identity_generator_new seeds, m_ledger_ref = ref,
      m_ledger = ledger_new limits,
      m_matching = matching_new (match_keys limits) (max_operations limits)\<rparr>"

definition machine_new ::
  "LedgerRef \<Rightarrow> EndpointId \<Rightarrow> LaneId \<Rightarrow> ConnectionId \<Rightarrow> ConnectionEpoch \<Rightarrow> ConnectionLimits \<Rightarrow>
   ConnectionMachine" where
  "machine_new ref endpoint lane connection epoch limits =
     machine_with_identity_seeds ref endpoint lane connection epoch limits IdentitySeeds_ZERO"

section \<open>Admission\<close>

definition machine_reserve ::
  "'g externals \<Rightarrow> Moment \<Rightarrow> OperationOptions \<Rightarrow> ConnectionMachine \<Rightarrow>
   (ReserveError + OperationPermit) \<times> ConnectionMachine" where
  "machine_reserve X now options m =
     (if \<not> admits (m_gate m) (opt_class options) then (Inl AdmissionClosed, m)
      else if is_elapsed_at X (opt_deadline options) now then (Inl DeadlineElapsed, m)
      else if \<not> identity_available (m_identities m) then (Inl IdentityExhausted, m)
      else (case ledger_reserve X (opt_retained_bytes options) (opt_write_retained_bytes options)
                   (m_ledger m) of
        (Inl e, L) \<Rightarrow> (Inl e, m\<lparr>m_ledger := L\<rparr>)
      | (Inr reservation, L) \<Rightarrow>
          (case identity_take (m_identities m) of
             (None, g) \<Rightarrow>
               (Inl IdentityExhausted,
                m\<lparr>m_ledger := ledger_rollback_permit X reservation L, m_identities := g\<rparr>)
           | (Some (operation, effect), g) \<Rightarrow>
               (Inr \<lparr>permit_ledger = m_ledger_ref m, permit_epoch = m_epoch m,
                     permit_operation = operation, permit_effect = effect,
                     permit_deadline = opt_deadline options, permit_class = opt_class options,
                     permit_completion = opt_completion_mode options,
                     permit_reservation = reservation, permit_active = True\<rparr>,
                m\<lparr>m_ledger := L, m_identities := g\<rparr>))))"

datatype CommitErrorKind =
    ForeignPermit
  | CommitAdmissionClosed
  | FrameTooLarge
  | CommitOwnerPoisoned

definition commit_failure ::
  "OperationPermit \<Rightarrow> RetainedBytes \<Rightarrow> ConnectionMachine \<Rightarrow> CommitErrorKind option" where
  "commit_failure permit frame_retained m =
     (if m_ledger_ref m \<noteq> permit_ledger permit \<or> permit_epoch permit \<noteq> m_epoch m
        then Some ForeignPermit
      else if \<not> admits (m_gate m) (permit_class permit) then Some CommitAdmissionClosed
      else if frame_retained > res_write_retained_bytes (permit_reservation permit)
        then Some FrameTooLarge
      else None)"

definition commit_permit ::
  "'g externals \<Rightarrow> OperationPermit \<Rightarrow> RetainedBytes \<Rightarrow> ConnectionMachine \<Rightarrow>
   (OperationId \<times> unit ConnectionTransition) \<times> ConnectionMachine" where
  "commit_permit X permit frame_retained m =
     (let (permit, L) = permit_commit X frame_retained permit (m_ledger m);
          operation = permit_operation permit;
          record = \<lparr>rec_id = operation, rec_effect = permit_effect permit,
                    rec_deadline = permit_deadline permit,
                    rec_reservation = permit_reservation permit, rec_phase = Queued,
                    rec_completion = permit_completion permit, rec_delivery = NotSent,
                    rec_write_held = True\<rparr>;
          transition = transition_push (ScheduleDeadline (m_epoch m) operation (rec_deadline record))
                         (transition_new Applied)
      in ((operation, transition),
          m\<lparr>m_ledger := L, m_matching := matching_push record (m_matching m)\<rparr>))"

section \<open>Closing\<close>

text \<open>
  The loop of \<^verbatim>\<open>close_with_failure_into\<close> pops every pending record: it cancels its deadline,
  discards its frame when it is still held, publishes a failure unless the record is terminal, and
  releases its reservation.
\<close>

definition close_failure ::
  "CloseReason \<Rightarrow> (OperationId \<times> OperationFailure) option \<Rightarrow> OperationRecord \<Rightarrow> OperationFailure" where
  "close_failure reason operation_failure record =
     (case operation_failure of
        None \<Rightarrow> ConnectionClosed reason
      | Some (operation, failure) \<Rightarrow>
          if operation = rec_id record then failure else ConnectionClosed reason)"

fun close_records ::
  "'g externals \<Rightarrow> ConnectionEpoch \<Rightarrow> CloseReason \<Rightarrow> (OperationId \<times> OperationFailure) option \<Rightarrow>
   OperationRecord list \<Rightarrow> ReservationLedger \<Rightarrow> 'r ConnectionTransition \<Rightarrow>
   ReservationLedger \<times> 'r ConnectionTransition" where
  "close_records X epoch reason operation_failure [] L t = (L, t)"
| "close_records X epoch reason operation_failure (record # records) L t =
     (let t1 = transition_push (CancelDeadline epoch (rec_id record)) t;
          t2 = (if rec_write_held record
                then transition_push (DiscardWrite (rec_effect record) epoch (rec_id record)) t1
                else t1);
          t3 = (if rec_phase record \<noteq> Terminal
                then transition_push
                       (effect_failed epoch (rec_id record)
                          (close_failure reason operation_failure record) (rec_delivery record)) t2
                else t2);
          L1 = ledger_release_operation X (rec_reservation record) (rec_write_held record) L
      in close_records X epoch reason operation_failure records L1 t3)"

definition close_with_failure_into ::
  "'g externals \<Rightarrow> CloseReason \<Rightarrow> (OperationId \<times> OperationFailure) option \<Rightarrow>
   'r ConnectionTransition \<Rightarrow> ConnectionMachine \<Rightarrow> 'r ConnectionTransition \<times> ConnectionMachine" where
  "close_with_failure_into X reason operation_failure t m =
     (if m_phase m \<noteq> Live then (t, m)
      else
        (let m1 = m\<lparr>m_gate := GateClosed, m_phase := Closing, m_close_reason := Some reason\<rparr>;
             t1 = transition_push (CloseEpoch (m_epoch m) reason) t;
             (L, t2) = close_records X (m_epoch m) reason operation_failure
                         (ov_pending (m_matching m)) (m_ledger m) t1
         in (t2, m1\<lparr>m_ledger := L, m_matching := (m_matching m)\<lparr>ov_pending := []\<rparr>\<rparr>)))"

definition close_into ::
  "'g externals \<Rightarrow> CloseReason \<Rightarrow> 'r ConnectionTransition \<Rightarrow> ConnectionMachine \<Rightarrow>
   'r ConnectionTransition \<times> ConnectionMachine" where
  "close_into X reason t m = close_with_failure_into X reason None t m"

definition finish_drain ::
  "'g externals \<Rightarrow> 'r ConnectionTransition \<Rightarrow> ConnectionMachine \<Rightarrow>
   'r ConnectionTransition \<times> ConnectionMachine" where
  "finish_drain X t m =
     (if m_gate m = Draining \<and> matching_is_empty (m_matching m) then close_into X Drained t m
      else (t, m))"

section \<open>Inputs\<close>

definition open_admission ::
  "ConnectionEpoch \<Rightarrow> ConnectionMachine \<Rightarrow> unit ConnectionTransition \<times> ConnectionMachine" where
  "open_admission epoch m =
     (if epoch \<noteq> m_epoch m then (transition_new IgnoredStaleEpoch, m)
      else if m_phase m = Live \<and> m_gate m = SessionOnly
        then (transition_new Applied, m\<lparr>m_gate := Open\<rparr>)
      else (transition_new IgnoredInvalidPhase, m))"

definition machine_cancel ::
  "'g externals \<Rightarrow> ConnectionEpoch \<Rightarrow> OperationId \<Rightarrow> ConnectionMachine \<Rightarrow>
   unit ConnectionTransition \<times> ConnectionMachine" where
  "machine_cancel X epoch operation m =
     (if epoch \<noteq> m_epoch m
        then (transition_cancelled CancelAlreadyTerminal (transition_new IgnoredStaleEpoch), m)
      else (case matching_get operation (m_matching m) of
        None \<Rightarrow>
          (transition_cancelled CancelAlreadyTerminal (transition_new IgnoredUnknownOperation), m)
      | Some record \<Rightarrow>
          if rec_phase record = Terminal
            then (transition_cancelled CancelAlreadyTerminal (transition_new AlreadyTerminal), m)
          else if rec_delivery record = NotSent then
            (case matching_remove operation (m_matching m) of
               (None, matching) \<Rightarrow>
                 (transition_cancelled CancelAlreadyTerminal
                    (transition_new IgnoredUnknownOperation), m\<lparr>m_matching := matching\<rparr>)
             | (Some removed, matching) \<Rightarrow>
                 (let t = transition_new Applied;
                      t1 = (if rec_write_held removed
                            then transition_push
                                   (DiscardWrite (rec_effect removed) (m_epoch m) operation) t
                            else t);
                      t2 = transition_push (CancelDeadline (m_epoch m) operation) t1;
                      t3 = transition_push
                             (PublishOutcome (m_epoch m) operation (OutCancelled NotSent)) t2;
                      m1 = m\<lparr>m_matching := matching,
                             m_ledger := ledger_release_operation X (rec_reservation removed)
                                           (rec_write_held removed) (m_ledger m)\<rparr>
                  in finish_drain X (transition_cancelled CancelledNotSent t3) m1))
          else
            (transition_cancelled (ObservationCancelled PossiblySent)
               (transition_push
                  (PublishOutcome (m_epoch m) operation (OutCancelled PossiblySent))
                  (transition_new Applied)),
             m\<lparr>m_matching :=
                 matching_update operation (\<lambda>r. r\<lparr>rec_phase := Terminal\<rparr>) (m_matching m)\<rparr>)))"

definition deadline_elapsed ::
  "'g externals \<Rightarrow> ConnectionEpoch \<Rightarrow> OperationId \<Rightarrow> Moment \<Rightarrow> ConnectionMachine \<Rightarrow>
   unit ConnectionTransition \<times> ConnectionMachine" where
  "deadline_elapsed X epoch operation now m =
     (if epoch \<noteq> m_epoch m then (transition_new IgnoredStaleEpoch, m)
      else (case matching_get operation (m_matching m) of
        None \<Rightarrow> (transition_new IgnoredUnknownOperation, m)
      | Some record \<Rightarrow>
          if \<not> is_elapsed_at X (rec_deadline record) now then
            (transition_push (ScheduleDeadline (m_epoch m) operation (rec_deadline record))
               (transition_new Applied), m)
          else if rec_delivery record = PossiblySent then
            close_into X DeadlineAfterPossibleSend (transition_new Applied) m
          else
            (case matching_remove operation (m_matching m) of
               (None, matching) \<Rightarrow>
                 (transition_new IgnoredUnknownOperation, m\<lparr>m_matching := matching\<rparr>)
             | (Some removed, matching) \<Rightarrow>
                 (let t = transition_new Applied;
                      t1 = (if rec_write_held removed
                            then transition_push
                                   (DiscardWrite (rec_effect removed) (m_epoch m) operation) t
                            else t);
                      t2 = transition_push (CancelDeadline (m_epoch m) operation) t1;
                      t3 = transition_push
                             (effect_failed (m_epoch m) operation FailDeadlineElapsed NotSent) t2;
                      m1 = m\<lparr>m_matching := matching,
                             m_ledger := ledger_release_operation X (rec_reservation removed)
                                           (rec_write_held removed) (m_ledger m)\<rparr>
                  in finish_drain X t3 m1))))"

definition reply_malformed ::
  "'g externals \<Rightarrow> ConnectionEpoch \<Rightarrow> ConnectionMachine \<Rightarrow>
   unit ConnectionTransition \<times> ConnectionMachine" where
  "reply_malformed X epoch m =
     (if epoch \<noteq> m_epoch m then (transition_new IgnoredStaleEpoch, m)
      else if m_phase m \<noteq> Live then (transition_new IgnoredInvalidPhase, m)
      else close_into X MalformedReply (transition_new Fault) m)"

definition begin_drain ::
  "'g externals \<Rightarrow> ConnectionEpoch \<Rightarrow> ConnectionMachine \<Rightarrow>
   unit ConnectionTransition \<times> ConnectionMachine" where
  "begin_drain X epoch m =
     (if epoch \<noteq> m_epoch m then (transition_new IgnoredStaleEpoch, m)
      else if m_phase m \<noteq> Live \<or> m_gate m = GateClosed \<or> m_gate m = Draining
        then (transition_new IgnoredInvalidPhase, m)
      else finish_drain X (transition_new Applied) (m\<lparr>m_gate := Draining\<rparr>))"

definition close_requested ::
  "'g externals \<Rightarrow> ConnectionEpoch \<Rightarrow> CloseReason \<Rightarrow> ConnectionMachine \<Rightarrow>
   unit ConnectionTransition \<times> ConnectionMachine" where
  "close_requested X epoch reason m =
     (if epoch \<noteq> m_epoch m then (transition_new IgnoredStaleEpoch, m)
      else if m_phase m \<noteq> Live then (transition_new IgnoredInvalidPhase, m)
      else close_into X reason (transition_new Applied) m)"

definition epoch_closed ::
  "ConnectionEpoch \<Rightarrow> ConnectionMachine \<Rightarrow> unit ConnectionTransition \<times> ConnectionMachine" where
  "epoch_closed epoch m =
     (if epoch \<noteq> m_epoch m then (transition_new IgnoredStaleEpoch, m)
      else if m_phase m \<noteq> Closing then (transition_new IgnoredInvalidPhase, m)
      else (transition_new Applied, m\<lparr>m_phase := PhaseClosed, m_gate := GateClosed\<rparr>))"

fun machine_apply ::
  "'g externals \<Rightarrow> ConnectionInput \<Rightarrow> ConnectionMachine \<Rightarrow>
   unit ConnectionTransition \<times> ConnectionMachine" where
  "machine_apply X (OpenAdmission epoch) m = open_admission epoch m"
| "machine_apply X (Cancel epoch operation) m = machine_cancel X epoch operation m"
| "machine_apply X (InputDeadlineElapsed epoch operation now) m =
     deadline_elapsed X epoch operation now m"
| "machine_apply X (ReplyMalformed epoch) m = reply_malformed X epoch m"
| "machine_apply X (BeginDrain epoch) m = begin_drain X epoch m"
| "machine_apply X (CloseRequested epoch reason) m = close_requested X epoch reason m"
| "machine_apply X (EpochClosed epoch) m = epoch_closed epoch m"

section \<open>Write progress\<close>

definition write_started ::
  "ConnectionEpoch \<Rightarrow> OperationId \<Rightarrow> EffectId \<Rightarrow> ConnectionMachine \<Rightarrow>
   unit ConnectionTransition \<times> ConnectionMachine" where
  "write_started epoch operation effect m =
     (if epoch \<noteq> m_epoch m then (transition_new IgnoredStaleEpoch, m)
      else (case matching_get operation (m_matching m) of
        None \<Rightarrow> (transition_new IgnoredUnknownOperation, m)
      | Some record \<Rightarrow>
          if rec_phase record = Terminal then (transition_new AlreadyTerminal, m)
          else if rec_effect record \<noteq> effect then (transition_new IgnoredStaleEffect, m)
          else if rec_phase record \<noteq> Queued then (transition_new IgnoredInvalidPhase, m)
          else
            (transition_new Applied,
             m\<lparr>m_matching :=
                 matching_update operation
                   (\<lambda>r. r\<lparr>rec_delivery := possibly_sent (rec_delivery r), rec_phase := Writing\<rparr>)
                   (m_matching m)\<rparr>)))"

definition write_completed ::
  "'g externals \<Rightarrow> ConnectionEpoch \<Rightarrow> OperationId \<Rightarrow> EffectId \<Rightarrow> ConnectionMachine \<Rightarrow>
   unit ConnectionTransition \<times> ConnectionMachine" where
  "write_completed X epoch operation effect m =
     (if epoch \<noteq> m_epoch m then (transition_new IgnoredStaleEpoch, m)
      else (case matching_get operation (m_matching m) of
        None \<Rightarrow> (transition_new IgnoredUnknownOperation, m)
      | Some record \<Rightarrow>
          if rec_effect record \<noteq> effect then (transition_new IgnoredStaleEffect, m)
          else
            (let completes_empty_frame = (rec_phase record = Queued) in
             if (\<not> (rec_phase record = Writing \<or> rec_phase record = Terminal) \<and>
                  \<not> completes_empty_frame) \<or> \<not> rec_write_held record
             then (transition_new IgnoredInvalidPhase, m)
             else
               (let m1 = m\<lparr>m_ledger :=
                            ledger_release_write X
                              (res_write_retained_bytes (rec_reservation record)) (m_ledger m)\<rparr>
                in if rec_completion record = ReplyExpected then
                     (transition_new Applied,
                      m1\<lparr>m_matching :=
                           matching_update operation
                             (\<lambda>r. r\<lparr>rec_phase := (if rec_phase r \<noteq> Terminal then AwaitingReply
                                                  else rec_phase r),
                                    rec_write_held := False\<rparr>)
                             (m_matching m1)\<rparr>)
                   else
                     (case matching_remove operation (m_matching m1) of
                        (None, matching) \<Rightarrow>
                          (transition_new IgnoredUnknownOperation, m1\<lparr>m_matching := matching\<rparr>)
                      | (Some completed, matching) \<Rightarrow>
                          (let t1 = transition_push (CancelDeadline (m_epoch m) operation)
                                      (transition_new Applied);
                               t2 = (if rec_phase completed \<noteq> Terminal
                                     then transition_push
                                            (PublishOutcome (m_epoch m) operation
                                               (OutWriteComplete (rec_delivery completed))) t1
                                     else t1);
                               m2 = m1\<lparr>m_matching := matching,
                                        m_ledger := ledger_release_operation X
                                          (rec_reservation completed) False (m_ledger m1)\<rparr>
                           in finish_drain X t2 m2))))))"

section \<open>Replies\<close>

definition machine_apply_reply ::
  "'g externals \<Rightarrow> 'r InboundReply \<Rightarrow> ConnectionMachine \<Rightarrow>
   'r ConnectionTransition \<times> ConnectionMachine" where
  "machine_apply_reply X reply m =
     (let received = reply_key reply in
      if reply_epoch reply \<noteq> m_epoch m then (transition_new IgnoredStaleEpoch, m)
      else if m_phase m \<noteq> Live then (transition_new IgnoredInvalidPhase, m)
      else (case matching_front (m_matching m) of
        None \<Rightarrow> close_into X UnexpectedReply (transition_new Fault) m
      | Some front \<Rightarrow>
          if \<not> (rec_phase front = AwaitingReply \<or> rec_phase front = Terminal) \<or> rec_write_held front
            then close_into X UnexpectedReply (transition_new Fault) m
          else
            (let expected = res_match_key (rec_reservation front) in
             if received \<noteq> expected then
               close_with_failure_into X (CloseMatchKeyMismatch expected received)
                 (Some (rec_id front, FailMatchKeyMismatch expected received))
                 (transition_new Fault) m
             else
               (case matching_pop_front (m_matching m) of
                  (None, matching) \<Rightarrow>
                    (transition_new IgnoredUnknownOperation, m\<lparr>m_matching := matching\<rparr>)
                | (Some completed, matching) \<Rightarrow>
                    (let t1 = transition_push (CancelDeadline (m_epoch m) (rec_id completed))
                                (transition_new Applied);
                         t2 = (if rec_phase completed \<noteq> Terminal
                               then transition_push
                                      (PublishOutcome (m_epoch m) (rec_id completed)
                                         (OutReply (reply_frame reply))) t1
                               else t1);
                         m1 = m\<lparr>m_matching := matching,
                                m_ledger := ledger_release_operation X
                                  (rec_reservation completed) False (m_ledger m)\<rparr>
                     in finish_drain X t2 m1)))))"

section \<open>Observation\<close>

record ConnectionSnapshot =
  sn_endpoint :: EndpointId
  sn_lane :: LaneId
  sn_connection :: ConnectionId
  sn_epoch :: ConnectionEpoch
  sn_phase :: ConnectionPhase
  sn_gate :: AdmissionGate
  sn_close_reason :: "CloseReason option"
  sn_reserved_permits :: usize
  sn_owned_operations :: usize
  sn_active_operations :: usize
  sn_terminal_slots :: usize
  sn_active_match_keys :: usize
  sn_retained_bytes :: RetainedBytes
  sn_buffered_write_frames :: usize
  sn_buffered_write_retained_bytes :: RetainedBytes

definition machine_snapshot :: "ConnectionMachine \<Rightarrow> ConnectionSnapshot" where
  "machine_snapshot m =
     (let L = m_ledger m in
      \<lparr>sn_endpoint = m_endpoint m, sn_lane = m_lane m, sn_connection = m_connection m,
       sn_epoch = m_epoch m, sn_phase = m_phase m, sn_gate = m_gate m,
       sn_close_reason = m_close_reason m, sn_reserved_permits = led_permits L,
       sn_owned_operations = led_operations L, sn_active_operations = active_len (m_matching m),
       sn_terminal_slots = terminal_len (m_matching m),
       sn_active_match_keys = set_len (led_active_keys L),
       sn_retained_bytes = led_retained_bytes L, sn_buffered_write_frames = led_write_frames L,
       sn_buffered_write_retained_bytes = led_write_retained_bytes L\<rparr>)"

end
