(* ===== verification/MachineInv.thy ===== *)
theory MachineInv
  imports Machine
begin

text \<open>
  The invariant of the connection machine and the contract of its transitions: every accepted
  operation leaves the pending queue with its deadline cancelled, its frame discarded when it is
  still held, and exactly one terminal outcome published.
\<close>

section \<open>Removal of a list of identities\<close>

text \<open>\<open>ys\<close> is \<open>xs\<close> without the elements whose keys are \<open>ds\<close>, each of which \<open>xs\<close> had.\<close>

definition removes :: "('a \<Rightarrow> 'b) \<Rightarrow> 'a list \<Rightarrow> 'b list \<Rightarrow> 'a list \<Rightarrow> bool" where
  "removes f xs ds ys \<longleftrightarrow>
     distinct ds \<and> set ds \<subseteq> f ` set xs \<and> ys = filter (\<lambda>x. f x \<notin> set ds) xs"

lemma removes_nil [simp, intro]: "removes f xs [] xs"
  by (simp add: removes_def)

lemma removes_nil_iff [simp]: "removes f xs [] ys \<longleftrightarrow> ys = xs"
  by (auto simp: removes_def)

lemma removes_one:
  assumes "f x \<notin> f ` set as" "f x \<notin> f ` set bs"
  shows "removes f (as @ x # bs) [f x] (as @ bs)"
proof -
  have "filter (\<lambda>y. f y \<noteq> f x) as = as" "filter (\<lambda>y. f y \<noteq> f x) bs = bs"
    using assms by (auto intro!: filter_True) (metis imageI)+
  then show ?thesis by (simp add: removes_def)
qed

lemma removes_all: "distinct (map f xs) \<Longrightarrow> removes f xs (map f xs) []"
  by (simp add: removes_def)

lemma removes_append:
  assumes "removes f xs ds ys" "removes f ys es zs"
  shows "removes f xs (ds @ es) zs"
  using assms by (auto simp: removes_def conj_commute intro!: filter_cong)

lemma removes_set: "removes f xs ds ys \<Longrightarrow> set ys = {x \<in> set xs. f x \<notin> set ds}"
  by (auto simp: removes_def)

lemma removes_subset: "removes f xs ds ys \<Longrightarrow> set ys \<subseteq> set xs"
  by (auto simp: removes_def)

lemma removes_distinct: "removes f xs ds ys \<Longrightarrow> distinct (map f xs) \<Longrightarrow> distinct (map f ys)"
  by (auto simp: removes_def distinct_map inj_on_def)

section \<open>What a transition says\<close>

definition pub_ids :: "'r ConnectionEffect list \<Rightarrow> OperationId list" where
  "pub_ids es = concat (map (\<lambda>e. case e of PublishOutcome _ i _ \<Rightarrow> [i] | _ \<Rightarrow> []) es)"

definition discard_ids :: "'r ConnectionEffect list \<Rightarrow> (OperationId \<times> EffectId) list" where
  "discard_ids es = concat (map (\<lambda>e. case e of DiscardWrite w _ i \<Rightarrow> [(i, w)] | _ \<Rightarrow> []) es)"

definition cancel_ids :: "'r ConnectionEffect list \<Rightarrow> OperationId list" where
  "cancel_ids es = concat (map (\<lambda>e. case e of CancelDeadline _ i \<Rightarrow> [i] | _ \<Rightarrow> []) es)"

definition close_reasons :: "'r ConnectionEffect list \<Rightarrow> CloseReason list" where
  "close_reasons es = concat (map (\<lambda>e. case e of CloseEpoch _ r \<Rightarrow> [r] | _ \<Rightarrow> []) es)"

text \<open>The delivery certainty that an outcome reports; a reply reports none.\<close>

fun outcome_delivery :: "'r OperationOutcome \<Rightarrow> Delivery option" where
  "outcome_delivery (OutReply _) = None"
| "outcome_delivery (OutWriteComplete d) = Some d"
| "outcome_delivery (OutFailed _ d) = Some d"
| "outcome_delivery (OutCancelled d) = Some d"

definition publications :: "'r ConnectionEffect list \<Rightarrow> (OperationId \<times> Delivery option) list" where
  "publications es =
     concat (map (\<lambda>e. case e of PublishOutcome _ i out \<Rightarrow> [(i, outcome_delivery out)] | _ \<Rightarrow> []) es)"

definition said :: "'r ConnectionEffect list \<Rightarrow> (OperationId \<times> Delivery) set" where
  "said es = {(i, d). (i, Some d) \<in> set (publications es)}"

definition effect_epoch :: "'r ConnectionEffect \<Rightarrow> ConnectionEpoch" where
  "effect_epoch e =
     (case e of ScheduleDeadline ep _ _ \<Rightarrow> ep | DiscardWrite _ ep _ \<Rightarrow> ep | CancelDeadline ep _ \<Rightarrow> ep
        | CloseEpoch ep _ \<Rightarrow> ep | PublishOutcome ep _ _ \<Rightarrow> ep)"

lemma effect_lists_append [simp]:
  "publications (xs @ ys) = publications xs @ publications ys"
  "said (xs @ ys) = said xs \<union> said ys"
  "pub_ids (xs @ ys) = pub_ids xs @ pub_ids ys"
  "discard_ids (xs @ ys) = discard_ids xs @ discard_ids ys"
  "cancel_ids (xs @ ys) = cancel_ids xs @ cancel_ids ys"
  "close_reasons (xs @ ys) = close_reasons xs @ close_reasons ys"
  by (auto simp: said_def publications_def pub_ids_def discard_ids_def cancel_ids_def close_reasons_def)

lemma effect_lists_Nil [simp]:
  "pub_ids [] = []" "discard_ids [] = []" "cancel_ids [] = []" "close_reasons [] = []"
  "publications [] = []" "said [] = {}"
  by (simp_all add: said_def publications_def pub_ids_def discard_ids_def cancel_ids_def close_reasons_def)

lemma effect_lists_Cons [simp]:
  "pub_ids (PublishOutcome ep i out # es) = i # pub_ids es"
  "pub_ids (DiscardWrite w ep i # es) = pub_ids es" "pub_ids (CancelDeadline ep i # es) = pub_ids es"
  "pub_ids (CloseEpoch ep c # es) = pub_ids es" "pub_ids (ScheduleDeadline ep i d # es) = pub_ids es"
  "discard_ids (PublishOutcome ep i out # es) = discard_ids es"
  "discard_ids (DiscardWrite w ep i # es) = (i, w) # discard_ids es"
  "discard_ids (CancelDeadline ep i # es) = discard_ids es"
  "discard_ids (CloseEpoch ep c # es) = discard_ids es"
  "discard_ids (ScheduleDeadline ep i d # es) = discard_ids es"
  "cancel_ids (PublishOutcome ep i out # es) = cancel_ids es"
  "cancel_ids (DiscardWrite w ep i # es) = cancel_ids es"
  "cancel_ids (CancelDeadline ep i # es) = i # cancel_ids es"
  "cancel_ids (CloseEpoch ep c # es) = cancel_ids es"
  "cancel_ids (ScheduleDeadline ep i d # es) = cancel_ids es"
  "close_reasons (PublishOutcome ep i out # es) = close_reasons es"
  "close_reasons (DiscardWrite w ep i # es) = close_reasons es"
  "close_reasons (CancelDeadline ep i # es) = close_reasons es"
  "close_reasons (CloseEpoch ep c # es) = c # close_reasons es"
  "close_reasons (ScheduleDeadline ep i d # es) = close_reasons es"
  "publications (PublishOutcome ep i out # es) = (i, outcome_delivery out) # publications es"
  "publications (DiscardWrite w ep i # es) = publications es"
  "publications (CancelDeadline ep i # es) = publications es"
  "publications (CloseEpoch ep c # es) = publications es"
  "publications (ScheduleDeadline ep i d # es) = publications es"
  by (simp_all add: publications_def pub_ids_def discard_ids_def cancel_ids_def close_reasons_def)

lemma said_Cons [simp]:
  "said (PublishOutcome ep i out # es) =
     (case outcome_delivery out of None \<Rightarrow> said es | Some d \<Rightarrow> insert (i, d) (said es))"
  "said (DiscardWrite w ep i # es) = said es" "said (CancelDeadline ep i # es) = said es"
  "said (CloseEpoch ep c # es) = said es" "said (ScheduleDeadline ep i d # es) = said es"
  by (auto simp: said_def split: option.splits)

lemma pub_ids_publications: "pub_ids es = map fst (publications es)"
  by (induction es) (auto simp: pub_ids_def publications_def split: ConnectionEffect.splits)

lemma transition_simps [simp]:
  "tr_effects (transition_new d) = []" "tr_disposition (transition_new d) = d"
  "tr_cancel_outcome (transition_new d) = None"
  "tr_effects (transition_push e t) = tr_effects t @ [e]"
  "tr_disposition (transition_push e t) = tr_disposition t"
  "tr_cancel_outcome (transition_push e t) = tr_cancel_outcome t"
  "tr_effects (transition_cancelled c t) = tr_effects t"
  "tr_disposition (transition_cancelled c t) = tr_disposition t"
  "tr_cancel_outcome (transition_cancelled c t) = Some c"
  by (simp_all add: transition_new_def transition_push_def transition_cancelled_def)

lemma effect_epoch_simps [simp]:
  "effect_epoch (ScheduleDeadline ep i d) = ep" "effect_epoch (DiscardWrite w ep i) = ep"
  "effect_epoch (CancelDeadline ep i) = ep" "effect_epoch (CloseEpoch ep c) = ep"
  "effect_epoch (PublishOutcome ep i out) = ep" "effect_epoch (effect_failed ep i f dv) = ep"
  by (simp_all add: effect_epoch_def effect_failed_def)

section \<open>The invariant\<close>

abbreviation pending :: "ConnectionMachine \<Rightarrow> OperationRecord list" where
  "pending m \<equiv> ov_pending (m_matching m)"

abbreviation charges :: "OperationRecord list \<Rightarrow> (Reservation \<times> bool) list" where
  "charges rs \<equiv> map (\<lambda>r. (rec_reservation r, rec_write_held r)) rs"

definition op_ids :: "OperationRecord list \<Rightarrow> OperationId list" where
  "op_ids rs = map rec_id rs"

text \<open>What the machine owns: each pending operation with its delivery certainty, and each held frame
  with its identities, its charge and that certainty.\<close>

definition owned :: "OperationRecord list \<Rightarrow> (OperationId \<times> Delivery) list" where
  "owned rs = map (\<lambda>r. (rec_id r, rec_delivery r)) rs"

type_synonym held_write = "(OperationId \<times> EffectId) \<times> RetainedBytes \<times> Delivery"

definition held_write_of :: "OperationRecord \<Rightarrow> held_write" where
  "held_write_of r =
     ((rec_id r, rec_effect r), res_write_retained_bytes (rec_reservation r), rec_delivery r)"

definition held_writes :: "OperationRecord list \<Rightarrow> held_write list" where
  "held_writes rs = map held_write_of (filter rec_write_held rs)"

definition held_ids :: "OperationRecord list \<Rightarrow> (OperationId \<times> EffectId) list" where
  "held_ids rs = map fst (held_writes rs)"

definition live_ids :: "OperationRecord list \<Rightarrow> OperationId list" where
  "live_ids rs = map rec_id (filter (\<lambda>r. rec_phase r \<noteq> Terminal) rs)"

text \<open>The phase, the delivery certainty and the write ownership of one record agree.\<close>

definition record_ok :: "OperationRecord \<Rightarrow> bool" where
  "record_ok r \<longleftrightarrow>
     (case rec_phase r of
        Queued \<Rightarrow> rec_delivery r = NotSent \<and> rec_write_held r
      | Writing \<Rightarrow> rec_delivery r = PossiblySent \<and> rec_write_held r
      | AwaitingReply \<Rightarrow> \<not> rec_write_held r \<and> rec_completion r = ReplyExpected
      | Terminal \<Rightarrow>
          rec_delivery r = PossiblySent \<and> (rec_write_held r \<or> rec_completion r = ReplyExpected))"

text \<open>Phase, gate, retained close reason and pending work agree.\<close>

definition lifecycle_ok :: "ConnectionMachine \<Rightarrow> bool" where
  "lifecycle_ok m \<longleftrightarrow>
     (if m_phase m = Live then m_gate m \<noteq> GateClosed \<and> m_close_reason m = None
      else m_gate m = GateClosed \<and> m_close_reason m \<noteq> None \<and> pending m = [])"

text \<open>Frames leave in wire order, so a record whose frame is held is followed by such records only.\<close>

definition held_before :: "OperationRecord \<Rightarrow> OperationRecord \<Rightarrow> bool" where
  "held_before a b \<longleftrightarrow> (rec_write_held a \<longrightarrow> rec_write_held b)"

definition machine_core :: "ConnectionMachine \<Rightarrow> Reservation multiset \<Rightarrow> bool" where
  "machine_core m P \<longleftrightarrow>
     accounts (m_ledger m) P (mset (charges (pending m))) \<and>
     distinct (map rec_id (pending m)) \<and> distinct (map rec_effect (pending m)) \<and>
     (\<forall>r \<in> set (pending m). record_ok r) \<and>
     sorted_wrt held_before (pending m) \<and>
     lifecycle_ok m"

definition machine_ok :: "ConnectionMachine \<Rightarrow> Reservation multiset \<Rightarrow> bool" where
  "machine_ok m P \<longleftrightarrow> machine_core m P \<and> (m_gate m = Draining \<longrightarrow> pending m \<noteq> [])"

text \<open>The contract of a step that emits the effects \<open>es\<close>.\<close>

definition contract :: "ConnectionMachine \<Rightarrow> 'r ConnectionEffect list \<Rightarrow> ConnectionMachine \<Rightarrow> bool" where
  "contract m es m' \<longleftrightarrow>
     removes fst (owned (pending m)) (cancel_ids es) (owned (pending m')) \<and>
     removes fst (held_writes (pending m)) (discard_ids es) (held_writes (pending m')) \<and>
     removes id (live_ids (pending m)) (pub_ids es) (live_ids (pending m')) \<and>
     said es \<subseteq> set (owned (pending m)) \<and>
     rec_effect ` set (pending m') \<subseteq> rec_effect ` set (pending m) \<and>
     (\<forall>e \<in> set es. effect_epoch e = m_epoch m) \<and>
     m_epoch m' = m_epoch m \<and> m_ledger_ref m' = m_ledger_ref m \<and>
     m_identities m' = m_identities m \<and> led_limits (m_ledger m') = led_limits (m_ledger m)"

lemma contract_refl [simp, intro]: "contract m [] m"
  by (simp add: contract_def)

lemma contract_trans: "contract m es m1 \<Longrightarrow> contract m1 fs m2 \<Longrightarrow> contract m (es @ fs) m2"
  by (auto simp: contract_def dest: removes_subset intro: removes_append) (metis imageI subsetD)

lemma ids_simps [simp]:
  "op_ids [] = []" "owned [] = []" "held_writes [] = []" "held_ids [] = []" "live_ids [] = []"
  "op_ids (xs @ ys) = op_ids xs @ op_ids ys" "owned (xs @ ys) = owned xs @ owned ys"
  "held_writes (xs @ ys) = held_writes xs @ held_writes ys"
  "held_ids (xs @ ys) = held_ids xs @ held_ids ys"
  "live_ids (xs @ ys) = live_ids xs @ live_ids ys"
  "op_ids (r # rs) = rec_id r # op_ids rs"
  "owned (r # rs) = (rec_id r, rec_delivery r) # owned rs"
  "held_writes (r # rs) = (if rec_write_held r then held_write_of r # held_writes rs else held_writes rs)"
  "held_ids (r # rs) = (if rec_write_held r then (rec_id r, rec_effect r) # held_ids rs else held_ids rs)"
  "live_ids (r # rs) = (if rec_phase r \<noteq> Terminal then rec_id r # live_ids rs else live_ids rs)"
  by (simp_all add: op_ids_def owned_def held_writes_def held_ids_def live_ids_def held_write_of_def)

lemma map_fst_owned [simp]: "map fst (owned rs) = op_ids rs" "map fst (held_writes rs) = held_ids rs"
  by (simp_all add: owned_def op_ids_def held_ids_def)

lemma fst_image_owned [simp]:
  "fst ` set (owned rs) = set (op_ids rs)" "fst ` set (held_writes rs) = set (held_ids rs)"
  by (metis map_fst_owned(1) set_map, metis map_fst_owned(2) set_map)

lemma live_ids_subset: "set (live_ids rs) \<subseteq> set (op_ids rs)"
  by (auto simp: live_ids_def op_ids_def)

lemma held_ids_subset: "(i, e) \<in> set (held_ids rs) \<Longrightarrow> i \<in> set (op_ids rs) \<and> e \<in> rec_effect ` set rs"
  by (auto simp: held_ids_def held_writes_def held_write_of_def op_ids_def)

lemma distinct_ids:
  assumes "distinct (map rec_id rs)"
  shows "distinct (op_ids rs)" "distinct (live_ids rs)" "distinct (held_ids rs)"
proof -
  show "distinct (op_ids rs)" "distinct (live_ids rs)"
    using assms by (simp_all add: op_ids_def live_ids_def distinct_map_filter)
  have "distinct (map (\<lambda>r. (rec_id r, rec_effect r)) (filter rec_write_held rs))"
    using assms by (induction rs) (auto simp: image_iff)
  then show "distinct (held_ids rs)" by (simp add: held_ids_def held_writes_def held_write_of_def comp_def)
qed

section \<open>Closing\<close>

definition record_close_effects ::
  "ConnectionEpoch \<Rightarrow> CloseReason \<Rightarrow> (OperationId \<times> OperationFailure) option \<Rightarrow> OperationRecord \<Rightarrow>
   'r ConnectionEffect list" where
  "record_close_effects epoch reason failure r =
     [CancelDeadline epoch (rec_id r)] @
     (if rec_write_held r then [DiscardWrite (rec_effect r) epoch (rec_id r)] else []) @
     (if rec_phase r \<noteq> Terminal
      then [PublishOutcome epoch (rec_id r)
              (OutFailed (close_failure reason failure r) (rec_delivery r))] else [])"

definition close_effects ::
  "CloseReason \<Rightarrow> (OperationId \<times> OperationFailure) option \<Rightarrow> ConnectionMachine \<Rightarrow>
   'r ConnectionEffect list" where
  "close_effects reason failure m =
     CloseEpoch (m_epoch m) reason #
     concat (map (record_close_effects (m_epoch m) reason failure) (pending m))"

lemma close_records_exact:
  "close_records X epoch reason failure rs L t =
     (fold (\<lambda>(r, h). ledger_release_operation X r h) (charges rs) L,
      t\<lparr>tr_effects := tr_effects t @ concat (map (record_close_effects epoch reason failure) rs)\<rparr>)"
  by (induction rs arbitrary: L t)
    (simp_all add: Let_def record_close_effects_def transition_push_def effect_failed_def)

lemma close_effect_lists:
  "cancel_ids (concat (map (record_close_effects ep c f) rs)) = op_ids rs"
  "discard_ids (concat (map (record_close_effects ep c f) rs)) = held_ids rs"
  "pub_ids (concat (map (record_close_effects ep c f) rs)) = live_ids rs"
  "said (concat (map (record_close_effects ep c f) rs)) \<subseteq> set (owned rs)"
  "close_reasons (concat (map (record_close_effects ep c f) rs)) = []"
  by (induction rs) (auto simp: record_close_effects_def)

lemma close_effect_epochs:
  "\<forall>e \<in> set (close_effects reason failure m). effect_epoch e = m_epoch m"
  by (auto simp: close_effects_def record_close_effects_def split: if_splits)

lemma fold_release_limits:
  "led_limits (fold (\<lambda>(r, h). ledger_release_operation X r h) xs L) = led_limits L"
  by (induction xs arbitrary: L) auto

text \<open>Closing a live machine ends every pending operation and releases all of its capacity.\<close>

lemma close_live:
  assumes X: "externals_ok X" and ok: "machine_core m P" and live: "m_phase m = Live"
  obtains m' where
    "close_with_failure_into X reason failure t m =
       (t\<lparr>tr_effects := tr_effects t @ close_effects reason failure m\<rparr>, m')"
    "machine_ok m' P" "contract m (close_effects reason failure m :: 'r ConnectionEffect list) m'"
    "m_phase m' = Closing" "m_close_reason m' = Some reason" "pending m' = []"
proof -
  define m' where "m' = m\<lparr>m_gate := GateClosed, m_phase := Closing, m_close_reason := Some reason,
      m_ledger := fold (\<lambda>(r, h). ledger_release_operation X r h) (charges (pending m)) (m_ledger m),
      m_matching := (m_matching m)\<lparr>ov_pending := []\<rparr>\<rparr>"
  have "accounts (m_ledger m') P {#}"
    using ledger.release_list [of X "m_ledger m" P "charges (pending m)" "{#}"] X ok
    by (simp add: m'_def machine_core_def)
  then have "machine_ok m' P"
    by (simp add: machine_ok_def machine_core_def m'_def lifecycle_ok_def)
  moreover have "close_with_failure_into X reason failure t m =
       (t\<lparr>tr_effects := tr_effects t @ close_effects reason failure m\<rparr>, m')"
    using live by (simp add: close_with_failure_into_def close_records_exact Let_def m'_def
        close_effects_def transition_push_def)
  moreover have "contract m (close_effects reason failure m :: 'r ConnectionEffect list) m'"
  proof -
    have "distinct (map rec_id (pending m))" using ok by (simp add: machine_core_def)
    note d = distinct_ids [OF this]
    show ?thesis
      using close_effect_epochs [of reason failure m] d removes_all [of fst "owned (pending m)"]
        removes_all [of fst "held_writes (pending m)"] removes_all [of id "live_ids (pending m)"]
      by (simp add: contract_def m'_def close_effects_def close_effect_lists removes_all
          fold_release_limits)
  qed
  ultimately show ?thesis using that by (simp add: m'_def)
qed

section \<open>Every input keeps the invariant and honours the contract\<close>

definition good_step ::
  "ConnectionMachine \<Rightarrow> Reservation multiset \<Rightarrow> 'r ConnectionTransition \<times> ConnectionMachine \<Rightarrow> bool" where
  "good_step m P s \<longleftrightarrow> machine_ok (snd s) P \<and> contract m (tr_effects (fst s)) (snd s)"

lemma good_step_refl: "machine_ok m P \<Longrightarrow> tr_effects t = [] \<Longrightarrow> good_step m P (t, m)"
  by (simp add: good_step_def)

lemma pending_live: "machine_core m P \<Longrightarrow> pending m \<noteq> [] \<Longrightarrow> m_phase m = Live"
  by (auto simp: machine_core_def lifecycle_ok_def split: if_splits)

lemma good_step_close:
  assumes "externals_ok X" "machine_core m P" "m_phase m = Live" "tr_effects t = []"
  shows "good_step m P (close_with_failure_into X reason failure t m)"
    "good_step m P (close_into X reason t m)"
proof -
  show *: "good_step m P (close_with_failure_into X reason failure t m)" for failure
    by (rule close_live [OF assms(1-3), of reason failure t]) (simp add: good_step_def assms(4))
  show "good_step m P (close_into X reason t m)" unfolding close_into_def by (rule *)
qed

text \<open>One record taken out of the queue, with its capacity released.\<close>

definition without :: "'g externals \<Rightarrow> OperationRecord list \<Rightarrow> OperationRecord \<Rightarrow> bool \<Rightarrow>
    ReservationLedger \<Rightarrow> ConnectionMachine \<Rightarrow> ConnectionMachine" where
  "without X rs r held L m =
     m\<lparr>m_matching := (m_matching m)\<lparr>ov_pending := rs\<rparr>,
       m_ledger := ledger_release_operation X (rec_reservation r) held L\<rparr>"

lemma without_simps [simp]:
  "pending (without X rs r held L m) = rs"
  "m_ledger (without X rs r held L m) = ledger_release_operation X (rec_reservation r) held L"
  "m_phase (without X rs r held L m) = m_phase m" "m_gate (without X rs r held L m) = m_gate m"
  "m_close_reason (without X rs r held L m) = m_close_reason m"
  "m_epoch (without X rs r held L m) = m_epoch m"
  "m_ledger_ref (without X rs r held L m) = m_ledger_ref m"
  "m_identities (without X rs r held L m) = m_identities m"
  by (simp_all add: without_def)

text \<open>The list conditions of the invariant on a queue with one record taken out or replaced.\<close>

definition queue_ok :: "OperationRecord list \<Rightarrow> bool" where
  "queue_ok rs \<longleftrightarrow>
     distinct (map rec_id rs) \<and> distinct (map rec_effect rs) \<and> (\<forall>r \<in> set rs. record_ok r) \<and>
     sorted_wrt held_before rs"

lemma machine_core_alt:
  "machine_core m P \<longleftrightarrow>
     accounts (m_ledger m) P (mset (charges (pending m))) \<and> queue_ok (pending m) \<and> lifecycle_ok m"
  by (simp add: machine_core_def queue_ok_def conj_assoc)

lemma queue_ok_remove: "queue_ok (ys @ r # zs) \<Longrightarrow> queue_ok (ys @ zs)"
  by (auto simp: queue_ok_def sorted_wrt_append)

lemma queue_ok_replace:
  assumes "queue_ok (ys @ r # zs)" "rec_id r' = rec_id r" "rec_effect r' = rec_effect r"
    "rec_write_held r' = rec_write_held r" "record_ok r'"
  shows "queue_ok (ys @ r' # zs)"
proof -
  have "held_before a r' = held_before a r" "held_before r' a = held_before r a" for a
    using assms(4) by (simp_all add: held_before_def)
  with assms show ?thesis by (simp add: queue_ok_def sorted_wrt_append)
qed

lemma queue_ok_distinct:
  assumes "queue_ok (ys @ r # zs)" "y \<in> set ys \<union> set zs"
  shows "rec_id y \<noteq> rec_id r"
proof -
  have "rec_id r \<notin> rec_id ` (set ys \<union> set zs)" using assms(1) by (auto simp: queue_ok_def)
  with assms(2) show ?thesis by (metis imageI)
qed

lemma machine_core_without:
  assumes X: "externals_ok X" and ok: "machine_core m P" and p: "pending m = ys @ r # zs"
    and acc: "accounts L P (add_mset (rec_reservation r, held) (mset (charges (ys @ zs))))"
  shows "machine_core (without X (ys @ zs) r held L m) P"
proof -
  have live: "m_phase m = Live" using pending_live [OF ok] p by simp
  have "accounts (ledger_release_operation X (rec_reservation r) held L) P (mset (charges (ys @ zs)))"
    by (rule ledger_release_accounts [OF X acc])
  moreover have "queue_ok (ys @ zs)"
    using ok p queue_ok_remove [of ys r zs] by (simp add: machine_core_alt)
  moreover have "lifecycle_ok (without X (ys @ zs) r held L m)"
    using ok live by (simp add: machine_core_alt lifecycle_ok_def)
  ultimately show ?thesis by (simp add: machine_core_alt)
qed

lemma contract_without:
  assumes ok: "distinct (map rec_id (ys @ r # zs))" and p: "pending m = ys @ r # zs"
    and lists: "cancel_ids es = [rec_id r]"
      "discard_ids es = (if rec_write_held r then [(rec_id r, rec_effect r)] else [])"
      "pub_ids es = (if rec_phase r \<noteq> Terminal then [rec_id r] else [])"
      "said es \<subseteq> {(rec_id r, rec_delivery r)}"
    and epochs: "\<forall>e \<in> set es. effect_epoch e = m_epoch m"
    and lim: "led_limits L = led_limits (m_ledger m)"
  shows "contract m es (without X (ys @ zs) r held L m)"
proof -
  have r: "rec_id r \<notin> set (op_ids ys)" "rec_id r \<notin> set (op_ids zs)"
    using ok by (simp_all add: op_ids_def)
  then have "rec_id r \<notin> set (live_ids ys)" "rec_id r \<notin> set (live_ids zs)"
    "(rec_id r, rec_effect r) \<notin> set (held_ids ys)" "(rec_id r, rec_effect r) \<notin> set (held_ids zs)"
    using live_ids_subset held_ids_subset by blast+
  then have "removes id (live_ids ys @ rec_id r # live_ids zs) [rec_id r] (live_ids ys @ live_ids zs)"
    "removes fst (held_writes ys @ held_write_of r # held_writes zs) [(rec_id r, rec_effect r)]
       (held_writes ys @ held_writes zs)"
    "removes fst (owned ys @ (rec_id r, rec_delivery r) # owned zs) [rec_id r] (owned ys @ owned zs)"
    using removes_one [of id "rec_id r"] removes_one [of fst "held_write_of r"]
      removes_one [of fst "(rec_id r, rec_delivery r)"] r by (simp_all add: held_write_of_def)
  then show ?thesis
    using p lists epochs lim by (auto simp: contract_def)
qed

lemma good_finish_drain:
  fixes t :: "'r ConnectionTransition"
  assumes X: "externals_ok X" and ok: "machine_core m1 P" and con: "contract m (tr_effects t) m1"
  shows "good_step m P (finish_drain X t m1)"
proof (cases "m_gate m1 = Draining \<and> pending m1 = []")
  case True
  then have live: "m_phase m1 = Live" using ok by (auto simp: machine_core_def lifecycle_ok_def split: if_splits)
  obtain m' where m': "close_with_failure_into X Drained None t m1 =
       (t\<lparr>tr_effects := tr_effects t @ close_effects Drained None m1\<rparr>, m')"
    "machine_ok m' P" "contract m1 (close_effects Drained None m1 :: 'r ConnectionEffect list) m'"
    by (rule close_live [OF X ok live, of Drained None t])
  have "finish_drain X t m1 = (t\<lparr>tr_effects := tr_effects t @ close_effects Drained None m1\<rparr>, m')"
    using True m'(1) by (simp add: finish_drain_def matching_is_empty_def close_into_def)
  with m'(2,3) contract_trans [OF con m'(3)] show ?thesis by (simp add: good_step_def)
next
  case False
  then have "finish_drain X t m1 = (t, m1)" by (auto simp: finish_drain_def matching_is_empty_def)
  with False ok con show ?thesis by (auto simp: good_step_def machine_ok_def)
qed

text \<open>Removing a record the machine owns, emitting its closing effects, and finishing a drain.\<close>

lemma good_removal:
  assumes X: "externals_ok X" and ok: "machine_ok m P" and p: "pending m = ys @ r # zs"
    and lists: "cancel_ids (tr_effects t) = [rec_id r]"
      "discard_ids (tr_effects t) = (if rec_write_held r then [(rec_id r, rec_effect r)] else [])"
      "pub_ids (tr_effects t) = (if rec_phase r \<noteq> Terminal then [rec_id r] else [])"
      "said (tr_effects t) \<subseteq> {(rec_id r, rec_delivery r)}"
    and epochs: "\<forall>e \<in> set (tr_effects t). effect_epoch e = m_epoch m"
  shows "good_step m P (finish_drain X t (without X (ys @ zs) r (rec_write_held r) (m_ledger m) m))"
proof (rule good_finish_drain [OF X])
  have core: "machine_core m P" using ok by (simp add: machine_ok_def)
  then have "accounts (m_ledger m) P
      (add_mset (rec_reservation r, rec_write_held r) (mset (charges (ys @ zs))))"
    using p by (simp add: machine_core_alt)
  then show "machine_core (without X (ys @ zs) r (rec_write_held r) (m_ledger m) m) P"
    by (rule machine_core_without [OF X core p])
  show "contract m (tr_effects t) (without X (ys @ zs) r (rec_write_held r) (m_ledger m) m)"
    using core p by (intro contract_without [OF _ p lists epochs]) (simp_all add: machine_core_def)
qed

text \<open>Updating one record in place.\<close>

definition with_record :: "OperationRecord list \<Rightarrow> ConnectionMachine \<Rightarrow> ConnectionMachine" where
  "with_record rs m = m\<lparr>m_matching := (m_matching m)\<lparr>ov_pending := rs\<rparr>\<rparr>"

lemma pending_with_record [simp]: "pending (with_record rs m) = rs"
  by (simp add: with_record_def)

lemma machine_ok_with_record:
  assumes ok: "machine_ok m P" and p: "pending m = ys @ r # zs"
    and same: "rec_id r' = rec_id r" "rec_effect r' = rec_effect r"
      "rec_reservation r' = rec_reservation r" "rec_write_held r' = rec_write_held r"
    and r': "record_ok r'"
  shows "machine_ok (with_record (ys @ r' # zs) m) P"
proof -
  have core: "machine_core m P" using ok by (simp add: machine_ok_def)
  have live: "m_phase m = Live" using pending_live [OF core] p by simp
  have "queue_ok (ys @ r' # zs)"
    using core p same r' queue_ok_replace [of ys r zs r'] by (simp add: machine_core_alt)
  moreover have "accounts (m_ledger m) P (mset (charges (ys @ r' # zs)))"
    using core p same by (simp add: machine_core_alt)
  moreover have "lifecycle_ok (with_record (ys @ r' # zs) m)"
    using core live by (simp add: machine_core_alt lifecycle_ok_def with_record_def)
  ultimately show ?thesis
    by (simp add: machine_ok_def machine_core_alt) (simp add: with_record_def)
qed

lemma split_distinct:
  assumes "machine_core m P" "pending m = ys @ r # zs"
  shows "\<forall>y \<in> set ys. rec_id y \<noteq> rec_id r"
  using assms queue_ok_distinct [of ys r zs] by (auto simp: machine_core_alt)

lemma good_open_admission: "machine_ok m P \<Longrightarrow> good_step m P (open_admission epoch m)"
  by (auto simp: open_admission_def good_step_def contract_def machine_ok_def machine_core_def
      lifecycle_ok_def)

lemma good_epoch_closed: "machine_ok m P \<Longrightarrow> good_step m P (epoch_closed epoch m)"
  by (auto simp: epoch_closed_def good_step_def contract_def machine_ok_def machine_core_def
      lifecycle_ok_def)

lemma good_close_requested:
  "externals_ok X \<Longrightarrow> machine_ok m P \<Longrightarrow> good_step m P (close_requested X epoch reason m)"
  by (auto simp: close_requested_def machine_ok_def good_step_refl intro: good_step_close)

lemma good_reply_malformed:
  "externals_ok X \<Longrightarrow> machine_ok m P \<Longrightarrow> good_step m P (reply_malformed X epoch m)"
  by (auto simp: reply_malformed_def machine_ok_def good_step_refl intro: good_step_close)

lemma good_begin_drain:
  assumes "externals_ok X" "machine_ok m P"
  shows "good_step m P (begin_drain X epoch m)"
proof -
  have "machine_core (m\<lparr>m_gate := Draining\<rparr>) P" if "m_phase m = Live"
    using assms that by (simp add: machine_ok_def machine_core_def lifecycle_ok_def)
  moreover have "contract m [] (m\<lparr>m_gate := Draining\<rparr>)" by (simp add: contract_def)
  ultimately show ?thesis
    using assms good_finish_drain [OF assms(1), of "m\<lparr>m_gate := Draining\<rparr>" P m "transition_new Applied"]
    by (auto simp: begin_drain_def good_step_refl)
qed

lemma good_cancel:
  assumes X: "externals_ok X" and ok: "machine_ok m P"
  shows "good_step m P (machine_cancel X epoch operation m)"
proof (cases "epoch = m_epoch m \<and> matching_get operation (m_matching m) \<noteq> None")
  case False
  with ok show ?thesis by (auto simp: machine_cancel_def good_step_refl)
next
  case True
  then obtain r where r: "matching_get operation (m_matching m) = Some r" by auto
  then obtain ys zs where p: "pending m = ys @ r # zs" "rec_id r = operation"
    "\<forall>y \<in> set ys. rec_id y \<noteq> operation" by (rule matching_get_split)
  then have at: "\<forall>y \<in> set ys. rec_id y \<noteq> rec_id r" by simp
  note at = matching_at [OF p(1) at, unfolded p(2)]
  have rok: "record_ok r" using ok p(1) by (simp add: machine_ok_def machine_core_def)
  consider (terminal) "rec_phase r = Terminal" | (not_sent) "rec_phase r \<noteq> Terminal" "rec_delivery r = NotSent"
    | (sent) "rec_phase r \<noteq> Terminal" "rec_delivery r = PossiblySent" by (cases "rec_delivery r") auto
  then show ?thesis
  proof cases
    case terminal
    with True r ok show ?thesis by (simp add: machine_cancel_def good_step_refl)
  next
    case not_sent
    define t :: "unit ConnectionTransition" where
      "t = transition_cancelled CancelledNotSent
         (transition_push (PublishOutcome (m_epoch m) operation (OutCancelled NotSent))
            (transition_push (CancelDeadline (m_epoch m) operation)
               (if rec_write_held r
                then transition_push (DiscardWrite (rec_effect r) (m_epoch m) operation) (transition_new Applied)
                else transition_new Applied)))"
    have "machine_cancel X epoch operation m =
        finish_drain X t (without X (ys @ zs) r (rec_write_held r) (m_ledger m) m)"
      using True r not_sent at by (simp add: machine_cancel_def t_def without_def Let_def)
    moreover have "good_step m P (finish_drain X t (without X (ys @ zs) r (rec_write_held r) (m_ledger m) m))"
      using p not_sent by (intro good_removal [OF X ok p(1)]) (auto simp: t_def)
    ultimately show ?thesis by simp
  next
    case sent
    let ?r = "r\<lparr>rec_phase := Terminal\<rparr>"
    have "record_ok ?r" using rok sent by (auto simp: record_ok_def split: OperationPhase.splits)
    then have "machine_ok (with_record (ys @ ?r # zs) m) P"
      using machine_ok_with_record [OF ok p(1), of ?r] by simp
    moreover have "contract m [PublishOutcome (m_epoch m) operation (OutCancelled PossiblySent)]
        (with_record (ys @ ?r # zs) m)"
    proof -
      have "distinct (map rec_id (ys @ r # zs))" using ok p by (simp add: machine_ok_def machine_core_def)
      from distinct_ids(2) [OF this] have "operation \<notin> set (live_ids ys)" "operation \<notin> set (live_ids zs)"
        using p sent by auto
      then show ?thesis
        using removes_one [of id operation "live_ids ys" "live_ids zs"] p sent
        by (simp add: contract_def with_record_def held_write_of_def)
    qed
    ultimately show ?thesis
      using True r sent at by (simp add: machine_cancel_def good_step_def with_record_def)
  qed
qed

end
