(* ===== verification/MachineSteps.thy ===== *)
theory MachineSteps
  imports MachineInv
begin

text \<open>
  Every remaining entry point of the connection machine, on the invariant and the contract of
  \<^verbatim>\<open>MachineInv\<close>: elapsed deadlines, replies, write progress, reservation and commit.
\<close>

section \<open>Deadlines and replies\<close>

lemma good_deadline_elapsed:
  assumes X: "externals_ok X" and ok: "machine_ok m P"
  shows "good_step m P (deadline_elapsed X epoch operation now m)"
proof (cases "epoch = m_epoch m \<and> matching_get operation (m_matching m) \<noteq> None")
  case False
  with ok show ?thesis by (auto simp: deadline_elapsed_def good_step_refl)
next
  case True
  then obtain r where r: "matching_get operation (m_matching m) = Some r" by auto
  then obtain ys zs where p: "pending m = ys @ r # zs" "rec_id r = operation"
    "\<forall>y \<in> set ys. rec_id y \<noteq> operation" by (rule matching_get_split)
  then have "\<forall>y \<in> set ys. rec_id y \<noteq> rec_id r" by simp
  note at = matching_at [OF p(1) this, unfolded p(2)]
  have core: "machine_core m P" using ok by (simp add: machine_ok_def)
  have live: "m_phase m = Live" using pending_live [OF core] p by simp
  have rok: "record_ok r" using core p(1) by (simp add: machine_core_def)
  consider (early) "\<not> is_elapsed_at X (rec_deadline r) now"
    | (sent) "is_elapsed_at X (rec_deadline r) now" "rec_delivery r = PossiblySent"
    | (unsent) "is_elapsed_at X (rec_deadline r) now" "rec_delivery r = NotSent"
    by (cases "rec_delivery r") auto
  then show ?thesis
  proof cases
    case early
    with True r ok show ?thesis by (simp add: deadline_elapsed_def good_step_def contract_def)
  next
    case sent
    with True r show ?thesis by (simp add: deadline_elapsed_def good_step_close(2) [OF X core live])
  next
    case unsent
    define t :: "unit ConnectionTransition" where
      "t = transition_push (effect_failed (m_epoch m) operation FailDeadlineElapsed NotSent)
            (transition_push (CancelDeadline (m_epoch m) operation)
               (if rec_write_held r
                then transition_push (DiscardWrite (rec_effect r) (m_epoch m) operation) (transition_new Applied)
                else transition_new Applied))"
    have phase: "rec_phase r \<noteq> Terminal" using rok unsent(2) by (auto simp: record_ok_def)
    have "deadline_elapsed X epoch operation now m =
        finish_drain X t (without X (ys @ zs) r (rec_write_held r) (m_ledger m) m)"
      using True r unsent at by (simp add: deadline_elapsed_def t_def without_def Let_def)
    moreover have "good_step m P (finish_drain X t (without X (ys @ zs) r (rec_write_held r) (m_ledger m) m))"
      using p unsent phase by (intro good_removal [OF X ok p(1)]) (auto simp: t_def effect_failed_def)
    ultimately show ?thesis by simp
  qed
qed

theorem good_apply:
  assumes "externals_ok X" "machine_ok m P"
  shows "good_step m P (machine_apply X input m)"
  using assms
  by (cases input) (simp_all add: good_open_admission good_cancel good_deadline_elapsed
      good_reply_malformed good_begin_drain good_close_requested good_epoch_closed)

text \<open>The front record that a reply may complete.\<close>

definition awaits_reply :: "OperationRecord \<Rightarrow> bool" where
  "awaits_reply r \<longleftrightarrow> (rec_phase r = AwaitingReply \<or> rec_phase r = Terminal) \<and> \<not> rec_write_held r"

lemma apply_reply_match:
  assumes X: "externals_ok X" and ok: "machine_ok m P" and p: "pending m = r # rs"
    and r: "awaits_reply r" "reply_epoch reply = m_epoch m"
      "reply_key reply = res_match_key (rec_reservation r)"
  defines "t \<equiv> (if rec_phase r \<noteq> Terminal
        then transition_push (PublishOutcome (m_epoch m) (rec_id r) (OutReply (reply_frame reply)))
               (transition_push (CancelDeadline (m_epoch m) (rec_id r)) (transition_new Applied))
        else transition_push (CancelDeadline (m_epoch m) (rec_id r)) (transition_new Applied))"
  shows "machine_apply_reply X reply m = finish_drain X t (without X rs r False (m_ledger m) m)"
    and "good_step m P (machine_apply_reply X reply m)"
proof -
  have core: "machine_core m P" using ok by (simp add: machine_ok_def)
  have live: "m_phase m = Live" using pending_live [OF core] p by simp
  show eq: "machine_apply_reply X reply m = finish_drain X t (without X rs r False (m_ledger m) m)"
    using live p r by (auto simp: machine_apply_reply_def awaits_reply_def matching_front_def
        matching_pop_front_def without_def t_def Let_def)
  have "good_step m P (finish_drain X t (without X ([] @ rs) r (rec_write_held r) (m_ledger m) m))"
    using p r by (intro good_removal [OF X ok]) (auto simp: t_def awaits_reply_def)
  with r eq show "good_step m P (machine_apply_reply X reply m)" by (simp add: awaits_reply_def)
qed

theorem good_apply_reply:
  assumes X: "externals_ok X" and ok: "machine_ok m P"
  shows "good_step m P (machine_apply_reply X reply m)"
proof -
  have core: "machine_core m P" using ok by (simp add: machine_ok_def)
  consider (stale) "reply_epoch reply \<noteq> m_epoch m" | (dead) "m_phase m \<noteq> Live"
    | (empty) "reply_epoch reply = m_epoch m" "m_phase m = Live" "pending m = []"
    | (front) r rs where "reply_epoch reply = m_epoch m" "m_phase m = Live" "pending m = r # rs"
    by (metis list.exhaust)
  then show ?thesis
  proof cases
    case stale
    with ok show ?thesis by (simp add: machine_apply_reply_def Let_def good_step_refl)
  next
    case dead
    with ok show ?thesis by (simp add: machine_apply_reply_def Let_def good_step_refl)
  next
    case empty
    then show ?thesis
      by (simp add: machine_apply_reply_def Let_def matching_front_def good_step_close(2) [OF X core])
  next
    case front
    show ?thesis
    proof (cases "awaits_reply r \<and> reply_key reply = res_match_key (rec_reservation r)")
      case True
      with front show ?thesis by (simp add: apply_reply_match(2) [OF X ok front(3)])
    next
      case False
      with front show ?thesis
        by (auto simp: machine_apply_reply_def Let_def matching_front_def awaits_reply_def
            good_step_close [OF X core front(2)])
    qed
  qed
qed

section \<open>Write progress\<close>

text \<open>
  Write progress concerns the first record whose frame is still held: the records before it have
  handed their frames to the transport.
\<close>

definition first_held :: "OperationRecord list \<Rightarrow> OperationRecord list \<Rightarrow> OperationRecord \<Rightarrow>
    OperationRecord list \<Rightarrow> bool" where
  "first_held rs ys r zs \<longleftrightarrow> rs = ys @ r # zs \<and> rec_write_held r \<and> (\<forall>y \<in> set ys. \<not> rec_write_held y)"

lemma first_heldE:
  assumes "held_writes rs = h # hs"
  obtains ys r zs where "first_held rs ys r zs" "held_write_of r = h" "held_writes zs = hs"
proof -
  have "filter rec_write_held rs \<noteq> []" using assms by (auto simp: held_writes_def)
  then obtain r fs where "filter rec_write_held rs = r # fs" by (cases "filter rec_write_held rs") auto
  then obtain ys zs where "rs = ys @ r # zs" "\<forall>y \<in> set ys. \<not> rec_write_held y" "rec_write_held r"
    "fs = filter rec_write_held zs" by (auto simp: filter_eq_Cons_iff)
  with assms that [of ys r zs] show ?thesis by (simp add: first_held_def held_writes_def)
qed

lemma held_writes_prefix: "\<forall>y \<in> set ys. \<not> rec_write_held y \<Longrightarrow> held_writes ys = []"
  by (simp add: held_writes_def filter_empty_conv)

definition started_record :: "OperationRecord \<Rightarrow> OperationRecord" where
  "started_record r = r\<lparr>rec_delivery := PossiblySent, rec_phase := Writing\<rparr>"

lemma write_started_exact:
  assumes ok: "machine_ok m P" and p: "pending m = ys @ r # zs" and r: "rec_phase r = Queued"
  shows "write_started (m_epoch m) (rec_id r) (rec_effect r) m =
      (transition_new Applied, with_record (ys @ started_record r # zs) m)"
    "machine_ok (with_record (ys @ started_record r # zs) m) P"
proof -
  have core: "machine_core m P" using ok by (simp add: machine_ok_def)
  note at = matching_at [OF p split_distinct [OF core p]]
  show "write_started (m_epoch m) (rec_id r) (rec_effect r) m =
      (transition_new Applied, with_record (ys @ started_record r # zs) m)"
    using r by (simp add: write_started_def at with_record_def started_record_def possibly_sent_def)
  have "record_ok r" using core p by (simp add: machine_core_def)
  then have "record_ok (started_record r)" using r by (simp add: record_ok_def started_record_def)
  then show "machine_ok (with_record (ys @ started_record r # zs) m) P"
    by (intro machine_ok_with_record [OF ok p]) (simp_all add: started_record_def)
qed

lemma queue_ok_release:
  assumes "queue_ok (ys @ r # zs)" "\<forall>y \<in> set ys. \<not> rec_write_held y" "record_ok r'"
    "rec_id r' = rec_id r" "rec_effect r' = rec_effect r" "\<not> rec_write_held r'"
  shows "queue_ok (ys @ r' # zs)"
proof -
  have "held_before a r'" if "a \<in> set ys" for a using assms(2) that by (simp add: held_before_def)
  moreover have "held_before r' a" for a using assms(6) by (simp add: held_before_def)
  ultimately show ?thesis using assms by (auto simp: queue_ok_def sorted_wrt_append)
qed

text \<open>
  A completed frame releases its write capacity. The operation then awaits its reply, or leaves the
  queue when write completion is its outcome.
\<close>

definition released_record :: "OperationRecord \<Rightarrow> OperationRecord" where
  "released_record r = r\<lparr>rec_write_held := False\<rparr>"

lemma released_record_simps [simp]:
  "rec_id (released_record r) = rec_id r" "rec_effect (released_record r) = rec_effect r"
  "rec_reservation (released_record r) = rec_reservation r" "rec_phase (released_record r) = rec_phase r"
  "rec_delivery (released_record r) = rec_delivery r" "\<not> rec_write_held (released_record r)"
  by (simp_all add: released_record_def)

lemma write_completed_reply:
  assumes X: "externals_ok X" and ok: "machine_ok m P" and f: "first_held (pending m) ys r zs"
    and mode: "rec_completion r = ReplyExpected"
  defines "s \<equiv> write_completed X (m_epoch m) (rec_id r) (rec_effect r) m"
  shows "tr_disposition (fst s) = Applied" "tr_effects (fst s) = []"
    and "good_step (with_record (ys @ released_record r # zs) m) P s"
proof -
  have core: "machine_core m P" using ok by (simp add: machine_ok_def)
  have p: "pending m = ys @ r # zs" and held: "rec_write_held r" "\<forall>y \<in> set ys. \<not> rec_write_held y"
    using f by (auto simp: first_held_def)
  note at = matching_at [OF p split_distinct [OF core p]]
  have rok: "record_ok r" using core p by (simp add: machine_core_def)
  define r' where "r' = r\<lparr>rec_phase := (if rec_phase r \<noteq> Terminal then AwaitingReply else rec_phase r),
      rec_write_held := False\<rparr>"
  define m' where "m' = m\<lparr>m_ledger := ledger_release_write X
      (res_write_retained_bytes (rec_reservation r)) (m_ledger m),
      m_matching := (m_matching m)\<lparr>ov_pending := ys @ r' # zs\<rparr>\<rparr>"
  have phase: "rec_phase r = Writing \<or> rec_phase r = Terminal \<or> rec_phase r = Queued"
    using rok held by (cases "rec_phase r") (auto simp: record_ok_def)
  have s: "s = (transition_new Applied, m')"
    using phase held mode by (auto simp: s_def write_completed_def at m'_def r'_def Let_def)
  then show "tr_disposition (fst s) = Applied" "tr_effects (fst s) = []" by simp_all
  have live: "m_phase m = Live" using pending_live [OF core] p by simp
  have "record_ok r'" using rok mode by (auto simp: record_ok_def r'_def split: OperationPhase.splits)
  then have "queue_ok (ys @ r' # zs)"
    using core p held by (intro queue_ok_release [of ys r zs r']) (auto simp: machine_core_alt r'_def)
  moreover have "accounts (m_ledger m') P (mset (charges (ys @ r' # zs)))"
    using ledger_release_write_accounts [OF X, of "m_ledger m" P "rec_reservation r"] core p held
    by (simp add: machine_core_alt m'_def r'_def)
  moreover have "lifecycle_ok m'" using core live by (simp add: machine_core_alt lifecycle_ok_def m'_def)
  ultimately have "machine_ok m' P"
    using ok p by (simp add: machine_ok_def machine_core_alt m'_def)
  moreover have "contract (with_record (ys @ released_record r # zs) m) [] m'"
    by (simp add: contract_def m'_def with_record_def r'_def released_record_def)
  ultimately show "good_step (with_record (ys @ released_record r # zs) m) P s"
    using s by (simp add: good_step_def)
qed

lemma write_completed_final:
  assumes X: "externals_ok X" and ok: "machine_ok m P" and f: "first_held (pending m) ys r zs"
    and mode: "rec_completion r = WriteComplete"
  defines "s \<equiv> write_completed X (m_epoch m) (rec_id r) (rec_effect r) m"
  shows "tr_disposition (fst s) = Applied"
    and "good_step (with_record (ys @ released_record r # zs) m) P s"
proof -
  have core: "machine_core m P" using ok by (simp add: machine_ok_def)
  have p: "pending m = ys @ r # zs" and held: "rec_write_held r" "\<forall>y \<in> set ys. \<not> rec_write_held y"
    using f by (auto simp: first_held_def)
  note at = matching_at [OF p split_distinct [OF core p]]
  have rok: "record_ok r" using core p by (simp add: machine_core_def)
  have phase: "rec_phase r = Writing \<or> rec_phase r = Terminal \<or> rec_phase r = Queued"
    using rok held by (cases "rec_phase r") (auto simp: record_ok_def)
  let ?L = "ledger_release_write X (res_write_retained_bytes (rec_reservation r)) (m_ledger m)"
  let ?m0 = "with_record (ys @ released_record r # zs) m"
  let ?m1 = "without X (ys @ zs) r False ?L m"
  define t :: "unit ConnectionTransition" where
    "t = (if rec_phase r \<noteq> Terminal
          then transition_push (PublishOutcome (m_epoch m) (rec_id r) (OutWriteComplete (rec_delivery r)))
                 (transition_push (CancelDeadline (m_epoch m) (rec_id r)) (transition_new Applied))
          else transition_push (CancelDeadline (m_epoch m) (rec_id r)) (transition_new Applied))"
  have s: "s = finish_drain X t ?m1"
    using phase held mode by (auto simp: s_def write_completed_def at without_def t_def Let_def)
  have disp: "tr_disposition (fst (finish_drain X t ?m1)) = tr_disposition t"
    by (simp add: finish_drain_def close_into_def close_with_failure_into_def close_records_exact
        Let_def)
  then show "tr_disposition (fst s) = Applied" by (simp add: s t_def)
  have "accounts (m_ledger m) P (add_mset (rec_reservation r, True) (mset (charges (ys @ zs))))"
    using core p held by (simp add: machine_core_alt)
  then have "machine_core ?m1 P"
    using ledger_release_write_accounts [OF X] by (intro machine_core_without [OF X core p]) blast
  moreover have "contract ?m0 (tr_effects t) (without X (ys @ zs) (released_record r) False ?L ?m0)"
    using core p
    by (intro contract_without)
      (auto simp: machine_core_def t_def with_record_def)
  then have "contract ?m0 (tr_effects t) ?m1"
    by (simp add: without_def with_record_def)
  ultimately show "good_step ?m0 P s"
    unfolding s by (rule good_finish_drain [OF X])
qed

lemma finish_drain_discards:
  "discard_ids (tr_effects (fst (finish_drain X t m))) = discard_ids (tr_effects t)"
  by (simp add: finish_drain_def close_into_def close_with_failure_into_def close_records_exact
      matching_is_empty_def Let_def)

lemma write_completed_discards:
  "discard_ids (tr_effects (fst (write_completed X epoch operation effect m))) = []"
  by (simp add: write_completed_def Let_def finish_drain_discards split: option.split prod.split)

theorem good_write_completed:
  assumes "externals_ok X" "machine_ok m P" "first_held (pending m) ys r zs"
  shows "tr_disposition (fst (write_completed X (m_epoch m) (rec_id r) (rec_effect r) m)) = Applied"
    and "good_step (with_record (ys @ released_record r # zs) m) P
           (write_completed X (m_epoch m) (rec_id r) (rec_effect r) m)"
  using write_completed_reply [OF assms] write_completed_final [OF assms]
  by (cases "rec_completion r"; simp)+

section \<open>Reservation and commit\<close>

text \<open>The error \<open>machine_reserve\<close> reports, in the order in which the code checks.\<close>

definition machine_refusal ::
  "'g externals \<Rightarrow> Moment \<Rightarrow> OperationOptions \<Rightarrow> ConnectionMachine \<Rightarrow> ReserveError option" where
  "machine_refusal X now options m =
     (if \<not> admits (m_gate m) (opt_class options) then Some AdmissionClosed
      else if is_elapsed_at X (opt_deadline options) now then Some DeadlineElapsed
      else if \<not> identity_available (m_identities m) then Some IdentityExhausted
      else reserve_refusal (m_ledger m) (opt_retained_bytes options) (opt_write_retained_bytes options))"

lemma machine_ok_ledger:
  assumes "machine_ok m P" "accounts L P' (mset (charges (pending m)))"
  shows "machine_ok (m\<lparr>m_ledger := L, m_identities := g\<rparr>) P'"
  using assms by (simp add: machine_ok_def machine_core_alt lifecycle_ok_def)

lemma machine_reserve_refused:
  assumes "externals_ok X" "machine_ok m P" "machine_refusal X now options m = Some e"
  shows "machine_reserve X now options m = (Inl e, m)"
proof -
  have "accounts (m_ledger m) P (mset (charges (pending m)))"
    using assms(2) by (simp add: machine_ok_def machine_core_def)
  from ledger_reserve_refused [OF assms(1) this] assms(3) show ?thesis
    by (auto simp: machine_reserve_def machine_refusal_def split: if_splits)
qed

lemma machine_reserve_accepted:
  assumes X: "externals_ok X" and ok: "machine_ok m P" and fits: "machine_refusal X now options m = None"
  obtains p m' where "machine_reserve X now options m = (Inr p, m')"
    "machine_ok m' (add_mset (permit_reservation p) P)"
    "p = \<lparr>permit_ledger = m_ledger_ref m, permit_epoch = m_epoch m,
         permit_operation = the (gen_operation (m_identities m)),
         permit_effect = the (gen_effect (m_identities m)), permit_deadline = opt_deadline options,
         permit_class = opt_class options, permit_completion = opt_completion_mode options,
         permit_reservation = permit_reservation p, permit_active = True\<rparr>"
    "res_retained_bytes (permit_reservation p) = opt_retained_bytes options"
    "res_write_retained_bytes (permit_reservation p) = opt_write_retained_bytes options"
    "res_match_key (permit_reservation p) \<notin> key_set_keys (led_active_keys (m_ledger m))"
    "res_match_key (permit_reservation p) \<in> key_space (match_keys (led_limits (m_ledger m)))"
    "\<exists>L. m' = m\<lparr>m_ledger := L, m_identities := snd (identity_take (m_identities m))\<rparr> \<and>
       led_limits L = led_limits (m_ledger m)"
    "identity_available (m_identities m)"
proof -
  have acc: "accounts (m_ledger m) P (mset (charges (pending m)))"
    using ok by (simp add: machine_ok_def machine_core_def)
  have open': "admits (m_gate m) (opt_class options)" "\<not> is_elapsed_at X (opt_deadline options) now"
    "identity_available (m_identities m)"
    "reserve_refusal (m_ledger m) (opt_retained_bytes options) (opt_write_retained_bytes options) = None"
    using fits by (auto simp: machine_refusal_def split: if_splits)
  obtain k L' where k: "ledger_reserve X (opt_retained_bytes options) (opt_write_retained_bytes options)
        (m_ledger m) = (Inr \<lparr>res_retained_bytes = opt_retained_bytes options,
          res_write_retained_bytes = opt_write_retained_bytes options, res_match_key = k\<rparr>, L')"
    "accounts L' (add_mset \<lparr>res_retained_bytes = opt_retained_bytes options,
        res_write_retained_bytes = opt_write_retained_bytes options, res_match_key = k\<rparr> P)
       (mset (charges (pending m)))"
    "k \<in> key_space (match_keys (led_limits (m_ledger m)))"
    "k \<notin> key_set_keys (led_active_keys (m_ledger m))" "led_limits L' = led_limits (m_ledger m)"
    by (rule ledger_reserve_accepted [OF X acc open'(4)])
  obtain i e where ie: "gen_operation (m_identities m) = Some i" "gen_effect (m_identities m) = Some e"
    using open'(3) by (auto simp: identity_available_def)
  show ?thesis
  proof (rule that)
    show "machine_reserve X now options m =
       (Inr \<lparr>permit_ledger = m_ledger_ref m, permit_epoch = m_epoch m, permit_operation = i,
             permit_effect = e, permit_deadline = opt_deadline options,
             permit_class = opt_class options, permit_completion = opt_completion_mode options,
             permit_reservation = \<lparr>res_retained_bytes = opt_retained_bytes options,
                res_write_retained_bytes = opt_write_retained_bytes options, res_match_key = k\<rparr>,
             permit_active = True\<rparr>,
        m\<lparr>m_ledger := L', m_identities := snd (identity_take (m_identities m))\<rparr>)"
      using open' k(1) ie by (simp add: machine_reserve_def identity_take_def)
    show "identity_available (m_identities m)" by (rule open'(3))
    show "\<exists>L. m\<lparr>m_ledger := L', m_identities := snd (identity_take (m_identities m))\<rparr> =
        m\<lparr>m_ledger := L, m_identities := snd (identity_take (m_identities m))\<rparr> \<and>
        led_limits L = led_limits (m_ledger m)" using k(5) by blast
  qed (use k ie in \<open>auto intro: machine_ok_ledger [OF ok]\<close>)
qed

text \<open>The record of a newly accepted operation.\<close>

definition committed_record :: "OperationPermit \<Rightarrow> RetainedBytes \<Rightarrow> OperationRecord" where
  "committed_record p charge =
     \<lparr>rec_id = permit_operation p, rec_effect = permit_effect p, rec_deadline = permit_deadline p,
      rec_reservation = (permit_reservation p)\<lparr>res_write_retained_bytes := charge\<rparr>,
      rec_phase = Queued, rec_completion = permit_completion p, rec_delivery = NotSent,
      rec_write_held = True\<rparr>"

lemma commit_permit_exact:
  "commit_permit X p charge m =
     ((permit_operation p,
       transition_push (ScheduleDeadline (m_epoch m) (permit_operation p) (permit_deadline p))
         (transition_new Applied)),
      m\<lparr>m_ledger := ledger_commit X (permit_reservation p) charge (m_ledger m),
        m_matching := (m_matching m)\<lparr>ov_pending := pending m @ [committed_record p charge]\<rparr>\<rparr>)"
  by (simp add: commit_permit_def permit_commit_def committed_record_def matching_push_def Let_def)

theorem commit_permit_ok:
  assumes X: "externals_ok X" and ok: "machine_ok m (add_mset (permit_reservation p) P)"
    and may: "commit_failure p charge m = None"
    and fresh: "permit_operation p \<notin> rec_id ` set (pending m)" "permit_effect p \<notin> rec_effect ` set (pending m)"
  shows "machine_ok (snd (commit_permit X p charge m)) P"
proof -
  let ?r = "committed_record p charge"
  have core: "accounts (m_ledger m) (add_mset (permit_reservation p) P) (mset (charges (pending m)))"
    "queue_ok (pending m)" "lifecycle_ok m"
    using ok by (simp_all add: machine_ok_def machine_core_alt)
  have gate: "admits (m_gate m) (permit_class p)" "charge \<le> res_write_retained_bytes (permit_reservation p)"
    using may by (auto simp: commit_failure_def split: if_splits)
  have live: "m_phase m = Live" "m_gate m \<noteq> Draining"
    using core(3) gate(1) by (auto simp: lifecycle_ok_def split: if_splits)
  have "accounts (ledger_commit X (permit_reservation p) charge (m_ledger m)) P
      (mset (charges (pending m @ [?r])))"
    using ledger_commit_accounts [OF X core(1) gate(2)] by (simp add: committed_record_def)
  moreover have "queue_ok (pending m @ [?r])"
  proof -
    have "held_before a ?r" for a by (simp add: held_before_def committed_record_def)
    moreover have "record_ok ?r" by (simp add: record_ok_def committed_record_def)
    moreover have "rec_id ?r \<notin> rec_id ` set (pending m)" "rec_effect ?r \<notin> rec_effect ` set (pending m)"
      using fresh by (simp_all add: committed_record_def)
    ultimately show ?thesis using core(2) by (simp add: queue_ok_def sorted_wrt_append)
  qed
  ultimately show ?thesis
    using live core(3) by (simp add: commit_permit_exact machine_ok_def machine_core_alt lifecycle_ok_def)
qed

end
