(* ===== verification/WriteQueue.thy ===== *)
theory WriteQueue
  imports Vocabulary
begin

text \<open>
  \<^verbatim>\<open>write/\<close>: the bounded FIFO of complete outbound frames. A frame is opaque (\<open>'f\<close>); its byte view
  and retained memory (\<^verbatim>\<open>trait WriteFrame\<close>) are functions passed to the operations that look at
  them, so that a later call may observe another view than the one measured at commit. The byte
  budget (\<^verbatim>\<open>write/accounting.rs\<close>) is the opaque \<open>'g\<close> of the externals.
\<close>

section \<open>Data\<close>

record FrameMeasure =
  wire_bytes :: usize
  measure_retained_bytes :: RetainedBytes

definition measure_capture ::
  "('f \<Rightarrow> byte list) \<Rightarrow> ('f \<Rightarrow> RetainedBytes) \<Rightarrow> 'f \<Rightarrow> FrameMeasure" where
  "measure_capture bytes retained frame =
     \<lparr>wire_bytes = length (bytes frame), measure_retained_bytes = retained frame\<rparr>"

datatype FrameContractViolation =
    WireLengthChanged (changed_measured: usize) (changed_observed: usize)
  | WriteRangeUnavailable (range_measured: usize) (range_written: usize) (range_observed: usize)

record WriteQueueLimits =
  max_frames :: usize
  queue_max_retained_bytes :: RetainedBytes

definition write_queue_limits :: "ConnectionLimits \<Rightarrow> WriteQueueLimits" where
  "write_queue_limits l =
     \<lparr>max_frames = max_write_frames l, queue_max_retained_bytes = max_write_retained_bytes l\<rparr>"

record 'f QueuedWrite =
  qw_operation :: OperationId
  qw_effect :: EffectId
  qw_frame :: 'f
  qw_measure :: FrameMeasure
  qw_written :: usize
  qw_started :: bool

record 'f DiscardedWrite =
  dw_operation :: OperationId
  dw_effect :: EffectId
  dw_frame :: 'f
  dw_measure :: FrameMeasure
  dw_written :: usize
  dw_delivery :: Delivery

definition into_discarded :: "'f QueuedWrite \<Rightarrow> 'f DiscardedWrite" where
  "into_discarded q =
     \<lparr>dw_operation = qw_operation q, dw_effect = qw_effect q, dw_frame = qw_frame q,
      dw_measure = qw_measure q, dw_written = qw_written q,
      dw_delivery = (if qw_started q then PossiblySent else NotSent)\<rparr>"

record 'f DiscardedWrites =
  discarded_writes :: "'f DiscardedWrite list"
  discarded_retained_bytes :: RetainedBytes

datatype WriteBoundary = Unchanged | Crossed

record WriteSlice =
  ws_epoch :: ConnectionEpoch
  ws_operation :: OperationId
  ws_effect :: EffectId
  ws_bytes :: "byte list"

datatype 'f WriteProgress =
    Pending (pending_operation: OperationId) (pending_boundary: WriteBoundary)
  | Complete (complete_operation: OperationId) (complete_effect: EffectId) (complete_frame: 'f)
      (complete_measure: FrameMeasure) (complete_boundary: WriteBoundary)
      (complete_delivery: Delivery)

datatype WriteIdentityKind = OperationIdentity | EffectIdentity

datatype WriteAdmissionFailure =
    AdmitStaleEpoch (admit_expected: ConnectionEpoch) (admit_received: ConnectionEpoch)
  | IdentityInUse WriteIdentityKind
  | FrameCapacityReached (frame_limit: usize)
  | AdmitRetainedByteCapacity (admit_retained: RetainedBytes) (admit_incoming: RetainedBytes)
      (admit_limit: RetainedBytes)

datatype WriteProgressError =
    ProgressStaleEpoch (progress_expected: ConnectionEpoch) (progress_received: ConnectionEpoch)
  | NoPendingWrite
  | OutOfOrderEffect (effect_expected: EffectId) (effect_received: EffectId)
  | ExceedsRemaining (exceeds_written: usize) (exceeds_remaining: usize)
  | ProgressAccountingOverflow (overflow_measured: usize) (overflow_written: usize)
  | RetainedAccountingUnderflow (underflow_retained: RetainedBytes)
      (underflow_released: RetainedBytes)

record ('f, 'g) WriteQueue =
  wq_epoch :: ConnectionEpoch
  wq_limits :: WriteQueueLimits
  wq_frames :: "'f QueuedWrite list"
  wq_budget :: 'g

section \<open>The retained-byte budget\<close>

text \<open>\<^verbatim>\<open>RetainedBudget\<close>: a thin bridge to \<^verbatim>\<open>ByteBudget\<close>; \<^verbatim>\<open>clear\<close> replaces it by a fresh budget of the
  same limit and reports what was used.\<close>

definition budget_clear :: "'g externals \<Rightarrow> 'g \<Rightarrow> RetainedBytes \<times> 'g" where
  "budget_clear X g = (bb_used X g, bb_new X (bb_limit X g))"

section \<open>Operations\<close>

definition write_queue_new ::
  "'g externals \<Rightarrow> ConnectionEpoch \<Rightarrow> WriteQueueLimits \<Rightarrow> ('f, 'g) WriteQueue" where
  "write_queue_new X epoch limits =
     \<lparr>wq_epoch = epoch, wq_limits = limits, wq_frames = [],
      wq_budget = bb_new X (queue_max_retained_bytes limits)\<rparr>"

definition queue_retained_bytes :: "'g externals \<Rightarrow> ('f, 'g) WriteQueue \<Rightarrow> RetainedBytes" where
  "queue_retained_bytes X q = bb_used X (wq_budget q)"

definition index_of_operation :: "OperationId \<Rightarrow> ('f, 'g) WriteQueue \<Rightarrow> nat option" where
  "index_of_operation operation q = position (\<lambda>w. qw_operation w = operation) (wq_frames q)"

definition index_of_effect :: "EffectId \<Rightarrow> ('f, 'g) WriteQueue \<Rightarrow> nat option" where
  "index_of_effect effect q = position (\<lambda>w. qw_effect w = effect) (wq_frames q)"

definition effect_for :: "OperationId \<Rightarrow> ('f, 'g) WriteQueue \<Rightarrow> EffectId option" where
  "effect_for operation q =
     (case index_of_operation operation q of
        None \<Rightarrow> None
      | Some i \<Rightarrow> (if i < length (wq_frames q) then Some (qw_effect (wq_frames q ! i)) else None))"

definition queued_frames :: "('f, 'g) WriteQueue \<Rightarrow> usize" where
  "queued_frames q = length (wq_frames q)"

definition front_is_empty :: "('f, 'g) WriteQueue \<Rightarrow> bool" where
  "front_is_empty q =
     (case wq_frames q of [] \<Rightarrow> False | w # _ \<Rightarrow> wire_bytes (qw_measure w) = 0)"

text \<open>\<^verbatim>\<open>admission_failure\<close> and \<^verbatim>\<open>admit\<close> (\<^verbatim>\<open>write/admission.rs\<close>); a rejection returns the exact frame.\<close>

definition admission_failure ::
  "'g externals \<Rightarrow> ConnectionEpoch \<Rightarrow> OperationId \<Rightarrow> EffectId \<Rightarrow> RetainedBytes \<Rightarrow>
   ('f, 'g) WriteQueue \<Rightarrow> WriteAdmissionFailure option" where
  "admission_failure X epoch operation effect incoming q =
     (if epoch \<noteq> wq_epoch q then Some (AdmitStaleEpoch (wq_epoch q) epoch)
      else if index_of_operation operation q \<noteq> None then Some (IdentityInUse OperationIdentity)
      else if index_of_effect effect q \<noteq> None then Some (IdentityInUse EffectIdentity)
      else if length (wq_frames q) = max_frames (wq_limits q)
        then Some (FrameCapacityReached (max_frames (wq_limits q)))
      else if \<not> bb_can_reserve X (wq_budget q) incoming
        then Some (AdmitRetainedByteCapacity (queue_retained_bytes X q) incoming
               (queue_max_retained_bytes (wq_limits q)))
      else None)"

definition admit ::
  "'g externals \<Rightarrow> ConnectionEpoch \<Rightarrow> OperationId \<Rightarrow> EffectId \<Rightarrow> FrameMeasure \<Rightarrow> 'f \<Rightarrow>
   ('f, 'g) WriteQueue \<Rightarrow> (WriteAdmissionFailure \<times> 'f + unit) \<times> ('f, 'g) WriteQueue" where
  "admit X epoch operation effect fm frame q =
     (let incoming = measure_retained_bytes fm in
      case admission_failure X epoch operation effect incoming q of
        Some failure \<Rightarrow> (Inl (failure, frame), q)
      | None \<Rightarrow>
          (case bb_try_reserve X (wq_budget q) incoming of
             (False, g) \<Rightarrow>
               (Inl (AdmitRetainedByteCapacity (bb_used X g) incoming
                       (queue_max_retained_bytes (wq_limits q)), frame), q\<lparr>wq_budget := g\<rparr>)
           | (True, g) \<Rightarrow>
               (Inr (),
                q\<lparr>wq_budget := g,
                  wq_frames := wq_frames q @
                    [\<lparr>qw_operation = operation, qw_effect = effect, qw_frame = frame,
                      qw_measure = fm, qw_written = 0, qw_started = False\<rparr>]\<rparr>)))"

text \<open>\<^verbatim>\<open>front\<close>: at most \<open>max_bytes\<close> of the front frame's unwritten tail, from its current byte view.\<close>

definition queue_front ::
  "('f \<Rightarrow> byte list) \<Rightarrow> usize \<Rightarrow> ('f, 'g) WriteQueue \<Rightarrow> FrameContractViolation + WriteSlice option" where
  "queue_front view max_bytes q =
     (case wq_frames q of
        [] \<Rightarrow> Inr None
      | w # _ \<Rightarrow>
          (let bytes = view (qw_frame w); measured = wire_bytes (qw_measure w) in
           if length bytes \<noteq> measured then Inl (WireLengthChanged measured (length bytes))
           else if \<not> (qw_written w \<le> measured \<and> measured \<le> length bytes)
             then Inl (WriteRangeUnavailable measured (qw_written w) (length bytes))
           else
             (let remaining = drop (qw_written w) (take measured bytes);
                  len = min (length remaining) max_bytes
              in Inr (Some \<lparr>ws_epoch = wq_epoch q, ws_operation = qw_operation w,
                            ws_effect = qw_effect w, ws_bytes = take len remaining\<rparr>))))"

definition release_retained ::
  "'g externals \<Rightarrow> RetainedBytes \<Rightarrow> ('f, 'g) WriteQueue \<Rightarrow>
   (WriteProgressError + unit) \<times> ('f, 'g) WriteQueue" where
  "release_retained X released q =
     (let retained = queue_retained_bytes X q in
      case bb_release X (wq_budget q) released of
        (True, g) \<Rightarrow> (Inr (), q\<lparr>wq_budget := g\<rparr>)
      | (False, g) \<Rightarrow> (Inl (RetainedAccountingUnderflow retained released), q\<lparr>wq_budget := g\<rparr>))"

text \<open>
  \<^verbatim>\<open>advance\<close>: exact progress on the FIFO front. The guards are in the source's order. After the
  guards \<open>written \<le> remaining\<close>, so the final \<^verbatim>\<open>checked_add\<close> cannot fail; the branch is kept.
\<close>

definition advance ::
  "'g externals \<Rightarrow> ConnectionEpoch \<Rightarrow> EffectId \<Rightarrow> usize \<Rightarrow> ('f, 'g) WriteQueue \<Rightarrow>
   (WriteProgressError + 'f WriteProgress) \<times> ('f, 'g) WriteQueue" where
  "advance X epoch effect written q =
     (if epoch \<noteq> wq_epoch q then (Inl (ProgressStaleEpoch (wq_epoch q) epoch), q)
      else (case wq_frames q of
        [] \<Rightarrow> (Inl NoPendingWrite, q)
      | w # ws \<Rightarrow>
          if qw_effect w \<noteq> effect then (Inl (OutOfOrderEffect (qw_effect w) effect), q)
          else (case usize_checked_sub (wire_bytes (qw_measure w)) (qw_written w) of
            None \<Rightarrow>
              (Inl (ProgressAccountingOverflow (wire_bytes (qw_measure w)) (qw_written w)), q)
          | Some remaining \<Rightarrow>
              if written > remaining then
                (Inl (ExceedsRemaining written remaining),
                 q\<lparr>wq_frames := w\<lparr>qw_started := (qw_started w \<or> written > 0)\<rparr> # ws\<rparr>)
              else if written = remaining \<and>
                  measure_retained_bytes (qw_measure w) > bb_used X (wq_budget q) then
                (Inl (RetainedAccountingUnderflow (queue_retained_bytes X q)
                        (measure_retained_bytes (qw_measure w))), q)
              else
                (let crossed = (written > 0 \<and> \<not> qw_started w);
                     boundary = (if crossed then Crossed else Unchanged);
                     w1 = (if crossed then w\<lparr>qw_started := True\<rparr> else w)
                 in (case usize_checked_add (qw_written w1) written of
                      None \<Rightarrow>
                        (Inl (ExceedsRemaining written remaining), q\<lparr>wq_frames := w1 # ws\<rparr>)
                    | Some new_written \<Rightarrow>
                        (let w2 = w1\<lparr>qw_written := new_written\<rparr>;
                             delivery = (if qw_started w2 then PossiblySent else NotSent);
                             q2 = q\<lparr>wq_frames := w2 # ws\<rparr>
                         in if new_written < wire_bytes (qw_measure w2)
                            then (Inr (Pending (qw_operation w2) boundary), q2)
                            else if written \<noteq> remaining then
                              (Inl (RetainedAccountingUnderflow (queue_retained_bytes X q)
                                      (measure_retained_bytes (qw_measure w2))), q2)
                            else
                              (case release_retained X (measure_retained_bytes (qw_measure w2)) q2 of
                                 (Inl e, q3) \<Rightarrow> (Inl e, q3)
                               | (Inr _, q3) \<Rightarrow>
                                   (case wq_frames q3 of
                                      [] \<Rightarrow> (Inl NoPendingWrite, q3)
                                    | c # cs \<Rightarrow>
                                        (Inr (Complete (qw_operation c) effect (qw_frame c)
                                                (qw_measure c) boundary delivery),
                                         q3\<lparr>wq_frames := cs\<rparr>)))))))))"

text \<open>\<^verbatim>\<open>discard\<close> and \<^verbatim>\<open>discard_all\<close>.\<close>

definition discard ::
  "'g externals \<Rightarrow> ConnectionEpoch \<Rightarrow> EffectId \<Rightarrow> ('f, 'g) WriteQueue \<Rightarrow>
   (WriteProgressError + 'f DiscardedWrite option) \<times> ('f, 'g) WriteQueue" where
  "discard X epoch effect q =
     (if epoch \<noteq> wq_epoch q then (Inl (ProgressStaleEpoch (wq_epoch q) epoch), q)
      else (case index_of_effect effect q of
        None \<Rightarrow> (Inr None, q)
      | Some index \<Rightarrow>
          (let released = measure_retained_bytes (qw_measure (wq_frames q ! index)) in
           if released > bb_used X (wq_budget q)
           then (Inl (RetainedAccountingUnderflow (queue_retained_bytes X q) released), q)
           else (case release_retained X released q of
                  (Inl e, q1) \<Rightarrow> (Inl e, q1)
                | (Inr _, q1) \<Rightarrow>
                    (if index < length (wq_frames q1)
                     then (Inr (Some (into_discarded (wq_frames q1 ! index))),
                           q1\<lparr>wq_frames := remove_nth index (wq_frames q1)\<rparr>)
                     else (Inr None, q1))))))"

definition discard_all ::
  "'g externals \<Rightarrow> ('f, 'g) WriteQueue \<Rightarrow> 'f DiscardedWrites \<times> ('f, 'g) WriteQueue" where
  "discard_all X q =
     (let (used, g) = budget_clear X (wq_budget q) in
      (\<lparr>discarded_writes = map into_discarded (wq_frames q), discarded_retained_bytes = used\<rparr>,
       q\<lparr>wq_frames := [], wq_budget := g\<rparr>))"

text \<open>The audits of \<^verbatim>\<open>write/integrity.rs\<close>.\<close>

definition write_identities :: "('f, 'g) WriteQueue \<Rightarrow> (OperationId \<times> EffectId) list" where
  "write_identities q = map (\<lambda>w. (qw_operation w, qw_effect w)) (wq_frames q)"

fun try_sum :: "'g externals \<Rightarrow> RetainedBytes \<Rightarrow> 'f QueuedWrite list \<Rightarrow> RetainedBytes option" where
  "try_sum X acc [] = Some acc"
| "try_sum X acc (w # ws) =
     (case rb_checked_add X acc (measure_retained_bytes (qw_measure w)) of
        None \<Rightarrow> None
      | Some acc' \<Rightarrow> try_sum X acc' ws)"

definition accounting_is_valid :: "'g externals \<Rightarrow> ('f, 'g) WriteQueue \<Rightarrow> bool" where
  "accounting_is_valid X q \<longleftrightarrow> try_sum X 0 (wq_frames q) = Some (queue_retained_bytes X q)"

section \<open>The writer invariant\<close>

text \<open>
  Every frame's progress lies within its measured length, and a frame has started exactly when a
  byte of it was reported written, which only the front can be.
\<close>

definition frame_progress_ok :: "'f QueuedWrite \<Rightarrow> bool" where
  "frame_progress_ok w \<longleftrightarrow>
     wire_bytes (qw_measure w) \<le> USIZE_MAX \<and>
     (if qw_started w then 0 < qw_written w \<and> qw_written w < wire_bytes (qw_measure w)
      else qw_written w = 0)"

abbreviation frame_charge :: "'f QueuedWrite \<Rightarrow> RetainedBytes" where
  "frame_charge w \<equiv> measure_retained_bytes (qw_measure w)"

definition queue_inv :: "'g externals \<Rightarrow> ('f, 'g) WriteQueue \<Rightarrow> bool" where
  "queue_inv X q \<longleftrightarrow>
     queue_max_retained_bytes (wq_limits q) \<le> USIZE_MAX \<and>
     bb_limit X (wq_budget q) = queue_max_retained_bytes (wq_limits q) \<and>
     bb_used X (wq_budget q) = sum_list (map frame_charge (wq_frames q)) \<and>
     bb_used X (wq_budget q) \<le> bb_limit X (wq_budget q) \<and>
     length (wq_frames q) \<le> max_frames (wq_limits q) \<and>
     distinct (map qw_operation (wq_frames q)) \<and> distinct (map qw_effect (wq_frames q)) \<and>
     (\<forall>w \<in> set (wq_frames q). frame_progress_ok w) \<and>
     (\<forall>w \<in> set (tl (wq_frames q)). \<not> qw_started w)"

lemma queue_inv_new:
  "externals_ok X \<Longrightarrow> queue_max_retained_bytes l \<le> USIZE_MAX \<Longrightarrow>
   queue_inv X (write_queue_new X epoch l :: ('f, 'g) WriteQueue)"
  by (simp add: queue_inv_def write_queue_new_def budget_ok)

text \<open>The front frame after \<open>n\<close> more bytes, and the boundary that progress crosses.\<close>

definition progressed :: "nat \<Rightarrow> 'f QueuedWrite \<Rightarrow> 'f QueuedWrite" where
  "progressed n w = w\<lparr>qw_written := qw_written w + n, qw_started := (qw_started w \<or> 0 < n)\<rparr>"

definition boundary_of :: "nat \<Rightarrow> 'f QueuedWrite \<Rightarrow> WriteBoundary" where
  "boundary_of n w = (if 0 < n \<and> \<not> qw_started w then Crossed else Unchanged)"

definition remaining_bytes :: "'f QueuedWrite \<Rightarrow> nat" where
  "remaining_bytes w = wire_bytes (qw_measure w) - qw_written w"

lemma progressed_simps [simp]:
  "qw_operation (progressed n w) = qw_operation w" "qw_effect (progressed n w) = qw_effect w"
  "qw_frame (progressed n w) = qw_frame w" "qw_measure (progressed n w) = qw_measure w"
  "qw_written (progressed n w) = qw_written w + n"
  "qw_started (progressed n w) \<longleftrightarrow> qw_started w \<or> 0 < n"
  by (simp_all add: progressed_def)

lemma frame_progress_written: "frame_progress_ok w \<Longrightarrow> qw_written w \<le> wire_bytes (qw_measure w)"
  by (simp add: frame_progress_ok_def split: if_splits)

lemma frame_progress_progressed:
  "frame_progress_ok w \<Longrightarrow> n < remaining_bytes w \<Longrightarrow> frame_progress_ok (progressed n w)"
  by (auto simp: frame_progress_ok_def remaining_bytes_def split: if_splits)

subsection \<open>Admission\<close>

lemma admit_accepts:
  assumes X: "externals_ok X" and inv: "queue_inv X q" and ep: "epoch = wq_epoch q"
    and fresh: "operation \<notin> qw_operation ` set (wq_frames q)" "effect \<notin> qw_effect ` set (wq_frames q)"
    and cap: "length (wq_frames q) < max_frames (wq_limits q)"
      "bb_used X (wq_budget q) + measure_retained_bytes fm \<le> queue_max_retained_bytes (wq_limits q)"
    and wire: "wire_bytes fm \<le> USIZE_MAX"
  obtains q' where "admit X epoch operation effect fm frame q = (Inr (), q')" "queue_inv X q'"
    "wq_frames q' = wq_frames q @
       [\<lparr>qw_operation = operation, qw_effect = effect, qw_frame = frame,
         qw_measure = fm, qw_written = 0, qw_started = False\<rparr>]"
    "wq_epoch q' = wq_epoch q" "wq_limits q' = wq_limits q"
proof -
  let ?n = "measure_retained_bytes fm"
  obtain g where g: "bb_try_reserve X (wq_budget q) ?n = (True, g)"
    "bb_used X g = bb_used X (wq_budget q) + ?n" "bb_limit X g = bb_limit X (wq_budget q)"
    using budget_ok(4-6) [OF X, where g = "wq_budget q" and n = ?n] cap(2) inv
    by (cases "bb_try_reserve X (wq_budget q) ?n") (auto simp: queue_inv_def)
  have "admission_failure X epoch operation effect ?n q = None"
    using ep fresh cap inv budget_ok(3) [OF X]
    by (auto simp: admission_failure_def index_of_operation_def index_of_effect_def queue_inv_def)
  with g(1) have res: "admit X epoch operation effect fm frame q =
     (Inr (), q\<lparr>wq_budget := g, wq_frames := wq_frames q @
         [\<lparr>qw_operation = operation, qw_effect = effect, qw_frame = frame,
           qw_measure = fm, qw_written = 0, qw_started = False\<rparr>]\<rparr>)" (is "_ = (_, ?q)")
    by (simp add: admit_def)
  moreover have "queue_inv X ?q"
    using inv g fresh cap wire by (cases "wq_frames q") (auto simp: queue_inv_def frame_progress_ok_def)
  ultimately show ?thesis using that by simp
qed

text \<open>A rejected frame is returned unchanged and leaves the writer as it was.\<close>

lemma admit_rejects:
  assumes X: "externals_ok X" and inv: "queue_inv X q"
    and res: "admit X epoch operation effect fm frame q = (Inl (failure, frame'), q')"
  shows "frame' = frame \<and> q' = q \<and>
    admission_failure X epoch operation effect (measure_retained_bytes fm) q = Some failure"
proof (cases "admission_failure X epoch operation effect (measure_retained_bytes fm) q")
  case None
  then have "bb_used X (wq_budget q) + measure_retained_bytes fm \<le> bb_limit X (wq_budget q)"
    using budget_ok(3) [OF X] by (auto simp: admission_failure_def split: if_splits)
  then have "fst (bb_try_reserve X (wq_budget q) (measure_retained_bytes fm))"
    using budget_ok(4) [OF X] by blast
  with None res show ?thesis
    by (cases "bb_try_reserve X (wq_budget q) (measure_retained_bytes fm)") (auto simp: admit_def)
next
  case (Some f)
  with res show ?thesis by (auto simp: admit_def)
qed

subsection \<open>Progress\<close>

lemma advance_stale: "epoch \<noteq> wq_epoch q \<Longrightarrow>
    advance X epoch effect n q = (Inl (ProgressStaleEpoch (wq_epoch q) epoch), q)"
  by (simp add: advance_def)

lemma advance_empty: "epoch = wq_epoch q \<Longrightarrow> wq_frames q = [] \<Longrightarrow>
    advance X epoch effect n q = (Inl NoPendingWrite, q)"
  by (simp add: advance_def)

lemma advance_out_of_order:
  "epoch = wq_epoch q \<Longrightarrow> wq_frames q = w # ws \<Longrightarrow> qw_effect w \<noteq> effect \<Longrightarrow>
   advance X epoch effect n q = (Inl (OutOfOrderEffect (qw_effect w) effect), q)"
  by (simp add: advance_def)

lemma advance_exceeds:
  assumes "queue_inv X q" "epoch = wq_epoch q" "wq_frames q = w # ws" "qw_effect w = effect"
    and "remaining_bytes w < n"
  shows "advance X epoch effect n q = (Inl (ExceedsRemaining n (remaining_bytes w)),
    q\<lparr>wq_frames := w\<lparr>qw_started := True\<rparr> # ws\<rparr>)"
proof -
  have "qw_written w \<le> wire_bytes (qw_measure w)"
    using assms(1,3) frame_progress_written by (auto simp: queue_inv_def)
  with assms show ?thesis by (simp add: advance_def remaining_bytes_def usize_checked_sub_def)
qed

lemma advance_pending:
  assumes inv: "queue_inv X q" and q: "epoch = wq_epoch q" "wq_frames q = w # ws" "qw_effect w = effect"
    and n: "n < remaining_bytes w"
  shows "advance X epoch effect n q =
      (Inr (Pending (qw_operation w) (boundary_of n w)), q\<lparr>wq_frames := progressed n w # ws\<rparr>)"
    "queue_inv X (q\<lparr>wq_frames := progressed n w # ws\<rparr>)"
proof -
  have ok: "frame_progress_ok w" using inv q by (auto simp: queue_inv_def)
  then have "qw_written w \<le> wire_bytes (qw_measure w)" "wire_bytes (qw_measure w) \<le> USIZE_MAX"
    using frame_progress_written by (auto simp: frame_progress_ok_def)
  with q n show "advance X epoch effect n q =
      (Inr (Pending (qw_operation w) (boundary_of n w)), q\<lparr>wq_frames := progressed n w # ws\<rparr>)"
    by (auto simp: advance_def remaining_bytes_def usize_checked_sub_def usize_checked_add_def
        boundary_of_def progressed_def Let_def)
  show "queue_inv X (q\<lparr>wq_frames := progressed n w # ws\<rparr>)"
    using inv q frame_progress_progressed [OF ok n] by (auto simp: queue_inv_def)
qed

text \<open>Releasing the charge of a frame that the queue holds.\<close>

lemma release_retained_frame:
  assumes X: "externals_ok X" and le: "c \<le> bb_used X (wq_budget q)"
  obtains g where "release_retained X c q = (Inr (), q\<lparr>wq_budget := g\<rparr>)"
    "bb_used X g = bb_used X (wq_budget q) - c" "bb_limit X g = bb_limit X (wq_budget q)"
  using budget_ok(7-9) [OF X, where g = "wq_budget q" and n = c] le that [of "snd (bb_release X (wq_budget q) c)"]
  by (cases "bb_release X (wq_budget q) c") (auto simp: release_retained_def)

lemma advance_complete:
  assumes X: "externals_ok X" and inv: "queue_inv X q"
    and q: "epoch = wq_epoch q" "wq_frames q = w # ws" "qw_effect w = effect"
    and n: "n = remaining_bytes w"
  obtains q' where "advance X epoch effect n q =
      (Inr (Complete (qw_operation w) effect (qw_frame w) (qw_measure w) (boundary_of n w)
              (if wire_bytes (qw_measure w) = 0 then NotSent else PossiblySent)), q')"
    "queue_inv X q'" "wq_frames q' = ws" "wq_epoch q' = wq_epoch q" "wq_limits q' = wq_limits q"
proof -
  have ok: "frame_progress_ok w" using inv q by (auto simp: queue_inv_def)
  then have wr: "qw_written w \<le> wire_bytes (qw_measure w)" "wire_bytes (qw_measure w) \<le> USIZE_MAX"
    using frame_progress_written by (auto simp: frame_progress_ok_def)
  have started: "(qw_started w \<or> 0 < n) \<longleftrightarrow> wire_bytes (qw_measure w) \<noteq> 0"
    using ok n wr by (auto simp: frame_progress_ok_def remaining_bytes_def split: if_splits)
  have le: "frame_charge w \<le> bb_used X (wq_budget q)" using inv q by (simp add: queue_inv_def)
  obtain g where g: "release_retained X (frame_charge w) (q\<lparr>wq_frames := progressed n w # ws\<rparr>) =
      (Inr (), (q\<lparr>wq_frames := progressed n w # ws\<rparr>)\<lparr>wq_budget := g\<rparr>)"
    "bb_used X g = bb_used X (wq_budget q) - frame_charge w" "bb_limit X g = bb_limit X (wq_budget q)"
    using release_retained_frame [OF X, of "frame_charge w" "q\<lparr>wq_frames := progressed n w # ws\<rparr>"] le
    by auto
  define q' where "q' = q\<lparr>wq_frames := ws, wq_budget := g\<rparr>"
  have tot: "qw_written w + n = wire_bytes (qw_measure w)" using n wr by (simp add: remaining_bytes_def)
  have sub: "usize_checked_sub (wire_bytes (qw_measure w)) (qw_written w) = Some n"
    using n wr by (simp add: remaining_bytes_def)
  have shape: "0 < n \<Longrightarrow> \<not> qw_started w \<Longrightarrow>
      w\<lparr>qw_started := True, qw_written := wire_bytes (qw_measure w)\<rparr> = progressed n w"
    "\<not> (0 < n \<and> \<not> qw_started w) \<Longrightarrow> w\<lparr>qw_written := wire_bytes (qw_measure w)\<rparr> = progressed n w"
    using tot by (simp_all add: progressed_def) (cases w, auto)
  have "advance X epoch effect n q =
      (Inr (Complete (qw_operation w) effect (qw_frame w) (qw_measure w) (boundary_of n w)
              (if wire_bytes (qw_measure w) = 0 then NotSent else PossiblySent)), q')"
  proof (cases "0 < n \<and> \<not> qw_started w")
    case True
    then have eq: "w\<lparr>qw_started := True, qw_written := wire_bytes (qw_measure w)\<rparr> = progressed n w"
      using shape(1) by blast
    from True q sub wr(2) le g(1) started tot show ?thesis
      by (simp del: usize_checked_sub_Some add: advance_def usize_checked_add_def boundary_of_def
          q'_def Let_def eq)
  next
    case False
    then have eq: "w\<lparr>qw_written := wire_bytes (qw_measure w)\<rparr> = progressed n w"
      using shape(2) by blast
    have cases: "qw_started w \<or> n = 0 \<and> \<not> qw_started w" using False by auto
    from started have delivery: "wire_bytes (qw_measure w) = 0 \<longleftrightarrow> \<not> qw_started w"
      using False by auto
    from cases q sub wr(2) le g(1) tot show ?thesis
      by (elim disjE) (simp_all del: usize_checked_sub_Some add: advance_def usize_checked_add_def
          boundary_of_def q'_def Let_def eq delivery)
  qed
  moreover have "queue_inv X q'"
    using inv q g by (cases ws) (auto simp: queue_inv_def q'_def)
  ultimately show ?thesis using that by (simp add: q'_def)
qed

subsection \<open>Discarding\<close>

lemma discard_present:
  assumes X: "externals_ok X" and inv: "queue_inv X q" and ep: "epoch = wq_epoch q"
    and fr: "wq_frames q = ys @ w # zs" "qw_effect w = effect"
  obtains q' where "discard X epoch effect q = (Inr (Some (into_discarded w)), q')"
    "queue_inv X q'" "wq_frames q' = ys @ zs" "wq_epoch q' = wq_epoch q" "wq_limits q' = wq_limits q"
proof -
  have "distinct (map qw_effect (ys @ w # zs))" using inv fr by (simp add: queue_inv_def)
  then have "qw_effect w \<notin> qw_effect ` set ys" by simp
  then have "\<forall>y \<in> set ys. qw_effect y \<noteq> effect" using fr(2) by (metis image_eqI)
  then have idx: "index_of_effect effect q = Some (length ys)"
    using fr by (simp add: index_of_effect_def position_append_first)
  have le: "frame_charge w \<le> bb_used X (wq_budget q)" using inv fr by (simp add: queue_inv_def)
  obtain g where g: "release_retained X (frame_charge w) q = (Inr (), q\<lparr>wq_budget := g\<rparr>)"
    "bb_used X g = bb_used X (wq_budget q) - frame_charge w" "bb_limit X g = bb_limit X (wq_budget q)"
    using release_retained_frame [OF X le] by blast
  define q' where "q' = q\<lparr>wq_budget := g, wq_frames := ys @ zs\<rparr>"
  have "discard X epoch effect q = (Inr (Some (into_discarded w)), q')"
    using ep idx le g(1) fr by (simp add: discard_def q'_def)
  moreover have "queue_inv X q'"
    using inv fr g by (cases ys; cases zs) (auto simp: queue_inv_def q'_def)
  ultimately show ?thesis using that by (simp add: q'_def)
qed

lemma discard_absent:
  "epoch = wq_epoch q \<Longrightarrow> effect \<notin> qw_effect ` set (wq_frames q) \<Longrightarrow>
   discard X epoch effect q = (Inr None, q)"
  using position_None [of "\<lambda>w. qw_effect w = effect" "wq_frames q"]
  by (auto simp: discard_def index_of_effect_def simp del: position_None)

lemma discard_all_exact:
  assumes "externals_ok X" "queue_inv X q"
  shows "fst (discard_all X q) = \<lparr>discarded_writes = map into_discarded (wq_frames q),
      discarded_retained_bytes = sum_list (map frame_charge (wq_frames q))\<rparr>"
    "queue_inv X (snd (discard_all X q))" "wq_frames (snd (discard_all X q)) = []"
  using assms by (simp_all add: discard_all_def budget_clear_def queue_inv_def budget_ok)

subsection \<open>Observations\<close>

lemma try_sum_exact:
  assumes "externals_ok X"
  shows "acc + sum_list (map frame_charge ws) \<le> USIZE_MAX \<Longrightarrow>
    try_sum X acc ws = Some (acc + sum_list (map frame_charge ws))"
  by (induction ws arbitrary: acc) (simp_all add: rb_checked_add_ok [OF assms] add.assoc)

lemma queue_inv_accounting: "externals_ok X \<Longrightarrow> queue_inv X q \<Longrightarrow> accounting_is_valid X q"
  by (simp add: accounting_is_valid_def queue_inv_def queue_retained_bytes_def try_sum_exact)

text \<open>The slice offered to the transport is exactly the next unwritten bytes of the front frame.\<close>

lemma queue_front_exact:
  assumes inv: "queue_inv X q" and fr: "wq_frames q = w # ws"
    and stable: "length (view (qw_frame w)) = wire_bytes (qw_measure w)"
  shows "queue_front view n q =
    Inr (Some \<lparr>ws_epoch = wq_epoch q, ws_operation = qw_operation w, ws_effect = qw_effect w,
      ws_bytes = take n (drop (qw_written w) (view (qw_frame w)))\<rparr>)"
proof -
  have "qw_written w \<le> wire_bytes (qw_measure w)"
    using inv fr frame_progress_written by (auto simp: queue_inv_def)
  with fr stable show ?thesis by (auto simp: queue_front_def Let_def min_def)
qed

lemma queue_front_violation:
  assumes "queue_inv X q" "wq_frames q = w # ws"
  shows "(\<exists>v. queue_front view n q = Inl v) \<longleftrightarrow> length (view (qw_frame w)) \<noteq> wire_bytes (qw_measure w)"
proof (cases "length (view (qw_frame w)) = wire_bytes (qw_measure w)")
  case True
  with queue_front_exact [OF assms, of view n] show ?thesis by simp
next
  case False
  with assms(2) show ?thesis by (simp add: queue_front_def)
qed

lemma queue_front_empty: "wq_frames q = [] \<Longrightarrow> queue_front view n q = Inr None"
  by (simp add: queue_front_def)

end
