(* ===== verification/Journal.thy ===== *)
theory Journal
  imports MachineSteps WriteQueue
begin

text \<open>
  \<^verbatim>\<open>connection/journal.rs\<close>: preallocated slots that keep, across one reconciliation, the operations
  and frames which a step is about to give up. The slots refine a bounded list of operations and a
  bounded list of frames with one overflow place.
\<close>

section \<open>Slots\<close>

record JournalOperation =
  jo_wire_index :: usize
  jo_operation :: OperationId
  jo_effect :: EffectId
  jo_delivery :: Delivery
  jo_phase :: OperationPhase
  jo_write_held :: bool

record 'f RecoveryJournal =
  jr_operations :: "JournalOperation option list"
  jr_operation_len :: usize
  jr_writes :: "'f DiscardedWrite option list"
  jr_write_len :: usize
  jr_overflow_write :: "'f DiscardedWrite option"
  jr_armed :: bool

definition journal_new :: "usize \<Rightarrow> usize \<Rightarrow> 'f RecoveryJournal" where
  "journal_new operation_slots write_slots =
     \<lparr>jr_operations = replicate operation_slots None, jr_operation_len = 0,
      jr_writes = replicate write_slots None, jr_write_len = 0, jr_overflow_write = None,
      jr_armed = False\<rparr>"

definition blank_prefix :: "nat \<Rightarrow> 'a option list \<Rightarrow> 'a option list" where
  "blank_prefix n xs = replicate (length (take n xs)) None @ drop n xs"

definition journal_clear :: "'f RecoveryJournal \<Rightarrow> 'f RecoveryJournal" where
  "journal_clear j =
     j\<lparr>jr_operations := blank_prefix (jr_operation_len j) (jr_operations j), jr_operation_len := 0,
       jr_writes := blank_prefix (jr_write_len j) (jr_writes j), jr_write_len := 0,
       jr_overflow_write := None, jr_armed := False\<rparr>"

definition journal_operation :: "OperationRecord \<Rightarrow> usize \<Rightarrow> JournalOperation" where
  "journal_operation record wire_index =
     \<lparr>jo_wire_index = wire_index, jo_operation = rec_id record, jo_effect = rec_effect record,
      jo_delivery = rec_delivery record, jo_phase = rec_phase record,
      jo_write_held = rec_write_held record\<rparr>"

definition retain_operation ::
  "OperationRecord \<Rightarrow> usize \<Rightarrow> 'f RecoveryJournal \<Rightarrow> bool \<times> 'f RecoveryJournal" where
  "retain_operation record wire_index j =
     (if jr_operation_len j < length (jr_operations j)
      then (True,
            j\<lparr>jr_operations :=
                (jr_operations j)[jr_operation_len j := Some (journal_operation record wire_index)],
              jr_operation_len := usize_inc (jr_operation_len j)\<rparr>)
      else (False, j))"

definition retain_write ::
  "'f DiscardedWrite \<Rightarrow> 'f RecoveryJournal \<Rightarrow> bool \<times> 'f RecoveryJournal" where
  "retain_write write j =
     (if jr_write_len j < length (jr_writes j)
      then (True,
            j\<lparr>jr_writes := (jr_writes j)[jr_write_len j := Some write],
              jr_write_len := usize_inc (jr_write_len j)\<rparr>)
      else (False,
            (if jr_overflow_write j = None then j\<lparr>jr_overflow_write := Some write\<rparr> else j)))"

text \<open>The enumerating loop of \<^verbatim>\<open>begin\<close>; a record that does not fit empties the journal again.\<close>

fun retain_records ::
  "usize \<Rightarrow> OperationRecord list \<Rightarrow> 'f RecoveryJournal \<Rightarrow> bool \<times> 'f RecoveryJournal" where
  "retain_records wire_index [] j = (True, j)"
| "retain_records wire_index (record # records) j =
     (case retain_operation record wire_index j of
        (False, j1) \<Rightarrow> (False, journal_clear j1)
      | (True, j1) \<Rightarrow> retain_records (Suc wire_index) records j1)"

definition journal_begin ::
  "OperationRecord list \<Rightarrow> 'f RecoveryJournal \<Rightarrow> bool \<times> 'f RecoveryJournal" where
  "journal_begin records j =
     (case retain_records 0 records (journal_clear j) of
        (False, j1) \<Rightarrow> (False, j1)
      | (True, j1) \<Rightarrow> (True, j1\<lparr>jr_armed := True\<rparr>))"

definition begin_write_progress :: "'f RecoveryJournal \<Rightarrow> 'f RecoveryJournal" where
  "begin_write_progress j = (journal_clear j)\<lparr>jr_armed := True\<rparr>"

definition begin_operation ::
  "OperationRecord \<Rightarrow> usize \<Rightarrow> 'f RecoveryJournal \<Rightarrow> bool \<times> 'f RecoveryJournal" where
  "begin_operation record wire_index j =
     retain_operation record wire_index ((journal_clear j)\<lparr>jr_armed := True\<rparr>)"

definition present :: "'a option list \<Rightarrow> 'a list" where
  "present xs = concat (map (\<lambda>x. case x of None \<Rightarrow> [] | Some y \<Rightarrow> [y]) xs)"

definition take_operations :: "'f RecoveryJournal \<Rightarrow> JournalOperation list \<times> 'f RecoveryJournal" where
  "take_operations j =
     (present (take (jr_operation_len j) (jr_operations j)),
      j\<lparr>jr_operations := blank_prefix (jr_operation_len j) (jr_operations j),
        jr_operation_len := 0\<rparr>)"

definition take_writes :: "'f RecoveryJournal \<Rightarrow> 'f DiscardedWrite list \<times> 'f RecoveryJournal" where
  "take_writes j =
     (present (take (jr_write_len j) (jr_writes j)) @ present [jr_overflow_write j],
      j\<lparr>jr_writes := blank_prefix (jr_write_len j) (jr_writes j), jr_write_len := 0,
        jr_overflow_write := None, jr_armed := False\<rparr>)"

section \<open>The bounded lists behind the slots\<close>

definition journal_of ::
  "usize \<Rightarrow> usize \<Rightarrow> JournalOperation list \<Rightarrow> 'f DiscardedWrite list \<Rightarrow> 'f DiscardedWrite option \<Rightarrow>
   bool \<Rightarrow> 'f RecoveryJournal" where
  "journal_of mo mw ops ws ov armed =
     \<lparr>jr_operations = map Some ops @ replicate (mo - length ops) None,
      jr_operation_len = length ops,
      jr_writes = map Some ws @ replicate (mw - length ws) None, jr_write_len = length ws,
      jr_overflow_write = ov, jr_armed = armed\<rparr>"

lemma journal_new_of: "journal_new mo mw = journal_of mo mw [] [] None False"
  by (simp add: journal_new_def journal_of_def)

lemma blank_prefix_filled:
  "length xs \<le> n \<Longrightarrow> blank_prefix (length xs) (map Some xs @ replicate (n - length xs) None) = replicate n None"
  by (simp add: blank_prefix_def flip: replicate_add)

lemma present_simps [simp]:
  "present [] = []" "present (None # xs) = present xs" "present (Some x # xs) = x # present xs"
  "present (xs @ ys) = present xs @ present ys" "present (map Some zs) = zs"
  "present (replicate n None) = []"
  by (simp_all add: present_def comp_def)

lemma journal_clear_of [simp]:
  "length ops \<le> mo \<Longrightarrow> length ws \<le> mw \<Longrightarrow>
   journal_clear (journal_of mo mw ops ws ov armed) = journal_of mo mw [] [] None False"
  by (simp add: journal_clear_def journal_of_def blank_prefix_filled)

lemma fill_slot:
  "length xs < n \<Longrightarrow> (map Some xs @ replicate (n - length xs) None)[length xs := Some x] =
     map Some (xs @ [x]) @ replicate (n - Suc (length xs)) None"
  by (cases "n - length xs") (auto simp: list_update_append Suc_diff_Suc)

lemma retain_operation_of:
  assumes "length ops < mo" "mo \<le> USIZE_MAX"
  shows "retain_operation r i (journal_of mo mw ops ws ov armed) =
     (True, journal_of mo mw (ops @ [journal_operation r i]) ws ov armed)"
  using assms by (simp add: retain_operation_def journal_of_def fill_slot usize_inc_exact)

lemma retain_operation_full:
  "length ops = mo \<Longrightarrow> retain_operation r i (journal_of mo mw ops ws ov armed) =
     (False, journal_of mo mw ops ws ov armed)"
  by (simp add: retain_operation_def journal_of_def)

lemma retain_write_of:
  assumes "length ws < mw" "mw \<le> USIZE_MAX"
  shows "retain_write w (journal_of mo mw ops ws ov armed) =
     (True, journal_of mo mw ops (ws @ [w]) ov armed)"
  using assms by (simp add: retain_write_def journal_of_def fill_slot usize_inc_exact)

text \<open>A frame that does not fit is never dropped by the first failure: it goes to the overflow place.\<close>

lemma retain_write_full:
  "length ws = mw \<Longrightarrow> retain_write w (journal_of mo mw ops ws None armed) =
     (False, journal_of mo mw ops ws (Some w) armed)"
  by (simp add: retain_write_def journal_of_def)

lemma journal_armed_of [simp]:
  "(journal_of mo mw ops ws ov armed)\<lparr>jr_armed := a\<rparr> = journal_of mo mw ops ws ov a"
  "jr_armed (journal_of mo mw ops ws ov armed) = armed"
  by (simp_all add: journal_of_def)

text \<open>The operations a journal keeps for a queue of records, with their wire positions.\<close>

definition journal_records :: "nat \<Rightarrow> OperationRecord list \<Rightarrow> JournalOperation list" where
  "journal_records i rs = map (\<lambda>(k, r). journal_operation r k) (enumerate i rs)"

lemma retain_records_of:
  assumes "length ops + length rs \<le> mo" "mo \<le> USIZE_MAX"
  shows "retain_records i rs (journal_of mo mw ops ws ov armed) =
     (True, journal_of mo mw (ops @ journal_records i rs) ws ov armed)"
  using assms
proof (induction rs arbitrary: i ops)
  case Nil
  then show ?case by (simp add: journal_records_def)
next
  case (Cons r rs)
  then show ?case
    using Cons.IH [of "ops @ [journal_operation r i]" "Suc i"]
    by (simp add: retain_operation_of journal_records_def)
qed

theorem journal_begin_of:
  assumes "length ops \<le> mo" "length ws \<le> mw" "mo \<le> USIZE_MAX" "length rs \<le> mo"
  shows "journal_begin rs (journal_of mo mw ops ws ov armed) =
     (True, journal_of mo mw (journal_records 0 rs) [] None True)"
  using assms by (simp add: journal_begin_def retain_records_of)

theorem begin_operation_of:
  assumes "length ops \<le> mo" "length ws \<le> mw" "mo \<le> USIZE_MAX" "0 < mo"
  shows "begin_operation r i (journal_of mo mw ops ws ov armed) =
     (True, journal_of mo mw [journal_operation r i] [] None True)"
  using assms by (simp add: begin_operation_def retain_operation_of)

theorem begin_write_progress_of:
  assumes "length ops \<le> mo" "length ws \<le> mw"
  shows "begin_write_progress (journal_of mo mw ops ws ov armed) = journal_of mo mw [] [] None True"
  using assms by (simp add: begin_write_progress_def)

theorem take_operations_of:
  assumes "length ops \<le> mo"
  shows "take_operations (journal_of mo mw ops ws ov armed) = (ops, journal_of mo mw [] ws ov armed)"
  using assms by (simp add: take_operations_def journal_of_def blank_prefix_filled)

theorem take_writes_of:
  assumes "length ws \<le> mw"
  shows "take_writes (journal_of mo mw ops ws ov armed) =
     (ws @ present [ov], journal_of mo mw ops [] None False)"
  using assms by (simp add: take_writes_def journal_of_def blank_prefix_filled)

end
