(* ===== verification/Core.thy ===== *)
theory Core
  imports Journal
begin

text \<open>
  \<^verbatim>\<open>connection/core.rs\<close>, \<^verbatim>\<open>progress.rs\<close>, \<^verbatim>\<open>integrity.rs\<close> and \<^verbatim>\<open>core_error.rs\<close>: the sole mutation owner of one
  connection epoch. It joins the policy machine with the complete outbound frames, executes the
  machine's \<open>DiscardWrite\<close> effects on its own writer, and latches poison on any disagreement.
\<close>

section \<open>State and errors\<close>

datatype ConnectionCoreInvariant =
    CoreFrameContractViolation FrameContractViolation
  | MissingWrite (missing_operation: OperationId) (missing_effect: EffectId)
  | DiscardedWriteMismatch (mismatch_expected: OperationId) (mismatch_actual: OperationId)
  | WriteIdentityMismatch (identity_operation: OperationId) (identity_expected: EffectId)
      (identity_actual: EffectId)
  | UnexpectedWrite (unexpected_operation: OperationId) (unexpected_effect: EffectId)
  | WritePolicyMismatch (policy_operation: OperationId) (policy_effect: EffectId)
      (policy_disposition: InputDisposition)
  | ReservationAccounting
  | WriteAccounting
  | WriteProgressContract (contract_written: usize) (contract_remaining: usize)
  | RecoveryJournalCapacity
  | Recovered

datatype ConnectionCoreError =
    CoreWrite WriteProgressError
  | CoreInvariant ConnectionCoreInvariant
  | CorePoisoned ConnectionCoreInvariant

record ('f, 'g) ConnectionCore =
  core_machine :: ConnectionMachine
  core_writes :: "('f, 'g) WriteQueue"
  core_journal :: "'f RecoveryJournal"
  core_poisoned :: "ConnectionCoreInvariant option"

definition core_with_identity_seeds ::
  "'g externals \<Rightarrow> LedgerRef \<Rightarrow> EndpointId \<Rightarrow> LaneId \<Rightarrow> ConnectionId \<Rightarrow> ConnectionEpoch \<Rightarrow>
   ConnectionLimits \<Rightarrow> IdentitySeeds \<Rightarrow> ('f, 'g) ConnectionCore" where
  "core_with_identity_seeds X ref endpoint lane connection epoch limits seeds =
     \<lparr>core_machine = machine_with_identity_seeds ref endpoint lane connection epoch limits seeds,
      core_writes = write_queue_new X epoch (write_queue_limits limits),
      core_journal = journal_new (max_operations limits) (max_write_frames limits),
      core_poisoned = None\<rparr>"

definition core_new ::
  "'g externals \<Rightarrow> LedgerRef \<Rightarrow> EndpointId \<Rightarrow> LaneId \<Rightarrow> ConnectionId \<Rightarrow> ConnectionEpoch \<Rightarrow>
   ConnectionLimits \<Rightarrow> ('f, 'g) ConnectionCore" where
  "core_new X ref endpoint lane connection epoch limits =
     \<lparr>core_machine = machine_new ref endpoint lane connection epoch limits,
      core_writes = write_queue_new X epoch (write_queue_limits limits),
      core_journal = journal_new (max_operations limits) (max_write_frames limits),
      core_poisoned = None\<rparr>"

text \<open>The \<^verbatim>\<open>?\<close> operator on a result that carries the owner's state.\<close>

definition try_then ::
  "('e + 'a) \<times> 's \<Rightarrow> ('a \<Rightarrow> 's \<Rightarrow> ('e + 'b) \<times> 's) \<Rightarrow> ('e + 'b) \<times> 's" where
  "try_then rs f = (case rs of (Inl e, s) \<Rightarrow> (Inl e, s) | (Inr x, s) \<Rightarrow> f x s)"

section \<open>Health, ownership audit and journal preparation\<close>

definition core_poison ::
  "ConnectionCoreInvariant \<Rightarrow> ('f, 'g) ConnectionCore \<Rightarrow>
   (ConnectionCoreError + 'a) \<times> ('f, 'g) ConnectionCore" where
  "core_poison source c =
     (Inl (CoreInvariant source),
      (if core_poisoned c = None then c\<lparr>core_poisoned := Some source\<rparr> else c))"

definition ensure_healthy ::
  "('f, 'g) ConnectionCore \<Rightarrow> (ConnectionCoreError + unit) \<times> ('f, 'g) ConnectionCore" where
  "ensure_healthy c =
     (if led_poisoned (m_ledger (core_machine c)) then core_poison ReservationAccounting c
      else (case core_poisoned c of
        Some source \<Rightarrow> (Inl (CorePoisoned source), c)
      | None \<Rightarrow> (Inr (), c)))"

fun ownership_merge ::
  "OperationRecord list \<Rightarrow> (OperationId \<times> EffectId) list \<Rightarrow> ConnectionCoreInvariant option" where
  "ownership_merge [] [] = None"
| "ownership_merge [] ((operation, effect) # _) = Some (UnexpectedWrite operation effect)"
| "ownership_merge (record # records) writes =
     (if \<not> rec_write_held record then ownership_merge records writes
      else (case writes of
        [] \<Rightarrow> Some (MissingWrite (rec_id record) (rec_effect record))
      | (operation, effect) # writes' \<Rightarrow>
          if operation \<noteq> rec_id record then Some (UnexpectedWrite operation effect)
          else if effect \<noteq> rec_effect record
            then Some (WriteIdentityMismatch (rec_id record) (rec_effect record) effect)
          else ownership_merge records writes'))"

definition ownership_merge_violation ::
  "('f, 'g) ConnectionCore \<Rightarrow> ConnectionCoreInvariant option" where
  "ownership_merge_violation c =
     ownership_merge (ov_pending (m_matching (core_machine c))) (write_identities (core_writes c))"

definition verify_ownership ::
  "'g externals \<Rightarrow> ('f, 'g) ConnectionCore \<Rightarrow>
   (ConnectionCoreError + unit) \<times> ('f, 'g) ConnectionCore" where
  "verify_ownership X c =
     (case (if accounting_is_valid X (core_writes c) then ownership_merge_violation c
            else Some WriteAccounting) of
        Some source \<Rightarrow> core_poison source c
      | None \<Rightarrow> (Inr (), c))"

definition verify_ownership_on_hot_path ::
  "'g externals \<Rightarrow> ('f, 'g) ConnectionCore \<Rightarrow>
   (ConnectionCoreError + unit) \<times> ('f, 'g) ConnectionCore" where
  "verify_ownership_on_hot_path X c =
     (if debug_assertions X then verify_ownership X c else (Inr (), c))"

definition begin_recovery_journal ::
  "('f, 'g) ConnectionCore \<Rightarrow> (ConnectionCoreError + unit) \<times> ('f, 'g) ConnectionCore" where
  "begin_recovery_journal c =
     (case journal_begin (ov_pending (m_matching (core_machine c))) (core_journal c) of
        (True, j) \<Rightarrow> (Inr (), c\<lparr>core_journal := j\<rparr>)
      | (False, j) \<Rightarrow> core_poison RecoveryJournalCapacity (c\<lparr>core_journal := j\<rparr>))"

definition begin_operation_recovery_journal ::
  "OperationId \<Rightarrow> ('f, 'g) ConnectionCore \<Rightarrow>
   (ConnectionCoreError + unit) \<times> ('f, 'g) ConnectionCore" where
  "begin_operation_recovery_journal operation c =
     (case matching_get_indexed operation (m_matching (core_machine c)) of
        None \<Rightarrow> (Inr (), c)
      | Some (wire_index, record) \<Rightarrow>
          (case begin_operation record wire_index (core_journal c) of
             (True, j) \<Rightarrow> (Inr (), c\<lparr>core_journal := j\<rparr>)
           | (False, j) \<Rightarrow> core_poison RecoveryJournalCapacity (c\<lparr>core_journal := j\<rparr>)))"

definition begin_write_recovery_journal :: "('f, 'g) ConnectionCore \<Rightarrow> ('f, 'g) ConnectionCore" where
  "begin_write_recovery_journal c = c\<lparr>core_journal := begin_write_progress (core_journal c)\<rparr>"

fun prepare_input_journal ::
  "'g externals \<Rightarrow> ConnectionInput \<Rightarrow> ('f, 'g) ConnectionCore \<Rightarrow>
   (ConnectionCoreError + unit) \<times> ('f, 'g) ConnectionCore" where
  "prepare_input_journal X (CloseRequested epoch _) c =
     (if epoch = m_epoch (core_machine c) \<and> m_phase (core_machine c) = Live
      then begin_recovery_journal c else (Inr (), c))"
| "prepare_input_journal X (ReplyMalformed epoch) c =
     (if epoch = m_epoch (core_machine c) \<and> m_phase (core_machine c) = Live
      then begin_recovery_journal c else (Inr (), c))"
| "prepare_input_journal X (Cancel epoch operation) c =
     (if epoch = m_epoch (core_machine c) \<and>
         (case matching_get operation (m_matching (core_machine c)) of
            None \<Rightarrow> False | Some record \<Rightarrow> rec_phase record \<noteq> Terminal)
      then begin_operation_recovery_journal operation c else (Inr (), c))"
| "prepare_input_journal X (InputDeadlineElapsed epoch operation now) c =
     (if epoch = m_epoch (core_machine c) then
        (case matching_get operation (m_matching (core_machine c)) of
           None \<Rightarrow> (Inr (), c)
         | Some record \<Rightarrow>
             if \<not> is_elapsed_at X (rec_deadline record) now then (Inr (), c)
             else if rec_delivery record = PossiblySent then begin_recovery_journal c
             else begin_operation_recovery_journal operation c)
      else (Inr (), c))"
| "prepare_input_journal X (OpenAdmission _) c = (Inr (), c)"
| "prepare_input_journal X (BeginDrain _) c = (Inr (), c)"
| "prepare_input_journal X (EpochClosed _) c = (Inr (), c)"

definition prepare_reply_journal ::
  "'r InboundReply \<Rightarrow> ('f, 'g) ConnectionCore \<Rightarrow>
   (ConnectionCoreError + unit) \<times> ('f, 'g) ConnectionCore" where
  "prepare_reply_journal reply c =
     (if reply_epoch reply \<noteq> m_epoch (core_machine c) \<or> m_phase (core_machine c) \<noteq> Live
      then (Inr (), c)
      else (case matching_front (m_matching (core_machine c)) of
        None \<Rightarrow> begin_recovery_journal c
      | Some front \<Rightarrow>
          (let valid_phase = (rec_phase front = AwaitingReply \<or> rec_phase front = Terminal) \<and>
                 \<not> rec_write_held front;
               expected = res_match_key (rec_reservation front)
           in if \<not> valid_phase \<or> reply_key reply \<noteq> expected then begin_recovery_journal c
              else begin_operation_recovery_journal (rec_id front) c)))"

section \<open>Reconciliation\<close>

text \<open>
  The effect loop of \<^verbatim>\<open>reconcile\<close>: a \<open>DiscardWrite\<close> takes the named frame out of the writer into the
  journal; every other effect is passed on.
\<close>

fun reconcile_effects ::
  "'g externals \<Rightarrow> 'r ConnectionEffect list \<Rightarrow> 'r ConnectionTransition \<Rightarrow> ('f, 'g) ConnectionCore \<Rightarrow>
   (ConnectionCoreError + 'r ConnectionTransition) \<times> ('f, 'g) ConnectionCore" where
  "reconcile_effects X [] out c = (Inr out, c)"
| "reconcile_effects X (DiscardWrite effect epoch operation # es) out c =
     (case discard X epoch effect (core_writes c) of
        (Inl (RetainedAccountingUnderflow _ _), q) \<Rightarrow>
          core_poison WriteAccounting (c\<lparr>core_writes := q\<rparr>)
      | (Inl source, q) \<Rightarrow> (Inl (CoreWrite source), c\<lparr>core_writes := q\<rparr>)
      | (Inr None, q) \<Rightarrow> core_poison (MissingWrite operation effect) (c\<lparr>core_writes := q\<rparr>)
      | (Inr (Some discarded), q) \<Rightarrow>
          (case retain_write discarded (core_journal c) of
             (retained, j) \<Rightarrow>
               if dw_operation discarded \<noteq> operation
               then core_poison (DiscardedWriteMismatch operation (dw_operation discarded))
                      (c\<lparr>core_writes := q, core_journal := j\<rparr>)
               else if \<not> retained
               then core_poison RecoveryJournalCapacity (c\<lparr>core_writes := q, core_journal := j\<rparr>)
               else reconcile_effects X es out (c\<lparr>core_writes := q, core_journal := j\<rparr>)))"
| "reconcile_effects X (e # es) out c = reconcile_effects X es (transition_push e out) c"

definition reconcile ::
  "'g externals \<Rightarrow> 'r ConnectionTransition \<Rightarrow> ('f, 'g) ConnectionCore \<Rightarrow>
   (ConnectionCoreError + 'r ConnectionTransition) \<times> ('f, 'g) ConnectionCore" where
  "reconcile X t c =
     (let out = transition_new (tr_disposition t);
          out1 = (case tr_cancel_outcome t of None \<Rightarrow> out | Some o' \<Rightarrow> transition_cancelled o' out)
      in reconcile_effects X (tr_effects t) out1 c)"

definition absorb_write_transition ::
  "'g externals \<Rightarrow> unit ConnectionTransition \<Rightarrow> unit ConnectionTransition \<Rightarrow> OperationId \<Rightarrow> EffectId \<Rightarrow>
   ('f, 'g) ConnectionCore \<Rightarrow>
   (ConnectionCoreError + unit ConnectionTransition) \<times> ('f, 'g) ConnectionCore" where
  "absorb_write_transition X combined t operation effect c =
     (if tr_disposition t \<noteq> Applied
      then core_poison (WritePolicyMismatch operation effect (tr_disposition t)) c
      else try_then (reconcile X t c)
             (\<lambda>t c. (Inr (fold transition_push (tr_effects t) combined), c)))"

section \<open>Entry points\<close>

definition core_reserve ::
  "'g externals \<Rightarrow> Moment \<Rightarrow> OperationOptions \<Rightarrow> ('f, 'g) ConnectionCore \<Rightarrow>
   (ReserveError + OperationPermit) \<times> ('f, 'g) ConnectionCore" where
  "core_reserve X now options c =
     (case try_then (ensure_healthy c) (\<lambda>_. verify_ownership_on_hot_path X) of
        (Inl _, c1) \<Rightarrow> (Inl OwnerPoisoned, c1)
      | (Inr _, c1) \<Rightarrow>
          (case machine_reserve X now options (core_machine c1) of
             (result, m) \<Rightarrow> (result, c1\<lparr>core_machine := m\<rparr>)))"

datatype FrameCommitFailure = Policy CommitErrorKind | Writer WriteAdmissionFailure

record 'f FrameCommitError =
  ce_failure :: FrameCommitFailure
  ce_permit :: OperationPermit
  ce_frame :: 'f

definition core_commit ::
  "'g externals \<Rightarrow> ('f \<Rightarrow> byte list) \<Rightarrow> ('f \<Rightarrow> RetainedBytes) \<Rightarrow> OperationPermit \<Rightarrow> 'f \<Rightarrow>
   ('f, 'g) ConnectionCore \<Rightarrow>
   ('f FrameCommitError + OperationId \<times> unit ConnectionTransition) \<times> ('f, 'g) ConnectionCore" where
  "core_commit X view retained permit frame c =
     (case try_then (ensure_healthy c) (\<lambda>_. verify_ownership_on_hot_path X) of
        (Inl _, c1) \<Rightarrow>
          (Inl \<lparr>ce_failure = Policy CommitOwnerPoisoned, ce_permit = permit, ce_frame = frame\<rparr>, c1)
      | (Inr _, c1) \<Rightarrow>
          (let fm = measure_capture view retained frame in
           case commit_failure permit (measure_retained_bytes fm) (core_machine c1) of
             Some kind \<Rightarrow>
               (Inl \<lparr>ce_failure = Policy kind, ce_permit = permit, ce_frame = frame\<rparr>, c1)
           | None \<Rightarrow>
               (case admit X (permit_epoch permit) (permit_operation permit) (permit_effect permit)
                       fm frame (core_writes c1) of
                  (Inl (failure, frame'), q) \<Rightarrow>
                    (Inl \<lparr>ce_failure = Writer failure, ce_permit = permit, ce_frame = frame'\<rparr>,
                     c1\<lparr>core_writes := q\<rparr>)
                | (Inr _, q) \<Rightarrow>
                    (case commit_permit X permit (measure_retained_bytes fm) (core_machine c1) of
                       (accepted, m) \<Rightarrow> (Inr accepted, c1\<lparr>core_writes := q, core_machine := m\<rparr>)))))"

definition front_write ::
  "('f \<Rightarrow> byte list) \<Rightarrow> usize \<Rightarrow> ('f, 'g) ConnectionCore \<Rightarrow>
   (ConnectionCoreError + WriteSlice option) \<times> ('f, 'g) ConnectionCore" where
  "front_write view maximum c =
     (case core_poisoned c of
        Some source \<Rightarrow> (Inl (CorePoisoned source), c)
      | None \<Rightarrow>
          if led_poisoned (m_ledger (core_machine c))
          then (Inl (CoreInvariant ReservationAccounting),
                c\<lparr>core_poisoned := Some ReservationAccounting\<rparr>)
          else (case queue_front view maximum (core_writes c) of
            Inr ws \<Rightarrow> (Inr ws, c)
          | Inl violation \<Rightarrow>
              (let source = CoreFrameContractViolation violation in
               (Inl (CoreInvariant source),
                (if core_poisoned c = None then c\<lparr>core_poisoned := Some source\<rparr> else c)))))"

definition finish_step ::
  "(ConnectionCoreError + 'r ConnectionTransition) \<times> ('f, 'g) ConnectionCore \<Rightarrow>
   (ConnectionCoreError + 'r ConnectionTransition) \<times> ('f, 'g) ConnectionCore" where
  "finish_step result =
     try_then result (\<lambda>t c. try_then (ensure_healthy c)
       (\<lambda>_ c. (Inr t, c\<lparr>core_journal := journal_clear (core_journal c)\<rparr>)))"

definition core_apply ::
  "'g externals \<Rightarrow> ConnectionInput \<Rightarrow> ('f, 'g) ConnectionCore \<Rightarrow>
   (ConnectionCoreError + unit ConnectionTransition) \<times> ('f, 'g) ConnectionCore" where
  "core_apply X input c =
     try_then (ensure_healthy c) (\<lambda>_ c.
     try_then (verify_ownership_on_hot_path X c) (\<lambda>_ c.
     try_then (prepare_input_journal X input c) (\<lambda>_ c.
       (case machine_apply X input (core_machine c) of
          (t, m) \<Rightarrow> finish_step (reconcile X t (c\<lparr>core_machine := m\<rparr>))))))"

definition core_apply_reply ::
  "'g externals \<Rightarrow> 'r InboundReply \<Rightarrow> ('f, 'g) ConnectionCore \<Rightarrow>
   (ConnectionCoreError + 'r ConnectionTransition) \<times> ('f, 'g) ConnectionCore" where
  "core_apply_reply X reply c =
     try_then (ensure_healthy c) (\<lambda>_ c.
     try_then (verify_ownership_on_hot_path X c) (\<lambda>_ c.
     try_then (prepare_reply_journal reply c) (\<lambda>_ c.
       (case machine_apply_reply X reply (core_machine c) of
          (t, m) \<Rightarrow> finish_step (reconcile X t (c\<lparr>core_machine := m\<rparr>))))))"

text \<open>
  \<^verbatim>\<open>advance_write\<close> in two parts: the policy half, after the writer has reported its progress, and
  the whole entry point.
\<close>

definition absorb_progress ::
  "'g externals \<Rightarrow> ConnectionEpoch \<Rightarrow> EffectId \<Rightarrow> OperationId \<Rightarrow> WriteBoundary \<Rightarrow> bool \<Rightarrow>
   ('f, 'g) ConnectionCore \<Rightarrow>
   (ConnectionCoreError + unit ConnectionTransition) \<times> ('f, 'g) ConnectionCore" where
  "absorb_progress X epoch effect operation boundary complete c =
     finish_step
       (try_then
          (if boundary = Crossed then
             (case write_started epoch operation effect (core_machine c) of
                (t, m) \<Rightarrow> absorb_write_transition X (transition_new Applied) t operation effect
                            (c\<lparr>core_machine := m\<rparr>))
           else (Inr (transition_new Applied), c))
          (\<lambda>combined c.
             if complete then
               (case write_completed X epoch operation effect (core_machine c) of
                  (t, m) \<Rightarrow> absorb_write_transition X combined t operation effect
                              (c\<lparr>core_machine := m\<rparr>))
             else (Inr combined, c)))"

definition core_advance_write ::
  "'g externals \<Rightarrow> ConnectionEpoch \<Rightarrow> EffectId \<Rightarrow> usize \<Rightarrow> ('f, 'g) ConnectionCore \<Rightarrow>
   (ConnectionCoreError + unit ConnectionTransition) \<times> ('f, 'g) ConnectionCore" where
  "core_advance_write X epoch effect written c0 =
     try_then (ensure_healthy c0) (\<lambda>_ c1.
       (let c2 = begin_write_recovery_journal c1 in
        case advance X epoch effect written (core_writes c2) of
          (Inl (RetainedAccountingUnderflow _ _), q) \<Rightarrow>
            core_poison WriteAccounting (c2\<lparr>core_writes := q\<rparr>)
        | (Inl (ProgressAccountingOverflow _ _), q) \<Rightarrow>
            core_poison WriteAccounting (c2\<lparr>core_writes := q\<rparr>)
        | (Inl (ExceedsRemaining w remaining), q) \<Rightarrow>
            core_poison (WriteProgressContract w remaining) (c2\<lparr>core_writes := q\<rparr>)
        | (Inl source, q) \<Rightarrow>
            (Inl (CoreWrite source),
             c2\<lparr>core_writes := q, core_journal := journal_clear (core_journal c2)\<rparr>)
        | (Inr (Pending operation boundary), q) \<Rightarrow>
            absorb_progress X epoch effect operation boundary False (c2\<lparr>core_writes := q\<rparr>)
        | (Inr (Complete operation effect' frame fm boundary delivery), q) \<Rightarrow>
            (let c3 = c2\<lparr>core_writes := q\<rparr> in
             case retain_write
                    \<lparr>dw_operation = operation, dw_effect = effect', dw_frame = frame,
                     dw_measure = fm, dw_written = wire_bytes fm, dw_delivery = delivery\<rparr>
                    (core_journal c3) of
               (False, j) \<Rightarrow> core_poison RecoveryJournalCapacity (c3\<lparr>core_journal := j\<rparr>)
             | (True, j) \<Rightarrow>
                 (let c4 = c3\<lparr>core_journal := j\<rparr> in
                  case matching_get_indexed operation (m_matching (core_machine c4)) of
                    None \<Rightarrow> core_poison (UnexpectedWrite operation effect') c4
                  | Some (wire_index, record) \<Rightarrow>
                      (case retain_operation record wire_index (core_journal c4) of
                         (False, j') \<Rightarrow>
                           core_poison RecoveryJournalCapacity (c4\<lparr>core_journal := j'\<rparr>)
                       | (True, j') \<Rightarrow>
                           absorb_progress X epoch effect operation boundary True
                             (c4\<lparr>core_journal := j'\<rparr>))))))"

end
