(* ===== verification/CoreInv.thy ===== *)
theory CoreInv
  imports Core
begin

text \<open>
  The invariant of the aggregate owner: the frames of the writer are, in wire order, exactly the
  frames the policy still holds, with the same identities, charges and delivery certainty. Under
  it no entry point fails except on a broken promise of the transport or of the frame type.
\<close>

section \<open>The invariant\<close>

definition frame_write :: "'f QueuedWrite \<Rightarrow> held_write" where
  "frame_write w =
     ((qw_operation w, qw_effect w), frame_charge w, if qw_started w then PossiblySent else NotSent)"

abbreviation core_limits :: "('f, 'g) ConnectionCore \<Rightarrow> ConnectionLimits" where
  "core_limits c \<equiv> led_limits (m_ledger (core_machine c))"

definition core_joined :: "'g externals \<Rightarrow> ('f, 'g) ConnectionCore \<Rightarrow> Reservation multiset \<Rightarrow> bool" where
  "core_joined X c P \<longleftrightarrow>
     machine_ok (core_machine c) P \<and> queue_inv X (core_writes c) \<and>
     wq_epoch (core_writes c) = m_epoch (core_machine c) \<and>
     wq_limits (core_writes c) = write_queue_limits (core_limits c) \<and>
     held_writes (pending (core_machine c)) = map frame_write (wq_frames (core_writes c)) \<and>
     core_poisoned c = None"

definition core_ok :: "'g externals \<Rightarrow> ('f, 'g) ConnectionCore \<Rightarrow> Reservation multiset \<Rightarrow> bool" where
  "core_ok X c P \<longleftrightarrow> core_joined X c P \<and>
     core_journal c = journal_new (max_operations (core_limits c)) (max_write_frames (core_limits c))"

lemma try_then_simps [simp]:
  "try_then (Inr x, s) f = f x s" "try_then (Inl e, s) f = (Inl e, s)"
  by (simp_all add: try_then_def)

lemma map_fst_frame_write [simp]: "map fst (map frame_write ws) = map (\<lambda>w. (qw_operation w, qw_effect w)) ws"
  by (simp add: frame_write_def comp_def)

lemma joined_identities: "core_joined X c P \<Longrightarrow> write_identities (core_writes c) = held_ids (pending (core_machine c))"
  by (simp add: core_joined_def held_ids_def write_identities_def frame_write_def comp_def)

lemma machine_ok_accounts:
  assumes "machine_ok m P"
  shows "\<not> led_poisoned (m_ledger m)" "limits_ok (led_limits (m_ledger m))"
    "length (pending m) \<le> max_operations (led_limits (m_ledger m))"
    "0 < max_operations (led_limits (m_ledger m))" "max_operations (led_limits (m_ledger m)) \<le> USIZE_MAX"
    "max_write_frames (led_limits (m_ledger m)) \<le> USIZE_MAX"
proof -
  have acc: "accounts (m_ledger m) P (mset (charges (pending m)))"
    using assms by (simp add: machine_ok_def machine_core_def)
  then show "\<not> led_poisoned (m_ledger m)" and lim: "limits_ok (led_limits (m_ledger m))"
    by (simp_all add: accounts_def)
  show "0 < max_operations (led_limits (m_ledger m))" "max_operations (led_limits (m_ledger m)) \<le> USIZE_MAX"
    "max_write_frames (led_limits (m_ledger m)) \<le> USIZE_MAX"
    using lim by (simp_all add: limits_ok_def)
  have "size (holders P (mset (charges (pending m)))) \<le> max_operations (led_limits (m_ledger m))"
    using acc unfolding accounts_def by metis
  then show "length (pending m) \<le> max_operations (led_limits (m_ledger m))" by (simp add: holders_def)
qed

subsection \<open>The ownership audit\<close>

lemma ownership_merge_None: "ownership_merge rs ws = None \<longleftrightarrow> ws = held_ids rs"
proof (induction rs arbitrary: ws)
  case Nil
  then show ?case by (cases ws) auto
next
  case (Cons r rs)
  show ?case
  proof (cases ws)
    case Nil
    then show ?thesis by (simp add: Cons.IH)
  next
    case (Cons w ws')
    then show ?thesis by (cases w) (auto simp: Cons.IH)
  qed
qed

lemma joined_healthy:
  assumes "externals_ok X" "core_joined X c P"
  shows "ensure_healthy c = (Inr (), c)" "verify_ownership X c = (Inr (), c)"
    "verify_ownership_on_hot_path X c = (Inr (), c)"
proof -
  show "ensure_healthy c = (Inr (), c)"
    using assms(2) machine_ok_accounts(1) [of "core_machine c" P]
    by (simp add: ensure_healthy_def core_joined_def)
  have "accounting_is_valid X (core_writes c)"
    using assms queue_inv_accounting by (auto simp: core_joined_def)
  moreover have "ownership_merge_violation c = None"
    unfolding ownership_merge_violation_def ownership_merge_None
    using joined_identities [OF assms(2)] .
  ultimately show v: "verify_ownership X c = (Inr (), c)" by (simp add: verify_ownership_def)
  then show "verify_ownership_on_hot_path X c = (Inr (), c)"
    by (simp add: verify_ownership_on_hot_path_def)
qed

section \<open>Reconciliation\<close>

definition visible :: "'r ConnectionEffect list \<Rightarrow> 'r ConnectionEffect list" where
  "visible es = filter (\<lambda>e. \<not> is_DiscardWrite e) es"

lemma visible_simps [simp]:
  "visible [] = []" "visible (DiscardWrite w ep i # es) = visible es"
  "\<not> is_DiscardWrite e \<Longrightarrow> visible (e # es) = e # visible es"
  by (simp_all add: visible_def)

lemma visible_lists [simp]:
  "pub_ids (visible es) = pub_ids es" "cancel_ids (visible es) = cancel_ids es"
  "close_reasons (visible es) = close_reasons es" "publications (visible es) = publications es"
  "discard_ids (visible es) = []" "said (visible es) = said es"
proof -
  show p: "publications (visible es) = publications es"
    by (induction es) (auto simp: visible_def publications_def split: ConnectionEffect.splits)
  then show "said (visible es) = said es" by (simp add: said_def)
  show "pub_ids (visible es) = pub_ids es" using p by (simp add: pub_ids_publications)
  show "cancel_ids (visible es) = cancel_ids es"
    by (induction es) (auto simp: visible_def cancel_ids_def split: ConnectionEffect.splits)
  show "close_reasons (visible es) = close_reasons es"
    by (induction es) (auto simp: visible_def close_reasons_def split: ConnectionEffect.splits)
  show "discard_ids (visible es) = []"
    by (induction es) (auto simp: visible_def discard_ids_def split: ConnectionEffect.splits)
qed

abbreviation frame_key :: "'f QueuedWrite \<Rightarrow> OperationId \<times> EffectId" where
  "frame_key w \<equiv> (qw_operation w, qw_effect w)"

lemma reconcile_effects_other:
  "\<not> is_DiscardWrite e \<Longrightarrow> reconcile_effects X (e # es) out c = reconcile_effects X es (transition_push e out) c"
  by (cases e) auto

lemma discard_ids_other: "\<not> is_DiscardWrite e \<Longrightarrow> discard_ids (e # es) = discard_ids es"
  by (cases e) auto

definition journal_holds :: "('f, 'g) ConnectionCore \<Rightarrow> usize \<Rightarrow> usize \<Rightarrow> nat \<Rightarrow> bool" where
  "journal_holds c mo mw n \<longleftrightarrow>
     (\<exists>ops ws armed. core_journal c = journal_of mo mw ops ws None armed \<and>
        length ops \<le> mo \<and> length ws + n \<le> mw)"

lemma journal_holds_mono: "journal_holds c mo mw n \<Longrightarrow> k \<le> n \<Longrightarrow> journal_holds c mo mw k"
  unfolding journal_holds_def by (meson add_left_mono le_trans)

lemma journal_holds_retain:
  assumes "journal_holds c mo mw (Suc n)" "mw \<le> USIZE_MAX"
  obtains j where "retain_write w (core_journal c) = (True, j)"
    "journal_holds (c\<lparr>core_writes := q, core_journal := j\<rparr>) mo mw n"
proof -
  obtain ops ws armed where j: "core_journal c = journal_of mo mw ops ws None armed"
    "length ops \<le> mo" "length ws + Suc n \<le> mw" using assms(1) by (auto simp: journal_holds_def)
  then have "retain_write w (core_journal c) = (True, journal_of mo mw ops (ws @ [w]) None armed)"
    using assms(2) by (simp add: retain_write_of)
  moreover have "journal_holds (c\<lparr>core_writes := q, core_journal := journal_of mo mw ops (ws @ [w]) None armed\<rparr>) mo mw n"
    using j by (auto simp: journal_holds_def intro!: exI [of _ ops] exI [of _ "ws @ [w]"])
  ultimately show ?thesis using that by blast
qed

lemma reconcile_effects_exact:
  assumes X: "externals_ok X" and mw: "mw \<le> USIZE_MAX"
  shows "\<lbrakk>queue_inv X (core_writes c); \<forall>e \<in> set es. effect_epoch e = wq_epoch (core_writes c);
     distinct (discard_ids es); set (discard_ids es) \<subseteq> frame_key ` set (wq_frames (core_writes c));
     journal_holds c mo mw (length (discard_ids es))\<rbrakk> \<Longrightarrow>
   \<exists>q j. reconcile_effects X es out c =
       (Inr (out\<lparr>tr_effects := tr_effects out @ visible es\<rparr>), c\<lparr>core_writes := q, core_journal := j\<rparr>) \<and>
     queue_inv X q \<and> wq_epoch q = wq_epoch (core_writes c) \<and> wq_limits q = wq_limits (core_writes c) \<and>
     wq_frames q = filter (\<lambda>w. frame_key w \<notin> set (discard_ids es)) (wq_frames (core_writes c)) \<and>
     journal_holds (c\<lparr>core_journal := j\<rparr>) mo mw 0"
proof (induction es arbitrary: out c)
  case Nil
  then show ?case
    by (intro exI [of _ "core_writes c"] exI [of _ "core_journal c"]) (simp add: journal_holds_def)
next
  case (Cons e es)
  show ?case
  proof (cases "is_DiscardWrite e")
    case False
    with Cons.prems Cons.IH [of c "transition_push e out"] show ?thesis
      by (simp add: reconcile_effects_other discard_ids_other transition_push_def)
  next
    case True
    then obtain eff ep oid where e: "e = DiscardWrite eff ep oid" by (cases e) auto
    let ?fs = "wq_frames (core_writes c)"
    obtain w where w: "w \<in> set ?fs" "frame_key w = (oid, eff)" using Cons.prems(4) e by auto
    then obtain ys zs where fs: "?fs = ys @ w # zs" by (meson split_list)
    have ep: "ep = wq_epoch (core_writes c)" using Cons.prems(2) e by simp
    obtain q1 where q1: "discard X ep eff (core_writes c) = (Inr (Some (into_discarded w)), q1)"
      "queue_inv X q1" "wq_frames q1 = ys @ zs" "wq_epoch q1 = wq_epoch (core_writes c)"
      "wq_limits q1 = wq_limits (core_writes c)"
      by (rule discard_present [OF X Cons.prems(1) ep fs]) (use w in simp_all)
    have "journal_holds c mo mw (Suc (length (discard_ids es)))" using Cons.prems(5) e by simp
    then obtain j1 where j1: "retain_write (into_discarded w) (core_journal c) = (True, j1)"
      "journal_holds (c\<lparr>core_writes := q1, core_journal := j1\<rparr>) mo mw (length (discard_ids es))"
      by (rule journal_holds_retain [OF _ mw])
    let ?c = "c\<lparr>core_writes := q1, core_journal := j1\<rparr>"
    have "qw_effect w \<notin> qw_effect ` (set ys \<union> set zs)"
      using Cons.prems(1) fs by (auto simp: queue_inv_def)
    then have other: "frame_key y \<noteq> (oid, eff)" if "y \<in> set ys \<union> set zs" for y
      using w(2) that by (metis imageI prod.inject)
    have new: "(oid, eff) \<notin> set (discard_ids es)" using Cons.prems(3) e by simp
    have "set (discard_ids es) \<subseteq> frame_key ` set (wq_frames (core_writes ?c))"
      using Cons.prems(4) new w(2) by (auto simp: e fs q1(3))
    then obtain q j where q: "reconcile_effects X es out ?c =
        (Inr (out\<lparr>tr_effects := tr_effects out @ visible es\<rparr>), ?c\<lparr>core_writes := q, core_journal := j\<rparr>)"
      "queue_inv X q" "wq_epoch q = wq_epoch q1" "wq_limits q = wq_limits q1"
      "wq_frames q = filter (\<lambda>w. frame_key w \<notin> set (discard_ids es)) (ys @ zs)"
      "journal_holds (?c\<lparr>core_journal := j\<rparr>) mo mw 0"
      using Cons.IH [of ?c out] Cons.prems(2,3) q1 j1(2) e by auto
    have "wq_frames q = filter (\<lambda>w. frame_key w \<notin> set (discard_ids (e # es))) ?fs"
    proof -
      have "filter (\<lambda>w. frame_key w \<notin> set (discard_ids (e # es))) xs =
          filter (\<lambda>w. frame_key w \<notin> set (discard_ids es)) xs" if "set xs \<subseteq> set ys \<union> set zs" for xs
        using other that by (intro filter_cong) (auto simp: e)
      from this [of ys] this [of zs] show ?thesis using q(5) w(2) by (simp add: fs) (simp add: e)
    qed
    moreover have "reconcile_effects X (e # es) out c =
        (Inr (out\<lparr>tr_effects := tr_effects out @ visible (e # es)\<rparr>), c\<lparr>core_writes := q, core_journal := j\<rparr>)"
      using q(1) q1(1) j1(1) w(2) by (simp add: e into_discarded_def)
    moreover have "journal_holds (c\<lparr>core_journal := j\<rparr>) mo mw 0"
      using q(6) by (simp add: journal_holds_def)
    ultimately show ?thesis using q(2-4) q1(4,5) by (intro exI [of _ q] exI [of _ j]) simp
  qed
qed

text \<open>Reconciling a transition that honours the contract with respect to what the writer holds.\<close>

lemma reconcile_contract:
  assumes X: "externals_ok X" and mw: "mw \<le> USIZE_MAX"
    and inv: "queue_inv X (core_writes c)" and ep: "wq_epoch (core_writes c) = m_epoch m0"
    and held: "held_writes (pending m0) = map frame_write (wq_frames (core_writes c))"
    and con: "contract m0 (tr_effects t) m'"
    and j: "journal_holds c mo mw (length (wq_frames (core_writes c)))"
  obtains q' j' where "reconcile X t c =
      (Inr (t\<lparr>tr_effects := visible (tr_effects t)\<rparr>), c\<lparr>core_writes := q', core_journal := j'\<rparr>)"
    "queue_inv X q'" "wq_epoch q' = m_epoch m0" "wq_limits q' = wq_limits (core_writes c)"
    "held_writes (pending m') = map frame_write (wq_frames q')"
    "journal_holds (c\<lparr>core_journal := j'\<rparr>) mo mw 0"
    "wq_frames q' = filter (\<lambda>w. frame_key w \<notin> set (discard_ids (tr_effects t))) (wq_frames (core_writes c))"
proof -
  let ?es = "tr_effects t" and ?fs = "wq_frames (core_writes c)"
  have rem: "removes fst (map frame_write ?fs) (discard_ids ?es) (held_writes (pending m'))"
    and eps: "\<forall>e \<in> set ?es. effect_epoch e = wq_epoch (core_writes c)"
    using con held ep by (auto simp: contract_def)
  have sub: "set (discard_ids ?es) \<subseteq> frame_key ` set ?fs" and dist: "distinct (discard_ids ?es)"
    using rem by (auto simp: removes_def frame_write_def image_image)
  have "length (discard_ids ?es) = card (set (discard_ids ?es))" using dist distinct_card by metis
  also have "\<dots> \<le> card (frame_key ` set ?fs)" using sub by (intro card_mono) auto
  also have "\<dots> \<le> length ?fs" by (meson card_image_le card_length finite_set le_trans)
  finally have "journal_holds c mo mw (length (discard_ids ?es))"
    by (rule journal_holds_mono [OF j])
  from reconcile_effects_exact [OF X mw inv eps dist sub this, of "t\<lparr>tr_effects := []\<rparr>"]
  obtain q' j' where
    q': "reconcile_effects X ?es (t\<lparr>tr_effects := []\<rparr>) c = (Inr (t\<lparr>tr_effects := visible ?es\<rparr>),
          c\<lparr>core_writes := q', core_journal := j'\<rparr>)"
    "queue_inv X q'" "wq_epoch q' = m_epoch m0" "wq_limits q' = wq_limits (core_writes c)"
    "wq_frames q' = filter (\<lambda>w. frame_key w \<notin> set (discard_ids ?es)) ?fs"
    "journal_holds (c\<lparr>core_journal := j'\<rparr>) mo mw 0"
    using ep by auto
  have "reconcile X t c = reconcile_effects X ?es (t\<lparr>tr_effects := []\<rparr>) c"
    by (cases t) (simp add: reconcile_def transition_new_def transition_cancelled_def Let_def
        split: option.split)
  then have "reconcile X t c =
      (Inr (t\<lparr>tr_effects := visible ?es\<rparr>), c\<lparr>core_writes := q', core_journal := j'\<rparr>)"
    using q'(1) by simp
  moreover have "held_writes (pending m') = map frame_write (wq_frames q')"
    using rem by (simp add: removes_def q'(5) filter_map comp_def frame_write_def)
  ultimately show ?thesis using that q' by blast
qed

section \<open>Inputs and replies\<close>

lemma core_ok_new:
  assumes "externals_ok X" "limits_ok limits"
  shows "core_ok X (core_with_identity_seeds X ref endpoint lane connection epoch limits seeds) {#}"
  using accounts_new [OF assms(2)] queue_inv_new [OF assms(1), of "write_queue_limits limits"] assms(2)
  by (simp add: core_ok_def core_joined_def core_with_identity_seeds_def machine_with_identity_seeds_def
      machine_ok_def machine_core_def lifecycle_ok_def matching_new_def write_queue_new_def
      write_queue_limits_def limits_ok_def ledger_new_def)

text \<open>A journal prepared for a step, with no frame in it yet.\<close>

definition prepared :: "('f, 'g) ConnectionCore \<Rightarrow> ('f, 'g) ConnectionCore \<Rightarrow> bool" where
  "prepared c c' \<longleftrightarrow>
     (\<exists>ops armed. c' = c\<lparr>core_journal := journal_of (max_operations (core_limits c))
         (max_write_frames (core_limits c)) ops [] None armed\<rparr> \<and>
       length ops \<le> max_operations (core_limits c))"

lemma core_ok_prepared: "core_ok X c P \<Longrightarrow> prepared c c"
  unfolding core_ok_def prepared_def journal_new_of
  by (intro exI [of _ "[]"] exI [of _ False]) (cases c, simp)

lemma begin_recovery_prepared:
  assumes "core_ok X c P"
  shows "\<exists>c'. begin_recovery_journal c = (Inr (), c') \<and> prepared c c'"
    "\<exists>c'. begin_operation_recovery_journal operation c = (Inr (), c') \<and> prepared c c'"
proof -
  have m: "machine_ok (core_machine c) P" using assms by (simp add: core_ok_def core_joined_def)
  note lim = machine_ok_accounts [OF m]
  let ?mo = "max_operations (core_limits c)" and ?mw = "max_write_frames (core_limits c)"
  have j: "core_journal c = journal_of ?mo ?mw [] [] None False"
    using assms by (simp add: core_ok_def journal_new_of)
  have "length (journal_records 0 (pending (core_machine c))) \<le> ?mo"
    using lim(3) by (simp add: journal_records_def)
  then show "\<exists>c'. begin_recovery_journal c = (Inr (), c') \<and> prepared c c'"
    using lim(3,5) by (auto simp: begin_recovery_journal_def j journal_begin_of prepared_def)
  show "\<exists>c'. begin_operation_recovery_journal operation c = (Inr (), c') \<and> prepared c c'"
  proof (cases "matching_get_indexed operation (m_matching (core_machine c))")
    case None
    then show ?thesis
      using core_ok_prepared [OF assms] by (simp add: begin_operation_recovery_journal_def)
  next
    case (Some ir)
    obtain i r where "ir = (i, r)" by (cases ir)
    moreover have "Suc 0 \<le> ?mo" using lim(4) by simp
    ultimately show ?thesis
      using Some lim(4,5) by (auto simp: begin_operation_recovery_journal_def j begin_operation_of
          prepared_def intro!: exI [of _ "[journal_operation r i]"])
  qed
qed

lemma prepare_input_prepared:
  assumes "core_ok X c P"
  shows "\<exists>c'. prepare_input_journal X input c = (Inr (), c') \<and> prepared c c'"
  using begin_recovery_prepared [OF assms] core_ok_prepared [OF assms]
  by (cases input) (auto split: option.split)

lemma prepare_reply_prepared:
  assumes "core_ok X c P"
  shows "\<exists>c'. prepare_reply_journal reply c = (Inr (), c') \<and> prepared c c'"
  using begin_recovery_prepared [OF assms] core_ok_prepared [OF assms]
  by (auto simp: prepare_reply_journal_def Let_def split: option.split)

lemma journal_holds_clear:
  "journal_holds c mo mw 0 \<Longrightarrow> journal_clear (core_journal c) = journal_new mo mw"
  by (auto simp: journal_holds_def journal_new_of)

lemma core_frames_bound:
  assumes "core_joined X c P"
  shows "length (wq_frames (core_writes c)) \<le> max_write_frames (core_limits c)"
proof -
  have "length (wq_frames (core_writes c)) \<le> max_frames (wq_limits (core_writes c))"
    "wq_limits (core_writes c) = write_queue_limits (core_limits c)"
    using assms unfolding core_joined_def queue_inv_def by blast+
  then show ?thesis by (simp add: write_queue_limits_def)
qed

text \<open>A policy step on a prepared owner: reconciled, healthy, and with an empty journal again.\<close>

lemma core_step:
  assumes X: "externals_ok X" and ok: "core_ok X c P" and prep: "prepared c c1"
    and good: "good_step (core_machine c) P (t, m')"
  obtains q where
    "finish_step (reconcile X t (c1\<lparr>core_machine := m'\<rparr>)) =
       (Inr (t\<lparr>tr_effects := visible (tr_effects t)\<rparr>), c\<lparr>core_machine := m', core_writes := q\<rparr>)"
    "core_ok X (c\<lparr>core_machine := m', core_writes := q\<rparr>) P"
    "wq_frames q = filter (\<lambda>w. frame_key w \<notin> set (discard_ids (tr_effects t))) (wq_frames (core_writes c))"
proof -
  let ?mo = "max_operations (core_limits c)" and ?mw = "max_write_frames (core_limits c)"
  let ?c1 = "c1\<lparr>core_machine := m'\<rparr>"
  have joined: "core_joined X c P" using ok by (simp add: core_ok_def)
  then have inv: "machine_ok (core_machine c) P" "queue_inv X (core_writes c)"
    "wq_epoch (core_writes c) = m_epoch (core_machine c)"
    "held_writes (pending (core_machine c)) = map frame_write (wq_frames (core_writes c))"
    "wq_limits (core_writes c) = write_queue_limits (core_limits c)" "core_poisoned c = None"
    by (simp_all add: core_joined_def)
  have m': "machine_ok m' P" "contract (core_machine c) (tr_effects t) m'"
    using good by (simp_all add: good_step_def)
  have same: "core_writes ?c1 = core_writes c" "core_poisoned ?c1 = core_poisoned c"
    using prep by (auto simp: prepared_def)
  have j: "journal_holds ?c1 ?mo ?mw (length (wq_frames (core_writes ?c1)))"
  proof -
    obtain ops armed where "c1 = c\<lparr>core_journal := journal_of ?mo ?mw ops [] None armed\<rparr>" "length ops \<le> ?mo"
      using prep by (auto simp: prepared_def)
    with core_frames_bound [OF joined] show ?thesis
      unfolding journal_holds_def by (intro exI [of _ ops] exI [of _ "[]"] exI [of _ armed]) simp
  qed
  obtain q' j' where q': "reconcile X t ?c1 =
      (Inr (t\<lparr>tr_effects := visible (tr_effects t)\<rparr>), ?c1\<lparr>core_writes := q', core_journal := j'\<rparr>)"
    "queue_inv X q'" "wq_epoch q' = m_epoch (core_machine c)" "wq_limits q' = wq_limits (core_writes ?c1)"
    "held_writes (pending m') = map frame_write (wq_frames q')"
    "journal_holds (?c1\<lparr>core_journal := j'\<rparr>) ?mo ?mw 0"
    "wq_frames q' = filter (\<lambda>w. frame_key w \<notin> set (discard_ids (tr_effects t))) (wq_frames (core_writes ?c1))"
    by (rule reconcile_contract [where c = ?c1, OF X machine_ok_accounts(6) [OF inv(1)] _ _ _ m'(2) j])
      (use inv same in simp_all)
  let ?c2 = "?c1\<lparr>core_writes := q', core_journal := j'\<rparr>"
  let ?c3 = "c\<lparr>core_machine := m', core_writes := q'\<rparr>"
  have lim: "m_epoch m' = m_epoch (core_machine c)" "core_limits ?c2 = core_limits c"
    using m'(2) by (simp_all add: contract_def)
  have "core_joined X ?c2 P"
    using q' m' inv same lim by (simp add: core_joined_def)
  then have "ensure_healthy ?c2 = (Inr (), ?c2)" by (rule joined_healthy [OF X])
  moreover have "journal_clear j' = journal_new ?mo ?mw"
    using journal_holds_clear [OF q'(6)] by simp
  moreover have "core_journal c = journal_new ?mo ?mw" using ok by (simp add: core_ok_def)
  ultimately have "finish_step (reconcile X t ?c1) = (Inr (t\<lparr>tr_effects := visible (tr_effects t)\<rparr>), ?c3)"
    using prep by (auto simp: finish_step_def q'(1) prepared_def)
  moreover have "core_ok X ?c3 P"
    using \<open>core_joined X ?c2 P\<close> lim \<open>core_journal c = _\<close> inv(6) by (simp add: core_ok_def core_joined_def)
  ultimately show ?thesis using that q'(7) same(1) by simp
qed

text \<open>
  What a caller sees of a step: of the operations \<open>ow\<close> owned before it and those \<open>lv\<close> still without an
  outcome, exactly the ones whose deadline is cancelled are gone, exactly the published ones have
  their outcome, and each reported delivery certainty is the one the owner had recorded.
\<close>

definition settles ::
  "(OperationId \<times> Delivery) list \<Rightarrow> OperationId list \<Rightarrow> 'r ConnectionEffect list \<Rightarrow>
   ConnectionMachine \<Rightarrow> bool" where
  "settles ow lv es m' \<longleftrightarrow>
     removes fst ow (cancel_ids es) (owned (pending m')) \<and>
     removes id lv (pub_ids es) (live_ids (pending m')) \<and>
     said es \<subseteq> set ow \<and> discard_ids es = []"

definition same_epoch :: "ConnectionMachine \<Rightarrow> ConnectionMachine \<Rightarrow> bool" where
  "same_epoch m m' \<longleftrightarrow>
     m_epoch m' = m_epoch m \<and> m_ledger_ref m' = m_ledger_ref m \<and>
     m_identities m' = m_identities m \<and> led_limits (m_ledger m') = led_limits (m_ledger m)"

definition keeps_effects :: "ConnectionMachine \<Rightarrow> ConnectionMachine \<Rightarrow> bool" where
  "keeps_effects m m' \<longleftrightarrow> rec_effect ` set (pending m') \<subseteq> rec_effect ` set (pending m)"

lemma contract_settles:
  assumes "contract m es m'"
  shows "settles (owned (pending m)) (live_ids (pending m)) (visible es) m'" "same_epoch m m'"
    "keeps_effects m m'"
  using assms by (simp_all add: contract_def settles_def same_epoch_def keeps_effects_def)

theorem core_apply_exact:
  assumes X: "externals_ok X" and ok: "core_ok X c P"
  obtains q where "core_apply X input c =
      (Inr ((fst (machine_apply X input (core_machine c)))\<lparr>tr_effects :=
              visible (tr_effects (fst (machine_apply X input (core_machine c))))\<rparr>),
       c\<lparr>core_machine := snd (machine_apply X input (core_machine c)), core_writes := q\<rparr>)"
    "core_ok X (c\<lparr>core_machine := snd (machine_apply X input (core_machine c)), core_writes := q\<rparr>) P"
    "wq_frames q = filter (\<lambda>w. frame_key w \<notin> set (discard_ids (tr_effects (fst (machine_apply X input (core_machine c))))))
       (wq_frames (core_writes c))"
proof -
  have joined: "core_joined X c P" using ok by (simp add: core_ok_def)
  obtain c1 where c1: "prepare_input_journal X input c = (Inr (), c1)" "prepared c c1"
    using prepare_input_prepared [OF ok] by blast
  obtain t m' where tm: "machine_apply X input (core_machine c) = (t, m')" by (cases "machine_apply X input (core_machine c)")
  have "good_step (core_machine c) P (machine_apply X input (core_machine c))"
    using joined by (intro good_apply [OF X]) (simp add: core_joined_def)
  then have "good_step (core_machine c) P (t, m')" using tm by simp
  then obtain q where "finish_step (reconcile X t (c1\<lparr>core_machine := m'\<rparr>)) =
       (Inr (t\<lparr>tr_effects := visible (tr_effects t)\<rparr>), c\<lparr>core_machine := m', core_writes := q\<rparr>)"
    "core_ok X (c\<lparr>core_machine := m', core_writes := q\<rparr>) P"
    "wq_frames q = filter (\<lambda>w. frame_key w \<notin> set (discard_ids (tr_effects t))) (wq_frames (core_writes c))"
    by (rule core_step [OF X ok c1(2)])
  moreover have "core_machine c1 = core_machine c" using c1(2) by (auto simp: prepared_def)
  ultimately show ?thesis
    using that c1(1) tm by (simp add: core_apply_def joined_healthy [OF X joined])
qed

theorem core_apply_reply_exact:
  assumes X: "externals_ok X" and ok: "core_ok X c P"
  obtains q where "core_apply_reply X reply c =
      (Inr ((fst (machine_apply_reply X reply (core_machine c)))\<lparr>tr_effects :=
              visible (tr_effects (fst (machine_apply_reply X reply (core_machine c))))\<rparr>),
       c\<lparr>core_machine := snd (machine_apply_reply X reply (core_machine c)), core_writes := q\<rparr>)"
    "core_ok X (c\<lparr>core_machine := snd (machine_apply_reply X reply (core_machine c)), core_writes := q\<rparr>) P"
    "wq_frames q = filter (\<lambda>w. frame_key w \<notin> set (discard_ids (tr_effects (fst (machine_apply_reply X reply (core_machine c))))))
       (wq_frames (core_writes c))"
proof -
  have joined: "core_joined X c P" using ok by (simp add: core_ok_def)
  obtain c1 where c1: "prepare_reply_journal reply c = (Inr (), c1)" "prepared c c1"
    using prepare_reply_prepared [OF ok] by blast
  obtain t m' where tm: "machine_apply_reply X reply (core_machine c) = (t, m')"
    by (cases "machine_apply_reply X reply (core_machine c)")
  have "good_step (core_machine c) P (machine_apply_reply X reply (core_machine c))"
    using joined by (intro good_apply_reply [OF X]) (simp add: core_joined_def)
  then have "good_step (core_machine c) P (t, m')" using tm by simp
  then obtain q where "finish_step (reconcile X t (c1\<lparr>core_machine := m'\<rparr>)) =
       (Inr (t\<lparr>tr_effects := visible (tr_effects t)\<rparr>), c\<lparr>core_machine := m', core_writes := q\<rparr>)"
    "core_ok X (c\<lparr>core_machine := m', core_writes := q\<rparr>) P"
    "wq_frames q = filter (\<lambda>w. frame_key w \<notin> set (discard_ids (tr_effects t))) (wq_frames (core_writes c))"
    by (rule core_step [OF X ok c1(2)])
  moreover have "core_machine c1 = core_machine c" using c1(2) by (auto simp: prepared_def)
  ultimately show ?thesis
    using that c1(1) tm by (simp add: core_apply_reply_def joined_healthy [OF X joined])
qed

end
