(* ===== verification/CoreSteps.thy ===== *)
theory CoreSteps
  imports CoreInv
begin

text \<open>
  The remaining entry points of the aggregate owner on its invariant: reservation, commit, the
  write slice and exact write progress.
\<close>

section \<open>Reservation and commit\<close>

lemma core_ok_parts:
  assumes "core_ok X c P"
  shows "core_joined X c P" "machine_ok (core_machine c) P" "queue_inv X (core_writes c)"
    "wq_epoch (core_writes c) = m_epoch (core_machine c)"
    "wq_limits (core_writes c) = write_queue_limits (core_limits c)"
    "held_writes (pending (core_machine c)) = map frame_write (wq_frames (core_writes c))"
    "core_poisoned c = None"
    "core_journal c = journal_new (max_operations (core_limits c)) (max_write_frames (core_limits c))"
  using assms by (simp_all add: core_ok_def core_joined_def)

lemma core_reserve_machine:
  assumes "externals_ok X" "core_ok X c P"
  shows "core_reserve X now options c =
    (fst (machine_reserve X now options (core_machine c)),
     c\<lparr>core_machine := snd (machine_reserve X now options (core_machine c))\<rparr>)"
  using joined_healthy [OF assms(1) core_ok_parts(1) [OF assms(2)]]
  by (simp add: core_reserve_def split: prod.split)

theorem core_reserve_ok:
  assumes X: "externals_ok X" and ok: "core_ok X c P"
    and res: "core_reserve X now options c = (Inr p, c')"
  shows "core_ok X c' (add_mset (permit_reservation p) P)"
    "pending (core_machine c') = pending (core_machine c)"
    "permit_active p" "permit_ledger p = m_ledger_ref (core_machine c)"
    "permit_epoch p = m_epoch (core_machine c)"
    "gen_operation (m_identities (core_machine c)) = Some (permit_operation p)"
    "gen_effect (m_identities (core_machine c)) = Some (permit_effect p)"
    "m_identities (core_machine c') = snd (identity_take (m_identities (core_machine c)))"
    "m_epoch (core_machine c') = m_epoch (core_machine c)"
    "m_ledger_ref (core_machine c') = m_ledger_ref (core_machine c)"
    "core_limits c' = core_limits c"
    "res_match_key (permit_reservation p) \<notin> key_set_keys (led_active_keys (m_ledger (core_machine c)))"
proof -
  have m: "machine_ok (core_machine c) P" by (rule core_ok_parts [OF ok])
  have "machine_refusal X now options (core_machine c) = None"
    using machine_reserve_refused [OF X m] res
    by (cases "machine_refusal X now options (core_machine c)") (auto simp: core_reserve_machine [OF X ok])
  from machine_reserve_accepted [OF X m this] obtain p' m' where
    p': "machine_reserve X now options (core_machine c) = (Inr p', m')"
    "machine_ok m' (add_mset (permit_reservation p') P)"
    "p' = \<lparr>permit_ledger = m_ledger_ref (core_machine c), permit_epoch = m_epoch (core_machine c),
         permit_operation = the (gen_operation (m_identities (core_machine c))),
         permit_effect = the (gen_effect (m_identities (core_machine c))),
         permit_deadline = opt_deadline options, permit_class = opt_class options,
         permit_completion = opt_completion_mode options,
         permit_reservation = permit_reservation p', permit_active = True\<rparr>"
    "res_match_key (permit_reservation p') \<notin> key_set_keys (led_active_keys (m_ledger (core_machine c)))"
    "\<exists>L. m' = core_machine c\<lparr>m_ledger := L, m_identities := snd (identity_take (m_identities (core_machine c)))\<rparr> \<and>
       led_limits L = core_limits c"
    "identity_available (m_identities (core_machine c))" by metis
  then have eq: "p = p'" "c' = c\<lparr>core_machine := m'\<rparr>" using res by (simp_all add: core_reserve_machine [OF X ok])
  obtain L where L: "m' = core_machine c\<lparr>m_ledger := L, m_identities := snd (identity_take (m_identities (core_machine c)))\<rparr>"
    "led_limits L = core_limits c" using p'(5) by blast
  show "core_ok X c' (add_mset (permit_reservation p) P)"
    using core_ok_parts [OF ok] p'(2) L by (simp add: eq core_ok_def core_joined_def)
  show "permit_active p" "permit_ledger p = m_ledger_ref (core_machine c)"
    "permit_epoch p = m_epoch (core_machine c)"
    "gen_operation (m_identities (core_machine c)) = Some (permit_operation p)"
    "gen_effect (m_identities (core_machine c)) = Some (permit_effect p)"
    using p'(6) by (simp_all add: eq identity_available_def, subst p'(3), simp_all)+
  show "pending (core_machine c') = pending (core_machine c)"
    "m_identities (core_machine c') = snd (identity_take (m_identities (core_machine c)))"
    "m_epoch (core_machine c') = m_epoch (core_machine c)"
    "m_ledger_ref (core_machine c') = m_ledger_ref (core_machine c)"
    "core_limits c' = core_limits c"
    "res_match_key (permit_reservation p) \<notin> key_set_keys (led_active_keys (m_ledger (core_machine c)))"
    using L p'(4) by (simp_all add: eq)
qed

theorem core_reserve_refused:
  assumes X: "externals_ok X" and ok: "core_ok X c P"
    and res: "core_reserve X now options c = (Inl e, c')"
  shows "c' = c" "machine_refusal X now options (core_machine c) = Some e"
proof -
  have m: "machine_ok (core_machine c) P" by (rule core_ok_parts [OF ok])
  have "machine_refusal X now options (core_machine c) = Some e \<and> c' = c"
  proof (cases "machine_refusal X now options (core_machine c)")
    case None
    then show ?thesis
      by (rule machine_reserve_accepted [OF X m]) (use res in \<open>simp add: core_reserve_machine [OF X ok]\<close>)
  next
    case (Some e')
    with machine_reserve_refused [OF X m this] res show ?thesis
      by (auto simp: core_reserve_machine [OF X ok])
  qed
  then show "c' = c" "machine_refusal X now options (core_machine c) = Some e" by simp_all
qed

text \<open>The queue has room for every frame whose permit the ledger granted.\<close>

lemma writers_charges:
  "image_mset fst (filter_mset snd (mset (charges rs))) = mset (map rec_reservation (filter rec_write_held rs))"
  by (induction rs) auto

lemma held_writes_charges:
  "sum_list (map (\<lambda>h. fst (snd h)) (held_writes rs)) =
     sum_mset (image_mset res_write_retained_bytes (mset (map rec_reservation (filter rec_write_held rs))))"
  by (induction rs) (auto simp: held_writes_def held_write_of_def)

lemma held_totals:
  assumes ok: "core_ok X c P"
  shows "length (filter rec_write_held (pending (core_machine c))) = length (wq_frames (core_writes c))"
    "sum_write (mset (map rec_reservation (filter rec_write_held (pending (core_machine c))))) =
       bb_used X (wq_budget (core_writes c))"
    "writers P (mset (charges (pending (core_machine c)))) =
       P + mset (map rec_reservation (filter rec_write_held (pending (core_machine c))))"
proof -
  let ?rs = "pending (core_machine c)" and ?fs = "wq_frames (core_writes c)"
  have held: "held_writes ?rs = map frame_write ?fs" by (rule core_ok_parts [OF ok])
  then have "length (held_writes ?rs) = length ?fs" by simp
  then show "length (filter rec_write_held ?rs) = length ?fs" by (simp add: held_writes_def)
  have "sum_list (map frame_charge ?fs) = sum_list (map (\<lambda>h. fst (snd h)) (map frame_write ?fs))"
    by (simp add: frame_write_def comp_def)
  also have "\<dots> = sum_write (mset (map rec_reservation (filter rec_write_held ?rs)))"
    unfolding held [symmetric] by (rule held_writes_charges)
  finally show "sum_write (mset (map rec_reservation (filter rec_write_held ?rs))) = bb_used X (wq_budget (core_writes c))"
    using core_ok_parts(3) [OF ok] by (simp add: queue_inv_def)
  show "writers P (mset (charges ?rs)) = P + mset (map rec_reservation (filter rec_write_held ?rs))"
    unfolding writers_def writers_charges by simp
qed

lemma core_accounts:
  "core_ok X c P \<Longrightarrow> accounts (m_ledger (core_machine c)) P (mset (charges (pending (core_machine c))))"
  using core_ok_parts(2) [of X c P] by (simp add: machine_ok_def machine_core_def)

lemma commit_room:
  assumes ok: "core_ok X c (add_mset (permit_reservation p) P)"
    and le: "charge \<le> res_write_retained_bytes (permit_reservation p)"
  shows "length (wq_frames (core_writes c)) < max_frames (wq_limits (core_writes c))"
    "bb_used X (wq_budget (core_writes c)) + charge \<le> queue_max_retained_bytes (wq_limits (core_writes c))"
proof -
  let ?rs = "filter rec_write_held (pending (core_machine c))"
  note tot = held_totals [OF ok] and acc = core_accounts [OF ok] and lim = core_ok_parts(5) [OF ok]
  have "size (add_mset (permit_reservation p) P + mset (map rec_reservation ?rs)) \<le> max_write_frames (core_limits c)"
    using acc unfolding accounts_def tot(3) by metis
  then show "length (wq_frames (core_writes c)) < max_frames (wq_limits (core_writes c))"
    using tot(1) lim by (simp add: write_queue_limits_def del: mset_filter)
  have "sum_write (add_mset (permit_reservation p) P + mset (map rec_reservation ?rs))
      \<le> max_write_retained_bytes (core_limits c)"
    using acc unfolding accounts_def tot(3) by metis
  then show "bb_used X (wq_budget (core_writes c)) + charge \<le> queue_max_retained_bytes (wq_limits (core_writes c))"
    using le lim tot(2) by (simp add: write_queue_limits_def del: mset_filter)
qed

text \<open>
  A commit is refused by policy alone. When the policy agrees the writer always has room, and both
  owners take the operation together.
\<close>

definition committed_frame ::
  "('f \<Rightarrow> byte list) \<Rightarrow> ('f \<Rightarrow> RetainedBytes) \<Rightarrow> OperationPermit \<Rightarrow> 'f \<Rightarrow> 'f QueuedWrite" where
  "committed_frame view retained p frame =
     \<lparr>qw_operation = permit_operation p, qw_effect = permit_effect p, qw_frame = frame,
      qw_measure = measure_capture view retained frame, qw_written = 0, qw_started = False\<rparr>"

lemma core_commit_refused:
  assumes X: "externals_ok X" and ok: "core_ok X c P"
    and no: "commit_failure p (retained frame) (core_machine c) = Some kind"
  shows "core_commit X view retained p frame c =
    (Inl \<lparr>ce_failure = Policy kind, ce_permit = p, ce_frame = frame\<rparr>, c)"
  using joined_healthy [OF X core_ok_parts(1) [OF ok]] no
  by (simp add: core_commit_def measure_capture_def Let_def)

theorem core_commit_accepted:
  assumes X: "externals_ok X" and ok: "core_ok X c (add_mset (permit_reservation p) P)"
    and may: "commit_failure p (retained frame) (core_machine c) = None"
    and fresh: "permit_operation p \<notin> rec_id ` set (pending (core_machine c))"
      "permit_effect p \<notin> rec_effect ` set (pending (core_machine c))"
    and wire: "length (view frame) \<le> USIZE_MAX"
  obtains c' where
    "core_commit X view retained p frame c =
       (Inr (permit_operation p,
          transition_push (ScheduleDeadline (m_epoch (core_machine c)) (permit_operation p) (permit_deadline p))
            (transition_new Applied)), c')"
    "core_ok X c' P"
    "pending (core_machine c') = pending (core_machine c) @ [committed_record p (retained frame)]"
    "wq_frames (core_writes c') = wq_frames (core_writes c) @ [committed_frame view retained p frame]"
    "same_epoch (core_machine c) (core_machine c')"
proof -
  let ?m = "core_machine c" and ?q = "core_writes c" and ?n = "retained frame"
  have ep: "permit_epoch p = wq_epoch ?q" "?n \<le> res_write_retained_bytes (permit_reservation p)"
    using may core_ok_parts(4) [OF ok] by (auto simp: commit_failure_def split: if_splits)
  have held: "held_writes (pending ?m) = map frame_write (wq_frames ?q)" by (rule core_ok_parts [OF ok])
  have "set (write_identities ?q) = set (held_ids (pending ?m))"
    using joined_identities [OF core_ok_parts(1) [OF ok]] by simp
  then have "qw_operation ` set (wq_frames ?q) \<subseteq> rec_id ` set (pending ?m)"
    "qw_effect ` set (wq_frames ?q) \<subseteq> rec_effect ` set (pending ?m)"
    using held_ids_subset [of _ _ "pending ?m"] by (fastforce simp: write_identities_def op_ids_def)+
  then have f: "permit_operation p \<notin> qw_operation ` set (wq_frames ?q)"
    "permit_effect p \<notin> qw_effect ` set (wq_frames ?q)" using fresh by blast+
  obtain q' where q': "admit X (permit_epoch p) (permit_operation p) (permit_effect p)
      (measure_capture view retained frame) frame ?q = (Inr (), q')" "queue_inv X q'"
    "wq_frames q' = wq_frames ?q @ [committed_frame view retained p frame]"
    "wq_epoch q' = wq_epoch ?q" "wq_limits q' = wq_limits ?q"
    by (rule admit_accepts [OF X core_ok_parts(3) [OF ok] ep(1) f, of "measure_capture view retained frame" frame])
      (use commit_room [OF ok ep(2)] wire in \<open>simp_all add: measure_capture_def committed_frame_def\<close>)
  let ?m' = "snd (commit_permit X p ?n ?m)"
  define c' where "c' = c\<lparr>core_writes := q', core_machine := ?m'\<rparr>"
  have "core_commit X view retained p frame c =
       (Inr (permit_operation p,
          transition_push (ScheduleDeadline (m_epoch ?m) (permit_operation p) (permit_deadline p))
            (transition_new Applied)), c')"
    using joined_healthy [OF X core_ok_parts(1) [OF ok]] may q'(1)
    by (simp add: core_commit_def measure_capture_def Let_def c'_def commit_permit_exact)
  moreover have m': "machine_ok ?m' P"
    by (rule commit_permit_ok [OF X core_ok_parts(2) [OF ok] may fresh])
  have "held_writes (pending ?m') = map frame_write (wq_frames q')"
    using held q'(3) by (simp add: commit_permit_exact committed_record_def held_write_of_def
        committed_frame_def frame_write_def measure_capture_def)
  then have "core_ok X c' P"
    using q' m' core_ok_parts [OF ok]
    by (simp add: core_ok_def core_joined_def c'_def commit_permit_exact)
  ultimately show ?thesis
    using that q'(3) by (simp add: c'_def commit_permit_exact same_epoch_def)
qed

section \<open>The write slice\<close>

lemma front_write_exact:
  assumes ok: "core_ok X c P" and fr: "wq_frames (core_writes c) = w # ws"
    and stable: "length (view (qw_frame w)) = wire_bytes (qw_measure w)"
  shows "front_write view n c =
    (Inr (Some \<lparr>ws_epoch = m_epoch (core_machine c), ws_operation = qw_operation w,
        ws_effect = qw_effect w, ws_bytes = take n (drop (qw_written w) (view (qw_frame w)))\<rparr>), c)"
  using core_ok_parts [OF ok] machine_ok_accounts(1) [of "core_machine c" P]
    queue_front_exact [OF _ fr, of X view n] stable
  by (simp add: front_write_def)

lemma front_write_idle:
  assumes ok: "core_ok X c P" and fr: "wq_frames (core_writes c) = []"
  shows "front_write view n c = (Inr None, c)"
  using core_ok_parts [OF ok] machine_ok_accounts(1) [of "core_machine c" P] queue_front_empty [OF fr]
  by (simp add: front_write_def)

lemma front_write_violation:
  assumes ok: "core_ok X c P" and fr: "wq_frames (core_writes c) = w # ws"
    and changed: "length (view (qw_frame w)) \<noteq> wire_bytes (qw_measure w)"
  shows "front_write view n c =
    (let source = CoreFrameContractViolation
           (WireLengthChanged (wire_bytes (qw_measure w)) (length (view (qw_frame w))))
     in (Inl (CoreInvariant source), c\<lparr>core_poisoned := Some source\<rparr>))"
  using core_ok_parts [OF ok] machine_ok_accounts(1) [of "core_machine c" P] fr changed
  by (simp add: front_write_def queue_front_def Let_def)

section \<open>Write progress\<close>

text \<open>The policy record behind the front frame.\<close>

lemma front_record:
  assumes "core_ok X c P" "wq_frames (core_writes c) = w # ws"
  obtains ys r zs where "first_held (pending (core_machine c)) ys r zs"
    "held_write_of r = frame_write w" "held_writes zs = map frame_write ws"
proof -
  have "held_writes (pending (core_machine c)) = frame_write w # map frame_write ws"
    using core_ok_parts(6) [OF assms(1)] assms(2) by simp
  then show ?thesis by (rule first_heldE) (rule that)
qed

text \<open>The delivery certainty of every owned operation after \<open>n\<close> bytes of operation \<open>i\<close>.\<close>

definition mark_sent :: "OperationId \<Rightarrow> nat \<Rightarrow> (OperationId \<times> Delivery) list \<Rightarrow> (OperationId \<times> Delivery) list" where
  "mark_sent i n ow = map (\<lambda>(j, d). (j, if j = i \<and> 0 < n then PossiblySent else d)) ow"

lemma mark_sent_other: "i \<notin> fst ` set ow \<Longrightarrow> mark_sent i n ow = ow"
  by (induction ow) (auto simp: mark_sent_def)

lemma mark_sent_split:
  assumes "machine_ok m P" "pending m = ys @ r # zs"
  shows "mark_sent (rec_id r) n (owned (ys @ r # zs)) =
    owned ys @ (rec_id r, if 0 < n then PossiblySent else rec_delivery r) # owned zs"
proof -
  have "distinct (op_ids (ys @ r # zs))"
    using assms by (simp add: machine_ok_def machine_core_def op_ids_def)
  then have "mark_sent (rec_id r) n (owned ys) = owned ys" "mark_sent (rec_id r) n (owned zs) = owned zs"
    by (simp_all add: mark_sent_other)
  then show ?thesis by (simp add: mark_sent_def)
qed

lemma reconcile_nil [simp]: "reconcile X (transition_new d) c = (Inr (transition_new d), c)"
  by (simp add: reconcile_def)

lemma fold_transition_push:
  "fold transition_push es t = t\<lparr>tr_effects := tr_effects t @ es\<rparr>"
  by (induction es arbitrary: t) (simp_all add: transition_push_def)

text \<open>The boundary half of write progress: the first byte turns the record to possibly sent.\<close>

definition boundary_machine ::
  "nat \<Rightarrow> 'f QueuedWrite \<Rightarrow> OperationRecord list \<Rightarrow> OperationRecord \<Rightarrow> OperationRecord list \<Rightarrow>
   ConnectionMachine \<Rightarrow> ConnectionMachine" where
  "boundary_machine n w ys r zs m =
     (if boundary_of n w = Crossed then with_record (ys @ started_record r # zs) m else m)"

lemma boundary_step:
  fixes n :: nat and c :: "('f, 'g) ConnectionCore"
  assumes ok: "machine_ok m P" and f: "first_held (pending m) ys r zs"
    and r: "held_write_of r = frame_write w"
  defines "m1 \<equiv> boundary_machine n w ys r zs m"
  obtains r1 where
    "(if boundary_of n w = Crossed then
        (case write_started (m_epoch m) (qw_operation w) (qw_effect w) m of
           (t, m') \<Rightarrow> absorb_write_transition X (transition_new Applied) t (qw_operation w) (qw_effect w)
                       (c\<lparr>core_machine := m'\<rparr>))
      else (Inr (transition_new Applied), c\<lparr>core_machine := m\<rparr>)) =
     (Inr (transition_new Applied), c\<lparr>core_machine := m1\<rparr>)"
    "machine_ok m1 P" "first_held (pending m1) ys r1 zs" "held_write_of r1 = frame_write (progressed n w)"
    "owned (pending m1) = mark_sent (qw_operation w) n (owned (pending m))"
    "live_ids (pending m1) = live_ids (pending m)" "same_epoch m m1" "keeps_effects m m1"
proof -
  have p: "pending m = ys @ r # zs" and held: "rec_write_held r" "\<forall>y \<in> set ys. \<not> rec_write_held y"
    using f by (auto simp: first_held_def)
  have id: "rec_id r = qw_operation w" "rec_effect r = qw_effect w"
    "rec_delivery r = (if qw_started w then PossiblySent else NotSent)"
    using r by (simp_all add: held_write_of_def frame_write_def)
  have rok: "record_ok r" using ok p by (simp add: machine_ok_def machine_core_def)
  have marked: "mark_sent (qw_operation w) n (owned (pending m)) =
      owned ys @ (rec_id r, if 0 < n then PossiblySent else rec_delivery r) # owned zs"
    using mark_sent_split [OF ok p] id(1) by (simp add: p)
  show ?thesis
  proof (cases "boundary_of n w = Crossed")
    case True
    then have n: "0 < n" "\<not> qw_started w" by (auto simp: boundary_of_def split: if_splits)
    have queued: "rec_phase r = Queued"
      using rok held(1) id(3) n(2) by (auto simp: record_ok_def split: OperationPhase.splits)
    note ws = write_started_exact [OF ok p queued, unfolded id]
    have m1: "m1 = with_record (ys @ started_record r # zs) m" using True by (simp add: m1_def boundary_machine_def)
    show ?thesis
    proof (rule that [of "started_record r"])
      show "held_write_of (started_record r) = frame_write (progressed n w)"
        using r n by (simp add: held_write_of_def frame_write_def started_record_def)
      show "first_held (pending m1) ys (started_record r) zs"
        using held by (simp add: m1 first_held_def started_record_def)
    qed (use True ws n queued p marked in \<open>simp_all add: m1 absorb_write_transition_def same_epoch_def with_record_def
        started_record_def keeps_effects_def\<close>)
  next
    case False
    then have n: "n = 0 \<or> qw_started w" by (auto simp: boundary_of_def split: if_splits)
    have "m1 = m" using False by (simp add: m1_def boundary_machine_def)
    moreover have "held_write_of r = frame_write (progressed n w)"
      using r n by (auto simp: frame_write_def)
    moreover have "mark_sent (qw_operation w) n (owned (pending m)) = owned (pending m)"
      using marked n id(3) p by auto
    ultimately show ?thesis using that [of r] False ok f by (simp add: same_epoch_def keeps_effects_def)
  qed
qed

text \<open>Progress that leaves bytes of the front frame unwritten.\<close>

lemma core_advance_pending:
  assumes X: "externals_ok X" and ok: "core_ok X c P"
    and fr: "wq_frames (core_writes c) = w # ws" and n: "n < remaining_bytes w"
  obtains c' where
    "core_advance_write X (m_epoch (core_machine c)) (qw_effect w) n c = (Inr (transition_new Applied), c')"
    "core_ok X c' P" "wq_frames (core_writes c') = progressed n w # ws"
    "owned (pending (core_machine c')) = mark_sent (qw_operation w) n (owned (pending (core_machine c)))"
    "live_ids (pending (core_machine c')) = live_ids (pending (core_machine c))"
    "same_epoch (core_machine c) (core_machine c')" "keeps_effects (core_machine c) (core_machine c')"
proof -
  let ?m = "core_machine c" and ?q = "core_writes c"
  let ?mo = "max_operations (core_limits c)" and ?mw = "max_write_frames (core_limits c)"
  let ?q' = "?q\<lparr>wq_frames := progressed n w # ws\<rparr>"
  note parts = core_ok_parts [OF ok]
  obtain ys r zs where r: "first_held (pending ?m) ys r zs" "held_write_of r = frame_write w"
    "held_writes zs = map frame_write ws" by (rule front_record [OF ok fr])
  let ?c2 = "c\<lparr>core_journal := journal_of ?mo ?mw [] [] None True, core_writes := ?q'\<rparr>"
  define m1 where "m1 = boundary_machine n w ys r zs ?m"
  obtain r1 where b:
    "(if boundary_of n w = Crossed then
        (case write_started (m_epoch ?m) (qw_operation w) (qw_effect w) ?m of
           (t, m') \<Rightarrow> absorb_write_transition X (transition_new Applied) t (qw_operation w) (qw_effect w)
                       (?c2\<lparr>core_machine := m'\<rparr>))
      else (Inr (transition_new Applied), ?c2\<lparr>core_machine := ?m\<rparr>)) =
     (Inr (transition_new Applied), ?c2\<lparr>core_machine := m1\<rparr>)"
    "machine_ok m1 P" "first_held (pending m1) ys r1 zs" "held_write_of r1 = frame_write (progressed n w)"
    "owned (pending m1) = mark_sent (qw_operation w) n (owned (pending ?m))"
    "live_ids (pending m1) = live_ids (pending ?m)" "same_epoch ?m m1" "keeps_effects ?m m1"
    unfolding m1_def by (rule boundary_step [OF parts(2) r(1,2), where c = ?c2])
  have adv: "advance X (m_epoch ?m) (qw_effect w) n ?q =
      (Inr (Pending (qw_operation w) (boundary_of n w)), ?q')" "queue_inv X ?q'"
    using advance_pending [OF parts(3) parts(4) [symmetric] fr refl n] by simp_all
  have held: "held_writes (pending m1) = map frame_write (progressed n w # ws)"
    using b(3,4) r(3) held_writes_prefix [of ys] by (simp add: first_held_def)
  have lim: "led_limits (m_ledger m1) = core_limits c" "m_epoch m1 = m_epoch ?m"
    using b(7) by (simp_all add: same_epoch_def)
  have joined: "core_joined X (?c2\<lparr>core_machine := m1\<rparr>) P"
    using parts b(2) adv(2) held lim by (simp add: core_joined_def)
  define c' where "c' = c\<lparr>core_machine := m1, core_writes := ?q'\<rparr>"
  have "core_journal c = journal_of ?mo ?mw [] [] None False" using parts(8) by (simp add: journal_new_of)
  then have "core_advance_write X (m_epoch ?m) (qw_effect w) n c = (Inr (transition_new Applied), c')"
    using joined_healthy(1) [OF X parts(1)] joined_healthy(1) [OF X joined] adv(1) b(1)
    by (simp add: core_advance_write_def begin_write_recovery_journal_def begin_write_progress_of
        absorb_progress_def finish_step_def c'_def cong: if_cong)
  moreover have "core_ok X c' P"
    using joined parts(8) lim by (simp add: core_ok_def core_joined_def c'_def)
  ultimately show ?thesis using that b(5-8) by (simp add: c'_def)
qed

text \<open>The policy half of a completed frame, on any owner whose writer has already given it up.\<close>

lemma absorb_completed:
  assumes X: "externals_ok X" and ok: "machine_ok m1 P" and f: "first_held (pending m1) ys r1 zs"
    and c: "core_machine c = m1" "queue_inv X (core_writes c)" "wq_epoch (core_writes c) = m_epoch m1"
      "wq_limits (core_writes c) = write_queue_limits (led_limits (m_ledger m1))" "core_poisoned c = None"
    and held: "held_writes zs = map frame_write (wq_frames (core_writes c))"
    and j: "journal_holds c (max_operations (led_limits (m_ledger m1)))
        (max_write_frames (led_limits (m_ledger m1))) (length (wq_frames (core_writes c)))"
  obtains t c' where
    "finish_step (case write_completed X (m_epoch m1) (rec_id r1) (rec_effect r1) m1 of
        (t, m') \<Rightarrow> absorb_write_transition X (transition_new Applied) t (rec_id r1) (rec_effect r1)
                    (c\<lparr>core_machine := m'\<rparr>)) = (Inr t, c')"
    "core_ok X c' P" "wq_frames (core_writes c') = wq_frames (core_writes c)"
    "settles (owned (pending m1)) (live_ids (pending m1)) (tr_effects t) (core_machine c')"
    "same_epoch m1 (core_machine c')" "keeps_effects m1 (core_machine c')"
    "tr_disposition t = Applied" "tr_cancel_outcome t = None"
proof -
  let ?wc = "write_completed X (m_epoch m1) (rec_id r1) (rec_effect r1) m1"
  let ?m0 = "with_record (ys @ released_record r1 # zs) m1"
  obtain t m' where tm: "?wc = (t, m')" by (cases ?wc)
  have t: "tr_disposition t = Applied" "good_step ?m0 P (t, m')" "discard_ids (tr_effects t) = []"
    using good_write_completed [OF X ok f] write_completed_discards [of X "m_epoch m1" "rec_id r1" "rec_effect r1" m1]
    by (simp_all add: tm)
  then have m': "machine_ok m' P" "contract ?m0 (tr_effects t) m'" by (simp_all add: good_step_def)
  have p: "pending m1 = ys @ r1 # zs" "\<forall>y \<in> set ys. \<not> rec_write_held y" using f by (auto simp: first_held_def)
  have m0: "held_writes (pending ?m0) = map frame_write (wq_frames (core_writes c))"
    "owned (pending ?m0) = owned (pending m1)" "live_ids (pending ?m0) = live_ids (pending m1)"
    "m_epoch ?m0 = m_epoch m1" "same_epoch m1 ?m0" "keeps_effects m1 ?m0"
    using held held_writes_prefix [OF p(2)] p(1)
    by (simp_all add: same_epoch_def with_record_def keeps_effects_def)
  let ?c1 = "c\<lparr>core_machine := m'\<rparr>"
  have j1: "journal_holds ?c1 (max_operations (led_limits (m_ledger m1)))
        (max_write_frames (led_limits (m_ledger m1))) (length (wq_frames (core_writes ?c1)))"
    using j by (simp add: journal_holds_def)
  obtain q' j' where q': "reconcile X t ?c1 =
      (Inr (t\<lparr>tr_effects := visible (tr_effects t)\<rparr>), ?c1\<lparr>core_writes := q', core_journal := j'\<rparr>)"
    "queue_inv X q'" "wq_epoch q' = m_epoch ?m0" "wq_limits q' = wq_limits (core_writes ?c1)"
    "held_writes (pending m') = map frame_write (wq_frames q')"
    "journal_holds (?c1\<lparr>core_journal := j'\<rparr>) (max_operations (led_limits (m_ledger m1)))
        (max_write_frames (led_limits (m_ledger m1))) 0"
    "wq_frames q' = filter (\<lambda>w. frame_key w \<notin> set (discard_ids (tr_effects t))) (wq_frames (core_writes ?c1))"
    by (rule reconcile_contract [where c = ?c1, OF X machine_ok_accounts(6) [OF ok] _ _ _ m'(2) j1])
      (use c m0 in simp_all)
  let ?c2 = "?c1\<lparr>core_writes := q', core_journal := j'\<rparr>"
  let ?c3 = "?c2\<lparr>core_journal := journal_clear j'\<rparr>"
  let ?t = "(transition_new Applied)\<lparr>tr_effects := visible (tr_effects t)\<rparr> :: unit ConnectionTransition"
  have same: "same_epoch m1 m'" using contract_settles(2) [OF m'(2)] m0(5) by (simp add: same_epoch_def)
  have effects: "keeps_effects m1 m'"
    using contract_settles(3) [OF m'(2)] m0(6) unfolding keeps_effects_def by (rule subset_trans)
  have joined: "core_joined X ?c2 P"
    using q' m' c m0(4) same by (simp add: core_joined_def same_epoch_def)
  have clear: "journal_clear j' = journal_new (max_operations (led_limits (m_ledger m1)))
        (max_write_frames (led_limits (m_ledger m1)))"
    using journal_holds_clear [OF q'(6)] by simp
  show ?thesis
  proof (rule that [of ?t ?c3])
    show "core_ok X ?c3 P"
      using joined clear same by (simp add: core_ok_def core_joined_def same_epoch_def)
    show "settles (owned (pending m1)) (live_ids (pending m1)) (tr_effects ?t) (core_machine ?c3)"
      using contract_settles(1) [OF m'(2)] m0(2,3) by simp
    show "finish_step (case ?wc of (t, m') \<Rightarrow> absorb_write_transition X (transition_new Applied) t
        (rec_id r1) (rec_effect r1) (c\<lparr>core_machine := m'\<rparr>)) = (Inr ?t, ?c3)"
      using t(1) q'(1) joined_healthy(1) [OF X joined]
      by (simp add: tm absorb_write_transition_def finish_step_def fold_transition_push)
    show "wq_frames (core_writes ?c3) = wq_frames (core_writes c)" using q'(7) t(3) by simp
  qed (use same effects in simp_all)
qed

lemma core_advance_complete:
  assumes X: "externals_ok X" and ok: "core_ok X c P"
    and fr: "wq_frames (core_writes c) = w # ws" and n: "n = remaining_bytes w"
  obtains t c' where
    "core_advance_write X (m_epoch (core_machine c)) (qw_effect w) n c = (Inr t, c')"
    "core_ok X c' P" "wq_frames (core_writes c') = ws"
    "settles (mark_sent (qw_operation w) n (owned (pending (core_machine c))))
       (live_ids (pending (core_machine c))) (tr_effects t) (core_machine c')"
    "same_epoch (core_machine c) (core_machine c')" "keeps_effects (core_machine c) (core_machine c')"
    "tr_disposition t = Applied" "tr_cancel_outcome t = None"
proof -
  let ?m = "core_machine c" and ?q = "core_writes c"
  let ?mo = "max_operations (core_limits c)" and ?mw = "max_write_frames (core_limits c)"
  note parts = core_ok_parts [OF ok]
  note lim = machine_ok_accounts [OF parts(2)]
  obtain ys r zs where r: "first_held (pending ?m) ys r zs" "held_write_of r = frame_write w"
    "held_writes zs = map frame_write ws" by (rule front_record [OF ok fr])
  obtain q' where q': "advance X (m_epoch ?m) (qw_effect w) n ?q =
      (Inr (Complete (qw_operation w) (qw_effect w) (qw_frame w) (qw_measure w) (boundary_of n w)
              (if wire_bytes (qw_measure w) = 0 then NotSent else PossiblySent)), q')"
    "queue_inv X q'" "wq_frames q' = ws" "wq_epoch q' = wq_epoch ?q" "wq_limits q' = wq_limits ?q"
    by (rule advance_complete [OF X parts(3) parts(4) [symmetric] fr refl n])
  define dw where "dw = \<lparr>dw_operation = qw_operation w, dw_effect = qw_effect w, dw_frame = qw_frame w,
      dw_measure = qw_measure w, dw_written = wire_bytes (qw_measure w),
      dw_delivery = (if wire_bytes (qw_measure w) = 0 then NotSent else PossiblySent)\<rparr>"
  let ?jo = "journal_operation r (length ys)"
  define c2 where "c2 = c\<lparr>core_writes := q', core_journal := journal_of ?mo ?mw [?jo] [dw] None True\<rparr>"
  have c2: "core_machine c2 = ?m" "core_writes c2 = q'" "core_poisoned c2 = None"
    "core_journal c2 = journal_of ?mo ?mw [?jo] [dw] None True" "c2\<lparr>core_machine := ?m\<rparr> = c2"
    using parts(7) by (simp_all add: c2_def)
  define m1 where "m1 = boundary_machine n w ys r zs ?m"
  obtain r1 where b:
    "(if boundary_of n w = Crossed then
        (case write_started (m_epoch ?m) (qw_operation w) (qw_effect w) ?m of
           (t, m') \<Rightarrow> absorb_write_transition X (transition_new Applied) t (qw_operation w) (qw_effect w)
                       (c2\<lparr>core_machine := m'\<rparr>))
      else (Inr (transition_new Applied), c2\<lparr>core_machine := ?m\<rparr>)) =
     (Inr (transition_new Applied), c2\<lparr>core_machine := m1\<rparr>)"
    "machine_ok m1 P" "first_held (pending m1) ys r1 zs" "held_write_of r1 = frame_write (progressed n w)"
    "owned (pending m1) = mark_sent (qw_operation w) n (owned (pending ?m))"
    "live_ids (pending m1) = live_ids (pending ?m)" "same_epoch ?m m1" "keeps_effects ?m m1"
    unfolding m1_def by (rule boundary_step [OF parts(2) r(1,2), where c = c2])
  note b1 = b(1) [unfolded c2(5)]
  have same: "led_limits (m_ledger m1) = core_limits c" "m_epoch m1 = m_epoch ?m"
    using b(7) by (simp_all add: same_epoch_def)
  have r1: "rec_id r1 = qw_operation w" "rec_effect r1 = qw_effect w"
    using b(4) by (simp_all add: held_write_of_def frame_write_def)
  have room: "length (w # ws) \<le> ?mw" using core_frames_bound [OF parts(1)] fr by simp
  then have hold: "journal_holds (c2\<lparr>core_machine := m1\<rparr>) ?mo ?mw (length ws)"
    using lim(4) unfolding journal_holds_def
    by (intro exI [of _ "[?jo]"] exI [of _ "[dw]"] exI [of _ True]) (simp add: c2(4))
  obtain t c' where c': "finish_step (case write_completed X (m_epoch m1) (rec_id r1) (rec_effect r1) m1 of
        (t, m') \<Rightarrow> absorb_write_transition X (transition_new Applied) t (rec_id r1) (rec_effect r1)
                    (c2\<lparr>core_machine := m1\<rparr>\<lparr>core_machine := m'\<rparr>)) = (Inr t, c')"
    "core_ok X c' P" "wq_frames (core_writes c') = ws"
    "settles (owned (pending m1)) (live_ids (pending m1)) (tr_effects t) (core_machine c')"
    "same_epoch m1 (core_machine c')" "keeps_effects m1 (core_machine c')" "tr_disposition t = Applied" "tr_cancel_outcome t = None"
    by (rule absorb_completed [OF X b(2,3), of "c2\<lparr>core_machine := m1\<rparr>"])
      (use q' parts same r(3) hold c2 in simp_all)
  have p: "pending ?m = ys @ r # zs" using r(1) by (simp add: first_held_def)
  have core: "machine_core ?m P" using parts(2) by (simp add: machine_ok_def)
  have "rec_id r = qw_operation w" using r(2) by (simp add: held_write_of_def frame_write_def)
  then have at: "matching_get_indexed (qw_operation w) (m_matching ?m) = Some (length ys, r)"
    using matching_at(2) [OF p split_distinct [OF core p]] by simp
  have "core_journal c = journal_of ?mo ?mw [] [] None False" using parts(8) by (simp add: journal_new_of)
  moreover have "retain_write dw (journal_of ?mo ?mw [] [] None True) = (True, journal_of ?mo ?mw [] [dw] None True)"
    using retain_write_of [of "[]" ?mw dw ?mo "[]" None True] room lim(6) by simp
  moreover have "retain_operation r (length ys) (journal_of ?mo ?mw [] [dw] None True) =
      (True, journal_of ?mo ?mw [?jo] [dw] None True)"
    using retain_operation_of [of "[]" ?mo r "length ys" ?mw "[dw]" None True] lim(4,5) by simp
  ultimately have "core_advance_write X (m_epoch ?m) (qw_effect w) n c =
      absorb_progress X (m_epoch ?m) (qw_effect w) (qw_operation w) (boundary_of n w) True c2"
    using joined_healthy(1) [OF X parts(1)] q'(1) at
    by (simp add: core_advance_write_def begin_write_recovery_journal_def begin_write_progress_of
        Let_def c2_def flip: dw_def)
  also have "\<dots> = (Inr t, c')"
    unfolding absorb_progress_def c2(1) b1 using c'(1) by (simp add: r1 same)
  finally have "core_advance_write X (m_epoch ?m) (qw_effect w) n c = (Inr t, c')" .
  with that show ?thesis using c'(2-8) b(5-8) by (auto simp: same_epoch_def keeps_effects_def)
qed

text \<open>The refusals of write progress; only impossible progress poisons the owner.\<close>

lemma core_advance_refused:
  assumes X: "externals_ok X" and ok: "core_ok X c P"
  shows "epoch \<noteq> m_epoch (core_machine c) \<Longrightarrow> core_advance_write X epoch effect n c =
      (Inl (CoreWrite (ProgressStaleEpoch (m_epoch (core_machine c)) epoch)), c)"
    "epoch = m_epoch (core_machine c) \<Longrightarrow> wq_frames (core_writes c) = [] \<Longrightarrow>
      core_advance_write X epoch effect n c = (Inl (CoreWrite NoPendingWrite), c)"
    "epoch = m_epoch (core_machine c) \<Longrightarrow> wq_frames (core_writes c) = w # ws \<Longrightarrow> qw_effect w \<noteq> effect \<Longrightarrow>
      core_advance_write X epoch effect n c =
        (Inl (CoreWrite (OutOfOrderEffect (qw_effect w) effect)), c)"
proof -
  note parts = core_ok_parts [OF ok]
  have j: "core_journal c = journal_of (max_operations (core_limits c)) (max_write_frames (core_limits c)) [] [] None False"
    using parts(8) by (simp add: journal_new_of)
  have c: "c\<lparr>core_journal := journal_of (max_operations (core_limits c)) (max_write_frames (core_limits c)) [] [] None False\<rparr> = c"
    by (simp flip: j)
  note defs = core_advance_write_def begin_write_recovery_journal_def begin_write_progress_of
    joined_healthy(1) [OF X parts(1)] Let_def
  show "epoch \<noteq> m_epoch (core_machine c) \<Longrightarrow> core_advance_write X epoch effect n c =
      (Inl (CoreWrite (ProgressStaleEpoch (m_epoch (core_machine c)) epoch)), c)"
    using j c advance_stale [of epoch "core_writes c"] parts(4) by (simp add: defs)
  show "epoch = m_epoch (core_machine c) \<Longrightarrow> wq_frames (core_writes c) = [] \<Longrightarrow>
      core_advance_write X epoch effect n c = (Inl (CoreWrite NoPendingWrite), c)"
    using j c advance_empty [of epoch "core_writes c"] parts(4) by (simp add: defs)
  show "epoch = m_epoch (core_machine c) \<Longrightarrow> wq_frames (core_writes c) = w # ws \<Longrightarrow> qw_effect w \<noteq> effect \<Longrightarrow>
      core_advance_write X epoch effect n c =
        (Inl (CoreWrite (OutOfOrderEffect (qw_effect w) effect)), c)"
    using j c advance_out_of_order [of epoch "core_writes c" w ws effect] parts(4) by (simp add: defs)
qed

lemma core_advance_exceeds:
  assumes X: "externals_ok X" and ok: "core_ok X c P"
    and fr: "wq_frames (core_writes c) = w # ws" and n: "remaining_bytes w < n"
  obtains c' where "core_advance_write X (m_epoch (core_machine c)) (qw_effect w) n c =
      (Inl (CoreInvariant (WriteProgressContract n (remaining_bytes w))), c')"
    "core_poisoned c' = Some (WriteProgressContract n (remaining_bytes w))"
    "core_machine c' = core_machine c"
    "core_writes c' = (core_writes c)\<lparr>wq_frames := w\<lparr>qw_started := True\<rparr> # ws\<rparr>"
    "core_journal c' = journal_of (max_operations (core_limits c)) (max_write_frames (core_limits c)) [] [] None True"
proof -
  note parts = core_ok_parts [OF ok]
  have j: "core_journal c = journal_of (max_operations (core_limits c)) (max_write_frames (core_limits c)) [] [] None False"
    using parts(8) by (simp add: journal_new_of)
  let ?c = "c\<lparr>core_journal := journal_of (max_operations (core_limits c)) (max_write_frames (core_limits c)) [] [] None True,
      core_writes := (core_writes c)\<lparr>wq_frames := w\<lparr>qw_started := True\<rparr> # ws\<rparr>,
      core_poisoned := Some (WriteProgressContract n (remaining_bytes w))\<rparr>"
  have "core_advance_write X (m_epoch (core_machine c)) (qw_effect w) n c =
      (Inl (CoreInvariant (WriteProgressContract n (remaining_bytes w))), ?c)"
    using j parts(7) advance_exceeds [OF parts(3) parts(4) [symmetric] fr refl n]
    by (simp add: core_advance_write_def begin_write_recovery_journal_def begin_write_progress_of
        joined_healthy(1) [OF X parts(1)] Let_def core_poison_def)
  then show ?thesis by (rule that) simp_all
qed

end
