(* ===== verification/Recovery.thy ===== *)
theory Recovery
  imports CoreSteps
begin

text \<open>
  \<^verbatim>\<open>connection/recovery.rs\<close> and \<^verbatim>\<open>recovery_item.rs\<close>: the extraction of every nonterminal operation, with
  its frame and a conservative delivery certainty, from an owner that can no longer be driven.
\<close>

section \<open>Recovery of one operation\<close>

record 'f RecoveredOperation =
  ro_operation :: OperationId
  ro_delivery :: Delivery
  ro_frame :: "'f option"

record 'f ConnectionRecovery =
  cr_epoch :: ConnectionEpoch
  cr_operations :: "'f RecoveredOperation list"
  cr_unmatched_writes :: "'f DiscardedWrite list"
  cr_ownership_diverged :: bool

text \<open>The mutable locals of \<^verbatim>\<open>recover_in_wire_order\<close>, and the ledger that it releases into.\<close>

record 'f recovering =
  rv_journal :: "JournalOperation option list"
  rv_current :: "OperationRecord option list"
  rv_writes :: "'f DiscardedWrite list"
  rv_operations :: "'f RecoveredOperation list"
  rv_diverged :: bool
  rv_ledger :: ReservationLedger

definition take_write ::
  "OperationId \<Rightarrow> EffectId \<Rightarrow> 'f DiscardedWrite list \<Rightarrow> 'f DiscardedWrite option \<times> 'f DiscardedWrite list" where
  "take_write operation effect writes =
     (case position (\<lambda>w. dw_operation w = operation \<and> dw_effect w = effect) writes of
        None \<Rightarrow> (None, writes)
      | Some index \<Rightarrow> (Some (writes ! index), remove_nth index writes))"

definition weaken :: "Delivery \<Rightarrow> Delivery \<Rightarrow> Delivery" where
  "weaken policy writer =
     (if policy = PossiblySent \<or> writer = PossiblySent then PossiblySent else NotSent)"

definition recover_delivery :: "Delivery \<Rightarrow> 'f DiscardedWrite option \<Rightarrow> Delivery \<times> 'f option" where
  "recover_delivery delivery write =
     (case write of
        None \<Rightarrow> (delivery, None)
      | Some w \<Rightarrow> (weaken delivery (dw_delivery w), Some (dw_frame w)))"

definition recover_journal_operation :: "JournalOperation \<Rightarrow> 'f recovering \<Rightarrow> 'f recovering" where
  "recover_journal_operation jo s =
     (if jo_phase jo = Terminal then s
      else (case take_write (jo_operation jo) (jo_effect jo) (rv_writes s) of
        (write, writes) \<Rightarrow>
          (case recover_delivery (jo_delivery jo) write of
             (delivery, frame) \<Rightarrow>
               s\<lparr>rv_writes := writes,
                 rv_diverged := (rv_diverged s \<or> jo_write_held jo \<noteq> (write \<noteq> None)),
                 rv_operations := rv_operations s @
                   [\<lparr>ro_operation = jo_operation jo, ro_delivery = delivery, ro_frame = frame\<rparr>]\<rparr>)))"

definition recover_current_operation ::
  "'g externals \<Rightarrow> OperationRecord \<Rightarrow> 'f recovering \<Rightarrow> 'f recovering" where
  "recover_current_operation X record s =
     (case take_write (rec_id record) (rec_effect record) (rv_writes s) of
        (write, writes) \<Rightarrow>
          (case recover_delivery (rec_delivery record) write of
             (delivery, frame) \<Rightarrow>
               s\<lparr>rv_writes := writes,
                 rv_diverged := (rv_diverged s \<or> rec_write_held record \<noteq> (write \<noteq> None)),
                 rv_operations := rv_operations s @
                   (if rec_phase record \<noteq> Terminal
                    then [\<lparr>ro_operation = rec_id record, ro_delivery = delivery, ro_frame = frame\<rparr>]
                    else []),
                 rv_ledger := ledger_release_operation X (rec_reservation record)
                   (rec_write_held record) (rv_ledger s)\<rparr>))"

section \<open>Wire order\<close>

text \<open>\<^verbatim>\<open>iter_mut().find(..).and_then(Option::take)\<close>: the first entry that satisfies \<open>p\<close>, emptied.\<close>

definition take_first :: "('a \<Rightarrow> bool) \<Rightarrow> 'a option list \<Rightarrow> 'a option \<times> 'a option list" where
  "take_first p xs =
     (case position (\<lambda>x. case x of None \<Rightarrow> False | Some y \<Rightarrow> p y) xs of
        None \<Rightarrow> (None, xs)
      | Some i \<Rightarrow> (xs ! i, xs[i := None]))"

text \<open>The inner \<^verbatim>\<open>while let\<close>: every journal entry of one wire position.\<close>

definition journal_position :: "usize \<Rightarrow> JournalOperation option list \<Rightarrow> nat option" where
  "journal_position wire_index journal =
     position (\<lambda>x. case x of None \<Rightarrow> False | Some jo \<Rightarrow> jo_wire_index jo = wire_index) journal"

lemma present_take_less:
  "i < length xs \<Longrightarrow> xs ! i = Some y \<Longrightarrow> length (present (xs[i := None])) < length (present xs)"
  by (induction xs arbitrary: i) (auto simp: present_def nth_Cons split: nat.splits option.splits)

lemma recover_current_journal [simp]:
  "rv_journal (recover_current_operation X r s) = rv_journal s"
  "rv_journal (recover_journal_operation jo s) = rv_journal s"
  by (simp_all add: recover_current_operation_def recover_journal_operation_def split: prod.split)

definition recover_journal_entry ::
  "'g externals \<Rightarrow> bool \<Rightarrow> nat \<Rightarrow> JournalOperation \<Rightarrow> 'f recovering \<Rightarrow> 'f recovering" where
  "recover_journal_entry X recovered_journal index jo s =
     (let s1 = s\<lparr>rv_diverged := (rv_diverged s \<or> recovered_journal),
                 rv_journal := (rv_journal s)[index := None]\<rparr> in
      case take_first (\<lambda>r. rec_id r = jo_operation jo) (rv_current s1) of
        (None, _) \<Rightarrow> recover_journal_operation jo s1
      | (Some current, currents) \<Rightarrow>
          recover_current_operation X current
            (s1\<lparr>rv_current := currents,
                rv_diverged := (rv_diverged s1 \<or> rec_effect current \<noteq> jo_effect jo)\<rparr>))"

lemma recover_journal_entry_journal [simp]:
  "rv_journal (recover_journal_entry X b i jo s) = (rv_journal s)[i := None]"
  by (simp add: recover_journal_entry_def Let_def split: prod.split option.split)

function recover_journal_at ::
  "'g externals \<Rightarrow> usize \<Rightarrow> bool \<Rightarrow> 'f recovering \<Rightarrow> bool \<times> 'f recovering" where
  "recover_journal_at X wire_index recovered_journal s =
     (case journal_position wire_index (rv_journal s) of
        None \<Rightarrow> (recovered_journal, s)
      | Some index \<Rightarrow>
          (case rv_journal s ! index of
             None \<Rightarrow> (True, s\<lparr>rv_diverged := (rv_diverged s \<or> recovered_journal)\<rparr>)
           | Some jo \<Rightarrow>
               recover_journal_at X wire_index True
                 (recover_journal_entry X recovered_journal index jo s)))"
  by pat_completeness auto

termination
proof (relation "measure (\<lambda>(X, i, b, s). length (present (rv_journal s)))", goal_cases)
  case 1
  show ?case by simp
next
  case (2 X wire_index recovered s index jo)
  then have "index < length (rv_journal s)"
    using position_Some unfolding journal_position_def by fastforce
  with 2 show ?case by (simp add: present_take_less)
qed

declare recover_journal_at.simps [simp del]

definition recover_wire_index ::
  "'g externals \<Rightarrow> OperationId list \<Rightarrow> usize \<Rightarrow> 'f recovering \<Rightarrow> 'f recovering" where
  "recover_wire_index X journal_ids wire_index s =
     (case recover_journal_at X wire_index False s of
        (True, s1) \<Rightarrow> s1
      | (False, s1) \<Rightarrow>
          (case take_first (\<lambda>r. rec_id r \<notin> set journal_ids) (rv_current s1) of
             (None, _) \<Rightarrow> s1\<lparr>rv_diverged := True\<rparr>
           | (Some current, currents) \<Rightarrow>
               recover_current_operation X current (s1\<lparr>rv_current := currents\<rparr>)))"

definition recover_in_wire_order ::
  "'g externals \<Rightarrow> JournalOperation list \<Rightarrow> 'f recovering \<Rightarrow> 'f recovering" where
  "recover_in_wire_order X journal_operations s0 =
     (let journal_ids = map jo_operation journal_operations;
          missing = length (filter (\<lambda>jo. \<not> (\<exists>current \<in> set (rv_current s0).
              case current of None \<Rightarrow> False | Some r \<Rightarrow> rec_id r = jo_operation jo)) journal_operations);
          original_len = usize_saturating_add (length (rv_current s0)) missing;
          s1 = s0\<lparr>rv_diverged := (rv_diverged s0 \<or>
                    (\<exists>jo \<in> set journal_operations. original_len \<le> jo_wire_index jo)),
                  rv_journal := map Some journal_operations\<rparr>;
          s2 = fold (recover_wire_index X journal_ids) [0..<original_len] s1;
          s3 = fold (\<lambda>current s. recover_current_operation X current (s\<lparr>rv_diverged := True\<rparr>))
                 (present (rv_current s2))
                 (s2\<lparr>rv_current := map (\<lambda>_. None) (rv_current s2)\<rparr>)
      in fold (\<lambda>jo s. recover_journal_operation jo (s\<lparr>rv_diverged := True\<rparr>))
           (present (rv_journal s3)) s3)"

section \<open>The entry point\<close>

definition core_recover ::
  "'g externals \<Rightarrow> ('f, 'g) ConnectionCore \<Rightarrow> 'f ConnectionRecovery \<times> ('f, 'g) ConnectionCore" where
  "core_recover X c =
     (let m = core_machine c;
          journal_armed = jr_armed (core_journal c);
          (discarded, q) = discard_all X (core_writes c);
          (journal_writes, j1) = take_writes (core_journal c);
          (journal_operations, j2) = take_operations j1;
          s0 = \<lparr>rv_journal = [], rv_current = map Some (ov_pending (m_matching m)),
                rv_writes = discarded_writes discarded @ journal_writes, rv_operations = [],
                rv_diverged = (journal_armed \<or> journal_operations \<noteq> []), rv_ledger = m_ledger m\<rparr>;
          s = recover_in_wire_order X journal_operations s0
      in (\<lparr>cr_epoch = m_epoch m, cr_operations = rv_operations s,
           cr_unmatched_writes = rv_writes s,
           cr_ownership_diverged =
             (rv_diverged s \<or> rv_writes s \<noteq> [] \<or> led_poisoned (rv_ledger s))\<rparr>,
          c\<lparr>core_machine := m\<lparr>m_matching := (m_matching m)\<lparr>ov_pending := []\<rparr>,
                              m_ledger := rv_ledger s\<rparr>,
            core_writes := q, core_journal := j2,
            core_poisoned := (case core_poisoned c of None \<Rightarrow> Some Recovered | Some p \<Rightarrow> Some p)\<rparr>))"

section \<open>Recovery with an empty journal\<close>

text \<open>What is handed back for one record: its identity, the weaker certainty and its frame.\<close>

definition recovered_of :: "'f QueuedWrite list \<Rightarrow> OperationRecord \<Rightarrow> 'f RecoveredOperation" where
  "recovered_of ws r =
     (case find (\<lambda>w. frame_key w = (rec_id r, rec_effect r)) ws of
        None \<Rightarrow> \<lparr>ro_operation = rec_id r, ro_delivery = rec_delivery r, ro_frame = None\<rparr>
      | Some w \<Rightarrow>
          \<lparr>ro_operation = rec_id r,
           ro_delivery = weaken (rec_delivery r) (if qw_started w then PossiblySent else NotSent),
           ro_frame = Some (qw_frame w)\<rparr>)"

abbreviation live_records :: "OperationRecord list \<Rightarrow> OperationRecord list" where
  "live_records rs \<equiv> filter (\<lambda>r. rec_phase r \<noteq> Terminal) rs"

lemma recover_journal_at_empty: "rv_journal s = [] \<Longrightarrow> recover_journal_at X i b s = (b, s)"
  by (subst recover_journal_at.simps) (simp add: journal_position_def)

lemma take_first_blank:
  "take_first p (replicate k None @ Some r # xs) =
     (if p r then (Some r, replicate (Suc k) None @ xs) else take_first p (replicate k None @ Some r # xs))"
proof (cases "p r")
  case True
  have "position (\<lambda>x. case x of None \<Rightarrow> False | Some y \<Rightarrow> p y) (replicate k None @ Some r # xs) =
      Some (length (replicate k (None :: 'a option)))"
    using True by (intro position_append_first) auto
  with True show ?thesis
    by (simp add: take_first_def nth_append list_update_append flip: replicate_append_same)
qed simp

lemma take_write_held:
  "frame_key w = (i, e) \<Longrightarrow> take_write i e (map into_discarded (w # ws)) =
     (Some (into_discarded w), map into_discarded ws)"
  by (simp add: take_write_def into_discarded_def remove_nth_def)

lemma take_write_absent:
  "(i, e) \<notin> frame_key ` set ws \<Longrightarrow> take_write i e (map into_discarded ws) = (None, map into_discarded ws)"
  using position_None [of "\<lambda>w. dw_operation w = i \<and> dw_effect w = e" "map into_discarded ws"]
  by (force simp: take_write_def into_discarded_def simp del: position_None)

lemma recovered_of_absent:
  "(rec_id r, rec_effect r) \<notin> frame_key ` set ws \<Longrightarrow>
   recovered_of ws r = \<lparr>ro_operation = rec_id r, ro_delivery = rec_delivery r, ro_frame = None\<rparr>"
  using find_None_iff [of "\<lambda>w. frame_key w = (rec_id r, rec_effect r)" ws]
  by (auto simp: recovered_of_def image_iff split: option.split)

text \<open>One record whose frame is the first of the remaining frames, or that holds none.\<close>

lemma recover_current_step:
  assumes ws: "map frame_key ws = held_ids (r # rs)" and fresh: "rec_id r \<notin> rec_id ` set rs"
    and s: "rv_writes s = map into_discarded ws"
  defines "ws' \<equiv> (if rec_write_held r then tl ws else ws)"
  shows "recover_current_operation X r s =
      s\<lparr>rv_writes := map into_discarded ws',
        rv_operations := rv_operations s @ (if rec_phase r \<noteq> Terminal then [recovered_of ws r] else []),
        rv_ledger := ledger_release_operation X (rec_reservation r) (rec_write_held r) (rv_ledger s)\<rparr>"
    "map frame_key ws' = held_ids rs" "(rec_id r, rec_effect r) \<notin> frame_key ` set ws'"
proof -
  have held: "rec_write_held r \<Longrightarrow> \<exists>w. ws = w # ws' \<and> frame_key w = (rec_id r, rec_effect r)"
    using ws by (cases ws) (auto simp: ws'_def)
  show ids: "map frame_key ws' = held_ids rs"
    using ws by (cases ws; cases "rec_write_held r") (auto simp: ws'_def)
  have "frame_key ` set ws' = set (held_ids rs)" using ids by (metis list.set_map)
  then show absent: "(rec_id r, rec_effect r) \<notin> frame_key ` set ws'"
    using fresh held_ids_subset [of "rec_id r" "rec_effect r" rs] by (auto simp: op_ids_def)
  show "recover_current_operation X r s =
      s\<lparr>rv_writes := map into_discarded ws',
        rv_operations := rv_operations s @ (if rec_phase r \<noteq> Terminal then [recovered_of ws r] else []),
        rv_ledger := ledger_release_operation X (rec_reservation r) (rec_write_held r) (rv_ledger s)\<rparr>"
  proof (cases "rec_write_held r")
    case True
    then obtain w where w: "ws = w # ws'" "frame_key w = (rec_id r, rec_effect r)" using held by blast
    then have "take_write (rec_id r) (rec_effect r) (rv_writes s) = (Some (into_discarded w), map into_discarded ws')"
      using s take_write_held [OF w(2)] by simp
    with True w show ?thesis
      by (simp add: recover_current_operation_def recover_delivery_def recovered_of_def into_discarded_def)
  next
    case False
    then have same: "ws' = ws" by (simp add: ws'_def)
    have "take_write (rec_id r) (rec_effect r) (rv_writes s) = (None, map into_discarded ws)"
      using s take_write_absent [of "rec_id r" "rec_effect r" ws] absent same by simp
    with False same absent show ?thesis
      by (simp add: recover_current_operation_def recover_delivery_def recovered_of_absent)
  qed
qed

lemma recovered_of_tail:
  assumes "map frame_key ws = held_ids (r # rs)" "rec_id r \<notin> rec_id ` set rs" "y \<in> set rs"
  shows "recovered_of (if rec_write_held r then tl ws else ws) y = recovered_of ws y"
proof -
  have "rec_id y \<noteq> rec_id r" using assms(2,3) by (metis imageI)
  with assms(1) show ?thesis by (cases ws) (auto simp: recovered_of_def)
qed

lemma recover_loop:
  "rv_journal s = [] \<Longrightarrow> rv_current s = replicate k None @ map Some rs \<Longrightarrow>
   rv_writes s = map into_discarded ws \<Longrightarrow> map frame_key ws = held_ids rs \<Longrightarrow> distinct (map rec_id rs) \<Longrightarrow>
   fold (recover_wire_index X []) [k..<k + length rs] s =
     s\<lparr>rv_current := replicate (k + length rs) None, rv_writes := [],
       rv_operations := rv_operations s @ map (recovered_of ws) (live_records rs),
       rv_ledger := fold (\<lambda>(r, h). ledger_release_operation X r h) (charges rs) (rv_ledger s)\<rparr>"
proof (induction rs arbitrary: k s ws)
  case Nil
  then show ?case by (cases s) (simp add: held_ids_def)
next
  case (Cons r rs)
  define ws' where "ws' = (if rec_write_held r then tl ws else ws)"
  define s' where "s' = s\<lparr>rv_current := replicate (Suc k) None @ map Some rs,
      rv_writes := map into_discarded ws',
      rv_operations := rv_operations s @ (if rec_phase r \<noteq> Terminal then [recovered_of ws r] else []),
      rv_ledger := ledger_release_operation X (rec_reservation r) (rec_write_held r) (rv_ledger s)\<rparr>"
  have fresh: "rec_id r \<notin> rec_id ` set rs" using Cons.prems(5) by simp
  have tf: "take_first (\<lambda>r. rec_id r \<notin> set []) (rv_current s) = (Some r, replicate (Suc k) None @ map Some rs)"
    using take_first_blank [of "\<lambda>r. rec_id r \<notin> set []" k r "map Some rs"] Cons.prems(2) by simp
  have "recover_wire_index X [] k s =
      recover_current_operation X r (s\<lparr>rv_current := replicate (Suc k) None @ map Some rs\<rparr>)"
    unfolding recover_wire_index_def recover_journal_at_empty [OF Cons.prems(1)] by (simp add: tf [simplified])
  also have "\<dots> = s'"
    using recover_current_step(1) [OF Cons.prems(4) fresh, of "s\<lparr>rv_current := replicate (Suc k) None @ map Some rs\<rparr>" X]
      Cons.prems(3) by (simp add: s'_def ws'_def)
  finally have first: "recover_wire_index X [] k s = s'" .
  have ids: "map frame_key ws' = held_ids rs"
    unfolding ws'_def by (rule recover_current_step(2) [OF Cons.prems(4) fresh Cons.prems(3)])
  have "map (recovered_of ws') (live_records rs) = map (recovered_of ws) (live_records rs)"
    using recovered_of_tail [OF Cons.prems(4) fresh] by (simp add: ws'_def)
  moreover have "[k..<k + length (r # rs)] = k # [Suc k..<Suc k + length rs]"
    using upt_rec [of k "k + length (r # rs)"] by simp
  moreover have "fold (recover_wire_index X []) [Suc k..<Suc k + length rs] s' =
     s'\<lparr>rv_current := replicate (Suc k + length rs) None, rv_writes := [],
       rv_operations := rv_operations s' @ map (recovered_of ws') (live_records rs),
       rv_ledger := fold (\<lambda>(r, h). ledger_release_operation X r h) (charges rs) (rv_ledger s')\<rparr>"
    using Cons.prems ids by (intro Cons.IH) (simp_all add: s'_def)
  ultimately show ?case by (simp add: first s'_def)
qed

text \<open>
  With nothing in the journal, recovery hands back exactly the operations that have no outcome yet,
  in wire order, each with its frame; nothing stays behind, and every reservation is released.
\<close>

theorem core_recover_exact:
  assumes X: "externals_ok X" and m: "machine_ok (core_machine c) P"
    and ids: "write_identities (core_writes c) = held_ids (pending (core_machine c))"
    and j: "core_journal c = journal_of mo mw [] [] None armed"
  shows "fst (core_recover X c) =
      \<lparr>cr_epoch = m_epoch (core_machine c),
       cr_operations = map (recovered_of (wq_frames (core_writes c))) (live_records (pending (core_machine c))),
       cr_unmatched_writes = [], cr_ownership_diverged = armed\<rparr>"
    "accounts (m_ledger (core_machine (snd (core_recover X c)))) P {#}"
    "pending (core_machine (snd (core_recover X c))) = []"
    "wq_frames (core_writes (snd (core_recover X c))) = []"
    "core_poisoned (snd (core_recover X c)) \<noteq> None"
proof -
  let ?m = "core_machine c" and ?rs = "pending (core_machine c)" and ?ws = "wq_frames (core_writes c)"
  define s0 where "s0 = \<lparr>rv_journal = [], rv_current = map Some ?rs, rv_writes = map into_discarded ?ws,
      rv_operations = [], rv_diverged = armed, rv_ledger = m_ledger ?m\<rparr>"
  define L where "L = fold (\<lambda>(r, h). ledger_release_operation X r h) (charges ?rs) (m_ledger ?m)"
  have core: "accounts (m_ledger ?m) P (mset (charges ?rs))" "distinct (map rec_id ?rs)"
    using m by (simp_all add: machine_ok_def machine_core_def)
  have keys: "map frame_key ?ws = held_ids ?rs" using ids by (simp add: write_identities_def)
  have len: "length ?rs \<le> USIZE_MAX" using machine_ok_accounts(3,5) [OF m] by simp
  then have n: "usize_saturating_add (length ?rs) 0 = length ?rs" by (simp add: usize_saturating_add_def)
  have loop: "fold (recover_wire_index X []) [0..<length ?rs] s0 =
      s0\<lparr>rv_current := replicate (length ?rs) None, rv_writes := [],
        rv_operations := map (recovered_of ?ws) (live_records ?rs), rv_ledger := L\<rparr>"
    using recover_loop [of s0 0 ?rs ?ws X] core(2) keys by (simp add: s0_def L_def)
  have wire: "recover_in_wire_order X [] s0 =
      s0\<lparr>rv_current := replicate (length ?rs) None, rv_writes := [],
        rv_operations := map (recovered_of ?ws) (live_records ?rs), rv_ledger := L\<rparr>"
    using loop n by (simp add: recover_in_wire_order_def Let_def s0_def map_replicate_const)
  have rel: "accounts L P {#}"
    using ledger.release_list [of X "m_ledger ?m" P "charges ?rs" "{#}"] X core(1) by (simp add: L_def)
  then have L: "\<not> led_poisoned L" by (simp add: accounts_def)
  have eq: "core_recover X c =
     (\<lparr>cr_epoch = m_epoch ?m, cr_operations = map (recovered_of ?ws) (live_records ?rs),
       cr_unmatched_writes = [], cr_ownership_diverged = armed\<rparr>,
      c\<lparr>core_machine := ?m\<lparr>m_matching := (m_matching ?m)\<lparr>ov_pending := []\<rparr>, m_ledger := L\<rparr>,
        core_writes := snd (discard_all X (core_writes c)), core_journal := journal_of mo mw [] [] None False,
        core_poisoned := (case core_poisoned c of None \<Rightarrow> Some Recovered | Some p \<Rightarrow> Some p)\<rparr>)"
    using wire [unfolded s0_def] L
    by (simp add: core_recover_def Let_def discard_all_def budget_clear_def j take_writes_of take_operations_of)
  show "fst (core_recover X c) =
      \<lparr>cr_epoch = m_epoch ?m, cr_operations = map (recovered_of ?ws) (live_records ?rs),
       cr_unmatched_writes = [], cr_ownership_diverged = armed\<rparr>"
    "accounts (m_ledger (core_machine (snd (core_recover X c)))) P {#}"
    "pending (core_machine (snd (core_recover X c))) = []"
    "wq_frames (core_writes (snd (core_recover X c))) = []"
    "core_poisoned (snd (core_recover X c)) \<noteq> None"
    using rel by (simp_all add: eq discard_all_def budget_clear_def split: option.split)
qed

lemma recovered_of_held:
  assumes ok: "core_ok X c P" and r: "r \<in> set (pending (core_machine c))"
  shows "ro_operation (recovered_of (wq_frames (core_writes c)) r) = rec_id r"
    "ro_delivery (recovered_of (wq_frames (core_writes c)) r) = rec_delivery r"
    "(ro_frame (recovered_of (wq_frames (core_writes c)) r) \<noteq> None) = rec_write_held r"
proof -
  let ?ws = "wq_frames (core_writes c)" and ?rs = "pending (core_machine c)"
  have held: "held_writes ?rs = map frame_write ?ws" by (rule core_ok_parts [OF ok])
  have dist: "distinct (map rec_id ?rs)"
    using core_ok_parts(2) [OF ok] by (simp add: machine_ok_def machine_core_def)
  show "ro_operation (recovered_of ?ws r) = rec_id r" by (simp add: recovered_of_def split: option.split)
  show "ro_delivery (recovered_of ?ws r) = rec_delivery r"
    "(ro_frame (recovered_of ?ws r) \<noteq> None) = rec_write_held r"
  proof (atomize (full), cases "find (\<lambda>w. frame_key w = (rec_id r, rec_effect r)) ?ws")
    case None
    then have none: "frame_key w \<noteq> (rec_id r, rec_effect r)" if "w \<in> set ?ws" for w
      using that by (auto simp: find_None_iff)
    have "\<not> rec_write_held r"
    proof
      assume "rec_write_held r"
      then have "held_write_of r \<in> set (map frame_write ?ws)"
        using r by (simp flip: held add: held_writes_def)
      then obtain w where "w \<in> set ?ws" "held_write_of r = frame_write w" by auto
      with none [of w] show False by (simp add: held_write_of_def frame_write_def)
    qed
    then show "ro_delivery (recovered_of ?ws r) = rec_delivery r \<and> (ro_frame (recovered_of ?ws r) \<noteq> None) = rec_write_held r"
      using None by (simp add: recovered_of_def)
  next
    case (Some w)
    then have w: "w \<in> set ?ws" "frame_key w = (rec_id r, rec_effect r)" by (auto simp: find_Some_iff)
    then have "frame_write w \<in> set (held_writes ?rs)" by (simp add: held)
    then obtain r' where r': "r' \<in> set ?rs" "rec_write_held r'" "held_write_of r' = frame_write w"
      by (auto simp: held_writes_def)
    then have "rec_id r' = rec_id r" using w(2) by (simp add: held_write_of_def frame_write_def)
    then have "r' = r" using dist r r'(1) by (metis distinct_map inj_onD)
    with r' Some show "ro_delivery (recovered_of ?ws r) = rec_delivery r \<and> (ro_frame (recovered_of ?ws r) \<noteq> None) = rec_write_held r"
      by (simp add: recovered_of_def weaken_def held_write_of_def frame_write_def)
  qed
qed

text \<open>The recovery of a healthy owner.\<close>

lemma healthy_recovers:
  assumes X: "externals_ok X" and ok: "core_ok X c P"
  shows "fst (core_recover X c) =
      \<lparr>cr_epoch = m_epoch (core_machine c),
       cr_operations = map (recovered_of (wq_frames (core_writes c))) (live_records (pending (core_machine c))),
       cr_unmatched_writes = [], cr_ownership_diverged = False\<rparr>"
    "map (\<lambda>ro. (ro_operation ro, ro_delivery ro, ro_frame ro \<noteq> None)) (cr_operations (fst (core_recover X c))) =
       map (\<lambda>r. (rec_id r, rec_delivery r, rec_write_held r)) (live_records (pending (core_machine c)))"
    "led_operations (m_ledger (core_machine (snd (core_recover X c)))) = size P"
    "core_poisoned (snd (core_recover X c)) \<noteq> None"
proof -
  have j: "core_journal c = journal_of (max_operations (core_limits c)) (max_write_frames (core_limits c)) [] [] None False"
    using core_ok_parts(8) [OF ok] by (simp add: journal_new_of)
  note rec = core_recover_exact [OF X core_ok_parts(2) [OF ok] joined_identities [OF core_ok_parts(1) [OF ok]] j]
  show "fst (core_recover X c) =
      \<lparr>cr_epoch = m_epoch (core_machine c),
       cr_operations = map (recovered_of (wq_frames (core_writes c))) (live_records (pending (core_machine c))),
       cr_unmatched_writes = [], cr_ownership_diverged = False\<rparr>" by (rule rec)
  moreover have "ro_operation (recovered_of (wq_frames (core_writes c)) r) = rec_id r \<and>
      ro_delivery (recovered_of (wq_frames (core_writes c)) r) = rec_delivery r \<and>
      (ro_frame (recovered_of (wq_frames (core_writes c)) r) \<noteq> None) = rec_write_held r"
    if "r \<in> set (live_records (pending (core_machine c)))" for r
    using recovered_of_held [OF ok, of r] that by simp
  ultimately show "map (\<lambda>ro. (ro_operation ro, ro_delivery ro, ro_frame ro \<noteq> None)) (cr_operations (fst (core_recover X c))) =
       map (\<lambda>r. (rec_id r, rec_delivery r, rec_write_held r)) (live_records (pending (core_machine c)))" by simp
  show "led_operations (m_ledger (core_machine (snd (core_recover X c)))) = size P"
    using rec(2) by (simp add: accounts_def holders_def)
  show "core_poisoned (snd (core_recover X c)) \<noteq> None" by (rule rec)
qed

end
