(* ===== verification/System.thy ===== *)
theory System
  imports Recovery
begin

text \<open>
  One owner together with its environment: the permits that callers still hold, and the history of
  what was accepted, published and put on the wire. The step relation interleaves every entry
  point of the owner in any order; the transport may report any progress within the bytes it was
  offered. The history fields are observations only, no operation reads them.
\<close>

section \<open>States and steps\<close>

record ('f, 'g, 'r) system =
  sys_core :: "('f, 'g) ConnectionCore"
  sys_permits :: "OperationPermit list"
  sys_accepted :: "OperationId list"
  sys_published :: "(OperationId \<times> Delivery option) list"
  sys_replies :: "(OperationId \<times> 'r) list"
  sys_sent :: "OperationId set"

definition reply_deliveries :: "'r ConnectionEffect list \<Rightarrow> (OperationId \<times> 'r) list" where
  "reply_deliveries es =
     concat (map (\<lambda>e. case e of PublishOutcome _ i (OutReply f) \<Rightarrow> [(i, f)] | _ \<Rightarrow> []) es)"

definition sys_start :: "('f, 'g) ConnectionCore \<Rightarrow> ('f, 'g, 'r) system" where
  "sys_start c = \<lparr>sys_core = c, sys_permits = [], sys_accepted = [], sys_published = [],
     sys_replies = [], sys_sent = {}\<rparr>"

definition sys_initial :: "'g externals \<Rightarrow> ('f, 'g, 'r) system \<Rightarrow> bool" where
  "sys_initial X s \<longleftrightarrow>
     (\<exists>ref endpoint lane connection epoch limits seeds. limits_ok limits \<and>
        s = sys_start (core_with_identity_seeds X ref endpoint lane connection epoch limits seeds))"

definition drop_permit ::
  "'g externals \<Rightarrow> OperationPermit \<Rightarrow> ('f, 'g) ConnectionCore \<Rightarrow> ('f, 'g) ConnectionCore" where
  "drop_permit X p c =
     c\<lparr>core_machine := (core_machine c)\<lparr>m_ledger := snd (permit_drop X p (m_ledger (core_machine c)))\<rparr>\<rparr>"

text \<open>The bytes of the front frame that the transport has not acknowledged.\<close>

definition offered :: "('f, 'g) ConnectionCore \<Rightarrow> nat" where
  "offered c = (case wq_frames (core_writes c) of [] \<Rightarrow> 0 | w # _ \<Rightarrow> remaining_bytes w)"

definition front_operations :: "('f, 'g) ConnectionCore \<Rightarrow> OperationId set" where
  "front_operations c = (case wq_frames (core_writes c) of [] \<Rightarrow> {} | w # _ \<Rightarrow> {qw_operation w})"

inductive sys_step :: "'g externals \<Rightarrow> ('f, 'g, 'r) system \<Rightarrow> ('f, 'g, 'r) system \<Rightarrow> bool" for X where
  reserve: "core_reserve X now options (sys_core s) = (Inr p, c') \<Longrightarrow>
    sys_step X s (s\<lparr>sys_core := c', sys_permits := sys_permits s @ [p]\<rparr>)"
| reserve_refused: "core_reserve X now options (sys_core s) = (Inl e, c') \<Longrightarrow>
    sys_step X s (s\<lparr>sys_core := c'\<rparr>)"
| drop: "sys_permits s = ps @ p # qs \<Longrightarrow>
    sys_step X s (s\<lparr>sys_core := drop_permit X p (sys_core s), sys_permits := ps @ qs\<rparr>)"
| commit: "sys_permits s = ps @ p # qs \<Longrightarrow> length (view frame) \<le> USIZE_MAX \<Longrightarrow>
    core_commit X view retained p frame (sys_core s) = (Inr (i, t), c') \<Longrightarrow>
    sys_step X s (s\<lparr>sys_core := c', sys_permits := ps @ qs, sys_accepted := sys_accepted s @ [i]\<rparr>)"
| commit_refused: "sys_permits s = ps @ p # qs \<Longrightarrow> length (view frame) \<le> USIZE_MAX \<Longrightarrow>
    core_commit X view retained p frame (sys_core s) = (Inl e, c') \<Longrightarrow>
    sys_step X s (s\<lparr>sys_core := c', sys_permits := ps @ ce_permit e # qs\<rparr>)"
| input: "core_apply X inp (sys_core s) = (Inr t, c') \<Longrightarrow>
    sys_step X s (s\<lparr>sys_core := c', sys_published := sys_published s @ publications (tr_effects t)\<rparr>)"
| reply: "core_apply_reply X r (sys_core s) = (Inr t, c') \<Longrightarrow>
    sys_step X s (s\<lparr>sys_core := c', sys_published := sys_published s @ publications (tr_effects t),
      sys_replies := sys_replies s @ reply_deliveries (tr_effects t)\<rparr>)"
| advance: "n \<le> offered (sys_core s) \<Longrightarrow>
    core_advance_write X epoch effect n (sys_core s) = (Inr t, c') \<Longrightarrow>
    sys_step X s (s\<lparr>sys_core := c', sys_published := sys_published s @ publications (tr_effects t),
      sys_sent := (if 0 < n then front_operations (sys_core s) else {}) \<union> sys_sent s\<rparr>)"
| advance_refused: "n \<le> offered (sys_core s) \<Longrightarrow>
    core_advance_write X epoch effect n (sys_core s) = (Inl e, c') \<Longrightarrow>
    sys_step X s (s\<lparr>sys_core := c'\<rparr>)"

inductive_cases sys_stepE: "sys_step X s s'"

section \<open>The system invariant\<close>

definition permits_ok :: "('f, 'g, 'r) system \<Rightarrow> bool" where
  "permits_ok s \<longleftrightarrow>
     (\<forall>p \<in> set (sys_permits s). permit_active p \<and>
        permit_ledger p = m_ledger_ref (core_machine (sys_core s)) \<and>
        permit_epoch p = m_epoch (core_machine (sys_core s)))"

definition fresh_ids :: "('f, 'g, 'r) system \<Rightarrow> bool" where
  "fresh_ids s \<longleftrightarrow>
     distinct (map permit_operation (sys_permits s) @ sys_accepted s) \<and>
     (\<forall>i \<in> permit_operation ` set (sys_permits s) \<union> set (sys_accepted s).
        below_next (gen_operation (m_identities (core_machine (sys_core s)))) i) \<and>
     distinct (map permit_effect (sys_permits s)) \<and>
     permit_effect ` set (sys_permits s) \<inter> rec_effect ` set (pending (core_machine (sys_core s))) = {} \<and>
     (\<forall>e \<in> permit_effect ` set (sys_permits s) \<union> rec_effect ` set (pending (core_machine (sys_core s))).
        below_next (gen_effect (m_identities (core_machine (sys_core s)))) e)"

text \<open>Every accepted operation has its outcome or is still waiting for it, never both.\<close>

definition outcomes_once :: "('f, 'g, 'r) system \<Rightarrow> bool" where
  "outcomes_once s \<longleftrightarrow>
     distinct (map fst (sys_published s)) \<and>
     set (sys_accepted s) =
       fst ` set (sys_published s) \<union> set (live_ids (pending (core_machine (sys_core s)))) \<and>
     fst ` set (sys_published s) \<inter> set (live_ids (pending (core_machine (sys_core s)))) = {} \<and>
     set (op_ids (pending (core_machine (sys_core s)))) \<subseteq> set (sys_accepted s)"

text \<open>Delivery certainty tells exactly whether a byte of the operation was accepted.\<close>

definition delivery_truth :: "('f, 'g, 'r) system \<Rightarrow> bool" where
  "delivery_truth s \<longleftrightarrow>
     (\<forall>(i, d) \<in> set (owned (pending (core_machine (sys_core s)))).
        d = PossiblySent \<longleftrightarrow> i \<in> sys_sent s) \<and>
     (\<forall>(i, od) \<in> set (sys_published s). \<forall>d. od = Some d \<longrightarrow> (d = PossiblySent \<longleftrightarrow> i \<in> sys_sent s)) \<and>
     sys_sent s \<subseteq> set (sys_accepted s)"

definition sys_inv :: "'g externals \<Rightarrow> ('f, 'g, 'r) system \<Rightarrow> bool" where
  "sys_inv X s \<longleftrightarrow>
     core_ok X (sys_core s) (mset (map permit_reservation (sys_permits s))) \<and>
     permits_ok s \<and> fresh_ids s \<and> outcomes_once s \<and> delivery_truth s"

lemma sys_inv_initial:
  assumes "externals_ok X" "sys_initial X s"
  shows "sys_inv X s"
proof -
  obtain ref endpoint lane connection epoch limits seeds where s: "limits_ok limits"
    "s = sys_start (core_with_identity_seeds X ref endpoint lane connection epoch limits seeds)"
    using assms(2) by (auto simp: sys_initial_def)
  have "pending (core_machine (sys_core s)) = []"
    by (simp add: s sys_start_def core_with_identity_seeds_def machine_with_identity_seeds_def matching_new_def)
  with core_ok_new [OF assms(1) s(1)] show ?thesis
    by (simp add: sys_inv_def permits_ok_def fresh_ids_def outcomes_once_def delivery_truth_def s(2))
      (simp add: sys_start_def)
qed

lemma sys_inv_parts:
  assumes "sys_inv X s"
  shows "core_ok X (sys_core s) (mset (map permit_reservation (sys_permits s)))"
    "permits_ok s" "fresh_ids s" "outcomes_once s" "delivery_truth s"
  using assms by (simp_all add: sys_inv_def)

subsection \<open>Steps that settle operations\<close>

text \<open>
  An input, a reply or write progress: \<open>ow\<close> is what the owner had recorded when it spoke, \<open>sent\<close> the
  operations on the wire by then.
\<close>

lemma sys_inv_settle:
  assumes inv: "sys_inv X s" and ok: "core_ok X c' (mset (map permit_reservation (sys_permits s)))"
    and settles: "settles ow (live_ids (pending (core_machine (sys_core s)))) es (core_machine c')"
    and same: "same_epoch (core_machine (sys_core s)) (core_machine c')"
    and effects: "keeps_effects (core_machine (sys_core s)) (core_machine c')"
    and ids: "map fst ow = op_ids (pending (core_machine (sys_core s)))"
    and truth: "\<forall>(i, d) \<in> set ow. d = PossiblySent \<longleftrightarrow> i \<in> sent"
    and sent: "sent = new \<union> sys_sent s"
      "new \<subseteq> set (op_ids (pending (core_machine (sys_core s))))"
      "\<forall>i \<in> new. i \<in> fst ` set (sys_published s) \<longrightarrow> i \<in> sys_sent s"
  shows "sys_inv X (s\<lparr>sys_core := c', sys_published := sys_published s @ publications es, sys_sent := sent\<rparr>)"
    (is "sys_inv X ?s")
proof -
  let ?m = "core_machine (sys_core s)" and ?m' = "core_machine c'"
  have rem: "removes fst ow (cancel_ids es) (owned (pending ?m'))"
    "removes id (live_ids (pending ?m)) (pub_ids es) (live_ids (pending ?m'))" "said es \<subseteq> set ow"
    using settles by (simp_all add: settles_def)
  have once: "distinct (map fst (sys_published s))"
    "set (sys_accepted s) = fst ` set (sys_published s) \<union> set (live_ids (pending ?m))"
    "fst ` set (sys_published s) \<inter> set (live_ids (pending ?m)) = {}"
    "set (op_ids (pending ?m)) \<subseteq> set (sys_accepted s)"
    using inv unfolding sys_inv_def outcomes_once_def by blast+
  have pubs: "fst ` set (publications es) = set (pub_ids es)" "distinct (pub_ids es)"
    "set (pub_ids es) \<subseteq> set (live_ids (pending ?m))"
    "set (live_ids (pending ?m')) = set (live_ids (pending ?m)) - set (pub_ids es)"
    using rem(2) by (auto simp: removes_def pub_ids_publications)
  have ops: "set (op_ids (pending ?m')) \<subseteq> set (op_ids (pending ?m))"
  proof -
    have "fst ` set (owned (pending ?m')) \<subseteq> fst ` set ow" using removes_subset [OF rem(1)] by blast
    then show ?thesis using ids by (metis fst_image_owned(1) list.set_map)
  qed
  have "outcomes_once ?s"
    using once pubs ops by (auto simp: outcomes_once_def simp flip: pub_ids_publications)
  moreover have "delivery_truth ?s"
  proof -
    have owner: "\<forall>(i, d) \<in> set (owned (pending ?m')). d = PossiblySent \<longleftrightarrow> i \<in> sent"
      using truth removes_subset [OF rem(1)] by blast
    have new: "d = PossiblySent \<longleftrightarrow> i \<in> sent" if "(i, Some d) \<in> set (publications es)" for i d
    proof -
      have "(i, d) \<in> set ow" using that rem(3) by (auto simp: said_def)
      with truth show ?thesis by blast
    qed
    have old: "d = PossiblySent \<longleftrightarrow> i \<in> sent" if "(i, Some d) \<in> set (sys_published s)" for i d
    proof -
      have "d = PossiblySent \<longleftrightarrow> i \<in> sys_sent s"
        using sys_inv_parts(5) [OF inv] that unfolding delivery_truth_def by blast
      moreover have "i \<in> fst ` set (sys_published s)" using that by force
      ultimately show ?thesis using sent(1,3) by auto
    qed
    have "sent \<subseteq> set (sys_accepted s)"
      using sys_inv_parts(5) [OF inv] sent(1,2) once(4) unfolding delivery_truth_def by blast
    moreover have "\<forall>(i, od) \<in> set (sys_published ?s). \<forall>d. od = Some d \<longrightarrow> (d = PossiblySent \<longleftrightarrow> i \<in> sent)"
    proof (intro ballI, clarify)
      fix i d assume "(i, Some d) \<in> set (sys_published ?s)"
      then have "(i, Some d) \<in> set (sys_published s) \<or> (i, Some d) \<in> set (publications es)" by simp
      then show "(d = PossiblySent) = (i \<in> sent)" using old new by blast
    qed
    ultimately show ?thesis using owner by (simp add: delivery_truth_def)
  qed
  moreover have "fresh_ids ?s"
  proof -
    have f: "permit_effect ` set (sys_permits s) \<inter> rec_effect ` set (pending ?m) = {}"
      "\<forall>e \<in> permit_effect ` set (sys_permits s) \<union> rec_effect ` set (pending ?m).
         below_next (gen_effect (m_identities ?m)) e"
      using sys_inv_parts(3) [OF inv] by (simp_all add: fresh_ids_def)
    have sub: "rec_effect ` set (pending ?m') \<subseteq> rec_effect ` set (pending ?m)"
      using effects by (simp add: keeps_effects_def)
    have "permit_effect ` set (sys_permits s) \<inter> rec_effect ` set (pending ?m') = {}"
      using f(1) Int_mono [OF subset_refl sub] by (metis subset_empty)
    moreover have "\<forall>e \<in> permit_effect ` set (sys_permits s) \<union> rec_effect ` set (pending ?m').
         below_next (gen_effect (m_identities ?m)) e"
      using f(2) Un_mono [OF subset_refl sub] by (meson subsetD)
    ultimately show ?thesis
      using sys_inv_parts(3) [OF inv] same by (simp add: fresh_ids_def same_epoch_def)
  qed
  moreover have "permits_ok ?s" using sys_inv_parts(2) [OF inv] same by (simp add: permits_ok_def same_epoch_def)
  ultimately show ?thesis using ok by (simp add: sys_inv_def)
qed

lemma settles_idle:
  "owned (pending m') = ow \<Longrightarrow> live_ids (pending m') = lv \<Longrightarrow> settles ow lv (tr_effects (transition_new d)) m'"
  by (simp add: settles_def)

lemma published_pending_sent:
  assumes "sys_inv X s" "i \<in> fst ` set (sys_published s)"
    "i \<in> set (op_ids (pending (core_machine (sys_core s))))"
  shows "i \<in> sys_sent s"
proof -
  let ?rs = "pending (core_machine (sys_core s))"
  obtain r where r: "r \<in> set ?rs" "rec_id r = i" using assms(3) by (auto simp: op_ids_def)
  have "i \<notin> set (live_ids ?rs)"
    using assms(1,2) unfolding sys_inv_def outcomes_once_def by blast
  then have "rec_phase r = Terminal" using r by (auto simp: live_ids_def)
  moreover have "record_ok r"
    using assms(1) r(1) core_ok_parts(2) [of X "sys_core s"] unfolding sys_inv_def machine_ok_def machine_core_def
    by blast
  ultimately have "rec_delivery r = PossiblySent" by (simp add: record_ok_def)
  moreover have "(i, rec_delivery r) \<in> set (owned ?rs)" using r by (auto simp: owned_def)
  ultimately show ?thesis using assms(1) by (fastforce simp: sys_inv_def delivery_truth_def)
qed

lemma sys_inv_quiet:
  assumes inv: "sys_inv X s" and ok: "core_ok X c' (mset (map permit_reservation (sys_permits s)))"
    and settles: "settles (owned (pending (core_machine (sys_core s))))
        (live_ids (pending (core_machine (sys_core s)))) es (core_machine c')"
    and same: "same_epoch (core_machine (sys_core s)) (core_machine c')"
      "keeps_effects (core_machine (sys_core s)) (core_machine c')"
  shows "sys_inv X (s\<lparr>sys_core := c', sys_published := sys_published s @ publications es\<rparr>)"
proof -
  have "\<forall>(i, d) \<in> set (owned (pending (core_machine (sys_core s)))). d = PossiblySent \<longleftrightarrow> i \<in> sys_sent s"
    using sys_inv_parts(5) [OF inv] by (simp add: delivery_truth_def)
  from sys_inv_settle [OF inv ok settles same _ this, of "{}"] show ?thesis by simp
qed

lemma replies_frame [frame_simps]:
  "permits_ok (s\<lparr>sys_replies := rs\<rparr>) = permits_ok s" "fresh_ids (s\<lparr>sys_replies := rs\<rparr>) = fresh_ids s"
  "outcomes_once (s\<lparr>sys_replies := rs\<rparr>) = outcomes_once s"
  "delivery_truth (s\<lparr>sys_replies := rs\<rparr>) = delivery_truth s"
  by (simp_all add: permits_ok_def fresh_ids_def outcomes_once_def delivery_truth_def)

lemma sys_inv_replies: "sys_inv X s \<Longrightarrow> sys_inv X (s\<lparr>sys_replies := rs\<rparr>)"
  by (simp add: sys_inv_def frame_simps)

lemma sys_inv_input:
  assumes X: "externals_ok X" and inv: "sys_inv X s" and res: "core_apply X inp (sys_core s) = (Inr t, c')"
  shows "sys_inv X (s\<lparr>sys_core := c', sys_published := sys_published s @ publications (tr_effects t)\<rparr>)"
proof -
  let ?m = "core_machine (sys_core s)"
  note ok = sys_inv_parts(1) [OF inv]
  have "good_step ?m (mset (map permit_reservation (sys_permits s))) (machine_apply X inp ?m)"
    by (rule good_apply [OF X core_ok_parts(2) [OF ok]])
  then have con: "contract ?m (tr_effects (fst (machine_apply X inp ?m))) (snd (machine_apply X inp ?m))"
    by (simp add: good_step_def)
  obtain q where q: "core_apply X inp (sys_core s) =
      (Inr ((fst (machine_apply X inp ?m))\<lparr>tr_effects := visible (tr_effects (fst (machine_apply X inp ?m)))\<rparr>),
       (sys_core s)\<lparr>core_machine := snd (machine_apply X inp ?m), core_writes := q\<rparr>)"
    "core_ok X ((sys_core s)\<lparr>core_machine := snd (machine_apply X inp ?m), core_writes := q\<rparr>)
       (mset (map permit_reservation (sys_permits s)))"
    by (rule core_apply_exact [OF X ok])
  then show ?thesis
    using res contract_settles [OF con] by (intro sys_inv_quiet [OF inv]) auto
qed

lemma sys_inv_reply:
  assumes X: "externals_ok X" and inv: "sys_inv X s" and res: "core_apply_reply X r (sys_core s) = (Inr t, c')"
  shows "sys_inv X (s\<lparr>sys_core := c', sys_published := sys_published s @ publications (tr_effects t)\<rparr>)"
proof -
  let ?m = "core_machine (sys_core s)"
  note ok = sys_inv_parts(1) [OF inv]
  have "good_step ?m (mset (map permit_reservation (sys_permits s))) (machine_apply_reply X r ?m)"
    by (rule good_apply_reply [OF X core_ok_parts(2) [OF ok]])
  then have con: "contract ?m (tr_effects (fst (machine_apply_reply X r ?m))) (snd (machine_apply_reply X r ?m))"
    by (simp add: good_step_def)
  obtain q where q: "core_apply_reply X r (sys_core s) =
      (Inr ((fst (machine_apply_reply X r ?m))\<lparr>tr_effects := visible (tr_effects (fst (machine_apply_reply X r ?m)))\<rparr>),
       (sys_core s)\<lparr>core_machine := snd (machine_apply_reply X r ?m), core_writes := q\<rparr>)"
    "core_ok X ((sys_core s)\<lparr>core_machine := snd (machine_apply_reply X r ?m), core_writes := q\<rparr>)
       (mset (map permit_reservation (sys_permits s)))"
    by (rule core_apply_reply_exact [OF X ok])
  then show ?thesis
    using res contract_settles [OF con] by (intro sys_inv_quiet [OF inv]) auto
qed

subsection \<open>Write progress\<close>

text \<open>Progress within the offered bytes is either refused without a trace or advances both owners.\<close>

lemma core_advance_total:
  assumes X: "externals_ok X" and ok: "core_ok X c P" and n: "n \<le> offered c"
  shows "(\<exists>e. core_advance_write X epoch effect n c = (Inl (CoreWrite e), c)) \<or>
    (\<exists>w ws t c'. wq_frames (core_writes c) = w # ws \<and>
       core_advance_write X epoch effect n c = (Inr t, c') \<and> core_ok X c' P \<and>
       settles (mark_sent (qw_operation w) n (owned (pending (core_machine c))))
         (live_ids (pending (core_machine c))) (tr_effects t) (core_machine c') \<and>
       same_epoch (core_machine c) (core_machine c') \<and> keeps_effects (core_machine c) (core_machine c'))"
proof -
  consider (stale) "epoch \<noteq> m_epoch (core_machine c)"
    | (empty) "epoch = m_epoch (core_machine c)" "wq_frames (core_writes c) = []"
    | (order) w ws where "epoch = m_epoch (core_machine c)" "wq_frames (core_writes c) = w # ws" "qw_effect w \<noteq> effect"
    | (front) w ws where "epoch = m_epoch (core_machine c)" "wq_frames (core_writes c) = w # ws" "qw_effect w = effect"
    by (metis list.exhaust)
  then show ?thesis
  proof cases
    case stale
    then show ?thesis using core_advance_refused(1) [OF X ok] by blast
  next
    case empty
    then show ?thesis using core_advance_refused(2) [OF X ok] by blast
  next
    case order
    then show ?thesis using core_advance_refused(3) [OF X ok] by blast
  next
    case front
    have "n < remaining_bytes w \<or> n = remaining_bytes w" using n front(2) by (auto simp: offered_def)
    then show ?thesis
    proof
      assume "n < remaining_bytes w"
      from core_advance_pending [OF X ok front(2) this] show ?thesis
        using front by (metis settles_idle)
    next
      assume "n = remaining_bytes w"
      from core_advance_complete [OF X ok front(2) this] show ?thesis
        using front by metis
    qed
  qed
qed

lemma mark_sent_ids: "map fst (mark_sent i n ow) = map fst ow"
  by (simp add: mark_sent_def case_prod_unfold comp_def)

lemma sys_inv_advance:
  assumes X: "externals_ok X" and inv: "sys_inv X s" and n: "n \<le> offered (sys_core s)"
    and res: "core_advance_write X epoch effect n (sys_core s) = (Inr t, c')"
  shows "sys_inv X (s\<lparr>sys_core := c', sys_published := sys_published s @ publications (tr_effects t),
      sys_sent := (if 0 < n then front_operations (sys_core s) else {}) \<union> sys_sent s\<rparr>)"
proof -
  let ?m = "core_machine (sys_core s)"
  note ok = sys_inv_parts(1) [OF inv]
  obtain w ws where w: "wq_frames (core_writes (sys_core s)) = w # ws"
    "core_ok X c' (mset (map permit_reservation (sys_permits s)))"
    "settles (mark_sent (qw_operation w) n (owned (pending ?m))) (live_ids (pending ?m)) (tr_effects t) (core_machine c')"
    "same_epoch ?m (core_machine c')" "keeps_effects ?m (core_machine c')"
    using core_advance_total [OF X ok n, of epoch effect] res by auto
  define new where "new = (if 0 < n then {qw_operation w} else {})"
  have "held_ids (pending ?m) = frame_key w # map frame_key ws"
    using joined_identities [OF core_ok_parts(1) [OF ok]] w(1) by (simp add: write_identities_def)
  then have "frame_key w \<in> set (held_ids (pending ?m))" by simp
  then have "qw_operation w \<in> set (op_ids (pending ?m))" using held_ids_subset by blast
  then have sub: "new \<subseteq> set (op_ids (pending ?m))" by (simp add: new_def)
  moreover have "\<forall>(i, d) \<in> set (mark_sent (qw_operation w) n (owned (pending ?m))).
      d = PossiblySent \<longleftrightarrow> i \<in> new \<union> sys_sent s"
    using sys_inv_parts(5) [OF inv] by (auto simp: delivery_truth_def mark_sent_def new_def split: if_splits)
  moreover have "\<forall>i \<in> new. i \<in> fst ` set (sys_published s) \<longrightarrow> i \<in> sys_sent s"
    using published_pending_sent [OF inv] sub by blast
  moreover have "map fst (mark_sent (qw_operation w) n (owned (pending ?m))) = op_ids (pending ?m)"
    by (simp add: mark_sent_ids)
  ultimately have "sys_inv X (s\<lparr>sys_core := c', sys_published := sys_published s @ publications (tr_effects t),
      sys_sent := new \<union> sys_sent s\<rparr>)"
    using sys_inv_settle [OF inv w(2-5)] by blast
  moreover have "new = (if 0 < n then front_operations (sys_core s) else {})"
    by (simp add: new_def front_operations_def w(1))
  ultimately show ?thesis by simp
qed

subsection \<open>Permits\<close>

lemma sys_inv_reserve:
  assumes X: "externals_ok X" and inv: "sys_inv X s"
    and res: "core_reserve X now options (sys_core s) = (Inr p, c')"
  shows "sys_inv X (s\<lparr>sys_core := c', sys_permits := sys_permits s @ [p]\<rparr>)"
proof -
  let ?s = "s\<lparr>sys_core := c', sys_permits := sys_permits s @ [p]\<rparr>"
  let ?g = "m_identities (core_machine (sys_core s))"
  note ok = sys_inv_parts(1) [OF inv]
  note r = core_reserve_ok [OF X ok res]
  obtain g where g: "identity_take ?g = (Some (permit_operation p, permit_effect p), g)"
    using r(6,7) by (simp add: identity_take_def)
  note take = identity_take_Some [OF g]
  have g': "m_identities (core_machine c') = g" using r(8) g by simp
  have fresh: "fresh_ids s" by (rule sys_inv_parts(3) [OF inv])
  then have "\<forall>i \<in> permit_operation ` set (sys_permits s) \<union> set (sys_accepted s). i < permit_operation p"
    "\<forall>e \<in> permit_effect ` set (sys_permits s) \<union> rec_effect ` set (pending (core_machine (sys_core s))). e < permit_effect p"
    by (simp_all add: fresh_ids_def take(1,2) below_next_def)
  then have old: "permit_operation p \<notin> permit_operation ` set (sys_permits s) \<union> set (sys_accepted s)"
    "permit_effect p \<notin> permit_effect ` set (sys_permits s) \<union> rec_effect ` set (pending (core_machine (sys_core s)))"
    by blast+
  have "fresh_ids ?s"
    using fresh old below_next_mono below_next_checked_inc
    by (auto simp: fresh_ids_def r(2) g' take)
  moreover have "permits_ok ?s" using sys_inv_parts(2) [OF inv] r(3-5,9,10) by (auto simp: permits_ok_def)
  moreover have "outcomes_once ?s = outcomes_once s" "delivery_truth ?s = delivery_truth s"
    using r(2) by (simp_all add: outcomes_once_def delivery_truth_def)
  ultimately show ?thesis using r(1) sys_inv_parts(4,5) [OF inv] by (simp add: sys_inv_def)
qed

lemma core_ok_rotate:
  assumes "sys_inv X s" "sys_permits s = ps @ p # qs"
  shows "core_ok X (sys_core s) (add_mset (permit_reservation p) (mset (map permit_reservation (ps @ qs))))"
  using sys_inv_parts(1) [OF assms(1)] assms(2) by simp

lemma fewer_permits:
  assumes inv: "sys_inv X s" and ps: "sys_permits s = ps @ p # qs"
  shows "permits_ok (s\<lparr>sys_permits := ps @ qs\<rparr>)" "fresh_ids (s\<lparr>sys_permits := ps @ qs\<rparr>)"
  using sys_inv_parts(2,3) [OF inv] ps by (auto simp: permits_ok_def fresh_ids_def)

lemma sys_inv_drop:
  assumes X: "externals_ok X" and inv: "sys_inv X s" and ps: "sys_permits s = ps @ p # qs"
  shows "sys_inv X (s\<lparr>sys_core := drop_permit X p (sys_core s), sys_permits := ps @ qs\<rparr>)"
proof -
  let ?c = "drop_permit X p (sys_core s)"
  let ?s = "s\<lparr>sys_core := ?c, sys_permits := ps @ qs\<rparr>"
  note ok = core_ok_parts [OF core_ok_rotate [OF inv ps]]
  have act: "permit_active p" using sys_inv_parts(2) [OF inv] ps by (simp add: permits_ok_def)
  have m: "machine_ok (core_machine ?c) (mset (map permit_reservation (ps @ qs)))"
    using permit_drop_accounts(1) [OF X _ act] ok(2)
    by (simp add: drop_permit_def machine_ok_def machine_core_alt lifecycle_ok_def)
  have lim: "core_limits ?c = core_limits (sys_core s)"
    by (simp add: drop_permit_def permit_drop_def act)
  have "core_ok X ?c (mset (map permit_reservation (ps @ qs)))"
    using ok m lim by (simp add: core_ok_def core_joined_def) (simp add: drop_permit_def)
  moreover have "permits_ok ?s" "fresh_ids ?s"
    using fewer_permits [OF inv ps] by (simp_all add: permits_ok_def fresh_ids_def drop_permit_def)
  moreover have "outcomes_once ?s = outcomes_once s" "delivery_truth ?s = delivery_truth s"
    by (simp_all add: outcomes_once_def delivery_truth_def drop_permit_def)
  ultimately show ?thesis using sys_inv_parts(4,5) [OF inv] by (simp add: sys_inv_def)
qed

text \<open>A held permit is fresh for both owners, so its commit is refused by policy or not at all.\<close>

lemma permit_fresh:
  assumes inv: "sys_inv X s" and ps: "sys_permits s = ps @ p # qs"
  shows "permit_operation p \<notin> rec_id ` set (pending (core_machine (sys_core s)))"
    "permit_effect p \<notin> rec_effect ` set (pending (core_machine (sys_core s)))"
proof -
  have "permit_operation p \<notin> set (sys_accepted s)"
    "permit_effect p \<notin> rec_effect ` set (pending (core_machine (sys_core s)))"
    using sys_inv_parts(3) [OF inv] ps by (auto simp: fresh_ids_def)
  moreover have "set (op_ids (pending (core_machine (sys_core s)))) \<subseteq> set (sys_accepted s)"
    using sys_inv_parts(4) [OF inv] unfolding outcomes_once_def by blast
  ultimately show "permit_operation p \<notin> rec_id ` set (pending (core_machine (sys_core s)))"
    "permit_effect p \<notin> rec_effect ` set (pending (core_machine (sys_core s)))" by (auto simp: op_ids_def)
qed

lemma core_commit_total:
  assumes X: "externals_ok X" and inv: "sys_inv X s" and ps: "sys_permits s = ps @ p # qs"
    and wire: "length (view frame) \<le> USIZE_MAX"
  shows "(\<exists>kind. commit_failure p (retained frame) (core_machine (sys_core s)) = Some kind \<and>
      core_commit X view retained p frame (sys_core s) =
        (Inl \<lparr>ce_failure = Policy kind, ce_permit = p, ce_frame = frame\<rparr>, sys_core s)) \<or>
    (\<exists>t c'. core_commit X view retained p frame (sys_core s) = (Inr (permit_operation p, t), c') \<and>
      core_ok X c' (mset (map permit_reservation (ps @ qs))) \<and>
      pending (core_machine c') =
        pending (core_machine (sys_core s)) @ [committed_record p (retained frame)] \<and>
      same_epoch (core_machine (sys_core s)) (core_machine c'))"
proof (cases "commit_failure p (retained frame) (core_machine (sys_core s))")
  case (Some kind)
  with core_commit_refused [OF X sys_inv_parts(1) [OF inv]] show ?thesis by blast
next
  case None
  show ?thesis
    by (rule core_commit_accepted [where retained = retained and frame = frame and view = view,
          OF X core_ok_rotate [OF inv ps] None permit_fresh [OF inv ps] wire]) blast
qed

lemma sys_inv_commit:
  assumes X: "externals_ok X" and inv: "sys_inv X s" and ps: "sys_permits s = ps @ p # qs"
    and wire: "length (view frame) \<le> USIZE_MAX"
    and res: "core_commit X view retained p frame (sys_core s) = (Inr (i, t), c')"
  shows "sys_inv X (s\<lparr>sys_core := c', sys_permits := ps @ qs, sys_accepted := sys_accepted s @ [i]\<rparr>)"
proof -
  let ?m = "core_machine (sys_core s)" and ?m' = "core_machine c'"
  let ?s = "s\<lparr>sys_core := c', sys_permits := ps @ qs, sys_accepted := sys_accepted s @ [i]\<rparr>"
  have c': "i = permit_operation p" "core_ok X c' (mset (map permit_reservation (ps @ qs)))"
    "pending ?m' = pending ?m @ [committed_record p (retained frame)]" "same_epoch ?m ?m'"
    using core_commit_total [where retained = retained and view = view and frame = frame, OF X inv ps wire] res
    by auto
  let ?r = "committed_record p (retained frame)"
  have r: "op_ids (pending ?m') = op_ids (pending ?m) @ [i]" "live_ids (pending ?m') = live_ids (pending ?m) @ [i]"
    "owned (pending ?m') = owned (pending ?m) @ [(i, NotSent)]"
    "rec_effect ` set (pending ?m') = insert (permit_effect p) (rec_effect ` set (pending ?m))"
    using c'(1,3) by (simp_all add: committed_record_def)
  have new: "i \<notin> set (sys_accepted s)"
    using sys_inv_parts(3) [OF inv] ps c'(1) by (auto simp: fresh_ids_def)
  have once: "set (sys_accepted s) = fst ` set (sys_published s) \<union> set (live_ids (pending ?m))"
    using sys_inv_parts(4) [OF inv] unfolding outcomes_once_def by blast
  have "outcomes_once ?s"
    using sys_inv_parts(4) [OF inv] new by (auto simp: outcomes_once_def r)
  moreover have "delivery_truth ?s"
    using sys_inv_parts(5) [OF inv] new by (auto simp: delivery_truth_def r)
  moreover have "fresh_ids ?s" "permits_ok ?s"
    using sys_inv_parts(2,3) [OF inv] ps c'(1,4)
    by (auto simp: fresh_ids_def permits_ok_def r same_epoch_def)
  ultimately show ?thesis using c'(2) by (simp add: sys_inv_def)
qed

theorem sys_inv_step:
  assumes X: "externals_ok X" and inv: "sys_inv X s" and step: "sys_step X s s'"
  shows "sys_inv X s'"
  using step
proof cases
  case (reserve now options p c')
  with sys_inv_reserve [OF X inv] show ?thesis by blast
next
  case (reserve_refused now options e c')
  then have "c' = sys_core s" using core_reserve_refused(1) [OF X sys_inv_parts(1) [OF inv]] by blast
  with reserve_refused inv show ?thesis by simp
next
  case (drop ps p qs)
  with sys_inv_drop [OF X inv] show ?thesis by blast
next
  case (commit ps p qs view frame retained i t c')
  with sys_inv_commit [OF X inv] show ?thesis by blast
next
  case (commit_refused ps p qs view frame retained e c')
  then have "c' = sys_core s" "ce_permit e = p"
    using core_commit_total [where retained = retained and view = view and frame = frame, OF X inv commit_refused(2,3)]
    by auto
  then have "s' = s\<lparr>sys_core := sys_core s, sys_permits := sys_permits s\<rparr>"
    using commit_refused(1,2) by simp
  then show ?thesis using inv by simp
next
  case (input inp t c')
  with sys_inv_input [OF X inv] show ?thesis by blast
next
  case (reply r t c')
  with sys_inv_replies [OF sys_inv_reply [OF X inv reply(2)]] show ?thesis by simp
next
  case (advance n epoch effect t c')
  with sys_inv_advance [OF X inv] show ?thesis by blast
next
  case (advance_refused n epoch effect e c')
  then have "c' = sys_core s"
    using core_advance_total [OF X sys_inv_parts(1) [OF inv] advance_refused(2), of epoch effect] by auto
  with advance_refused inv show ?thesis by simp
qed

section \<open>Reachable states\<close>

text \<open>What an inductive invariant of a transition system gives for every run of it.\<close>

locale invariant_system =
  fixes initial :: "'s \<Rightarrow> bool" and step :: "'s \<Rightarrow> 's \<Rightarrow> bool" and inv :: "'s \<Rightarrow> bool"
  assumes initial_inv: "initial s \<Longrightarrow> inv s"
    and step_inv: "inv s \<Longrightarrow> step s s' \<Longrightarrow> inv s'"
begin

lemma run_inv: "step\<^sup>*\<^sup>* s s' \<Longrightarrow> inv s \<Longrightarrow> inv s'"
  by (induction rule: rtranclp_induct) (auto intro: step_inv)

lemma reached_inv: "initial s0 \<Longrightarrow> step\<^sup>*\<^sup>* s0 s \<Longrightarrow> inv s"
  using run_inv initial_inv by blast

end

definition sys_reachable :: "'g externals \<Rightarrow> ('f, 'g, 'r) system \<Rightarrow> bool" where
  "sys_reachable X s \<longleftrightarrow> (\<exists>s0. sys_initial X s0 \<and> (sys_step X)\<^sup>*\<^sup>* s0 s)"

interpretation owner: invariant_system "\<lambda>s. externals_ok X \<and> sys_initial X s" "sys_step X"
  "\<lambda>s. externals_ok X \<and> sys_inv X s" for X :: "'g externals"
  by unfold_locales (auto intro: sys_inv_initial sys_inv_step)

lemma sys_reachable_inv: "externals_ok X \<Longrightarrow> sys_reachable X s \<Longrightarrow> sys_inv X s"
  using owner.reached_inv [of X] unfolding sys_reachable_def by blast

lemma sys_reachable_step: "sys_reachable X s \<Longrightarrow> sys_step X s s' \<Longrightarrow> sys_reachable X s'"
  unfolding sys_reachable_def by (meson rtranclp.rtrancl_into_rtrancl)

end
