(* ===== verification/Scenario.thy ===== *)
theory Scenario
  imports System
begin

text \<open>
  A small run of one owner, used to instantiate the properties: two operations at most, three-byte
  frames, four match keys, and a byte budget that counts. Every state is written out and every step
  between two states is evaluated from the definitions.
\<close>

abbreviation CX :: "(nat \<times> nat) externals" where
  "CX \<equiv> counting_externals"

type_synonym demo_core = "(byte list, nat \<times> nat) ConnectionCore"
type_synonym demo_system = "(byte list, nat \<times> nat, nat) system"

section \<open>The states\<close>

definition demo_limits :: ConnectionLimits where
  "demo_limits = \<lparr>max_operations = 2, max_retained_bytes = 64, max_write_frames = 2,
     max_write_retained_bytes = 64, match_keys = \<lparr>ks_first = 1, ks_last = 4\<rparr>\<rparr>"

definition demo_options :: OperationOptions where
  "demo_options = \<lparr>opt_deadline = 100, opt_class = Regular, opt_retained_bytes = 8,
     opt_write_retained_bytes = 8, opt_completion_mode = ReplyExpected\<rparr>"

definition demo_frame :: "byte list" where
  "demo_frame = [10, 20, 30]"

definition demo_permit :: OperationPermit where
  "demo_permit = \<lparr>permit_ledger = 7, permit_epoch = 5, permit_operation = 0, permit_effect = 0,
     permit_deadline = 100, permit_class = Regular, permit_completion = ReplyExpected,
     permit_reservation = \<lparr>res_retained_bytes = 8, res_write_retained_bytes = 8, res_match_key = 1\<rparr>,
     permit_active = True\<rparr>"

definition demo_record :: "OperationPhase \<Rightarrow> Delivery \<Rightarrow> bool \<Rightarrow> OperationRecord" where
  "demo_record phase delivery held = \<lparr>rec_id = 0, rec_effect = 0, rec_deadline = 100,
     rec_reservation = \<lparr>res_retained_bytes = 8, res_write_retained_bytes = 3, res_match_key = 1\<rparr>,
     rec_phase = phase, rec_completion = ReplyExpected, rec_delivery = delivery, rec_write_held = held\<rparr>"

definition demo_write :: "nat \<Rightarrow> byte list QueuedWrite" where
  "demo_write written = \<lparr>qw_operation = 0, qw_effect = 0, qw_frame = demo_frame,
     qw_measure = \<lparr>wire_bytes = 3, measure_retained_bytes = 3\<rparr>, qw_written = written,
     qw_started = (0 < written)\<rparr>"

text \<open>An empty ledger, one with a granted permit, and one with an accepted operation.\<close>

definition demo_ledger :: "nat \<Rightarrow> nat \<Rightarrow> nat \<Rightarrow> nat \<Rightarrow> nat \<Rightarrow> bool \<Rightarrow> MatchKey \<Rightarrow> ReservationLedger" where
  "demo_ledger operations permits retained frames bytes key next_key =
     \<lparr>led_limits = demo_limits, led_operations = operations, led_permits = permits,
      led_retained_bytes = retained, led_write_frames = frames, led_write_retained_bytes = bytes,
      led_active_keys = \<lparr>slots = [None, if key then Some 1 else None, None, None], set_len = of_bool key\<rparr>,
      led_next_key = next_key, led_poisoned = False\<rparr>"

definition demo_owner ::
  "AdmissionGate \<Rightarrow> u64 \<Rightarrow> ReservationLedger \<Rightarrow> OperationRecord list \<Rightarrow> 'f QueuedWrite list \<Rightarrow>
   ('f, nat \<times> nat) ConnectionCore" where
  "demo_owner gate fresh ledger records frames =
     \<lparr>core_machine = \<lparr>m_endpoint = 1, m_lane = 2, m_connection = 3, m_epoch = 5, m_phase = Live,
        m_gate = gate, m_close_reason = None,
        m_identities = \<lparr>gen_operation = Some fresh, gen_effect = Some fresh\<rparr>, m_ledger_ref = 7,
        m_ledger = ledger,
        m_matching = \<lparr>ov_key_space = \<lparr>ks_first = 1, ks_last = 4\<rparr>, ov_capacity = 2, ov_pending = records\<rparr>\<rparr>,
      core_writes = \<lparr>wq_epoch = 5, wq_limits = \<lparr>max_frames = 2, queue_max_retained_bytes = 64\<rparr>,
        wq_frames = frames, wq_budget = (3 * length frames, 64)\<rparr>,
      core_journal = journal_new 2 2, core_poisoned = None\<rparr>"

definition core_start :: demo_core where
  "core_start = demo_owner SessionOnly 0 (demo_ledger 0 0 0 0 0 False 1) [] []"

definition core_open :: demo_core where
  "core_open = demo_owner Open 0 (demo_ledger 0 0 0 0 0 False 1) [] []"

definition core_reserved :: demo_core where
  "core_reserved = demo_owner Open 1 (demo_ledger 1 1 8 1 8 True 2) [] []"

definition core_committed :: demo_core where
  "core_committed = demo_owner Open 1 (demo_ledger 1 0 8 1 3 True 2)
     [demo_record Queued NotSent True] [demo_write 0]"

definition core_writing :: demo_core where
  "core_writing = demo_owner Open 1 (demo_ledger 1 0 8 1 3 True 2)
     [demo_record Writing PossiblySent True] [demo_write 2]"

definition core_written :: demo_core where
  "core_written = demo_owner Open 1 (demo_ledger 1 0 8 0 0 True 2)
     [demo_record AwaitingReply PossiblySent False] []"

definition core_idle :: demo_core where
  "core_idle = demo_owner Open 1 (demo_ledger 0 0 0 0 0 False 2) [] []"

definition core_closing :: demo_core where
  "core_closing = core_idle\<lparr>core_machine := (core_machine core_idle)\<lparr>m_phase := Closing,
     m_gate := GateClosed, m_close_reason := Some Requested\<rparr>\<rparr>"

definition core_draining :: demo_core where
  "core_draining = core_writing\<lparr>core_machine := (core_machine core_writing)\<lparr>m_gate := Draining\<rparr>\<rparr>"

lemmas demo_defs = demo_limits_def demo_options_def demo_frame_def demo_permit_def demo_record_def
  demo_write_def demo_ledger_def demo_owner_def core_start_def core_open_def core_reserved_def
  core_committed_def core_writing_def core_written_def core_idle_def core_closing_def core_draining_def

section \<open>The steps\<close>

lemma demo_limits_ok: "limits_ok demo_limits"
  by code_simp

lemma demo_start_core: "core_with_identity_seeds CX 7 1 2 3 5 demo_limits IdentitySeeds_ZERO = core_start"
  by code_simp

lemma demo_open_step: "core_apply CX (OpenAdmission 5) core_start = (Inr (transition_new Applied), core_open)"
  by code_simp

lemma demo_reserve_step: "core_reserve CX 0 demo_options core_open = (Inr demo_permit, core_reserved)"
  by code_simp

lemma demo_commit_step:
  "core_commit CX id length demo_permit demo_frame core_reserved =
     (Inr (0, transition_push (ScheduleDeadline 5 0 100) (transition_new Applied)), core_committed)"
  by code_simp

lemma demo_writing_step: "core_advance_write CX 5 0 2 core_committed = (Inr (transition_new Applied), core_writing)"
  by code_simp

lemma demo_written_step: "core_advance_write CX 5 0 1 core_writing = (Inr (transition_new Applied), core_written)"
  by code_simp

definition demo_reply :: "nat InboundReply" where
  "demo_reply = \<lparr>reply_epoch = 5, reply_key = 1, reply_frame = 99\<rparr>"

lemma demo_reply_step:
  "core_apply_reply CX demo_reply core_written =
     (Inr \<lparr>tr_disposition = Applied, tr_cancel_outcome = None,
           tr_effects = [CancelDeadline 5 0, PublishOutcome 5 0 (OutReply 99)]\<rparr>, core_idle)"
  by code_simp

lemma demo_cancel_step:
  "core_apply CX (Cancel 5 0) core_committed =
     (Inr \<lparr>tr_disposition = Applied, tr_cancel_outcome = Some CancelledNotSent,
           tr_effects = [CancelDeadline 5 0, PublishOutcome 5 0 (OutCancelled NotSent)]\<rparr>, core_idle)"
  by code_simp

lemma demo_close_step:
  "core_apply CX (CloseRequested 5 Requested) core_writing =
     (Inr \<lparr>tr_disposition = Applied, tr_cancel_outcome = None,
           tr_effects = [CloseEpoch 5 Requested, CancelDeadline 5 0,
             PublishOutcome 5 0 (OutFailed (ConnectionClosed Requested) PossiblySent)]\<rparr>, core_closing)"
  by code_simp

lemma demo_drain_step:
  "core_apply CX (BeginDrain 5) core_writing = (Inr (transition_new Applied), core_draining)"
  by code_simp

section \<open>The run is a run of the system\<close>

definition demo_state ::
  "demo_core \<Rightarrow> OperationPermit list \<Rightarrow> OperationId list \<Rightarrow> (OperationId \<times> Delivery option) list \<Rightarrow>
   (OperationId \<times> nat) list \<Rightarrow> OperationId set \<Rightarrow> demo_system" where
  "demo_state c ps accepted published replies sent =
     \<lparr>sys_core = c, sys_permits = ps, sys_accepted = accepted, sys_published = published,
      sys_replies = replies, sys_sent = sent\<rparr>"

abbreviation "demo_open \<equiv> demo_state core_open [] [] [] [] {}"
abbreviation "demo_reserved \<equiv> demo_state core_reserved [demo_permit] [] [] [] {}"
abbreviation "demo_committed \<equiv> demo_state core_committed [] [0] [] [] {}"
abbreviation "demo_writing \<equiv> demo_state core_writing [] [0] [] [] {0}"
abbreviation "demo_written \<equiv> demo_state core_written [] [0] [] [] {0}"
abbreviation "demo_replied \<equiv> demo_state core_idle [] [0] [(0, None)] [(0, 99)] {0}"
abbreviation "demo_cancelled \<equiv> demo_state core_idle [] [0] [(0, Some NotSent)] [] {}"
abbreviation "demo_closing \<equiv> demo_state core_closing [] [0] [(0, Some PossiblySent)] [] {0}"
abbreviation "demo_draining \<equiv> demo_state core_draining [] [0] [] [] {0}"

lemma demo_state_core [simp]: "sys_core (demo_state c ps a p r t) = c"
  by (simp add: demo_state_def)

lemma demo_start_reachable: "sys_reachable CX (demo_state core_start [] [] [] [] {})"
proof -
  have "sys_initial CX (sys_start (core_with_identity_seeds CX 7 1 2 3 5 demo_limits IdentitySeeds_ZERO))"
    unfolding sys_initial_def using demo_limits_ok by blast
  then show ?thesis
    unfolding sys_reachable_def by (auto simp: demo_start_core sys_start_def demo_state_def)
qed

lemma demo_input:
  assumes "sys_reachable CX (demo_state c ps a p r t)" "core_apply CX inp c = (Inr tr, c')"
  shows "sys_reachable CX (demo_state c' ps a (p @ publications (tr_effects tr)) r t)"
  using sys_reachable_step [OF assms(1) sys_step.input, of inp tr c'] assms(2) by (simp add: demo_state_def)

lemma demo_open_reachable: "sys_reachable CX demo_open"
  using demo_input [OF demo_start_reachable demo_open_step] by simp

lemma demo_reserved_reachable: "sys_reachable CX demo_reserved"
  using sys_reachable_step [OF demo_open_reachable sys_step.reserve, of 0 demo_options] demo_reserve_step
  by (simp add: demo_state_def)

lemma demo_committed_reachable: "sys_reachable CX demo_committed"
proof -
  have "length (id demo_frame) \<le> USIZE_MAX" by (simp add: demo_frame_def USIZE_MAX_def)
  then show ?thesis
    using sys_reachable_step [OF demo_reserved_reachable sys_step.commit, of "[]" demo_permit "[]" id demo_frame length]
      demo_commit_step by (simp add: demo_state_def)
qed

lemma demo_offers: "2 \<le> offered core_committed" "1 \<le> offered core_writing"
  by (simp_all add: offered_def demo_defs remaining_bytes_def)

lemma demo_fronts: "front_operations core_committed = {0}" "front_operations core_writing = {0}"
  by (simp_all add: front_operations_def demo_defs)

lemma demo_writing_reachable: "sys_reachable CX demo_writing"
  using sys_reachable_step [OF demo_committed_reachable sys_step.advance, of 2 5 0] demo_writing_step
    demo_offers demo_fronts by (simp add: demo_state_def)

lemma demo_written_reachable: "sys_reachable CX demo_written"
  using sys_reachable_step [OF demo_writing_reachable sys_step.advance, of 1 5 0] demo_written_step
    demo_offers demo_fronts by (simp add: demo_state_def)

lemma demo_replied_reachable: "sys_reachable CX demo_replied"
  using sys_reachable_step [OF demo_written_reachable sys_step.reply, of demo_reply] demo_reply_step
  by (simp add: demo_state_def reply_deliveries_def)

lemma demo_cancelled_reachable: "sys_reachable CX demo_cancelled"
  using demo_input [OF demo_committed_reachable demo_cancel_step] by simp

lemma demo_closing_reachable: "sys_reachable CX demo_closing"
  using demo_input [OF demo_writing_reachable demo_close_step] by simp

lemma demo_draining_reachable: "sys_reachable CX demo_draining"
  using demo_input [OF demo_writing_reachable demo_drain_step] by simp

lemmas demo_reachable = demo_start_reachable demo_open_reachable demo_reserved_reachable
  demo_committed_reachable demo_writing_reachable demo_written_reachable demo_replied_reachable
  demo_cancelled_reachable demo_closing_reachable demo_draining_reachable

lemma demo_core_ok: "sys_reachable CX (demo_state c ps a p r t) \<Longrightarrow> core_ok CX c (mset (map permit_reservation ps))"
  using sys_inv_parts(1) [OF sys_reachable_inv [OF counting_externals_ok]] by (fastforce simp: demo_state_def)

end
