(* ===== verification/Framing.thy ===== *)
theory Framing
  imports Vocabulary
begin

text \<open>
  \<^verbatim>\<open>framing/\<close>: retained-byte enforcement around a protocol-owned incremental decoder. The decoder is
  a trait implemented outside the repository: its three methods are a record of functions on an
  opaque state \<open>'d\<close>, emitting frames \<open>'r\<close> and errors \<open>'e\<close>.
\<close>

section \<open>The driver\<close>

record ('d, 'r, 'e) FrameDecoder =
  dec_feed :: "byte list \<Rightarrow> 'd \<Rightarrow> ('e + unit) \<times> 'd"
  dec_next_frame :: "'d \<Rightarrow> ('e + 'r option) \<times> 'd"
  dec_retained_bytes :: "'d \<Rightarrow> RetainedBytes"

datatype 'e FrameDecodeError =
    DecoderFailed
  | DecodeRetainedByteCapacity (cap_retained: RetainedBytes) (cap_incoming: usize)
      (cap_limit: RetainedBytes)
  | InputSizeOverflow
  | DecoderError 'e
  | RetainedContractViolation (viol_retained: RetainedBytes) (viol_limit: RetainedBytes)

record 'd FrameDriver =
  fd_decoder :: 'd
  fd_max_retained_bytes :: RetainedBytes
  fd_failed :: bool

definition frame_driver_new ::
  "('d, 'r, 'e) FrameDecoder \<Rightarrow> 'd \<Rightarrow> RetainedBytes \<Rightarrow> 'e FrameDecodeError + 'd FrameDriver" where
  "frame_driver_new D decoder max_retained =
     (let retained = dec_retained_bytes D decoder in
      if retained > max_retained then Inl (RetainedContractViolation retained max_retained)
      else Inr \<lparr>fd_decoder = decoder, fd_max_retained_bytes = max_retained, fd_failed = False\<rparr>)"

definition validate_retained ::
  "('d, 'r, 'e) FrameDecoder \<Rightarrow> 'd FrameDriver \<Rightarrow> ('e FrameDecodeError + unit) \<times> 'd FrameDriver" where
  "validate_retained D fd =
     (let retained = dec_retained_bytes D (fd_decoder fd) in
      if retained > fd_max_retained_bytes fd
      then (Inl (RetainedContractViolation retained (fd_max_retained_bytes fd)),
            fd\<lparr>fd_failed := True\<rparr>)
      else (Inr (), fd))"

definition frame_driver_feed ::
  "'g externals \<Rightarrow> ('d, 'r, 'e) FrameDecoder \<Rightarrow> byte list \<Rightarrow> 'd FrameDriver \<Rightarrow>
   ('e FrameDecodeError + unit) \<times> 'd FrameDriver" where
  "frame_driver_feed X D bytes fd =
     (if fd_failed fd then (Inl DecoderFailed, fd)
      else (case rb_try_from X (length bytes) of
        None \<Rightarrow> (Inl InputSizeOverflow, fd)
      | Some incoming \<Rightarrow>
          (let retained = dec_retained_bytes D (fd_decoder fd);
               refused = (Inl (DecodeRetainedByteCapacity retained (length bytes)
                                 (fd_max_retained_bytes fd)), fd)
           in case rb_checked_add X retained incoming of
                None \<Rightarrow> refused
              | Some accepted \<Rightarrow>
                  if accepted > fd_max_retained_bytes fd then refused
                  else
                    (case dec_feed D bytes (fd_decoder fd) of
                       (Inl e, d) \<Rightarrow>
                         (Inl (DecoderError e), fd\<lparr>fd_decoder := d, fd_failed := True\<rparr>)
                     | (Inr _, d) \<Rightarrow> validate_retained D (fd\<lparr>fd_decoder := d\<rparr>)))))"

definition frame_driver_next_frame ::
  "('d, 'r, 'e) FrameDecoder \<Rightarrow> 'd FrameDriver \<Rightarrow>
   ('e FrameDecodeError + 'r option) \<times> 'd FrameDriver" where
  "frame_driver_next_frame D fd =
     (if fd_failed fd then (Inl DecoderFailed, fd)
      else (case dec_next_frame D (fd_decoder fd) of
        (Inl e, d) \<Rightarrow> (Inl (DecoderError e), fd\<lparr>fd_decoder := d, fd_failed := True\<rparr>)
      | (Inr frame, d) \<Rightarrow>
          (case validate_retained D (fd\<lparr>fd_decoder := d\<rparr>) of
             (Inl e, fd') \<Rightarrow> (Inl e, fd')
           | (Inr _, fd') \<Rightarrow> (Inr frame, fd'))))"

section \<open>The retained-byte bound\<close>

definition driver_inv :: "('d, 'r, 'e) FrameDecoder \<Rightarrow> 'd FrameDriver \<Rightarrow> bool" where
  "driver_inv D fd \<longleftrightarrow>
     fd_failed fd \<or> dec_retained_bytes D (fd_decoder fd) \<le> fd_max_retained_bytes fd"

lemma driver_inv_new: "frame_driver_new D d n = Inr fd \<Longrightarrow> driver_inv D fd \<and> \<not> fd_failed fd"
  by (auto simp: frame_driver_new_def driver_inv_def Let_def split: if_splits)

lemma driver_inv_feed:
  "driver_inv D fd \<Longrightarrow> driver_inv D (snd (frame_driver_feed X D bytes fd))"
  by (auto simp: frame_driver_feed_def validate_retained_def driver_inv_def Let_def
      split: option.split prod.split sum.split)

lemma driver_inv_next_frame: "driver_inv D fd \<Longrightarrow> driver_inv D (snd (frame_driver_next_frame D fd))"
  by (auto simp: frame_driver_next_frame_def validate_retained_def driver_inv_def Let_def
      split: prod.split sum.split)

text \<open>
  A sequence of driver calls. The first adapter or accounting failure is terminal: from then on
  the decoder is never entered again.
\<close>

datatype driver_call = Feed "byte list" | NextFrame

definition driver_step ::
  "'g externals \<Rightarrow> ('d, 'r, 'e) FrameDecoder \<Rightarrow> driver_call \<Rightarrow> 'd FrameDriver \<Rightarrow> 'd FrameDriver" where
  "driver_step X D c fd =
     (case c of Feed bytes \<Rightarrow> snd (frame_driver_feed X D bytes fd)
              | NextFrame \<Rightarrow> snd (frame_driver_next_frame D fd))"

lemma driver_step_failed: "fd_failed fd \<Longrightarrow> driver_step X D c fd = fd"
  by (cases c) (simp_all add: driver_step_def frame_driver_feed_def frame_driver_next_frame_def)

lemma driver_step_inv: "driver_inv D fd \<Longrightarrow> driver_inv D (driver_step X D c fd)"
  by (cases c) (simp_all add: driver_step_def driver_inv_feed driver_inv_next_frame)

lemma driver_step_limit: "fd_max_retained_bytes (driver_step X D c fd) = fd_max_retained_bytes fd"
  by (cases c) (auto simp: driver_step_def frame_driver_feed_def frame_driver_next_frame_def
      validate_retained_def Let_def split: option.split prod.split sum.split)

text \<open>
  A chunk that would exceed the limit stays with the caller: the decoder never sees it. If the decoder
  keeps no more than it is fed, the limit holds throughout, also in a failed driver.
\<close>

definition honest_decoder :: "('d, 'r, 'e) FrameDecoder \<Rightarrow> bool" where
  "honest_decoder D \<longleftrightarrow>
     (\<forall>bytes d. dec_retained_bytes D (snd (dec_feed D bytes d)) \<le> dec_retained_bytes D d + length bytes) \<and>
     (\<forall>d. dec_retained_bytes D (snd (dec_next_frame D d)) \<le> dec_retained_bytes D d)"

text \<open>The conversion of a length, when it succeeds, keeps the number.\<close>

definition exact_conversion :: "'g externals \<Rightarrow> bool" where
  "exact_conversion X \<longleftrightarrow> (\<forall>n v. rb_try_from X n = Some v \<longrightarrow> v = n)"

lemma conversion_cases: "exact_conversion X \<Longrightarrow> rb_try_from X n = None \<or> rb_try_from X n = Some n"
  by (cases "rb_try_from X n") (auto simp: exact_conversion_def)

lemma feed_refused:
  assumes "externals_ok X" "exact_conversion X" "\<not> fd_failed fd"
    "fd_max_retained_bytes fd < dec_retained_bytes D (fd_decoder fd) + length bytes"
  shows "frame_driver_feed X D bytes fd =
    (Inl (if rb_try_from X (length bytes) = None then InputSizeOverflow
          else DecodeRetainedByteCapacity (dec_retained_bytes D (fd_decoder fd)) (length bytes) (fd_max_retained_bytes fd)), fd)"
  using assms(1,3,4) conversion_cases [OF assms(2), of "length bytes"]
  by (auto simp: frame_driver_feed_def rb_checked_add_ok Let_def)

lemma feed_admitted:
  assumes "externals_ok X" "exact_conversion X" "honest_decoder D"
    and kept: "dec_retained_bytes D (fd_decoder fd) \<le> fd_max_retained_bytes fd"
  shows "dec_retained_bytes D (fd_decoder (snd (frame_driver_feed X D bytes fd))) \<le> fd_max_retained_bytes fd"
    "fst (frame_driver_feed X D bytes fd) \<noteq> Inl (RetainedContractViolation r l)"
proof -
  obtain result d where d: "dec_feed D bytes (fd_decoder fd) = (result, d)" by fastforce
  have le: "dec_retained_bytes D d \<le> dec_retained_bytes D (fd_decoder fd) + length bytes"
    using assms(3) d unfolding honest_decoder_def by (metis snd_conv)
  show "dec_retained_bytes D (fd_decoder (snd (frame_driver_feed X D bytes fd))) \<le> fd_max_retained_bytes fd"
    "fst (frame_driver_feed X D bytes fd) \<noteq> Inl (RetainedContractViolation r l)"
    using kept le assms(1) conversion_cases [OF assms(2), of "length bytes"]
    by (auto simp: frame_driver_feed_def rb_checked_add_ok d validate_retained_def Let_def split: sum.splits if_splits)
qed

lemma next_frame_keeps:
  assumes "honest_decoder D" and kept: "dec_retained_bytes D (fd_decoder fd) \<le> fd_max_retained_bytes fd"
  shows "dec_retained_bytes D (fd_decoder (snd (frame_driver_next_frame D fd))) \<le> fd_max_retained_bytes fd"
proof -
  obtain result d where d: "dec_next_frame D (fd_decoder fd) = (result, d)" by fastforce
  have "dec_retained_bytes D d \<le> dec_retained_bytes D (fd_decoder fd)"
    using assms(1) d unfolding honest_decoder_def by (metis snd_conv)
  then show ?thesis
    using kept by (auto simp: frame_driver_next_frame_def d validate_retained_def Let_def split: sum.split)
qed

lemma driver_run_honest:
  assumes "externals_ok X" "exact_conversion X" "honest_decoder D"
    "dec_retained_bytes D (fd_decoder fd) \<le> fd_max_retained_bytes fd"
  shows "dec_retained_bytes D (fd_decoder (fold (driver_step X D) cs fd)) \<le> fd_max_retained_bytes fd"
  using assms(4)
proof (induction cs arbitrary: fd)
  case (Cons c cs)
  have "dec_retained_bytes D (fd_decoder (driver_step X D c fd)) \<le> fd_max_retained_bytes (driver_step X D c fd)"
    using feed_admitted(1) [OF assms(1-3) Cons.prems] next_frame_keeps [OF assms(3) Cons.prems]
    by (cases c) (simp_all only: driver_step_limit, simp_all add: driver_step_def)
  from Cons.IH [OF this] show ?case by (simp add: driver_step_limit)
qed simp

text \<open>Running any calls from a fresh driver keeps the bound, or the driver has failed.\<close>

lemma driver_run_inv: "driver_inv D fd \<Longrightarrow> driver_inv D (fold (driver_step X D) cs fd)"
  by (induction cs arbitrary: fd) (simp_all add: driver_step_inv)

lemma driver_run_failed: "fd_failed fd \<Longrightarrow> fold (driver_step X D) cs fd = fd"
  by (induction cs) (simp_all add: driver_step_failed)

lemma driver_run_limit:
  "fd_max_retained_bytes (fold (driver_step X D) cs fd) = fd_max_retained_bytes fd"
  by (induction cs arbitrary: fd) (simp_all add: driver_step_limit)

end
