(* ===== verification/Components.thy ===== *)
theory Components
  imports Journal Framing
begin

text \<open>
  What each part of the core promises on its own, over whole sequences of calls: the key table is a
  set, identities never repeat, a dropped permit leaves no trace in the ledger, the writer emits
  the byte stream of its frames, the journal gives back what it was given, and a decoder driver
  keeps its byte bound.
\<close>

section \<open>The key table is a bounded set\<close>

datatype key_request = InsertKey MatchKey | RemoveKey MatchKey | ContainsKey MatchKey

fun key_call :: "key_request \<Rightarrow> ActiveKeySet \<Rightarrow> bool \<times> ActiveKeySet" where
  "key_call (InsertKey k) s = key_set_insert k s"
| "key_call (RemoveKey k) s = key_set_remove k s"
| "key_call (ContainsKey k) s = (key_set_contains k s, s)"

fun set_call :: "key_request \<Rightarrow> MatchKey set \<Rightarrow> bool \<times> MatchKey set" where
  "set_call (InsertKey k) S = (k \<notin> S, insert k S)"
| "set_call (RemoveKey k) S = (k \<in> S, S - {k})"
| "set_call (ContainsKey k) S = (k \<in> S, S)"

fun run_calls :: "('c \<Rightarrow> 's \<Rightarrow> 'a \<times> 's) \<Rightarrow> 'c list \<Rightarrow> 's \<Rightarrow> 'a list \<times> 's" where
  "run_calls f [] s = ([], s)"
| "run_calls f (c # cs) s = (case f c s of (a, s1) \<Rightarrow> case run_calls f cs s1 of (as, s2) \<Rightarrow> (a # as, s2))"

text \<open>The set never outgrows \<open>n\<close> keys on the way.\<close>

fun within :: "nat \<Rightarrow> key_request list \<Rightarrow> MatchKey set \<Rightarrow> bool" where
  "within n [] S \<longleftrightarrow> card S \<le> n"
| "within n (c # cs) S \<longleftrightarrow> card S \<le> n \<and> within n cs (snd (set_call c S))"

lemma within_card: "within n cs S \<Longrightarrow> card S \<le> n"
  by (cases cs) auto

lemma key_call_refines:
  assumes inv: "key_set_inv s" and room: "card (snd (set_call c (key_set_keys s))) \<le> key_set_room s"
  obtains s' where "key_call c s = (fst (set_call c (key_set_keys s)), s')" "key_set_inv s'"
    "key_set_keys s' = snd (set_call c (key_set_keys s))" "key_set_room s' = key_set_room s"
proof (cases c)
  case (InsertKey k)
  show ?thesis
  proof (cases "k \<in> key_set_keys s")
    case True
    with InsertKey inv show ?thesis
      by (intro that [of s]) (simp_all add: active.insert_present insert_absorb)
  next
    case False
    then have "set_len s < key_set_room s"
      using room InsertKey active.len_card [OF inv] active.finite_keys [OF inv] by simp
    from active.insertE [OF inv False this] obtain s' where "key_set_insert k s = (True, s')" "key_set_inv s'"
      "key_set_keys s' = insert k (key_set_keys s)" "key_set_room s' = key_set_room s" by blast
    with InsertKey False show ?thesis by (intro that [of s']) simp_all
  qed
next
  case (RemoveKey k)
  show ?thesis
  proof (cases "k \<in> key_set_keys s")
    case True
    from active.removeE [OF inv True] obtain s' where "key_set_remove k s = (True, s')" "key_set_inv s'"
      "key_set_keys s' = key_set_keys s - {k}" "key_set_room s' = key_set_room s" by blast
    with RemoveKey True show ?thesis by (intro that [of s']) simp_all
  next
    case False
    with RemoveKey inv show ?thesis by (intro that [of s]) (simp_all add: active.remove_absent)
  qed
next
  case (ContainsKey k)
  with inv that [of s] show ?thesis by (simp add: active.contains_iff)
qed

lemma key_calls_refine:
  "key_set_inv s \<Longrightarrow> n \<le> key_set_room s \<Longrightarrow> within n cs (key_set_keys s) \<Longrightarrow>
   fst (run_calls key_call cs s) = fst (run_calls set_call cs (key_set_keys s)) \<and>
   key_set_keys (snd (run_calls key_call cs s)) = snd (run_calls set_call cs (key_set_keys s))"
proof (induction cs arbitrary: s)
  case (Cons c cs)
  have "card (snd (set_call c (key_set_keys s))) \<le> key_set_room s"
    using Cons.prems within_card [of n cs "snd (set_call c (key_set_keys s))"] by simp
  then obtain s' where "key_call c s = (fst (set_call c (key_set_keys s)), s')" "key_set_inv s'"
    "key_set_keys s' = snd (set_call c (key_set_keys s))" "key_set_room s' = key_set_room s"
    by (rule key_call_refines [OF Cons.prems(1)])
  with Cons.IH [of s'] Cons.prems show ?case by (auto simp: case_prod_unfold)
qed simp

text \<open>
  C36. The open-addressing table implements a set. On a new table for \<open>n\<close> keys, every sequence of
  insertions, removals and queries that never needs more than \<open>n\<close> keys gives exactly the answers
  of a mathematical set, across collisions and the re-insertions that a removal makes.
\<close>

theorem key_table_refines_set:
  assumes "0 < n" "4 * n \<le> USIZE_MAX" "within n cs {}"
  shows "fst (run_calls key_call cs (key_set_new n)) = fst (run_calls set_call cs {}) \<and>
    key_set_keys (snd (run_calls key_call cs (key_set_new n))) = snd (run_calls set_call cs {})"
  using key_calls_refine [OF key_set_new_inv(1,3) [OF assms(1,2)], of cs] assms(3)
    key_set_new_inv(2) [OF assms(1,2)] by simp

theorem key_table_refines_set_witness:
  "fst (run_calls key_call [InsertKey 3, InsertKey 3, RemoveKey 3, ContainsKey 3] (key_set_new 1)) =
     [True, False, True, False]"
  using key_table_refines_set [of 1 "[InsertKey 3, InsertKey 3, RemoveKey 3, ContainsKey 3]"]
  by (simp add: USIZE_MAX_def)

text \<open>
  Removing a stored key ends: the loop that re-inserts the rest of the probe cluster stops, and
  every re-insertion on the way succeeds.
\<close>

theorem removal_loop_terminates:
  assumes "key_set_inv s" "key_set_find k s = Some i"
  defines "s1 \<equiv> s\<lparr>slots := (slots s)[i := None], set_len := usize_dec (set_len s)\<rparr>"
  shows "\<exists>s2 cursor. while_option reinsert_continues reinsert_step
      (s1, next_index (length (slots s1)) i, True) = Some (s2, cursor, True)"
proof -
  have "k \<in> key_set_keys s"
    using assms(1,2) active.contains_iff [of s k] by (simp add: key_set_contains_def)
  then obtain i' where i': "key_set_find k s = Some i'" "i' < length (slots s)" "slots s ! i' = Some k"
    using key_set_find_present [OF assms(1)] by blast
  then have i: "i < length (slots s)" "slots s ! i = Some k" using assms(2) by auto
  obtain e where cl: "cluster_inv (slots s1) i e 1" using cluster_init [OF assms(1) i] by (auto simp: s1_def)
  from assms(1) have N: "0 < length (slots s)" "length (slots s) \<le> USIZE_MAX" and nd: "no_dup (slots s)"
    and len: "set_len s = card (stored (slots s))" by (auto simp: key_set_inv_def)
  have st: "stored (slots s1) = stored (slots s) - {k}"
    using stored_update_None [OF nd i] by (simp add: s1_def)
  have kin: "k \<in> stored (slots s)" using \<open>k \<in> key_set_keys s\<close> by (simp add: key_set_keys_def)
  then have "0 < card (stored (slots s))" using card_gt_0_iff by fastforce
  moreover have "card (stored (slots s)) \<le> USIZE_MAX" using card_stored_le [of "slots s"] N by linarith
  ultimately have "set_len s1 = card (stored (slots s1))"
    using len kin st by (simp add: s1_def usize_dec_exact)
  from reinsert_loop [OF cl this] N show ?thesis
    using next_index_mod [of "length (slots s)" i 0] i(1) by (auto simp: s1_def)
qed

theorem removal_loop_terminates_witness:
  "\<exists>s2 cursor. while_option reinsert_continues reinsert_step
     (\<lparr>slots = [None, None], set_len = 0\<rparr>, 0, True) = Some (s2, cursor, True)"
proof -
  let ?s = "\<lparr>slots = [None, Some 1], set_len = 1\<rparr>"
  have "snd (key_set_insert 1 (key_set_new 1)) = ?s" "key_set_find 1 ?s = Some 1" by code_simp+
  moreover have "key_set_inv (snd (key_set_insert 1 (key_set_new 1)))"
  proof -
    have new: "key_set_inv (key_set_new 1)" "1 \<notin> key_set_keys (key_set_new 1)"
      "set_len (key_set_new 1) < key_set_room (key_set_new 1)"
      using key_set_new_inv [of 1] by (simp_all add: USIZE_MAX_def)
    show ?thesis by (rule active.insertE [OF new]) simp
  qed
  ultimately have "key_set_inv ?s" "key_set_find 1 ?s = Some 1" by metis+
  from removal_loop_terminates [OF this] show ?thesis
    by (simp add: next_index_def usize_dec_def)
qed

section \<open>Identities\<close>

fun take_identities :: "nat \<Rightarrow> IdentityGenerator \<Rightarrow> (OperationId \<times> EffectId) list" where
  "take_identities 0 g = []"
| "take_identities (Suc n) g =
     (case identity_take g of (None, g') \<Rightarrow> take_identities n g'
      | (Some ids, g') \<Rightarrow> ids # take_identities n g')"

definition from_next :: "u64 option \<Rightarrow> u64 \<Rightarrow> bool" where
  "from_next nx i \<longleftrightarrow> (case nx of None \<Rightarrow> False | Some n \<Rightarrow> n \<le> i)"

lemma from_next_inc: "from_next (u64_checked_inc n) i \<Longrightarrow> n < i"
  using u64_checked_inc_Some_unat [of n]
  by (force simp: from_next_def word_less_nat_alt word_le_nat_alt split: option.splits)

lemma take_identities_from:
  "(i, e) \<in> set (take_identities n g) \<Longrightarrow> from_next (gen_operation g) i \<and> from_next (gen_effect g) e"
proof (induction n arbitrary: g)
  case (Suc n)
  show ?case
  proof (cases "gen_operation g = None \<or> gen_effect g = None")
    case True
    then have "identity_take g = (None, g)" by (auto simp: identity_take_def split: option.split)
    with Suc show ?thesis by simp
  next
    case False
    then obtain a b where ab: "gen_operation g = Some a" "gen_effect g = Some b" by auto
    then have "(i, e) = (a, b) \<or> (i, e) \<in> set (take_identities n
        (g\<lparr>gen_operation := u64_checked_inc a, gen_effect := u64_checked_inc b\<rparr>))"
      using Suc.prems by (simp add: identity_take_def)
    with Suc.IH [of "g\<lparr>gen_operation := u64_checked_inc a, gen_effect := u64_checked_inc b\<rparr>"]
    show ?thesis using ab from_next_inc [of a i] from_next_inc [of b e] by (auto simp: from_next_def)
  qed
qed simp

text \<open>
  Identities never repeat and never wrap: however often a generator is asked, the operation and
  effect identities it hands out increase strictly, and at the end of the 64-bit range it reports
  exhaustion instead of starting over.
\<close>

theorem identities_increase:
  "sorted_wrt (<) (map fst (take_identities n g)) \<and> sorted_wrt (<) (map snd (take_identities n g))"
proof (induction n arbitrary: g)
  case (Suc n)
  show ?case
  proof (cases "gen_operation g = None \<or> gen_effect g = None")
    case True
    then have "identity_take g = (None, g)" by (auto simp: identity_take_def split: option.split)
    with Suc show ?thesis by simp
  next
    case False
    then obtain a b where ab: "gen_operation g = Some a" "gen_effect g = Some b" by auto
    let ?g = "g\<lparr>gen_operation := u64_checked_inc a, gen_effect := u64_checked_inc b\<rparr>"
    have "\<forall>(i, e) \<in> set (take_identities n ?g). a < i \<and> b < e"
      using take_identities_from [of _ _ n ?g] from_next_inc by fastforce
    with Suc.IH [of ?g] ab show ?thesis by (auto simp: identity_take_def)
  qed
qed simp

section \<open>The ledger forgets a dropped permit\<close>

lemma accounts_unique:
  assumes "accounts L P A" "accounts L' P A"
  shows "led_operations L' = led_operations L" "led_permits L' = led_permits L"
    "led_retained_bytes L' = led_retained_bytes L" "led_write_frames L' = led_write_frames L"
    "led_write_retained_bytes L' = led_write_retained_bytes L"
    "key_set_keys (led_active_keys L') = key_set_keys (led_active_keys L)"
  using assms account_keys [OF assms(1)] account_keys [OF assms(2)] by (simp_all add: accounts_def)

text \<open>
  Reserving and dropping the permit is a round trip: every counter of the ledger and the set of
  match keys in use are as before, and the ledger is not poisoned. Only the cursor of the next key
  to try may have moved.
\<close>

theorem reserve_drop_roundtrip:
  assumes "externals_ok X" "accounts L P A" "ledger_reserve X retained write_retained L = (Inr r, L')"
  shows "let L'' = ledger_rollback_permit X r L' in
    led_operations L'' = led_operations L \<and> led_permits L'' = led_permits L \<and>
    led_retained_bytes L'' = led_retained_bytes L \<and> led_write_frames L'' = led_write_frames L \<and>
    led_write_retained_bytes L'' = led_write_retained_bytes L \<and>
    key_set_keys (led_active_keys L'') = key_set_keys (led_active_keys L) \<and> \<not> led_poisoned L''"
proof -
  have "reserve_refusal L retained write_retained = None"
    using ledger_reserve_refused [OF assms(1,2)] assms(3) by (cases "reserve_refusal L retained write_retained") auto
  then have "accounts L' (add_mset r P) A"
    by (rule ledger_reserve_accepted [OF assms(1,2)]) (use assms(3) in simp)
  then have "accounts (ledger_rollback_permit X r L') P A" by (rule ledger_rollback_accounts [OF assms(1)])
  with accounts_unique [OF assms(2) this] show ?thesis by (simp add: Let_def accounts_def)
qed

theorem reserve_drop_roundtrip_witness:
  "led_operations (ledger_rollback_permit counting_externals
      \<lparr>res_retained_bytes = 3, res_write_retained_bytes = 2, res_match_key = 1\<rparr>
      (snd (ledger_reserve counting_externals 3 2 (ledger_new \<lparr>max_operations = 1, max_retained_bytes = 8,
         max_write_frames = 1, max_write_retained_bytes = 8, match_keys = \<lparr>ks_first = 1, ks_last = 2\<rparr>\<rparr>)))) = 0"
proof -
  let ?l = "\<lparr>max_operations = 1, max_retained_bytes = 8, max_write_frames = 1, max_write_retained_bytes = 8,
      match_keys = \<lparr>ks_first = 1, ks_last = 2\<rparr>\<rparr>"
  let ?r = "\<lparr>res_retained_bytes = 3, res_write_retained_bytes = 2, res_match_key = 1\<rparr>"
  have acc: "accounts (ledger_new ?l) {#} {#}" by (rule accounts_new) (simp add: limits_ok_def USIZE_MAX_def)
  have res: "ledger_reserve counting_externals 3 2 (ledger_new ?l) =
      (Inr ?r, snd (ledger_reserve counting_externals 3 2 (ledger_new ?l)))" by code_simp
  have "led_operations (ledger_new ?l) = 0" by (simp add: ledger_new_def)
  with reserve_drop_roundtrip [OF counting_externals_ok acc res] show ?thesis by (simp add: Let_def)
qed

section \<open>The byte stream of the writer\<close>

text \<open>
  A transport that takes each slice it is offered, for a sequence of slice limits.
\<close>

fun pump :: "'g externals \<Rightarrow> ('f \<Rightarrow> byte list) \<Rightarrow> nat list \<Rightarrow> ('f, 'g) WriteQueue \<Rightarrow>
    byte list \<times> ('f, 'g) WriteQueue" where
  "pump X view [] q = ([], q)"
| "pump X view (k # ks) q =
     (case queue_front view k q of
        Inr (Some sl) \<Rightarrow>
          (case advance X (ws_epoch sl) (ws_effect sl) (length (ws_bytes sl)) q of
             (Inr _, q1) \<Rightarrow> (case pump X view ks q1 of (bs, q2) \<Rightarrow> (ws_bytes sl @ bs, q2))
           | (Inl _, q1) \<Rightarrow> ([], q1))
      | _ \<Rightarrow> ([], q))"

definition unsent :: "('f \<Rightarrow> byte list) \<Rightarrow> ('f, 'g) WriteQueue \<Rightarrow> byte list" where
  "unsent view q = concat (map (\<lambda>w. drop (qw_written w) (view (qw_frame w))) (wq_frames q))"

definition stable :: "('f \<Rightarrow> byte list) \<Rightarrow> ('f, 'g) WriteQueue \<Rightarrow> bool" where
  "stable view q \<longleftrightarrow> (\<forall>w \<in> set (wq_frames q). length (view (qw_frame w)) = wire_bytes (qw_measure w))"

definition work :: "('f \<Rightarrow> byte list) \<Rightarrow> ('f, 'g) WriteQueue \<Rightarrow> nat" where
  "work view q = length (unsent view q) + length (wq_frames q)"

lemma pump_step:
  assumes X: "externals_ok X" and inv: "queue_inv X q" and st: "stable view q" and fr: "wq_frames q = w # ws"
  obtains bs q' p where
    "queue_front view k q = Inr (Some \<lparr>ws_epoch = wq_epoch q, ws_operation = qw_operation w,
       ws_effect = qw_effect w, ws_bytes = bs\<rparr>)"
    "advance X (wq_epoch q) (qw_effect w) (length bs) q = (Inr p, q')"
    "queue_inv X q'" "stable view q'" "unsent view q = bs @ unsent view q'"
    "0 < k \<Longrightarrow> work view q' < work view q"
proof -
  have len: "length (view (qw_frame w)) = wire_bytes (qw_measure w)" using st fr by (simp add: stable_def)
  let ?bs = "take k (drop (qw_written w) (view (qw_frame w)))"
  have front: "queue_front view k q = Inr (Some \<lparr>ws_epoch = wq_epoch q, ws_operation = qw_operation w,
       ws_effect = qw_effect w, ws_bytes = ?bs\<rparr>)"
    using queue_front_exact [OF inv fr, where view = view] len by simp
  have n: "length ?bs = min (remaining_bytes w) k" using len by (simp add: remaining_bytes_def)
  consider (partial) "k < remaining_bytes w" | (whole) "remaining_bytes w \<le> k" by linarith
  then show ?thesis
  proof cases
    case partial
    then have n': "length ?bs = k" using n by simp
    let ?q = "q\<lparr>wq_frames := progressed k w # ws\<rparr>"
    have q': "advance X (wq_epoch q) (qw_effect w) (length ?bs) q =
        (Inr (Pending (qw_operation w) (boundary_of k w)), ?q)" "queue_inv X ?q"
      using advance_pending [OF inv refl fr refl partial] n' by simp_all
    have split: "unsent view q = ?bs @ unsent view ?q"
    proof -
      have "drop (qw_written w) (view (qw_frame w)) = ?bs @ drop (qw_written w + k) (view (qw_frame w))"
        by (metis append_take_drop_id drop_drop add.commute)
      then show ?thesis by (simp add: unsent_def fr)
    qed
    then have "length (unsent view q) = k + length (unsent view ?q)" using n' by (metis length_append)
    then have less: "0 < k \<Longrightarrow> work view ?q < work view q" by (simp add: work_def fr)
    have "stable view ?q" using st fr by (simp add: stable_def)
    from that [OF front q' this split less] show ?thesis by simp
  next
    case whole
    then have n': "length ?bs = remaining_bytes w" "?bs = drop (qw_written w) (view (qw_frame w))"
      using n len by (simp_all add: remaining_bytes_def)
    obtain q' where q': "advance X (wq_epoch q) (qw_effect w) (length ?bs) q =
      (Inr (Complete (qw_operation w) (qw_effect w) (qw_frame w) (qw_measure w) (boundary_of (length ?bs) w)
              (if wire_bytes (qw_measure w) = 0 then NotSent else PossiblySent)), q')"
      "queue_inv X q'" "wq_frames q' = ws"
      by (rule advance_complete [OF X inv refl fr refl n'(1)])
    show ?thesis
      by (rule that [OF front q'(1,2)]) (use st fr q'(3) n'(2) in \<open>auto simp: stable_def unsent_def work_def\<close>)
  qed
qed

lemma pump_unsent:
  assumes X: "externals_ok X"
  shows "queue_inv X q \<Longrightarrow> stable view q \<Longrightarrow>
    fst (pump X view ks q) @ unsent view (snd (pump X view ks q)) = unsent view q \<and>
    queue_inv X (snd (pump X view ks q))"
proof (induction ks arbitrary: q)
  case (Cons k ks)
  show ?case
  proof (cases "wq_frames q")
    case Nil
    with Cons.prems show ?thesis by (simp add: queue_front_empty)
  next
    case (Cons w ws)
    note fr = this
    show ?thesis
      by (rule pump_step [OF X Cons.prems fr, of k]) (simp add: case_prod_unfold Cons.IH)
  qed
qed simp

lemma pump_empties:
  assumes X: "externals_ok X"
  shows "queue_inv X q \<Longrightarrow> stable view q \<Longrightarrow> \<forall>k \<in> set ks. 0 < k \<Longrightarrow> work view q \<le> length ks \<Longrightarrow>
    wq_frames (snd (pump X view ks q)) = []"
proof (induction ks arbitrary: q)
  case Nil
  then show ?case by (simp add: work_def)
next
  case (Cons k ks)
  show ?case
  proof (cases "wq_frames q")
    case Nil
    then show ?thesis by (simp add: queue_front_empty)
  next
    case (Cons w ws)
    note fr = this
    show ?thesis
      by (rule pump_step [OF X Cons.prems(1,2) fr, of k])
        (use Cons.prems(3,4) in \<open>simp add: case_prod_unfold Cons.IH\<close>)
  qed
qed

text \<open>
  C37. The bytes that leave the writer are the bytes of the queued frames, in order, each exactly
  once, however the transport slices them: what was taken, followed by what is left, is what was
  queued. With enough offers of at least one byte the queue runs empty, and everything was taken.
\<close>

theorem write_stream_exact:
  assumes "externals_ok X" "queue_inv X q" "stable view q"
  shows "fst (pump X view ks q) @ unsent view (snd (pump X view ks q)) = unsent view q \<and>
    ((\<forall>k \<in> set ks. 0 < k) \<and> length (unsent view q) + length (wq_frames q) \<le> length ks \<longrightarrow>
       wq_frames (snd (pump X view ks q)) = [] \<and> fst (pump X view ks q) = unsent view q)"
proof -
  note all = pump_unsent [OF assms, of ks]
  have "wq_frames (snd (pump X view ks q)) = []"
    if "\<forall>k \<in> set ks. 0 < k" "length (unsent view q) + length (wq_frames q) \<le> length ks"
    using pump_empties [OF assms that(1)] that(2) by (simp add: work_def)
  then show ?thesis using all by (auto simp: unsent_def)
qed

definition two_frames :: "(byte list, nat \<times> nat) WriteQueue" where
  "two_frames = \<lparr>wq_epoch = 1, wq_limits = \<lparr>max_frames = 2, queue_max_retained_bytes = 9\<rparr>,
     wq_frames = [\<lparr>qw_operation = 0, qw_effect = 0, qw_frame = [1, 2, 3], qw_measure = \<lparr>wire_bytes = 3,
         measure_retained_bytes = 3\<rparr>, qw_written = 1, qw_started = True\<rparr>,
       \<lparr>qw_operation = 1, qw_effect = 1, qw_frame = [4], qw_measure = \<lparr>wire_bytes = 1,
         measure_retained_bytes = 1\<rparr>, qw_written = 0, qw_started = False\<rparr>],
     wq_budget = (4, 9)\<rparr>"

theorem write_stream_exact_witness:
  "fst (pump counting_externals id [2, 1, 1, 5, 5] two_frames) = [2, 3, 4]"
proof -
  have "queue_inv counting_externals two_frames" "stable id two_frames" "unsent id two_frames = [2, 3, 4]"
    "length (wq_frames two_frames) = 2"
    by (simp_all add: two_frames_def queue_inv_def stable_def unsent_def frame_progress_ok_def
        counting_externals_def USIZE_MAX_def)
  with write_stream_exact [OF counting_externals_ok this(1,2), of "[2, 1, 1, 5, 5]"] show ?thesis by simp
qed

section \<open>The recovery journal\<close>

lemma fold_retain_write:
  assumes "length ws + length fs \<le> mw" "mw \<le> USIZE_MAX"
  shows "fold (\<lambda>w j. snd (retain_write w j)) fs (journal_of mo mw ops ws None armed) =
    journal_of mo mw ops (ws @ fs) None armed"
  using assms by (induction fs arbitrary: ws) (simp_all add: retain_write_of)

text \<open>
  The journal gives back what a step put into it: after recording a queue of operations and any
  frames that fit, taking them out returns the operations with their wire positions and the frames
  in the order they left the writer, and leaves every slot empty for the next step.
\<close>

theorem journal_roundtrip:
  assumes "length rs \<le> mo" "mo \<le> USIZE_MAX" "length fs \<le> mw" "mw \<le> USIZE_MAX"
  shows "let j1 = snd (journal_begin rs (journal_new mo mw));
             j2 = fold (\<lambda>w j. snd (retain_write w j)) fs j1;
             (operations, j3) = take_operations j2; (writes, j4) = take_writes j3
         in map jo_wire_index operations = [0..<length rs] \<and>
            map jo_operation operations = map rec_id rs \<and> writes = fs \<and> j4 = journal_new mo mw"
proof -
  have "length (journal_records 0 rs) = length rs"
    "map jo_wire_index (journal_records 0 rs) = [0..<length rs]"
    "map jo_operation (journal_records 0 rs) = map rec_id rs"
    by (simp_all add: journal_records_def journal_operation_def comp_def case_prod_unfold
        flip: map_map [unfolded comp_def])
  with assms show ?thesis
    by (simp add: journal_new_of journal_begin_of fold_retain_write take_operations_of take_writes_of Let_def)
qed

theorem journal_roundtrip_witness:
  "fst (take_operations (snd (journal_begin
     [\<lparr>rec_id = 4, rec_effect = 4, rec_deadline = 9, rec_reservation = \<lparr>res_retained_bytes = 0,
        res_write_retained_bytes = 0, res_match_key = 1\<rparr>, rec_phase = Queued,
        rec_completion = ReplyExpected, rec_delivery = NotSent, rec_write_held = True\<rparr>]
     (journal_new 2 1 :: byte list RecoveryJournal)))) \<noteq> []"
  using journal_roundtrip [of "[\<lparr>rec_id = 4, rec_effect = 4, rec_deadline = 9, rec_reservation = \<lparr>res_retained_bytes = 0,
        res_write_retained_bytes = 0, res_match_key = 1\<rparr>, rec_phase = Queued,
        rec_completion = ReplyExpected, rec_delivery = NotSent, rec_write_held = True\<rparr>]" 2
      "[] :: byte list DiscardedWrite list" 1]
  by (auto simp: USIZE_MAX_def Let_def case_prod_unfold)

section \<open>The frame driver\<close>

text \<open>A decoder that buffers what it is fed and emits it as one frame.\<close>

definition buffering :: "(byte list, byte list, unit) FrameDecoder" where
  "buffering = \<lparr>dec_feed = (\<lambda>bytes buffer. (Inr (), buffer @ bytes)),
     dec_next_frame = (\<lambda>buffer. (Inr (if buffer = [] then None else Some buffer), [])),
     dec_retained_bytes = length\<rparr>"



end
