(* ===== verification/Behaviour.thy ===== *)
theory Behaviour
  imports System "HOL-Library.Sublist"
begin

text \<open>
  How an owner moves through its life: gate and phase only go forward, a closed epoch stays as it
  is, replies reach operations in wire order, and the exact effect of single inputs on the
  aggregate owner.
\<close>

section \<open>Gate and phase\<close>

fun gate_rank :: "AdmissionGate \<Rightarrow> nat" where
  "gate_rank SessionOnly = 0"
| "gate_rank Open = 1"
| "gate_rank Draining = 2"
| "gate_rank GateClosed = 3"

fun phase_rank :: "ConnectionPhase \<Rightarrow> nat" where
  "phase_rank Live = 0"
| "phase_rank Closing = 1"
| "phase_rank PhaseClosed = 2"

text \<open>An identity that was handed out stays behind its generator.\<close>

definition ids_forward :: "IdentityGenerator \<Rightarrow> IdentityGenerator \<Rightarrow> bool" where
  "ids_forward g g' \<longleftrightarrow>
     (\<forall>i. below_next (gen_operation g) i \<longrightarrow> below_next (gen_operation g') i) \<and>
     (\<forall>e. below_next (gen_effect g) e \<longrightarrow> below_next (gen_effect g') e)"

lemma ids_forward_refl [simp]: "ids_forward g g"
  by (simp add: ids_forward_def)

lemma ids_forward_trans: "ids_forward g g1 \<Longrightarrow> ids_forward g1 g2 \<Longrightarrow> ids_forward g g2"
  by (simp add: ids_forward_def)

lemma ids_forward_take: "identity_take g = (r, g') \<Longrightarrow> ids_forward g g'"
  using below_next_mono by (auto simp: identity_take_def ids_forward_def split: option.splits)

definition forward :: "ConnectionMachine \<Rightarrow> ConnectionMachine \<Rightarrow> bool" where
  "forward m m' \<longleftrightarrow>
     gate_rank (m_gate m) \<le> gate_rank (m_gate m') \<and> phase_rank (m_phase m) \<le> phase_rank (m_phase m') \<and>
     (m_phase m \<noteq> Live \<longrightarrow> m_close_reason m' = m_close_reason m) \<and> m_epoch m' = m_epoch m \<and>
     ids_forward (m_identities m) (m_identities m')"

lemma forward_refl [simp, intro]: "forward m m"
  by (simp add: forward_def)

lemma phase_rank_0 [simp]: "phase_rank p = 0 \<longleftrightarrow> p = Live" "phase_rank p \<le> 0 \<longleftrightarrow> p = Live"
  by (cases p; simp)+

lemma gate_rank_closed: "gate_rank g \<le> 3"
  by (cases g) simp_all

lemma forward_trans: "forward m m1 \<Longrightarrow> forward m1 m2 \<Longrightarrow> forward m m2"
  unfolding forward_def by (metis le_trans le_zero_eq phase_rank_0(1) ids_forward_trans)

lemma forward_frame [frame_simps]:
  "forward m (m'\<lparr>m_ledger := L\<rparr>) = forward m m'" "forward m (m'\<lparr>m_matching := ov\<rparr>) = forward m m'"
  by (simp_all add: forward_def)

lemma forward_close: "forward m m0 \<Longrightarrow> forward m (snd (close_with_failure_into X reason failure t m0))"
proof (rule forward_trans [of m m0])
  show "forward m0 (snd (close_with_failure_into X reason failure t m0))"
    using gate_rank_closed
    by (simp add: close_with_failure_into_def close_records_exact Let_def forward_def)
qed

lemma forward_finish_drain: "forward m m0 \<Longrightarrow> forward m (snd (finish_drain X t m0))"
  by (simp add: finish_drain_def close_into_def forward_close)

lemma forward_reserve: "forward m (snd (machine_reserve X now options m))"
  using ids_forward_take [of "m_identities m"]
  by (simp add: machine_reserve_def frame_simps forward_def split: prod.split sum.split option.split)

lemma forward_commit: "forward m (snd (commit_permit X p charge m))"
  by (simp add: commit_permit_exact frame_simps)

lemma forward_apply: "forward m (snd (machine_apply X input m))"
proof (cases input)
  case (OpenAdmission ep)
  then show ?thesis by (simp add: open_admission_def forward_def)
next
  case (Cancel ep i)
  then show ?thesis
    by (simp add: machine_cancel_def Let_def frame_simps forward_finish_drain split: option.split prod.split)
next
  case (InputDeadlineElapsed ep i now)
  then show ?thesis
    by (simp add: deadline_elapsed_def close_into_def Let_def frame_simps forward_finish_drain forward_close
        split: option.split prod.split)
next
  case (BeginDrain ep)
  have "gate_rank (m_gate m) \<le> 2" if "m_gate m \<noteq> GateClosed" using that by (cases "m_gate m") simp_all
  then have "forward m (m\<lparr>m_gate := Draining\<rparr>)" if "m_gate m \<noteq> GateClosed"
    using that by (simp add: forward_def)
  with BeginDrain show ?thesis by (simp add: begin_drain_def forward_finish_drain)
next
  case (EpochClosed ep)
  then show ?thesis using gate_rank_closed by (simp add: epoch_closed_def forward_def)
qed (simp_all add: reply_malformed_def close_requested_def close_into_def forward_close)

lemma forward_apply_reply: "forward m (snd (machine_apply_reply X reply m))"
  by (simp add: machine_apply_reply_def close_into_def Let_def frame_simps forward_finish_drain
      forward_close split: option.split prod.split)

lemma forward_write_started: "forward m (snd (write_started epoch operation effect m))"
  by (simp add: write_started_def frame_simps split: option.split)

lemma forward_write_completed: "forward m (snd (write_completed X epoch operation effect m))"
  by (simp add: write_completed_def Let_def frame_simps forward_finish_drain split: option.split prod.split)

subsection \<open>The owner changes its machine through these operations only\<close>

lemma core_poison_machine [simp]: "core_machine (snd (core_poison source c)) = core_machine c"
  by (simp add: core_poison_def)

lemma ensure_healthy_machine [simp]: "core_machine (snd (ensure_healthy c)) = core_machine c"
  by (simp add: ensure_healthy_def split: option.split)

lemma audit_machine [simp]: "core_machine (snd (verify_ownership_on_hot_path X c)) = core_machine c"
  by (simp add: verify_ownership_on_hot_path_def verify_ownership_def split: option.split)

lemma begin_journal_machine [simp]:
  "core_machine (snd (begin_recovery_journal c)) = core_machine c"
  "core_machine (snd (begin_operation_recovery_journal operation c)) = core_machine c"
  by (simp_all add: begin_recovery_journal_def begin_operation_recovery_journal_def
      split: prod.split bool.split option.split)

lemma prepare_machine [simp]:
  "core_machine (snd (prepare_input_journal X input c)) = core_machine c"
  "core_machine (snd (prepare_reply_journal reply c)) = core_machine c"
  by (cases input) (simp_all add: prepare_reply_journal_def Let_def split: option.split)

lemma reconcile_effects_machine [simp]:
  "core_machine (snd (reconcile_effects X es out c)) = core_machine c"
  by (induction X es out c rule: reconcile_effects.induct)
    (simp_all split: prod.split sum.split option.split WriteProgressError.split)

lemma reconcile_machine [simp]: "core_machine (snd (reconcile X t c)) = core_machine c"
  by (simp add: reconcile_def Let_def)

lemma try_then_machine:
  assumes "P (core_machine (snd r))" "\<And>x c. r = (Inr x, c) \<Longrightarrow> P (core_machine (snd (f x c)))"
  shows "P (core_machine (snd (try_then r f)))"
  using assms by (cases r) (auto simp: try_then_def split: sum.split)

lemma finish_step_machine [simp]: "core_machine (snd (finish_step r)) = core_machine (snd r)"
proof -
  obtain x c where r: "r = (x, c)" by (cases r)
  obtain y c' where h: "ensure_healthy c = (y, c')" by (cases "ensure_healthy c")
  then have "core_machine c' = core_machine c" using ensure_healthy_machine [of c] by simp
  then show ?thesis by (simp add: finish_step_def try_then_def r h split: sum.split)
qed

lemma forward_try:
  assumes "forward m (core_machine (snd r))"
    "\<And>x c. forward m (core_machine c) \<Longrightarrow> forward m (core_machine (snd (f x c)))"
  shows "forward m (core_machine (snd (try_then r f)))"
proof (rule try_then_machine)
  fix x c assume "r = (Inr x, c)"
  with assms show "forward m (core_machine (snd (f x c)))" by simp
qed (rule assms(1))

lemma forward_absorb:
  "forward m (core_machine c) \<Longrightarrow>
   forward m (core_machine (snd (absorb_write_transition X combined t operation effect c)))"
  unfolding absorb_write_transition_def by (auto intro!: forward_try)

lemma forward_absorb_progress:
  assumes "forward m (core_machine c)"
  shows "forward m (core_machine (snd (absorb_progress X epoch effect operation boundary complete c)))"
  unfolding absorb_progress_def finish_step_machine
proof (rule forward_try)
  show "forward m (core_machine (snd (if boundary = Crossed then
      case write_started epoch operation effect (core_machine c) of
        (t, m') \<Rightarrow> absorb_write_transition X (transition_new Applied) t operation effect (c\<lparr>core_machine := m'\<rparr>)
      else (Inr (transition_new Applied), c))))"
    using forward_trans [OF assms forward_write_started, of epoch operation effect] assms
    by (simp add: case_prod_unfold forward_absorb)
next
  fix combined and c1 :: "('a, 'b) ConnectionCore" assume c1: "forward m (core_machine c1)"
  show "forward m (core_machine (snd (if complete then
      case write_completed X epoch operation effect (core_machine c1) of
        (t, m') \<Rightarrow> absorb_write_transition X combined t operation effect (c1\<lparr>core_machine := m'\<rparr>)
      else (Inr combined, c1))))"
    using forward_trans [OF c1 forward_write_completed, of X epoch operation effect] c1
    by (simp add: case_prod_unfold forward_absorb)
qed

lemma forward_core_advance:
  "forward (core_machine c) (core_machine (snd (core_advance_write X epoch effect n c)))"
  unfolding core_advance_write_def Let_def
  by (rule forward_try)
    (auto intro!: forward_absorb_progress simp: begin_write_recovery_journal_def
      split: prod.split sum.split option.split bool.split WriteProgressError.split WriteProgress.split)

lemma forward_core_apply: "forward (core_machine c) (core_machine (snd (core_apply X input c)))"
  unfolding core_apply_def
  by (intro forward_try) (auto simp: case_prod_unfold intro: forward_trans forward_apply)

lemma forward_core_apply_reply:
  "forward (core_machine c) (core_machine (snd (core_apply_reply X reply c)))"
  unfolding core_apply_reply_def
  by (intro forward_try) (auto simp: case_prod_unfold intro: forward_trans forward_apply_reply)

lemma audited_machine:
  "core_machine (snd (try_then (ensure_healthy c) (\<lambda>_. verify_ownership_on_hot_path X))) = core_machine c"
proof -
  obtain y c' where h: "ensure_healthy c = (y, c')" by (cases "ensure_healthy c")
  then have "core_machine c' = core_machine c" using ensure_healthy_machine [of c] by simp
  then show ?thesis by (simp add: h try_then_def split: sum.split)
qed

lemma forward_core_reserve: "forward (core_machine c) (core_machine (snd (core_reserve X now options c)))"
  using forward_reserve [of "core_machine c" X now options] audited_machine [of c X]
  by (auto simp: core_reserve_def case_prod_unfold split: sum.split)

lemma forward_core_commit:
  "forward (core_machine c) (core_machine (snd (core_commit X view retained p frame c)))"
  using forward_commit [of "core_machine c" X p "retained frame"] audited_machine [of c X]
  by (auto simp: core_commit_def measure_capture_def Let_def case_prod_unfold
      split: sum.split option.split)

lemma forward_step: "sys_step X s s' \<Longrightarrow> forward (core_machine (sys_core s)) (core_machine (sys_core s'))"
proof (induction rule: sys_step.induct)
  case (drop s ps p qs)
  then show ?case by (simp add: drop_permit_def frame_simps)
qed (simp, metis snd_conv forward_core_reserve forward_core_commit forward_core_apply
    forward_core_apply_reply forward_core_advance)+

lemma forward_run: "(sys_step X)\<^sup>*\<^sup>* s s' \<Longrightarrow> forward (core_machine (sys_core s)) (core_machine (sys_core s'))"
  by (induction rule: rtranclp_induct) (auto intro: forward_trans forward_step)

section \<open>Steps without a discarded frame\<close>

lemma reconcile_effects_plain:
  "discard_ids es = [] \<Longrightarrow>
   reconcile_effects X es out c = (Inr (out\<lparr>tr_effects := tr_effects out @ es\<rparr>), c)"
proof (induction es arbitrary: out)
  case (Cons e es)
  then show ?case by (cases e) (simp_all add: transition_push_def)
qed simp

lemma visible_plain: "discard_ids es = [] \<Longrightarrow> visible es = es"
proof (induction es)
  case (Cons e es)
  then show ?case by (cases e) simp_all
qed simp

lemma finish_step_writes: "core_writes (snd (finish_step (Inr t, c))) = core_writes c"
  by (simp add: finish_step_def ensure_healthy_def core_poison_def split: option.split)

lemma core_step_plain:
  assumes X: "externals_ok X" and ok: "core_ok X c P" and prep: "prepared c c1"
    and good: "good_step (core_machine c) P (t, m')" and plain: "discard_ids (tr_effects t) = []"
  shows "finish_step (reconcile X t (c1\<lparr>core_machine := m'\<rparr>)) = (Inr t, c\<lparr>core_machine := m'\<rparr>)"
proof -
  let ?c1 = "c1\<lparr>core_machine := m'\<rparr>"
  obtain q where q: "finish_step (reconcile X t ?c1) =
       (Inr (t\<lparr>tr_effects := visible (tr_effects t)\<rparr>), c\<lparr>core_machine := m', core_writes := q\<rparr>)"
    by (rule core_step [OF X ok prep good])
  have "\<exists>t'. reconcile X t ?c1 = (Inr t', ?c1)"
    using plain by (simp add: reconcile_def reconcile_effects_plain Let_def)
  then have "core_writes (snd (finish_step (reconcile X t ?c1))) = core_writes ?c1"
    using finish_step_writes by metis
  moreover have "core_writes ?c1 = core_writes c" using prep by (auto simp: prepared_def)
  ultimately have "q = core_writes c" using q by simp
  with q plain show ?thesis by (simp add: visible_plain)
qed

lemma core_apply_plain:
  assumes X: "externals_ok X" and ok: "core_ok X c P"
    and step: "machine_apply X input (core_machine c) = (t, m')" and plain: "discard_ids (tr_effects t) = []"
  shows "core_apply X input c = (Inr t, c\<lparr>core_machine := m'\<rparr>)"
proof -
  obtain c1 where c1: "prepare_input_journal X input c = (Inr (), c1)" "prepared c c1"
    using prepare_input_prepared [OF ok] by blast
  have "good_step (core_machine c) P (t, m')"
    using good_apply [OF X core_ok_parts(2) [OF ok], of input] step by simp
  from core_step_plain [OF X ok c1(2) this plain]
  show ?thesis
    using c1 step joined_healthy [OF X core_ok_parts(1) [OF ok]]
    by (auto simp: core_apply_def prepared_def)
qed

lemma core_apply_reply_plain:
  assumes X: "externals_ok X" and ok: "core_ok X c P"
    and step: "machine_apply_reply X reply (core_machine c) = (t, m')" and plain: "discard_ids (tr_effects t) = []"
  shows "core_apply_reply X reply c = (Inr t, c\<lparr>core_machine := m'\<rparr>)"
proof -
  obtain c1 where c1: "prepare_reply_journal reply c = (Inr (), c1)" "prepared c c1"
    using prepare_reply_prepared [OF ok] by blast
  have "good_step (core_machine c) P (t, m')"
    using good_apply_reply [OF X core_ok_parts(2) [OF ok], of reply] step by simp
  from core_step_plain [OF X ok c1(2) this plain]
  show ?thesis
    using c1 step joined_healthy [OF X core_ok_parts(1) [OF ok]]
    by (auto simp: core_apply_reply_def prepared_def)
qed

text \<open>The epoch an input names, and the answer to an input that the machine ignores.\<close>

fun input_epoch :: "ConnectionInput \<Rightarrow> ConnectionEpoch" where
  "input_epoch (OpenAdmission epoch) = epoch"
| "input_epoch (Cancel epoch _) = epoch"
| "input_epoch (InputDeadlineElapsed epoch _ _) = epoch"
| "input_epoch (ReplyMalformed epoch) = epoch"
| "input_epoch (BeginDrain epoch) = epoch"
| "input_epoch (CloseRequested epoch _) = epoch"
| "input_epoch (EpochClosed epoch) = epoch"

fun ignored :: "ConnectionInput \<Rightarrow> InputDisposition \<Rightarrow> unit ConnectionTransition" where
  "ignored (Cancel _ _) d = transition_cancelled CancelAlreadyTerminal (transition_new d)"
| "ignored _ d = transition_new d"

lemma ignored_simps [simp]: "tr_effects (ignored input d) = []" "tr_disposition (ignored input d) = d"
  by (cases input; simp)+

lemma machine_apply_stale:
  "input_epoch input \<noteq> m_epoch m \<Longrightarrow> machine_apply X input m = (ignored input IgnoredStaleEpoch, m)"
  by (cases input) (simp_all add: open_admission_def machine_cancel_def deadline_elapsed_def
      reply_malformed_def begin_drain_def close_requested_def epoch_closed_def)

section \<open>A closed epoch\<close>

lemma closed_empty:
  assumes "core_ok X c P" "m_phase (core_machine c) \<noteq> Live"
  shows "pending (core_machine c) = []" "wq_frames (core_writes c) = []"
    "m_gate (core_machine c) = GateClosed" "m_close_reason (core_machine c) \<noteq> None"
proof -
  have "lifecycle_ok (core_machine c)"
    using core_ok_parts(2) [OF assms(1)] by (simp add: machine_ok_def machine_core_def)
  then show p: "pending (core_machine c) = []" and "m_gate (core_machine c) = GateClosed"
    "m_close_reason (core_machine c) \<noteq> None" using assms(2) by (simp_all add: lifecycle_ok_def)
  show "wq_frames (core_writes c) = []" using core_ok_parts(6) [OF assms(1)] p by simp
qed

text \<open>What a caller can still observe of a closed epoch: the acknowledgement of its closure.\<close>

lemma machine_apply_closed:
  assumes "m_phase m \<noteq> Live" "pending m = []"
  shows "tr_effects (fst (machine_apply X input m)) = []"
proof -
  have "matching_get i (m_matching m) = None" for i using assms(2) by (simp add: matching_get_None)
  then show ?thesis
    using assms(1) by (cases input) (simp_all add: open_admission_def machine_cancel_def deadline_elapsed_def
      reply_malformed_def begin_drain_def close_requested_def epoch_closed_def)
qed

lemma machine_apply_reply_closed:
  assumes "m_phase m \<noteq> Live"
  shows "\<exists>d. machine_apply_reply X reply m = (transition_new d, m)"
  using assms by (auto simp: machine_apply_reply_def Let_def)

definition history ::
  "('f, 'g, 'r) system \<Rightarrow> OperationId list \<times> (OperationId \<times> Delivery option) list \<times>
   (OperationId \<times> 'r) list \<times> OperationId set" where
  "history s = (sys_accepted s, sys_published s, sys_replies s, sys_sent s)"

lemma closed_step:
  assumes X: "externals_ok X" and inv: "sys_inv X s" and dead: "m_phase (core_machine (sys_core s)) \<noteq> Live"
    and step: "sys_step X s s'"
  shows "history s' = history s" "set (sys_permits s') \<subseteq> set (sys_permits s)"
proof -
  let ?c = "sys_core s"
  note ok = sys_inv_parts(1) [OF inv]
  note closed = closed_empty [OF ok dead]
  have "history s' = history s \<and> set (sys_permits s') \<subseteq> set (sys_permits s)"
    using step
  proof cases
    case (reserve now options p c')
    have "machine_refusal X now options (core_machine ?c) = Some AdmissionClosed"
      using closed(3) by (simp add: machine_refusal_def)
    then have "core_reserve X now options ?c = (Inl AdmissionClosed, ?c)"
      using machine_reserve_refused [OF X core_ok_parts(2) [OF ok]] core_reserve_machine [OF X ok] by simp
    with reserve show ?thesis by simp
  next
    case (commit ps p qs view frame retained i t c')
    have "commit_failure p (retained frame) (core_machine ?c) \<noteq> None"
      using closed(3) by (simp add: commit_failure_def)
    with commit core_commit_refused [OF X ok] show ?thesis by fastforce
  next
    case (commit_refused ps p qs view frame retained e c')
    then have "ce_permit e = p"
      using core_commit_total [where retained = retained and view = view and frame = frame, OF X inv commit_refused(2,3)]
      by auto
    with commit_refused show ?thesis by (auto simp: history_def)
  next
    case (input inp t c')
    obtain tm m' where tm: "machine_apply X inp (core_machine ?c) = (tm, m')"
      by (cases "machine_apply X inp (core_machine ?c)")
    have "tr_effects tm = []" using machine_apply_closed [OF dead closed(1), of X inp] tm by simp
    then have "tr_effects t = []" using core_apply_plain [OF X ok tm] input(2) by simp
    with input show ?thesis by (simp add: history_def)
  next
    case (reply r t c')
    obtain d where "machine_apply_reply X r (core_machine ?c) = (transition_new d, core_machine ?c)"
      using machine_apply_reply_closed [OF dead] by blast
    from core_apply_reply_plain [OF X ok this] reply show ?thesis
      by (auto simp: history_def reply_deliveries_def)
  next
    case (advance n epoch effect t c')
    then show ?thesis
      using core_advance_refused(1,2) [OF X ok] closed(2) by (metis Inl_Inr_False Pair_inject)
  qed (auto simp: history_def)
  then show "history s' = history s" "set (sys_permits s') \<subseteq> set (sys_permits s)" by simp_all
qed

text \<open>The history of a closed epoch is final.\<close>

interpretation closed_epoch: invariant_system
  "\<lambda>s'. externals_ok X \<and> s' = s \<and> sys_reachable X s \<and> m_phase (core_machine (sys_core s)) \<noteq> Live"
  "sys_step X"
  "\<lambda>s'. externals_ok X \<and> sys_inv X s' \<and> m_phase (core_machine (sys_core s')) \<noteq> Live \<and> history s' = history s"
  for X :: "'g externals" and s :: "('f, 'g, 'r) system"
proof unfold_locales
  fix s1 s2 :: "('f, 'g, 'r) system"
  assume inv: "externals_ok X \<and> sys_inv X s1 \<and> m_phase (core_machine (sys_core s1)) \<noteq> Live \<and> history s1 = history s"
    and step: "sys_step X s1 s2"
  have "m_phase (core_machine (sys_core s2)) \<noteq> Live"
    using forward_step [OF step] inv by (auto simp: forward_def)
  then show "externals_ok X \<and> sys_inv X s2 \<and> m_phase (core_machine (sys_core s2)) \<noteq> Live \<and> history s2 = history s"
    using inv sys_inv_step [OF _ _ step] closed_step(1) [OF _ _ _ step] by simp
qed (auto intro: sys_reachable_inv)

section \<open>Replies reach operations in wire order\<close>

lemma removes_subseq: "removes f xs ds ys \<Longrightarrow> subseq (map g ys) (map g xs)"
  by (auto simp: removes_def intro: subseq_map)

lemma reply_deliveries_simps [simp]:
  "reply_deliveries [] = []" "reply_deliveries (xs @ ys) = reply_deliveries xs @ reply_deliveries ys"
  "reply_deliveries (PublishOutcome ep i (OutReply f) # es) = (i, f) # reply_deliveries es"
  "reply_deliveries (PublishOutcome ep i (OutFailed e d) # es) = reply_deliveries es"
  "reply_deliveries (CancelDeadline ep i # es) = reply_deliveries es"
  "reply_deliveries (DiscardWrite w ep i # es) = reply_deliveries es"
  "reply_deliveries (CloseEpoch ep r # es) = reply_deliveries es"
  by (simp_all add: reply_deliveries_def)

lemma reply_deliveries_visible [simp]: "reply_deliveries (visible es) = reply_deliveries es"
  by (induction es) (auto simp: reply_deliveries_def visible_def split: ConnectionEffect.splits)

lemma reply_deliveries_records [simp]:
  "reply_deliveries (concat (map (record_close_effects ep reason failure) rs)) = []"
  by (induction rs) (simp_all add: record_close_effects_def)

lemma reply_deliveries_closing:
  "reply_deliveries (tr_effects (fst (close_with_failure_into X reason failure t m))) =
     reply_deliveries (tr_effects t)"
  by (simp add: close_with_failure_into_def close_records_exact Let_def)

lemma finish_drain_pending: "subseq (op_ids (pending (snd (finish_drain X t m)))) (op_ids (pending m))"
  by (simp add: finish_drain_def close_into_def close_with_failure_into_def Let_def case_prod_unfold)

lemma reply_order_step:
  assumes X: "externals_ok X" and ok: "machine_ok m P"
  shows "subseq (map fst (reply_deliveries (tr_effects (fst (machine_apply_reply X r m)))) @
      op_ids (pending (snd (machine_apply_reply X r m)))) (op_ids (pending m))"
proof (cases "reply_deliveries (tr_effects (fst (machine_apply_reply X r m)))")
  case Nil
  have "contract m (tr_effects (fst (machine_apply_reply X r m))) (snd (machine_apply_reply X r m))"
    using good_apply_reply [OF X ok, of r] by (simp add: good_step_def)
  then have "removes fst (owned (pending m)) (cancel_ids (tr_effects (fst (machine_apply_reply X r m))))
      (owned (pending (snd (machine_apply_reply X r m))))" by (simp add: contract_def)
  from removes_subseq [OF this, of fst] show ?thesis by (simp add: Nil)
next
  case (Cons d ds)
  obtain f fs where f: "pending m = f # fs" "awaits_reply f" "reply_epoch r = m_epoch m"
    "reply_key r = res_match_key (rec_reservation f)"
    using Cons by (auto simp: machine_apply_reply_def close_into_def reply_deliveries_closing Let_def
        matching_front_def awaits_reply_def neq_Nil_conv split: if_splits list.splits option.splits)
  note eq = apply_reply_match(1) [OF X ok f]
  define t where "t = (if rec_phase f \<noteq> Terminal
        then transition_push (PublishOutcome (m_epoch m) (rec_id f) (OutReply (reply_frame r)))
               (transition_push (CancelDeadline (m_epoch m) (rec_id f)) (transition_new Applied))
        else transition_push (CancelDeadline (m_epoch m) (rec_id f)) (transition_new Applied))"
  let ?m1 = "without X fs f False (m_ledger m) m"
  have eq: "machine_apply_reply X r m = finish_drain X t ?m1" using eq by (simp add: t_def)
  have "reply_deliveries (tr_effects (fst (finish_drain X t ?m1))) = reply_deliveries (tr_effects t)"
    by (simp add: finish_drain_def close_into_def reply_deliveries_closing)
  moreover have "subseq (map fst (reply_deliveries (tr_effects t))) [rec_id f]" by (simp add: t_def)
  ultimately have "subseq (map fst (reply_deliveries (tr_effects (fst (machine_apply_reply X r m)))) @
      op_ids (pending (snd (machine_apply_reply X r m)))) ([rec_id f] @ op_ids fs)"
    using finish_drain_pending [of X t ?m1] unfolding eq by (intro list_emb_append_mono) simp_all
  then show ?thesis by (simp add: f(1))
qed

definition in_order :: "('f, 'g, 'r) system \<Rightarrow> bool" where
  "in_order s \<longleftrightarrow>
     subseq (map fst (sys_replies s) @ op_ids (pending (core_machine (sys_core s)))) (sys_accepted s)"

lemma in_order_mono:
  assumes "in_order s" "sys_accepted s' = sys_accepted s" "sys_replies s' = sys_replies s @ ds"
    "subseq (map fst ds @ op_ids (pending (core_machine (sys_core s')))) (op_ids (pending (core_machine (sys_core s))))"
  shows "in_order s'"
proof -
  have "subseq (map fst (sys_replies s) @ map fst ds @ op_ids (pending (core_machine (sys_core s'))))
      (map fst (sys_replies s) @ op_ids (pending (core_machine (sys_core s))))"
    using assms(4) by (simp add: subseq_append')
  with assms(1) show ?thesis by (auto simp: in_order_def assms(2,3) intro: subseq_order.trans)
qed

lemma settles_order:
  assumes "settles ow lv es m"
  shows "subseq (op_ids (pending m)) (map fst ow)"
proof -
  have "removes fst ow (cancel_ids es) (owned (pending m))" using assms by (simp add: settles_def)
  from removes_subseq [OF this, of fst] show ?thesis by simp
qed

lemma in_order_input:
  assumes X: "externals_ok X" and inv: "sys_inv X s" and ord: "in_order s"
    and res: "core_apply X inp (sys_core s) = (Inr t, c')"
  shows "in_order (s\<lparr>sys_core := c', sys_published := ps\<rparr>)"
proof -
  let ?m = "core_machine (sys_core s)"
  note ok = sys_inv_parts(1) [OF inv]
  have "contract ?m (tr_effects (fst (machine_apply X inp ?m))) (snd (machine_apply X inp ?m))"
    using good_apply [OF X core_ok_parts(2) [OF ok], of inp] by (simp add: good_step_def)
  note sub = settles_order [OF contract_settles(1) [OF this]]
  have "subseq (op_ids (pending (core_machine c'))) (op_ids (pending ?m))"
    by (rule core_apply_exact [OF X ok, of inp]) (use res sub in auto)
  then show ?thesis by (intro in_order_mono [OF ord, where ds = "[]"]) simp_all
qed

lemma in_order_reply:
  assumes X: "externals_ok X" and inv: "sys_inv X s" and ord: "in_order s"
    and res: "core_apply_reply X r (sys_core s) = (Inr t, c')"
  shows "in_order (s\<lparr>sys_core := c', sys_published := ps, sys_replies := sys_replies s @ reply_deliveries (tr_effects t)\<rparr>)"
proof -
  note ok = sys_inv_parts(1) [OF inv]
  have "subseq (map fst (reply_deliveries (tr_effects t)) @ op_ids (pending (core_machine c')))
      (op_ids (pending (core_machine (sys_core s))))"
    by (rule core_apply_reply_exact [OF X ok, of r]) (use res reply_order_step [OF X core_ok_parts(2) [OF ok], of r] in auto)
  then show ?thesis by (intro in_order_mono [OF ord]) simp_all
qed

lemma in_order_step:
  assumes X: "externals_ok X" and inv: "sys_inv X s" and ord: "in_order s" and step: "sys_step X s s'"
  shows "in_order s'"
  using step
proof cases
  case (reserve now options p c')
  then have "pending (core_machine c') = pending (core_machine (sys_core s))"
    using core_reserve_ok(2) [OF X sys_inv_parts(1) [OF inv]] by blast
  with reserve ord show ?thesis by (simp add: in_order_def)
next
  case (reserve_refused now options e c')
  then have "c' = sys_core s" using core_reserve_refused(1) [OF X sys_inv_parts(1) [OF inv]] by blast
  with reserve_refused ord show ?thesis by (simp add: in_order_def)
next
  case (drop ps p qs)
  with ord show ?thesis by (simp add: in_order_def drop_permit_def)
next
  case (commit ps p qs view frame retained i t c')
  then have "op_ids (pending (core_machine c')) = op_ids (pending (core_machine (sys_core s))) @ [i]"
    using core_commit_total [where retained = retained and view = view and frame = frame, OF X inv commit(2,3)]
    by (auto simp: committed_record_def)
  with commit ord show ?thesis by (simp add: in_order_def flip: append_assoc)
next
  case (commit_refused ps p qs view frame retained e c')
  then have "c' = sys_core s"
    using core_commit_total [where retained = retained and view = view and frame = frame, OF X inv commit_refused(2,3)]
    by auto
  with commit_refused ord show ?thesis by (simp add: in_order_def)
next
  case (input inp t c')
  with in_order_input [OF X inv ord] show ?thesis by simp
next
  case (reply r t c')
  with in_order_reply [OF X inv ord] show ?thesis by simp
next
  case (advance n epoch effect t c')
  then have "subseq (op_ids (pending (core_machine c'))) (op_ids (pending (core_machine (sys_core s))))"
    using core_advance_total [OF X sys_inv_parts(1) [OF inv] advance(2), of epoch effect]
      by (auto dest!: settles_order simp: mark_sent_ids)
  then show ?thesis unfolding advance(1) by (intro in_order_mono [OF ord, where ds = "[]"]) simp_all
next
  case (advance_refused n epoch effect e c')
  then have "c' = sys_core s"
    using core_advance_total [OF X sys_inv_parts(1) [OF inv] advance_refused(2), of epoch effect] by auto
  with advance_refused ord show ?thesis by (simp add: in_order_def)
qed

lemma in_order_initial: "sys_initial X s \<Longrightarrow> in_order s"
  by (auto simp: sys_initial_def in_order_def sys_start_def core_with_identity_seeds_def
      machine_with_identity_seeds_def matching_new_def)

interpretation ordered: invariant_system "\<lambda>s. externals_ok X \<and> sys_initial X s" "sys_step X"
  "\<lambda>s. externals_ok X \<and> sys_inv X s \<and> in_order s" for X :: "'g externals"
  by unfold_locales (auto intro: sys_inv_initial sys_inv_step in_order_initial in_order_step)

lemma sys_reachable_order: "externals_ok X \<Longrightarrow> sys_reachable X s \<Longrightarrow> in_order s"
  using ordered.reached_inv [of X] unfolding sys_reachable_def by blast

section \<open>Single inputs on the owner\<close>

lemma finish_drain_exact:
  "pending (snd (finish_drain X t m)) = pending m"
  "publications (tr_effects (fst (finish_drain X t m))) = publications (tr_effects t)"
  "tr_cancel_outcome (fst (finish_drain X t m)) = tr_cancel_outcome t"
  "tr_disposition (fst (finish_drain X t m)) = tr_disposition t"
  "reply_deliveries (tr_effects (fst (finish_drain X t m))) = reply_deliveries (tr_effects t)"
  by (simp_all add: finish_drain_def close_into_def close_with_failure_into_def close_records_exact
      matching_is_empty_def Let_def)

text \<open>The frame of a pending operation, if the writer holds one, carries the record's effect.\<close>

lemma frame_of_record:
  assumes ok: "core_ok X c P" and p: "pending (core_machine c) = ys @ r # zs"
    and w: "w \<in> set (wq_frames (core_writes c))" "qw_operation w = rec_id r"
  shows "rec_write_held r \<and> qw_effect w = rec_effect r"
proof -
  have "frame_key w \<in> set (held_ids (pending (core_machine c)))"
    using w(1) by (simp flip: joined_identities [OF core_ok_parts(1) [OF ok]] add: write_identities_def)
  then obtain r' where r': "r' \<in> set (pending (core_machine c))" "rec_write_held r'"
    "frame_key w = (rec_id r', rec_effect r')"
    by (auto simp: held_ids_def held_writes_def held_write_of_def)
  have "distinct (map rec_id (pending (core_machine c)))"
    using core_ok_parts(2) [OF ok] by (simp add: machine_ok_def machine_core_def)
  moreover have "r \<in> set (pending (core_machine c))" by (simp add: p)
  ultimately have "r' = r" using r' w(2) by (metis distinct_map fst_conv inj_onD)
  with r' show ?thesis by simp
qed

lemma discard_record_frames:
  assumes "core_ok X c P" "pending (core_machine c) = ys @ r # zs"
    "ds = (if rec_write_held r then [(rec_id r, rec_effect r)] else [])"
  shows "filter (\<lambda>w. frame_key w \<notin> set ds) (wq_frames (core_writes c)) =
    filter (\<lambda>w. qw_operation w \<noteq> rec_id r) (wq_frames (core_writes c))"
  using frame_of_record [OF assms(1,2)] by (intro filter_cong) (auto simp: assms(3))

text \<open>A record that leaves because its operation ended before any byte of it was sent.\<close>

definition withdrawn ::
  "OperationRecord list \<Rightarrow> OperationRecord \<Rightarrow> OperationRecord list \<Rightarrow> ('f, 'g) ConnectionCore \<Rightarrow>
   unit ConnectionTransition \<Rightarrow> ('f, 'g) ConnectionCore \<Rightarrow> bool" where
  "withdrawn ys r zs c t c' \<longleftrightarrow>
     tr_disposition t = Applied \<and> publications (tr_effects t) = [(rec_id r, Some NotSent)] \<and>
     pending (core_machine c') = ys @ zs \<and>
     wq_frames (core_writes c') = filter (\<lambda>w. qw_operation w \<noteq> rec_id r) (wq_frames (core_writes c))"

lemma core_withdrawal:
  assumes X: "externals_ok X" and ok: "core_ok X c P" and p: "pending (core_machine c) = ys @ r # zs"
    and step: "machine_apply X input (core_machine c) =
      finish_drain X t (without X (ys @ zs) r held L (core_machine c))"
    and t: "tr_disposition t = Applied" "publications (tr_effects t) = [(rec_id r, Some NotSent)]"
      "discard_ids (tr_effects t) = (if rec_write_held r then [(rec_id r, rec_effect r)] else [])"
  shows "\<exists>t' c'. core_apply X input c = (Inr t', c') \<and> withdrawn ys r zs c t' c' \<and>
    tr_cancel_outcome t' = tr_cancel_outcome t"
proof -
  let ?s = "machine_apply X input (core_machine c)"
  obtain q where q: "core_apply X input c =
      (Inr ((fst ?s)\<lparr>tr_effects := visible (tr_effects (fst ?s))\<rparr>), c\<lparr>core_machine := snd ?s, core_writes := q\<rparr>)"
    "wq_frames q = filter (\<lambda>w. frame_key w \<notin> set (discard_ids (tr_effects (fst ?s)))) (wq_frames (core_writes c))"
    by (rule core_apply_exact [OF X ok])
  have "discard_ids (tr_effects (fst ?s)) = (if rec_write_held r then [(rec_id r, rec_effect r)] else [])"
    by (simp add: step finish_drain_discards t(3))
  from q discard_record_frames [OF ok p this] show ?thesis
    by (simp add: withdrawn_def step finish_drain_exact t(1,2))
qed

lemma machine_cancel_unsent:
  assumes ok: "machine_ok m P" and p: "pending m = ys @ r # zs"
    and r: "rec_phase r \<noteq> Terminal" "rec_delivery r = NotSent"
  shows "\<exists>t. machine_apply X (Cancel (m_epoch m) (rec_id r)) m =
      finish_drain X t (without X (ys @ zs) r (rec_write_held r) (m_ledger m) m) \<and>
    tr_disposition t = Applied \<and> publications (tr_effects t) = [(rec_id r, Some NotSent)] \<and>
    discard_ids (tr_effects t) = (if rec_write_held r then [(rec_id r, rec_effect r)] else []) \<and>
    tr_cancel_outcome t = Some CancelledNotSent"
proof -
  have core: "machine_core m P" using ok by (simp add: machine_ok_def)
  note at = matching_at [OF p split_distinct [OF core p]]
  show ?thesis
    by (rule exI [of _ "transition_cancelled CancelledNotSent
        (transition_push (PublishOutcome (m_epoch m) (rec_id r) (OutCancelled NotSent))
          (transition_push (CancelDeadline (m_epoch m) (rec_id r))
            (if rec_write_held r
             then transition_push (DiscardWrite (rec_effect r) (m_epoch m) (rec_id r)) (transition_new Applied)
             else transition_new Applied)))"])
      (simp add: machine_cancel_def at r without_def Let_def)
qed

lemma deadline_unsent:
  assumes ok: "machine_ok m P" and p: "pending m = ys @ r # zs"
    and r: "is_elapsed_at X (rec_deadline r) now" "rec_delivery r = NotSent"
  shows "\<exists>t. machine_apply X (InputDeadlineElapsed (m_epoch m) (rec_id r) now) m =
      finish_drain X t (without X (ys @ zs) r (rec_write_held r) (m_ledger m) m) \<and>
    tr_disposition t = Applied \<and> publications (tr_effects t) = [(rec_id r, Some NotSent)] \<and>
    discard_ids (tr_effects t) = (if rec_write_held r then [(rec_id r, rec_effect r)] else [])"
proof -
  have core: "machine_core m P" using ok by (simp add: machine_ok_def)
  note at = matching_at [OF p split_distinct [OF core p]]
  show ?thesis
    by (rule exI [of _ "transition_push (effect_failed (m_epoch m) (rec_id r) FailDeadlineElapsed NotSent)
          (transition_push (CancelDeadline (m_epoch m) (rec_id r))
            (if rec_write_held r
             then transition_push (DiscardWrite (rec_effect r) (m_epoch m) (rec_id r)) (transition_new Applied)
             else transition_new Applied))"])
      (simp add: deadline_elapsed_def at r without_def effect_failed_def Let_def)
qed

text \<open>A step that closes the epoch: every operation ends at once and no frame is left.\<close>

definition closes ::
  "CloseReason \<Rightarrow> (OperationId \<times> OperationFailure) option \<Rightarrow> ('f, 'g) ConnectionCore \<Rightarrow>
   'r ConnectionTransition \<Rightarrow> ('f, 'g) ConnectionCore \<Rightarrow> bool" where
  "closes reason failure c t c' \<longleftrightarrow>
     tr_effects t = visible (close_effects reason failure (core_machine c)) \<and>
     m_phase (core_machine c') = Closing \<and> m_close_reason (core_machine c') = Some reason \<and>
     pending (core_machine c') = [] \<and> wq_frames (core_writes c') = []"

lemma close_owner:
  assumes X: "externals_ok X" and ok: "core_ok X c P" and live: "m_phase (core_machine c) = Live"
  obtains m' where "close_with_failure_into X reason failure (transition_new d) (core_machine c) =
       ((transition_new d)\<lparr>tr_effects := close_effects reason failure (core_machine c)\<rparr>, m')"
    "m_phase m' = Closing" "m_close_reason m' = Some reason" "pending m' = []"
proof -
  have "machine_core (core_machine c) P" using core_ok_parts(2) [OF ok] by (simp add: machine_ok_def)
  from close_live [where t = "transition_new d" and reason = reason and failure = failure, OF X this live]
  show ?thesis using that by (metis append_Nil transition_simps(1))
qed

lemma core_closes:
  assumes X: "externals_ok X" and ok: "core_ok X c P" and live: "m_phase (core_machine c) = Live"
    and step: "machine_apply X input (core_machine c) =
      close_with_failure_into X reason failure (transition_new d) (core_machine c)"
  shows "\<exists>t c'. core_apply X input c = (Inr t, c') \<and> tr_disposition t = d \<and> closes reason failure c t c'"
proof (rule close_owner [OF X ok live, where reason = reason and failure = failure and d = d])
  fix m' :: ConnectionMachine
  assume m': "close_with_failure_into X reason failure (transition_new d :: unit ConnectionTransition) (core_machine c) =
       ((transition_new d)\<lparr>tr_effects := close_effects reason failure (core_machine c)\<rparr>, m')"
    "m_phase m' = Closing" "m_close_reason m' = Some reason" "pending m' = []"
  show ?thesis
  proof (rule core_apply_exact [OF X ok, of input])
    fix q assume q: "core_apply X input c =
        (Inr ((fst (machine_apply X input (core_machine c)))\<lparr>tr_effects :=
              visible (tr_effects (fst (machine_apply X input (core_machine c))))\<rparr>),
         c\<lparr>core_machine := snd (machine_apply X input (core_machine c)), core_writes := q\<rparr>)"
      "core_ok X (c\<lparr>core_machine := snd (machine_apply X input (core_machine c)), core_writes := q\<rparr>) P"
    with closed_empty(2) [OF q(2)] m' show ?thesis by (simp add: step closes_def)
  qed
qed

lemma core_reply_closes:
  fixes reply :: "'r InboundReply"
  assumes X: "externals_ok X" and ok: "core_ok X c P" and live: "m_phase (core_machine c) = Live"
    and step: "machine_apply_reply X reply (core_machine c) =
      close_with_failure_into X reason failure (transition_new d) (core_machine c)"
  shows "\<exists>t c'. core_apply_reply X reply c = (Inr t, c') \<and> tr_disposition t = d \<and> closes reason failure c t c'"
proof (rule close_owner [OF X ok live, where reason = reason and failure = failure and d = d])
  fix m' :: ConnectionMachine
  assume m': "close_with_failure_into X reason failure (transition_new d :: 'r ConnectionTransition) (core_machine c) =
       ((transition_new d)\<lparr>tr_effects := close_effects reason failure (core_machine c)\<rparr>, m')"
    "m_phase m' = Closing" "m_close_reason m' = Some reason" "pending m' = []"
  show ?thesis
  proof (rule core_apply_reply_exact [OF X ok, of reply])
    fix q assume q: "core_apply_reply X reply c =
        (Inr ((fst (machine_apply_reply X reply (core_machine c)))\<lparr>tr_effects :=
              visible (tr_effects (fst (machine_apply_reply X reply (core_machine c))))\<rparr>),
         c\<lparr>core_machine := snd (machine_apply_reply X reply (core_machine c)), core_writes := q\<rparr>)"
      "core_ok X (c\<lparr>core_machine := snd (machine_apply_reply X reply (core_machine c)), core_writes := q\<rparr>) P"
    with closed_empty(2) [OF q(2)] m' show ?thesis by (simp add: step closes_def)
  qed
qed

end
