(* ===== verification/Transport.thy ===== *)
theory Transport
  imports Vocabulary
begin

text \<open>
  The values that one connection slot of the crate \<^verbatim>\<open>bornera\<close> exchanges with its configuration and
  with its transport (paths below \<^verbatim>\<open>src/crates/bornera/src/\<close>): socket policy (\<^verbatim>\<open>socket.rs\<close>), limits and
  identities (\<^verbatim>\<open>config/\<close>), the budget, progress and pressure reports of \<^verbatim>\<open>transport/\<close>, the bounded
  diagnostics of \<^verbatim>\<open>snapshot.rs\<close>, complete outbound frames (\<^verbatim>\<open>frame.rs\<close>), and the trait \<^verbatim>\<open>SlotTransport\<close> of
  \<^verbatim>\<open>transport/port.rs\<close> as a record of functions on an opaque transport state \<open>'t\<close>.
\<close>

section \<open>Socket policy\<close>

type_synonym Span = nat

datatype TcpNoDelay = NoDelayEnabled | NoDelayDisabled

datatype SocketPolicyError = ZeroKeepaliveIdle

record TcpKeepalivePolicy =
  keepalive_idle :: Span

definition keepalive_policy_new :: "Span \<Rightarrow> SocketPolicyError + TcpKeepalivePolicy" where
  "keepalive_policy_new idle =
     (if idle = 0 then Inl ZeroKeepaliveIdle else Inr \<lparr>keepalive_idle = idle\<rparr>)"

record TcpSocketPolicy =
  sp_no_delay :: TcpNoDelay
  sp_keepalive :: "TcpKeepalivePolicy option"

definition TcpSocketPolicy_DEFAULT :: TcpSocketPolicy where
  "TcpSocketPolicy_DEFAULT = \<lparr>sp_no_delay = NoDelayEnabled, sp_keepalive = None\<rparr>"

definition socket_policy_new :: "TcpNoDelay \<Rightarrow> TcpSocketPolicy" where
  "socket_policy_new no_delay = \<lparr>sp_no_delay = no_delay, sp_keepalive = None\<rparr>"

definition socket_policy_keepalive :: "TcpKeepalivePolicy \<Rightarrow> TcpSocketPolicy \<Rightarrow> TcpSocketPolicy" where
  "socket_policy_keepalive keepalive policy = policy\<lparr>sp_keepalive := Some keepalive\<rparr>"

section \<open>Limits of one slot\<close>

record DecoderLimits =
  dl_buffered_bytes :: RetainedBytes
  dl_reply_bytes :: RetainedBytes

record IoLimits =
  io_operations_limit :: usize
  io_chunk_limit :: usize

record TransportLimits =
  tl_retained_bytes :: RetainedBytes

record PublicationLimits =
  pl_lifecycle_events :: usize

datatype ConnectionSlotLimitsError = SlotZeroOperationCapacity | OutcomeRetainedOverflow

record ConnectionSlotLimits =
  sl_connection :: ConnectionLimits
  sl_decoder :: DecoderLimits
  sl_io :: IoLimits
  sl_transport :: TransportLimits
  sl_publication :: PublicationLimits
  sl_outcome_bytes :: RetainedBytes
  sl_operation_capacity :: usize

definition slot_limits_new ::
  "ConnectionLimits \<Rightarrow> DecoderLimits \<Rightarrow> IoLimits \<Rightarrow> TransportLimits \<Rightarrow> PublicationLimits \<Rightarrow>
   ConnectionSlotLimitsError + ConnectionSlotLimits" where
  "slot_limits_new connection decoder io transport publication =
     (let operations = max_operations connection in
      if operations > USIZE_MAX then Inl OutcomeRetainedOverflow
      else if operations = 0 then Inl SlotZeroOperationCapacity
      else (case usize_checked_mul (dl_reply_bytes decoder) operations of
        None \<Rightarrow> Inl OutcomeRetainedOverflow
      | Some outcome_bytes \<Rightarrow>
          Inr \<lparr>sl_connection = connection, sl_decoder = decoder, sl_io = io,
               sl_transport = transport, sl_publication = publication,
               sl_outcome_bytes = outcome_bytes, sl_operation_capacity = operations\<rparr>))"

definition decoder_bytes :: "ConnectionSlotLimits \<Rightarrow> RetainedBytes" where
  "decoder_bytes l = dl_buffered_bytes (sl_decoder l)"

definition reply_bytes :: "ConnectionSlotLimits \<Rightarrow> RetainedBytes" where
  "reply_bytes l = dl_reply_bytes (sl_decoder l)"

definition io_operations :: "ConnectionSlotLimits \<Rightarrow> usize" where
  "io_operations l = io_operations_limit (sl_io l)"

definition io_chunk_bytes :: "ConnectionSlotLimits \<Rightarrow> usize" where
  "io_chunk_bytes l = io_chunk_limit (sl_io l)"

definition transport_retained_bytes :: "ConnectionSlotLimits \<Rightarrow> RetainedBytes" where
  "transport_retained_bytes l = tl_retained_bytes (sl_transport l)"

definition operation_capacity :: "ConnectionSlotLimits \<Rightarrow> usize" where
  "operation_capacity l = sl_operation_capacity l"

text \<open>The limits of the timer queue and of the publication batches: an entry count and a byte count.\<close>

definition timer_limits :: "ConnectionSlotLimits \<Rightarrow> usize \<times> RetainedBytes" where
  "timer_limits l = (sl_operation_capacity l, 0)"

definition outcome_limits :: "ConnectionSlotLimits \<Rightarrow> usize \<times> RetainedBytes" where
  "outcome_limits l = (sl_operation_capacity l, sl_outcome_bytes l)"

definition lifecycle_limits :: "ConnectionSlotLimits \<Rightarrow> usize \<times> RetainedBytes" where
  "lifecycle_limits l = (pl_lifecycle_events (sl_publication l), 0)"

definition recovery_lifecycle_limits :: "ConnectionSlotLimits \<Rightarrow> usize \<times> RetainedBytes" where
  "recovery_lifecycle_limits l = (max (pl_lifecycle_events (sl_publication l)) 4, 0)"

section \<open>Identity of one connection attempt\<close>

type_synonym TimerOwnerId = u64

record ConnectionIdentity =
  ci_endpoint :: EndpointId
  ci_lane :: LaneId
  ci_connection :: ConnectionId
  ci_epoch :: ConnectionEpoch

record ConnectionSlotConfig =
  cfg_identity :: ConnectionIdentity
  cfg_connect_deadline :: Deadline
  cfg_timer_owner :: TimerOwnerId
  cfg_socket_policy :: TcpSocketPolicy

definition slot_config_new ::
  "ConnectionIdentity \<Rightarrow> Deadline \<Rightarrow> TimerOwnerId \<Rightarrow> ConnectionSlotConfig" where
  "slot_config_new identity deadline owner =
     \<lparr>cfg_identity = identity, cfg_connect_deadline = deadline, cfg_timer_owner = owner,
      cfg_socket_policy = TcpSocketPolicy_DEFAULT\<rparr>"

definition slot_config_socket_policy ::
  "TcpSocketPolicy \<Rightarrow> ConnectionSlotConfig \<Rightarrow> ConnectionSlotConfig" where
  "slot_config_socket_policy policy config = config\<lparr>cfg_socket_policy := policy\<rparr>"

section \<open>Input and output errors, diagnostics\<close>

text \<open>
  \<^verbatim>\<open>std::io::Error\<close>: its category and the platform code. The source names three categories; the
  other ones of the standard library are only passed on.
\<close>

datatype ErrorKind = WouldBlock | KindTimedOut | KindOther | KindPlatform nat

record IoError =
  ioe_kind :: ErrorKind
  ioe_raw_os_error :: "int option"

datatype TransportFailurePhase =
    PhConnect | PhSocketPolicy | PhEstablishment | PhTransportRead | PhTransportWrite
  | PhRead | PhWrite | PhShutdown | PhPressure | PhReadiness

datatype TransportFailureKind =
    FkIo | FkProtocol | FkCertificate | FkServerName | FkTruncated | FkCapacity | FkTimedOut | FkContract

record TransportDiagnostic =
  td_phase :: TransportFailurePhase
  td_failure :: TransportFailureKind
  td_kind :: ErrorKind
  td_raw_os_error :: "int option"
  td_code :: "u32 option"

definition diagnostic_new ::
  "TransportFailurePhase \<Rightarrow> TransportFailureKind \<Rightarrow> ErrorKind \<Rightarrow> u32 option \<Rightarrow> TransportDiagnostic" where
  "diagnostic_new phase failure kind code =
     \<lparr>td_phase = phase, td_failure = failure, td_kind = kind, td_raw_os_error = None, td_code = code\<rparr>"

definition diagnostic_from_io :: "TransportFailurePhase \<Rightarrow> IoError \<Rightarrow> TransportDiagnostic" where
  "diagnostic_from_io phase error =
     \<lparr>td_phase = phase, td_failure = FkIo, td_kind = ioe_kind error,
      td_raw_os_error = ioe_raw_os_error error, td_code = None\<rparr>"

definition diagnostic_in_phase ::
  "TransportFailurePhase \<Rightarrow> TransportDiagnostic \<Rightarrow> TransportDiagnostic" where
  "diagnostic_in_phase phase d = d\<lparr>td_phase := phase\<rparr>"

record TransportError =
  te_diagnostic :: TransportDiagnostic
  te_source :: "IoError option"

definition transport_error_new :: "TransportDiagnostic \<Rightarrow> TransportError" where
  "transport_error_new d = \<lparr>te_diagnostic = d, te_source = None\<rparr>"

definition transport_error_from_io :: "TransportFailurePhase \<Rightarrow> IoError \<Rightarrow> TransportError" where
  "transport_error_from_io phase source =
     \<lparr>te_diagnostic = diagnostic_from_io phase source, te_source = Some source\<rparr>"

section \<open>Budget, progress and pressure\<close>

record TransportBudget =
  tb_operations :: usize
  tb_read_bytes :: usize
  tb_write_bytes :: usize

definition transport_budget_new :: "usize \<Rightarrow> usize \<Rightarrow> usize \<Rightarrow> TransportBudget" where
  "transport_budget_new operations read_bytes write_bytes =
     \<lparr>tb_operations = operations, tb_read_bytes = read_bytes, tb_write_bytes = write_bytes\<rparr>"

record TransportProgress =
  tpr_operations :: usize
  tpr_read_bytes :: usize
  tpr_written_bytes :: usize

definition TransportProgress_IDLE :: TransportProgress where
  "TransportProgress_IDLE = \<lparr>tpr_operations = 0, tpr_read_bytes = 0, tpr_written_bytes = 0\<rparr>"

definition transport_progress_new :: "usize \<Rightarrow> usize \<Rightarrow> usize \<Rightarrow> TransportProgress" where
  "transport_progress_new operations read_bytes written_bytes =
     \<lparr>tpr_operations = operations, tpr_read_bytes = read_bytes, tpr_written_bytes = written_bytes\<rparr>"

definition transport_progress_operation :: TransportProgress where
  "transport_progress_operation = transport_progress_new 1 0 0"

definition progress_fits :: "TransportBudget \<Rightarrow> TransportProgress \<Rightarrow> bool" where
  "progress_fits budget p \<longleftrightarrow>
     tpr_operations p \<le> tb_operations budget \<and> tpr_read_bytes p \<le> tb_read_bytes budget \<and>
     tpr_written_bytes p \<le> tb_write_bytes budget"

definition progress_is_idle :: "TransportProgress \<Rightarrow> bool" where
  "progress_is_idle p \<longleftrightarrow> tpr_operations p = 0 \<and> tpr_read_bytes p = 0 \<and> tpr_written_bytes p = 0"

text \<open>
  The fields of a progress report are private: it is \<open>IDLE\<close> or comes from \<^verbatim>\<open>new\<close>, which takes a nonzero
  operation count. This is the type invariant that follows.
\<close>

definition progress_wf :: "TransportProgress \<Rightarrow> bool" where
  "progress_wf p \<longleftrightarrow> (tpr_operations p = 0 \<longrightarrow> p = TransportProgress_IDLE)"

lemma progress_wf_constructors:
  "progress_wf TransportProgress_IDLE" "0 < n \<Longrightarrow> progress_wf (transport_progress_new n r w)"
  "progress_wf transport_progress_operation"
  by (simp_all add: progress_wf_def transport_progress_new_def transport_progress_operation_def)

lemma progress_busy: "progress_wf p \<Longrightarrow> \<not> progress_is_idle p \<Longrightarrow> 0 < tpr_operations p"
  by (auto simp: progress_wf_def progress_is_idle_def TransportProgress_IDLE_def)

record TransportPressure =
  prs_inbound :: RetainedBytes
  prs_outbound :: RetainedBytes
  prs_plaintext :: RetainedBytes
  prs_protocol :: RetainedBytes
  prs_total :: RetainedBytes

definition TransportPressure_ZERO :: TransportPressure where
  "TransportPressure_ZERO =
     \<lparr>prs_inbound = 0, prs_outbound = 0, prs_plaintext = 0, prs_protocol = 0, prs_total = 0\<rparr>"

definition TransportPressure_MAX :: TransportPressure where
  "TransportPressure_MAX =
     \<lparr>prs_inbound = 0, prs_outbound = 0, prs_plaintext = 0, prs_protocol = USIZE_MAX,
      prs_total = USIZE_MAX\<rparr>"

datatype TransportPressureError = TransportPressureError

definition transport_pressure_new ::
  "'g externals \<Rightarrow> RetainedBytes \<Rightarrow> RetainedBytes \<Rightarrow> RetainedBytes \<Rightarrow> RetainedBytes \<Rightarrow>
   TransportPressureError + TransportPressure" where
  "transport_pressure_new X inbound outbound plaintext protocol =
     (case rb_checked_add X inbound outbound of
        None \<Rightarrow> Inl TransportPressureError
      | Some total1 \<Rightarrow>
          (case rb_checked_add X total1 plaintext of
             None \<Rightarrow> Inl TransportPressureError
           | Some total2 \<Rightarrow>
               (case rb_checked_add X total2 protocol of
                  None \<Rightarrow> Inl TransportPressureError
                | Some total3 \<Rightarrow>
                    Inr \<lparr>prs_inbound = inbound, prs_outbound = outbound,
                         prs_plaintext = plaintext, prs_protocol = protocol,
                         prs_total = total3\<rparr>)))"

section \<open>Complete outbound frames\<close>

record OutboundFrame =
  of_bytes :: "byte list"
  of_retained :: RetainedBytes

datatype OutboundFrameError =
    LengthOverflow
  | Underreported (under_visible: RetainedBytes) (under_retained: RetainedBytes)

definition outbound_frame_new ::
  "'g externals \<Rightarrow> byte list \<Rightarrow> RetainedBytes \<Rightarrow> OutboundFrameError + OutboundFrame" where
  "outbound_frame_new X bytes retained =
     (case rb_try_from X (length bytes) of
        None \<Rightarrow> Inl LengthOverflow
      | Some visible \<Rightarrow>
          if retained < visible then Inl (Underreported visible retained)
          else Inr \<lparr>of_bytes = bytes, of_retained = retained\<rparr>)"

definition outbound_frame_copy_from_slice ::
  "'g externals \<Rightarrow> byte list \<Rightarrow> OutboundFrameError + OutboundFrame" where
  "outbound_frame_copy_from_slice X bytes =
     (case rb_try_from X (length bytes) of
        None \<Rightarrow> Inl LengthOverflow
      | Some retained \<Rightarrow> Inr \<lparr>of_bytes = bytes, of_retained = retained\<rparr>)"

section \<open>The transport port\<close>

text \<open>
  \<^verbatim>\<open>SlotTransport\<close> with its supertraits \<^verbatim>\<open>Read\<close> and \<^verbatim>\<open>Write\<close>. A read takes the contents of the buffer it may
  fill and returns them as it left them, with the count it reports; a safe slice keeps its length.
\<close>

record 't SlotTransport =
  tp_drive_establishment ::
    "TcpSocketPolicy \<Rightarrow> TransportBudget \<Rightarrow> 't \<Rightarrow> (TransportError + TransportProgress) \<times> 't"
  tp_drive_transport :: "TransportBudget \<Rightarrow> 't \<Rightarrow> (TransportError + TransportProgress) \<times> 't"
  tp_begin_shutdown :: "TransportBudget \<Rightarrow> 't \<Rightarrow> (TransportError + TransportProgress) \<times> 't"
  tp_can_establish :: "'t \<Rightarrow> bool"
  tp_has_transport_work :: "'t \<Rightarrow> bool"
  tp_is_shutdown_complete :: "'t \<Rightarrow> bool"
  tp_is_open :: "'t \<Rightarrow> bool"
  tp_can_read :: "'t \<Rightarrow> bool"
  tp_can_write :: "'t \<Rightarrow> bool"
  tp_pressure :: "'t \<Rightarrow> TransportPressure"
  tp_pressure_limit :: "'t \<Rightarrow> TransportLimits"
  tp_clear_read :: "'t \<Rightarrow> 't"
  tp_clear_write :: "'t \<Rightarrow> 't"
  tp_read :: "byte list \<Rightarrow> 't \<Rightarrow> (IoError + usize) \<times> byte list \<times> 't"
  tp_write :: "byte list \<Rightarrow> 't \<Rightarrow> (IoError + usize) \<times> 't"

text \<open>
  What follows from the types of the trait alone: progress reports are well formed.
\<close>

definition transport_wf :: "'t SlotTransport \<Rightarrow> bool" where
  "transport_wf T \<longleftrightarrow>
     (\<forall>policy budget t p t'. tp_drive_establishment T policy budget t = (Inr p, t') \<longrightarrow> progress_wf p) \<and>
     (\<forall>budget t p t'. tp_drive_transport T budget t = (Inr p, t') \<longrightarrow> progress_wf p) \<and>
     (\<forall>budget t p t'. tp_begin_shutdown T budget t = (Inr p, t') \<longrightarrow> progress_wf p)"

section \<open>Limits and pressure\<close>

lemma slot_limits_new_exact:
  assumes "slot_limits_new connection decoder io transport publication = Inr l"
  shows "operation_capacity l = max_operations connection" "0 < operation_capacity l"
    "sl_outcome_bytes l = reply_bytes l * operation_capacity l" "sl_outcome_bytes l \<le> USIZE_MAX"
    "sl_connection l = connection" "operation_capacity l \<le> USIZE_MAX"
  using assms
  by (auto simp: slot_limits_new_def operation_capacity_def reply_bytes_def usize_checked_mul_def Let_def
      split: if_splits option.splits)

lemma transport_pressure_new_exact:
  assumes "externals_ok X"
  shows "transport_pressure_new X i out pl pr =
    (if i + out + pl + pr \<le> USIZE_MAX
     then Inr \<lparr>prs_inbound = i, prs_outbound = out, prs_plaintext = pl, prs_protocol = pr,
               prs_total = i + out + pl + pr\<rparr>
     else Inl TransportPressureError)"
  using assms by (auto simp: transport_pressure_new_def rb_checked_add_ok)

end
