(* ===== verification/Slot.thy ===== *)
theory Slot
  imports Transport Framing System
begin

text \<open>
  \<^verbatim>\<open>crates/bornera/src/\<close>, one connection slot: \<^verbatim>\<open>slot.rs\<close> and \<^verbatim>\<open>state.rs\<close> (state and failure latch),
  \<^verbatim>\<open>lifecycle.rs\<close>, \<^verbatim>\<open>transition.rs\<close> (interpretation of the owner's effects through timers and
  publication batches), \<^verbatim>\<open>failure.rs\<close>, \<^verbatim>\<open>admission.rs\<close>, \<^verbatim>\<open>control.rs\<close>, \<^verbatim>\<open>slot_close.rs\<close> and the slot part of
  \<^verbatim>\<open>recovery.rs\<close>.
\<close>

section \<open>Publications and errors\<close>

datatype ConnectionEvent =
    EvTransportOpened (ev_sequence: u64) (ev_epoch: ConnectionEpoch)
  | EvAdmissionOpened (ev_sequence: u64) (ev_epoch: ConnectionEpoch)
  | EvClosing (ev_sequence: u64) (ev_epoch: ConnectionEpoch) (ev_reason: CloseReason)
  | EvClosed (ev_sequence: u64) (ev_epoch: ConnectionEpoch) (ev_reason: CloseReason)

record 'r EngineOutcome =
  eo_epoch :: ConnectionEpoch
  eo_operation :: OperationId
  eo_outcome :: "'r OperationOutcome"

fun outcome_retained_bytes :: "('r \<Rightarrow> RetainedBytes) \<Rightarrow> 'r OperationOutcome \<Rightarrow> RetainedBytes" where
  "outcome_retained_bytes retained (OutReply frame) = retained frame"
| "outcome_retained_bytes retained _ = 0"

definition engine_outcome_retained_bytes ::
  "('r \<Rightarrow> RetainedBytes) \<Rightarrow> 'r EngineOutcome \<Rightarrow> RetainedBytes" where
  "engine_outcome_retained_bytes retained o' = outcome_retained_bytes retained (eo_outcome o')"

text \<open>Failure values of the crates calandria and calandria-mio, which the slot only passes on.\<close>

typedecl EventBatchFailure
typedecl TimerScheduleFailure
typedecl MioError

datatype EngineInvariant =
    InvResourceToken
  | UnexpectedDiscardEffect
  | UnexpectedUnitReply
  | DeadlineIndexCapacity
  | DeadlineSchedule TimerScheduleFailure
  | OutcomePublication EventBatchFailure
  | RecoveryOutcomePublication EventBatchFailure
  | LifecyclePublication EventBatchFailure
  | RecoveryLifecyclePublication EventBatchFailure
  | EventSequenceExhausted
  | MissingCloseReason
  | MissingShutdownDeadline
  | UnsupportedCoreEffect
  | TransportReadContract (read_capacity: usize) (read_reported: usize)
  | TransportProgressContract TransportBudget TransportProgress
  | TransportOpenedBeforeEstablishment
  | TransportRetainedCapacity (capacity_limit: RetainedBytes) (capacity_reported: TransportPressure)
  | TransportLimitContract (contract_limit: RetainedBytes) (contract_reported: RetainedBytes)
  | TransportNoProgress

datatype OwnerFailure = OwnerCore | OwnerReadiness | OwnerInvariant

datatype EngineError =
    EngMio MioError
  | EngCore ConnectionCoreError
  | EngInvariant EngineInvariant
  | EngOwnerFailed OwnerFailure

fun owner_failure_from :: "EngineError \<Rightarrow> OwnerFailure" where
  "owner_failure_from (EngCore _) = OwnerCore"
| "owner_failure_from (EngMio _) = OwnerReadiness"
| "owner_failure_from (EngInvariant _) = OwnerInvariant"
| "owner_failure_from (EngOwnerFailed reason) = reason"

datatype 'f EngineCommitError =
    Rejected "'f FrameCommitError"
  | AcceptedOwnerFailure OperationId EngineError
  | CommitOwnerFailed OwnerFailure OperationPermit 'f

section \<open>The state of one slot\<close>

record DeadlineEvent =
  dev_epoch :: ConnectionEpoch
  dev_operation :: OperationId

record 'k DeadlineEntry =
  den_operation :: OperationId
  den_token :: 'k

datatype IoPreference = PrefTransport | PrefDecode | PrefRead | PrefWrite

fun pref_next :: "IoPreference \<Rightarrow> IoPreference" where
  "pref_next PrefTransport = PrefDecode"
| "pref_next PrefDecode = PrefRead"
| "pref_next PrefRead = PrefWrite"
| "pref_next PrefWrite = PrefTransport"

datatype ShutdownState = ShutImmediate | ShutPending Deadline | ShutStarted Deadline | ShutComplete

datatype CloseDirective = DirCore CloseReason ShutdownState | DirAbort

fun settlement_ready :: "CloseDirective \<Rightarrow> bool" where
  "settlement_ready (DirCore _ ShutImmediate) = True"
| "settlement_ready (DirCore _ ShutComplete) = True"
| "settlement_ready DirAbort = True"
| "settlement_ready _ = False"

fun shutdown_deadline :: "CloseDirective \<Rightarrow> Deadline option" where
  "shutdown_deadline (DirCore _ (ShutPending deadline)) = Some deadline"
| "shutdown_deadline (DirCore _ (ShutStarted deadline)) = Some deadline"
| "shutdown_deadline _ = None"

datatype EngineState = Running | Failed OwnerFailure

fun state_failure :: "EngineState \<Rightarrow> OwnerFailure option" where
  "state_failure Running = None"
| "state_failure (Failed reason) = Some reason"

datatype TransportState = Connecting | TransportOpen | TransportClosing | TransportClosed

text \<open>
  The functions that come from other crates: the timer queue and the publication batch of
  calandria (opaque states \<open>'q\<close> with tokens \<open>'k\<close>, and one batch type each for outcomes and events),
  and the caller's decoder, classifier and reply frames. An item is pushed together with the
  charge that the batch asks it for. A classification error carries nothing the slot looks at.
\<close>

record ('q, 'k) TimerQueue =
  tq_new :: "TimerOwnerId \<Rightarrow> usize \<times> RetainedBytes \<Rightarrow> 'q"
  tq_schedule :: "Deadline \<Rightarrow> DeadlineEvent \<Rightarrow> 'q \<Rightarrow> (TimerScheduleFailure + 'k) \<times> 'q"
  tq_cancel :: "'k \<Rightarrow> 'q \<Rightarrow> 'q"
  tq_next_deadline :: "'q \<Rightarrow> Deadline option"
  tq_pop_due :: "Moment \<Rightarrow> 'q \<Rightarrow> ('k \<times> DeadlineEvent) option \<times> 'q"
  tq_len :: "'q \<Rightarrow> usize"

record ('b, 'a) EventBatch =
  eb_new :: "usize \<times> RetainedBytes \<Rightarrow> 'b"
  eb_try_push :: "RetainedBytes \<Rightarrow> 'a \<Rightarrow> 'b \<Rightarrow> ('a \<times> EventBatchFailure + unit) \<times> 'b"
  eb_drain :: "'b \<Rightarrow> 'a list \<times> 'b"
  eb_len :: "'b \<Rightarrow> usize"

record ('g, 'd, 'r, 'e, 'c, 'q, 'k, 'o, 'l) services =
  sv_externals :: "'g externals"
  sv_decoder :: "('d, 'r, 'e) FrameDecoder"
  sv_reply_key :: "'r \<Rightarrow> 'c \<Rightarrow> MatchKey option \<times> 'c"
  sv_frame_retained :: "'r \<Rightarrow> RetainedBytes"
  sv_timers :: "('q, 'k) TimerQueue"
  sv_outcomes :: "('o, 'r EngineOutcome) EventBatch"
  sv_events :: "('l, ConnectionEvent) EventBatch"

record ('g, 'd, 'c, 'q, 'k, 'o, 'l) ConnectionSlot =
  sl_core :: "(OutboundFrame, 'g) ConnectionCore"
  sl_driver :: "'d FrameDriver"
  sl_classifier :: 'c
  sl_limits :: ConnectionSlotLimits
  sl_connect_deadline :: Deadline
  sl_socket_policy :: TcpSocketPolicy
  sl_timers :: 'q
  sl_deadlines :: "'k DeadlineEntry list"
  sl_outcomes :: 'o
  sl_lifecycle :: 'l
  sl_recovery_outcomes :: 'o
  sl_recovery_events :: 'l
  sl_event_sequence :: u64
  sl_read_buffer :: "byte list"
  sl_decoder_pending :: bool
  sl_io_preference :: IoPreference
  sl_transport_state :: TransportState
  sl_transport_diagnostic :: "TransportDiagnostic option"
  sl_transport_pressure :: "TransportPressure option"
  sl_transport_retained_limit :: "RetainedBytes option"
  sl_transport_contract_diverged :: bool
  sl_drain_deadline :: "Deadline option"
  sl_close_request :: "CloseDirective option"
  sl_state :: EngineState

definition slot_new ::
  "('g, 'd, 'r, 'e, 'c, 'q, 'k, 'o, 'l) services \<Rightarrow> LedgerRef \<Rightarrow> ConnectionSlotConfig \<Rightarrow>
   ConnectionSlotLimits \<Rightarrow> 'd \<Rightarrow> 'c \<Rightarrow>
   'e FrameDecodeError + ('g, 'd, 'c, 'q, 'k, 'o, 'l) ConnectionSlot" where
  "slot_new S ref config limits decoder classifier =
     (case frame_driver_new (sv_decoder S) decoder (decoder_bytes limits) of
        Inl e \<Rightarrow> Inl e
      | Inr driver \<Rightarrow>
          (let identity = cfg_identity config in
           Inr \<lparr>sl_core = core_new (sv_externals S) ref (ci_endpoint identity) (ci_lane identity)
                            (ci_connection identity) (ci_epoch identity) (sl_connection limits),
                sl_driver = driver, sl_classifier = classifier, sl_limits = limits,
                sl_connect_deadline = cfg_connect_deadline config,
                sl_socket_policy = cfg_socket_policy config,
                sl_timers = tq_new (sv_timers S) (cfg_timer_owner config) (timer_limits limits),
                sl_deadlines = [],
                sl_outcomes = eb_new (sv_outcomes S) (outcome_limits limits),
                sl_lifecycle = eb_new (sv_events S) (lifecycle_limits limits),
                sl_recovery_outcomes = eb_new (sv_outcomes S) (outcome_limits limits),
                sl_recovery_events = eb_new (sv_events S) (recovery_lifecycle_limits limits),
                sl_event_sequence = 0,
                sl_read_buffer = replicate (io_chunk_bytes limits) 0,
                sl_decoder_pending = False, sl_io_preference = PrefTransport,
                sl_transport_state = Connecting, sl_transport_diagnostic = None,
                sl_transport_pressure = None, sl_transport_retained_limit = None,
                sl_transport_contract_diverged = False, sl_drain_deadline = None,
                sl_close_request = None, sl_state = Running\<rparr>))"

abbreviation slot_epoch :: "('g, 'd, 'c, 'q, 'k, 'o, 'l) ConnectionSlot \<Rightarrow> ConnectionEpoch" where
  "slot_epoch s \<equiv> m_epoch (core_machine (sl_core s))"

definition is_transport_open :: "('g, 'd, 'c, 'q, 'k, 'o, 'l) ConnectionSlot \<Rightarrow> bool" where
  "is_transport_open s \<longleftrightarrow> sl_transport_state s = TransportOpen"

definition is_connecting :: "('g, 'd, 'c, 'q, 'k, 'o, 'l) ConnectionSlot \<Rightarrow> bool" where
  "is_connecting s \<longleftrightarrow> sl_transport_state s = Connecting"

definition record_transport_failure ::
  "TransportDiagnostic \<Rightarrow> ('g, 'd, 'c, 'q, 'k, 'o, 'l) ConnectionSlot \<Rightarrow>
   ('g, 'd, 'c, 'q, 'k, 'o, 'l) ConnectionSlot" where
  "record_transport_failure diagnostic s = s\<lparr>sl_transport_diagnostic := Some diagnostic\<rparr>"

section \<open>The failure latch\<close>

definition ensure_running ::
  "('g, 'd, 'c, 'q, 'k, 'o, 'l) ConnectionSlot \<Rightarrow>
   (EngineError + unit) \<times> ('g, 'd, 'c, 'q, 'k, 'o, 'l) ConnectionSlot" where
  "ensure_running s =
     (case state_failure (sl_state s) of
        None \<Rightarrow> (Inr (), s)
      | Some reason \<Rightarrow> (Inl (EngOwnerFailed reason), s))"

definition latch_owner_failure ::
  "OwnerFailure \<Rightarrow> ('g, 'd, 'c, 'q, 'k, 'o, 'l) ConnectionSlot \<Rightarrow>
   ('g, 'd, 'c, 'q, 'k, 'o, 'l) ConnectionSlot" where
  "latch_owner_failure reason s =
     (if state_failure (sl_state s) \<noteq> None then s
      else s\<lparr>sl_state := Failed reason, sl_drain_deadline := None, sl_close_request := Some DirAbort\<rparr>)"

definition latch_failure ::
  "EngineError \<Rightarrow> ('g, 'd, 'c, 'q, 'k, 'o, 'l) ConnectionSlot \<Rightarrow>
   ('g, 'd, 'c, 'q, 'k, 'o, 'l) ConnectionSlot" where
  "latch_failure error s =
     (if state_failure (sl_state s) \<noteq> None \<or> (case error of EngOwnerFailed _ \<Rightarrow> True | _ \<Rightarrow> False) then s
      else latch_owner_failure (owner_failure_from error) s)"

definition latch ::
  "(EngineError + 'a) \<times> ('g, 'd, 'c, 'q, 'k, 'o, 'l) ConnectionSlot \<Rightarrow>
   (EngineError + 'a) \<times> ('g, 'd, 'c, 'q, 'k, 'o, 'l) ConnectionSlot" where
  "latch rs =
     (case rs of
        (Inl error, s) \<Rightarrow> (Inl error, latch_failure error s)
      | (Inr x, s) \<Rightarrow> (Inr x, s))"

section \<open>Lifecycle publication\<close>

definition next_event_sequence ::
  "('g, 'd, 'c, 'q, 'k, 'o, 'l) ConnectionSlot \<Rightarrow> EngineError + u64" where
  "next_event_sequence s =
     (case u64_checked_inc (sl_event_sequence s) of
        None \<Rightarrow> Inl (EngInvariant EventSequenceExhausted)
      | Some sequence \<Rightarrow> Inr sequence)"

definition publish_event ::
  "('g, 'd, 'r, 'e, 'c, 'q, 'k, 'o, 'l) services \<Rightarrow> ConnectionEvent \<Rightarrow>
   ('g, 'd, 'c, 'q, 'k, 'o, 'l) ConnectionSlot \<Rightarrow>
   (EngineError + unit) \<times> ('g, 'd, 'c, 'q, 'k, 'o, 'l) ConnectionSlot" where
  "publish_event S event s =
     (case eb_try_push (sv_events S) 0 event (sl_lifecycle s) of
        (Inl (rejected, failure), batch) \<Rightarrow>
          (let s1 = s\<lparr>sl_lifecycle := batch, sl_event_sequence := ev_sequence rejected\<rparr> in
           case eb_try_push (sv_events S) 0 rejected (sl_recovery_events s1) of
             (Inl (_, failure'), recovery) \<Rightarrow>
               (Inl (EngInvariant (RecoveryLifecyclePublication failure')),
                s1\<lparr>sl_recovery_events := recovery\<rparr>)
           | (Inr _, recovery) \<Rightarrow>
               (Inl (EngInvariant (LifecyclePublication failure)),
                s1\<lparr>sl_recovery_events := recovery\<rparr>))
      | (Inr _, batch) \<Rightarrow>
          (Inr (), s\<lparr>sl_lifecycle := batch, sl_event_sequence := ev_sequence event\<rparr>))"

definition publish_sequenced ::
  "('g, 'd, 'r, 'e, 'c, 'q, 'k, 'o, 'l) services \<Rightarrow> (u64 \<Rightarrow> ConnectionEpoch \<Rightarrow> ConnectionEvent) \<Rightarrow>
   ('g, 'd, 'c, 'q, 'k, 'o, 'l) ConnectionSlot \<Rightarrow>
   (EngineError + unit) \<times> ('g, 'd, 'c, 'q, 'k, 'o, 'l) ConnectionSlot" where
  "publish_sequenced S event s =
     (case next_event_sequence s of
        Inl e \<Rightarrow> (Inl e, s)
      | Inr sequence \<Rightarrow> publish_event S (event sequence (slot_epoch s)) s)"

definition publish_transport_opened ::
  "('g, 'd, 'r, 'e, 'c, 'q, 'k, 'o, 'l) services \<Rightarrow> ('g, 'd, 'c, 'q, 'k, 'o, 'l) ConnectionSlot \<Rightarrow>
   (EngineError + unit) \<times> ('g, 'd, 'c, 'q, 'k, 'o, 'l) ConnectionSlot" where
  "publish_transport_opened S = publish_sequenced S EvTransportOpened"

definition publish_admission_opened ::
  "('g, 'd, 'r, 'e, 'c, 'q, 'k, 'o, 'l) services \<Rightarrow> ('g, 'd, 'c, 'q, 'k, 'o, 'l) ConnectionSlot \<Rightarrow>
   (EngineError + unit) \<times> ('g, 'd, 'c, 'q, 'k, 'o, 'l) ConnectionSlot" where
  "publish_admission_opened S = publish_sequenced S EvAdmissionOpened"

definition publish_closing ::
  "('g, 'd, 'r, 'e, 'c, 'q, 'k, 'o, 'l) services \<Rightarrow> CloseReason \<Rightarrow>
   ('g, 'd, 'c, 'q, 'k, 'o, 'l) ConnectionSlot \<Rightarrow>
   (EngineError + unit) \<times> ('g, 'd, 'c, 'q, 'k, 'o, 'l) ConnectionSlot" where
  "publish_closing S reason = publish_sequenced S (\<lambda>sequence epoch. EvClosing sequence epoch reason)"

definition publish_closed ::
  "('g, 'd, 'r, 'e, 'c, 'q, 'k, 'o, 'l) services \<Rightarrow> CloseReason \<Rightarrow>
   ('g, 'd, 'c, 'q, 'k, 'o, 'l) ConnectionSlot \<Rightarrow>
   (EngineError + unit) \<times> ('g, 'd, 'c, 'q, 'k, 'o, 'l) ConnectionSlot" where
  "publish_closed S reason = publish_sequenced S (\<lambda>sequence epoch. EvClosed sequence epoch reason)"

section \<open>Interpretation of effects\<close>

text \<open>\<^verbatim>\<open>Vec::swap_remove\<close> within bounds: the last element takes the place of the removed one.\<close>

definition swap_remove :: "nat \<Rightarrow> 'a list \<Rightarrow> 'a list" where
  "swap_remove i xs = butlast (xs[i := last xs])"

definition retain_first :: "EngineError option \<Rightarrow> EngineError + unit \<Rightarrow> EngineError option" where
  "retain_first failure result =
     (case result of
        Inl error \<Rightarrow> (case failure of None \<Rightarrow> Some error | Some first \<Rightarrow> Some first)
      | Inr _ \<Rightarrow> failure)"

definition cancel_deadline ::
  "('g, 'd, 'r, 'e, 'c, 'q, 'k, 'o, 'l) services \<Rightarrow> OperationId \<Rightarrow>
   ('g, 'd, 'c, 'q, 'k, 'o, 'l) ConnectionSlot \<Rightarrow> ('g, 'd, 'c, 'q, 'k, 'o, 'l) ConnectionSlot" where
  "cancel_deadline S operation s =
     (case position (\<lambda>entry. den_operation entry = operation) (sl_deadlines s) of
        None \<Rightarrow> s
      | Some index \<Rightarrow>
          (let entry = sl_deadlines s ! index in
           s\<lparr>sl_deadlines := swap_remove index (sl_deadlines s),
             sl_timers := tq_cancel (sv_timers S) (den_token entry) (sl_timers s)\<rparr>))"

definition schedule_deadline ::
  "('g, 'd, 'r, 'e, 'c, 'q, 'k, 'o, 'l) services \<Rightarrow> DeadlineEvent \<Rightarrow> Deadline \<Rightarrow>
   ('g, 'd, 'c, 'q, 'k, 'o, 'l) ConnectionSlot \<Rightarrow>
   (EngineError + unit) \<times> ('g, 'd, 'c, 'q, 'k, 'o, 'l) ConnectionSlot" where
  "schedule_deadline S event deadline s0 =
     (let s = cancel_deadline S (dev_operation event) s0 in
      if length (sl_deadlines s) \<ge> operation_capacity (sl_limits s)
      then (Inl (EngInvariant DeadlineIndexCapacity), s)
      else (case tq_schedule (sv_timers S) deadline event (sl_timers s) of
        (Inl failure, timers) \<Rightarrow>
          (Inl (EngInvariant (DeadlineSchedule failure)), s\<lparr>sl_timers := timers\<rparr>)
      | (Inr token, timers) \<Rightarrow>
          (Inr (),
           s\<lparr>sl_timers := timers,
             sl_deadlines := sl_deadlines s @
               [\<lparr>den_operation = dev_operation event, den_token = token\<rparr>]\<rparr>)))"

definition publish ::
  "('g, 'd, 'r, 'e, 'c, 'q, 'k, 'o, 'l) services \<Rightarrow> 'r EngineOutcome \<Rightarrow>
   ('g, 'd, 'c, 'q, 'k, 'o, 'l) ConnectionSlot \<Rightarrow>
   (EngineError + unit) \<times> ('g, 'd, 'c, 'q, 'k, 'o, 'l) ConnectionSlot" where
  "publish S outcome s =
     (let charge = engine_outcome_retained_bytes (sv_frame_retained S) in
      case eb_try_push (sv_outcomes S) (charge outcome) outcome (sl_outcomes s) of
        (Inl (rejected, failure), batch) \<Rightarrow>
          (let s1 = s\<lparr>sl_outcomes := batch\<rparr> in
           case eb_try_push (sv_outcomes S) (charge rejected) rejected (sl_recovery_outcomes s1) of
             (Inl (_, failure'), recovery) \<Rightarrow>
               (Inl (EngInvariant (RecoveryOutcomePublication failure')),
                s1\<lparr>sl_recovery_outcomes := recovery\<rparr>)
           | (Inr _, recovery) \<Rightarrow>
               (Inl (EngInvariant (OutcomePublication failure)),
                s1\<lparr>sl_recovery_outcomes := recovery\<rparr>))
      | (Inr _, batch) \<Rightarrow> (Inr (), s\<lparr>sl_outcomes := batch\<rparr>))"

definition finish_close ::
  "('g, 'd, 'r, 'e, 'c, 'q, 'k, 'o, 'l) services \<Rightarrow> CloseReason option \<Rightarrow> EngineError option \<Rightarrow>
   ('g, 'd, 'c, 'q, 'k, 'o, 'l) ConnectionSlot \<Rightarrow>
   EngineError option \<times> ('g, 'd, 'c, 'q, 'k, 'o, 'l) ConnectionSlot" where
  "finish_close S reason failure s =
     (case reason of
        None \<Rightarrow> (failure, s)
      | Some reason \<Rightarrow>
          if sl_close_request s \<noteq> None then (failure, s)
          else
            (case publish_closing S reason s of
               (result, s1) \<Rightarrow>
                 (let failure1 = retain_first failure result;
                      (failure2, shutdown) =
                        (if sl_transport_state s1 = TransportOpen \<and> reason = Drained then
                           (case sl_drain_deadline s1 of
                              None \<Rightarrow>
                                (retain_first failure1 (Inl (EngInvariant MissingShutdownDeadline)),
                                 ShutImmediate)
                            | Some deadline \<Rightarrow> (failure1, ShutPending deadline))
                         else (failure1, ShutImmediate))
                  in (failure2,
                      s1\<lparr>sl_drain_deadline := None, sl_transport_state := TransportClosing,
                         sl_close_request := Some (DirCore reason shutdown)\<rparr>))))"

text \<open>
  One effect of a transition: the pending closure and the first failure are carried along. The
  frames of a discard never reach the slot; an effect the slot does not know does not exist here.
\<close>

fun interpret_effect ::
  "('g, 'd, 'r, 'e, 'c, 'q, 'k, 'o, 'l) services \<Rightarrow> 'r ConnectionEffect \<Rightarrow>
   CloseReason option \<times> EngineError option \<times> ('g, 'd, 'c, 'q, 'k, 'o, 'l) ConnectionSlot \<Rightarrow>
   CloseReason option \<times> EngineError option \<times> ('g, 'd, 'c, 'q, 'k, 'o, 'l) ConnectionSlot" where
  "interpret_effect S (ScheduleDeadline epoch operation deadline) (close_reason, failure, s) =
     (case schedule_deadline S \<lparr>dev_epoch = epoch, dev_operation = operation\<rparr> deadline s of
        (result, s') \<Rightarrow> (close_reason, retain_first failure result, s'))"
| "interpret_effect S (DiscardWrite effect epoch operation) (close_reason, failure, s) =
     (close_reason, retain_first failure (Inl (EngInvariant UnexpectedDiscardEffect)), s)"
| "interpret_effect S (CancelDeadline epoch operation) (close_reason, failure, s) =
     (close_reason, failure, cancel_deadline S operation s)"
| "interpret_effect S (CloseEpoch epoch reason) (close_reason, failure, s) = (Some reason, failure, s)"
| "interpret_effect S (PublishOutcome epoch operation outcome) (close_reason, failure, s) =
     (case publish S \<lparr>eo_epoch = epoch, eo_operation = operation, eo_outcome = outcome\<rparr> s of
        (result, s') \<Rightarrow> (close_reason, retain_first failure result, s'))"

text \<open>
  \<^verbatim>\<open>interpret_unit\<close> rebuilds an outcome at the frame type of the slot and refuses a reply; every
  other effect is treated as in \<^verbatim>\<open>interpret_reply\<close>.
\<close>

fun retype_outcome :: "unit OperationOutcome \<Rightarrow> 'r OperationOutcome option" where
  "retype_outcome (OutReply _) = None"
| "retype_outcome (OutWriteComplete delivery) = Some (OutWriteComplete delivery)"
| "retype_outcome (OutFailed failure delivery) = Some (OutFailed failure delivery)"
| "retype_outcome (OutCancelled delivery) = Some (OutCancelled delivery)"

fun interpret_unit_effect ::
  "('g, 'd, 'r, 'e, 'c, 'q, 'k, 'o, 'l) services \<Rightarrow> unit ConnectionEffect \<Rightarrow>
   CloseReason option \<times> EngineError option \<times> ('g, 'd, 'c, 'q, 'k, 'o, 'l) ConnectionSlot \<Rightarrow>
   CloseReason option \<times> EngineError option \<times> ('g, 'd, 'c, 'q, 'k, 'o, 'l) ConnectionSlot" where
  "interpret_unit_effect S (PublishOutcome epoch operation outcome) (close_reason, failure, s) =
     (case retype_outcome outcome of
        None \<Rightarrow> (close_reason, retain_first failure (Inl (EngInvariant UnexpectedUnitReply)), s)
      | Some outcome' \<Rightarrow>
          interpret_effect S (PublishOutcome epoch operation outcome') (close_reason, failure, s))"
| "interpret_unit_effect S (ScheduleDeadline epoch operation deadline) acc =
     interpret_effect S (ScheduleDeadline epoch operation deadline) acc"
| "interpret_unit_effect S (DiscardWrite effect epoch operation) acc =
     interpret_effect S (DiscardWrite effect epoch operation) acc"
| "interpret_unit_effect S (CancelDeadline epoch operation) acc =
     interpret_effect S (CancelDeadline epoch operation) acc"
| "interpret_unit_effect S (CloseEpoch epoch reason) acc =
     interpret_effect S (CloseEpoch epoch reason) acc"

definition finish_interpretation ::
  "('g, 'd, 'r, 'e, 'c, 'q, 'k, 'o, 'l) services \<Rightarrow>
   CloseReason option \<times> EngineError option \<times> ('g, 'd, 'c, 'q, 'k, 'o, 'l) ConnectionSlot \<Rightarrow>
   (EngineError + unit) \<times> ('g, 'd, 'c, 'q, 'k, 'o, 'l) ConnectionSlot" where
  "finish_interpretation S acc =
     (case acc of (close_reason, failure, s) \<Rightarrow>
        (case finish_close S close_reason failure s of
           (None, s') \<Rightarrow> (Inr (), s')
         | (Some error, s') \<Rightarrow> (Inl error, s')))"

definition interpret_unit ::
  "('g, 'd, 'r, 'e, 'c, 'q, 'k, 'o, 'l) services \<Rightarrow> unit ConnectionTransition \<Rightarrow>
   ('g, 'd, 'c, 'q, 'k, 'o, 'l) ConnectionSlot \<Rightarrow>
   (EngineError + unit) \<times> ('g, 'd, 'c, 'q, 'k, 'o, 'l) ConnectionSlot" where
  "interpret_unit S t s =
     finish_interpretation S (fold (interpret_unit_effect S) (tr_effects t) (None, None, s))"

definition interpret_reply ::
  "('g, 'd, 'r, 'e, 'c, 'q, 'k, 'o, 'l) services \<Rightarrow> 'r ConnectionTransition \<Rightarrow>
   ('g, 'd, 'c, 'q, 'k, 'o, 'l) ConnectionSlot \<Rightarrow>
   (EngineError + unit) \<times> ('g, 'd, 'c, 'q, 'k, 'o, 'l) ConnectionSlot" where
  "interpret_reply S t s =
     finish_interpretation S (fold (interpret_effect S) (tr_effects t) (None, None, s))"

text \<open>A call into the owner, with its error mapped into \<^verbatim>\<open>EngineError::Core\<close>.\<close>

definition slot_apply ::
  "('g, 'd, 'r, 'e, 'c, 'q, 'k, 'o, 'l) services \<Rightarrow> ConnectionInput \<Rightarrow>
   ('g, 'd, 'c, 'q, 'k, 'o, 'l) ConnectionSlot \<Rightarrow>
   (EngineError + unit ConnectionTransition) \<times> ('g, 'd, 'c, 'q, 'k, 'o, 'l) ConnectionSlot" where
  "slot_apply S input s =
     (case core_apply (sv_externals S) input (sl_core s) of
        (Inl e, c) \<Rightarrow> (Inl (EngCore e), s\<lparr>sl_core := c\<rparr>)
      | (Inr t, c) \<Rightarrow> (Inr t, s\<lparr>sl_core := c\<rparr>))"

section \<open>Closure for transport and adapter faults\<close>

definition close_for ::
  "('g, 'd, 'r, 'e, 'c, 'q, 'k, 'o, 'l) services \<Rightarrow> CloseReason \<Rightarrow>
   ('g, 'd, 'c, 'q, 'k, 'o, 'l) ConnectionSlot \<Rightarrow>
   (EngineError + unit) \<times> ('g, 'd, 'c, 'q, 'k, 'o, 'l) ConnectionSlot" where
  "close_for S reason s =
     try_then (slot_apply S (CloseRequested (slot_epoch s) reason) s) (interpret_unit S)"

definition close_malformed ::
  "('g, 'd, 'r, 'e, 'c, 'q, 'k, 'o, 'l) services \<Rightarrow> ('g, 'd, 'c, 'q, 'k, 'o, 'l) ConnectionSlot \<Rightarrow>
   (EngineError + unit) \<times> ('g, 'd, 'c, 'q, 'k, 'o, 'l) ConnectionSlot" where
  "close_malformed S s =
     try_then (slot_apply S (ReplyMalformed (slot_epoch s)) s) (interpret_unit S)"

fun close_decode_error ::
  "('g, 'd, 'r, 'e, 'c, 'q, 'k, 'o, 'l) services \<Rightarrow> 'e FrameDecodeError \<Rightarrow>
   ('g, 'd, 'c, 'q, 'k, 'o, 'l) ConnectionSlot \<Rightarrow>
   (EngineError + unit) \<times> ('g, 'd, 'c, 'q, 'k, 'o, 'l) ConnectionSlot" where
  "close_decode_error S (DecodeRetainedByteCapacity _ _ _) s = close_for S InboundRetainedCapacity s"
| "close_decode_error S InputSizeOverflow s = close_for S InboundRetainedCapacity s"
| "close_decode_error S (RetainedContractViolation _ _) s = close_for S InboundRetainedCapacity s"
| "close_decode_error S DecoderFailed s = close_malformed S s"
| "close_decode_error S (DecoderError _) s = close_malformed S s"

section \<open>Admission\<close>

definition slot_reserve ::
  "('g, 'd, 'r, 'e, 'c, 'q, 'k, 'o, 'l) services \<Rightarrow> Moment \<Rightarrow> OperationOptions \<Rightarrow>
   ('g, 'd, 'c, 'q, 'k, 'o, 'l) ConnectionSlot \<Rightarrow>
   (ReserveError + OperationPermit) \<times> ('g, 'd, 'c, 'q, 'k, 'o, 'l) ConnectionSlot" where
  "slot_reserve S now options s =
     (if state_failure (sl_state s) \<noteq> None then (Inl OwnerPoisoned, s)
      else (case core_reserve (sv_externals S) now options (sl_core s) of
        (Inl error, c) \<Rightarrow>
          (let s1 = s\<lparr>sl_core := c\<rparr> in
           (Inl error, if error = OwnerPoisoned then latch_owner_failure OwnerCore s1 else s1))
      | (Inr permit, c) \<Rightarrow>
          (let s1 = s\<lparr>sl_core := c\<rparr>;
               owned = sn_owned_operations (machine_snapshot (core_machine c))
           in if usize_saturating_add (eb_len (sv_outcomes S) (sl_outcomes s1)) owned >
                   operation_capacity (sl_limits s1)
              then (Inl OperationCapacity, s1\<lparr>sl_core := drop_permit (sv_externals S) permit c\<rparr>)
              else (Inr permit, s1))))"

definition slot_commit ::
  "('g, 'd, 'r, 'e, 'c, 'q, 'k, 'o, 'l) services \<Rightarrow> OperationPermit \<Rightarrow> OutboundFrame \<Rightarrow>
   ('g, 'd, 'c, 'q, 'k, 'o, 'l) ConnectionSlot \<Rightarrow>
   (OutboundFrame EngineCommitError + OperationId) \<times> ('g, 'd, 'c, 'q, 'k, 'o, 'l) ConnectionSlot" where
  "slot_commit S permit frame s =
     (case state_failure (sl_state s) of
        Some reason \<Rightarrow> (Inl (CommitOwnerFailed reason permit frame), s)
      | None \<Rightarrow>
          (case core_commit (sv_externals S) of_bytes of_retained permit frame (sl_core s) of
             (Inl error, c) \<Rightarrow>
               (let s1 = s\<lparr>sl_core := c\<rparr> in
                if ce_failure error = Policy CommitOwnerPoisoned
                then (Inl (CommitOwnerFailed OwnerCore (ce_permit error) (ce_frame error)),
                      latch_owner_failure OwnerCore s1)
                else (Inl (Rejected error), s1))
           | (Inr (operation, transition), c) \<Rightarrow>
               (case interpret_unit S transition (s\<lparr>sl_core := c\<rparr>) of
                  (Inl source, s1) \<Rightarrow>
                    (Inl (AcceptedOwnerFailure operation source), latch_failure source s1)
                | (Inr _, s1) \<Rightarrow> (Inr operation, s1))))"

end
