(* ===== verification/SlotControl.thy ===== *)
theory SlotControl
  imports Slot
begin

text \<open>
  \<^verbatim>\<open>crates/bornera/src/\<close>: the control operations of a slot (\<^verbatim>\<open>control.rs\<close>), forced shutdown
  (\<^verbatim>\<open>drive/shutdown.rs\<close>), the physical settlement of a close request (\<^verbatim>\<open>slot_close.rs\<close>), observation
  (\<^verbatim>\<open>snapshot.rs\<close>) and the transfer of everything a slot owns (\<^verbatim>\<open>recovery.rs\<close>).
\<close>

section \<open>Shutdown directives\<close>

definition complete_shutdown ::
  "CloseReason \<Rightarrow> ('g, 'd, 'c, 'q, 'k, 'o, 'l) ConnectionSlot \<Rightarrow>
   ('g, 'd, 'c, 'q, 'k, 'o, 'l) ConnectionSlot" where
  "complete_shutdown reason s = s\<lparr>sl_close_request := Some (DirCore reason ShutComplete)\<rparr>"

definition force_shutdown_settlement ::
  "CloseReason \<Rightarrow> ('g, 'd, 'c, 'q, 'k, 'o, 'l) ConnectionSlot \<Rightarrow>
   ('g, 'd, 'c, 'q, 'k, 'o, 'l) ConnectionSlot" where
  "force_shutdown_settlement reason s = s\<lparr>sl_close_request := Some (DirCore reason ShutImmediate)\<rparr>"

definition force_shutdown ::
  "('g, 'd, 'c, 'q, 'k, 'o, 'l) ConnectionSlot \<Rightarrow> bool \<times> ('g, 'd, 'c, 'q, 'k, 'o, 'l) ConnectionSlot" where
  "force_shutdown s =
     (case sl_close_request s of
        Some (DirCore reason (ShutPending _)) \<Rightarrow> (True, force_shutdown_settlement reason s)
      | Some (DirCore reason (ShutStarted _)) \<Rightarrow> (True, force_shutdown_settlement reason s)
      | _ \<Rightarrow> (False, s))"

section \<open>Control\<close>

definition open_admission_inner ::
  "('g, 'd, 'r, 'e, 'c, 'q, 'k, 'o, 'l) services \<Rightarrow> ('g, 'd, 'c, 'q, 'k, 'o, 'l) ConnectionSlot \<Rightarrow>
   (EngineError + InputDisposition) \<times> ('g, 'd, 'c, 'q, 'k, 'o, 'l) ConnectionSlot" where
  "open_admission_inner S s =
     (if \<not> is_transport_open s then (Inr IgnoredInvalidPhase, s)
      else try_then (slot_apply S (OpenAdmission (slot_epoch s)) s) (\<lambda>t s1.
        try_then (interpret_unit S t s1) (\<lambda>_ s2.
          if tr_disposition t = Applied
          then try_then (publish_admission_opened S s2) (\<lambda>_ s3. (Inr (tr_disposition t), s3))
          else (Inr (tr_disposition t), s2))))"

definition slot_open_admission ::
  "('g, 'd, 'r, 'e, 'c, 'q, 'k, 'o, 'l) services \<Rightarrow> ('g, 'd, 'c, 'q, 'k, 'o, 'l) ConnectionSlot \<Rightarrow>
   (EngineError + InputDisposition) \<times> ('g, 'd, 'c, 'q, 'k, 'o, 'l) ConnectionSlot" where
  "slot_open_admission S s = try_then (ensure_running s) (\<lambda>_ s. latch (open_admission_inner S s))"

definition cancel_inner ::
  "('g, 'd, 'r, 'e, 'c, 'q, 'k, 'o, 'l) services \<Rightarrow> OperationId \<Rightarrow>
   ('g, 'd, 'c, 'q, 'k, 'o, 'l) ConnectionSlot \<Rightarrow>
   (EngineError + CancelOutcome) \<times> ('g, 'd, 'c, 'q, 'k, 'o, 'l) ConnectionSlot" where
  "cancel_inner S operation s =
     try_then (slot_apply S (Cancel (slot_epoch s) operation) s) (\<lambda>t s1.
       (let outcome = (case tr_cancel_outcome t of None \<Rightarrow> CancelAlreadyTerminal | Some o' \<Rightarrow> o') in
        try_then (interpret_unit S t s1) (\<lambda>_ s2. (Inr outcome, s2))))"

definition slot_cancel ::
  "('g, 'd, 'r, 'e, 'c, 'q, 'k, 'o, 'l) services \<Rightarrow> OperationId \<Rightarrow>
   ('g, 'd, 'c, 'q, 'k, 'o, 'l) ConnectionSlot \<Rightarrow>
   (EngineError + CancelOutcome) \<times> ('g, 'd, 'c, 'q, 'k, 'o, 'l) ConnectionSlot" where
  "slot_cancel S operation s = try_then (ensure_running s) (\<lambda>_ s. latch (cancel_inner S operation s))"

definition begin_drain_inner ::
  "('g, 'd, 'r, 'e, 'c, 'q, 'k, 'o, 'l) services \<Rightarrow> Deadline \<Rightarrow>
   ('g, 'd, 'c, 'q, 'k, 'o, 'l) ConnectionSlot \<Rightarrow>
   (EngineError + InputDisposition) \<times> ('g, 'd, 'c, 'q, 'k, 'o, 'l) ConnectionSlot" where
  "begin_drain_inner S deadline s =
     try_then (slot_apply S (BeginDrain (slot_epoch s)) s) (\<lambda>t s1.
       (let s2 = (if tr_disposition t = Applied then s1\<lparr>sl_drain_deadline := Some deadline\<rparr> else s1) in
        try_then (interpret_unit S t s2) (\<lambda>_ s3. (Inr (tr_disposition t), s3))))"

definition slot_begin_drain ::
  "('g, 'd, 'r, 'e, 'c, 'q, 'k, 'o, 'l) services \<Rightarrow> Deadline \<Rightarrow>
   ('g, 'd, 'c, 'q, 'k, 'o, 'l) ConnectionSlot \<Rightarrow>
   (EngineError + InputDisposition) \<times> ('g, 'd, 'c, 'q, 'k, 'o, 'l) ConnectionSlot" where
  "slot_begin_drain S deadline s =
     try_then (ensure_running s) (\<lambda>_ s. latch (begin_drain_inner S deadline s))"

definition finalize_inner ::
  "('g, 'd, 'r, 'e, 'c, 'q, 'k, 'o, 'l) services \<Rightarrow> CloseReason \<Rightarrow>
   ('g, 'd, 'c, 'q, 'k, 'o, 'l) ConnectionSlot \<Rightarrow>
   (EngineError + InputDisposition) \<times> ('g, 'd, 'c, 'q, 'k, 'o, 'l) ConnectionSlot" where
  "finalize_inner S reason s =
     (case force_shutdown s of
        (True, s1) \<Rightarrow> (Inr Applied, s1)
      | (False, s1) \<Rightarrow>
          try_then (slot_apply S (CloseRequested (slot_epoch s1) reason) s1) (\<lambda>t s2.
            try_then (interpret_unit S t s2) (\<lambda>_ s3. (Inr (tr_disposition t), s3))))"

definition slot_finalize ::
  "('g, 'd, 'r, 'e, 'c, 'q, 'k, 'o, 'l) services \<Rightarrow> CloseReason \<Rightarrow>
   ('g, 'd, 'c, 'q, 'k, 'o, 'l) ConnectionSlot \<Rightarrow>
   (EngineError + InputDisposition) \<times> ('g, 'd, 'c, 'q, 'k, 'o, 'l) ConnectionSlot" where
  "slot_finalize S reason s = try_then (ensure_running s) (\<lambda>_ s. latch (finalize_inner S reason s))"

definition drain_outcomes ::
  "('g, 'd, 'r, 'e, 'c, 'q, 'k, 'o, 'l) services \<Rightarrow> ('g, 'd, 'c, 'q, 'k, 'o, 'l) ConnectionSlot \<Rightarrow>
   'r EngineOutcome list \<times> ('g, 'd, 'c, 'q, 'k, 'o, 'l) ConnectionSlot" where
  "drain_outcomes S s =
     (case eb_drain (sv_outcomes S) (sl_outcomes s) of (items, batch) \<Rightarrow> (items, s\<lparr>sl_outcomes := batch\<rparr>))"

definition drain_events ::
  "('g, 'd, 'r, 'e, 'c, 'q, 'k, 'o, 'l) services \<Rightarrow> ('g, 'd, 'c, 'q, 'k, 'o, 'l) ConnectionSlot \<Rightarrow>
   ConnectionEvent list \<times> ('g, 'd, 'c, 'q, 'k, 'o, 'l) ConnectionSlot" where
  "drain_events S s =
     (case eb_drain (sv_events S) (sl_lifecycle s) of (items, batch) \<Rightarrow> (items, s\<lparr>sl_lifecycle := batch\<rparr>))"

section \<open>Settlement of a close request\<close>

definition transport_release_ready :: "('g, 'd, 'c, 'q, 'k, 'o, 'l) ConnectionSlot \<Rightarrow> bool" where
  "transport_release_ready s =
     (case sl_close_request s of None \<Rightarrow> False | Some directive \<Rightarrow> settlement_ready directive)"

definition take_close_request ::
  "('g, 'd, 'c, 'q, 'k, 'o, 'l) ConnectionSlot \<Rightarrow>
   CloseDirective option \<times> ('g, 'd, 'c, 'q, 'k, 'o, 'l) ConnectionSlot" where
  "take_close_request s =
     (if transport_release_ready s then (sl_close_request s, s\<lparr>sl_close_request := None\<rparr>)
      else (None, s))"

definition restore_close_request ::
  "CloseDirective \<Rightarrow> ('g, 'd, 'c, 'q, 'k, 'o, 'l) ConnectionSlot \<Rightarrow>
   ('g, 'd, 'c, 'q, 'k, 'o, 'l) ConnectionSlot" where
  "restore_close_request directive s = s\<lparr>sl_close_request := Some directive\<rparr>"

definition abort_transport ::
  "('g, 'd, 'c, 'q, 'k, 'o, 'l) ConnectionSlot \<Rightarrow> ('g, 'd, 'c, 'q, 'k, 'o, 'l) ConnectionSlot" where
  "abort_transport s =
     s\<lparr>sl_transport_state := TransportClosed, sl_drain_deadline := None, sl_close_request := None\<rparr>"

definition confirm_transport_closed ::
  "('g, 'd, 'r, 'e, 'c, 'q, 'k, 'o, 'l) services \<Rightarrow> CloseReason \<Rightarrow>
   ('g, 'd, 'c, 'q, 'k, 'o, 'l) ConnectionSlot \<Rightarrow>
   (EngineError + unit) \<times> ('g, 'd, 'c, 'q, 'k, 'o, 'l) ConnectionSlot" where
  "confirm_transport_closed S reason s =
     (let s1 = s\<lparr>sl_transport_state := TransportClosed\<rparr> in
      try_then (slot_apply S (EpochClosed (slot_epoch s1)) s1) (\<lambda>t s2.
        try_then (interpret_unit S t s2) (\<lambda>_ s3. publish_closed S reason s3)))"

definition settle_core ::
  "('g, 'd, 'r, 'e, 'c, 'q, 'k, 'o, 'l) services \<Rightarrow> CloseReason \<Rightarrow>
   ('g, 'd, 'c, 'q, 'k, 'o, 'l) ConnectionSlot \<Rightarrow> ('g, 'd, 'c, 'q, 'k, 'o, 'l) ConnectionSlot" where
  "settle_core S reason s =
     (case confirm_transport_closed S reason s of
        (Inl error, s1) \<Rightarrow> abort_transport (latch_failure error s1)
      | (Inr _, s1) \<Rightarrow> s1)"

definition settle_transport_closed ::
  "('g, 'd, 'r, 'e, 'c, 'q, 'k, 'o, 'l) services \<Rightarrow> ('g, 'd, 'c, 'q, 'k, 'o, 'l) ConnectionSlot \<Rightarrow>
   bool \<times> ('g, 'd, 'c, 'q, 'k, 'o, 'l) ConnectionSlot" where
  "settle_transport_closed S s =
     (case take_close_request s of
        (None, s1) \<Rightarrow> (False, s1)
      | (Some DirAbort, s1) \<Rightarrow> (True, abort_transport s1)
      | (Some (DirCore reason ShutImmediate), s1) \<Rightarrow> (True, settle_core S reason s1)
      | (Some (DirCore reason ShutComplete), s1) \<Rightarrow> (True, settle_core S reason s1)
      | (Some (DirCore reason _), s1) \<Rightarrow> (False, s1))"

section \<open>Observation\<close>

text \<open>\<^verbatim>\<open>into_iter().flatten().min()\<close> on optional deadlines.\<close>

fun min_deadline :: "Deadline option list \<Rightarrow> Deadline option" where
  "min_deadline [] = None"
| "min_deadline (None # ds) = min_deadline ds"
| "min_deadline (Some d # ds) =
     (case min_deadline ds of None \<Rightarrow> Some d | Some d' \<Rightarrow> Some (min d d'))"

definition slot_next_deadline ::
  "('g, 'd, 'r, 'e, 'c, 'q, 'k, 'o, 'l) services \<Rightarrow> ('g, 'd, 'c, 'q, 'k, 'o, 'l) ConnectionSlot \<Rightarrow>
   Deadline option" where
  "slot_next_deadline S s =
     min_deadline
       [tq_next_deadline (sv_timers S) (sl_timers s),
        (if is_connecting s then Some (sl_connect_deadline s) else None),
        sl_drain_deadline s,
        (case sl_close_request s of None \<Rightarrow> None | Some directive \<Rightarrow> shutdown_deadline directive)]"

record ConnectionSlotSnapshot =
  ss_connection :: ConnectionSnapshot
  ss_owner_failure :: "OwnerFailure option"
  ss_transport :: TransportState
  ss_transport_release_ready :: bool
  ss_shutdown_deadline :: "Deadline option"
  ss_transport_diagnostic :: "TransportDiagnostic option"
  ss_transport_pressure :: "TransportPressure option"
  ss_transport_retained_limit :: "RetainedBytes option"
  ss_transport_retained_ceiling :: RetainedBytes
  ss_queued_write_frames :: usize
  ss_buffered_write_retained_bytes :: RetainedBytes
  ss_buffered_read_bytes :: RetainedBytes
  ss_pending_outcomes :: usize
  ss_pending_events :: usize
  ss_event_sequence :: u64
  ss_pending_deadlines :: usize

definition slot_snapshot ::
  "('g, 'd, 'r, 'e, 'c, 'q, 'k, 'o, 'l) services \<Rightarrow> ('g, 'd, 'c, 'q, 'k, 'o, 'l) ConnectionSlot \<Rightarrow>
   ConnectionSlotSnapshot" where
  "slot_snapshot S s =
     \<lparr>ss_connection = machine_snapshot (core_machine (sl_core s)),
      ss_owner_failure = state_failure (sl_state s),
      ss_transport = sl_transport_state s,
      ss_transport_release_ready = transport_release_ready s,
      ss_shutdown_deadline =
        (case (case sl_close_request s of None \<Rightarrow> None | Some directive \<Rightarrow> shutdown_deadline directive) of
           None \<Rightarrow> sl_drain_deadline s
         | Some deadline \<Rightarrow> Some deadline),
      ss_transport_diagnostic = sl_transport_diagnostic s,
      ss_transport_pressure = sl_transport_pressure s,
      ss_transport_retained_limit = sl_transport_retained_limit s,
      ss_transport_retained_ceiling = transport_retained_bytes (sl_limits s),
      ss_queued_write_frames = queued_frames (core_writes (sl_core s)),
      ss_buffered_write_retained_bytes = queue_retained_bytes (sv_externals S) (core_writes (sl_core s)),
      ss_buffered_read_bytes = dec_retained_bytes (sv_decoder S) (fd_decoder (sl_driver s)),
      ss_pending_outcomes = eb_len (sv_outcomes S) (sl_outcomes s) +
        eb_len (sv_outcomes S) (sl_recovery_outcomes s),
      ss_pending_events = eb_len (sv_events S) (sl_lifecycle s) +
        eb_len (sv_events S) (sl_recovery_events s),
      ss_event_sequence = sl_event_sequence s,
      ss_pending_deadlines = tq_len (sv_timers S) (sl_timers s)\<rparr>"

section \<open>Recovery\<close>

record ('f, 'r) RecoveryReport =
  rr_epoch :: ConnectionEpoch
  rr_reason :: OwnerFailure
  rr_operations :: "'f RecoveredOperation list"
  rr_unmatched_writes :: "'f DiscardedWrite list"
  rr_outcomes :: "'r EngineOutcome list"
  rr_events :: "ConnectionEvent list"
  rr_transport_diagnostic :: "TransportDiagnostic option"
  rr_transport_pressure :: "TransportPressure option"
  rr_transport_retained_limit :: "RetainedBytes option"
  rr_transport_retained_ceiling :: "RetainedBytes option"
  rr_ownership_diverged :: bool

definition slot_recover_owned ::
  "('g, 'd, 'r, 'e, 'c, 'q, 'k, 'o, 'l) services \<Rightarrow> OwnerFailure \<Rightarrow> bool \<Rightarrow>
   ('g, 'd, 'c, 'q, 'k, 'o, 'l) ConnectionSlot \<Rightarrow>
   (OutboundFrame, 'r) RecoveryReport \<times> ('g, 'd, 'c, 'q, 'k, 'o, 'l) ConnectionSlot" where
  "slot_recover_owned S reason cleanup_failed s =
     (let (recovery, c) = core_recover (sv_externals S) (sl_core s);
          (outcomes1, ob) = eb_drain (sv_outcomes S) (sl_outcomes s);
          (outcomes2, rob) = eb_drain (sv_outcomes S) (sl_recovery_outcomes s);
          (events1, lb) = eb_drain (sv_events S) (sl_lifecycle s);
          (events2, rlb) = eb_drain (sv_events S) (sl_recovery_events s)
      in (\<lparr>rr_epoch = cr_epoch recovery, rr_reason = reason,
           rr_operations = cr_operations recovery,
           rr_unmatched_writes = cr_unmatched_writes recovery,
           rr_outcomes = outcomes1 @ outcomes2, rr_events = events1 @ events2,
           rr_transport_diagnostic = sl_transport_diagnostic s,
           rr_transport_pressure = sl_transport_pressure s,
           rr_transport_retained_limit = sl_transport_retained_limit s,
           rr_transport_retained_ceiling = Some (transport_retained_bytes (sl_limits s)),
           rr_ownership_diverged = (cr_ownership_diverged recovery \<or> cleanup_failed \<or>
             sl_transport_contract_diverged s)\<rparr>,
          s\<lparr>sl_core := c, sl_outcomes := ob, sl_recovery_outcomes := rob, sl_lifecycle := lb,
            sl_recovery_events := rlb\<rparr>))"

definition slot_recover ::
  "('g, 'd, 'r, 'e, 'c, 'q, 'k, 'o, 'l) services \<Rightarrow> OwnerFailure \<Rightarrow>
   ('g, 'd, 'c, 'q, 'k, 'o, 'l) ConnectionSlot \<Rightarrow> (OutboundFrame, 'r) RecoveryReport" where
  "slot_recover S reason s = fst (slot_recover_owned S reason False s)"

end
