(* ===== verification/SlotDrive.thy ===== *)
theory SlotDrive
  imports SlotControl
begin

text \<open>
  \<^verbatim>\<open>crates/bornera/src/drive/\<close>: the bounded progression of one slot against its transport: pressure
  observation (\<^verbatim>\<open>pressure.rs\<close>), establishment and transport-local work (\<^verbatim>\<open>transport.rs\<close>), reading,
  decoding and writing (\<^verbatim>\<open>application.rs\<close>), deadlines (\<^verbatim>\<open>deadline.rs\<close>), graceful shutdown
  (\<^verbatim>\<open>shutdown.rs\<close>) and the quantum that schedules them (\<^verbatim>\<open>slot.rs\<close>). A step that may touch the transport
  carries the pair of slot and transport state. The loops over transport work only stop because a
  transport reports work in nonzero amounts; they are partial functions, and that they return is a
  theorem about well-formed transports.
\<close>

section \<open>Pressure\<close>

definition observe_transport_pressure ::
  "'t SlotTransport \<Rightarrow> 't \<Rightarrow> ('g, 'd, 'c, 'q, 'k, 'o, 'l) ConnectionSlot \<Rightarrow>
   TransportPressure \<times> ('g, 'd, 'c, 'q, 'k, 'o, 'l) ConnectionSlot" where
  "observe_transport_pressure T t s =
     (let pressure = tp_pressure T t in (pressure, s\<lparr>sl_transport_pressure := Some pressure\<rparr>))"

definition capture_transport_pressure ::
  "'t SlotTransport \<Rightarrow> 't \<Rightarrow> ('g, 'd, 'c, 'q, 'k, 'o, 'l) ConnectionSlot \<Rightarrow>
   (EngineError + unit) \<times> ('g, 'd, 'c, 'q, 'k, 'o, 'l) ConnectionSlot" where
  "capture_transport_pressure T t s =
     (let slot_limit = transport_retained_bytes (sl_limits s);
          reported_limit = tl_retained_bytes (tp_pressure_limit T t);
          expected_limit = (case sl_transport_retained_limit s of None \<Rightarrow> slot_limit | Some l \<Rightarrow> l)
      in if reported_limit > slot_limit \<or>
            (case sl_transport_retained_limit s of None \<Rightarrow> False | Some bound \<Rightarrow> bound \<noteq> reported_limit)
         then
           (Inl (EngInvariant (TransportLimitContract expected_limit reported_limit)),
            record_transport_failure (diagnostic_new PhPressure FkContract KindOther None)
              ((snd (observe_transport_pressure T t s))\<lparr>sl_transport_contract_diverged := True\<rparr>))
         else
           (case observe_transport_pressure T t (s\<lparr>sl_transport_retained_limit := Some reported_limit\<rparr>) of
              (pressure, s1) \<Rightarrow>
                if prs_total pressure \<le> reported_limit then (Inr (), s1)
                else
                  (Inl (EngInvariant (TransportRetainedCapacity reported_limit pressure)),
                   record_transport_failure (diagnostic_new PhPressure FkCapacity KindOther None)
                     (s1\<lparr>sl_transport_contract_diverged := True\<rparr>))))"

section \<open>Transport-local work\<close>

definition validate_transport_progress ::
  "TransportBudget \<Rightarrow> TransportProgress \<Rightarrow> EngineError + unit" where
  "validate_transport_progress budget progress =
     (if \<not> progress_fits budget progress
      then Inl (EngInvariant (TransportProgressContract budget progress))
      else if progress_is_idle progress then Inl (EngInvariant TransportNoProgress)
      else Inr ())"

definition transport_budget :: "('g, 'd, 'c, 'q, 'k, 'o, 'l) ConnectionSlot \<Rightarrow> TransportBudget" where
  "transport_budget s =
     transport_budget_new 1 (io_chunk_bytes (sl_limits s)) (io_chunk_bytes (sl_limits s))"

text \<open>The result of a step on the pair of slot and transport.\<close>

type_synonym ('a, 'g, 'd, 'c, 'q, 'k, 'o, 'l, 't) drive_result =
  "(EngineError + 'a) \<times> ('g, 'd, 'c, 'q, 'k, 'o, 'l) ConnectionSlot \<times> 't"

text \<open>A slot step inside a drive step: the transport stays as it is.\<close>

definition on_slot ::
  "'t \<Rightarrow> (EngineError + 'a) \<times> ('g, 'd, 'c, 'q, 'k, 'o, 'l) ConnectionSlot \<Rightarrow>
   ('a, 'g, 'd, 'c, 'q, 'k, 'o, 'l, 't) drive_result" where
  "on_slot t rs = (case rs of (r, s) \<Rightarrow> (r, s, t))"

definition drive_transport_once ::
  "('g, 'd, 'r, 'e, 'c, 'q, 'k, 'o, 'l) services \<Rightarrow> 't SlotTransport \<Rightarrow> usize \<Rightarrow>
   ('g, 'd, 'c, 'q, 'k, 'o, 'l) ConnectionSlot \<Rightarrow> 't \<Rightarrow>
   (usize option, 'g, 'd, 'c, 'q, 'k, 'o, 'l, 't) drive_result" where
  "drive_transport_once S T remaining s t =
     (if is_connecting s \<and> tp_is_open T t
      then (Inl (EngInvariant TransportOpenedBeforeEstablishment), s, t)
      else if remaining = 0 then (Inr None, s, t)
      else (let budget = transport_budget_new 1 (io_chunk_bytes (sl_limits s)) (io_chunk_bytes (sl_limits s)) in
        if is_connecting s then
          (if \<not> tp_can_establish T t then (Inr None, s, t)
           else (case tp_drive_establishment T (sl_socket_policy s) budget t of
             (Inl source, t1) \<Rightarrow>
               on_slot t1
                 (try_then (close_for S ConnectFailed (record_transport_failure (te_diagnostic source) s))
                    (\<lambda>_ s1. (Inr (Some 1), s1)))
           | (Inr progress, t1) \<Rightarrow>
               (case validate_transport_progress budget progress of
                  Inl e \<Rightarrow> (Inl e, s, t1)
                | Inr _ \<Rightarrow>
                    if tp_is_open T t1 then
                      on_slot t1
                        (try_then (publish_transport_opened S (s\<lparr>sl_transport_state := TransportOpen\<rparr>))
                           (\<lambda>_ s1. (Inr (Some (tpr_operations progress)), s1)))
                    else (Inr (Some (tpr_operations progress)), s, t1))))
        else if \<not> tp_has_transport_work T t then (Inr None, s, t)
        else (case tp_drive_transport T budget t of
          (Inl source, t1) \<Rightarrow>
            on_slot t1
              (try_then (close_for S TransportLost (record_transport_failure (te_diagnostic source) s))
                 (\<lambda>_ s1. (Inr (Some 1), s1)))
        | (Inr progress, t1) \<Rightarrow>
            (case validate_transport_progress budget progress of
               Inl e \<Rightarrow> (Inl e, s, t1)
             | Inr _ \<Rightarrow> (Inr (Some (tpr_operations progress)), s, t1)))))"

section \<open>Application bytes\<close>

definition drive_decoder_once ::
  "('g, 'd, 'r, 'e, 'c, 'q, 'k, 'o, 'l) services \<Rightarrow> ('g, 'd, 'c, 'q, 'k, 'o, 'l) ConnectionSlot \<Rightarrow>
   (EngineError + unit) \<times> ('g, 'd, 'c, 'q, 'k, 'o, 'l) ConnectionSlot" where
  "drive_decoder_once S s =
     (case frame_driver_next_frame (sv_decoder S) (sl_driver s) of
        (Inl error, driver) \<Rightarrow>
          close_decode_error S error (s\<lparr>sl_driver := driver, sl_decoder_pending := False\<rparr>)
      | (Inr None, driver) \<Rightarrow>
          (let s1 = s\<lparr>sl_driver := driver, sl_decoder_pending := False\<rparr> in
           if dec_retained_bytes (sv_decoder S) (fd_decoder driver) \<ge> decoder_bytes (sl_limits s1)
           then close_for S InboundRetainedCapacity s1
           else (Inr (), s1))
      | (Inr (Some frame), driver) \<Rightarrow>
          (let s1 = s\<lparr>sl_driver := driver\<rparr> in
           if sv_frame_retained S frame > reply_bytes (sl_limits s1)
           then close_for S InboundRetainedCapacity s1
           else (case sv_reply_key S frame (sl_classifier s1) of
             (None, classifier) \<Rightarrow> close_malformed S (s1\<lparr>sl_classifier := classifier\<rparr>)
           | (Some key, classifier) \<Rightarrow>
               (let s2 = s1\<lparr>sl_classifier := classifier\<rparr>;
                    reply = \<lparr>reply_epoch = slot_epoch s2, reply_key = key, reply_frame = frame\<rparr>
                in case core_apply_reply (sv_externals S) reply (sl_core s2) of
                     (Inl e, c) \<Rightarrow> (Inl (EngCore e), s2\<lparr>sl_core := c\<rparr>)
                   | (Inr transition, c) \<Rightarrow> interpret_reply S transition (s2\<lparr>sl_core := c\<rparr>)))))"

definition drive_read_once ::
  "('g, 'd, 'r, 'e, 'c, 'q, 'k, 'o, 'l) services \<Rightarrow> 't SlotTransport \<Rightarrow>
   ('g, 'd, 'c, 'q, 'k, 'o, 'l) ConnectionSlot \<Rightarrow> 't \<Rightarrow>
   (unit option, 'g, 'd, 'c, 'q, 'k, 'o, 'l, 't) drive_result" where
  "drive_read_once S T s t =
     (if \<not> tp_can_read T t then (Inr None, s, t)
      else
        (let remaining = decoder_bytes (sl_limits s) -
               dec_retained_bytes (sv_decoder S) (fd_decoder (sl_driver s));
             len = min remaining (length (sl_read_buffer s));
             finish = (\<lambda>_ s1. (Inr (Some ()), s1))
         in if len = 0 then on_slot t (try_then (close_for S InboundRetainedCapacity s) finish)
            else (case tp_read T (take len (sl_read_buffer s)) t of
              (result, filled, t1) \<Rightarrow>
                (let s1 = s\<lparr>sl_read_buffer := filled @ drop len (sl_read_buffer s)\<rparr> in
                 case result of
                   Inr 0 \<Rightarrow> on_slot t1 (try_then (close_for S TransportLost s1) finish)
                 | Inr n \<Rightarrow>
                     if n > len
                     then (Inl (EngInvariant (TransportReadContract len n)), s1, t1)
                     else (case frame_driver_feed (sv_externals S) (sv_decoder S)
                                  (take n (sl_read_buffer s1)) (sl_driver s1) of
                       (Inl error, driver) \<Rightarrow>
                         on_slot t1
                           (try_then (close_decode_error S error (s1\<lparr>sl_driver := driver\<rparr>)) finish)
                     | (Inr _, driver) \<Rightarrow>
                         (Inr (Some ()), s1\<lparr>sl_driver := driver, sl_decoder_pending := True\<rparr>, t1))
                 | Inl source \<Rightarrow>
                     if ioe_kind source = WouldBlock then (Inr (Some ()), s1, tp_clear_read T t1)
                     else on_slot t1
                       (try_then
                          (close_for S TransportLost
                             (record_transport_failure (diagnostic_from_io PhRead source) s1))
                          finish)))))"

text \<open>The report of written bytes to the owner, and the interpretation of what it answers.\<close>

definition slot_advance_write ::
  "('g, 'd, 'r, 'e, 'c, 'q, 'k, 'o, 'l) services \<Rightarrow> ConnectionEpoch \<Rightarrow> EffectId \<Rightarrow> usize \<Rightarrow>
   ('g, 'd, 'c, 'q, 'k, 'o, 'l) ConnectionSlot \<Rightarrow>
   (EngineError + unit option) \<times> ('g, 'd, 'c, 'q, 'k, 'o, 'l) ConnectionSlot" where
  "slot_advance_write S epoch effect written s =
     (case core_advance_write (sv_externals S) epoch effect written (sl_core s) of
        (Inl e, c) \<Rightarrow> (Inl (EngCore e), s\<lparr>sl_core := c\<rparr>)
      | (Inr transition, c) \<Rightarrow>
          try_then (interpret_unit S transition (s\<lparr>sl_core := c\<rparr>)) (\<lambda>_ s1. (Inr (Some ()), s1)))"

definition drive_write_once ::
  "('g, 'd, 'r, 'e, 'c, 'q, 'k, 'o, 'l) services \<Rightarrow> 't SlotTransport \<Rightarrow>
   ('g, 'd, 'c, 'q, 'k, 'o, 'l) ConnectionSlot \<Rightarrow> 't \<Rightarrow>
   (unit option, 'g, 'd, 'c, 'q, 'k, 'o, 'l, 't) drive_result" where
  "drive_write_once S T s t =
     (if \<not> tp_is_open T t then (Inr None, s, t)
      else (case front_write of_bytes (io_chunk_bytes (sl_limits s)) (sl_core s) of
        (Inl e, c) \<Rightarrow> (Inl (EngCore e), s\<lparr>sl_core := c\<rparr>, t)
      | (Inr None, c) \<Rightarrow> (Inr None, s\<lparr>sl_core := c\<rparr>, t)
      | (Inr (Some front), c) \<Rightarrow>
          (let s1 = s\<lparr>sl_core := c\<rparr>; finish = (\<lambda>_ s2. (Inr (Some ()), s2)) in
           if ws_bytes front = []
           then on_slot t (slot_advance_write S (ws_epoch front) (ws_effect front) 0 s1)
           else if \<not> tp_can_write T t then (Inr None, s1, t)
           else (case tp_write T (ws_bytes front) t of
             (Inr 0, t1) \<Rightarrow> on_slot t1 (try_then (close_for S TransportLost s1) finish)
           | (Inr written, t1) \<Rightarrow>
               on_slot t1 (slot_advance_write S (ws_epoch front) (ws_effect front) written s1)
           | (Inl source, t1) \<Rightarrow>
               if ioe_kind source = WouldBlock then (Inr (Some ()), s1, tp_clear_write T t1)
               else on_slot t1
                 (try_then
                    (close_for S TransportLost
                       (record_transport_failure (diagnostic_from_io PhWrite source) s1))
                    finish)))))"

definition has_runnable_io ::
  "'t SlotTransport \<Rightarrow> ('g, 'd, 'c, 'q, 'k, 'o, 'l) ConnectionSlot \<Rightarrow> 't \<Rightarrow> bool" where
  "has_runnable_io T s t \<longleftrightarrow>
     sl_decoder_pending s \<or>
     (is_connecting s \<and> (tp_is_open T t \<or> tp_can_establish T t)) \<or>
     (is_transport_open s \<and> tp_has_transport_work T t) \<or>
     (is_transport_open s \<and> tp_can_read T t) \<or>
     (is_transport_open s \<and> tp_is_open T t \<and> queued_frames (core_writes (sl_core s)) > 0 \<and>
        (front_is_empty (core_writes (sl_core s)) \<or> tp_can_write T t))"

section \<open>Deadlines\<close>

definition drain_first ::
  "('g, 'd, 'r, 'e, 'c, 'q, 'k, 'o, 'l) services \<Rightarrow> Moment \<Rightarrow>
   ('g, 'd, 'c, 'q, 'k, 'o, 'l) ConnectionSlot \<Rightarrow> bool" where
  "drain_first S now s =
     (case sl_drain_deadline s of
        None \<Rightarrow> False
      | Some deadline \<Rightarrow>
          is_elapsed_at (sv_externals S) deadline now \<and>
          (case tq_next_deadline (sv_timers S) (sl_timers s) of
             None \<Rightarrow> True | Some operation \<Rightarrow> deadline \<le> operation) \<and>
          (\<not> is_connecting s \<or> deadline \<le> sl_connect_deadline s))"

definition connect_first ::
  "('g, 'd, 'r, 'e, 'c, 'q, 'k, 'o, 'l) services \<Rightarrow> Moment \<Rightarrow>
   ('g, 'd, 'c, 'q, 'k, 'o, 'l) ConnectionSlot \<Rightarrow> bool" where
  "connect_first S now s \<longleftrightarrow>
     is_connecting s \<and> is_elapsed_at (sv_externals S) (sl_connect_deadline s) now \<and>
     (case tq_next_deadline (sv_timers S) (sl_timers s) of
        None \<Rightarrow> True | Some deadline \<Rightarrow> sl_connect_deadline s \<le> deadline)"

text \<open>One due timer: its index entry goes, and the owner is told.\<close>

definition drive_timer ::
  "('g, 'd, 'r, 'e, 'c, 'q, 'k, 'o, 'l) services \<Rightarrow> Moment \<Rightarrow> 'k \<Rightarrow> DeadlineEvent \<Rightarrow>
   ('g, 'd, 'c, 'q, 'k, 'o, 'l) ConnectionSlot \<Rightarrow>
   (EngineError + unit) \<times> ('g, 'd, 'c, 'q, 'k, 'o, 'l) ConnectionSlot" where
  "drive_timer S now token event s =
     (let s1 = (case position (\<lambda>entry. den_token entry = token) (sl_deadlines s) of
                  None \<Rightarrow> s
                | Some index \<Rightarrow> s\<lparr>sl_deadlines := swap_remove index (sl_deadlines s)\<rparr>)
      in try_then (slot_apply S (InputDeadlineElapsed (dev_epoch event) (dev_operation event) now) s1)
           (interpret_unit S))"

text \<open>
  The loop of \<^verbatim>\<open>drive_deadlines\<close>: the first argument is the work still allowed, which every
  continuing round lowers by one.
\<close>

fun drive_deadlines_loop ::
  "('g, 'd, 'r, 'e, 'c, 'q, 'k, 'o, 'l) services \<Rightarrow> Moment \<Rightarrow> usize \<Rightarrow> usize \<Rightarrow>
   ('g, 'd, 'c, 'q, 'k, 'o, 'l) ConnectionSlot \<Rightarrow>
   (EngineError + usize) \<times> ('g, 'd, 'c, 'q, 'k, 'o, 'l) ConnectionSlot" where
  "drive_deadlines_loop S now 0 work s = (Inr work, s)"
| "drive_deadlines_loop S now (Suc allowed) work s =
     (if drain_first S now s then
        try_then
          (close_for S Requested
             ((record_transport_failure (diagnostic_new PhShutdown FkTimedOut KindTimedOut None) s)
                \<lparr>sl_drain_deadline := None\<rparr>))
          (\<lambda>_ s1. (Inr (work + 1), s1))
      else if connect_first S now s then
        try_then (close_for S ConnectTimedOut s) (\<lambda>_ s1. (Inr (work + 1), s1))
      else (case tq_pop_due (sv_timers S) now (sl_timers s) of
        (None, timers) \<Rightarrow> (Inr work, s\<lparr>sl_timers := timers\<rparr>)
      | (Some (token, event), timers) \<Rightarrow>
          try_then (drive_timer S now token event (s\<lparr>sl_timers := timers\<rparr>)) (\<lambda>_ s1.
            if sl_close_request s1 \<noteq> None then (Inr (work + 1), s1)
            else drive_deadlines_loop S now allowed (work + 1) s1)))"

definition drive_deadlines ::
  "('g, 'd, 'r, 'e, 'c, 'q, 'k, 'o, 'l) services \<Rightarrow> Moment \<Rightarrow> usize \<Rightarrow>
   ('g, 'd, 'c, 'q, 'k, 'o, 'l) ConnectionSlot \<Rightarrow>
   (EngineError + usize) \<times> ('g, 'd, 'c, 'q, 'k, 'o, 'l) ConnectionSlot" where
  "drive_deadlines S now budget s = drive_deadlines_loop S now budget 0 s"

definition has_due_deadline ::
  "('g, 'd, 'r, 'e, 'c, 'q, 'k, 'o, 'l) services \<Rightarrow> Moment \<Rightarrow>
   ('g, 'd, 'c, 'q, 'k, 'o, 'l) ConnectionSlot \<Rightarrow> bool" where
  "has_due_deadline S now s \<longleftrightarrow>
     (is_connecting s \<and> is_elapsed_at (sv_externals S) (sl_connect_deadline s) now) \<or>
     (case sl_drain_deadline s of
        None \<Rightarrow> False | Some deadline \<Rightarrow> is_elapsed_at (sv_externals S) deadline now) \<or>
     (case tq_next_deadline (sv_timers S) (sl_timers s) of
        None \<Rightarrow> False | Some deadline \<Rightarrow> is_elapsed_at (sv_externals S) deadline now)"

section \<open>Graceful shutdown\<close>

definition shutdown_timed_out ::
  "CloseReason \<Rightarrow> ('g, 'd, 'c, 'q, 'k, 'o, 'l) ConnectionSlot \<Rightarrow>
   ('g, 'd, 'c, 'q, 'k, 'o, 'l) ConnectionSlot" where
  "shutdown_timed_out reason s =
     force_shutdown_settlement reason
       (record_transport_failure (diagnostic_new PhShutdown FkTimedOut KindTimedOut None) s)"

text \<open>
  What follows one call of \<^verbatim>\<open>begin_shutdown\<close> or \<^verbatim>\<open>drive_transport\<close> during shutdown; both branches of the
  source do the same with the result of the call.
\<close>

definition after_shutdown_call ::
  "'t SlotTransport \<Rightarrow> CloseReason \<Rightarrow> Deadline \<Rightarrow> TransportBudget \<Rightarrow>
   (TransportError + TransportProgress) \<times> 't \<Rightarrow> ('g, 'd, 'c, 'q, 'k, 'o, 'l) ConnectionSlot \<Rightarrow>
   (usize option, 'g, 'd, 'c, 'q, 'k, 'o, 'l, 't) drive_result" where
  "after_shutdown_call T reason deadline budget call s =
     (case call of (result, t1) \<Rightarrow>
        (case capture_transport_pressure T t1 s of (pressure, s1) \<Rightarrow>
           (case result of
              Inl source \<Rightarrow>
                (let s2 = force_shutdown_settlement reason
                            (record_transport_failure
                               (diagnostic_in_phase PhShutdown (te_diagnostic source)) s1)
                 in (case pressure of Inl e \<Rightarrow> (Inl e, s2, t1) | Inr _ \<Rightarrow> (Inr (Some 1), s2, t1)))
            | Inr progress \<Rightarrow>
                (case pressure of
                   Inl e \<Rightarrow> (Inl e, force_shutdown_settlement reason s1, t1)
                 | Inr _ \<Rightarrow>
                     (case validate_transport_progress budget progress of
                        Inl e \<Rightarrow> (Inl e, force_shutdown_settlement reason s1, t1)
                      | Inr _ \<Rightarrow>
                          (let shutdown = (if tp_is_shutdown_complete T t1 then ShutComplete
                                           else ShutStarted deadline)
                           in (Inr (Some (tpr_operations progress)),
                               s1\<lparr>sl_close_request := Some (DirCore reason shutdown)\<rparr>, t1)))))))"

definition progress_shutdown ::
  "'t SlotTransport \<Rightarrow> CloseReason \<Rightarrow> Deadline \<Rightarrow> ('g, 'd, 'c, 'q, 'k, 'o, 'l) ConnectionSlot \<Rightarrow> 't \<Rightarrow>
   (usize option, 'g, 'd, 'c, 'q, 'k, 'o, 'l, 't) drive_result" where
  "progress_shutdown T reason deadline s t =
     after_shutdown_call T reason deadline (transport_budget s)
       (tp_drive_transport T (transport_budget s) t) s"

definition drive_shutdown_once ::
  "('g, 'd, 'r, 'e, 'c, 'q, 'k, 'o, 'l) services \<Rightarrow> 't SlotTransport \<Rightarrow> Moment \<Rightarrow> usize \<Rightarrow>
   ('g, 'd, 'c, 'q, 'k, 'o, 'l) ConnectionSlot \<Rightarrow> 't \<Rightarrow>
   (usize option, 'g, 'd, 'c, 'q, 'k, 'o, 'l, 't) drive_result" where
  "drive_shutdown_once S T now remaining s t =
     (case sl_close_request s of
        Some (DirCore reason (ShutPending deadline)) \<Rightarrow>
          if is_elapsed_at (sv_externals S) deadline now
          then (Inr (Some 1), shutdown_timed_out reason s, t)
          else if remaining = 0 then (Inr None, s, t)
          else after_shutdown_call T reason deadline (transport_budget s)
                 (tp_begin_shutdown T (transport_budget s) t) s
      | Some (DirCore reason (ShutStarted deadline)) \<Rightarrow>
          if is_elapsed_at (sv_externals S) deadline now
          then (Inr (Some 1), shutdown_timed_out reason s, t)
          else if remaining = 0 then (Inr None, s, t)
          else if tp_is_shutdown_complete T t then (Inr None, complete_shutdown reason s, t)
          else if \<not> tp_has_transport_work T t then (Inr None, s, t)
          else progress_shutdown T reason deadline s t
      | _ \<Rightarrow> (Inr None, s, t))"

definition observe_shutdown_complete ::
  "'t SlotTransport \<Rightarrow> 't \<Rightarrow> ('g, 'd, 'c, 'q, 'k, 'o, 'l) ConnectionSlot \<Rightarrow>
   ('g, 'd, 'c, 'q, 'k, 'o, 'l) ConnectionSlot" where
  "observe_shutdown_complete T t s =
     (case sl_close_request s of
        Some (DirCore reason (ShutStarted _)) \<Rightarrow>
          if tp_is_shutdown_complete T t then complete_shutdown reason s else s
      | _ \<Rightarrow> s)"

definition has_runnable_shutdown ::
  "('g, 'd, 'r, 'e, 'c, 'q, 'k, 'o, 'l) services \<Rightarrow> 't SlotTransport \<Rightarrow> Moment \<Rightarrow>
   ('g, 'd, 'c, 'q, 'k, 'o, 'l) ConnectionSlot \<Rightarrow> 't \<Rightarrow> bool" where
  "has_runnable_shutdown S T now s t =
     (case sl_close_request s of
        Some (DirCore _ (ShutPending _)) \<Rightarrow> True
      | Some (DirCore _ (ShutStarted deadline)) \<Rightarrow>
          is_elapsed_at (sv_externals S) deadline now \<or> tp_is_shutdown_complete T t \<or>
          tp_has_transport_work T t
      | _ \<Rightarrow> False)"

end
