(* ===== verification/SlotQuantum.thy ===== *)
theory SlotQuantum
  imports SlotDrive
begin

text \<open>
  \<^verbatim>\<open>crates/bornera/src/drive/slot.rs\<close>: one bounded quantum of a slot. The two loops over transport work
  are partial functions whose value is \<open>None\<close> when they do not return.
\<close>

section \<open>One ready step\<close>

record SlotProgress =
  spr_work :: usize
  spr_saturated :: bool

definition drive_preference ::
  "('g, 'd, 'r, 'e, 'c, 'q, 'k, 'o, 'l) services \<Rightarrow> 't SlotTransport \<Rightarrow> usize \<Rightarrow> IoPreference \<Rightarrow>
   ('g, 'd, 'c, 'q, 'k, 'o, 'l) ConnectionSlot \<Rightarrow> 't \<Rightarrow>
   (usize option, 'g, 'd, 'c, 'q, 'k, 'o, 'l, 't) drive_result" where
  "drive_preference S T remaining preference s t =
     (let once = (\<lambda>(r, st). (map_sum id (map_option (\<lambda>_. 1)) r, st)) in
      case preference of
        PrefTransport \<Rightarrow> drive_transport_once S T remaining s t
      | PrefDecode \<Rightarrow>
          if sl_decoder_pending s
          then on_slot t (try_then (drive_decoder_once S s) (\<lambda>_ s1. (Inr (Some 1), s1)))
          else (Inr None, s, t)
      | PrefRead \<Rightarrow> if is_transport_open s then once (drive_read_once S T s t) else (Inr None, s, t)
      | PrefWrite \<Rightarrow> if is_transport_open s then once (drive_write_once S T s t) else (Inr None, s, t))"

text \<open>The four rounds of \<^verbatim>\<open>drive_ready_once\<close>: after each step the pressure is observed.\<close>

fun drive_ready_loop ::
  "('g, 'd, 'r, 'e, 'c, 'q, 'k, 'o, 'l) services \<Rightarrow> 't SlotTransport \<Rightarrow> usize \<Rightarrow> nat \<Rightarrow> IoPreference \<Rightarrow>
   ('g, 'd, 'c, 'q, 'k, 'o, 'l) ConnectionSlot \<Rightarrow> 't \<Rightarrow>
   (usize option, 'g, 'd, 'c, 'q, 'k, 'o, 'l, 't) drive_result" where
  "drive_ready_loop S T remaining 0 preference s t = (Inr None, s, t)"
| "drive_ready_loop S T remaining (Suc rounds) current s t =
     (let preference = pref_next current in
      case drive_preference S T remaining current s t of
        (result, s1, t1) \<Rightarrow>
          (case capture_transport_pressure T t1 s1 of
             (pressure, s2) \<Rightarrow>
               (case result of
                  Inl e \<Rightarrow> (Inl e, s2, t1)
                | Inr advance_by \<Rightarrow>
                    (case pressure of
                       Inl e \<Rightarrow> (Inl e, s2, t1)
                     | Inr _ \<Rightarrow>
                         (case advance_by of
                            Some n \<Rightarrow> (Inr (Some n), s2\<lparr>sl_io_preference := preference\<rparr>, t1)
                          | None \<Rightarrow> drive_ready_loop S T remaining rounds preference s2 t1)))))"

definition drive_ready_once ::
  "('g, 'd, 'r, 'e, 'c, 'q, 'k, 'o, 'l) services \<Rightarrow> 't SlotTransport \<Rightarrow> usize \<Rightarrow>
   ('g, 'd, 'c, 'q, 'k, 'o, 'l) ConnectionSlot \<Rightarrow> 't \<Rightarrow>
   (usize option, 'g, 'd, 'c, 'q, 'k, 'o, 'l, 't) drive_result" where
  "drive_ready_once S T remaining s t = drive_ready_loop S T remaining 4 (sl_io_preference s) s t"

section \<open>The loops over transport work\<close>

partial_function (option) drive_io_loop ::
  "('g, 'd, 'r, 'e, 'c, 'q, 'k, 'o, 'l) services \<Rightarrow> 't SlotTransport \<Rightarrow> usize \<Rightarrow> usize \<Rightarrow>
   ('g, 'd, 'c, 'q, 'k, 'o, 'l) ConnectionSlot \<Rightarrow> 't option \<Rightarrow>
   ((EngineError + usize) \<times> ('g, 'd, 'c, 'q, 'k, 'o, 'l) ConnectionSlot \<times> 't option) option" where
  "drive_io_loop S T budget work s transport =
     (if work < budget \<and> sl_close_request s = None then
        (case transport of
           Some t \<Rightarrow>
             (case drive_ready_once S T (budget - work) s t of
                (result, s1, t1) \<Rightarrow>
                  (case result of
                     Inl e \<Rightarrow> Some (Inl e, s1, Some t1)
                   | Inr None \<Rightarrow> Some (Inr work, s1, Some t1)
                   | Inr (Some advance_by) \<Rightarrow>
                       drive_io_loop S T budget (work + advance_by) s1 (Some t1)))
         | None \<Rightarrow>
             if sl_decoder_pending s then
               (case drive_decoder_once S s of
                  (Inl e, s1) \<Rightarrow> Some (Inl e, s1, None)
                | (Inr _, s1) \<Rightarrow>
                    drive_io_loop S T budget (work + 1) (s1\<lparr>sl_io_preference := PrefRead\<rparr>) None)
             else Some (Inr work, s, None))
      else Some (Inr work, s, transport))"

text \<open>Both loops end with a report on the state they stop in.\<close>

definition with_progress ::
  "(usize \<Rightarrow> ('g, 'd, 'c, 'q, 'k, 'o, 'l) ConnectionSlot \<Rightarrow> 't option \<Rightarrow> bool) \<Rightarrow>
   (EngineError + usize) \<times> ('g, 'd, 'c, 'q, 'k, 'o, 'l) ConnectionSlot \<times> 't option \<Rightarrow>
   (EngineError + SlotProgress) \<times> ('g, 'd, 'c, 'q, 'k, 'o, 'l) ConnectionSlot \<times> 't option" where
  "with_progress saturated out =
     (case out of (result, s, transport) \<Rightarrow>
        (map_sum id (\<lambda>work. \<lparr>spr_work = work, spr_saturated = saturated work s transport\<rparr>) result,
         s, transport))"

definition drive_io ::
  "('g, 'd, 'r, 'e, 'c, 'q, 'k, 'o, 'l) services \<Rightarrow> 't SlotTransport \<Rightarrow> usize \<Rightarrow>
   ('g, 'd, 'c, 'q, 'k, 'o, 'l) ConnectionSlot \<Rightarrow> 't option \<Rightarrow>
   ((EngineError + SlotProgress) \<times> ('g, 'd, 'c, 'q, 'k, 'o, 'l) ConnectionSlot \<times> 't option) option" where
  "drive_io S T budget s transport =
     map_option
       (with_progress (\<lambda>work s transport.
          work = budget \<and> sl_close_request s = None \<and>
          (sl_decoder_pending s \<or>
           (case transport of None \<Rightarrow> False | Some t \<Rightarrow> has_runnable_io T s t))))
       (drive_io_loop S T budget 0 s transport)"

partial_function (option) drive_close_loop ::
  "('g, 'd, 'r, 'e, 'c, 'q, 'k, 'o, 'l) services \<Rightarrow> 't SlotTransport \<Rightarrow> Moment \<Rightarrow> usize \<Rightarrow> usize \<Rightarrow>
   ('g, 'd, 'c, 'q, 'k, 'o, 'l) ConnectionSlot \<Rightarrow> 't option \<Rightarrow>
   ((EngineError + usize) \<times> ('g, 'd, 'c, 'q, 'k, 'o, 'l) ConnectionSlot \<times> 't option) option" where
  "drive_close_loop S T now budget work s transport =
     (if work < budget then
        (case transport of
           None \<Rightarrow> Some (Inr work, s, transport)
         | Some t \<Rightarrow>
             (case drive_shutdown_once S T now (budget - work) s t of
                (result, s1, t1) \<Rightarrow>
                  (case result of
                     Inl e \<Rightarrow> Some (Inl e, s1, Some t1)
                   | Inr None \<Rightarrow> Some (Inr work, s1, Some t1)
                   | Inr (Some advance_by) \<Rightarrow>
                       drive_close_loop S T now budget (usize_saturating_add work advance_by) s1
                         (Some t1))))
      else Some (Inr work, s, transport))"

definition drive_close_quantum ::
  "('g, 'd, 'r, 'e, 'c, 'q, 'k, 'o, 'l) services \<Rightarrow> 't SlotTransport \<Rightarrow> Moment \<Rightarrow> usize \<Rightarrow> usize \<Rightarrow>
   ('g, 'd, 'c, 'q, 'k, 'o, 'l) ConnectionSlot \<Rightarrow> 't option \<Rightarrow>
   ((EngineError + SlotProgress) \<times> ('g, 'd, 'c, 'q, 'k, 'o, 'l) ConnectionSlot \<times> 't option) option" where
  "drive_close_quantum S T now budget work s transport =
     map_option
       (with_progress (\<lambda>work s transport.
          work = budget \<and>
          (case transport of None \<Rightarrow> False | Some t \<Rightarrow> has_runnable_shutdown S T now s t)))
       (drive_close_loop S T now budget work s transport)"

section \<open>The quantum\<close>

definition capture_if_present ::
  "'t SlotTransport \<Rightarrow> 't option \<Rightarrow> ('g, 'd, 'c, 'q, 'k, 'o, 'l) ConnectionSlot \<Rightarrow>
   (EngineError + unit) \<times> ('g, 'd, 'c, 'q, 'k, 'o, 'l) ConnectionSlot" where
  "capture_if_present T transport s =
     (case transport of None \<Rightarrow> (Inr (), s) | Some t \<Rightarrow> capture_transport_pressure T t s)"

text \<open>The part of \<^verbatim>\<open>drive_quantum_inner\<close> after the deadlines, with the work they did.\<close>

definition drive_after_deadlines ::
  "('g, 'd, 'r, 'e, 'c, 'q, 'k, 'o, 'l) services \<Rightarrow> 't SlotTransport \<Rightarrow> Moment \<Rightarrow> usize \<Rightarrow> usize \<Rightarrow>
   ('g, 'd, 'c, 'q, 'k, 'o, 'l) ConnectionSlot \<Rightarrow> 't option \<Rightarrow>
   ((EngineError + SlotProgress) \<times> ('g, 'd, 'c, 'q, 'k, 'o, 'l) ConnectionSlot \<times> 't option) option" where
  "drive_after_deadlines S T now budget work s transport =
     (if sl_close_request s \<noteq> None then drive_close_quantum S T now budget work s transport
      else if work = budget then
        (let runnable_io = sl_decoder_pending s \<or>
               (case transport of None \<Rightarrow> False | Some t \<Rightarrow> has_runnable_io T s t)
         in Some (Inr \<lparr>spr_work = work, spr_saturated = has_due_deadline S now s \<or> runnable_io\<rparr>,
                  s, transport))
      else (case drive_io S T (budget - work) s transport of
        None \<Rightarrow> None
      | Some (Inl e, s1, transport1) \<Rightarrow> Some (Inl e, s1, transport1)
      | Some (Inr io, s1, transport1) \<Rightarrow>
          (let work1 = usize_saturating_add work (spr_work io) in
           if sl_close_request s1 \<noteq> None then drive_close_quantum S T now budget work1 s1 transport1
           else Some (Inr \<lparr>spr_work = work1, spr_saturated = spr_saturated io\<rparr>, s1, transport1))))"

definition drive_quantum_inner ::
  "('g, 'd, 'r, 'e, 'c, 'q, 'k, 'o, 'l) services \<Rightarrow> 't SlotTransport \<Rightarrow> Moment \<Rightarrow>
   ('g, 'd, 'c, 'q, 'k, 'o, 'l) ConnectionSlot \<Rightarrow> 't option \<Rightarrow>
   ((EngineError + SlotProgress) \<times> ('g, 'd, 'c, 'q, 'k, 'o, 'l) ConnectionSlot \<times> 't option) option" where
  "drive_quantum_inner S T now s transport =
     (case capture_if_present T transport s of
        (Inl e, s1) \<Rightarrow> Some (Inl e, s1, transport)
      | (Inr _, s1) \<Rightarrow>
          (let budget = io_operations (sl_limits s1) in
           case (if sl_close_request s1 = None then drive_deadlines S now budget s1
                 else (Inr 0, s1)) of
             (Inl e, s2) \<Rightarrow> Some (Inl e, s2, transport)
           | (Inr work, s2) \<Rightarrow> drive_after_deadlines S T now budget work s2 transport))"

definition drive_quantum ::
  "('g, 'd, 'r, 'e, 'c, 'q, 'k, 'o, 'l) services \<Rightarrow> 't SlotTransport \<Rightarrow> Moment \<Rightarrow>
   ('g, 'd, 'c, 'q, 'k, 'o, 'l) ConnectionSlot \<Rightarrow> 't option \<Rightarrow>
   ((EngineError + SlotProgress) \<times> ('g, 'd, 'c, 'q, 'k, 'o, 'l) ConnectionSlot \<times> 't option) option" where
  "drive_quantum S T now s transport =
     (case ensure_running s of
        (Inl e, s1) \<Rightarrow> Some (Inl e, s1, transport)
      | (Inr _, s1) \<Rightarrow>
          map_option
            (\<lambda>(result, s2, transport2). (case latch (result, s2) of (r, s3) \<Rightarrow> (r, s3, transport2)))
            (drive_quantum_inner S T now s1 transport))"

declare drive_io_loop.simps [code] drive_close_loop.simps [code]

end
