(* ===== verification/SetState.thy ===== *)
theory SetState
  imports SlotQuantum
begin

text \<open>
  \<^verbatim>\<open>crates/bornera/src/\<close>, the owner of many connections that share one selector: \<^verbatim>\<open>set.rs\<close> (state, fencing by
  generation, the ready queue), \<^verbatim>\<open>set_failure.rs\<close> (the set-wide failure latch), \<^verbatim>\<open>set_settle.rs\<close> (releasing a
  transport), with the values of \<^verbatim>\<open>token.rs\<close>, \<^verbatim>\<open>command.rs\<close>, \<^verbatim>\<open>connection_error.rs\<close>, \<^verbatim>\<open>config/set_limits.rs\<close> and the
  construction errors of \<^verbatim>\<open>error.rs\<close>.
\<close>

section \<open>Values\<close>

record ConnectionSetLimits =
  stl_max_connections :: usize
  stl_poll_events :: usize
  stl_command_capacity :: usize
  stl_commands_per_turn :: usize
  stl_ready_connections_per_turn :: usize

text \<open>The bounds of a set that owns a single connection.\<close>

definition set_limits_standalone :: "ConnectionSlotLimits \<Rightarrow> ConnectionSetLimits" where
  "set_limits_standalone l =
     \<lparr>stl_max_connections = 1, stl_poll_events = io_operations l, stl_command_capacity = io_operations l,
      stl_commands_per_turn = io_operations l, stl_ready_connections_per_turn = 1\<rparr>"

text \<open>A resource token \<open>'w\<close> of the table, with the complete identity of the connection.\<close>

record 'w ConnectionToken =
  ct_resource :: 'w
  ct_identity :: ConnectionIdentity

datatype 'w ConnectionCommand =
    CmdOpenAdmission (cmd_connection: "'w ConnectionToken")
  | CmdCancel (cmd_connection: "'w ConnectionToken") OperationId
  | CmdBeginDrain (cmd_connection: "'w ConnectionToken") Deadline
  | CmdClose (cmd_connection: "'w ConnectionToken")

datatype ConnectionAccessError = AccessStale | AccessOwner EngineError

datatype ConnectionReserveError = ReserveStale | ReserveRejected ReserveError

datatype 'f ConnectionCommitError = CommitStale OperationPermit 'f | CommitConnection "'f EngineCommitError"

datatype ConnectionRetireError = RetireStale | RetireTransportLive | RetireOwnerFailed OwnerFailure | RetirePublicationsPending

datatype ConnectionRecoveryError = RecoveryStale | RecoveryOwnerRunning

datatype 'e ConnectError =
    ConnectIo IoError
  | ConnectMio MioError
  | ConnectDecoder "'e FrameDecodeError"
  | ConnectResourceAdmission
  | ConnectOwnerFailed OwnerFailure
  | ConnectTransportCapacity RetainedBytes TransportPressure
  | ConnectTransportLimit RetainedBytes RetainedBytes

section \<open>What comes from other crates\<close>

text \<open>
  The resource table of calandria, a state \<open>'b\<close> that keeps entries \<open>'x\<close> under fenced tokens: \<open>rt_put\<close> writes
  back what \<^verbatim>\<open>get_mut\<close> gave out. The selector of calandria-mio with state \<open>'p\<close>, whose registration calls
  may touch the transport; a poll fills the event batch. The command mailbox with state \<open>'m\<close> and
  its two lanes. A
  registered transport adds its interest \<open>'i\<close> and takes readiness observations \<open>'y\<close>.
\<close>

record ('w, 'x, 'b) ResourceTable =
  rt_new :: "usize \<Rightarrow> 'b"
  rt_admit :: "ConnectionIdentity \<Rightarrow> 'x \<Rightarrow> 'b \<Rightarrow> 'w option \<times> 'b"
  rt_get :: "'w \<Rightarrow> 'b \<Rightarrow> (ConnectionIdentity \<times> 'x) option"
  rt_put :: "'w \<Rightarrow> 'x \<Rightarrow> 'b \<Rightarrow> 'b"
  rt_remove :: "'w \<Rightarrow> 'b \<Rightarrow> (ConnectionIdentity \<times> 'x) option \<times> 'b"
  rt_tokens :: "'b \<Rightarrow> 'w list"

datatype ('w, 'y) PollEvent = PollResource 'w 'y | PollWake

record PollReport =
  pr_observed :: usize
  pr_stale :: usize
  pr_saturated :: bool

record ('t, 'i, 'y, 'w, 'p) MioPoller =
  mp_new :: "usize \<Rightarrow> usize \<Rightarrow> MioError + 'p"
  mp_register :: "'w \<Rightarrow> 'i \<Rightarrow> 't \<Rightarrow> 'p \<Rightarrow> (MioError + unit) \<times> 't \<times> 'p"
  mp_reregister :: "'w \<Rightarrow> 'i \<Rightarrow> 't \<Rightarrow> 'p \<Rightarrow> (MioError + unit) \<times> 't \<times> 'p"
  mp_deregister :: "'w \<Rightarrow> 't \<Rightarrow> 'p \<Rightarrow> (MioError + unit) \<times> 't \<times> 'p"
  mp_poll :: "Span \<Rightarrow> ('w, 'y) PollEvent list \<Rightarrow> 'p \<Rightarrow> (MioError + PollReport) \<times> ('w, 'y) PollEvent list \<times> 'p"
  mp_io_error :: "MioError \<Rightarrow> IoError option"

typedecl TrySendError

record ('w, 'm) Mailbox =
  mb_new :: "usize \<Rightarrow> 'm"
  mb_drain_into :: "'w ConnectionCommand list \<Rightarrow> usize \<Rightarrow> 'm \<Rightarrow> (usize \<times> bool) \<times> 'w ConnectionCommand list \<times> 'm"
  mb_close :: "'m \<Rightarrow> 'm"
  mb_try_send :: "'w ConnectionCommand \<Rightarrow> 'm \<Rightarrow> (TrySendError + unit) \<times> 'm"
  mb_try_send_control :: "'w ConnectionCommand \<Rightarrow> 'm \<Rightarrow> (TrySendError + unit) \<times> 'm"

record ('t, 'i, 'y) RegisteredTransport =
  rg_slot :: "'t SlotTransport"
  rg_desired_interest :: "bool \<Rightarrow> 't \<Rightarrow> 'i"
  rg_read_write :: 'i
  rg_observe_readiness :: "'y \<Rightarrow> 't \<Rightarrow> 't"

section \<open>State\<close>

record ('g, 'd, 'c, 'q, 'k, 'o, 'l, 't, 'i) ConnectionEntry =
  ce_slot :: "('g, 'd, 'c, 'q, 'k, 'o, 'l) ConnectionSlot"
  ce_transport :: "'t option"
  ce_interest :: 'i
  ce_ready_queued :: bool

record ('w, 'y, 'b, 'p, 'm) ConnectionSet =
  cs_limits :: ConnectionSetLimits
  cs_poller :: 'p
  cs_poll_events :: "('w, 'y) PollEvent list"
  cs_resources :: 'b
  cs_ready :: "'w list"
  cs_commands :: 'm
  cs_command_more_pending :: bool
  cs_poll_saturated :: bool
  cs_stale_backend_events :: u64
  cs_stale_resource_events :: u64
  cs_stale_commands :: u64
  cs_owner_failure :: "OwnerFailure option"

record ('g, 'd, 'r, 'e, 'c, 'q, 'k, 'o, 'l, 't, 'i, 'y, 'w, 'b, 'p, 'm) set_env =
  en_services :: "('g, 'd, 'r, 'e, 'c, 'q, 'k, 'o, 'l) services"
  en_transport :: "('t, 'i, 'y) RegisteredTransport"
  en_table :: "('w, ('g, 'd, 'c, 'q, 'k, 'o, 'l, 't, 'i) ConnectionEntry, 'b) ResourceTable"
  en_poller :: "('t, 'i, 'y, 'w, 'p) MioPoller"
  en_mailbox :: "('w, 'm) Mailbox"

abbreviation en_port :: "('g, 'd, 'r, 'e, 'c, 'q, 'k, 'o, 'l, 't, 'i, 'y, 'w, 'b, 'p, 'm) set_env \<Rightarrow> 't SlotTransport" where
  "en_port E \<equiv> rg_slot (en_transport E)"

definition u64_saturating_add :: "u64 \<Rightarrow> u64 \<Rightarrow> u64" where
  "u64_saturating_add a b = (if unat a + unat b < 2 ^ 64 then a + b else - 1)"

definition to_u64 :: "usize \<Rightarrow> u64" where
  "to_u64 n = (if n < 2 ^ 64 then of_nat n else - 1)"

definition set_new ::
  "('g, 'd, 'r, 'e, 'c, 'q, 'k, 'o, 'l, 't, 'i, 'y, 'w, 'b, 'p, 'm) set_env \<Rightarrow> ConnectionSetLimits \<Rightarrow>
   MioError + ('w, 'y, 'b, 'p, 'm) ConnectionSet" where
  "set_new E limits =
     (case mp_new (en_poller E) (stl_poll_events limits) (stl_max_connections limits) of
        Inl e \<Rightarrow> Inl e
      | Inr poller \<Rightarrow>
          Inr \<lparr>cs_limits = limits, cs_poller = poller, cs_poll_events = [],
               cs_resources = rt_new (en_table E) (stl_max_connections limits), cs_ready = [],
               cs_commands = mb_new (en_mailbox E) (stl_command_capacity limits),
               cs_command_more_pending = False, cs_poll_saturated = False, cs_stale_backend_events = 0,
               cs_stale_resource_events = 0, cs_stale_commands = 0, cs_owner_failure = None\<rparr>)"

section \<open>Fenced access\<close>

definition set_entry ::
  "('g, 'd, 'r, 'e, 'c, 'q, 'k, 'o, 'l, 't, 'i, 'y, 'w, 'b, 'p, 'm) set_env \<Rightarrow> 'w ConnectionToken \<Rightarrow>
   ('w, 'y, 'b, 'p, 'm) ConnectionSet \<Rightarrow>
   ConnectionAccessError + ('g, 'd, 'c, 'q, 'k, 'o, 'l, 't, 'i) ConnectionEntry" where
  "set_entry E connection cs =
     (case rt_get (en_table E) (ct_resource connection) (cs_resources cs) of
        None \<Rightarrow> Inl AccessStale
      | Some (identity, entry) \<Rightarrow>
          if identity \<noteq> ct_identity connection then Inl AccessStale else Inr entry)"

definition put_entry ::
  "('g, 'd, 'r, 'e, 'c, 'q, 'k, 'o, 'l, 't, 'i, 'y, 'w, 'b, 'p, 'm) set_env \<Rightarrow> 'w \<Rightarrow>
   ('g, 'd, 'c, 'q, 'k, 'o, 'l, 't, 'i) ConnectionEntry \<Rightarrow> ('w, 'y, 'b, 'p, 'm) ConnectionSet \<Rightarrow>
   ('w, 'y, 'b, 'p, 'm) ConnectionSet" where
  "put_entry E resource entry cs = cs\<lparr>cs_resources := rt_put (en_table E) resource entry (cs_resources cs)\<rparr>"

definition enqueue ::
  "('g, 'd, 'r, 'e, 'c, 'q, 'k, 'o, 'l, 't, 'i, 'y, 'w, 'b, 'p, 'm) set_env \<Rightarrow> 'w \<Rightarrow>
   ('w, 'y, 'b, 'p, 'm) ConnectionSet \<Rightarrow> ('w, 'y, 'b, 'p, 'm) ConnectionSet" where
  "enqueue E resource cs =
     (case rt_get (en_table E) resource (cs_resources cs) of
        None \<Rightarrow> cs
      | Some (identity, entry) \<Rightarrow>
          if ce_ready_queued entry then cs
          else (put_entry E resource (entry\<lparr>ce_ready_queued := True\<rparr>) cs)\<lparr>cs_ready := cs_ready cs @ [resource]\<rparr>)"

section \<open>The set-wide failure latch\<close>

definition ensure_owner_running :: "('w, 'y, 'b, 'p, 'm) ConnectionSet \<Rightarrow> EngineError + unit" where
  "ensure_owner_running cs =
     (case cs_owner_failure cs of None \<Rightarrow> Inr () | Some reason \<Rightarrow> Inl (EngOwnerFailed reason))"

definition record_readiness_failure ::
  "IoError option \<Rightarrow> ('g, 'd, 'c, 'q, 'k, 'o, 'l) ConnectionSlot \<Rightarrow>
   ('g, 'd, 'c, 'q, 'k, 'o, 'l) ConnectionSlot" where
  "record_readiness_failure io s =
     (case io of None \<Rightarrow> s | Some error \<Rightarrow> record_transport_failure (diagnostic_from_io PhReadiness error) s)"

definition fail_entry ::
  "('g, 'd, 'r, 'e, 'c, 'q, 'k, 'o, 'l, 't, 'i, 'y, 'w, 'b, 'p, 'm) set_env \<Rightarrow> MioError \<Rightarrow> 'w \<Rightarrow> 'b \<Rightarrow> 'b" where
  "fail_entry E source token resources =
     (case rt_get (en_table E) token resources of
        None \<Rightarrow> resources
      | Some (identity, entry) \<Rightarrow>
          rt_put (en_table E) token
            (entry\<lparr>ce_slot := latch_owner_failure OwnerReadiness
                     (record_readiness_failure (mp_io_error (en_poller E) source) (ce_slot entry)),
                   ce_ready_queued := False\<rparr>) resources)"

definition latch_selector_failure ::
  "('g, 'd, 'r, 'e, 'c, 'q, 'k, 'o, 'l, 't, 'i, 'y, 'w, 'b, 'p, 'm) set_env \<Rightarrow> MioError \<Rightarrow>
   ('w, 'y, 'b, 'p, 'm) ConnectionSet \<Rightarrow> ('w, 'y, 'b, 'p, 'm) ConnectionSet" where
  "latch_selector_failure E source cs =
     (if cs_owner_failure cs \<noteq> None then cs
      else
        cs\<lparr>cs_owner_failure := Some OwnerReadiness, cs_commands := mb_close (en_mailbox E) (cs_commands cs),
           cs_ready := [],
           cs_resources := fold (fail_entry E source) (rt_tokens (en_table E) (cs_resources cs)) (cs_resources cs)\<rparr>)"

definition latch_readiness_error ::
  "('g, 'd, 'r, 'e, 'c, 'q, 'k, 'o, 'l, 't, 'i, 'y, 'w, 'b, 'p, 'm) set_env \<Rightarrow> EngineError \<Rightarrow>
   ('w, 'y, 'b, 'p, 'm) ConnectionSet \<Rightarrow> ('w, 'y, 'b, 'p, 'm) ConnectionSet" where
  "latch_readiness_error E error cs =
     (case error of EngMio source \<Rightarrow> latch_selector_failure E source cs | _ \<Rightarrow> cs)"

definition resolve_selector_poll ::
  "('g, 'd, 'r, 'e, 'c, 'q, 'k, 'o, 'l, 't, 'i, 'y, 'w, 'b, 'p, 'm) set_env \<Rightarrow> MioError + PollReport \<Rightarrow>
   ('w, 'y, 'b, 'p, 'm) ConnectionSet \<Rightarrow> (EngineError + PollReport) \<times> ('w, 'y, 'b, 'p, 'm) ConnectionSet" where
  "resolve_selector_poll E result cs =
     (case result of
        Inr report \<Rightarrow> (Inr report, cs)
      | Inl source \<Rightarrow> (Inl (EngMio source), latch_selector_failure E source cs))"

definition poll_selector ::
  "('g, 'd, 'r, 'e, 'c, 'q, 'k, 'o, 'l, 't, 'i, 'y, 'w, 'b, 'p, 'm) set_env \<Rightarrow> Span \<Rightarrow>
   ('w, 'y, 'b, 'p, 'm) ConnectionSet \<Rightarrow> (EngineError + PollReport) \<times> ('w, 'y, 'b, 'p, 'm) ConnectionSet" where
  "poll_selector E maximum cs =
     (case ensure_owner_running cs of
        Inl e \<Rightarrow> (Inl e, cs)
      | Inr _ \<Rightarrow>
          (case mp_poll (en_poller E) maximum (cs_poll_events cs) (cs_poller cs) of
             (result, events, poller) \<Rightarrow>
               resolve_selector_poll E result (cs\<lparr>cs_poll_events := events, cs_poller := poller\<rparr>)))"

definition observe_poll :: "PollReport \<Rightarrow> ('w, 'y, 'b, 'p, 'm) ConnectionSet \<Rightarrow> ('w, 'y, 'b, 'p, 'm) ConnectionSet" where
  "observe_poll report cs =
     cs\<lparr>cs_stale_backend_events := u64_saturating_add (cs_stale_backend_events cs) (to_u64 (pr_stale report)),
        cs_poll_saturated := pr_saturated report\<rparr>"

datatype WaitOutcome = WaitIdle | WaitNotified

definition poll_io ::
  "('g, 'd, 'r, 'e, 'c, 'q, 'k, 'o, 'l, 't, 'i, 'y, 'w, 'b, 'p, 'm) set_env \<Rightarrow> Span \<Rightarrow>
   ('w, 'y, 'b, 'p, 'm) ConnectionSet \<Rightarrow> (EngineError + WaitOutcome) \<times> ('w, 'y, 'b, 'p, 'm) ConnectionSet" where
  "poll_io E maximum cs =
     try_then (poll_selector E maximum cs) (\<lambda>report cs.
       (Inr (if pr_observed report = 0 then WaitIdle else WaitNotified), observe_poll report cs))"

section \<open>Releasing a transport\<close>

text \<open>
  \<^verbatim>\<open>settle_entry\<close> and \<^verbatim>\<open>sync_interest\<close> work on the selector and one entry; the result carries both.
\<close>

definition settle_entry ::
  "('g, 'd, 'r, 'e, 'c, 'q, 'k, 'o, 'l, 't, 'i, 'y, 'w, 'b, 'p, 'm) set_env \<Rightarrow> 'w \<Rightarrow>
   ('g, 'd, 'c, 'q, 'k, 'o, 'l, 't, 'i) ConnectionEntry \<Rightarrow> 'p \<Rightarrow>
   (EngineError + usize) \<times> ('g, 'd, 'c, 'q, 'k, 'o, 'l, 't, 'i) ConnectionEntry \<times> 'p" where
  "settle_entry E resource entry poller =
     (let entry = (case ce_transport entry of
                     None \<Rightarrow> entry
                   | Some t \<Rightarrow> entry\<lparr>ce_slot := observe_shutdown_complete (en_port E) t (ce_slot entry)\<rparr>)
      in case take_close_request (ce_slot entry) of
           (None, s) \<Rightarrow> (Inr 0, entry\<lparr>ce_slot := s\<rparr>, poller)
         | (Some directive, s) \<Rightarrow>
             (let finish = (\<lambda>s poller.
                    (let (settled, s1) = settle_transport_closed (en_services E) (restore_close_request directive s);
                         s2 = (if settled then s1
                               else abort_transport (latch_failure (EngInvariant MissingCloseReason) s1))
                     in (Inr 1, entry\<lparr>ce_slot := s2, ce_transport := None\<rparr>, poller)))
              in case ce_transport entry of
                   None \<Rightarrow> finish s poller
                 | Some t \<Rightarrow>
                     (let (deregistration, t1, poller1) = mp_deregister (en_poller E) resource t poller;
                          (pressure, s1) = capture_transport_pressure (en_port E) t1 s
                      in case deregistration of
                           Inl source \<Rightarrow>
                             (Inl (EngMio source),
                              entry\<lparr>ce_transport := Some t1,
                                    ce_slot := latch_failure (EngMio source) (restore_close_request directive
                                      (record_readiness_failure (mp_io_error (en_poller E) source) s1))\<rparr>,
                              poller1)
                         | Inr _ \<Rightarrow>
                             (case pressure of
                                Inl error \<Rightarrow>
                                  (Inl error,
                                   entry\<lparr>ce_transport := None,
                                         ce_slot := latch_failure error (restore_close_request directive s1)\<rparr>,
                                   poller1)
                              | Inr _ \<Rightarrow> finish s1 poller1))))"

definition desired_interest ::
  "('t, 'i, 'y) RegisteredTransport \<Rightarrow> ('g, 'd, 'c, 'q, 'k, 'o, 'l) ConnectionSlot \<Rightarrow> 't \<Rightarrow> 'i" where
  "desired_interest R s t = rg_desired_interest R (queued_frames (core_writes (sl_core s)) > 0) t"

definition sync_interest ::
  "('g, 'd, 'r, 'e, 'c, 'q, 'k, 'o, 'l, 't, 'i, 'y, 'w, 'b, 'p, 'm) set_env \<Rightarrow> 'w \<Rightarrow>
   ('g, 'd, 'c, 'q, 'k, 'o, 'l, 't, 'i) ConnectionEntry \<Rightarrow> 'p \<Rightarrow>
   (EngineError + usize) \<times> ('g, 'd, 'c, 'q, 'k, 'o, 'l, 't, 'i) ConnectionEntry \<times> 'p" where
  "sync_interest E resource entry poller =
     (case ce_transport entry of
        None \<Rightarrow> (Inr 0, entry, poller)
      | Some t \<Rightarrow>
          (let desired = desired_interest (en_transport E) (ce_slot entry) t in
           if desired = ce_interest entry then (Inr 0, entry, poller)
           else
             (let (registration, t1, poller1) = mp_reregister (en_poller E) resource desired t poller;
                  (pressure, s1) = capture_transport_pressure (en_port E) t1 (ce_slot entry)
              in case registration of
                   Inl source \<Rightarrow>
                     (Inl (EngMio source),
                      entry\<lparr>ce_transport := Some t1,
                            ce_slot := latch_failure (EngMio source)
                              (record_readiness_failure (mp_io_error (en_poller E) source) s1)\<rparr>,
                      poller1)
                 | Inr _ \<Rightarrow>
                     (Inr 1,
                      entry\<lparr>ce_transport := Some t1, ce_interest := desired,
                            ce_slot := (case pressure of Inl error \<Rightarrow> latch_failure error s1 | Inr _ \<Rightarrow> s1)\<rparr>,
                      poller1))))"

definition unqueue ::
  "('g, 'd, 'r, 'e, 'c, 'q, 'k, 'o, 'l, 't, 'i, 'y, 'w, 'b, 'p, 'm) set_env \<Rightarrow> 'w \<Rightarrow>
   ('w, 'y, 'b, 'p, 'm) ConnectionSet \<Rightarrow> ('w, 'y, 'b, 'p, 'm) ConnectionSet" where
  "unqueue E resource cs =
     (let cs1 = cs\<lparr>cs_ready := filter (\<lambda>token. token \<noteq> resource) (cs_ready cs)\<rparr> in
      case rt_get (en_table E) resource (cs_resources cs1) of
        None \<Rightarrow> cs1
      | Some (_, entry) \<Rightarrow> put_entry E resource (entry\<lparr>ce_ready_queued := False\<rparr>) cs1)"

definition settle_connection ::
  "('g, 'd, 'r, 'e, 'c, 'q, 'k, 'o, 'l, 't, 'i, 'y, 'w, 'b, 'p, 'm) set_env \<Rightarrow> 'w \<Rightarrow>
   ('w, 'y, 'b, 'p, 'm) ConnectionSet \<Rightarrow> (EngineError + usize) \<times> ('w, 'y, 'b, 'p, 'm) ConnectionSet" where
  "settle_connection E resource cs =
     (case rt_get (en_table E) resource (cs_resources cs) of
        None \<Rightarrow> (Inl (EngInvariant InvResourceToken), cs)
      | Some (identity, entry) \<Rightarrow>
          (case settle_entry E resource entry (cs_poller cs) of
             (result, entry1, poller) \<Rightarrow>
               (let cs1 = (put_entry E resource entry1 cs)\<lparr>cs_poller := poller\<rparr> in
                case result of
                  Inl error \<Rightarrow> (Inl error, latch_readiness_error E error cs1)
                | Inr settled \<Rightarrow>
                    (let cs2 = (if settled \<noteq> 0 then unqueue E resource cs1 else cs1)
                     in case rt_get (en_table E) resource (cs_resources cs2) of
                          None \<Rightarrow> (Inr settled, cs2)
                        | Some (_, entry2) \<Rightarrow>
                            (case state_failure (sl_state (ce_slot entry2)) of
                               Some reason \<Rightarrow> (Inl (EngOwnerFailed reason), cs2)
                             | None \<Rightarrow> (Inr settled, cs2))))))"

end
