(* ===== verification/SetTurn.thy ===== *)
theory SetTurn
  imports SetState
begin

text \<open>
  \<^verbatim>\<open>crates/bornera/src/set_drive.rs\<close> and \<^verbatim>\<open>set_drive/ready.rs\<close>: one bounded turn of a connection set. Commands of
  the mailbox, readiness observations, then the ready queue, a bounded number of connections each
  for one quantum. The scratch buffers \<^verbatim>\<open>scan\<close> and \<^verbatim>\<open>command_buffer\<close> are the lists passed along.
\<close>

section \<open>Commands\<close>

text \<open>The call a command stands for; only whether it failed matters.\<close>

definition run_command ::
  "('g, 'd, 'r, 'e, 'c, 'q, 'k, 'o, 'l) services \<Rightarrow> 'w ConnectionCommand \<Rightarrow>
   ('g, 'd, 'c, 'q, 'k, 'o, 'l) ConnectionSlot \<Rightarrow> (EngineError + unit) \<times> ('g, 'd, 'c, 'q, 'k, 'o, 'l) ConnectionSlot" where
  "run_command S command s =
     (case command of
        CmdOpenAdmission _ \<Rightarrow> try_then (slot_open_admission S s) (\<lambda>_ s1. (Inr (), s1))
      | CmdCancel _ operation \<Rightarrow> try_then (slot_cancel S operation s) (\<lambda>_ s1. (Inr (), s1))
      | CmdBeginDrain _ deadline \<Rightarrow> try_then (slot_begin_drain S deadline s) (\<lambda>_ s1. (Inr (), s1))
      | CmdClose _ \<Rightarrow> try_then (slot_finalize S Requested s) (\<lambda>_ s1. (Inr (), s1)))"

definition apply_command ::
  "('g, 'd, 'r, 'e, 'c, 'q, 'k, 'o, 'l, 't, 'i, 'y, 'w, 'b, 'p, 'm) set_env \<Rightarrow> 'w ConnectionCommand \<Rightarrow>
   ('w, 'y, 'b, 'p, 'm) ConnectionSet \<Rightarrow> ('w, 'y, 'b, 'p, 'm) ConnectionSet" where
  "apply_command E command cs =
     (let connection = cmd_connection command; resource = ct_resource connection in
      case set_entry E connection cs of
        Inl _ \<Rightarrow> cs\<lparr>cs_stale_commands := u64_saturating_add (cs_stale_commands cs) 1\<rparr>
      | Inr entry \<Rightarrow>
          (case run_command (en_services E) command (ce_slot entry) of
             (result, s1) \<Rightarrow>
               (let s2 = (case result of Inl error \<Rightarrow> latch_failure error s1 | Inr _ \<Rightarrow> s1)
                in enqueue E resource (put_entry E resource (entry\<lparr>ce_slot := s2\<rparr>) cs))))"

definition drive_commands ::
  "('g, 'd, 'r, 'e, 'c, 'q, 'k, 'o, 'l, 't, 'i, 'y, 'w, 'b, 'p, 'm) set_env \<Rightarrow>
   ('w, 'y, 'b, 'p, 'm) ConnectionSet \<Rightarrow> usize \<times> ('w, 'y, 'b, 'p, 'm) ConnectionSet" where
  "drive_commands E cs =
     (case mb_drain_into (en_mailbox E) [] (stl_commands_per_turn (cs_limits cs)) (cs_commands cs) of
        ((drained, left), buffer, mailbox) \<Rightarrow>
          (drained, fold (apply_command E) buffer (cs\<lparr>cs_commands := mailbox, cs_command_more_pending := left\<rparr>)))"

section \<open>Readiness\<close>

definition observe_transport_readiness ::
  "('t, 'i, 'y) RegisteredTransport \<Rightarrow> 'y \<Rightarrow> ('g, 'd, 'c, 'q, 'k, 'o, 'l) ConnectionSlot \<Rightarrow> 't \<Rightarrow>
   ('g, 'd, 'c, 'q, 'k, 'o, 'l) ConnectionSlot \<times> 't" where
  "observe_transport_readiness R readiness s t =
     (let t1 = rg_observe_readiness R readiness t in
      case capture_transport_pressure (rg_slot R) t1 s of
        (Inl error, s1) \<Rightarrow> (latch_failure error s1, t1)
      | (Inr _, s1) \<Rightarrow> (s1, t1))"

definition ingest_event ::
  "('g, 'd, 'r, 'e, 'c, 'q, 'k, 'o, 'l, 't, 'i, 'y, 'w, 'b, 'p, 'm) set_env \<Rightarrow> ('w, 'y) PollEvent \<Rightarrow>
   ('w, 'y, 'b, 'p, 'm) ConnectionSet \<Rightarrow> ('w, 'y, 'b, 'p, 'm) ConnectionSet" where
  "ingest_event E event cs =
     (case event of
        PollWake \<Rightarrow> cs
      | PollResource token readiness \<Rightarrow>
          (let stale = cs\<lparr>cs_stale_resource_events := u64_saturating_add (cs_stale_resource_events cs) 1\<rparr> in
           case rt_get (en_table E) token (cs_resources cs) of
             None \<Rightarrow> stale
           | Some (identity, entry) \<Rightarrow>
               (case ce_transport entry of
                  None \<Rightarrow> stale
                | Some t \<Rightarrow>
                    (let (s1, t1) = observe_transport_readiness (en_transport E) readiness (ce_slot entry) t;
                         entry1 = entry\<lparr>ce_slot := s1, ce_transport := Some t1\<rparr>
                     in if ce_ready_queued entry1 then put_entry E token entry1 cs
                        else (put_entry E token (entry1\<lparr>ce_ready_queued := True\<rparr>) cs)
                               \<lparr>cs_ready := cs_ready cs @ [token]\<rparr>))))"

definition ingest_readiness ::
  "('g, 'd, 'r, 'e, 'c, 'q, 'k, 'o, 'l, 't, 'i, 'y, 'w, 'b, 'p, 'm) set_env \<Rightarrow>
   ('w, 'y, 'b, 'p, 'm) ConnectionSet \<Rightarrow> usize \<times> ('w, 'y, 'b, 'p, 'm) ConnectionSet" where
  "ingest_readiness E cs =
     (let events = cs_poll_events cs
      in (fold (\<lambda>_ work. usize_saturating_add work 1) events 0,
          fold (ingest_event E) events (cs\<lparr>cs_poll_events := []\<rparr>)))"

definition ingest_poll_batches ::
  "('g, 'd, 'r, 'e, 'c, 'q, 'k, 'o, 'l, 't, 'i, 'y, 'w, 'b, 'p, 'm) set_env \<Rightarrow>
   ('w, 'y, 'b, 'p, 'm) ConnectionSet \<Rightarrow> (EngineError + usize) \<times> ('w, 'y, 'b, 'p, 'm) ConnectionSet" where
  "ingest_poll_batches E cs =
     (case ingest_readiness E cs of
        (work, cs1) \<Rightarrow>
          if cs_poll_saturated cs1 then
            try_then (poll_selector E 0 cs1) (\<lambda>report cs2.
              (case ingest_readiness E (observe_poll report cs2) of
                 (second, cs3) \<Rightarrow> (Inr (usize_saturating_add work second), cs3)))
          else (Inr work, cs1))"

section \<open>The ready queue\<close>

definition runnable ::
  "('g, 'd, 'r, 'e, 'c, 'q, 'k, 'o, 'l, 't, 'i, 'y, 'w, 'b, 'p, 'm) set_env \<Rightarrow> Moment \<Rightarrow>
   ('g, 'd, 'c, 'q, 'k, 'o, 'l) ConnectionSlot \<Rightarrow> 't \<Rightarrow> bool" where
  "runnable E now s t \<longleftrightarrow>
     (if sl_close_request s \<noteq> None then has_runnable_shutdown (en_services E) (en_port E) now s t
      else has_runnable_io (en_port E) s t)"

definition is_candidate ::
  "('g, 'd, 'r, 'e, 'c, 'q, 'k, 'o, 'l, 't, 'i, 'y, 'w, 'b, 'p, 'm) set_env \<Rightarrow> Moment \<Rightarrow>
   ('g, 'd, 'c, 'q, 'k, 'o, 'l, 't, 'i) ConnectionEntry \<Rightarrow> bool" where
  "is_candidate E now entry \<longleftrightarrow>
     (case slot_next_deadline (en_services E) (ce_slot entry) of
        None \<Rightarrow> False | Some deadline \<Rightarrow> is_elapsed_at (sv_externals (en_services E)) deadline now) \<or>
     transport_release_ready (ce_slot entry) \<or>
     (case ce_transport entry of None \<Rightarrow> False | Some t \<Rightarrow> runnable E now (ce_slot entry) t)"

definition enqueue_candidate ::
  "('g, 'd, 'r, 'e, 'c, 'q, 'k, 'o, 'l, 't, 'i, 'y, 'w, 'b, 'p, 'm) set_env \<Rightarrow> Moment \<Rightarrow> 'w \<Rightarrow>
   ('w, 'y, 'b, 'p, 'm) ConnectionSet \<Rightarrow> ('w, 'y, 'b, 'p, 'm) ConnectionSet" where
  "enqueue_candidate E now resource cs =
     (case rt_get (en_table E) resource (cs_resources cs) of
        None \<Rightarrow> cs
      | Some (_, entry) \<Rightarrow> if is_candidate E now entry then enqueue E resource cs else cs)"

definition enqueue_candidates ::
  "('g, 'd, 'r, 'e, 'c, 'q, 'k, 'o, 'l, 't, 'i, 'y, 'w, 'b, 'p, 'm) set_env \<Rightarrow> Moment \<Rightarrow>
   ('w, 'y, 'b, 'p, 'm) ConnectionSet \<Rightarrow> ('w, 'y, 'b, 'p, 'm) ConnectionSet" where
  "enqueue_candidates E now cs = fold (enqueue_candidate E now) (rt_tokens (en_table E) (cs_resources cs)) cs"

text \<open>
  One round of \<^verbatim>\<open>drive_ready\<close> on the entry of a token: a quantum, the settlement of a close request, the
  interest at the selector, and whether the connection has more to do.
\<close>

definition drive_entry ::
  "('g, 'd, 'r, 'e, 'c, 'q, 'k, 'o, 'l, 't, 'i, 'y, 'w, 'b, 'p, 'm) set_env \<Rightarrow> Moment \<Rightarrow> 'w \<Rightarrow>
   ('g, 'd, 'c, 'q, 'k, 'o, 'l, 't, 'i) ConnectionEntry \<Rightarrow> 'p \<Rightarrow>
   ((EngineError + usize \<times> bool) \<times> ('g, 'd, 'c, 'q, 'k, 'o, 'l, 't, 'i) ConnectionEntry \<times> 'p) option" where
  "drive_entry E now resource entry poller =
     (case drive_quantum (en_services E) (en_port E) now (ce_slot entry) (ce_transport entry) of
        None \<Rightarrow> None
      | Some (result, s1, transport1) \<Rightarrow>
          (let (progress, s2) =
                 (case result of
                    Inr progress \<Rightarrow> (progress, s1)
                  | Inl error \<Rightarrow> (\<lparr>spr_work = 0, spr_saturated = False\<rparr>, latch_failure error s1));
               entry1 = entry\<lparr>ce_slot := s2, ce_transport := transport1, ce_ready_queued := False\<rparr>
           in Some
                (case settle_entry E resource entry1 poller of
                   (Inl error, entry2, poller2) \<Rightarrow> (Inl error, entry2, poller2)
                 | (Inr settled, entry2, poller2) \<Rightarrow>
                     (case sync_interest E resource entry2 poller2 of
                        (Inl error, entry3, poller3) \<Rightarrow> (Inl error, entry3, poller3)
                      | (Inr interest, entry3, poller3) \<Rightarrow>
                          (let s3 = ce_slot entry3;
                               again = state_failure (sl_state s3) = None \<and>
                                 (case ce_transport entry3 of
                                    None \<Rightarrow> False
                                  | Some t \<Rightarrow> spr_saturated progress \<or> transport_release_ready s3 \<or> runnable E now s3 t)
                           in (Inr (usize_saturating_add (usize_saturating_add (spr_work progress) settled) interest, again),
                               entry3, poller3))))))"

fun drive_ready_rounds ::
  "('g, 'd, 'r, 'e, 'c, 'q, 'k, 'o, 'l, 't, 'i, 'y, 'w, 'b, 'p, 'm) set_env \<Rightarrow> Moment \<Rightarrow> nat \<Rightarrow> usize \<Rightarrow>
   ('w, 'y, 'b, 'p, 'm) ConnectionSet \<Rightarrow> ((EngineError + usize) \<times> ('w, 'y, 'b, 'p, 'm) ConnectionSet) option" where
  "drive_ready_rounds E now 0 work cs = Some (Inr work, cs)"
| "drive_ready_rounds E now (Suc n) work cs =
     (case cs_ready cs of
        [] \<Rightarrow> Some (Inr work, cs)
      | resource # rest \<Rightarrow>
          (let cs1 = cs\<lparr>cs_ready := rest\<rparr> in
           case rt_get (en_table E) resource (cs_resources cs1) of
             None \<Rightarrow>
               drive_ready_rounds E now n work
                 (cs1\<lparr>cs_stale_resource_events := u64_saturating_add (cs_stale_resource_events cs1) 1\<rparr>)
           | Some (identity, entry) \<Rightarrow>
               (case drive_entry E now resource entry (cs_poller cs1) of
                  None \<Rightarrow> None
                | Some (result, entry1, poller1) \<Rightarrow>
                    (let cs2 = (put_entry E resource entry1 cs1)\<lparr>cs_poller := poller1\<rparr> in
                     case result of
                       Inl error \<Rightarrow> Some (Inl error, latch_readiness_error E error cs2)
                     | Inr (progress, requeue) \<Rightarrow>
                         drive_ready_rounds E now n (usize_saturating_add work progress)
                           (if requeue then enqueue E resource cs2 else cs2)))))"

definition drive_ready ::
  "('g, 'd, 'r, 'e, 'c, 'q, 'k, 'o, 'l, 't, 'i, 'y, 'w, 'b, 'p, 'm) set_env \<Rightarrow> Moment \<Rightarrow>
   ('w, 'y, 'b, 'p, 'm) ConnectionSet \<Rightarrow> ((EngineError + usize) \<times> ('w, 'y, 'b, 'p, 'm) ConnectionSet) option" where
  "drive_ready E now cs = drive_ready_rounds E now (stl_ready_connections_per_turn (cs_limits cs)) 0 cs"

definition earliest_deadline ::
  "('g, 'd, 'r, 'e, 'c, 'q, 'k, 'o, 'l, 't, 'i, 'y, 'w, 'b, 'p, 'm) set_env \<Rightarrow>
   ('w, 'y, 'b, 'p, 'm) ConnectionSet \<Rightarrow> Deadline option" where
  "earliest_deadline E cs =
     min_deadline
       (map (\<lambda>token.
          (case rt_get (en_table E) token (cs_resources cs) of
             None \<Rightarrow> None
           | Some (_, entry) \<Rightarrow>
               if state_failure (sl_state (ce_slot entry)) = None
               then slot_next_deadline (en_services E) (ce_slot entry) else None))
          (rt_tokens (en_table E) (cs_resources cs)))"

section \<open>The turn\<close>

datatype Next = NextNow | NextWake | NextWakeOr Deadline | NextStop

record Turn =
  turn_work :: u64
  turn_next :: Next

definition turn_component ::
  "('g, 'd, 'r, 'e, 'c, 'q, 'k, 'o, 'l, 't, 'i, 'y, 'w, 'b, 'p, 'm) set_env \<Rightarrow> Moment \<Rightarrow>
   ('w, 'y, 'b, 'p, 'm) ConnectionSet \<Rightarrow> ((EngineError + Turn) \<times> ('w, 'y, 'b, 'p, 'm) ConnectionSet) option" where
  "turn_component E now cs =
     (case ensure_owner_running cs of
        Inl e \<Rightarrow> Some (Inl e, cs)
      | Inr _ \<Rightarrow>
          (case drive_commands E cs of
             (commands, cs1) \<Rightarrow>
               (case ingest_poll_batches E cs1 of
                  (Inl e, cs2) \<Rightarrow> Some (Inl e, cs2)
                | (Inr polled, cs2) \<Rightarrow>
                    (case drive_ready E now (enqueue_candidates E now cs2) of
                       None \<Rightarrow> None
                     | Some (Inl e, cs3) \<Rightarrow> Some (Inl e, cs3)
                     | Some (Inr driven, cs3) \<Rightarrow>
                         (let work = usize_saturating_add (usize_saturating_add commands polled) driven;
                              following =
                                (if cs_command_more_pending cs3 \<or> cs_poll_saturated cs3 \<or> cs_ready cs3 \<noteq> [] then NextNow
                                 else (case earliest_deadline E cs3 of None \<Rightarrow> NextWake | Some d \<Rightarrow> NextWakeOr d))
                          in Some (Inr \<lparr>turn_work = to_u64 work, turn_next = following\<rparr>, cs3))))))"

end
