(* ===== verification/SetAccess.thy ===== *)
theory SetAccess
  imports SetTurn
begin

text \<open>
  \<^verbatim>\<open>crates/bornera/src/\<close>: construction of a connection inside a set (\<^verbatim>\<open>set_connect.rs\<close>), direct calls fenced by
  generation (\<^verbatim>\<open>set_access.rs\<close>), the command producers (\<^verbatim>\<open>port.rs\<close>), recovery of one generation
  (\<^verbatim>\<open>set_recovery.rs\<close>) and the end of a set.
\<close>

section \<open>Connecting\<close>

text \<open>An already resolved address is only handed to the connector.\<close>

record 'a ConnectionConfig =
  cc_slot :: ConnectionSlotConfig
  cc_address :: 'a

definition remove_resource ::
  "('g, 'd, 'r, 'e, 'c, 'q, 'k, 'o, 'l, 't, 'i, 'y, 'w, 'b, 'p, 'm) set_env \<Rightarrow> 'w \<Rightarrow>
   ('w, 'y, 'b, 'p, 'm) ConnectionSet \<Rightarrow> ('w, 'y, 'b, 'p, 'm) ConnectionSet" where
  "remove_resource E resource cs = cs\<lparr>cs_resources := snd (rt_remove (en_table E) resource (cs_resources cs))\<rparr>"

text \<open>
  The part of \<^verbatim>\<open>connect_with\<close> after registration, when the transport broke the bound it had declared:
  the registration is undone and the slot is released.
\<close>

definition undo_registration ::
  "('g, 'd, 'r, 'e, 'c, 'q, 'k, 'o, 'l, 't, 'i, 'y, 'w, 'b, 'p, 'm) set_env \<Rightarrow> 'w \<Rightarrow> TransportPressure \<Rightarrow>
   'e ConnectError \<Rightarrow> ('w, 'y, 'b, 'p, 'm) ConnectionSet \<Rightarrow> 'e ConnectError \<times> ('w, 'y, 'b, 'p, 'm) ConnectionSet" where
  "undo_registration E resource pressure error cs =
     (case rt_get (en_table E) resource (cs_resources cs) of
        None \<Rightarrow> (ConnectResourceAdmission, cs)
      | Some (_, entry) \<Rightarrow>
          (let entry1 = entry\<lparr>ce_slot := (ce_slot entry)\<lparr>sl_transport_pressure := Some pressure\<rparr>\<rparr> in
           case ce_transport entry1 of
             None \<Rightarrow> (ConnectResourceAdmission, put_entry E resource entry1 cs)
           | Some t \<Rightarrow>
               (let (cleanup, t1, poller) = mp_deregister (en_poller E) resource t (cs_poller cs);
                    s1 = snd (observe_transport_pressure (en_port E) t1 (ce_slot entry1));
                    cs1 = (put_entry E resource (entry1\<lparr>ce_slot := s1, ce_transport := Some t1\<rparr>) cs)\<lparr>cs_poller := poller\<rparr>
                in case cleanup of
                     Inl source \<Rightarrow> (ConnectMio source, remove_resource E resource (latch_selector_failure E source cs1))
                   | Inr _ \<Rightarrow> (error, remove_resource E resource cs1))))"

definition register_transport ::
  "('g, 'd, 'r, 'e, 'c, 'q, 'k, 'o, 'l, 't, 'i, 'y, 'w, 'b, 'p, 'm) set_env \<Rightarrow> 'w ConnectionToken \<Rightarrow> 't \<Rightarrow>
   TransportPressure \<Rightarrow> RetainedBytes \<Rightarrow> ('w, 'y, 'b, 'p, 'm) ConnectionSet \<Rightarrow>
   ('e ConnectError + 'w ConnectionToken) \<times> ('w, 'y, 'b, 'p, 'm) ConnectionSet" where
  "register_transport E token transport pressure transport_limit cs =
     (let resource = ct_resource token in
      case rt_get (en_table E) resource (cs_resources cs) of
        None \<Rightarrow> (Inl ConnectResourceAdmission, cs)
      | Some (_, entry) \<Rightarrow>
          (let interest = desired_interest (en_transport E) (ce_slot entry) transport;
               s0 = (ce_slot entry)\<lparr>sl_transport_pressure := Some pressure,
                                   sl_transport_retained_limit := Some transport_limit\<rparr>;
               (registration, t1, poller) = mp_register (en_poller E) resource interest transport (cs_poller cs);
               (post_pressure, s1) = observe_transport_pressure (en_port E) t1 s0;
               post_limit = tl_retained_bytes (tp_pressure_limit (en_port E) t1);
               entry1 = entry\<lparr>ce_interest := interest, ce_slot := s1, ce_transport := Some t1\<rparr>;
               cs1 = (put_entry E resource entry1 cs)\<lparr>cs_poller := poller\<rparr>
           in case registration of
                Inl source \<Rightarrow> (Inl (ConnectMio source), remove_resource E resource cs1)
              | Inr _ \<Rightarrow>
                  if post_limit \<noteq> transport_limit \<or> prs_total post_pressure > transport_limit then
                    (case undo_registration E resource post_pressure
                            (if post_limit \<noteq> transport_limit then ConnectTransportLimit transport_limit post_limit
                             else ConnectTransportCapacity transport_limit post_pressure) cs1 of
                       (error, cs2) \<Rightarrow> (Inl error, cs2))
                  else (Inr token, enqueue E resource cs1)))"

definition connect_with ::
  "('g, 'd, 'r, 'e, 'c, 'q, 'k, 'o, 'l, 't, 'i, 'y, 'w, 'b, 'p, 'm) set_env \<Rightarrow> LedgerRef \<Rightarrow> 'a ConnectionConfig \<Rightarrow>
   ConnectionSlotLimits \<Rightarrow> 'd \<Rightarrow> 'c \<Rightarrow> ('a \<Rightarrow> TransportLimits \<Rightarrow> IoError + 't) \<Rightarrow> ('w, 'y, 'b, 'p, 'm) ConnectionSet \<Rightarrow>
   ('e ConnectError + 'w ConnectionToken) \<times> ('w, 'y, 'b, 'p, 'm) ConnectionSet" where
  "connect_with E ref config limits decoder classifier connector cs =
     (case cs_owner_failure cs of
        Some reason \<Rightarrow> (Inl (ConnectOwnerFailed reason), cs)
      | None \<Rightarrow>
          (case slot_new (en_services E) ref (cc_slot config) limits decoder classifier of
             Inl e \<Rightarrow> (Inl (ConnectDecoder e), cs)
           | Inr slot \<Rightarrow>
               (let identity = cfg_identity (cc_slot config) in
                case rt_admit (en_table E) identity
                       \<lparr>ce_slot = slot, ce_transport = None, ce_interest = rg_read_write (en_transport E),
                        ce_ready_queued = False\<rparr> (cs_resources cs) of
                  (None, resources) \<Rightarrow> (Inl ConnectResourceAdmission, cs\<lparr>cs_resources := resources\<rparr>)
                | (Some resource, resources) \<Rightarrow>
                    (let cs1 = cs\<lparr>cs_resources := resources\<rparr> in
                     case connector (cc_address config) (sl_transport limits) of
                       Inl source \<Rightarrow> (Inl (ConnectIo source), remove_resource E resource cs1)
                     | Inr transport \<Rightarrow>
                         (let pressure = tp_pressure (en_port E) transport;
                              limit = transport_retained_bytes limits;
                              transport_limit = tl_retained_bytes (tp_pressure_limit (en_port E) transport)
                          in if transport_limit > limit
                             then (Inl (ConnectTransportLimit limit transport_limit), remove_resource E resource cs1)
                             else if prs_total pressure > transport_limit
                             then (Inl (ConnectTransportCapacity transport_limit pressure), remove_resource E resource cs1)
                             else register_transport E \<lparr>ct_resource = resource, ct_identity = identity\<rparr> transport
                                    pressure transport_limit cs1)))))"

section \<open>Direct calls\<close>

text \<open>
  A command producer carries the token it was made for. The mailbox is shared with the set, so a call
  of a producer is a change of \<open>cs_commands\<close>.
\<close>

record 'w ConnectionPort =
  port_connection :: "'w ConnectionToken"

definition port_open_admission ::
  "('w, 'm) Mailbox \<Rightarrow> 'w ConnectionPort \<Rightarrow> 'm \<Rightarrow> (TrySendError + unit) \<times> 'm" where
  "port_open_admission M port = mb_try_send_control M (CmdOpenAdmission (port_connection port))"

definition port_cancel ::
  "('w, 'm) Mailbox \<Rightarrow> OperationId \<Rightarrow> 'w ConnectionPort \<Rightarrow> 'm \<Rightarrow> (TrySendError + unit) \<times> 'm" where
  "port_cancel M operation port = mb_try_send M (CmdCancel (port_connection port) operation)"

definition port_begin_drain ::
  "('w, 'm) Mailbox \<Rightarrow> Deadline \<Rightarrow> 'w ConnectionPort \<Rightarrow> 'm \<Rightarrow> (TrySendError + unit) \<times> 'm" where
  "port_begin_drain M deadline port = mb_try_send_control M (CmdBeginDrain (port_connection port) deadline)"

definition port_close ::
  "('w, 'm) Mailbox \<Rightarrow> 'w ConnectionPort \<Rightarrow> 'm \<Rightarrow> (TrySendError + unit) \<times> 'm" where
  "port_close M port = mb_try_send_control M (CmdClose (port_connection port))"

definition set_port ::
  "('g, 'd, 'r, 'e, 'c, 'q, 'k, 'o, 'l, 't, 'i, 'y, 'w, 'b, 'p, 'm) set_env \<Rightarrow> 'w ConnectionToken \<Rightarrow>
   ('w, 'y, 'b, 'p, 'm) ConnectionSet \<Rightarrow> ConnectionAccessError + 'w ConnectionPort" where
  "set_port E connection cs =
     (case ensure_owner_running cs of
        Inl e \<Rightarrow> Inl (AccessOwner e)
      | Inr _ \<Rightarrow> (case set_entry E connection cs of Inl e \<Rightarrow> Inl e | Inr _ \<Rightarrow> Inr \<lparr>port_connection = connection\<rparr>))"

definition set_reserve ::
  "('g, 'd, 'r, 'e, 'c, 'q, 'k, 'o, 'l, 't, 'i, 'y, 'w, 'b, 'p, 'm) set_env \<Rightarrow> 'w ConnectionToken \<Rightarrow> Moment \<Rightarrow>
   OperationOptions \<Rightarrow> ('w, 'y, 'b, 'p, 'm) ConnectionSet \<Rightarrow>
   (ConnectionReserveError + OperationPermit) \<times> ('w, 'y, 'b, 'p, 'm) ConnectionSet" where
  "set_reserve E connection now options cs =
     (case set_entry E connection cs of
        Inl _ \<Rightarrow> (Inl ReserveStale, cs)
      | Inr entry \<Rightarrow>
          (case slot_reserve (en_services E) now options (ce_slot entry) of
             (result, s1) \<Rightarrow>
               (map_sum ReserveRejected id result, put_entry E (ct_resource connection) (entry\<lparr>ce_slot := s1\<rparr>) cs)))"

text \<open>A call on the slot of a fenced entry, then the queue and a possible settlement.\<close>

definition settle_after ::
  "('g, 'd, 'r, 'e, 'c, 'q, 'k, 'o, 'l, 't, 'i, 'y, 'w, 'b, 'p, 'm) set_env \<Rightarrow> 'w \<Rightarrow> EngineError + 'a \<Rightarrow>
   ('w, 'y, 'b, 'p, 'm) ConnectionSet \<Rightarrow> (ConnectionAccessError + 'a) \<times> ('w, 'y, 'b, 'p, 'm) ConnectionSet" where
  "settle_after E resource result cs =
     (case settle_connection E resource (enqueue E resource cs) of
        (settled, cs1) \<Rightarrow>
          (case result of
             Inl error \<Rightarrow> (Inl (AccessOwner error), cs1)
           | Inr x \<Rightarrow> (case settled of Inl error \<Rightarrow> (Inl (AccessOwner error), cs1) | Inr _ \<Rightarrow> (Inr x, cs1))))"

definition on_entry ::
  "('g, 'd, 'r, 'e, 'c, 'q, 'k, 'o, 'l, 't, 'i, 'y, 'w, 'b, 'p, 'm) set_env \<Rightarrow> 'w ConnectionToken \<Rightarrow>
   (('g, 'd, 'c, 'q, 'k, 'o, 'l) ConnectionSlot \<Rightarrow> (EngineError + 'a) \<times> ('g, 'd, 'c, 'q, 'k, 'o, 'l) ConnectionSlot) \<Rightarrow>
   ('w, 'y, 'b, 'p, 'm) ConnectionSet \<Rightarrow> (ConnectionAccessError + 'a) \<times> ('w, 'y, 'b, 'p, 'm) ConnectionSet" where
  "on_entry E connection call cs =
     (case set_entry E connection cs of
        Inl e \<Rightarrow> (Inl e, cs)
      | Inr entry \<Rightarrow>
          (case call (ce_slot entry) of
             (result, s1) \<Rightarrow>
               settle_after E (ct_resource connection) result
                 (put_entry E (ct_resource connection) (entry\<lparr>ce_slot := s1\<rparr>) cs)))"

definition set_open_admission ::
  "('g, 'd, 'r, 'e, 'c, 'q, 'k, 'o, 'l, 't, 'i, 'y, 'w, 'b, 'p, 'm) set_env \<Rightarrow> 'w ConnectionToken \<Rightarrow>
   ('w, 'y, 'b, 'p, 'm) ConnectionSet \<Rightarrow> (ConnectionAccessError + InputDisposition) \<times> ('w, 'y, 'b, 'p, 'm) ConnectionSet" where
  "set_open_admission E connection = on_entry E connection (slot_open_admission (en_services E))"

definition set_cancel ::
  "('g, 'd, 'r, 'e, 'c, 'q, 'k, 'o, 'l, 't, 'i, 'y, 'w, 'b, 'p, 'm) set_env \<Rightarrow> 'w ConnectionToken \<Rightarrow> OperationId \<Rightarrow>
   ('w, 'y, 'b, 'p, 'm) ConnectionSet \<Rightarrow> (ConnectionAccessError + CancelOutcome) \<times> ('w, 'y, 'b, 'p, 'm) ConnectionSet" where
  "set_cancel E connection operation = on_entry E connection (slot_cancel (en_services E) operation)"

definition set_begin_drain ::
  "('g, 'd, 'r, 'e, 'c, 'q, 'k, 'o, 'l, 't, 'i, 'y, 'w, 'b, 'p, 'm) set_env \<Rightarrow> 'w ConnectionToken \<Rightarrow> Deadline \<Rightarrow>
   ('w, 'y, 'b, 'p, 'm) ConnectionSet \<Rightarrow> (ConnectionAccessError + InputDisposition) \<times> ('w, 'y, 'b, 'p, 'm) ConnectionSet" where
  "set_begin_drain E connection deadline = on_entry E connection (slot_begin_drain (en_services E) deadline)"

definition set_finalize ::
  "('g, 'd, 'r, 'e, 'c, 'q, 'k, 'o, 'l, 't, 'i, 'y, 'w, 'b, 'p, 'm) set_env \<Rightarrow> 'w ConnectionToken \<Rightarrow> CloseReason \<Rightarrow>
   ('w, 'y, 'b, 'p, 'm) ConnectionSet \<Rightarrow> (ConnectionAccessError + InputDisposition) \<times> ('w, 'y, 'b, 'p, 'm) ConnectionSet" where
  "set_finalize E connection reason = on_entry E connection (slot_finalize (en_services E) reason)"

definition set_commit ::
  "('g, 'd, 'r, 'e, 'c, 'q, 'k, 'o, 'l, 't, 'i, 'y, 'w, 'b, 'p, 'm) set_env \<Rightarrow> 'w ConnectionToken \<Rightarrow> OperationPermit \<Rightarrow>
   OutboundFrame \<Rightarrow> ('w, 'y, 'b, 'p, 'm) ConnectionSet \<Rightarrow>
   (OutboundFrame ConnectionCommitError + OperationId) \<times> ('w, 'y, 'b, 'p, 'm) ConnectionSet" where
  "set_commit E connection permit frame cs =
     (let resource = ct_resource connection;
          (result, cs1) =
            (case set_entry E connection cs of
               Inl _ \<Rightarrow> (Inl (CommitStale permit frame), cs)
             | Inr entry \<Rightarrow>
                 (case slot_commit (en_services E) permit frame (ce_slot entry) of
                    (result, s1) \<Rightarrow>
                      (map_sum CommitConnection id result, put_entry E resource (entry\<lparr>ce_slot := s1\<rparr>) cs)));
          (settled, cs2) = settle_connection E resource (enqueue E resource cs1)
      in case result of
           Inl error \<Rightarrow> (Inl error, cs2)
         | Inr operation \<Rightarrow>
             (case settled of
                Inl source \<Rightarrow> (Inl (CommitConnection (AcceptedOwnerFailure operation source)), cs2)
              | Inr _ \<Rightarrow> (Inr operation, cs2)))"

definition set_drain_outcomes ::
  "('g, 'd, 'r, 'e, 'c, 'q, 'k, 'o, 'l, 't, 'i, 'y, 'w, 'b, 'p, 'm) set_env \<Rightarrow> 'w ConnectionToken \<Rightarrow>
   ('w, 'y, 'b, 'p, 'm) ConnectionSet \<Rightarrow> (ConnectionAccessError + 'r EngineOutcome list) \<times> ('w, 'y, 'b, 'p, 'm) ConnectionSet" where
  "set_drain_outcomes E connection cs =
     (case set_entry E connection cs of
        Inl e \<Rightarrow> (Inl e, cs)
      | Inr entry \<Rightarrow>
          (case drain_outcomes (en_services E) (ce_slot entry) of
             (os, s1) \<Rightarrow> (Inr os, put_entry E (ct_resource connection) (entry\<lparr>ce_slot := s1\<rparr>) cs)))"

definition set_drain_events ::
  "('g, 'd, 'r, 'e, 'c, 'q, 'k, 'o, 'l, 't, 'i, 'y, 'w, 'b, 'p, 'm) set_env \<Rightarrow> 'w ConnectionToken \<Rightarrow>
   ('w, 'y, 'b, 'p, 'm) ConnectionSet \<Rightarrow> (ConnectionAccessError + ConnectionEvent list) \<times> ('w, 'y, 'b, 'p, 'm) ConnectionSet" where
  "set_drain_events E connection cs =
     (case set_entry E connection cs of
        Inl e \<Rightarrow> (Inl e, cs)
      | Inr entry \<Rightarrow>
          (case drain_events (en_services E) (ce_slot entry) of
             (evs, s1) \<Rightarrow> (Inr evs, put_entry E (ct_resource connection) (entry\<lparr>ce_slot := s1\<rparr>) cs)))"

definition set_connection_snapshot ::
  "('g, 'd, 'r, 'e, 'c, 'q, 'k, 'o, 'l, 't, 'i, 'y, 'w, 'b, 'p, 'm) set_env \<Rightarrow> 'w ConnectionToken \<Rightarrow>
   ('w, 'y, 'b, 'p, 'm) ConnectionSet \<Rightarrow> ConnectionAccessError + ConnectionSlotSnapshot" where
  "set_connection_snapshot E connection cs =
     map_sum id (\<lambda>entry. slot_snapshot (en_services E) (ce_slot entry)) (set_entry E connection cs)"

definition set_is_transport_open ::
  "('g, 'd, 'r, 'e, 'c, 'q, 'k, 'o, 'l, 't, 'i, 'y, 'w, 'b, 'p, 'm) set_env \<Rightarrow> 'w ConnectionToken \<Rightarrow>
   ('w, 'y, 'b, 'p, 'm) ConnectionSet \<Rightarrow> ConnectionAccessError + bool" where
  "set_is_transport_open E connection cs =
     map_sum id (\<lambda>entry. is_transport_open (ce_slot entry)) (set_entry E connection cs)"

definition set_retire ::
  "('g, 'd, 'r, 'e, 'c, 'q, 'k, 'o, 'l, 't, 'i, 'y, 'w, 'b, 'p, 'm) set_env \<Rightarrow> 'w ConnectionToken \<Rightarrow>
   ('w, 'y, 'b, 'p, 'm) ConnectionSet \<Rightarrow> (ConnectionRetireError + unit) \<times> ('w, 'y, 'b, 'p, 'm) ConnectionSet" where
  "set_retire E connection cs =
     (case set_entry E connection cs of
        Inl _ \<Rightarrow> (Inl RetireStale, cs)
      | Inr entry \<Rightarrow>
          (case state_failure (sl_state (ce_slot entry)) of
             Some reason \<Rightarrow> (Inl (RetireOwnerFailed reason), cs)
           | None \<Rightarrow>
               (let snapshot = slot_snapshot (en_services E) (ce_slot entry) in
                if ce_transport entry \<noteq> None \<or> ss_transport snapshot \<noteq> TransportClosed then (Inl RetireTransportLive, cs)
                else if ss_pending_outcomes snapshot \<noteq> 0 \<or> ss_pending_events snapshot \<noteq> 0
                then (Inl RetirePublicationsPending, cs)
                else
                  (let cs1 = cs\<lparr>cs_ready := filter (\<lambda>token. token \<noteq> ct_resource connection) (cs_ready cs)\<rparr> in
                   case rt_remove (en_table E) (ct_resource connection) (cs_resources cs1) of
                     (None, resources) \<Rightarrow> (Inl RetireStale, cs1\<lparr>cs_resources := resources\<rparr>)
                   | (Some _, resources) \<Rightarrow> (Inr (), cs1\<lparr>cs_resources := resources\<rparr>)))))"

section \<open>Recovery of one generation\<close>

definition recover_connection ::
  "('g, 'd, 'r, 'e, 'c, 'q, 'k, 'o, 'l, 't, 'i, 'y, 'w, 'b, 'p, 'm) set_env \<Rightarrow> 'w ConnectionToken \<Rightarrow> OwnerFailure \<Rightarrow>
   ('w, 'y, 'b, 'p, 'm) ConnectionSet \<Rightarrow>
   (ConnectionRecoveryError + (OutboundFrame, 'r) RecoveryReport) \<times> ('w, 'y, 'b, 'p, 'm) ConnectionSet" where
  "recover_connection E connection reason cs =
     (let resource = ct_resource connection in
      case set_entry E connection cs of
        Inl _ \<Rightarrow> (Inl RecoveryStale, cs)
      | Inr entry \<Rightarrow>
          (let (cleanup, pressure_failed, entry1, poller) =
                 (case ce_transport entry of
                    None \<Rightarrow> (None, False, entry, cs_poller cs)
                  | Some t \<Rightarrow>
                      (let (deregistration, t1, poller) = mp_deregister (en_poller E) resource t (cs_poller cs);
                           (pressure, s1) = capture_transport_pressure (en_port E) t1 (ce_slot entry)
                       in ((case deregistration of Inl source \<Rightarrow> Some source | Inr _ \<Rightarrow> None), isl pressure,
                           entry\<lparr>ce_slot := s1, ce_transport := Some t1\<rparr>, poller)));
               cs1 = (put_entry E resource entry1 cs)\<lparr>cs_poller := poller\<rparr>;
               cs2 = (case cleanup of None \<Rightarrow> cs1 | Some source \<Rightarrow> latch_selector_failure E source cs1);
               cs3 = cs2\<lparr>cs_ready := filter (\<lambda>token. token \<noteq> resource) (cs_ready cs2)\<rparr>
           in case rt_remove (en_table E) resource (cs_resources cs3) of
                (None, resources) \<Rightarrow> (Inl RecoveryStale, cs3\<lparr>cs_resources := resources\<rparr>)
              | (Some (_, entry2), resources) \<Rightarrow>
                  (Inr (fst (slot_recover_owned (en_services E) reason (cleanup \<noteq> None \<or> pressure_failed) (ce_slot entry2))),
                   cs3\<lparr>cs_resources := resources\<rparr>)))"

definition set_try_recover ::
  "('g, 'd, 'r, 'e, 'c, 'q, 'k, 'o, 'l, 't, 'i, 'y, 'w, 'b, 'p, 'm) set_env \<Rightarrow> 'w ConnectionToken \<Rightarrow>
   ('w, 'y, 'b, 'p, 'm) ConnectionSet \<Rightarrow>
   (ConnectionRecoveryError + (OutboundFrame, 'r) RecoveryReport) \<times> ('w, 'y, 'b, 'p, 'm) ConnectionSet" where
  "set_try_recover E connection cs =
     (case set_entry E connection cs of
        Inl _ \<Rightarrow> (Inl RecoveryStale, cs)
      | Inr entry \<Rightarrow>
          (case state_failure (sl_state (ce_slot entry)) of
             None \<Rightarrow> (Inl RecoveryOwnerRunning, cs)
           | Some reason \<Rightarrow> recover_connection E connection reason cs))"

definition set_abandon ::
  "('g, 'd, 'r, 'e, 'c, 'q, 'k, 'o, 'l, 't, 'i, 'y, 'w, 'b, 'p, 'm) set_env \<Rightarrow> 'w ConnectionToken \<Rightarrow> OwnerFailure \<Rightarrow>
   ('w, 'y, 'b, 'p, 'm) ConnectionSet \<Rightarrow>
   (ConnectionRecoveryError + (OutboundFrame, 'r) RecoveryReport) \<times> ('w, 'y, 'b, 'p, 'm) ConnectionSet" where
  "set_abandon E connection requested cs =
     (case set_entry E connection cs of
        Inl _ \<Rightarrow> (Inl RecoveryStale, cs)
      | Inr entry \<Rightarrow>
          recover_connection E connection
            (case state_failure (sl_state (ce_slot entry)) of None \<Rightarrow> requested | Some reason \<Rightarrow> reason) cs)"

section \<open>The end of a set\<close>

definition set_drop ::
  "('g, 'd, 'r, 'e, 'c, 'q, 'k, 'o, 'l, 't, 'i, 'y, 'w, 'b, 'p, 'm) set_env \<Rightarrow>
   ('w, 'y, 'b, 'p, 'm) ConnectionSet \<Rightarrow> ('w, 'y, 'b, 'p, 'm) ConnectionSet" where
  "set_drop E cs =
     fold (\<lambda>token cs.
       (case rt_get (en_table E) token (cs_resources cs) of
          None \<Rightarrow> cs
        | Some (_, entry) \<Rightarrow>
            (case ce_transport entry of
               None \<Rightarrow> cs
             | Some t \<Rightarrow>
                 (case mp_deregister (en_poller E) token t (cs_poller cs) of
                    (_, t1, poller) \<Rightarrow> (put_entry E token (entry\<lparr>ce_transport := Some t1\<rparr>) cs)\<lparr>cs_poller := poller\<rparr>))))
       (rt_tokens (en_table E) (cs_resources cs)) (cs\<lparr>cs_commands := mb_close (en_mailbox E) (cs_commands cs)\<rparr>)"

end
