(* ===== verification/SlotOwner.thy ===== *)
theory SlotOwner
  imports Behaviour
begin

text \<open>
  What the owner promises to the slot that interprets its effects: every effect names the epoch,
  deadlines of pending operations never change, a closure is announced exactly when the phase
  leaves \<open>Live\<close>, and a reply is only handed out by the step that was given it.
\<close>

section \<open>Tidy steps\<close>

definition timed :: "OperationRecord list \<Rightarrow> (OperationId \<times> Deadline) list" where
  "timed rs = map (\<lambda>r. (rec_id r, rec_deadline r)) rs"

definition sent_back :: "'r set \<Rightarrow> 'r ConnectionEffect \<Rightarrow> bool" where
  "sent_back F e \<longleftrightarrow> (case e of PublishOutcome _ _ (OutReply f) \<Rightarrow> f \<in> F | _ \<Rightarrow> True)"

definition tidy_effect :: "'r set \<Rightarrow> ConnectionMachine \<Rightarrow> 'r ConnectionEffect \<Rightarrow> bool" where
  "tidy_effect F m e \<longleftrightarrow> effect_epoch e = m_epoch m \<and> \<not> is_ScheduleDeadline e \<and> sent_back F e"

definition closure_of :: "ConnectionMachine \<Rightarrow> ConnectionMachine \<Rightarrow> CloseReason list" where
  "closure_of m m' = (if m_phase m = Live \<and> m_phase m' \<noteq> Live then [the (m_close_reason m')] else [])"

text \<open>
  A tidy step that may only send back the frames \<open>F\<close>; it closes as drained only while draining, or
  when it was told so (\<open>b\<close>).
\<close>

definition tidy :: "'r set \<Rightarrow> bool \<Rightarrow> ConnectionMachine \<Rightarrow> 'r ConnectionEffect list \<Rightarrow> ConnectionMachine \<Rightarrow> bool" where
  "tidy F b m es m' \<longleftrightarrow>
     (\<forall>e \<in> set es. tidy_effect F m e) \<and>
     m_epoch m' = m_epoch m \<and> set (timed (pending m')) \<subseteq> set (timed (pending m)) \<and>
     (m_phase m \<noteq> Live \<longrightarrow> m_phase m' = m_phase m \<and> m_close_reason m' = m_close_reason m) \<and>
     (m_phase m = Live \<longrightarrow> m_phase m' \<noteq> PhaseClosed) \<and>
     (m_phase m' = Live \<longrightarrow> m_gate m' = m_gate m) \<and>
     (Drained \<in> set (close_reasons es) \<longrightarrow> m_gate m = Draining \<or> b) \<and>
     close_reasons es = closure_of m m'"

lemma timed_simps [simp]:
  "timed [] = []" "timed (r # rs) = (rec_id r, rec_deadline r) # timed rs"
  "timed (xs @ ys) = timed xs @ timed ys"
  by (simp_all add: timed_def)

lemma tidy_effect_simps [simp]:
  "tidy_effect F m (CancelDeadline ep i) \<longleftrightarrow> ep = m_epoch m"
  "tidy_effect F m (DiscardWrite e ep i) \<longleftrightarrow> ep = m_epoch m"
  "tidy_effect F m (CloseEpoch ep reason) \<longleftrightarrow> ep = m_epoch m"
  "tidy_effect F m (PublishOutcome ep i (OutFailed failure d)) \<longleftrightarrow> ep = m_epoch m"
  "tidy_effect F m (PublishOutcome ep i (OutWriteComplete d)) \<longleftrightarrow> ep = m_epoch m"
  "tidy_effect F m (PublishOutcome ep i (OutCancelled d)) \<longleftrightarrow> ep = m_epoch m"
  "tidy_effect F m (PublishOutcome ep i (OutReply f)) \<longleftrightarrow> ep = m_epoch m \<and> f \<in> F"
  "tidy_effect F m (effect_failed ep i failure d) \<longleftrightarrow> ep = m_epoch m"
  by (auto simp: tidy_effect_def sent_back_def effect_failed_def)

lemma tidy_refl [simp, intro]: "tidy F b m [] m"
  by (simp add: tidy_def closure_of_def)

lemma tidy_parts:
  assumes "tidy F b m es m'"
  shows "\<forall>e \<in> set es. tidy_effect F m e" "m_epoch m' = m_epoch m"
    "set (timed (pending m')) \<subseteq> set (timed (pending m))"
    "m_phase m \<noteq> Live \<Longrightarrow> m_phase m' = m_phase m" "m_phase m \<noteq> Live \<Longrightarrow> m_close_reason m' = m_close_reason m"
    "m_phase m' = Live \<Longrightarrow> m_gate m' = m_gate m"
    "Drained \<in> set (close_reasons es) \<Longrightarrow> m_gate m = Draining \<or> b"
    "close_reasons es = closure_of m m'" "m_phase m = Live \<Longrightarrow> m_phase m' \<noteq> PhaseClosed"
  using assms unfolding tidy_def by blast+

lemma tidy_trans:
  assumes "tidy F b m es m1" "tidy F b m1 fs m2"
  shows "tidy F b m (es @ fs) m2"
proof -
  note one = tidy_parts [OF assms(1)] and two = tidy_parts [OF assms(2)]
  have effects: "\<forall>e \<in> set (es @ fs). tidy_effect F m e"
    using one(1,2) two(1) by (auto simp: tidy_effect_def)
  have close: "close_reasons (es @ fs) = closure_of m m2"
    using one(4,5,8) two(4,5,8) by (cases "m_phase m1 = Live") (auto simp: closure_of_def)
  have drain: "m_gate m = Draining \<or> b" if "Drained \<in> set (close_reasons (es @ fs))"
  proof (cases "m_phase m1 = Live")
    case True
    then show ?thesis using that one(6,7) two(7) by auto
  next
    case False
    then have "close_reasons fs = []" using two(8) by (simp add: closure_of_def)
    then show ?thesis using that one(7) by auto
  qed
  have gate: "m_gate m2 = m_gate m" if "m_phase m2 = Live"
    using that one(6) two(4,6) by metis
  have timed: "set (timed (pending m2)) \<subseteq> set (timed (pending m))" using one(3) two(3) by blast
  have later: "m_phase m2 = m_phase m \<and> m_close_reason m2 = m_close_reason m" if "m_phase m \<noteq> Live"
    using that one(4,5) two(4,5) by metis
  have soon: "m_phase m2 \<noteq> PhaseClosed" if "m_phase m = Live"
    using that one(9) two(4,9) by metis
  show ?thesis
    unfolding tidy_def using effects one(2) two(2) timed later soon gate drain close
    by (intro conjI impI) (simp_all only: simp_thms)
qed

text \<open>A step that does not touch the phase.\<close>

lemma tidy_stepI:
  assumes "\<forall>e \<in> set es. tidy_effect F m e" "close_reasons es = []"
    "m_epoch m' = m_epoch m" "m_phase m' = m_phase m" "m_close_reason m' = m_close_reason m"
    "m_gate m' = m_gate m" "set (timed (pending m')) \<subseteq> set (timed (pending m))"
  shows "tidy F b m es m'"
  using assms by (simp add: tidy_def closure_of_def)

lemma tidy_close:
  assumes "tidy F b m (tr_effects t) m'" "reason = Drained \<Longrightarrow> m_gate m' = Draining \<or> b"
  shows "tidy F b m (tr_effects (fst (close_with_failure_into X reason failure t m')))
    (snd (close_with_failure_into X reason failure t m'))"
proof (cases "m_phase m' = Live")
  case True
  have "\<forall>e \<in> set (concat (map (record_close_effects (m_epoch m') reason failure) (pending m'))). tidy_effect F m e"
    using assms by (auto simp: tidy_def record_close_effects_def split: if_splits)
  moreover have "close_reasons (concat (map (record_close_effects (m_epoch m') reason failure) (pending m'))) = []"
    by (rule close_effect_lists)
  ultimately show ?thesis
    using True assms
    by (auto simp: tidy_def closure_of_def close_with_failure_into_def close_records_exact Let_def)
next
  case False
  with assms show ?thesis by (simp add: close_with_failure_into_def)
qed

lemma tidy_finish_drain:
  "tidy F b m (tr_effects t) m' \<Longrightarrow>
   tidy F b m (tr_effects (fst (finish_drain X t m'))) (snd (finish_drain X t m'))"
  by (simp add: finish_drain_def close_into_def tidy_close)

lemma timed_remove: "matching_remove i ov = (x, ov') \<Longrightarrow> set (timed (ov_pending ov')) \<subseteq> set (timed (ov_pending ov))"
  by (auto simp: matching_remove_def timed_def remove_nth_def split: option.splits if_splits
      intro!: imageI dest: in_set_takeD in_set_dropD)

lemma timed_update:
  assumes "\<And>r. rec_id (f r) = rec_id r \<and> rec_deadline (f r) = rec_deadline r"
  shows "timed (ov_pending (matching_update i f ov)) = timed (ov_pending ov)"
proof (cases "matching_index_of i ov")
  case None
  then show ?thesis by (simp add: matching_update_def)
next
  case (Some k)
  then obtain ys r zs where "ov_pending ov = ys @ r # zs" "length ys = k"
    by (rule matching_index_split)
  with Some assms show ?thesis by (auto simp: matching_update_def)
qed

lemma timed_pop: "matching_pop_front ov = (x, ov') \<Longrightarrow> set (timed (ov_pending ov')) \<subseteq> set (timed (ov_pending ov))"
  by (auto simp: matching_pop_front_def split: list.splits)

section \<open>Inputs, replies and write progress of the machine\<close>

lemma tidy_cancel: "tidy {} b m (tr_effects (fst (machine_cancel X epoch i m))) (snd (machine_cancel X epoch i m))"
  unfolding machine_cancel_def Let_def
  by (auto simp: timed_update split: option.split prod.split
      intro!: tidy_finish_drain tidy_stepI dest!: timed_remove)

lemma tidy_deadline:
  assumes "\<And>r. matching_get i (m_matching m) = Some r \<Longrightarrow> is_elapsed_at X (rec_deadline r) now"
  shows "tidy {} b m (tr_effects (fst (deadline_elapsed X epoch i now m))) (snd (deadline_elapsed X epoch i now m))"
  using assms unfolding deadline_elapsed_def Let_def close_into_def effect_failed_def
  by (auto split: option.split prod.split
      intro!: tidy_finish_drain tidy_close tidy_stepI dest!: timed_remove)

text \<open>An early report schedules the deadline again and changes nothing.\<close>

lemma deadline_early:
  assumes "matching_get i (m_matching m) = Some r" "\<not> is_elapsed_at X (rec_deadline r) now"
  shows "deadline_elapsed X (m_epoch m) i now m =
    ((transition_new Applied)\<lparr>tr_effects := [ScheduleDeadline (m_epoch m) i (rec_deadline r)]\<rparr>, m)"
  using assms by (simp add: deadline_elapsed_def transition_push_def transition_new_def)

definition early_report :: "'g externals \<Rightarrow> ConnectionInput \<Rightarrow> ConnectionMachine \<Rightarrow> bool" where
  "early_report X input m \<longleftrightarrow>
     (case input of
        InputDeadlineElapsed epoch i now \<Rightarrow>
          (case matching_get i (m_matching m) of
             None \<Rightarrow> False | Some r \<Rightarrow> \<not> is_elapsed_at X (rec_deadline r) now)
      | _ \<Rightarrow> False)"

lemma tidy_begin_drain:
  assumes "m_epoch m = epoch" "m_phase m = Live" "m_gate m \<noteq> Draining" "m_gate m \<noteq> GateClosed"
  shows "tidy {} b (m\<lparr>m_gate := Draining\<rparr>) (tr_effects (fst (begin_drain X epoch m))) (snd (begin_drain X epoch m))"
  using assms by (auto simp: begin_drain_def intro!: tidy_finish_drain)

lemma tidy_apply:
  assumes "\<not> early_report X input m" "\<And>epoch. input \<noteq> OpenAdmission epoch" "\<And>epoch. input \<noteq> BeginDrain epoch" "\<And>epoch. input \<noteq> EpochClosed epoch"
    "\<And>epoch. input = CloseRequested epoch Drained \<Longrightarrow> b"
  shows "tidy {} b m (tr_effects (fst (machine_apply X input m))) (snd (machine_apply X input m))"
proof (cases input)
  case (InputDeadlineElapsed epoch i now)
  with assms show ?thesis by (auto simp: early_report_def intro!: tidy_deadline)
qed (use assms in \<open>auto simp: reply_malformed_def close_requested_def close_into_def
    intro!: tidy_cancel tidy_close\<close>)

lemma tidy_apply_reply:
  "tidy {reply_frame reply} b m (tr_effects (fst (machine_apply_reply X reply m))) (snd (machine_apply_reply X reply m))"
  unfolding machine_apply_reply_def Let_def close_into_def
  by (auto split: option.split prod.split
      intro!: tidy_finish_drain tidy_close tidy_stepI dest!: timed_pop)

lemma tidy_write_started:
  "tidy {} b m (tr_effects (fst (write_started epoch i effect m))) (snd (write_started epoch i effect m))"
  unfolding write_started_def by (auto simp: timed_update split: option.split intro!: tidy_stepI)

lemma tidy_write_completed:
  "tidy {} b m (tr_effects (fst (write_completed X epoch i effect m))) (snd (write_completed X epoch i effect m))"
  unfolding write_completed_def Let_def
  by (auto simp: timed_update split: option.split prod.split
      intro!: tidy_finish_drain tidy_stepI dest!: timed_remove)

section \<open>The owner\<close>

lemma tidy_visible: "tidy F b m es m' \<Longrightarrow> tidy F b m (visible es) m'"
proof -
  have "close_reasons (visible es) = close_reasons es" by simp
  moreover have "set (visible es) \<subseteq> set es" by (auto simp: visible_def)
  ultimately show "tidy F b m es m' \<Longrightarrow> tidy F b m (visible es) m'" by (auto simp: tidy_def)
qed

lemma reconcile_effects_visible:
  "reconcile_effects X es out c = (Inr t, c') \<Longrightarrow> tr_effects t = tr_effects out @ visible es"
  by (induction X es out c rule: reconcile_effects.induct)
    (auto simp: core_poison_def split: prod.splits sum.splits option.splits if_splits
      WriteProgressError.splits)

lemma reconcile_visible: "reconcile X t c = (Inr t', c') \<Longrightarrow> tr_effects t' = visible (tr_effects t)"
  by (auto simp: reconcile_def Let_def dest!: reconcile_effects_visible split: option.splits)

lemma try_then_Inr:
  "try_then r f = (Inr y, s') \<longleftrightarrow> (\<exists>x s. r = (Inr x, s) \<and> f x s = (Inr y, s'))"
  by (cases r) (auto simp: try_then_def split: sum.splits)

lemma finish_step_Inr: "finish_step r = (Inr t, c') \<Longrightarrow> \<exists>c. r = (Inr t, c) \<and> core_machine c' = core_machine c"
  by (cases r) (auto simp: finish_step_def try_then_Inr ensure_healthy_def core_poison_def
      split: if_splits option.splits)

lemma absorb_effects:
  assumes "absorb_write_transition X combined t i effect c = (Inr t', c')"
  shows "tr_effects t' = tr_effects combined @ visible (tr_effects t)" "core_machine c' = core_machine c"
proof -
  obtain t1 where r: "reconcile X t c = (Inr t1, c')" "t' = fold transition_push (tr_effects t1) combined"
    using assms by (auto simp: absorb_write_transition_def try_then_Inr core_poison_def split: if_splits)
  show "tr_effects t' = tr_effects combined @ visible (tr_effects t)"
    using reconcile_visible [OF r(1)] by (simp add: r(2) fold_transition_push)
  show "core_machine c' = core_machine c" using reconcile_machine [of X t c] r(1) by simp
qed

text \<open>What both halves of write progress add to a tidy step.\<close>

lemma tidy_absorb:
  fixes combined t :: "unit ConnectionTransition"
  assumes "absorb_write_transition X combined t i effect (c\<lparr>core_machine := m'\<rparr>) = (Inr t', c')"
    "tidy {} b m (tr_effects combined) (core_machine c)" "tidy {} b (core_machine c) (tr_effects t) m'"
  shows "tidy {} b m (tr_effects t') (core_machine c')"
  using absorb_effects [OF assms(1)] tidy_trans [OF assms(2) tidy_visible [OF assms(3)]] by simp

lemma tidy_absorb_progress:
  assumes "absorb_progress X epoch effect i boundary complete c = (Inr t, c')"
  shows "tidy {} b (core_machine c) (tr_effects t) (core_machine c')"
proof -
  obtain c2 where c2: "core_machine c' = core_machine c2" and
    run: "try_then
          (if boundary = Crossed then
             (case write_started epoch i effect (core_machine c) of
                (t, m) \<Rightarrow> absorb_write_transition X (transition_new Applied) t i effect (c\<lparr>core_machine := m\<rparr>))
           else (Inr (transition_new Applied), c))
          (\<lambda>combined c.
             if complete then
               (case write_completed X epoch i effect (core_machine c) of
                  (t, m) \<Rightarrow> absorb_write_transition X combined t i effect (c\<lparr>core_machine := m\<rparr>))
             else (Inr combined, c)) = (Inr t, c2)"
    using finish_step_Inr [OF assms [unfolded absorb_progress_def]] by auto
  obtain combined c1 where one: "(if boundary = Crossed then
             (case write_started epoch i effect (core_machine c) of
                (t, m) \<Rightarrow> absorb_write_transition X (transition_new Applied) t i effect (c\<lparr>core_machine := m\<rparr>))
           else (Inr (transition_new Applied), c)) = (Inr combined, c1)"
    and two: "(if complete then
               (case write_completed X epoch i effect (core_machine c1) of
                  (t, m) \<Rightarrow> absorb_write_transition X combined t i effect (c1\<lparr>core_machine := m\<rparr>))
             else (Inr combined, c1)) = (Inr t, c2)"
    using run by (auto simp: try_then_Inr)
  have first: "tidy {} b (core_machine c) (tr_effects combined) (core_machine c1)"
    using one tidy_absorb [where combined = "transition_new Applied", OF _ _ tidy_write_started [where m = "core_machine c"]]
    by (auto simp: case_prod_unfold split: if_splits)
  show ?thesis
    using two first tidy_absorb [OF _ first tidy_write_completed [where m = "core_machine c1"]]
    by (auto simp: c2 case_prod_unfold split: if_splits)
qed

lemma tidy_core_advance:
  assumes "core_advance_write X epoch effect n c = (Inr t, c')"
  shows "tidy {} b (core_machine c) (tr_effects t) (core_machine c')"
proof -
  obtain u c1 where h: "ensure_healthy c = (Inr u, c1)"
    using assms by (auto simp: core_advance_write_def try_then_Inr)
  then have m: "core_machine c1 = core_machine c" using ensure_healthy_machine [of c] by simp
  show ?thesis
    using assms unfolding core_advance_write_def h Let_def
    by (auto simp: core_poison_def begin_write_recovery_journal_def m dest!: tidy_absorb_progress
        split: prod.splits sum.splits option.splits bool.splits WriteProgressError.splits WriteProgress.splits)
qed

lemma tidy_core_apply:
  assumes "externals_ok X" "core_ok X c P" "core_apply X input c = (Inr t, c')"
    "\<not> early_report X input (core_machine c)" "\<And>epoch. input \<noteq> OpenAdmission epoch"
    "\<And>epoch. input \<noteq> BeginDrain epoch" "\<And>epoch. input \<noteq> EpochClosed epoch" "\<And>epoch. input = CloseRequested epoch Drained \<Longrightarrow> b"
  shows "tidy {} b (core_machine c) (tr_effects t) (core_machine c')"
proof -
  obtain q where "core_apply X input c =
      (Inr ((fst (machine_apply X input (core_machine c)))\<lparr>tr_effects :=
              visible (tr_effects (fst (machine_apply X input (core_machine c))))\<rparr>),
       c\<lparr>core_machine := snd (machine_apply X input (core_machine c)), core_writes := q\<rparr>)"
    by (rule core_apply_exact [OF assms(1,2)])
  with assms(3) tidy_visible [OF tidy_apply [OF assms(4-8)]] show ?thesis by auto
qed

lemma tidy_core_apply_reply:
  assumes "externals_ok X" "core_ok X c P" "core_apply_reply X reply c = (Inr t, c')"
  shows "tidy {reply_frame reply} b (core_machine c) (tr_effects t) (core_machine c')"
proof -
  obtain q where "core_apply_reply X reply c =
      (Inr ((fst (machine_apply_reply X reply (core_machine c)))\<lparr>tr_effects :=
              visible (tr_effects (fst (machine_apply_reply X reply (core_machine c))))\<rparr>),
       c\<lparr>core_machine := snd (machine_apply_reply X reply (core_machine c)), core_writes := q\<rparr>)"
    by (rule core_apply_reply_exact [OF assms(1,2)])
  with assms(3) tidy_visible [OF tidy_apply_reply] show ?thesis by auto
qed

end
