(* ===== verification/SlotEffects.thy ===== *)
theory SlotEffects
  imports SlotQuantum SlotOwner
begin

text \<open>
  How the effects of an owner reach the timer queue and the publication batches of its slot: what
  the code relies on of those two, the correspondence between pending operations and armed timers,
  and the exact result of interpreting a transition.
\<close>

section \<open>What is relied on of timers and batches\<close>

text \<open>
  A view of the opaque states: which deadline and event a timer token stands for, how many timers
  a queue may hold, and the limits of a batch. The items of a batch are what a drain returns.
\<close>

record ('q, 'k, 'o, 'l) views =
  vw_armed :: "'q \<Rightarrow> 'k \<Rightarrow> (Deadline \<times> DeadlineEvent) option"
  vw_capacity :: "'q \<Rightarrow> usize"
  vw_outcome_limits :: "'o \<Rightarrow> usize \<times> RetainedBytes"
  vw_event_limits :: "'l \<Rightarrow> usize \<times> RetainedBytes"

definition items :: "('b, 'a) EventBatch \<Rightarrow> 'b \<Rightarrow> 'a list" where
  "items E b = fst (eb_drain E b)"

text \<open>A batch takes an item while both its count and its byte limit allow it, and returns it otherwise.\<close>

definition batch_laws ::
  "('b, 'a) EventBatch \<Rightarrow> ('b \<Rightarrow> usize \<times> RetainedBytes) \<Rightarrow> ('a \<Rightarrow> RetainedBytes) \<Rightarrow> bool" where
  "batch_laws E limits charge \<longleftrightarrow>
     (\<forall>l. items E (eb_new E l) = [] \<and> limits (eb_new E l) = l) \<and>
     (\<forall>x b. length (items E b) < fst (limits b) \<and>
        sum_list (map charge (items E b)) + charge x \<le> snd (limits b) \<longrightarrow>
        fst (eb_try_push E (charge x) x b) = Inr () \<and>
        items E (snd (eb_try_push E (charge x) x b)) = items E b @ [x]) \<and>
     (\<forall>x b. \<not> (length (items E b) < fst (limits b) \<and>
        sum_list (map charge (items E b)) + charge x \<le> snd (limits b)) \<longrightarrow>
        (\<exists>failure. fst (eb_try_push E (charge x) x b) = Inl (x, failure)) \<and>
        items E (snd (eb_try_push E (charge x) x b)) = items E b) \<and>
     (\<forall>x b. limits (snd (eb_try_push E (charge x) x b)) = limits b) \<and>
     (\<forall>b. items E (snd (eb_drain E b)) = [] \<and> limits (snd (eb_drain E b)) = limits b) \<and>
     (\<forall>b. eb_len E b = length (items E b))"

text \<open>
  A timer queue with room arms a timer under a fresh token, cancels exactly the named timer, and
  pops only due timers.
\<close>

definition timer_laws ::
  "'g externals \<Rightarrow> ('q, 'k) TimerQueue \<Rightarrow> ('q \<Rightarrow> 'k \<Rightarrow> (Deadline \<times> DeadlineEvent) option) \<Rightarrow>
   ('q \<Rightarrow> usize) \<Rightarrow> bool" where
  "timer_laws X Q armed capacity \<longleftrightarrow>
     (\<forall>owner n m. armed (tq_new Q owner (n, m)) = Map.empty \<and> capacity (tq_new Q owner (n, m)) = n) \<and>
     (\<forall>q deadline event. card (dom (armed q)) < capacity q \<longrightarrow>
        (\<exists>k. fst (tq_schedule Q deadline event q) = Inr k \<and> armed q k = None \<and>
           armed (snd (tq_schedule Q deadline event q)) = (armed q)(k \<mapsto> (deadline, event)) \<and>
           capacity (snd (tq_schedule Q deadline event q)) = capacity q)) \<and>
     (\<forall>k q. armed (tq_cancel Q k q) = (armed q)(k := None) \<and> capacity (tq_cancel Q k q) = capacity q) \<and>
     (\<forall>now q. (case fst (tq_pop_due Q now q) of
          None \<Rightarrow> armed (snd (tq_pop_due Q now q)) = armed q
        | Some (k, event) \<Rightarrow>
            (\<exists>deadline. armed q k = Some (deadline, event) \<and> is_elapsed_at X deadline now) \<and>
            armed (snd (tq_pop_due Q now q)) = (armed q)(k := None)) \<and>
        capacity (snd (tq_pop_due Q now q)) = capacity q) \<and>
     (\<forall>q. tq_len Q q = card (dom (armed q)))"

definition services_ok ::
  "('g, 'd, 'r, 'e, 'c, 'q, 'k, 'o, 'l) services \<Rightarrow> ('q, 'k, 'o, 'l) views \<Rightarrow> bool" where
  "services_ok S V \<longleftrightarrow>
     externals_ok (sv_externals S) \<and>
     timer_laws (sv_externals S) (sv_timers S) (vw_armed V) (vw_capacity V) \<and>
     batch_laws (sv_outcomes S) (vw_outcome_limits V)
       (engine_outcome_retained_bytes (sv_frame_retained S)) \<and>
     batch_laws (sv_events S) (vw_event_limits V) (\<lambda>_. 0)"

lemma services_okD:
  assumes "services_ok S V"
  shows "externals_ok (sv_externals S)"
    "timer_laws (sv_externals S) (sv_timers S) (vw_armed V) (vw_capacity V)"
    "batch_laws (sv_outcomes S) (vw_outcome_limits V) (engine_outcome_retained_bytes (sv_frame_retained S))"
    "batch_laws (sv_events S) (vw_event_limits V) (\<lambda>_. 0)"
  using assms by (simp_all add: services_ok_def)

lemma batch_accepts:
  assumes "batch_laws E limits charge" "length (items E b) < fst (limits b)"
    "sum_list (map charge (items E b)) + charge x \<le> snd (limits b)"
  obtains b' where "eb_try_push E (charge x) x b = (Inr (), b')" "items E b' = items E b @ [x]"
    "limits b' = limits b"
  using assms that [of "snd (eb_try_push E (charge x) x b)"]
  unfolding batch_laws_def by (metis prod.collapse)

lemma batch_refuses:
  assumes "batch_laws E limits charge" "\<not> (length (items E b) < fst (limits b) \<and>
    sum_list (map charge (items E b)) + charge x \<le> snd (limits b))"
  obtains failure b' where "eb_try_push E (charge x) x b = (Inl (x, failure), b')"
    "items E b' = items E b" "limits b' = limits b"
  using assms that [of _ "snd (eb_try_push E (charge x) x b)"]
  unfolding batch_laws_def by (metis prod.collapse)

lemma batch_drains:
  assumes "batch_laws E limits charge"
  shows "items E (snd (eb_drain E b)) = []" "limits (snd (eb_drain E b)) = limits b"
    "eb_len E b = length (items E b)" "items E (eb_new E l) = []" "limits (eb_new E l) = l"
  using assms unfolding batch_laws_def by blast+

section \<open>The deadline index\<close>

lemma mset_swap_remove: "i < length xs \<Longrightarrow> mset xs = add_mset (xs ! i) (mset (swap_remove i xs))"
proof -
  assume i: "i < length xs"
  then have ne: "xs[i := last xs] \<noteq> []" by auto
  have last: "last (xs[i := last xs]) = last xs" using ne by (simp add: last_list_update)
  have "add_mset (last xs) (mset (swap_remove i xs)) = mset (xs[i := last xs])"
    using append_butlast_last_id [OF ne] unfolding swap_remove_def last
    by (metis mset.simps(2) mset_append add.commute add_mset_add_single mset.simps(1))
  also have "\<dots> = add_mset (last xs) (mset xs - {#xs ! i#})" using i by (simp add: mset_update)
  finally show ?thesis using i by (simp add: nth_mem_mset)
qed

text \<open>
  The index has one entry per pending operation, and the armed timers are those of the entries,
  each at the deadline of its operation.
\<close>

definition mirrors ::
  "('k \<Rightarrow> (Deadline \<times> DeadlineEvent) option) \<Rightarrow> 'k DeadlineEntry list \<Rightarrow> ConnectionEpoch \<Rightarrow>
   (OperationId \<Rightarrow> Deadline option) \<Rightarrow> bool" where
  "mirrors armed entries epoch due \<longleftrightarrow>
     distinct (map den_operation entries) \<and> distinct (map den_token entries) \<and>
     den_operation ` set entries = dom due \<and>
     (\<forall>k d event. armed k = Some (d, event) \<longleftrightarrow>
        (\<exists>entry \<in> set entries. den_token entry = k \<and> due (den_operation entry) = Some d \<and>
           event = \<lparr>dev_epoch = epoch, dev_operation = den_operation entry\<rparr>))"

lemma mirrors_armed:
  assumes "mirrors armed entries epoch due"
  shows "dom armed = den_token ` set entries"
proof -
  have "\<exists>d event. armed k = Some (d, event)" if "entry \<in> set entries" "den_token entry = k" for entry k
  proof -
    have "den_operation entry \<in> dom due" using assms that unfolding mirrors_def by blast
    then obtain d where "due (den_operation entry) = Some d" by blast
    then show ?thesis using assms that unfolding mirrors_def by blast
  qed
  moreover have "k \<in> den_token ` set entries" if "armed k = Some (d, event)" for k d event
  proof -
    have "\<exists>entry \<in> set entries. den_token entry = k" using assms that unfolding mirrors_def by blast
    then show ?thesis by auto
  qed
  ultimately show ?thesis by (auto simp: dom_def)
qed

lemma mirrors_card:
  assumes "mirrors armed entries epoch due"
  shows "card (dom armed) = length entries" "card (dom due) = length entries"
proof -
  have d: "distinct (map den_token entries)" "distinct (map den_operation entries)"
    "dom due = den_operation ` set entries"
    using assms by (simp_all add: mirrors_def)
  show "card (dom armed) = length entries"
    using d(1) by (simp add: mirrors_armed [OF assms] distinct_card flip: set_map)
  show "card (dom due) = length entries" using d(2) by (simp add: d(3) distinct_card flip: set_map)
qed

text \<open>Removing an entry with its timer.\<close>

lemma mirrors_remove:
  assumes m: "mirrors armed entries epoch due" and i: "i < length entries"
  shows "mirrors (armed(den_token (entries ! i) := None)) (swap_remove i entries) epoch
    (due(den_operation (entries ! i) := None))"
proof -
  let ?e = "entries ! i" and ?rest = "swap_remove i entries"
  have ms: "mset entries = add_mset ?e (mset ?rest)" by (rule mset_swap_remove [OF i])
  then have d: "distinct (map den_operation entries) = distinct (den_operation ?e # map den_operation ?rest)"
    "distinct (map den_token entries) = distinct (den_token ?e # map den_token ?rest)"
    by (intro mset_eq_imp_distinct_iff; simp)+
  have s: "set entries = insert ?e (set ?rest)" using ms by (metis set_mset_add_mset_insert set_mset_mset)
  have dist: "distinct (den_operation ?e # map den_operation ?rest)" "distinct (den_token ?e # map den_token ?rest)"
    using m d by (simp_all add: mirrors_def)
  have new: "den_operation ?e \<notin> den_operation ` set ?rest" "den_token ?e \<notin> den_token ` set ?rest"
    using dist by auto
  have "(armed(den_token ?e := None)) k = Some (dl, event) \<longleftrightarrow>
        (\<exists>entry \<in> set ?rest. den_token entry = k \<and> (due(den_operation ?e := None)) (den_operation entry) = Some dl \<and>
           event = \<lparr>dev_epoch = epoch, dev_operation = den_operation entry\<rparr>)" for k dl event
  proof (cases "k = den_token ?e")
    case True
    then have "den_token entry \<noteq> k" if "entry \<in> set ?rest" for entry
      using new(2) that by (metis imageI)
    then show ?thesis using True by auto
  next
    case False
    then have "(armed(den_token ?e := None)) k = Some (dl, event) \<longleftrightarrow>
      (\<exists>entry \<in> set entries. den_token entry = k \<and> due (den_operation entry) = Some dl \<and>
           event = \<lparr>dev_epoch = epoch, dev_operation = den_operation entry\<rparr>)"
      using m by (simp add: mirrors_def)
    also have "\<dots> \<longleftrightarrow> (\<exists>entry \<in> set ?rest. den_token entry = k \<and> due (den_operation entry) = Some dl \<and>
           event = \<lparr>dev_epoch = epoch, dev_operation = den_operation entry\<rparr>)"
      using False s by auto
    also have "\<dots> \<longleftrightarrow> (\<exists>entry \<in> set ?rest. den_token entry = k \<and>
        (due(den_operation ?e := None)) (den_operation entry) = Some dl \<and>
           event = \<lparr>dev_epoch = epoch, dev_operation = den_operation entry\<rparr>)"
    proof (intro bex_cong refl)
      fix entry assume "entry \<in> set ?rest"
      then have "den_operation entry \<noteq> den_operation ?e" using new(1) by (metis imageI)
      then show "(den_token entry = k \<and> due (den_operation entry) = Some dl \<and>
           event = \<lparr>dev_epoch = epoch, dev_operation = den_operation entry\<rparr>) =
        (den_token entry = k \<and> (due(den_operation ?e := None)) (den_operation entry) = Some dl \<and>
           event = \<lparr>dev_epoch = epoch, dev_operation = den_operation entry\<rparr>)" by simp
    qed
    finally show ?thesis .
  qed
  moreover have "den_operation ` set ?rest = dom (due(den_operation ?e := None))"
  proof -
    have "insert (den_operation ?e) (den_operation ` set ?rest) = dom due" using m s by (auto simp: mirrors_def)
    then have "dom (due(den_operation ?e := None)) = insert (den_operation ?e) (den_operation ` set ?rest) - {den_operation ?e}"
      by simp
    then show ?thesis using new(1) by (metis Diff_insert_absorb)
  qed
  ultimately show ?thesis using dist by (simp add: mirrors_def)
qed

text \<open>Arming a timer for an operation that has none.\<close>

lemma mirrors_add:
  assumes "mirrors armed entries epoch due" "due i = None" "armed k = None"
  shows "mirrors (armed(k \<mapsto> (d, \<lparr>dev_epoch = epoch, dev_operation = i\<rparr>)))
    (entries @ [\<lparr>den_operation = i, den_token = k\<rparr>]) epoch (due(i \<mapsto> d))"
proof -
  have k: "k \<notin> den_token ` set entries" using mirrors_armed [OF assms(1)] assms(3) by auto
  have i: "i \<notin> den_operation ` set entries" using assms(1,2) by (auto simp: mirrors_def)
  have "(\<exists>entry \<in> set entries. den_token entry = k' \<and> (due(i \<mapsto> d)) (den_operation entry) = Some dl \<and> P entry) \<longleftrightarrow>
    (\<exists>entry \<in> set entries. den_token entry = k' \<and> due (den_operation entry) = Some dl \<and> P entry)" for k' dl P
  proof (intro bex_cong refl)
    fix entry assume "entry \<in> set entries"
    then have "den_operation entry \<noteq> i" using i by (metis imageI)
    then show "(den_token entry = k' \<and> (due(i \<mapsto> d)) (den_operation entry) = Some dl \<and> P entry) =
      (den_token entry = k' \<and> due (den_operation entry) = Some dl \<and> P entry)" by simp
  qed
  then show ?thesis using assms k i by (auto simp: mirrors_def)
qed

section \<open>Single effects\<close>

lemma cancel_deadline_absent: "i \<notin> den_operation ` set (sl_deadlines s) \<Longrightarrow> cancel_deadline S i s = s"
proof -
  assume "i \<notin> den_operation ` set (sl_deadlines s)"
  then have "position (\<lambda>entry. den_operation entry = i) (sl_deadlines s) = None" by auto
  then show ?thesis unfolding cancel_deadline_def by (simp only: option.case)
qed

lemma cancel_deadline_exact:
  assumes "services_ok S V" and m: "mirrors (vw_armed V (sl_timers s)) (sl_deadlines s) epoch due"
  obtains entries timers where
    "cancel_deadline S i s = s\<lparr>sl_deadlines := entries, sl_timers := timers\<rparr>"
    "mirrors (vw_armed V timers) entries epoch (due(i := None))"
    "vw_capacity V timers = vw_capacity V (sl_timers s)"
proof (cases "position (\<lambda>entry. den_operation entry = i) (sl_deadlines s)")
  case None
  then have "i \<notin> den_operation ` set (sl_deadlines s)" by auto
  then have "due i = None" using m by (auto simp: mirrors_def)
  with m cancel_deadline_absent [OF \<open>i \<notin> den_operation ` set (sl_deadlines s)\<close>] show ?thesis
    by (intro that [where entries = "sl_deadlines s" and timers = "sl_timers s"]) (simp_all add: fun_upd_idem)
next
  case (Some k)
  let ?e = "sl_deadlines s ! k"
  from position_Some [OF Some] have k: "k < length (sl_deadlines s)" "den_operation ?e = i" by auto
  have laws: "vw_armed V (tq_cancel (sv_timers S) (den_token ?e) (sl_timers s)) =
      (vw_armed V (sl_timers s))(den_token ?e := None)"
    "vw_capacity V (tq_cancel (sv_timers S) (den_token ?e) (sl_timers s)) = vw_capacity V (sl_timers s)"
    using services_okD(2) [OF assms(1)] unfolding timer_laws_def by blast+
  show ?thesis
  proof (rule that [where entries = "swap_remove k (sl_deadlines s)"
        and timers = "tq_cancel (sv_timers S) (den_token ?e) (sl_timers s)"])
    show "cancel_deadline S i s = s\<lparr>sl_deadlines := swap_remove k (sl_deadlines s),
        sl_timers := tq_cancel (sv_timers S) (den_token ?e) (sl_timers s)\<rparr>"
      using Some by (simp add: cancel_deadline_def Let_def)
    show "mirrors (vw_armed V (tq_cancel (sv_timers S) (den_token ?e) (sl_timers s)))
        (swap_remove k (sl_deadlines s)) epoch (due(i := None))"
      using mirrors_remove [OF m k(1)] k(2) laws(1) by simp
  qed (rule laws(2))
qed

lemma schedule_deadline_exact:
  assumes S: "services_ok S V" and m: "mirrors (vw_armed V (sl_timers s)) (sl_deadlines s) epoch due"
    and new: "due i = None" and room: "card (dom due) < operation_capacity (sl_limits s)"
    and cap: "vw_capacity V (sl_timers s) = operation_capacity (sl_limits s)"
  obtains entries timers where
    "schedule_deadline S \<lparr>dev_epoch = epoch, dev_operation = i\<rparr> d s =
       (Inr (), s\<lparr>sl_deadlines := entries, sl_timers := timers\<rparr>)"
    "mirrors (vw_armed V timers) entries epoch (due(i \<mapsto> d))"
    "vw_capacity V timers = vw_capacity V (sl_timers s)"
proof -
  have none: "cancel_deadline S i s = s"
    using m new by (intro cancel_deadline_absent) (auto simp: mirrors_def)
  let ?ev = "\<lparr>dev_epoch = epoch, dev_operation = i\<rparr>"
  have len: "length (sl_deadlines s) < operation_capacity (sl_limits s)"
    using mirrors_card [OF m] room by simp
  have "card (dom (vw_armed V (sl_timers s))) < vw_capacity V (sl_timers s)"
    using mirrors_card [OF m] room cap by simp
  then obtain k where k: "fst (tq_schedule (sv_timers S) d ?ev (sl_timers s)) = Inr k"
    "vw_armed V (sl_timers s) k = None"
    "vw_armed V (snd (tq_schedule (sv_timers S) d ?ev (sl_timers s))) = (vw_armed V (sl_timers s))(k \<mapsto> (d, ?ev))"
    "vw_capacity V (snd (tq_schedule (sv_timers S) d ?ev (sl_timers s))) = vw_capacity V (sl_timers s)"
    using services_okD(2) [OF S] unfolding timer_laws_def by blast
  show ?thesis
  proof (rule that [where entries = "sl_deadlines s @ [\<lparr>den_operation = i, den_token = k\<rparr>]"
        and timers = "snd (tq_schedule (sv_timers S) d ?ev (sl_timers s))"])
    show "schedule_deadline S ?ev d s = (Inr (), s\<lparr>sl_deadlines := sl_deadlines s @ [\<lparr>den_operation = i, den_token = k\<rparr>],
        sl_timers := snd (tq_schedule (sv_timers S) d ?ev (sl_timers s))\<rparr>)"
      using len k(1) by (cases "tq_schedule (sv_timers S) d ?ev (sl_timers s)")
        (simp add: schedule_deadline_def none Let_def)
  qed (use mirrors_add [OF m new k(2)] k(3,4) in simp_all)
qed

lemma publish_exact:
  assumes S: "services_ok S V"
    and room: "length (items (sv_outcomes S) (sl_outcomes s)) < fst (vw_outcome_limits V (sl_outcomes s))"
      "sum_list (map (engine_outcome_retained_bytes (sv_frame_retained S)) (items (sv_outcomes S) (sl_outcomes s))) +
         engine_outcome_retained_bytes (sv_frame_retained S) outcome \<le> snd (vw_outcome_limits V (sl_outcomes s))"
  obtains b where "publish S outcome s = (Inr (), s\<lparr>sl_outcomes := b\<rparr>)"
    "items (sv_outcomes S) b = items (sv_outcomes S) (sl_outcomes s) @ [outcome]"
    "vw_outcome_limits V b = vw_outcome_limits V (sl_outcomes s)"
proof -
  obtain b where "eb_try_push (sv_outcomes S) (engine_outcome_retained_bytes (sv_frame_retained S) outcome)
      outcome (sl_outcomes s) = (Inr (), b)"
    "items (sv_outcomes S) b = items (sv_outcomes S) (sl_outcomes s) @ [outcome]"
    "vw_outcome_limits V b = vw_outcome_limits V (sl_outcomes s)"
    by (rule batch_accepts [where charge = "engine_outcome_retained_bytes (sv_frame_retained S)",
          OF services_okD(3) [OF S] room])
  then show ?thesis by (intro that [of b]) (simp_all add: publish_def Let_def)
qed

section \<open>A whole transition\<close>

definition outcomes_in :: "'r ConnectionEffect list \<Rightarrow> 'r EngineOutcome list" where
  "outcomes_in es = concat (map (\<lambda>e. case e of
       PublishOutcome epoch i outcome \<Rightarrow> [\<lparr>eo_epoch = epoch, eo_operation = i, eo_outcome = outcome\<rparr>]
     | _ \<Rightarrow> []) es)"

lemma outcomes_in_simps [simp]:
  "outcomes_in [] = []" "outcomes_in (es @ fs) = outcomes_in es @ outcomes_in fs"
  "outcomes_in (PublishOutcome epoch i outcome # es) =
     \<lparr>eo_epoch = epoch, eo_operation = i, eo_outcome = outcome\<rparr> # outcomes_in es"
  "outcomes_in (CancelDeadline epoch i # es) = outcomes_in es"
  "outcomes_in (CloseEpoch epoch reason # es) = outcomes_in es"
  "outcomes_in (ScheduleDeadline epoch i d # es) = outcomes_in es"
  "outcomes_in (DiscardWrite effect epoch i # es) = outcomes_in es"
  by (simp_all add: outcomes_in_def)

text \<open>
  With room for every outcome it publishes, a transition that schedules nothing is interpreted
  without a failure: the named deadlines are cancelled, the outcomes are appended in order.
\<close>

lemma interpret_effects_exact:
  assumes S: "services_ok S V"
    and plain: "\<forall>e \<in> set es. \<not> is_ScheduleDeadline e \<and> \<not> is_DiscardWrite e"
    and m: "mirrors (vw_armed V (sl_timers s)) (sl_deadlines s) epoch due"
    and room: "length (items (sv_outcomes S) (sl_outcomes s)) + length (outcomes_in es)
        \<le> fst (vw_outcome_limits V (sl_outcomes s))"
    and bytes: "sum_list (map (engine_outcome_retained_bytes (sv_frame_retained S))
        (items (sv_outcomes S) (sl_outcomes s) @ outcomes_in es)) \<le> snd (vw_outcome_limits V (sl_outcomes s))"
  shows "\<exists>entries timers b. fold (interpret_effect S) es (closing, failure, s) =
      (if close_reasons es = [] then closing else Some (last (close_reasons es)), failure,
       s\<lparr>sl_deadlines := entries, sl_timers := timers, sl_outcomes := b\<rparr>) \<and>
    mirrors (vw_armed V timers) entries epoch (due |` (- set (cancel_ids es))) \<and>
    vw_capacity V timers = vw_capacity V (sl_timers s) \<and>
    items (sv_outcomes S) b = items (sv_outcomes S) (sl_outcomes s) @ outcomes_in es \<and>
    vw_outcome_limits V b = vw_outcome_limits V (sl_outcomes s)"
  using plain m room bytes
proof (induction es arbitrary: closing s due)
  case Nil
  then show ?case by (intro exI [of _ "sl_deadlines s"] exI [of _ "sl_timers s"] exI [of _ "sl_outcomes s"]) simp
next
  case (Cons e es)
  note prems = Cons.prems
  show ?case
  proof (cases e)
    case (CancelDeadline ep i)
    obtain entries timers where c: "cancel_deadline S i s = s\<lparr>sl_deadlines := entries, sl_timers := timers\<rparr>"
      "mirrors (vw_armed V timers) entries epoch (due(i := None))"
      "vw_capacity V timers = vw_capacity V (sl_timers s)"
      by (rule cancel_deadline_exact [OF S prems(2)])
    have due: "(due(i := None)) |` (- set (cancel_ids es)) = due |` (- insert i (set (cancel_ids es)))"
      by (auto simp: restrict_map_def fun_eq_iff)
    let ?s = "s\<lparr>sl_deadlines := entries, sl_timers := timers\<rparr>"
    have "mirrors (vw_armed V (sl_timers ?s)) (sl_deadlines ?s) epoch (due(i := None))" using c(2) by simp
    from Cons.IH [OF _ this, of closing] obtain en ti b where ih:
      "fold (interpret_effect S) es (closing, failure, ?s) =
         (if close_reasons es = [] then closing else Some (last (close_reasons es)), failure,
          ?s\<lparr>sl_deadlines := en, sl_timers := ti, sl_outcomes := b\<rparr>)"
      "mirrors (vw_armed V ti) en epoch (due |` (- insert i (set (cancel_ids es))))"
      "vw_capacity V ti = vw_capacity V (sl_timers ?s)"
      "items (sv_outcomes S) b = items (sv_outcomes S) (sl_outcomes ?s) @ outcomes_in es"
      "vw_outcome_limits V b = vw_outcome_limits V (sl_outcomes ?s)"
      using prems(1,3,4) unfolding due by (auto simp: CancelDeadline)
    show ?thesis
      by (rule exI [of _ en], rule exI [of _ ti], rule exI [of _ b])
        (use ih c in \<open>simp add: CancelDeadline\<close>)
  next
    case (CloseEpoch ep reason)
    then show ?thesis using Cons.IH [of s due "Some reason"] prems by (auto split: if_splits)
  next
    case (PublishOutcome ep i outcome)
    let ?o = "\<lparr>eo_epoch = ep, eo_operation = i, eo_outcome = outcome\<rparr>"
    obtain b where b: "publish S ?o s = (Inr (), s\<lparr>sl_outcomes := b\<rparr>)"
      "items (sv_outcomes S) b = items (sv_outcomes S) (sl_outcomes s) @ [?o]"
      "vw_outcome_limits V b = vw_outcome_limits V (sl_outcomes s)"
      by (rule publish_exact [OF S, where outcome = ?o and s = s]) (use prems PublishOutcome in simp_all)
    let ?s = "s\<lparr>sl_outcomes := b\<rparr>"
    from Cons.IH [of ?s due closing] prems b obtain en ti b' where ih:
      "fold (interpret_effect S) es (closing, failure, ?s) =
         (if close_reasons es = [] then closing else Some (last (close_reasons es)), failure,
          ?s\<lparr>sl_deadlines := en, sl_timers := ti, sl_outcomes := b'\<rparr>)"
      "mirrors (vw_armed V ti) en epoch (due |` (- set (cancel_ids es)))"
      "vw_capacity V ti = vw_capacity V (sl_timers ?s)"
      "items (sv_outcomes S) b' = items (sv_outcomes S) (sl_outcomes ?s) @ outcomes_in es"
      "vw_outcome_limits V b' = vw_outcome_limits V (sl_outcomes ?s)"
      by (auto simp: PublishOutcome)
    show ?thesis
      by (rule exI [of _ en], rule exI [of _ ti], rule exI [of _ b'])
        (use ih b in \<open>simp add: PublishOutcome retain_first_def\<close>)
  qed (use prems in auto)
qed

text \<open>A transition without a reply payload is interpreted as the same transition at the frame type.\<close>

fun retype_effect :: "unit ConnectionEffect \<Rightarrow> 'r ConnectionEffect" where
  "retype_effect (ScheduleDeadline epoch i d) = ScheduleDeadline epoch i d"
| "retype_effect (DiscardWrite effect epoch i) = DiscardWrite effect epoch i"
| "retype_effect (CancelDeadline epoch i) = CancelDeadline epoch i"
| "retype_effect (CloseEpoch epoch reason) = CloseEpoch epoch reason"
| "retype_effect (PublishOutcome epoch i outcome) = PublishOutcome epoch i (the (retype_outcome outcome))"

lemma interpret_unit_retyped:
  "sent_back {} e \<Longrightarrow> interpret_unit_effect S e acc = interpret_effect S (retype_effect e) acc"
  by (cases e; cases acc; cases "pub_outcome e") (auto simp: sent_back_def)

lemma interpret_unit_fold:
  "\<forall>e \<in> set es. sent_back {} e \<Longrightarrow>
   fold (interpret_unit_effect S) es acc = fold (interpret_effect S) (map retype_effect es) acc"
  by (induction es arbitrary: acc) (simp_all add: interpret_unit_retyped)

lemma retyped_lists:
  assumes "\<forall>e \<in> set es. sent_back {} e"
  shows "pub_ids (map retype_effect es) = pub_ids es" "cancel_ids (map retype_effect es) = cancel_ids es"
    "close_reasons (map retype_effect es) = close_reasons es"
    "publications (map retype_effect es) = publications es"
    "reply_deliveries (map retype_effect es) = []" "discard_ids (map retype_effect es) = discard_ids es"
proof -
  have "pub_ids (map retype_effect es) = pub_ids es \<and> cancel_ids (map retype_effect es) = cancel_ids es \<and>
    close_reasons (map retype_effect es) = close_reasons es \<and>
    publications (map retype_effect es) = publications es \<and> reply_deliveries (map retype_effect es) = [] \<and>
    discard_ids (map retype_effect es) = discard_ids es"
    using assms
  proof (induction es)
    case (Cons e es)
    then show ?case by (cases e; cases "pub_outcome e") (auto simp: sent_back_def reply_deliveries_def)
  qed simp
  then show "pub_ids (map retype_effect es) = pub_ids es" "cancel_ids (map retype_effect es) = cancel_ids es"
    "close_reasons (map retype_effect es) = close_reasons es"
    "publications (map retype_effect es) = publications es"
    "reply_deliveries (map retype_effect es) = []" "discard_ids (map retype_effect es) = discard_ids es" by blast+
qed

end
