(* ===== verification/SlotInv.thy ===== *)
theory SlotInv
  imports SlotEffects
begin

text \<open>
  The invariant of a running slot. Every publication of the owner has its place: a terminal outcome
  for each live operation, an armed timer for each pending one, and at most four lifecycle events in
  a fixed order. The slot simulates the owner with its environment: what it has published is what
  the owner decided.
\<close>

section \<open>Lifecycle events\<close>

fun ev_rank :: "ConnectionEvent \<Rightarrow> nat" where
  "ev_rank (EvTransportOpened _ _) = 0"
| "ev_rank (EvAdmissionOpened _ _) = 1"
| "ev_rank (EvClosing _ _ _) = 2"
| "ev_rank (EvClosed _ _ _) = 3"

text \<open>Numbered from one without a gap, each kind at most once and in order, all below a rank.\<close>

definition events_ok :: "nat \<Rightarrow> ConnectionEpoch \<Rightarrow> ConnectionEvent list \<Rightarrow> u64 \<Rightarrow> bool" where
  "events_ok n epoch evs sequence \<longleftrightarrow>
     map ev_sequence evs = map of_nat [1..<Suc (length evs)] \<and> sequence = of_nat (length evs) \<and>
     sorted_wrt (<) (map ev_rank evs) \<and> (\<forall>ev \<in> set evs. ev_rank ev < n \<and> ev_epoch ev = epoch)"

lemma events_ok_mono: "events_ok n epoch evs q \<Longrightarrow> n \<le> n' \<Longrightarrow> events_ok n' epoch evs q"
  by (auto simp: events_ok_def)

lemma strict_below_length:
  assumes "sorted_wrt (<) xs" "\<forall>x \<in> set xs. x < (n :: nat)"
  shows "length xs \<le> n"
proof -
  have "distinct xs" using assms(1) by (simp add: strict_sorted_iff)
  then have "length xs = card (set xs)" by (simp add: distinct_card)
  also have "\<dots> \<le> card {..<n}" using assms(2) by (intro card_mono) auto
  finally show ?thesis by simp
qed

lemma events_ok_length: "events_ok n epoch evs q \<Longrightarrow> length evs \<le> n"
  using strict_below_length [of "map ev_rank evs" n] by (auto simp: events_ok_def)

lemma events_ok_snoc:
  assumes "events_ok n epoch evs q" "ev_rank ev = n" "ev_epoch ev = epoch" "ev_sequence ev = of_nat (Suc (length evs))"
  shows "events_ok (Suc n) epoch (evs @ [ev]) (ev_sequence ev)"
  using assms by (auto simp: events_ok_def sorted_wrt_append less_Suc_eq)

lemma small_sequence:
  assumes "events_ok n epoch evs q" "n < 4"
  shows "u64_checked_inc q = Some (of_nat (Suc (length evs)))"
proof -
  have n: "length evs < 4" using events_ok_length [OF assms(1)] assms(2) by simp
  have q: "q = of_nat (length evs)" using assms(1) by (simp add: events_ok_def)
  have "unat q < 4" using n by (simp add: q unat_of_nat take_bit_eq_mod)
  moreover have "unat (- 1 :: u64) = 18446744073709551615" by (simp add: unsigned_minus_1_eq_mask mask_eq_exp_minus_1)
  ultimately have "q \<noteq> - 1" by auto
  then show ?thesis by (simp add: u64_checked_inc_def q)
qed

section \<open>What a slot has published\<close>

text \<open>What its callers hold and have taken out of it.\<close>

record 'r slot_history =
  sh_permits :: "OperationPermit list"
  sh_accepted :: "OperationId list"
  sh_delivered :: "'r EngineOutcome list"
  sh_seen :: "ConnectionEvent list"

definition all_outcomes ::
  "('g, 'd, 'r, 'e, 'c, 'q, 'k, 'o, 'l) services \<Rightarrow> 'r slot_history \<Rightarrow>
   ('g, 'd, 'c, 'q, 'k, 'o, 'l) ConnectionSlot \<Rightarrow> 'r EngineOutcome list" where
  "all_outcomes S H s = sh_delivered H @ items (sv_outcomes S) (sl_outcomes s)"

definition all_events ::
  "('g, 'd, 'r, 'e, 'c, 'q, 'k, 'o, 'l) services \<Rightarrow> 'r slot_history \<Rightarrow>
   ('g, 'd, 'c, 'q, 'k, 'o, 'l) ConnectionSlot \<Rightarrow> ConnectionEvent list" where
  "all_events S H s =
     sh_seen H @ items (sv_events S) (sl_lifecycle s) @ items (sv_events S) (sl_recovery_events s)"

definition outcome_entry :: "'r EngineOutcome \<Rightarrow> OperationId \<times> Delivery option" where
  "outcome_entry o' = (eo_operation o', outcome_delivery (eo_outcome o'))"

definition outcome_replies :: "'r EngineOutcome list \<Rightarrow> (OperationId \<times> 'r) list" where
  "outcome_replies os =
     concat (map (\<lambda>o'. case eo_outcome o' of OutReply f \<Rightarrow> [(eo_operation o', f)] | _ \<Rightarrow> []) os)"

lemma outcomes_in_published:
  "map outcome_entry (outcomes_in es) = publications es" "outcome_replies (outcomes_in es) = reply_deliveries es"
  "length (outcomes_in es) = length (pub_ids es)"
proof -
  have "map outcome_entry (outcomes_in es) = publications es \<and>
    outcome_replies (outcomes_in es) = reply_deliveries es \<and> length (outcomes_in es) = length (pub_ids es)"
  proof (induction es)
    case (Cons e es)
    then show ?case
      by (cases e; cases "pub_outcome e") (simp_all add: outcome_entry_def outcome_replies_def reply_deliveries_def)
  qed (simp add: outcome_replies_def reply_deliveries_def)
  then show "map outcome_entry (outcomes_in es) = publications es"
    "outcome_replies (outcomes_in es) = reply_deliveries es" "length (outcomes_in es) = length (pub_ids es)" by blast+
qed

lemma outcome_replies_append [simp]: "outcome_replies (xs @ ys) = outcome_replies xs @ outcome_replies ys"
  by (simp add: outcome_replies_def)

text \<open>
  The owner of the slot is a reachable owner whose history is what the slot holds and has handed out,
  followed by the outcomes \<open>pending_out\<close> that are about to be published.
\<close>

definition simulates ::
  "('g, 'd, 'r, 'e, 'c, 'q, 'k, 'o, 'l) services \<Rightarrow> 'r slot_history \<Rightarrow> 'r EngineOutcome list \<Rightarrow>
   ('g, 'd, 'c, 'q, 'k, 'o, 'l) ConnectionSlot \<Rightarrow> bool" where
  "simulates S H pending_out s \<longleftrightarrow>
     (\<exists>h. sys_reachable (sv_externals S) h \<and> sys_core h = sl_core s \<and> sys_permits h = sh_permits H \<and>
        sys_accepted h = sh_accepted H \<and>
        sys_published h = map outcome_entry (all_outcomes S H s @ pending_out) \<and>
        sys_replies h = outcome_replies (all_outcomes S H s @ pending_out))"

text \<open>A complete frame does not change once it is queued.\<close>

definition measured :: "('f, 'g) ConnectionCore \<Rightarrow> ('f \<times> FrameMeasure) set" where
  "measured c = (\<lambda>w. (qw_frame w, qw_measure w)) ` set (wq_frames (core_writes c))"

definition frames_stable :: "(OutboundFrame, 'g) ConnectionCore \<Rightarrow> bool" where
  "frames_stable c \<longleftrightarrow> (\<forall>(frame, fm) \<in> measured c. length (of_bytes frame) = wire_bytes fm)"

definition configured ::
  "('q, 'k, 'o, 'l) views \<Rightarrow> ('g, 'd, 'c, 'q, 'k, 'o, 'l) ConnectionSlot \<Rightarrow> bool" where
  "configured V s \<longleftrightarrow>
     sl_outcome_bytes (sl_limits s) = reply_bytes (sl_limits s) * operation_capacity (sl_limits s) \<and>
     operation_capacity (sl_limits s) = max_operations (sl_connection (sl_limits s)) \<and>
     core_limits (sl_core s) = sl_connection (sl_limits s) \<and> frames_stable (sl_core s) \<and>
     vw_capacity V (sl_timers s) = operation_capacity (sl_limits s) \<and>
     vw_outcome_limits V (sl_outcomes s) = outcome_limits (sl_limits s) \<and>
     vw_event_limits V (sl_lifecycle s) = lifecycle_limits (sl_limits s) \<and>
     vw_event_limits V (sl_recovery_events s) = recovery_lifecycle_limits (sl_limits s)"

text \<open>Room for one outcome of every permit and every live operation, besides the undrained ones.\<close>

definition roomy ::
  "('g, 'd, 'r, 'e, 'c, 'q, 'k, 'o, 'l) services \<Rightarrow> 'r slot_history \<Rightarrow> 'r EngineOutcome list \<Rightarrow>
   ('g, 'd, 'c, 'q, 'k, 'o, 'l) ConnectionSlot \<Rightarrow> bool" where
  "roomy S H pending_out s \<longleftrightarrow>
     length (items (sv_outcomes S) (sl_outcomes s)) + length pending_out + length (sh_permits H) +
       length (live_ids (pending (core_machine (sl_core s)))) \<le> operation_capacity (sl_limits s) \<and>
     (\<forall>o' \<in> set (items (sv_outcomes S) (sl_outcomes s) @ pending_out).
        engine_outcome_retained_bytes (sv_frame_retained S) o' \<le> reply_bytes (sl_limits s)) \<and>
     (\<forall>o' \<in> set (all_outcomes S H s @ pending_out). eo_epoch o' = slot_epoch s) \<and>
     items (sv_outcomes S) (sl_recovery_outcomes s) = []"

definition mirrored ::
  "('q, 'k, 'o, 'l) views \<Rightarrow> (OperationId \<Rightarrow> Deadline option) \<Rightarrow>
   ('g, 'd, 'c, 'q, 'k, 'o, 'l) ConnectionSlot \<Rightarrow> bool" where
  "mirrored V due s \<longleftrightarrow> mirrors (vw_armed V (sl_timers s)) (sl_deadlines s) (slot_epoch s) due"

definition due_of :: "('g, 'd, 'c, 'q, 'k, 'o, 'l) ConnectionSlot \<Rightarrow> OperationId \<Rightarrow> Deadline option" where
  "due_of s = map_of (timed (pending (core_machine (sl_core s))))"

text \<open>How far the epoch has come: the rank of the next event that may be published.\<close>

definition stage :: "('g, 'd, 'c, 'q, 'k, 'o, 'l) ConnectionSlot \<Rightarrow> nat" where
  "stage s =
     (case m_phase (core_machine (sl_core s)) of
        Live \<Rightarrow> if sl_transport_state s = Connecting then 0
                else if m_gate (core_machine (sl_core s)) = SessionOnly then 1 else 2
      | Closing \<Rightarrow> 3
      | PhaseClosed \<Rightarrow> 4)"

section \<open>The invariant\<close>

text \<open>The books of a slot hold even after it has failed for a reason of its own.\<close>

definition slot_books ::
  "('g, 'd, 'r, 'e, 'c, 'q, 'k, 'o, 'l) services \<Rightarrow> ('q, 'k, 'o, 'l) views \<Rightarrow> 'r slot_history \<Rightarrow>
   ('g, 'd, 'c, 'q, 'k, 'o, 'l) ConnectionSlot \<Rightarrow> bool" where
  "slot_books S V H s \<longleftrightarrow>
     configured V s \<and> simulates S H [] s \<and> roomy S H [] s \<and> mirrored V (due_of s) s \<and>
     events_ok 4 (slot_epoch s) (all_events S H s) (sl_event_sequence s)"

text \<open>
  A transport that reports more bytes than the front frame still holds breaks the owner. What the
  owner decided stays as it is; only the front frame counts as started and the journal stays armed.
\<close>

definition broken_core :: "('f, 'g) ConnectionCore \<Rightarrow> ('f, 'g) ConnectionCore \<Rightarrow> bool" where
  "broken_core c c' \<longleftrightarrow>
     core_machine c' = core_machine c \<and> core_poisoned c' \<noteq> None \<and>
     (\<exists>w ws. wq_frames (core_writes c) = w # ws \<and>
        core_writes c' = (core_writes c)\<lparr>wq_frames := w\<lparr>qw_started := True\<rparr> # ws\<rparr>) \<and>
     (\<exists>mo mw. core_journal c' = journal_of mo mw [] [] None True)"

text \<open>The books of a slot with a broken owner are those of the owner before it broke.\<close>

definition lost_books ::
  "('g, 'd, 'r, 'e, 'c, 'q, 'k, 'o, 'l) services \<Rightarrow> ('q, 'k, 'o, 'l) views \<Rightarrow> 'r slot_history \<Rightarrow>
   ('g, 'd, 'c, 'q, 'k, 'o, 'l) ConnectionSlot \<Rightarrow> bool" where
  "lost_books S V H s \<longleftrightarrow> (\<exists>c. slot_books S V H (s\<lparr>sl_core := c\<rparr>) \<and> broken_core c (sl_core s))"

text \<open>Transport state and close request follow the phase of the owner.\<close>

definition phase_follows :: "('g, 'd, 'c, 'q, 'k, 'o, 'l) ConnectionSlot \<Rightarrow> bool" where
  "phase_follows s \<longleftrightarrow>
     (let m = core_machine (sl_core s) in
      (case m_phase m of
         Live \<Rightarrow> sl_close_request s = None \<and>
           (sl_transport_state s = Connecting \<and> m_gate m \<noteq> Open \<or> sl_transport_state s = TransportOpen)
       | Closing \<Rightarrow> sl_transport_state s = TransportClosing \<and>
           (\<exists>reason shutdown. sl_close_request s = Some (DirCore reason shutdown) \<and>
              m_close_reason m = Some reason)
       | PhaseClosed \<Rightarrow> sl_transport_state s = TransportClosed \<and> sl_close_request s = None) \<and>
      (sl_drain_deadline s \<noteq> None \<longleftrightarrow> m_gate m = Draining))"

definition slot_running ::
  "('g, 'd, 'r, 'e, 'c, 'q, 'k, 'o, 'l) services \<Rightarrow> ('q, 'k, 'o, 'l) views \<Rightarrow> 'r slot_history \<Rightarrow>
   ('g, 'd, 'c, 'q, 'k, 'o, 'l) ConnectionSlot \<Rightarrow> bool" where
  "slot_running S V H s \<longleftrightarrow>
     sl_state s = Running \<and> slot_books S V H s \<and> phase_follows s \<and>
     items (sv_events S) (sl_recovery_events s) = [] \<and>
     events_ok (stage s) (slot_epoch s) (all_events S H s) (sl_event_sequence s)"

text \<open>
  The contract of a step: it ends in a running slot again, or it reports one of the failures \<open>A\<close> with
  the books intact. After an error of the owner they may be those of a broken owner.
\<close>

definition upholds ::
  "EngineError set \<Rightarrow> ('g, 'd, 'r, 'e, 'c, 'q, 'k, 'o, 'l) services \<Rightarrow> ('q, 'k, 'o, 'l) views \<Rightarrow>
   'r slot_history \<Rightarrow> (EngineError + 'a) \<times> ('g, 'd, 'c, 'q, 'k, 'o, 'l) ConnectionSlot \<Rightarrow> bool" where
  "upholds A S V H rs \<longleftrightarrow>
     (case rs of
        (Inr _, s) \<Rightarrow> slot_running S V H s
      | (Inl e, s) \<Rightarrow> e \<in> A \<and> sl_state s = Running \<and> ((\<exists>e'. e = EngCore e') \<and> lost_books S V H s \<or> slot_books S V H s))"

lemma upholds_simps [simp]:
  "upholds A S V H (Inr x, s) \<longleftrightarrow> slot_running S V H s"
  "upholds A S V H (Inl e, s) \<longleftrightarrow>
     e \<in> A \<and> sl_state s = Running \<and> ((\<exists>e'. e = EngCore e') \<and> lost_books S V H s \<or> slot_books S V H s)"
  by (simp_all add: upholds_def)

lemma upholds_try:
  assumes "upholds A S V H rs" "\<And>x s. rs = (Inr x, s) \<Longrightarrow> slot_running S V H s \<Longrightarrow> upholds A S V H (f x s)"
  shows "upholds A S V H (try_then rs f)"
  using assms by (cases rs; cases "fst rs") (auto simp: try_then_def)

lemma upholds_mono: "upholds A S V H rs \<Longrightarrow> A \<subseteq> B \<Longrightarrow> upholds B S V H rs"
  by (cases rs; cases "fst rs") auto

lemma slot_runningD:
  assumes "slot_running S V H s"
  shows "sl_state s = Running" "slot_books S V H s" "phase_follows s"
    "items (sv_events S) (sl_recovery_events s) = []"
    "events_ok (stage s) (slot_epoch s) (all_events S H s) (sl_event_sequence s)"
    "configured V s" "simulates S H [] s" "roomy S H [] s" "mirrored V (due_of s) s"
  using assms by (simp_all add: slot_running_def slot_books_def)

text \<open>Fields the invariant does not speak of.\<close>

lemma inv_frame [simp, frame_simps]:
  "slot_books S V H (s\<lparr>sl_driver := d\<rparr>) = slot_books S V H s"
  "slot_books S V H (s\<lparr>sl_classifier := c\<rparr>) = slot_books S V H s"
  "slot_books S V H (s\<lparr>sl_read_buffer := b\<rparr>) = slot_books S V H s"
  "slot_books S V H (s\<lparr>sl_decoder_pending := p\<rparr>) = slot_books S V H s"
  "slot_books S V H (s\<lparr>sl_io_preference := i\<rparr>) = slot_books S V H s"
  "slot_books S V H (s\<lparr>sl_transport_diagnostic := td\<rparr>) = slot_books S V H s"
  "slot_books S V H (s\<lparr>sl_transport_pressure := tp\<rparr>) = slot_books S V H s"
  "slot_books S V H (s\<lparr>sl_transport_retained_limit := l\<rparr>) = slot_books S V H s"
  "slot_books S V H (s\<lparr>sl_transport_contract_diverged := cd\<rparr>) = slot_books S V H s"
  "slot_books S V H (s\<lparr>sl_close_request := cr\<rparr>) = slot_books S V H s"
  "slot_books S V H (s\<lparr>sl_drain_deadline := dd\<rparr>) = slot_books S V H s"
  "slot_books S V H (s\<lparr>sl_transport_state := ts\<rparr>) = slot_books S V H s"
  "slot_books S V H (s\<lparr>sl_state := st\<rparr>) = slot_books S V H s"
  by (simp_all add: slot_books_def configured_def simulates_def roomy_def mirrored_def due_of_def
      all_outcomes_def all_events_def)

lemma lost_frame [simp, frame_simps]:
  "lost_books S V H (s\<lparr>sl_close_request := cr\<rparr>) = lost_books S V H s"
  "lost_books S V H (s\<lparr>sl_drain_deadline := dd\<rparr>) = lost_books S V H s"
  "lost_books S V H (s\<lparr>sl_transport_state := ts\<rparr>) = lost_books S V H s"
  "lost_books S V H (s\<lparr>sl_state := st\<rparr>) = lost_books S V H s"
  "lost_books S V H (s\<lparr>sl_transport_diagnostic := td\<rparr>) = lost_books S V H s"
  "lost_books S V H (s\<lparr>sl_transport_pressure := tp\<rparr>) = lost_books S V H s"
  "lost_books S V H (s\<lparr>sl_transport_retained_limit := l\<rparr>) = lost_books S V H s"
  "lost_books S V H (s\<lparr>sl_transport_contract_diverged := cd\<rparr>) = lost_books S V H s"
  by (simp_all add: lost_books_def slot_books_def configured_def simulates_def roomy_def mirrored_def due_of_def
      all_outcomes_def all_events_def)

lemma phase_frame [simp, frame_simps]:
  "phase_follows (s\<lparr>sl_driver := d\<rparr>) = phase_follows s" "stage (s\<lparr>sl_driver := d\<rparr>) = stage s"
  "all_events S H (s\<lparr>sl_driver := d\<rparr>) = all_events S H s"
  "phase_follows (s\<lparr>sl_classifier := c\<rparr>) = phase_follows s" "stage (s\<lparr>sl_classifier := c\<rparr>) = stage s"
  "all_events S H (s\<lparr>sl_classifier := c\<rparr>) = all_events S H s"
  "phase_follows (s\<lparr>sl_read_buffer := b\<rparr>) = phase_follows s" "stage (s\<lparr>sl_read_buffer := b\<rparr>) = stage s"
  "all_events S H (s\<lparr>sl_read_buffer := b\<rparr>) = all_events S H s"
  "phase_follows (s\<lparr>sl_decoder_pending := p\<rparr>) = phase_follows s" "stage (s\<lparr>sl_decoder_pending := p\<rparr>) = stage s"
  "all_events S H (s\<lparr>sl_decoder_pending := p\<rparr>) = all_events S H s"
  "phase_follows (s\<lparr>sl_io_preference := i\<rparr>) = phase_follows s" "stage (s\<lparr>sl_io_preference := i\<rparr>) = stage s"
  "all_events S H (s\<lparr>sl_io_preference := i\<rparr>) = all_events S H s"
  "phase_follows (s\<lparr>sl_transport_diagnostic := td\<rparr>) = phase_follows s" "stage (s\<lparr>sl_transport_diagnostic := td\<rparr>) = stage s"
  "all_events S H (s\<lparr>sl_transport_diagnostic := td\<rparr>) = all_events S H s"
  "phase_follows (s\<lparr>sl_transport_pressure := tp\<rparr>) = phase_follows s" "stage (s\<lparr>sl_transport_pressure := tp\<rparr>) = stage s"
  "all_events S H (s\<lparr>sl_transport_pressure := tp\<rparr>) = all_events S H s"
  "phase_follows (s\<lparr>sl_transport_retained_limit := l\<rparr>) = phase_follows s" "stage (s\<lparr>sl_transport_retained_limit := l\<rparr>) = stage s"
  "all_events S H (s\<lparr>sl_transport_retained_limit := l\<rparr>) = all_events S H s"
  "phase_follows (s\<lparr>sl_transport_contract_diverged := cd\<rparr>) = phase_follows s" "stage (s\<lparr>sl_transport_contract_diverged := cd\<rparr>) = stage s"
  "all_events S H (s\<lparr>sl_transport_contract_diverged := cd\<rparr>) = all_events S H s"
  "stage (s\<lparr>sl_close_request := cr\<rparr>) = stage s" "all_events S H (s\<lparr>sl_close_request := cr\<rparr>) = all_events S H s"
  "stage (s\<lparr>sl_drain_deadline := dd\<rparr>) = stage s" "all_events S H (s\<lparr>sl_drain_deadline := dd\<rparr>) = all_events S H s"
  "stage (s\<lparr>sl_state := st\<rparr>) = stage s" "all_events S H (s\<lparr>sl_state := st\<rparr>) = all_events S H s"
  "stage (s\<lparr>sl_timers := ti\<rparr>) = stage s" "all_events S H (s\<lparr>sl_timers := ti\<rparr>) = all_events S H s"
  "stage (s\<lparr>sl_deadlines := en\<rparr>) = stage s" "all_events S H (s\<lparr>sl_deadlines := en\<rparr>) = all_events S H s"
  by (simp_all add: phase_follows_def stage_def all_events_def Let_def split: ConnectionPhase.split)

lemma running_frame [simp, frame_simps]:
  "slot_running S V H (s\<lparr>sl_driver := d\<rparr>) = slot_running S V H s"
  "slot_running S V H (s\<lparr>sl_classifier := c\<rparr>) = slot_running S V H s"
  "slot_running S V H (s\<lparr>sl_read_buffer := b\<rparr>) = slot_running S V H s"
  "slot_running S V H (s\<lparr>sl_decoder_pending := p\<rparr>) = slot_running S V H s"
  "slot_running S V H (s\<lparr>sl_io_preference := i\<rparr>) = slot_running S V H s"
  "slot_running S V H (s\<lparr>sl_transport_diagnostic := td\<rparr>) = slot_running S V H s"
  "slot_running S V H (s\<lparr>sl_transport_pressure := tp\<rparr>) = slot_running S V H s"
  "slot_running S V H (s\<lparr>sl_transport_retained_limit := l\<rparr>) = slot_running S V H s"
  "slot_running S V H (s\<lparr>sl_transport_contract_diverged := cd\<rparr>) = slot_running S V H s"
  by (simp_all add: slot_running_def)

lemma record_failure_running [simp]:
  "slot_running S V H (record_transport_failure d s) = slot_running S V H s"
  "slot_books S V H (record_transport_failure d s) = slot_books S V H s"
  "lost_books S V H (record_transport_failure d s) = lost_books S V H s"
  "sl_state (record_transport_failure d s) = sl_state s" "sl_core (record_transport_failure d s) = sl_core s"
  "sl_limits (record_transport_failure d s) = sl_limits s"
  by (simp_all add: record_transport_failure_def)

section \<open>Publishing an event\<close>

definition event_overflow :: "ConnectionSlotLimits \<Rightarrow> EngineError set" where
  "event_overflow l =
     (if pl_lifecycle_events (sl_publication l) < 4
      then {EngInvariant (LifecyclePublication failure) | failure. True} else {})"

lemma publish_sequenced_exact:
  assumes S: "services_ok S V" and cfg: "configured V s"
    and none: "items (sv_events S) (sl_recovery_events s) = []"
    and ev: "events_ok n (slot_epoch s) (all_events S H s) (sl_event_sequence s)" "n < 4"
    and f: "\<And>q ep. ev_rank (f q ep) = n \<and> ev_sequence (f q ep) = q \<and> ev_epoch (f q ep) = ep"
  obtains r lb rb q where
    "publish_sequenced S f s = (r, s\<lparr>sl_lifecycle := lb, sl_recovery_events := rb, sl_event_sequence := q\<rparr>)"
    "events_ok (Suc n) (slot_epoch s) (sh_seen H @ items (sv_events S) lb @ items (sv_events S) rb) q"
    "vw_event_limits V lb = vw_event_limits V (sl_lifecycle s)"
    "vw_event_limits V rb = vw_event_limits V (sl_recovery_events s)"
    "r = Inr () \<and> items (sv_events S) rb = [] \<or> (\<exists>e \<in> event_overflow (sl_limits s). r = Inl e)"
proof -
  define q where "q = (of_nat (Suc (length (all_events S H s))) :: u64)"
  define event where "event = f q (slot_epoch s)"
  have seq: "next_event_sequence s = Inr q"
    using small_sequence [OF ev] by (simp add: next_event_sequence_def q_def)
  have event: "ev_rank event = n" "ev_sequence event = q" "ev_epoch event = slot_epoch s"
    using f by (simp_all add: event_def)
  have snoc: "events_ok (Suc n) (slot_epoch s) (all_events S H s @ [event]) q"
    using events_ok_snoc [OF ev(1) event(1,3)] event(2) by (simp add: q_def)
  have all: "all_events S H s = sh_seen H @ items (sv_events S) (sl_lifecycle s)"
    using none by (simp add: all_events_def)
  have laws: "batch_laws (sv_events S) (vw_event_limits V) (\<lambda>_. 0)" by (rule services_okD [OF S])
  show ?thesis
  proof (cases "length (items (sv_events S) (sl_lifecycle s)) < fst (vw_event_limits V (sl_lifecycle s))")
    case True
    obtain lb where lb: "eb_try_push (sv_events S) 0 event (sl_lifecycle s) = (Inr (), lb)"
      "items (sv_events S) lb = items (sv_events S) (sl_lifecycle s) @ [event]"
      "vw_event_limits V lb = vw_event_limits V (sl_lifecycle s)"
      by (rule batch_accepts [OF laws True, where x = event]) simp_all
    have "publish_sequenced S f s = (Inr (), s\<lparr>sl_lifecycle := lb, sl_recovery_events := sl_recovery_events s,
        sl_event_sequence := q\<rparr>)"
      using lb(1) by (simp add: publish_sequenced_def seq publish_event_def event(2) flip: event_def)
    then show ?thesis
      using snoc lb none all by (intro that [of _ q "sl_recovery_events s" lb]) auto
  next
    case False
    obtain failure lb where lb: "eb_try_push (sv_events S) 0 event (sl_lifecycle s) = (Inl (event, failure), lb)"
      "items (sv_events S) lb = items (sv_events S) (sl_lifecycle s)"
      "vw_event_limits V lb = vw_event_limits V (sl_lifecycle s)"
      by (rule batch_refuses [OF laws, where x = event and b = "sl_lifecycle s"]) (use False in simp_all)
    have room: "length (items (sv_events S) (sl_recovery_events s)) < fst (vw_event_limits V (sl_recovery_events s))"
      using cfg none by (simp add: configured_def recovery_lifecycle_limits_def)
    obtain rb where rb: "eb_try_push (sv_events S) 0 event (sl_recovery_events s) = (Inr (), rb)"
      "items (sv_events S) rb = items (sv_events S) (sl_recovery_events s) @ [event]"
      "vw_event_limits V rb = vw_event_limits V (sl_recovery_events s)"
      by (rule batch_accepts [OF laws room, where x = event]) simp_all
    have "length (items (sv_events S) (sl_lifecycle s)) \<le> n"
      using events_ok_length [OF ev(1)] all by simp
    then have "pl_lifecycle_events (sl_publication (sl_limits s)) < 4"
      using False ev(2) cfg by (simp add: configured_def lifecycle_limits_def)
    then have over: "EngInvariant (LifecyclePublication failure) \<in> event_overflow (sl_limits s)"
      by (auto simp: event_overflow_def)
    have "publish_sequenced S f s = (Inl (EngInvariant (LifecyclePublication failure)),
        s\<lparr>sl_lifecycle := lb, sl_recovery_events := rb, sl_event_sequence := q\<rparr>)"
      using lb(1) rb(1) by (simp add: publish_sequenced_def seq publish_event_def event(2) flip: event_def)
    then show ?thesis
      using snoc lb rb none all over by (intro that [of _ q rb lb]) auto
  qed
qed

end
