(* ===== verification/SlotSteps.thy ===== *)
theory SlotSteps
  imports SlotInv
begin

text \<open>
  The operations of a slot keep its invariant: the interpretation of what the owner answers, the
  control operations, admission, settlement and draining.
\<close>

section \<open>Interpreting an answer of the owner\<close>

definition missing_bound :: "bool \<Rightarrow> EngineError set" where
  "missing_bound b = (if b then {EngInvariant MissingShutdownDeadline} else {})"

text \<open>
  The state between the owner's answer and its interpretation: the effects \<open>es\<close> are owed. A closure
  as drained needs the drain deadline, unless \<open>b\<close> says that the caller asked for that reason.
\<close>

definition closing_owed ::
  "bool \<Rightarrow> ('g, 'd, 'r, 'e, 'c, 'q, 'k, 'o, 'l) services \<Rightarrow> 'r slot_history \<Rightarrow> CloseReason \<Rightarrow>
   ('g, 'd, 'c, 'q, 'k, 'o, 'l) ConnectionSlot \<Rightarrow> bool" where
  "closing_owed b S H reason s \<longleftrightarrow>
     (let m = core_machine (sl_core s) in
      m_phase m = Closing \<and> m_gate m \<noteq> Draining \<and> m_close_reason m = Some reason \<and>
      sl_close_request s = None \<and> (reason = Drained \<longrightarrow> sl_drain_deadline s \<noteq> None \<or> b) \<and>
      events_ok 2 (slot_epoch s) (all_events S H s) (sl_event_sequence s))"

definition owed ::
  "bool \<Rightarrow> ('g, 'd, 'r, 'e, 'c, 'q, 'k, 'o, 'l) services \<Rightarrow> ('q, 'k, 'o, 'l) views \<Rightarrow>
   'r slot_history \<Rightarrow> 'r ConnectionEffect list \<Rightarrow>
   ('g, 'd, 'c, 'q, 'k, 'o, 'l) ConnectionSlot \<Rightarrow> bool" where
  "owed b S V H es s \<longleftrightarrow>
     sl_state s = Running \<and> configured V s \<and> simulates S H (outcomes_in es) s \<and>
     roomy S H (outcomes_in es) s \<and>
     (\<exists>due. mirrored V due s \<and> due |` (- set (cancel_ids es)) = due_of s) \<and>
     (\<forall>e \<in> set es. \<not> is_ScheduleDeadline e \<and> \<not> is_DiscardWrite e) \<and>
     items (sv_events S) (sl_recovery_events s) = [] \<and>
     (close_reasons es = [] \<and> phase_follows s \<and>
        events_ok (stage s) (slot_epoch s) (all_events S H s) (sl_event_sequence s) \<or>
      (\<exists>reason. close_reasons es = [reason] \<and> closing_owed b S H reason s))"

lemma stage_le: "stage s \<le> 4"
  by (simp add: stage_def split: ConnectionPhase.split)

lemma sum_list_bounded: "\<forall>x \<in> set xs. f x \<le> (b :: nat) \<Longrightarrow> sum_list (map f xs) \<le> b * length xs"
  by (induction xs) auto

text \<open>The books after the effects have reached timers and outcomes.\<close>

lemma owed_effects:
  assumes S: "services_ok S V" and o: "owed b S V H es s"
  obtains entries timers batch where
    "fold (interpret_effect S) es (None, None, s) =
       (if close_reasons es = [] then None else Some (last (close_reasons es)), None,
        s\<lparr>sl_deadlines := entries, sl_timers := timers, sl_outcomes := batch\<rparr>)"
    "configured V (s\<lparr>sl_deadlines := entries, sl_timers := timers, sl_outcomes := batch\<rparr>)"
    "simulates S H [] (s\<lparr>sl_deadlines := entries, sl_timers := timers, sl_outcomes := batch\<rparr>)"
    "roomy S H [] (s\<lparr>sl_deadlines := entries, sl_timers := timers, sl_outcomes := batch\<rparr>)"
    "mirrored V (due_of s) (s\<lparr>sl_deadlines := entries, sl_timers := timers, sl_outcomes := batch\<rparr>)"
proof -
  let ?charge = "engine_outcome_retained_bytes (sv_frame_retained S)"
  let ?all = "items (sv_outcomes S) (sl_outcomes s) @ outcomes_in es"
  have cfg: "configured V s" and room: "roomy S H (outcomes_in es) s" and sim: "simulates S H (outcomes_in es) s"
    and plain: "\<forall>e \<in> set es. \<not> is_ScheduleDeadline e \<and> \<not> is_DiscardWrite e"
    using o by (simp_all add: owed_def)
  obtain due where due: "mirrored V due s" "due |` (- set (cancel_ids es)) = due_of s"
    using o by (auto simp: owed_def)
  have lim: "vw_outcome_limits V (sl_outcomes s) =
      (operation_capacity (sl_limits s), reply_bytes (sl_limits s) * operation_capacity (sl_limits s))"
    using cfg by (simp add: configured_def outcome_limits_def operation_capacity_def)
  have len: "length ?all \<le> operation_capacity (sl_limits s)" using room by (simp add: roomy_def)
  have "sum_list (map ?charge ?all) \<le> reply_bytes (sl_limits s) * length ?all"
    using room by (intro sum_list_bounded) (simp add: roomy_def)
  also have "\<dots> \<le> reply_bytes (sl_limits s) * operation_capacity (sl_limits s)"
    using len by (rule mult_le_mono2)
  finally have bytes: "sum_list (map ?charge ?all) \<le> snd (vw_outcome_limits V (sl_outcomes s))" by (simp add: lim)
  obtain entries timers batch where fold: "fold (interpret_effect S) es (None, None, s) =
       (if close_reasons es = [] then None else Some (last (close_reasons es)), None,
        s\<lparr>sl_deadlines := entries, sl_timers := timers, sl_outcomes := batch\<rparr>)"
    and after: "mirrors (vw_armed V timers) entries (slot_epoch s) (due |` (- set (cancel_ids es)))"
      "vw_capacity V timers = vw_capacity V (sl_timers s)" "items (sv_outcomes S) batch = ?all"
      "vw_outcome_limits V batch = vw_outcome_limits V (sl_outcomes s)"
    using interpret_effects_exact [OF S plain due(1) [unfolded mirrored_def], where closing = None and failure = None]
      len bytes lim by auto
  let ?s = "s\<lparr>sl_deadlines := entries, sl_timers := timers, sl_outcomes := batch\<rparr>"
  have outs: "all_outcomes S H ?s = all_outcomes S H s @ outcomes_in es" by (simp add: all_outcomes_def after(3))
  show ?thesis
  proof (rule that [OF fold])
    show "configured V ?s" using cfg after by (simp add: configured_def)
    show "simulates S H [] ?s" using sim by (simp add: simulates_def outs)
    show "roomy S H [] ?s" using room by (auto simp: roomy_def outs after(3))
    show "mirrored V (due_of s) ?s" using after(1) due(2) by (simp add: mirrored_def)
  qed
qed

lemma books_intro:
  assumes "configured V s" "simulates S H [] s" "roomy S H [] s" "mirrored V (due_of s) s"
    "events_ok 4 (slot_epoch s) (all_events S H s) (sl_event_sequence s)"
  shows "slot_books S V H s"
  using assms by (simp add: slot_books_def)

text \<open>Publications, timers and outcomes do not depend on the fields a closure sets.\<close>

lemma effect_frame:
  "due_of (s\<lparr>sl_deadlines := entries, sl_timers := timers, sl_outcomes := batch\<rparr>) = due_of s"
  "phase_follows (s\<lparr>sl_deadlines := entries, sl_timers := timers, sl_outcomes := batch\<rparr>) = phase_follows s"
  "stage (s\<lparr>sl_deadlines := entries, sl_timers := timers, sl_outcomes := batch\<rparr>) = stage s"
  "all_events S H (s\<lparr>sl_deadlines := entries, sl_timers := timers, sl_outcomes := batch\<rparr>) = all_events S H s"
  by (simp_all add: due_of_def phase_follows_def stage_def all_events_def Let_def split: ConnectionPhase.split)

lemma event_frame:
  "configured V (s\<lparr>sl_lifecycle := lb, sl_recovery_events := rb, sl_event_sequence := q\<rparr>) \<longleftrightarrow>
     configured V (s\<lparr>sl_lifecycle := lb, sl_recovery_events := rb\<rparr>)"
  "simulates S H p (s\<lparr>sl_lifecycle := lb, sl_recovery_events := rb, sl_event_sequence := q\<rparr>) = simulates S H p s"
  "roomy S H p (s\<lparr>sl_lifecycle := lb, sl_recovery_events := rb, sl_event_sequence := q\<rparr>) = roomy S H p s"
  "mirrored V due (s\<lparr>sl_lifecycle := lb, sl_recovery_events := rb, sl_event_sequence := q\<rparr>) = mirrored V due s"
  "due_of (s\<lparr>sl_lifecycle := lb, sl_recovery_events := rb, sl_event_sequence := q\<rparr>) = due_of s"
  by (simp_all add: configured_def simulates_def roomy_def mirrored_def due_of_def all_outcomes_def)

text \<open>An event published on good books leaves good books, wherever it went.\<close>

lemma books_event:
  assumes "configured V s" "simulates S H [] s" "roomy S H [] s" "mirrored V (due_of s) s"
    and ev: "events_ok n (slot_epoch s) (sh_seen H @ items (sv_events S) lb @ items (sv_events S) rb) q" "n \<le> 4"
    and lim: "vw_event_limits V lb = vw_event_limits V (sl_lifecycle s)"
      "vw_event_limits V rb = vw_event_limits V (sl_recovery_events s)"
  shows "slot_books S V H (s\<lparr>sl_lifecycle := lb, sl_recovery_events := rb, sl_event_sequence := q\<rparr>)"
proof (rule books_intro)
  show "configured V (s\<lparr>sl_lifecycle := lb, sl_recovery_events := rb, sl_event_sequence := q\<rparr>)"
    using assms(1) lim by (simp add: configured_def)
qed (use assms events_ok_mono [OF ev] in \<open>simp_all add: event_frame\<close>, simp add: all_events_def)

definition requested_shutdown ::
  "CloseReason \<Rightarrow> ('g, 'd, 'c, 'q, 'k, 'o, 'l) ConnectionSlot \<Rightarrow> ShutdownState" where
  "requested_shutdown reason s =
     (if sl_transport_state s = TransportOpen \<and> reason = Drained
      then (case sl_drain_deadline s of None \<Rightarrow> ShutImmediate | Some deadline \<Rightarrow> ShutPending deadline)
      else ShutImmediate)"

lemma finish_close_exact:
  assumes "sl_close_request s = None" "publish_closing S reason s = (r, s1)"
  shows "finish_close S (Some reason) None s =
    ((case r of
        Inl e \<Rightarrow> Some e
      | Inr _ \<Rightarrow>
          if sl_transport_state s1 = TransportOpen \<and> reason = Drained \<and> sl_drain_deadline s1 = None
          then Some (EngInvariant MissingShutdownDeadline) else None),
     s1\<lparr>sl_drain_deadline := None, sl_transport_state := TransportClosing,
        sl_close_request := Some (DirCore reason (requested_shutdown reason s1))\<rparr>)"
  using assms
  by (cases "sl_drain_deadline s1")
    (auto simp: finish_close_def requested_shutdown_def retain_first_def Let_def split: sum.split)

lemma finish_close_upholds:
  assumes S: "services_ok S V" and run: "sl_state s = Running"
    and books: "configured V s" "simulates S H [] s" "roomy S H [] s" "mirrored V (due_of s) s"
    and none: "items (sv_events S) (sl_recovery_events s) = []" and c: "closing_owed b S H reason s"
  shows "upholds (event_overflow (sl_limits s) \<union> missing_bound b) S V H
    (finish_interpretation S (Some reason, None, s))"
proof -
  let ?m = "core_machine (sl_core s)"
  have c: "m_phase ?m = Closing" "m_gate ?m \<noteq> Draining" "m_close_reason ?m = Some reason"
    "sl_close_request s = None" "reason = Drained \<Longrightarrow> sl_drain_deadline s \<noteq> None \<or> b"
    "events_ok 2 (slot_epoch s) (all_events S H s) (sl_event_sequence s)"
    using c by (simp_all add: closing_owed_def Let_def)
  obtain r lb rb q where ev: "publish_closing S reason s =
      (r, s\<lparr>sl_lifecycle := lb, sl_recovery_events := rb, sl_event_sequence := q\<rparr>)"
    "events_ok (Suc 2) (slot_epoch s) (sh_seen H @ items (sv_events S) lb @ items (sv_events S) rb) q"
    "vw_event_limits V lb = vw_event_limits V (sl_lifecycle s)"
    "vw_event_limits V rb = vw_event_limits V (sl_recovery_events s)"
    "r = Inr () \<and> items (sv_events S) rb = [] \<or> (\<exists>e \<in> event_overflow (sl_limits s). r = Inl e)"
    unfolding publish_closing_def
    by (rule publish_sequenced_exact [OF S books(1) none c(6), where f = "\<lambda>q ep. EvClosing q ep reason"]) simp_all
  let ?s = "s\<lparr>sl_lifecycle := lb, sl_recovery_events := rb, sl_event_sequence := q\<rparr>"
  let ?final = "\<lambda>shutdown. ?s\<lparr>sl_drain_deadline := None, sl_transport_state := TransportClosing,
      sl_close_request := Some (DirCore reason shutdown)\<rparr>"
  have final: "slot_books S V H (?final shutdown)" "sl_state (?final shutdown) = Running" for shutdown
    using books_event [OF books ev(2) _ ev(3,4)] run by simp_all
  have running: "slot_running S V H (?final shutdown)" if "items (sv_events S) rb = []" for shutdown
    using final [of shutdown] that ev(2) c(1-3)
    by (simp add: slot_running_def phase_follows_def stage_def all_events_def Let_def numeral_3_eq_3 numeral_2_eq_2)
  note out = finish_close_exact [OF c(4) ev(1)]
  show ?thesis
    using c(5) ev(5) final running
    by (auto simp: finish_interpretation_def out missing_bound_def split: if_splits)
qed

theorem interpret_upholds:
  assumes S: "services_ok S V" and o: "owed b S V H es s"
  shows "upholds (event_overflow (sl_limits s) \<union> missing_bound b) S V H
    (finish_interpretation S (fold (interpret_effect S) es (None, None, s)))"
proof -
  obtain entries timers batch where fold: "fold (interpret_effect S) es (None, None, s) =
       (if close_reasons es = [] then None else Some (last (close_reasons es)), None,
        s\<lparr>sl_deadlines := entries, sl_timers := timers, sl_outcomes := batch\<rparr>)"
    and books: "configured V (s\<lparr>sl_deadlines := entries, sl_timers := timers, sl_outcomes := batch\<rparr>)"
      "simulates S H [] (s\<lparr>sl_deadlines := entries, sl_timers := timers, sl_outcomes := batch\<rparr>)"
      "roomy S H [] (s\<lparr>sl_deadlines := entries, sl_timers := timers, sl_outcomes := batch\<rparr>)"
      "mirrored V (due_of s) (s\<lparr>sl_deadlines := entries, sl_timers := timers, sl_outcomes := batch\<rparr>)"
    by (rule owed_effects [OF S o])
  let ?s = "s\<lparr>sl_deadlines := entries, sl_timers := timers, sl_outcomes := batch\<rparr>"
  have o': "sl_state ?s = Running" "items (sv_events S) (sl_recovery_events ?s) = []"
    using o by (simp_all add: owed_def)
  have "close_reasons es = [] \<and> phase_follows s \<and>
        events_ok (stage s) (slot_epoch s) (all_events S H s) (sl_event_sequence s) \<or>
      (\<exists>reason. close_reasons es = [reason] \<and> closing_owed b S H reason s)"
    using o by (simp add: owed_def)
  then show ?thesis
  proof (elim disjE exE conjE)
    assume quiet: "close_reasons es = []" "phase_follows s"
      "events_ok (stage s) (slot_epoch s) (all_events S H s) (sl_event_sequence s)"
    have "slot_books S V H ?s"
      using books events_ok_mono [OF quiet(3) stage_le]
      by (intro books_intro) (simp_all add: effect_frame)
    with o' quiet show ?thesis
      by (simp add: fold finish_interpretation_def finish_close_def slot_running_def effect_frame)
  next
    fix reason assume c: "close_reasons es = [reason]" "closing_owed b S H reason s"
    then have "closing_owed b S H reason ?s" by (simp add: closing_owed_def Let_def all_events_def)
    with finish_close_upholds [OF S o'(1) books(1-3) _ o'(2)] books(4) c(1) show ?thesis
      by (simp add: fold effect_frame)
  qed
qed

section \<open>From a running slot to an owed answer\<close>

lemma removes_length: "removes f xs ds ys \<Longrightarrow> length ds + length ys \<le> length xs"
proof -
  assume r: "removes f xs ds ys"
  then have ds: "distinct ds" "set ds \<subseteq> f ` set xs" "ys = filter (\<lambda>x. f x \<notin> set ds) xs" by (simp_all add: removes_def)
  let ?zs = "filter (\<lambda>x. f x \<in> set ds) xs"
  have "length ds = card (set ds)" using ds(1) by (simp add: distinct_card)
  also have "\<dots> \<le> card (f ` set ?zs)" using ds(2) by (intro card_mono) auto
  also have "\<dots> \<le> length ?zs" by (metis card_length set_map length_map)
  finally show ?thesis using sum_length_filter_compl [of "\<lambda>x. f x \<in> set ds" xs] by (simp add: ds(3))
qed

lemma due_of_settled:
  assumes "distinct (map rec_id rs)" "distinct (map rec_id rs')" "set (timed rs') \<subseteq> set (timed rs)"
    "set (op_ids rs') = set (op_ids rs) - C"
  shows "map_of (timed rs') = map_of (timed rs) |` (- C)"
proof
  fix i
  have d: "distinct (map fst (timed rs))" "distinct (map fst (timed rs'))" using assms(1,2) by (simp_all add: timed_def comp_def)
  have ids: "fst ` set (timed rs') = set (op_ids rs')" "fst ` set (timed rs) = set (op_ids rs)"
    by (force simp: timed_def op_ids_def)+
  show "map_of (timed rs') i = (map_of (timed rs) |` (- C)) i"
  proof (cases "i \<in> set (op_ids rs')")
    case True
    then obtain x where x: "(i, x) \<in> set (timed rs')" using ids by force
    then have "(i, x) \<in> set (timed rs)" using assms(3) by blast
    with x d True assms(4) show ?thesis by (simp add: restrict_map_def)
  next
    case False
    then have "map_of (timed rs') i = None" using ids by (simp add: map_of_eq_None_iff)
    moreover have "map_of (timed rs) i = None \<or> i \<in> C"
      using False assms(4) ids by (auto simp: map_of_eq_None_iff)
    ultimately show ?thesis by (auto simp: restrict_map_def)
  qed
qed

lemma sent_back_charge:
  assumes "\<forall>e \<in> set es. tidy_effect F m e" "\<forall>f \<in> F. retained f \<le> limit" "o' \<in> set (outcomes_in es)"
  shows "engine_outcome_retained_bytes retained o' \<le> limit" "eo_epoch o' = m_epoch m"
proof -
  obtain ep i outcome where e: "PublishOutcome ep i outcome \<in> set es"
    "o' = \<lparr>eo_epoch = ep, eo_operation = i, eo_outcome = outcome\<rparr>"
    using assms(3) by (auto simp: outcomes_in_def split: ConnectionEffect.splits)
  then have t: "tidy_effect F m (PublishOutcome ep i outcome)" using assms(1) by blast
  show "engine_outcome_retained_bytes retained o' \<le> limit"
    using t assms(2) by (cases outcome) (simp_all add: e(2) engine_outcome_retained_bytes_def)
  show "eo_epoch o' = m_epoch m" using t by (simp add: e(2) tidy_effect_def)
qed

text \<open>
  The owner's side of one answer, as the slot needs it: what it means for timers and outcomes, and
  for the phase.
\<close>

definition owner_settles ::
  "'g externals \<Rightarrow> 'r set \<Rightarrow> Reservation multiset \<Rightarrow> ('f, 'g) ConnectionCore \<Rightarrow>
   'r ConnectionEffect list \<Rightarrow> ('f, 'g) ConnectionCore \<Rightarrow> bool" where
  "owner_settles X F P c es c' \<longleftrightarrow>
     core_ok X c P \<and> core_ok X c' P \<and> core_limits c' = core_limits c \<and> measured c' \<subseteq> measured c \<and>
     (\<forall>e \<in> set es. tidy_effect F (core_machine c) e) \<and> m_epoch (core_machine c') = m_epoch (core_machine c) \<and>
     set (timed (pending (core_machine c'))) \<subseteq> set (timed (pending (core_machine c))) \<and> discard_ids es = [] \<and>
     (\<exists>ow. removes fst ow (cancel_ids es) (owned (pending (core_machine c'))) \<and>
        map fst ow = op_ids (pending (core_machine c))) \<and>
     removes id (live_ids (pending (core_machine c))) (pub_ids es) (live_ids (pending (core_machine c')))"

definition owner_step ::
  "'g externals \<Rightarrow> 'r set \<Rightarrow> bool \<Rightarrow> Reservation multiset \<Rightarrow> ('f, 'g) ConnectionCore \<Rightarrow>
   'r ConnectionEffect list \<Rightarrow> ('f, 'g) ConnectionCore \<Rightarrow> bool" where
  "owner_step X F b P c es c' \<longleftrightarrow>
     owner_settles X F P c es c' \<and> tidy F b (core_machine c) es (core_machine c')"

lemma machine_lifecycle: "core_ok X c P \<Longrightarrow> lifecycle_ok (core_machine c) \<and> distinct (map rec_id (pending (core_machine c)))"
  using core_ok_parts(2) by (fastforce simp: machine_ok_def machine_core_def)

lemma no_discards: "discard_ids es = [] \<Longrightarrow> e \<in> set es \<Longrightarrow> \<not> is_DiscardWrite e"
  using visible_plain [of es] by (auto simp: visible_def filter_id_conv)

lemma owner_settles_due:
  assumes st: "owner_settles X F P c es c'"
  shows "map_of (timed (pending (core_machine c'))) =
    map_of (timed (pending (core_machine c))) |` (- set (cancel_ids es))"
proof (rule due_of_settled)
  have ok: "core_ok X c P" "core_ok X c' P" using st by (simp_all add: owner_settles_def)
  obtain ow where ow: "removes fst ow (cancel_ids es) (owned (pending (core_machine c')))"
    "map fst ow = op_ids (pending (core_machine c))"
    using st by (auto simp: owner_settles_def)
  show "distinct (map rec_id (pending (core_machine c)))" "distinct (map rec_id (pending (core_machine c')))"
    using machine_lifecycle [OF ok(1)] machine_lifecycle [OF ok(2)] by simp_all
  show "set (timed (pending (core_machine c'))) \<subseteq> set (timed (pending (core_machine c)))"
    using st by (simp add: owner_settles_def)
  have "set (op_ids (pending (core_machine c'))) = fst ` set (owned (pending (core_machine c')))" by simp
  also have "\<dots> = fst ` set ow - set (cancel_ids es)" using removes_set [OF ow(1)] by auto
  also have "fst ` set ow = set (op_ids (pending (core_machine c)))" using ow(2) by (metis set_map)
  finally show "set (op_ids (pending (core_machine c'))) = set (op_ids (pending (core_machine c))) - set (cancel_ids es)" .
qed

lemma owner_settles_room:
  assumes st: "owner_settles X F P (sl_core s) es c'" and room: "roomy S H [] s"
    and F: "\<forall>f \<in> F. sv_frame_retained S f \<le> reply_bytes (sl_limits s)"
  shows "roomy S H (outcomes_in es) (s\<lparr>sl_core := c'\<rparr>)"
proof -
  have tidy: "\<forall>e \<in> set es. tidy_effect F (core_machine (sl_core s)) e"
    "slot_epoch (s\<lparr>sl_core := c'\<rparr>) = slot_epoch s"
    and live: "removes id (live_ids (pending (core_machine (sl_core s)))) (pub_ids es) (live_ids (pending (core_machine c')))"
    using st by (simp_all add: owner_settles_def)
  have "length (outcomes_in es) + length (live_ids (pending (core_machine c'))) \<le>
      length (live_ids (pending (core_machine (sl_core s))))"
    using removes_length [OF live] outcomes_in_published(3) [of es] by simp
  moreover have "all_outcomes S H (s\<lparr>sl_core := c'\<rparr>) = all_outcomes S H s" by (simp add: all_outcomes_def)
  ultimately show ?thesis
    using room sent_back_charge [OF tidy(1) F] tidy(2) by (auto simp: roomy_def)
qed

text \<open>Everything that is owed except the phase.\<close>

lemma owed_books:
  assumes run: "slot_running S V H s" and st: "owner_settles (sv_externals S) F P (sl_core s) es c'"
    and F: "\<forall>f \<in> F. sv_frame_retained S f \<le> reply_bytes (sl_limits s)"
    and sim: "simulates S H (outcomes_in es) (s\<lparr>sl_core := c'\<rparr>)"
    and phase: "close_reasons es = [] \<and> phase_follows (s\<lparr>sl_core := c', sl_drain_deadline := dd\<rparr>) \<and>
        events_ok (stage (s\<lparr>sl_core := c'\<rparr>)) (slot_epoch s) (all_events S H s) (sl_event_sequence s) \<or>
      (\<exists>reason. close_reasons es = [reason] \<and> closing_owed b S H reason (s\<lparr>sl_core := c', sl_drain_deadline := dd\<rparr>))"
  shows "owed b S V H es (s\<lparr>sl_core := c', sl_drain_deadline := dd\<rparr>)"
proof -
  let ?s = "s\<lparr>sl_core := c', sl_drain_deadline := dd\<rparr>"
  note r = slot_runningD [OF run]
  have st': "core_limits c' = core_limits (sl_core s)" "measured c' \<subseteq> measured (sl_core s)" "discard_ids es = []"
    "\<forall>e \<in> set es. tidy_effect F (core_machine (sl_core s)) e" "m_epoch (core_machine c') = slot_epoch s"
    using st by (simp_all add: owner_settles_def)
  have cfg: "configured V ?s" using r(6) st'(1,2) by (auto simp: configured_def frames_stable_def)
  have due: "mirrored V (due_of s) ?s" "due_of s |` (- set (cancel_ids es)) = due_of ?s"
    using r(9) st'(5) owner_settles_due [OF st] by (simp_all add: mirrored_def due_of_def)
  have plain: "\<forall>e \<in> set es. \<not> is_ScheduleDeadline e \<and> \<not> is_DiscardWrite e"
    using st'(4) no_discards [OF st'(3)] by (auto simp: tidy_effect_def)
  have room: "roomy S H (outcomes_in es) ?s" and sim': "simulates S H (outcomes_in es) ?s"
    using owner_settles_room [OF st r(8) F] sim by (simp_all add: roomy_def simulates_def all_outcomes_def)
  have "slot_epoch ?s = slot_epoch s" "all_events S H ?s = all_events S H s" "stage ?s = stage (s\<lparr>sl_core := c'\<rparr>)"
    using st'(5) by (simp_all add: all_events_def stage_def)
  then show ?thesis
    unfolding owed_def using r(1,4) cfg sim' room due plain phase by auto
qed

text \<open>The phase of the slot after an answer that closes nothing.\<close>

lemma owner_step_quiet:
  assumes st: "owner_step X F b P (sl_core s) es c'" and run: "phase_follows s"
    "events_ok (stage s) (slot_epoch s) (all_events S H s) (sl_event_sequence s)" and quiet: "close_reasons es = []"
  shows "phase_follows (s\<lparr>sl_core := c'\<rparr>)"
    "events_ok (stage (s\<lparr>sl_core := c'\<rparr>)) (slot_epoch (s\<lparr>sl_core := c'\<rparr>)) (all_events S H (s\<lparr>sl_core := c'\<rparr>))
       (sl_event_sequence (s\<lparr>sl_core := c'\<rparr>))"
proof -
  let ?m = "core_machine (sl_core s)" and ?m' = "core_machine c'"
  have ok: "core_ok X (sl_core s) P" "core_ok X c' P" and tidy: "tidy F b ?m es ?m'"
    using st by (simp_all add: owner_step_def owner_settles_def)
  note t = tidy_parts [OF tidy]
  have phase: "m_phase ?m' = m_phase ?m"
    using t(4) t(8) quiet by (cases "m_phase ?m = Live") (auto simp: closure_of_def split: if_splits)
  have gate: "m_gate ?m' = m_gate ?m"
    using t(6) phase machine_lifecycle [OF ok(1)] machine_lifecycle [OF ok(2)]
    by (cases "m_phase ?m = Live") (auto simp: lifecycle_ok_def)
  have reason: "m_phase ?m \<noteq> Live \<Longrightarrow> m_close_reason ?m' = m_close_reason ?m" by (rule t(5))
  show "phase_follows (s\<lparr>sl_core := c'\<rparr>)"
    using run(1) phase gate reason by (auto simp: phase_follows_def Let_def split: ConnectionPhase.splits)
  have "stage (s\<lparr>sl_core := c'\<rparr>) = stage s" using phase gate by (simp add: stage_def)
  then show "events_ok (stage (s\<lparr>sl_core := c'\<rparr>)) (slot_epoch (s\<lparr>sl_core := c'\<rparr>)) (all_events S H (s\<lparr>sl_core := c'\<rparr>))
       (sl_event_sequence (s\<lparr>sl_core := c'\<rparr>))"
    using run(2) t(2) by (simp add: all_events_def)
qed

lemma owner_step_closing:
  assumes st: "owner_step X F b P (sl_core s) es c'" and run: "phase_follows s"
    "events_ok (stage s) (slot_epoch s) (all_events S H s) (sl_event_sequence s)" and closing: "close_reasons es \<noteq> []"
  obtains reason where "close_reasons es = [reason]" "closing_owed b S H reason (s\<lparr>sl_core := c'\<rparr>)"
proof -
  let ?m = "core_machine (sl_core s)" and ?m' = "core_machine c'"
  have ok: "core_ok X (sl_core s) P" "core_ok X c' P" and tidy: "tidy F b ?m es ?m'"
    using st by (simp_all add: owner_step_def owner_settles_def)
  note t = tidy_parts [OF tidy]
  have live: "m_phase ?m = Live" and gone: "m_phase ?m' \<noteq> Live" and es: "close_reasons es = [the (m_close_reason ?m')]"
    using t(8) closing by (auto simp: closure_of_def split: if_splits)
  have m': "m_phase ?m' = Closing" "m_gate ?m' = GateClosed" "m_close_reason ?m' \<noteq> None"
    using gone t(9) [OF live] machine_lifecycle [OF ok(2)]
    by (cases "m_phase ?m'"; simp add: lifecycle_ok_def)+
  have s: "sl_close_request s = None" "m_gate ?m = Draining \<longleftrightarrow> sl_drain_deadline s \<noteq> None"
    using run(1) live by (simp_all add: phase_follows_def Let_def)
  have "stage s \<le> 2" using live by (simp add: stage_def)
  from events_ok_mono [OF run(2) this] have ev: "events_ok 2 (slot_epoch s) (all_events S H s) (sl_event_sequence s)" .
  show ?thesis
  proof (rule that [OF es])
    show "closing_owed b S H (the (m_close_reason ?m')) (s\<lparr>sl_core := c'\<rparr>)"
      using m' s ev t(2,7) es by (auto simp: closing_owed_def all_events_def)
  qed
qed

theorem owed_answer:
  assumes run: "slot_running S V H s" and st: "owner_step (sv_externals S) F b P (sl_core s) es c'"
    and F: "\<forall>f \<in> F. sv_frame_retained S f \<le> reply_bytes (sl_limits s)"
    and sim: "simulates S H (outcomes_in es) (s\<lparr>sl_core := c'\<rparr>)"
  shows "owed b S V H es (s\<lparr>sl_core := c'\<rparr>)"
proof -
  note r = slot_runningD [OF run]
  have books: "owner_settles (sv_externals S) F P (sl_core s) es c'"
    and tidy: "tidy F b (core_machine (sl_core s)) es (core_machine c')" using st by (simp_all add: owner_step_def)
  have same: "s\<lparr>sl_core := c', sl_drain_deadline := sl_drain_deadline s\<rparr> = s\<lparr>sl_core := c'\<rparr>" by simp
  have "close_reasons es = [] \<and> phase_follows (s\<lparr>sl_core := c'\<rparr>) \<and>
        events_ok (stage (s\<lparr>sl_core := c'\<rparr>)) (slot_epoch s) (all_events S H s) (sl_event_sequence s) \<or>
      (\<exists>reason. close_reasons es = [reason] \<and> closing_owed b S H reason (s\<lparr>sl_core := c'\<rparr>))"
  proof (cases "close_reasons es = []")
    case True
    then show ?thesis
      using owner_step_quiet [OF st r(3,5)] tidy_parts(2) [OF tidy] by (simp add: all_events_def)
  next
    case False
    then show ?thesis by (metis owner_step_closing [OF st r(3,5)])
  qed
  then show ?thesis
    using owed_books [OF run books F sim, where dd = "sl_drain_deadline s" and b = b] unfolding same by blast
qed

section \<open>Answers to inputs, replies and write progress\<close>

lemma tidy_retype_effect: "tidy_effect {} m e \<Longrightarrow> tidy_effect {} m (retype_effect e)"
  by (cases e; cases "pub_outcome e") (auto simp: tidy_effect_def sent_back_def)

lemma tidy_retype:
  assumes "tidy {} b m es m'"
  shows "tidy {} b m (map retype_effect es) m'" "\<forall>e \<in> set es. sent_back {} e"
proof -
  show sb: "\<forall>e \<in> set es. sent_back {} e" using tidy_parts(1) [OF assms] by (auto simp: tidy_effect_def)
  show "tidy {} b m (map retype_effect es) m'"
    using assms by (auto simp: tidy_def retyped_lists(3) [OF sb] intro: tidy_retype_effect)
qed

lemma owner_step_unit:
  assumes ok: "core_ok X c P" "core_ok X c' P" and tidy: "tidy {} b (core_machine c) es (core_machine c')"
    and settles: "settles ow (live_ids (pending (core_machine c))) es (core_machine c')"
    and ow: "map fst ow = op_ids (pending (core_machine c))" and same: "same_epoch (core_machine c) (core_machine c')"
    and frames: "measured c' \<subseteq> measured c"
  shows "owner_step X {} b P c (map retype_effect es) c'"
  using ok settles ow same frames
  using tidy_parts(2,3) [OF tidy]
  by (auto simp: owner_step_def owner_settles_def settles_def same_epoch_def tidy_retype(1) [OF tidy]
      tidy_parts(1) [OF tidy_retype(1) [OF tidy]] retyped_lists [OF tidy_retype(2) [OF tidy]])

text \<open>The owner inside a running slot is a reachable one.\<close>

lemma running_owner:
  assumes "services_ok S V" "slot_running S V H s"
  obtains h where "sys_reachable (sv_externals S) h" "sys_core h = sl_core s" "sys_permits h = sh_permits H"
    "sys_accepted h = sh_accepted H" "sys_published h = map outcome_entry (all_outcomes S H s)"
    "sys_replies h = outcome_replies (all_outcomes S H s)"
    "sys_inv (sv_externals S) h" "core_ok (sv_externals S) (sl_core s) (mset (map permit_reservation (sh_permits H)))"
proof -
  obtain h where h: "sys_reachable (sv_externals S) h" "sys_core h = sl_core s" "sys_permits h = sh_permits H"
    "sys_accepted h = sh_accepted H" "sys_published h = map outcome_entry (all_outcomes S H s)"
    "sys_replies h = outcome_replies (all_outcomes S H s)"
    using slot_runningD(7) [OF assms(2)] by (auto simp: simulates_def)
  have inv: "sys_inv (sv_externals S) h" by (rule sys_reachable_inv [OF services_okD(1) [OF assms(1)] h(1)])
  with sys_inv_parts(1) [OF inv] h that show ?thesis by simp
qed

text \<open>An answer without a reply, of which the owner's history knows.\<close>

lemma answer_owed:
  fixes S :: "('g, 'd, 'r, 'e, 'c, 'q, 'k, 'o, 'l) services"
  assumes run: "slot_running S V H s"
    and st: "owner_step (sv_externals S) ({} :: 'r set) b P (sl_core s) (map retype_effect es) c'"
    and sb: "\<forall>e \<in> set es. sent_back {} e"
    and h: "sys_reachable (sv_externals S) h'" "sys_core h' = c'" "sys_permits h' = sh_permits H"
      "sys_accepted h' = sh_accepted H"
      "sys_published h' = map outcome_entry (all_outcomes S H s) @ publications es"
      "sys_replies h' = outcome_replies (all_outcomes S H s)"
  shows "owed b S V H (map retype_effect es) (s\<lparr>sl_core := c'\<rparr>)"
proof (rule owed_answer [OF run st])
  show "simulates S H (outcomes_in (map retype_effect es)) (s\<lparr>sl_core := c'\<rparr>)"
    unfolding simulates_def using h
    by (intro exI [of _ h']) (simp add: all_outcomes_def outcomes_in_published retyped_lists [OF sb])
qed simp

lemma interpret_unit_upholds:
  assumes "services_ok S V" "owed b S V H (map retype_effect (tr_effects t)) s" "\<forall>e \<in> set (tr_effects t). sent_back {} e"
  shows "upholds (event_overflow (sl_limits s) \<union> missing_bound b) S V H (interpret_unit S t s)"
  using interpret_upholds [OF assms(1,2)] by (simp add: interpret_unit_def interpret_unit_fold [OF assms(3)])

text \<open>Inputs that neither open admission nor start a drain nor confirm closure.\<close>

definition plain_input :: "'g externals \<Rightarrow> bool \<Rightarrow> ConnectionMachine \<Rightarrow> ConnectionInput \<Rightarrow> bool" where
  "plain_input X b m input \<longleftrightarrow>
     \<not> early_report X input m \<and> (\<forall>epoch. input \<noteq> OpenAdmission epoch) \<and> (\<forall>epoch. input \<noteq> BeginDrain epoch) \<and>
     (\<forall>epoch. input \<noteq> EpochClosed epoch) \<and> (\<forall>epoch. input = CloseRequested epoch Drained \<longrightarrow> b)"

lemma core_apply_answer:
  assumes X: "externals_ok X" and ok: "core_ok X c P"
  obtains t c' where "core_apply X input c = (Inr t, c')" "core_ok X c' P"
    "tr_disposition t = tr_disposition (fst (machine_apply X input (core_machine c)))"
    "tr_effects t = visible (tr_effects (fst (machine_apply X input (core_machine c))))"
    "core_machine c' = snd (machine_apply X input (core_machine c))"
    "settles (owned (pending (core_machine c))) (live_ids (pending (core_machine c))) (tr_effects t) (core_machine c')"
    "same_epoch (core_machine c) (core_machine c')" "measured c' \<subseteq> measured c"
proof -
  have "good_step (core_machine c) P (machine_apply X input (core_machine c))"
    by (rule good_apply [OF X core_ok_parts(2) [OF ok]])
  then have con: "contract (core_machine c) (tr_effects (fst (machine_apply X input (core_machine c))))
      (snd (machine_apply X input (core_machine c)))"
    by (simp add: good_step_def)
  obtain q where q: "core_apply X input c =
      (Inr ((fst (machine_apply X input (core_machine c)))\<lparr>tr_effects :=
              visible (tr_effects (fst (machine_apply X input (core_machine c))))\<rparr>),
       c\<lparr>core_machine := snd (machine_apply X input (core_machine c)), core_writes := q\<rparr>)"
    "core_ok X (c\<lparr>core_machine := snd (machine_apply X input (core_machine c)), core_writes := q\<rparr>) P"
    and fr: "wq_frames q = filter (\<lambda>w. frame_key w \<notin> set (discard_ids (tr_effects (fst (machine_apply X input (core_machine c))))))
       (wq_frames (core_writes c))"
    by (rule core_apply_exact [OF X ok])
  show ?thesis by (rule that [OF q]) (use contract_settles [OF con] fr in \<open>auto simp: measured_def\<close>)
qed

lemma apply_owed:
  assumes S: "services_ok S V" and run: "slot_running S V H s"
    and input: "plain_input (sv_externals S) b (core_machine (sl_core s)) input"
  obtains t c' where "core_apply (sv_externals S) input (sl_core s) = (Inr t, c')"
    "core_machine c' = snd (machine_apply (sv_externals S) input (core_machine (sl_core s)))"
    "settles (owned (pending (core_machine (sl_core s)))) (live_ids (pending (core_machine (sl_core s)))) (tr_effects t)
       (core_machine c')"
    "\<forall>e \<in> set (tr_effects t). sent_back {} e" "owed b S V H (map retype_effect (tr_effects t)) (s\<lparr>sl_core := c'\<rparr>)"
proof -
  let ?X = "sv_externals S" and ?P = "mset (map permit_reservation (sh_permits H))"
  have X: "externals_ok ?X" by (rule services_okD [OF S])
  obtain h where h: "sys_reachable ?X h" "sys_core h = sl_core s" "sys_permits h = sh_permits H"
    "sys_accepted h = sh_accepted H" "sys_published h = map outcome_entry (all_outcomes S H s)"
    "sys_replies h = outcome_replies (all_outcomes S H s)" and ok: "core_ok ?X (sl_core s) ?P"
    by (rule running_owner [OF S run])
  obtain t c' where t: "core_apply ?X input (sl_core s) = (Inr t, c')" "core_ok ?X c' ?P"
    "tr_disposition t = tr_disposition (fst (machine_apply ?X input (core_machine (sl_core s))))"
    "tr_effects t = visible (tr_effects (fst (machine_apply ?X input (core_machine (sl_core s)))))"
    "core_machine c' = snd (machine_apply ?X input (core_machine (sl_core s)))"
    "settles (owned (pending (core_machine (sl_core s)))) (live_ids (pending (core_machine (sl_core s)))) (tr_effects t) (core_machine c')"
    "same_epoch (core_machine (sl_core s)) (core_machine c')" "measured c' \<subseteq> measured (sl_core s)"
    by (rule core_apply_answer [OF X ok])
  have tidy: "tidy {} b (core_machine (sl_core s)) (tr_effects t) (core_machine c')"
    by (rule tidy_core_apply [OF X ok t(1)]) (use input in \<open>auto simp: plain_input_def\<close>)
  have "sys_reachable ?X (h\<lparr>sys_core := c', sys_published := sys_published h @ publications (tr_effects t)\<rparr>)"
    using sys_reachable_step [OF h(1) sys_step.input] t(1) h(2) by metis
  from answer_owed [OF run owner_step_unit [OF ok t(2) tidy t(6) _ t(7,8)] tidy_retype(2) [OF tidy] this] h
  have "owed b S V H (map retype_effect (tr_effects t)) (s\<lparr>sl_core := c'\<rparr>)" by simp
  then show ?thesis by (rule that [OF t(1,5,6) tidy_retype(2) [OF tidy]])
qed

theorem apply_upholds:
  assumes S: "services_ok S V" and run: "slot_running S V H s"
    and input: "plain_input (sv_externals S) b (core_machine (sl_core s)) input"
  obtains t s1 where "slot_apply S input s = (Inr t, s1)" "sl_limits s1 = sl_limits s"
    "upholds (event_overflow (sl_limits s) \<union> missing_bound b) S V H (interpret_unit S t s1)"
proof -
  obtain t c' where t: "core_apply (sv_externals S) input (sl_core s) = (Inr t, c')"
    "\<forall>e \<in> set (tr_effects t). sent_back {} e" "owed b S V H (map retype_effect (tr_effects t)) (s\<lparr>sl_core := c'\<rparr>)"
    by (rule apply_owed [OF S run input])
  show ?thesis
    by (rule that [of t "s\<lparr>sl_core := c'\<rparr>"])
      (use interpret_unit_upholds [OF S t(3,2)] t(1) in \<open>simp_all add: slot_apply_def\<close>)
qed

end
