(* ===== verification/SlotOps.thy ===== *)
theory SlotOps
  imports SlotSteps
begin

text \<open>
  The entry points of a slot on its invariant: replies and write progress, the control operations,
  admission with its permits, settlement and draining.
\<close>

section \<open>Replies and write progress\<close>

theorem reply_upholds:
  fixes S :: "('g, 'd, 'r, 'e, 'c, 'q, 'k, 'o, 'l) services"
  assumes S: "services_ok S V" and run: "slot_running S V H s"
    and small: "sv_frame_retained S (reply_frame reply) \<le> reply_bytes (sl_limits s)"
  obtains t c' where "core_apply_reply (sv_externals S) reply (sl_core s) = (Inr t, c')"
    "upholds (event_overflow (sl_limits s)) S V H (interpret_reply S t (s\<lparr>sl_core := c'\<rparr>))"
proof -
  let ?X = "sv_externals S" and ?P = "mset (map permit_reservation (sh_permits H))" and ?c = "sl_core s"
  let ?ma = "machine_apply_reply ?X reply (core_machine ?c)"
  have X: "externals_ok ?X" by (rule services_okD [OF S])
  obtain h where h: "sys_reachable ?X h" "sys_core h = ?c" "sys_permits h = sh_permits H"
    "sys_accepted h = sh_accepted H" "sys_published h = map outcome_entry (all_outcomes S H s)"
    "sys_replies h = outcome_replies (all_outcomes S H s)" and ok: "core_ok ?X ?c ?P"
    by (rule running_owner [OF S run])
  have "good_step (core_machine ?c) ?P ?ma" by (rule good_apply_reply [OF X core_ok_parts(2) [OF ok]])
  then have con: "contract (core_machine ?c) (tr_effects (fst ?ma)) (snd ?ma)" by (simp add: good_step_def)
  obtain q where q: "core_apply_reply ?X reply ?c = (Inr ((fst ?ma)\<lparr>tr_effects := visible (tr_effects (fst ?ma))\<rparr>),
       ?c\<lparr>core_machine := snd ?ma, core_writes := q\<rparr>)"
    "core_ok ?X (?c\<lparr>core_machine := snd ?ma, core_writes := q\<rparr>) ?P"
    "wq_frames q = filter (\<lambda>w. frame_key w \<notin> set (discard_ids (tr_effects (fst ?ma)))) (wq_frames (core_writes ?c))"
    by (rule core_apply_reply_exact [OF X ok])
  define t where "t = (fst ?ma)\<lparr>tr_effects := visible (tr_effects (fst ?ma))\<rparr>"
  define c' where "c' = ?c\<lparr>core_machine := snd ?ma, core_writes := q\<rparr>"
  have res: "core_apply_reply ?X reply ?c = (Inr t, c')" using q(1) by (simp add: t_def c'_def)
  have st: "owner_step ?X {reply_frame reply} False ?P ?c (tr_effects t) c'"
    using ok q(2,3) contract_settles [OF con] tidy_core_apply_reply [OF X ok res, of False]
      tidy_parts(1-3) [OF tidy_core_apply_reply [OF X ok res, of False]]
    by (auto simp: owner_step_def owner_settles_def settles_def same_epoch_def t_def c'_def measured_def
        intro: exI [of _ "owned (pending (core_machine ?c))"])
  have "sys_reachable ?X (h\<lparr>sys_core := c', sys_published := sys_published h @ publications (tr_effects t),
      sys_replies := sys_replies h @ reply_deliveries (tr_effects t)\<rparr>)"
    using sys_reachable_step [OF h(1) sys_step.reply] res h(2) by metis
  then have "simulates S H (outcomes_in (tr_effects t)) (s\<lparr>sl_core := c'\<rparr>)"
    unfolding simulates_def using h
    by (intro exI [of _ "h\<lparr>sys_core := c', sys_published := sys_published h @ publications (tr_effects t),
      sys_replies := sys_replies h @ reply_deliveries (tr_effects t)\<rparr>"])
      (simp add: all_outcomes_def outcomes_in_published)
  from interpret_upholds [OF S owed_answer [OF run st _ this]] small
  have "upholds (event_overflow (sl_limits s)) S V H (interpret_reply S t (s\<lparr>sl_core := c'\<rparr>))"
    by (simp add: interpret_reply_def missing_bound_def)
  with res show ?thesis by (rule that)
qed

text \<open>Progress within the offered bytes of the front frame.\<close>

lemma core_advance_answer:
  assumes X: "externals_ok X" and ok: "core_ok X c P"
    and fr: "wq_frames (core_writes c) = w # ws" and n: "n \<le> remaining_bytes w"
  obtains t c' where "core_advance_write X (m_epoch (core_machine c)) (qw_effect w) n c = (Inr t, c')"
    "core_ok X c' P"
    "settles (mark_sent (qw_operation w) n (owned (pending (core_machine c))))
       (live_ids (pending (core_machine c))) (tr_effects t) (core_machine c')"
    "same_epoch (core_machine c) (core_machine c')" "measured c' \<subseteq> measured c"
proof (cases "n < remaining_bytes w")
  case True
  obtain c' where c': "core_advance_write X (m_epoch (core_machine c)) (qw_effect w) n c = (Inr (transition_new Applied), c')"
    "core_ok X c' P" "wq_frames (core_writes c') = progressed n w # ws"
    "owned (pending (core_machine c')) = mark_sent (qw_operation w) n (owned (pending (core_machine c)))"
    "live_ids (pending (core_machine c')) = live_ids (pending (core_machine c))"
    "same_epoch (core_machine c) (core_machine c')"
    by (rule core_advance_pending [OF X ok fr True])
  show ?thesis
  proof (rule that [OF c'(1,2) _ c'(6)])
    show "settles (mark_sent (qw_operation w) n (owned (pending (core_machine c))))
       (live_ids (pending (core_machine c))) (tr_effects (transition_new Applied :: unit ConnectionTransition)) (core_machine c')"
      using c'(4,5) by (simp add: settles_def)
    show "measured c' \<subseteq> measured c" using c'(3) fr by (auto simp: measured_def)
  qed
next
  case False
  then have "n = remaining_bytes w" using n by simp
  from core_advance_complete [OF X ok fr this] obtain t c' where
    c': "core_advance_write X (m_epoch (core_machine c)) (qw_effect w) n c = (Inr t, c')" "core_ok X c' P"
    "wq_frames (core_writes c') = ws"
    "settles (mark_sent (qw_operation w) n (owned (pending (core_machine c))))
       (live_ids (pending (core_machine c))) (tr_effects t) (core_machine c')"
    "same_epoch (core_machine c) (core_machine c')" by metis
  show ?thesis by (rule that [OF c'(1,2,4,5)]) (use c'(3) fr in \<open>auto simp: measured_def\<close>)
qed

theorem advance_upholds:
  fixes S :: "('g, 'd, 'r, 'e, 'c, 'q, 'k, 'o, 'l) services"
  assumes S: "services_ok S V" and run: "slot_running S V H s"
    and fr: "wq_frames (core_writes (sl_core s)) = w # ws" and n: "n \<le> remaining_bytes w"
  shows "upholds (event_overflow (sl_limits s)) S V H (slot_advance_write S (slot_epoch s) (qw_effect w) n s)"
proof -
  let ?X = "sv_externals S" and ?P = "mset (map permit_reservation (sh_permits H))" and ?c = "sl_core s"
  have X: "externals_ok ?X" by (rule services_okD [OF S])
  obtain h where h: "sys_reachable ?X h" "sys_core h = ?c" "sys_permits h = sh_permits H"
    "sys_accepted h = sh_accepted H" "sys_published h = map outcome_entry (all_outcomes S H s)"
    "sys_replies h = outcome_replies (all_outcomes S H s)" and ok: "core_ok ?X ?c ?P"
    by (rule running_owner [OF S run])
  obtain t c' where t: "core_advance_write ?X (m_epoch (core_machine ?c)) (qw_effect w) n ?c = (Inr t, c')"
    "core_ok ?X c' ?P"
    "settles (mark_sent (qw_operation w) n (owned (pending (core_machine ?c))))
       (live_ids (pending (core_machine ?c))) (tr_effects t) (core_machine c')"
    "same_epoch (core_machine ?c) (core_machine c')" "measured c' \<subseteq> measured ?c"
    by (rule core_advance_answer [OF X ok fr n])
  have tidy: "tidy {} False (core_machine ?c) (tr_effects t) (core_machine c')"
    by (rule tidy_core_advance [OF t(1)])
  have st: "owner_step ?X ({} :: 'r set) False ?P ?c (map retype_effect (tr_effects t)) c'"
    by (rule owner_step_unit [OF ok t(2) tidy t(3) _ t(4,5)]) (simp add: mark_sent_ids)
  have "n \<le> offered (sys_core h)" using fr n h(2) by (simp add: offered_def)
  from sys_reachable_step [OF h(1) sys_step.advance [OF this]] t(1) h(2)
  have "sys_reachable ?X (h\<lparr>sys_core := c', sys_published := sys_published h @ publications (tr_effects t),
      sys_sent := (if 0 < n then front_operations (sys_core h) else {}) \<union> sys_sent h\<rparr>)" by metis
  from interpret_unit_upholds [OF S answer_owed [OF run st tidy_retype(2) [OF tidy] this]] h tidy_retype(2) [OF tidy]
  have "upholds (event_overflow (sl_limits s)) S V H (interpret_unit S t (s\<lparr>sl_core := c'\<rparr>))"
    by (simp add: missing_bound_def)
  then show ?thesis using t(1) by (auto simp: slot_advance_write_def intro: upholds_try)
qed

section \<open>Control\<close>

lemma latch_upholds_Inr: "latch rs = (Inr x, s) \<Longrightarrow> rs = (Inr x, s)"
  by (cases rs) (auto simp: latch_def split: sum.splits)

lemma running_state: "slot_running S V H s \<Longrightarrow> ensure_running s = (Inr (), s)"
  by (simp add: ensure_running_def slot_running_def)

theorem close_for_upholds:
  assumes S: "services_ok S V" and run: "slot_running S V H s" and reason: "reason \<noteq> Drained"
  shows "upholds (event_overflow (sl_limits s)) S V H (close_for S reason s)"
proof -
  obtain t s1 where "slot_apply S (CloseRequested (slot_epoch s) reason) s = (Inr t, s1)"
    "upholds (event_overflow (sl_limits s) \<union> missing_bound False) S V H (interpret_unit S t s1)"
    by (rule apply_upholds [OF S run, of False "CloseRequested (slot_epoch s) reason"])
      (use reason in \<open>simp_all add: plain_input_def early_report_def\<close>)
  then show ?thesis by (simp add: close_for_def missing_bound_def)
qed

theorem close_malformed_upholds:
  assumes S: "services_ok S V" and run: "slot_running S V H s"
  shows "upholds (event_overflow (sl_limits s)) S V H (close_malformed S s)"
proof -
  obtain t s1 where "slot_apply S (ReplyMalformed (slot_epoch s)) s = (Inr t, s1)"
    "upholds (event_overflow (sl_limits s) \<union> missing_bound False) S V H (interpret_unit S t s1)"
    by (rule apply_upholds [OF S run, of False "ReplyMalformed (slot_epoch s)"])
      (simp_all add: plain_input_def early_report_def)
  then show ?thesis by (simp add: close_malformed_def missing_bound_def)
qed

theorem close_decode_error_upholds:
  assumes S: "services_ok S V" and run: "slot_running S V H s"
  shows "upholds (event_overflow (sl_limits s)) S V H (close_decode_error S error s)"
  by (cases error) (simp_all add: close_for_upholds [OF S run] close_malformed_upholds [OF S run])

theorem cancel_upholds:
  assumes S: "services_ok S V" and run: "slot_running S V H s"
  shows "upholds (event_overflow (sl_limits s)) S V H (cancel_inner S i s)"
proof -
  obtain t s1 where "slot_apply S (Cancel (slot_epoch s) i) s = (Inr t, s1)"
    "upholds (event_overflow (sl_limits s) \<union> missing_bound False) S V H (interpret_unit S t s1)"
    by (rule apply_upholds [OF S run, of False "Cancel (slot_epoch s) i"])
      (simp_all add: plain_input_def early_report_def)
  then show ?thesis by (auto simp: cancel_inner_def missing_bound_def Let_def intro: upholds_try)
qed

text \<open>A forced shutdown keeps the reason the owner has already given.\<close>

lemma close_request_running:
  assumes run: "slot_running S V H s" and r: "sl_close_request s = Some (DirCore reason shutdown)"
  shows "slot_running S V H (s\<lparr>sl_close_request := Some (DirCore reason shutdown')\<rparr>)"
proof -
  have "phase_follows (s\<lparr>sl_close_request := Some (DirCore reason shutdown')\<rparr>)"
    using slot_runningD(3) [OF run] r by (auto simp: phase_follows_def Let_def split: ConnectionPhase.splits)
  then show ?thesis using run by (simp add: slot_running_def)
qed

lemma force_shutdown_running:
  assumes "slot_running S V H s"
  shows "slot_running S V H (snd (force_shutdown s))" "sl_limits (snd (force_shutdown s)) = sl_limits s"
    "sl_core (snd (force_shutdown s)) = sl_core s"
  using close_request_running [OF assms] assms
  by (auto simp: force_shutdown_def force_shutdown_settlement_def split: option.split CloseDirective.split ShutdownState.split)

theorem finalize_upholds:
  assumes S: "services_ok S V" and run: "slot_running S V H s"
  shows "upholds (event_overflow (sl_limits s) \<union> missing_bound (reason = Drained)) S V H (finalize_inner S reason s)"
proof -
  obtain b s1 where f: "force_shutdown s = (b, s1)" by (cases "force_shutdown s")
  then have s1: "slot_running S V H s1" "sl_limits s1 = sl_limits s" using force_shutdown_running [OF run] by simp_all
  obtain t s2 where "slot_apply S (CloseRequested (slot_epoch s1) reason) s1 = (Inr t, s2)"
    "upholds (event_overflow (sl_limits s1) \<union> missing_bound (reason = Drained)) S V H (interpret_unit S t s2)"
    by (rule apply_upholds [OF S s1(1), of "reason = Drained" "CloseRequested (slot_epoch s1) reason"])
      (simp_all add: plain_input_def early_report_def)
  then show ?thesis using s1 by (auto simp: finalize_inner_def f intro: upholds_try split: bool.split)
qed

section \<open>Inputs that move the phase\<close>

text \<open>The owner's answer to an input whose effects are tidy, whatever it does to phase and gate.\<close>

lemma input_settles:
  fixes S :: "('g, 'd, 'r, 'e, 'c, 'q, 'k, 'o, 'l) services"
  assumes S: "services_ok S V" and run: "slot_running S V H s"
    and tidy: "\<forall>e \<in> set (tr_effects (fst (machine_apply (sv_externals S) input (core_machine (sl_core s))))).
        tidy_effect {} (core_machine (sl_core s)) e"
    and timed: "set (timed (pending (snd (machine_apply (sv_externals S) input (core_machine (sl_core s))))))
        \<subseteq> set (timed (pending (core_machine (sl_core s))))"
  obtains t c' where "core_apply (sv_externals S) input (sl_core s) = (Inr t, c')"
    "tr_disposition t = tr_disposition (fst (machine_apply (sv_externals S) input (core_machine (sl_core s))))"
    "tr_effects t = visible (tr_effects (fst (machine_apply (sv_externals S) input (core_machine (sl_core s)))))"
    "core_machine c' = snd (machine_apply (sv_externals S) input (core_machine (sl_core s)))"
    "\<forall>e \<in> set (tr_effects t). sent_back {} e"
    "owner_settles (sv_externals S) ({} :: 'r set) (mset (map permit_reservation (sh_permits H))) (sl_core s)
       (map retype_effect (tr_effects t)) c'"
    "simulates S H (outcomes_in (map retype_effect (tr_effects t))) (s\<lparr>sl_core := c'\<rparr>)"
proof -
  let ?X = "sv_externals S" and ?P = "mset (map permit_reservation (sh_permits H))" and ?m = "core_machine (sl_core s)"
  have X: "externals_ok ?X" by (rule services_okD [OF S])
  obtain h where h: "sys_reachable ?X h" "sys_core h = sl_core s" "sys_permits h = sh_permits H"
    "sys_accepted h = sh_accepted H" "sys_published h = map outcome_entry (all_outcomes S H s)"
    "sys_replies h = outcome_replies (all_outcomes S H s)" and ok: "core_ok ?X (sl_core s) ?P"
    by (rule running_owner [OF S run])
  obtain t c' where t: "core_apply ?X input (sl_core s) = (Inr t, c')" "core_ok ?X c' ?P"
    "tr_disposition t = tr_disposition (fst (machine_apply ?X input ?m))"
    "tr_effects t = visible (tr_effects (fst (machine_apply ?X input ?m)))"
    "core_machine c' = snd (machine_apply ?X input ?m)"
    "settles (owned (pending ?m)) (live_ids (pending ?m)) (tr_effects t) (core_machine c')"
    "same_epoch ?m (core_machine c')" "measured c' \<subseteq> measured (sl_core s)"
    by (rule core_apply_answer [OF X ok])
  have es: "\<forall>e \<in> set (tr_effects t). tidy_effect {} ?m e" using tidy by (auto simp: t(4) visible_def)
  then have sb: "\<forall>e \<in> set (tr_effects t). sent_back {} e" by (simp add: tidy_effect_def)
  have re: "\<forall>e \<in> set (map retype_effect (tr_effects t) :: 'r ConnectionEffect list). tidy_effect {} ?m e"
    using es by (auto intro: tidy_retype_effect)
  have "owner_settles ?X ({} :: 'r set) ?P (sl_core s) (map retype_effect (tr_effects t)) c'"
    unfolding owner_settles_def using ok t(2,6-8) re timed
    by (auto simp: settles_def same_epoch_def t(5) retyped_lists [OF sb] intro!: exI [of _ "owned (pending ?m)"])
  moreover have "sys_reachable ?X (h\<lparr>sys_core := c', sys_published := sys_published h @ publications (tr_effects t)\<rparr>)"
    using sys_reachable_step [OF h(1) sys_step.input] t(1) h(2) by metis
  then have "simulates S H (outcomes_in (map retype_effect (tr_effects t))) (s\<lparr>sl_core := c'\<rparr>)"
    unfolding simulates_def using h
    by (intro exI [of _ "h\<lparr>sys_core := c', sys_published := sys_published h @ publications (tr_effects t)\<rparr>"])
      (simp add: all_outcomes_def outcomes_in_published retyped_lists [OF sb])
  ultimately show ?thesis by (intro that [OF t(1,3,4,5) sb])
qed

lemma event_phase:
  "phase_follows (s\<lparr>sl_lifecycle := lb, sl_recovery_events := rb, sl_event_sequence := q\<rparr>) = phase_follows s"
  "stage (s\<lparr>sl_lifecycle := lb, sl_recovery_events := rb, sl_event_sequence := q\<rparr>) = stage s"
  by (simp_all add: phase_follows_def stage_def Let_def split: ConnectionPhase.split)

text \<open>An event that brings the slot to its next stage.\<close>

lemma publish_upholds:
  assumes S: "services_ok S V" and run: "sl_state s = Running" "phase_follows s"
    and books: "configured V s" "simulates S H [] s" "roomy S H [] s" "mirrored V (due_of s) s"
    and none: "items (sv_events S) (sl_recovery_events s) = []"
    and ev: "events_ok n (slot_epoch s) (all_events S H s) (sl_event_sequence s)" "n < stage s"
    and f: "\<And>q ep. ev_rank (f q ep) = n \<and> ev_sequence (f q ep) = q \<and> ev_epoch (f q ep) = ep"
  shows "upholds (event_overflow (sl_limits s)) S V H (publish_sequenced S f s)"
proof -
  have n: "n < 4" using ev(2) stage_le [of s] by simp
  obtain r lb rb q where p: "publish_sequenced S f s =
      (r, s\<lparr>sl_lifecycle := lb, sl_recovery_events := rb, sl_event_sequence := q\<rparr>)"
    "events_ok (Suc n) (slot_epoch s) (sh_seen H @ items (sv_events S) lb @ items (sv_events S) rb) q"
    "vw_event_limits V lb = vw_event_limits V (sl_lifecycle s)"
    "vw_event_limits V rb = vw_event_limits V (sl_recovery_events s)"
    "r = Inr () \<and> items (sv_events S) rb = [] \<or> (\<exists>e \<in> event_overflow (sl_limits s). r = Inl e)"
    by (rule publish_sequenced_exact [OF S books(1) none ev(1) n f])
  let ?s = "s\<lparr>sl_lifecycle := lb, sl_recovery_events := rb, sl_event_sequence := q\<rparr>"
  have "slot_books S V H ?s" using books_event [OF books p(2) _ p(3,4)] n by simp
  moreover have "phase_follows ?s" "stage ?s = stage s" using run(2)
    by (simp_all add: event_phase)
  moreover have "events_ok (stage ?s) (slot_epoch ?s) (all_events S H ?s) (sl_event_sequence ?s)"
    using events_ok_mono [OF p(2), of "stage s"] ev(2) \<open>stage ?s = stage s\<close> by (simp add: all_events_def)
  ultimately show ?thesis using p(1,5) run(1) by (auto simp: slot_running_def)
qed

section \<open>Drain, admission, closure\<close>

lemma phase_of_core:
  assumes "core_machine c' = core_machine (sl_core s)"
  shows "phase_follows (s\<lparr>sl_core := c'\<rparr>) = phase_follows s" "stage (s\<lparr>sl_core := c'\<rparr>) = stage s"
  using assms by (simp_all add: phase_follows_def stage_def Let_def split: ConnectionPhase.split)

lemma begin_drain_moves:
  assumes run: "phase_follows s" "events_ok (stage s) (slot_epoch s) (all_events S H s) (sl_event_sequence s)"
    and ok: "lifecycle_ok (core_machine c')" and m: "core_machine (sl_core s) = m"
    and live: "m_phase m = Live" "m_gate m \<noteq> Draining" "m_gate m \<noteq> GateClosed"
    and c': "tidy {} False (m\<lparr>m_gate := Draining\<rparr>) es (core_machine c')"
  shows "close_reasons es = [] \<and> phase_follows (s\<lparr>sl_core := c', sl_drain_deadline := Some deadline\<rparr>) \<and>
        events_ok (stage (s\<lparr>sl_core := c'\<rparr>)) (slot_epoch s) (all_events S H s) (sl_event_sequence s) \<or>
      (\<exists>reason. close_reasons es = [reason] \<and>
        closing_owed False S H reason (s\<lparr>sl_core := c', sl_drain_deadline := Some deadline\<rparr>))"
proof (cases "m_phase (core_machine c') = Live")
  case True
  note t = tidy_parts [OF c']
  have gate: "m_gate (core_machine c') = Draining" and quiet: "close_reasons es = []"
    using t(6) [OF True] t(8) True by (simp_all add: closure_of_def)
  have "phase_follows (s\<lparr>sl_core := c', sl_drain_deadline := Some deadline\<rparr>)" "stage s \<le> stage (s\<lparr>sl_core := c'\<rparr>)"
    using run(1) True gate live by (auto simp: phase_follows_def stage_def Let_def m)
  with quiet events_ok_mono [OF run(2)] show ?thesis by blast
next
  case False
  note t = tidy_parts [OF c']
  have es: "close_reasons es = [the (m_close_reason (core_machine c'))]"
    and m': "m_phase (core_machine c') = Closing" "m_gate (core_machine c') = GateClosed" "m_close_reason (core_machine c') \<noteq> None"
    using False t(8,9) ok live(1) by (cases "m_phase (core_machine c')"; simp add: closure_of_def lifecycle_ok_def)+
  have "stage s \<le> 2" "sl_close_request s = None" "m_epoch (core_machine c') = slot_epoch s"
    using run(1) live t(2) by (simp_all add: stage_def phase_follows_def Let_def m)
  with es m' events_ok_mono [OF run(2)] show ?thesis by (auto simp: closing_owed_def Let_def all_events_def)
qed

theorem begin_drain_upholds:
  fixes S :: "('g, 'd, 'r, 'e, 'c, 'q, 'k, 'o, 'l) services"
  assumes S: "services_ok S V" and run: "slot_running S V H s"
  shows "upholds (event_overflow (sl_limits s)) S V H (begin_drain_inner S deadline s)"
proof -
  let ?X = "sv_externals S" and ?m = "core_machine (sl_core s)"
  let ?ma = "machine_apply ?X (BeginDrain (slot_epoch s)) ?m"
  define go where "go \<longleftrightarrow> m_phase ?m = Live \<and> m_gate ?m \<noteq> GateClosed \<and> m_gate ?m \<noteq> Draining"
  have idle: "?ma = (transition_new IgnoredInvalidPhase, ?m)" if "\<not> go" using that by (auto simp: go_def begin_drain_def)
  have drain: "tidy {} False (?m\<lparr>m_gate := Draining\<rparr>) (tr_effects (fst ?ma)) (snd ?ma)" if go
    using that tidy_begin_drain [of ?m "slot_epoch s" False ?X] by (simp add: go_def)
  have disp: "tr_disposition (fst ?ma) = Applied \<longleftrightarrow> go"
    by (auto simp: go_def begin_drain_def finish_drain_def close_into_def close_with_failure_into_def Let_def close_records_exact)
  have "\<forall>e \<in> set (tr_effects (fst ?ma)). tidy_effect {} ?m e" "set (timed (pending (snd ?ma))) \<subseteq> set (timed (pending ?m))"
    using idle tidy_parts(1,3) [OF drain] by (cases go; auto simp: tidy_effect_def)+
  then obtain t c' where t: "core_apply ?X (BeginDrain (slot_epoch s)) (sl_core s) = (Inr t, c')"
    "tr_disposition t = tr_disposition (fst ?ma)" "tr_effects t = visible (tr_effects (fst ?ma))"
    "core_machine c' = snd ?ma" "\<forall>e \<in> set (tr_effects t). sent_back {} e"
    and st: "owner_settles ?X ({} :: 'r set) (mset (map permit_reservation (sh_permits H))) (sl_core s)
       (map retype_effect (tr_effects t)) c'"
    and sim: "simulates S H (outcomes_in (map retype_effect (tr_effects t))) (s\<lparr>sl_core := c'\<rparr>)"
    by (rule input_settles [OF S run])
  note r = slot_runningD [OF run]
  have ok: "lifecycle_ok (core_machine c')" using st machine_lifecycle by (auto simp: owner_settles_def)
  define dd where "dd = (if go then Some deadline else sl_drain_deadline s)"
  let ?es = "map retype_effect (tr_effects t) :: 'r ConnectionEffect list"
  have phase: "close_reasons ?es = [] \<and> phase_follows (s\<lparr>sl_core := c', sl_drain_deadline := dd\<rparr>) \<and>
        events_ok (stage (s\<lparr>sl_core := c'\<rparr>)) (slot_epoch s) (all_events S H s) (sl_event_sequence s) \<or>
      (\<exists>reason. close_reasons ?es = [reason] \<and> closing_owed False S H reason (s\<lparr>sl_core := c', sl_drain_deadline := dd\<rparr>))"
  proof (cases go)
    case True
    have "close_reasons ?es = close_reasons (tr_effects (fst ?ma))" by (simp add: retyped_lists [OF t(5)]) (simp add: t(3))
    then show ?thesis
      using begin_drain_moves [OF r(3,5) ok refl _ _ _ drain [OF True, folded t(4)], of deadline] True
      by (simp add: go_def dd_def)
  next
    case False
    then show ?thesis using idle [OF False] t(3,4) r(3,5) phase_of_core [of c' s] by (simp add: dd_def visible_def)
  qed
  have "upholds (event_overflow (sl_limits s) \<union> missing_bound False) S V H
      (finish_interpretation S (fold (interpret_effect S) ?es (None, None, s\<lparr>sl_core := c', sl_drain_deadline := dd\<rparr>)))"
    using interpret_upholds [OF S owed_books [OF run st _ sim phase]] by simp
  then have "upholds (event_overflow (sl_limits s)) S V H (interpret_unit S t (s\<lparr>sl_core := c', sl_drain_deadline := dd\<rparr>))"
    by (simp add: interpret_unit_def interpret_unit_fold [OF t(5)] missing_bound_def)
  moreover have "begin_drain_inner S deadline s =
      try_then (interpret_unit S t (s\<lparr>sl_core := c', sl_drain_deadline := dd\<rparr>)) (\<lambda>_ s3. (Inr (tr_disposition t), s3))"
    using t(1,2) disp by (cases go) (simp_all add: begin_drain_inner_def slot_apply_def dd_def)
  ultimately show ?thesis by (simp only:) (rule upholds_try, simp_all)
qed

text \<open>An answer without effects: the books follow the owner, whatever becomes of the phase.\<close>

lemma quiet_input:
  fixes S :: "('g, 'd, 'r, 'e, 'c, 'q, 'k, 'o, 'l) services"
  assumes S: "services_ok S V" and run: "slot_running S V H s"
    and ma: "machine_apply (sv_externals S) input (core_machine (sl_core s)) = (t0, m')"
      "tr_effects t0 = []" "pending m' = pending (core_machine (sl_core s))"
  obtains t c' where "core_apply (sv_externals S) input (sl_core s) = (Inr t, c')" "core_machine c' = m'"
    "tr_disposition t = tr_disposition t0" "tr_effects t = []" "m_epoch m' = slot_epoch s"
    "configured V (s\<lparr>sl_core := c'\<rparr>)" "simulates S H [] (s\<lparr>sl_core := c'\<rparr>)" "roomy S H [] (s\<lparr>sl_core := c'\<rparr>)"
    "mirrored V (due_of (s\<lparr>sl_core := c'\<rparr>)) (s\<lparr>sl_core := c'\<rparr>)"
proof -
  obtain t c' where t: "core_apply (sv_externals S) input (sl_core s) = (Inr t, c')"
    "tr_disposition t = tr_disposition t0" "tr_effects t = visible (tr_effects t0)" "core_machine c' = m'"
    and st: "owner_settles (sv_externals S) ({} :: 'r set) (mset (map permit_reservation (sh_permits H))) (sl_core s)
       (map retype_effect (tr_effects t)) c'"
    and sim: "simulates S H (outcomes_in (map retype_effect (tr_effects t))) (s\<lparr>sl_core := c'\<rparr>)"
    by (rule input_settles [OF S run, where input = input]) (use ma in simp_all)
  have none: "tr_effects t = []" using ma(2) t(3) by (simp add: visible_def)
  note r = slot_runningD [OF run]
  have "roomy S H (outcomes_in ([] :: 'r ConnectionEffect list)) (s\<lparr>sl_core := c'\<rparr>)"
    using owner_settles_room [OF st r(8)] by (simp add: none)
  moreover have st': "core_limits c' = core_limits (sl_core s)" "measured c' \<subseteq> measured (sl_core s)" "m_epoch m' = slot_epoch s"
    using st t(4) by (simp_all add: owner_settles_def)
  moreover have "configured V (s\<lparr>sl_core := c'\<rparr>)" using r(6) st'(1,2) by (auto simp: configured_def frames_stable_def)
  moreover have "mirrored V (due_of (s\<lparr>sl_core := c'\<rparr>)) (s\<lparr>sl_core := c'\<rparr>)"
    using r(9) t(4) st'(3) ma(3) by (simp add: mirrored_def due_of_def)
  ultimately show ?thesis
    using t sim none by (intro that [of t c']) simp_all
qed

lemma interpret_nothing [simp]: "tr_effects t = [] \<Longrightarrow> interpret_unit S t s = (Inr (), s)"
  by (simp add: interpret_unit_def finish_interpretation_def finish_close_def)

theorem open_admission_upholds:
  assumes S: "services_ok S V" and run: "slot_running S V H s"
  shows "upholds (event_overflow (sl_limits s)) S V H (open_admission_inner S s)"
proof (cases "is_transport_open s")
  case False
  then show ?thesis using run by (simp add: open_admission_inner_def)
next
  case True
  let ?m = "core_machine (sl_core s)"
  define go where "go \<longleftrightarrow> m_phase ?m = Live \<and> m_gate ?m = SessionOnly"
  define t0 where "t0 = (if go then transition_new Applied else transition_new IgnoredInvalidPhase :: unit ConnectionTransition)"
  define m' where "m' = (if go then ?m\<lparr>m_gate := Open\<rparr> else ?m)"
  have ma: "machine_apply (sv_externals S) (OpenAdmission (slot_epoch s)) ?m = (t0, m')"
    by (simp add: open_admission_def t0_def m'_def go_def)
  obtain t c' where t: "core_apply (sv_externals S) (OpenAdmission (slot_epoch s)) (sl_core s) = (Inr t, c')" "core_machine c' = m'"
    "tr_disposition t = tr_disposition t0" "tr_effects t = []" "m_epoch m' = slot_epoch s"
    and books: "configured V (s\<lparr>sl_core := c'\<rparr>)" "simulates S H [] (s\<lparr>sl_core := c'\<rparr>)" "roomy S H [] (s\<lparr>sl_core := c'\<rparr>)"
    "mirrored V (due_of (s\<lparr>sl_core := c'\<rparr>)) (s\<lparr>sl_core := c'\<rparr>)"
    by (rule quiet_input [OF S run ma]) (simp_all add: t0_def m'_def)
  note r = slot_runningD [OF run]
  have disp: "tr_disposition t = Applied \<longleftrightarrow> go" by (simp add: t(3) t0_def)
  have ts: "sl_transport_state s = TransportOpen" using True by (simp add: is_transport_open_def)
  show ?thesis
  proof (cases go)
    case True
    then have g: "m_phase ?m = Live" "m_gate ?m = SessionOnly" by (simp_all add: go_def)
    then have one: "stage s = 1" "stage (s\<lparr>sl_core := c'\<rparr>) = 2" "phase_follows (s\<lparr>sl_core := c'\<rparr>)"
      using r(3) ts True t(2) by (simp_all add: stage_def phase_follows_def m'_def Let_def)
    have "upholds (event_overflow (sl_limits (s\<lparr>sl_core := c'\<rparr>))) S V H (publish_sequenced S EvAdmissionOpened (s\<lparr>sl_core := c'\<rparr>))"
      by (rule publish_upholds [OF S _ one(3) books, where n = 1])
        (use r(1,4,5) one t(2,5) in \<open>simp_all add: all_events_def\<close>)
    then show ?thesis
      using \<open>is_transport_open s\<close> True disp t(1,4)
      by (auto simp: open_admission_inner_def slot_apply_def publish_admission_opened_def intro!: upholds_try)
  next
    case False
    then have "phase_follows (s\<lparr>sl_core := c'\<rparr>)" "stage (s\<lparr>sl_core := c'\<rparr>) = stage s"
      using phase_of_core [of c' s] r(3) t(2) by (simp_all add: m'_def)
    then have "slot_running S V H (s\<lparr>sl_core := c'\<rparr>)"
      using r books t(2,5) events_ok_mono [OF r(5) stage_le]
      by (simp add: slot_running_def slot_books_def all_events_def)
    then show ?thesis
      using \<open>is_transport_open s\<close> False disp t(1,4) by (simp add: open_admission_inner_def slot_apply_def)
  qed
qed

text \<open>Settlement: the owner's epoch closes and the last event is published.\<close>

theorem confirm_upholds:
  assumes S: "services_ok S V" and run: "slot_running S V H s"
    and r: "sl_close_request s = Some (DirCore reason shutdown)"
  shows "upholds (event_overflow (sl_limits s)) S V H (confirm_transport_closed S reason (s\<lparr>sl_close_request := None\<rparr>))"
proof -
  let ?m = "core_machine (sl_core s)"
  note run' = slot_runningD [OF run]
  have phase: "m_phase ?m = Closing" "m_gate ?m \<noteq> Draining" "sl_drain_deadline s = None"
  proof -
    show closing: "m_phase ?m = Closing"
      using run'(3) r by (cases "m_phase ?m") (simp_all add: phase_follows_def Let_def)
    obtain h where "core_ok (sv_externals S) (sl_core s) (mset (map permit_reservation (sh_permits H)))"
      by (rule running_owner [OF S run])
    then show "m_gate ?m \<noteq> Draining" using machine_lifecycle closing by (fastforce simp: lifecycle_ok_def)
    then show "sl_drain_deadline s = None" using run'(3) by (simp add: phase_follows_def Let_def)
  qed
  have ma: "machine_apply (sv_externals S) (EpochClosed (slot_epoch s)) ?m =
      (transition_new Applied, ?m\<lparr>m_phase := PhaseClosed, m_gate := GateClosed\<rparr>)"
    using phase(1) by (simp add: epoch_closed_def)
  obtain t c' where t: "core_apply (sv_externals S) (EpochClosed (slot_epoch s)) (sl_core s) = (Inr t, c')"
    "core_machine c' = ?m\<lparr>m_phase := PhaseClosed, m_gate := GateClosed\<rparr>"
    "tr_disposition t = tr_disposition (transition_new Applied :: unit ConnectionTransition)" "tr_effects t = []"
    and books: "configured V (s\<lparr>sl_core := c'\<rparr>)" "simulates S H [] (s\<lparr>sl_core := c'\<rparr>)" "roomy S H [] (s\<lparr>sl_core := c'\<rparr>)"
    "mirrored V (due_of (s\<lparr>sl_core := c'\<rparr>)) (s\<lparr>sl_core := c'\<rparr>)"
    by (rule quiet_input [OF S run ma]) simp_all
  let ?s = "s\<lparr>sl_core := c', sl_close_request := None, sl_transport_state := TransportClosed\<rparr>"
  have "upholds (event_overflow (sl_limits ?s)) S V H (publish_sequenced S (\<lambda>q ep. EvClosed q ep reason) ?s)"
  proof (rule publish_upholds [OF S, where n = 3])
    show "configured V ?s" "simulates S H [] ?s" "roomy S H [] ?s" "mirrored V (due_of ?s) ?s"
      using books by (simp_all add: configured_def simulates_def roomy_def mirrored_def due_of_def all_outcomes_def)
    show "phase_follows ?s" "3 < stage ?s" using phase t(2) by (simp_all add: phase_follows_def stage_def Let_def)
    show "events_ok 3 (slot_epoch ?s) (all_events S H ?s) (sl_event_sequence ?s)"
      using run'(5) phase(1) t(2) by (simp add: stage_def all_events_def)
  qed (use run'(1,4) in simp_all)
  moreover have "slot_apply S (EpochClosed (slot_epoch s)) (s\<lparr>sl_close_request := None, sl_transport_state := TransportClosed\<rparr>) =
      (Inr t, ?s)"
    using t(1) by (simp add: slot_apply_def)
  ultimately show ?thesis
    using t(4) by (simp add: confirm_transport_closed_def publish_closed_def)
qed

section \<open>Deadlines\<close>

lemma subseq_set: "subseq xs ys \<Longrightarrow> set xs \<subseteq> set ys"
  by (auto elim: list_emb_set)

text \<open>An operation whose elapsed deadline is reported is gone afterwards.\<close>

lemma elapsed_gone:
  assumes ok: "machine_ok m P" and p: "pending m = ys @ r # zs" and el: "is_elapsed_at X (rec_deadline r) now"
  shows "rec_id r \<notin> set (op_ids (pending (snd (machine_apply X (InputDeadlineElapsed (m_epoch m) (rec_id r) now) m))))"
proof (cases "rec_delivery r = NotSent")
  case True
  obtain t where t: "machine_apply X (InputDeadlineElapsed (m_epoch m) (rec_id r) now) m =
      finish_drain X t (without X (ys @ zs) r (rec_write_held r) (m_ledger m) m)"
    using deadline_unsent [OF ok p el True] by blast
  have "rec_id r \<notin> set (op_ids (ys @ zs))"
    using ok p by (auto simp: machine_ok_def machine_core_def op_ids_def)
  moreover have "set (op_ids (pending (snd (finish_drain X t (without X (ys @ zs) r (rec_write_held r) (m_ledger m) m)))))
      \<subseteq> set (op_ids (ys @ zs))"
    using subseq_set [OF finish_drain_pending [of X t "without X (ys @ zs) r (rec_write_held r) (m_ledger m) m"]]
    by simp
  ultimately show ?thesis unfolding t by blast
next
  case False
  have core: "machine_core m P" using ok by (simp add: machine_ok_def)
  then have live: "m_phase m = Live" using pending_live p by fastforce
  note at = matching_at [OF p split_distinct [OF core p]]
  have "rec_delivery r = PossiblySent" using False by (cases "rec_delivery r") simp_all
  then show ?thesis
    using el at live
    by (simp add: deadline_elapsed_def close_into_def close_with_failure_into_def close_records_exact Let_def)
qed

lemma pop_due_law:
  assumes "services_ok S V"
  shows "case fst (tq_pop_due (sv_timers S) now q) of
      None \<Rightarrow> vw_armed V (snd (tq_pop_due (sv_timers S) now q)) = vw_armed V q
    | Some (k, event) \<Rightarrow>
        (\<exists>deadline. vw_armed V q k = Some (deadline, event) \<and> is_elapsed_at (sv_externals S) deadline now) \<and>
        vw_armed V (snd (tq_pop_due (sv_timers S) now q)) = (vw_armed V q)(k := None)"
    "vw_capacity V (snd (tq_pop_due (sv_timers S) now q)) = vw_capacity V q"
  using services_okD(2) [OF assms] unfolding timer_laws_def by blast+

text \<open>A timer that has fired is gone from the queue and from the index.\<close>

lemma pop_due_exact:
  assumes S: "services_ok S V" and m: "mirrored V due s"
    and pop: "tq_pop_due (sv_timers S) now (sl_timers s) = (Some (k, event), timers)"
  obtains index d where "position (\<lambda>entry. den_token entry = k) (sl_deadlines s) = Some index"
    "dev_epoch event = slot_epoch s" "due (dev_operation event) = Some d" "is_elapsed_at (sv_externals S) d now"
    "mirrored V (due(dev_operation event := None)) (s\<lparr>sl_timers := timers, sl_deadlines := swap_remove index (sl_deadlines s)\<rparr>)"
    "vw_capacity V timers = vw_capacity V (sl_timers s)"
proof -
  obtain d where d: "vw_armed V (sl_timers s) k = Some (d, event)" "is_elapsed_at (sv_externals S) d now"
    "vw_armed V timers = (vw_armed V (sl_timers s))(k := None)" "vw_capacity V timers = vw_capacity V (sl_timers s)"
    using pop_due_law [OF S, of now "sl_timers s"] pop by auto
  obtain entry where entry: "entry \<in> set (sl_deadlines s)" "den_token entry = k" "due (den_operation entry) = Some d"
    "event = \<lparr>dev_epoch = slot_epoch s, dev_operation = den_operation entry\<rparr>"
    using m d(1) unfolding mirrored_def mirrors_def by blast
  obtain index where index: "position (\<lambda>entry. den_token entry = k) (sl_deadlines s) = Some index"
    using entry(1,2) by (cases "position (\<lambda>entry. den_token entry = k) (sl_deadlines s)") auto
  from position_Some [OF index] have at: "index < length (sl_deadlines s)" "den_token (sl_deadlines s ! index) = k" by auto
  have "sl_deadlines s ! index = entry"
    using m at entry(1,2) by (auto simp: mirrored_def mirrors_def distinct_map dest: inj_onD)
  with mirrors_remove [OF m [unfolded mirrored_def] at(1)] at(2) d(3) entry(4)
  have "mirrored V (due(dev_operation event := None)) (s\<lparr>sl_timers := timers, sl_deadlines := swap_remove index (sl_deadlines s)\<rparr>)"
    by (simp add: mirrored_def)
  then show ?thesis using that [OF index] entry d by simp
qed

lemma owed_fired:
  assumes o: "owed b S V H es s" and S: "services_ok S V" and gone: "i \<in> set (cancel_ids es)"
    and m: "\<And>due. mirrored V due s \<Longrightarrow> mirrored V (due(i := None)) (s\<lparr>sl_timers := timers, sl_deadlines := entries\<rparr>)"
    and cap: "vw_capacity V timers = vw_capacity V (sl_timers s)"
  shows "owed b S V H es (s\<lparr>sl_timers := timers, sl_deadlines := entries\<rparr>)"
proof -
  let ?s = "s\<lparr>sl_timers := timers, sl_deadlines := entries\<rparr>"
  obtain due where due: "mirrored V due s" "due |` (- set (cancel_ids es)) = due_of s" using o by (auto simp: owed_def)
  have "(due(i := None)) |` (- set (cancel_ids es)) = due |` (- set (cancel_ids es))"
    using gone by (auto simp: restrict_map_def fun_eq_iff)
  then have "\<exists>due. mirrored V due ?s \<and> due |` (- set (cancel_ids es)) = due_of ?s"
    using m [OF due(1)] due(2) by (intro exI [of _ "due(i := None)"]) (simp add: due_of_def)
  moreover have "phase_follows ?s = phase_follows s" "closing_owed b S H reason ?s = closing_owed b S H reason s" for reason
    by (simp_all add: phase_follows_def closing_owed_def Let_def split: ConnectionPhase.split)
  moreover have "configured V ?s = configured V s" "simulates S H p ?s = simulates S H p s" "roomy S H p ?s = roomy S H p s" for p
    using cap by (simp_all add: configured_def simulates_def roomy_def all_outcomes_def)
  ultimately show ?thesis using o by (simp add: owed_def)
qed

lemma removed_cancelled:
  assumes "removes fst (owned rs) cs (owned rs')" "i \<in> set (op_ids rs)" "i \<notin> set (op_ids rs')"
  shows "i \<in> set cs"
proof -
  obtain d where "(i, d) \<in> set (owned rs)" using assms(2) by (metis fst_image_owned(1) imageE prod.collapse)
  moreover have "(i, d) \<notin> set (owned rs')" for d using assms(3) by (metis fst_image_owned(1) fst_conv imageI)
  ultimately show ?thesis using removes_set [OF assms(1)] by auto
qed

theorem timer_upholds:
  assumes S: "services_ok S V" and run: "slot_running S V H s"
    and pop: "tq_pop_due (sv_timers S) now (sl_timers s) = (Some (k, event), timers)"
  shows "upholds (event_overflow (sl_limits s)) S V H (drive_timer S now k event (s\<lparr>sl_timers := timers\<rparr>))"
proof -
  let ?X = "sv_externals S" and ?m = "core_machine (sl_core s)" and ?i = "dev_operation event"
  let ?input = "InputDeadlineElapsed (slot_epoch s) ?i now"
  note r = slot_runningD [OF run]
  obtain index d where at: "position (\<lambda>entry. den_token entry = k) (sl_deadlines s) = Some index"
    "dev_epoch event = slot_epoch s" "due_of s ?i = Some d" "is_elapsed_at ?X d now"
    "vw_capacity V timers = vw_capacity V (sl_timers s)"
    by (rule pop_due_exact [OF S r(9) pop])
  have ok: "machine_ok ?m (mset (map permit_reservation (sh_permits H)))"
    by (rule running_owner [OF S run]) (rule core_ok_parts(2))
  obtain rec where rec: "rec \<in> set (pending ?m)" "rec_id rec = ?i" "rec_deadline rec = d"
    using map_of_SomeD [OF at(3) [unfolded due_of_def]] by (auto simp: timed_def)
  then obtain ys zs where p: "pending ?m = ys @ rec # zs" by (metis split_list)
  have core: "machine_core ?m (mset (map permit_reservation (sh_permits H)))" using ok by (simp add: machine_ok_def)
  note get = matching_at [OF p split_distinct [OF core p], unfolded rec(2)]
  have "plain_input ?X False ?m ?input" using get rec(3) at(4) by (simp add: plain_input_def early_report_def)
  then obtain t c' where t: "core_apply ?X ?input (sl_core s) = (Inr t, c')" "core_machine c' = snd (machine_apply ?X ?input ?m)"
    "settles (owned (pending ?m)) (live_ids (pending ?m)) (tr_effects t) (core_machine c')"
    "\<forall>e \<in> set (tr_effects t). sent_back {} e" "owed False S V H (map retype_effect (tr_effects t)) (s\<lparr>sl_core := c'\<rparr>)"
    by (rule apply_owed [OF S run])
  have "?i \<in> set (cancel_ids (tr_effects t))"
  proof (rule removed_cancelled)
    show "removes fst (owned (pending ?m)) (cancel_ids (tr_effects t)) (owned (pending (core_machine c')))"
      using t(3) by (simp add: settles_def)
    show "?i \<in> set (op_ids (pending ?m))" using rec(2) p by (simp add: op_ids_def)
    show "?i \<notin> set (op_ids (pending (core_machine c')))"
      using elapsed_gone [OF ok p, of ?X now] rec(2,3) at(4) by (simp add: t(2))
  qed
  then have gone: "?i \<in> set (cancel_ids (map retype_effect (tr_effects t)))" by (simp add: retyped_lists [OF t(4)])
  let ?s = "s\<lparr>sl_core := c', sl_timers := timers, sl_deadlines := swap_remove index (sl_deadlines s)\<rparr>"
  have "mirrored V (due(?i := None)) ?s" if "mirrored V due (s\<lparr>sl_core := c'\<rparr>)" for due
  proof (rule pop_due_exact [OF S that, where now = now and k = k and event = event and timers = timers])
    show "tq_pop_due (sv_timers S) now (sl_timers (s\<lparr>sl_core := c'\<rparr>)) = (Some (k, event), timers)" using pop by simp
  qed (use at(1) in \<open>simp add: mirrored_def\<close>)
  from owed_fired [OF t(5) S gone this] at(5)
  have "owed False S V H (map retype_effect (tr_effects t)) ?s" by simp
  from interpret_unit_upholds [OF S this t(4)]
  have "upholds (event_overflow (sl_limits s)) S V H (interpret_unit S t ?s)" by (simp add: missing_bound_def)
  moreover have swap: "s\<lparr>sl_timers := timers, sl_deadlines := swap_remove index (sl_deadlines s), sl_core := c'\<rparr> = ?s"
    by (rule ConnectionSlot.equality) simp_all
  have "drive_timer S now k event (s\<lparr>sl_timers := timers\<rparr>) =
      interpret_unit S t (s\<lparr>sl_timers := timers, sl_deadlines := swap_remove index (sl_deadlines s), sl_core := c'\<rparr>)"
    using t(1) at(1,2) by (simp add: drive_timer_def slot_apply_def)
  then have "drive_timer S now k event (s\<lparr>sl_timers := timers\<rparr>) = interpret_unit S t ?s" unfolding swap .
  ultimately show ?thesis by simp
qed

end
