(* ===== verification/SlotAdmission.thy ===== *)
theory SlotAdmission
  imports SlotOps
begin

text \<open>
  Admission through a slot: a reservation is granted only while there is room for its outcome, a
  commit arms its deadline, and draining hands every publication to the caller once.
\<close>

section \<open>The owner of a slot replaced\<close>

lemma running_recore:
  assumes run: "slot_running S V H s"
    and m: "m_phase (core_machine c') = m_phase (core_machine (sl_core s))"
      "m_gate (core_machine c') = m_gate (core_machine (sl_core s))"
      "m_close_reason (core_machine c') = m_close_reason (core_machine (sl_core s))"
      "m_epoch (core_machine c') = slot_epoch s"
    and cfg: "configured V s'" and books: "simulates S H' [] s'" "roomy S H' [] s'" "mirrored V (due_of s') s'"
    and s': "s' = s\<lparr>sl_core := c', sl_timers := ti, sl_deadlines := en\<rparr>" and H': "sh_seen H' = sh_seen H"
  shows "slot_running S V H' s'"
proof -
  note r = slot_runningD [OF run]
  have "stage s' = stage s" using m by (simp add: s' stage_def)
  moreover have "phase_follows s' = phase_follows s" using m
    by (simp add: s' phase_follows_def Let_def split: ConnectionPhase.split)
  moreover have "all_events S H' s' = all_events S H s" using H' by (simp add: s' all_events_def)
  moreover have "slot_epoch s' = slot_epoch s" "sl_event_sequence s' = sl_event_sequence s"
    "sl_state s' = sl_state s" "sl_recovery_events s' = sl_recovery_events s" using m by (simp_all add: s')
  ultimately show ?thesis
    using r events_ok_mono [OF r(5) stage_le] cfg books by (simp add: slot_running_def slot_books_def)
qed

lemma frames_kept:
  assumes "configured V s" "core_writes c' = core_writes (sl_core s)" "core_limits c' = core_limits (sl_core s)"
  shows "configured V (s\<lparr>sl_core := c'\<rparr>)"
  using assms by (simp add: configured_def frames_stable_def measured_def)

section \<open>Reservation\<close>

lemma core_reserve_frame:
  assumes X: "externals_ok X" and ok: "core_ok X c P" and res: "core_reserve X now options c = (Inr p, c')"
  shows "m_phase (core_machine c') = m_phase (core_machine c)" "m_gate (core_machine c') = m_gate (core_machine c)"
    "m_close_reason (core_machine c') = m_close_reason (core_machine c)" "core_writes c' = core_writes c"
proof -
  have m: "machine_ok (core_machine c) P" by (rule core_ok_parts [OF ok])
  have "machine_refusal X now options (core_machine c) = None"
    using machine_reserve_refused [OF X m] res
    by (cases "machine_refusal X now options (core_machine c)") (auto simp: core_reserve_machine [OF X ok])
  then obtain p' m' L where "machine_reserve X now options (core_machine c) = (Inr p', m')"
    "m' = core_machine c\<lparr>m_ledger := L, m_identities := snd (identity_take (m_identities (core_machine c)))\<rparr>"
    using machine_reserve_accepted [OF X m] by metis
  then show "m_phase (core_machine c') = m_phase (core_machine c)" "m_gate (core_machine c') = m_gate (core_machine c)"
    "m_close_reason (core_machine c') = m_close_reason (core_machine c)" "core_writes c' = core_writes c"
    using res by (auto simp: core_reserve_machine [OF X ok])
qed

lemma owned_operations:
  assumes "core_ok X c P"
  shows "sn_owned_operations (machine_snapshot (core_machine c)) = size P + length (pending (core_machine c))"
    "sn_owned_operations (machine_snapshot (core_machine c)) \<le> max_operations (core_limits c)"
    "4 * max_operations (core_limits c) \<le> USIZE_MAX"
  using core_accounts [OF assms]
  by (simp_all add: machine_snapshot_def accounts_def holders_def limits_ok_def Let_def)

lemma live_ids_length: "length (live_ids rs) \<le> length rs"
  by (simp add: live_ids_def)

text \<open>A permit that is given back: the owner forgets it, everything else stays.\<close>

lemma dropped_parts:
  assumes books: "configured V s" "roomy S H [] s" "mirrored V (due_of s) s"
    and h: "sys_reachable (sv_externals S) h" "sys_core h = c" "sys_permits h = ps @ p # qs"
      "sys_accepted h = sh_accepted H" "sys_published h = map outcome_entry (all_outcomes S H s)"
      "sys_replies h = outcome_replies (all_outcomes S H s)"
    and p: "permit_active p" and fewer: "length (ps @ qs) \<le> length (sh_permits H)"
    and c: "m_epoch (core_machine c) = slot_epoch s" "pending (core_machine c) = pending (core_machine (sl_core s))"
      "core_writes c = core_writes (sl_core s)" "core_limits c = core_limits (sl_core s)"
  defines "s' \<equiv> s\<lparr>sl_core := drop_permit (sv_externals S) p c\<rparr>" and "H' \<equiv> H\<lparr>sh_permits := ps @ qs\<rparr>"
  shows "configured V s'" "simulates S H' [] s'" "roomy S H' [] s'" "mirrored V (due_of s') s'"
proof -
  let ?c = "drop_permit (sv_externals S) p c"
  let ?h = "h\<lparr>sys_core := ?c, sys_permits := ps @ qs\<rparr>"
  have "sys_reachable (sv_externals S) ?h"
    using sys_reachable_step [OF h(1) sys_step.drop [OF h(3)]] h(2) by simp
  then show "simulates S H' [] s'" unfolding simulates_def
    by (intro exI [of _ ?h]) (use h in \<open>simp add: all_outcomes_def s'_def H'_def\<close>)
  have "core_limits ?c = core_limits c" using p by (simp add: drop_permit_def permit_drop_def)
  then show "configured V s'" unfolding s'_def
    using c(3,4) by (intro frames_kept [OF books(1)]) (simp_all add: drop_permit_def)
  show "roomy S H' [] s'" "mirrored V (due_of s') s'"
    using books(2,3) c(1,2) fewer
    by (simp_all add: roomy_def mirrored_def due_of_def all_outcomes_def drop_permit_def s'_def H'_def)
qed

lemma dropped_running:
  assumes run: "slot_running S V H s"
    and h: "sys_reachable (sv_externals S) h" "sys_core h = c" "sys_permits h = ps @ p # qs"
      "sys_accepted h = sh_accepted H" "sys_published h = map outcome_entry (all_outcomes S H s)"
      "sys_replies h = outcome_replies (all_outcomes S H s)"
    and p: "permit_active p" and fewer: "length (ps @ qs) \<le> length (sh_permits H)"
    and phase: "m_phase (core_machine c) = m_phase (core_machine (sl_core s))"
      "m_gate (core_machine c) = m_gate (core_machine (sl_core s))"
      "m_close_reason (core_machine c) = m_close_reason (core_machine (sl_core s))"
    and c: "m_epoch (core_machine c) = slot_epoch s" "pending (core_machine c) = pending (core_machine (sl_core s))"
      "core_writes c = core_writes (sl_core s)" "core_limits c = core_limits (sl_core s)"
  shows "slot_running S V (H\<lparr>sh_permits := ps @ qs\<rparr>) (s\<lparr>sl_core := drop_permit (sv_externals S) p c\<rparr>)"
  by (rule running_recore [OF run, where ti = "sl_timers s" and en = "sl_deadlines s"
        and c' = "drop_permit (sv_externals S) p c"])
    (use dropped_parts [OF slot_runningD(6,8,9) [OF run] h p fewer c] phase c(1) in \<open>simp_all add: drop_permit_def\<close>)

theorem drop_books:
  assumes S: "services_ok S V" and books: "slot_books S V H s" and ps: "sh_permits H = ps @ p # qs"
  shows "slot_books S V (H\<lparr>sh_permits := ps @ qs\<rparr>) (s\<lparr>sl_core := drop_permit (sv_externals S) p (sl_core s)\<rparr>)"
    "slot_running S V H s \<Longrightarrow>
     slot_running S V (H\<lparr>sh_permits := ps @ qs\<rparr>) (s\<lparr>sl_core := drop_permit (sv_externals S) p (sl_core s)\<rparr>)"
proof -
  have b: "configured V s" "simulates S H [] s" "roomy S H [] s" "mirrored V (due_of s) s"
    "events_ok 4 (slot_epoch s) (all_events S H s) (sl_event_sequence s)"
    using books by (simp_all add: slot_books_def)
  obtain h where h: "sys_reachable (sv_externals S) h" "sys_core h = sl_core s" "sys_permits h = sh_permits H"
    "sys_accepted h = sh_accepted H" "sys_published h = map outcome_entry (all_outcomes S H s)"
    "sys_replies h = outcome_replies (all_outcomes S H s)" using b(2) by (auto simp: simulates_def)
  have p: "permit_active p"
    using sys_inv_parts(2) [OF sys_reachable_inv [OF services_okD(1) [OF S] h(1)]] h(3) ps by (simp add: permits_ok_def)
  have ps': "sys_permits h = ps @ p # qs" and less: "length (ps @ qs) \<le> length (sh_permits H)" by (simp_all add: h(3) ps)
  show "slot_books S V (H\<lparr>sh_permits := ps @ qs\<rparr>) (s\<lparr>sl_core := drop_permit (sv_externals S) p (sl_core s)\<rparr>)"
    using dropped_parts [OF b(1,3,4) h(1,2) ps' h(4-6) p less refl refl refl refl] b(5)
    by (intro books_intro) (simp_all add: all_events_def drop_permit_def)
  show "slot_running S V (H\<lparr>sh_permits := ps @ qs\<rparr>) (s\<lparr>sl_core := drop_permit (sv_externals S) p (sl_core s)\<rparr>)"
    if "slot_running S V H s"
    by (rule dropped_running [OF that h(1,2) ps' h(4-6) p less]) simp_all
qed

text \<open>A reservation the owner has granted stays if there is room for its outcome.\<close>

lemma granted_running:
  assumes S: "services_ok S V" and run: "slot_running S V H s"
    and res: "core_reserve (sv_externals S) now options (sl_core s) = (Inr p, c)"
  defines "held \<equiv> sn_owned_operations (machine_snapshot (core_machine c))"
  shows "length (items (sv_outcomes S) (sl_outcomes s)) + held \<le> USIZE_MAX"
    "length (items (sv_outcomes S) (sl_outcomes s)) + held \<le> operation_capacity (sl_limits s) \<Longrightarrow>
     slot_running S V (H\<lparr>sh_permits := sh_permits H @ [p]\<rparr>) (s\<lparr>sl_core := c\<rparr>)"
    "slot_running S V H (s\<lparr>sl_core := drop_permit (sv_externals S) p c\<rparr>)"
proof -
  let ?X = "sv_externals S" and ?H = "H\<lparr>sh_permits := sh_permits H @ [p]\<rparr>" and ?s = "s\<lparr>sl_core := c\<rparr>"
  have X: "externals_ok ?X" by (rule services_okD [OF S])
  note r = slot_runningD [OF run]
  obtain h where h: "sys_reachable ?X h" "sys_core h = sl_core s" "sys_permits h = sh_permits H"
    "sys_accepted h = sh_accepted H" "sys_published h = map outcome_entry (all_outcomes S H s)"
    "sys_replies h = outcome_replies (all_outcomes S H s)"
    and ok: "core_ok ?X (sl_core s) (mset (map permit_reservation (sh_permits H)))"
    by (rule running_owner [OF S run])
  note c = core_reserve_ok [OF X ok res] core_reserve_frame [OF X ok res]
  let ?h = "h\<lparr>sys_core := c, sys_permits := sys_permits h @ [p]\<rparr>"
  have h1: "sys_reachable ?X ?h" using sys_reachable_step [OF h(1) sys_step.reserve] res h(2) by metis
  have cfg: "configured V ?s" by (rule frames_kept [OF r(6) c(16,11)])
  have held: "held = length (sh_permits H) + 1 + length (pending (core_machine c))"
    using owned_operations(1) [OF c(1)] by (simp add: held_def)
  have "operation_capacity (sl_limits s) = max_operations (core_limits c)" using r(6) c(11) by (simp add: configured_def)
  then show "length (items (sv_outcomes S) (sl_outcomes s)) + held \<le> USIZE_MAX"
    using owned_operations(2,3) [OF c(1)] r(8) by (simp add: held_def roomy_def)
  show "slot_running S V H (s\<lparr>sl_core := drop_permit ?X p c\<rparr>)"
    using dropped_running [OF run h1, of c "sh_permits H" p "[]"] h c(2,3,9,11,13-16) by simp
  assume room: "length (items (sv_outcomes S) (sl_outcomes s)) + held \<le> operation_capacity (sl_limits s)"
  have "simulates S ?H [] ?s" unfolding simulates_def
    by (rule exI [of _ ?h]) (use h1 h in \<open>simp add: all_outcomes_def\<close>)
  moreover have "roomy S ?H [] ?s"
    using room r(8) held c(2,9) live_ids_length [of "pending (core_machine c)"]
    by (simp add: roomy_def all_outcomes_def)
  moreover have "mirrored V (due_of ?s) ?s" using r(9) c(2,9) by (simp add: mirrored_def due_of_def)
  ultimately show "slot_running S V ?H ?s"
    using cfg by (intro running_recore [OF run c(13-15) c(9), where ti = "sl_timers s" and en = "sl_deadlines s"]) simp_all
qed

theorem reserve_running:
  assumes S: "services_ok S V" and run: "slot_running S V H s"
  shows "slot_reserve S now options s = (Inr p, s') \<Longrightarrow> slot_running S V (H\<lparr>sh_permits := sh_permits H @ [p]\<rparr>) s'"
    "slot_reserve S now options s = (Inl e, s') \<Longrightarrow> slot_running S V H s' \<and> e \<noteq> OwnerPoisoned"
proof -
  let ?X = "sv_externals S"
  have X: "externals_ok ?X" by (rule services_okD [OF S])
  have st: "state_failure (sl_state s) = None" using slot_runningD(1) [OF run] by simp
  have ok: "core_ok ?X (sl_core s) (mset (map permit_reservation (sh_permits H)))" by (rule running_owner [OF S run])
  have len: "eb_len (sv_outcomes S) (sl_outcomes s) = length (items (sv_outcomes S) (sl_outcomes s))"
    by (rule batch_drains [OF services_okD(3) [OF S]])
  obtain res c where res: "core_reserve ?X now options (sl_core s) = (res, c)" by fastforce
  have "(slot_reserve S now options s = (Inr p, s') \<longrightarrow> slot_running S V (H\<lparr>sh_permits := sh_permits H @ [p]\<rparr>) s') \<and>
    (slot_reserve S now options s = (Inl e, s') \<longrightarrow> slot_running S V H s' \<and> e \<noteq> OwnerPoisoned)"
  proof (cases res)
    case (Inl err)
    have "c = sl_core s" "machine_refusal ?X now options (core_machine (sl_core s)) = Some err"
      using core_reserve_refused [OF X ok res [unfolded Inl]] by simp_all
    moreover from this have "err \<noteq> OwnerPoisoned"
      by (auto simp: machine_refusal_def reserve_refusal_def split: if_splits)
    ultimately show ?thesis using res Inl st run by (auto simp: slot_reserve_def)
  next
    case (Inr q)
    from granted_running [OF S run res [unfolded Inr]] show ?thesis
      using res Inr len st by (auto simp: slot_reserve_def usize_saturating_add_def Let_def split: if_splits)
  qed
  then show "slot_reserve S now options s = (Inr p, s') \<Longrightarrow> slot_running S V (H\<lparr>sh_permits := sh_permits H @ [p]\<rparr>) s'"
    "slot_reserve S now options s = (Inl e, s') \<Longrightarrow> slot_running S V H s' \<and> e \<noteq> OwnerPoisoned" by blast+
qed

section \<open>Commit\<close>

lemma core_commit_frame:
  assumes "core_commit X view retained p frame c = (Inr y, c')"
  shows "m_phase (core_machine c') = m_phase (core_machine c)" "m_gate (core_machine c') = m_gate (core_machine c)"
    "m_close_reason (core_machine c') = m_close_reason (core_machine c)" "m_epoch (core_machine c') = m_epoch (core_machine c)"
proof -
  obtain c1 where c1: "try_then (ensure_healthy c) (\<lambda>_. verify_ownership_on_hot_path X) = (Inr (), c1)"
    using assms by (auto simp: core_commit_def split: prod.splits sum.splits)
  have "core_machine c1 = core_machine c" using audited_machine [of c X] c1 by simp
  then show "m_phase (core_machine c') = m_phase (core_machine c)" "m_gate (core_machine c') = m_gate (core_machine c)"
    "m_close_reason (core_machine c') = m_close_reason (core_machine c)" "m_epoch (core_machine c') = m_epoch (core_machine c)"
    using assms by (auto simp: core_commit_def c1 Let_def commit_permit_exact split: prod.splits sum.splits option.splits)
qed

lemma due_of_append:
  assumes "rec_id r \<notin> rec_id ` set rs"
  shows "map_of (timed (rs @ [r])) = (map_of (timed rs))(rec_id r \<mapsto> rec_deadline r)" "map_of (timed rs) (rec_id r) = None"
proof -
  have none: "rec_id r \<notin> fst ` set (timed rs)" using assms by (auto simp: timed_def)
  then show "map_of (timed rs) (rec_id r) = None" by (simp add: map_of_eq_None_iff)
  show "map_of (timed (rs @ [r])) = (map_of (timed rs))(rec_id r \<mapsto> rec_deadline r)"
    using none by (auto simp: fun_eq_iff map_add_def map_of_eq_None_iff [symmetric] split: option.split)
qed

text \<open>There is always room for the deadline of one more operation the owner has accepted.\<close>

lemma deadline_room:
  assumes cfg: "configured V s" and ok: "core_ok X c P" "core_limits c = core_limits (sl_core s)"
    and more: "pending (core_machine c) = pending (core_machine (sl_core s)) @ [r]"
  shows "card (dom (due_of s)) < operation_capacity (sl_limits s)"
proof -
  let ?rs = "pending (core_machine (sl_core s))"
  have "card (dom (due_of s)) \<le> length ?rs"
    using card_length [of "map fst (timed ?rs)"]
    by (simp add: due_of_def dom_map_of_conv_image_fst timed_def image_image)
  also have "\<dots> < length (pending (core_machine c))" by (simp add: more)
  also have "\<dots> \<le> max_operations (core_limits c)" by (rule machine_ok_accounts(3) [OF core_ok_parts(2) [OF ok(1)]])
  also have "\<dots> = operation_capacity (sl_limits s)" using cfg ok(2) by (simp add: configured_def)
  finally show ?thesis .
qed

lemma accepted_running:
  assumes S: "services_ok S V" and run: "slot_running S V H s" and ps: "sh_permits H = ps @ p # qs"
    and wire: "length (of_bytes frame) \<le> USIZE_MAX"
    and may: "commit_failure p (of_retained frame) (core_machine (sl_core s)) = None"
  obtains s' where "slot_commit S p frame s = (Inr (permit_operation p), s')"
    "slot_running S V (H\<lparr>sh_permits := ps @ qs, sh_accepted := sh_accepted H @ [permit_operation p]\<rparr>) s'"
proof -
  let ?X = "sv_externals S" and ?m = "core_machine (sl_core s)" and ?i = "permit_operation p"
  let ?H = "H\<lparr>sh_permits := ps @ qs, sh_accepted := sh_accepted H @ [?i]\<rparr>" and ?r = "committed_record p (of_retained frame)"
  have X: "externals_ok ?X" by (rule services_okD [OF S])
  note r = slot_runningD [OF run]
  obtain h where h: "sys_reachable ?X h" "sys_core h = sl_core s" "sys_permits h = sh_permits H"
    "sys_accepted h = sh_accepted H" "sys_published h = map outcome_entry (all_outcomes S H s)"
    "sys_replies h = outcome_replies (all_outcomes S H s)" and inv: "sys_inv ?X h"
    by (rule running_owner [OF S run])
  have hp: "sys_permits h = ps @ p # qs" using h(3) ps by simp
  note fresh = permit_fresh [OF inv hp, unfolded h(2)]
  obtain c where c: "core_commit ?X of_bytes of_retained p frame (sl_core s) = (Inr (?i,
      transition_push (ScheduleDeadline (m_epoch ?m) ?i (permit_deadline p)) (transition_new Applied)), c)"
    "core_ok ?X c (mset (map permit_reservation (ps @ qs)))" "pending (core_machine c) = pending ?m @ [?r]"
    "wq_frames (core_writes c) = wq_frames (core_writes (sl_core s)) @ [committed_frame of_bytes of_retained p frame]"
    "same_epoch ?m (core_machine c)"
    by (rule core_commit_accepted [where view = of_bytes and retained = of_retained and frame = frame,
          OF X core_ok_rotate [OF inv hp, unfolded h(2)] may fresh wire])
  note frame = core_commit_frame [OF c(1)]
  have i: "rec_id ?r = ?i" "rec_deadline ?r = permit_deadline p" by (simp_all add: committed_record_def)
  note due = due_of_append [of ?r "pending ?m", unfolded i, OF fresh(1)]
  have lim: "core_limits c = core_limits (sl_core s)" using c(5) by (simp add: same_epoch_def)
  let ?s = "s\<lparr>sl_core := c\<rparr>"
  obtain entries timers where sched: "schedule_deadline S \<lparr>dev_epoch = slot_epoch s, dev_operation = ?i\<rparr> (permit_deadline p) ?s =
       (Inr (), ?s\<lparr>sl_deadlines := entries, sl_timers := timers\<rparr>)"
    "mirrors (vw_armed V timers) entries (slot_epoch s) ((due_of s)(?i \<mapsto> permit_deadline p))"
    "vw_capacity V timers = vw_capacity V (sl_timers ?s)"
    by (rule schedule_deadline_exact [OF S, of ?s "slot_epoch s" "due_of s" ?i])
      (use deadline_room [OF r(6) c(2) lim c(3)] r(6,9) due(2) in \<open>simp_all add: mirrored_def configured_def due_of_def\<close>)
  let ?s' = "?s\<lparr>sl_deadlines := entries, sl_timers := timers\<rparr>"
  have "slot_commit S p frame s = (Inr ?i, ?s')"
    using c(1) sched(1) r(1)
    by (simp add: slot_commit_def interpret_unit_def finish_interpretation_def finish_close_def retain_first_def)
  moreover have "slot_running S V ?H ?s'"
  proof (rule running_recore [OF run frame, where ti = timers and en = entries])
    show "configured V ?s'"
      using r(6) sched(3) lim c(4)
      by (auto simp: configured_def frames_stable_def measured_def committed_frame_def measure_capture_def)
    have "sys_reachable ?X (h\<lparr>sys_core := c, sys_permits := ps @ qs, sys_accepted := sys_accepted h @ [?i]\<rparr>)"
      using sys_reachable_step [OF h(1) sys_step.commit [where view = of_bytes and frame = frame, OF hp wire]] c(1) h(2) by metis
    then show "simulates S ?H [] ?s'" unfolding simulates_def
      by (intro exI [of _ "h\<lparr>sys_core := c, sys_permits := ps @ qs, sys_accepted := sys_accepted h @ [?i]\<rparr>"])
        (use h in \<open>simp add: all_outcomes_def\<close>)
    show "roomy S ?H [] ?s'"
      using r(8) c(3) frame(4) ps by (simp add: roomy_def all_outcomes_def committed_record_def)
    show "mirrored V (due_of ?s') ?s'"
      using sched(2) due(1) frame(4) c(3) by (simp add: mirrored_def due_of_def)
  qed simp_all
  ultimately show ?thesis by (rule that)
qed

text \<open>A commit is refused without a trace, or it arms the deadline of the accepted operation.\<close>

theorem commit_running:
  assumes S: "services_ok S V" and run: "slot_running S V H s" and ps: "sh_permits H = ps @ p # qs"
    and wire: "length (of_bytes frame) \<le> USIZE_MAX"
  shows "(\<exists>kind. commit_failure p (of_retained frame) (core_machine (sl_core s)) = Some kind \<and>
       slot_commit S p frame s = (Inl (Rejected \<lparr>ce_failure = Policy kind, ce_permit = p, ce_frame = frame\<rparr>), s)) \<or>
    (\<exists>s'. commit_failure p (of_retained frame) (core_machine (sl_core s)) = None \<and>
       slot_commit S p frame s = (Inr (permit_operation p), s') \<and>
       slot_running S V (H\<lparr>sh_permits := ps @ qs, sh_accepted := sh_accepted H @ [permit_operation p]\<rparr>) s')"
proof (cases "commit_failure p (of_retained frame) (core_machine (sl_core s))")
  case (Some kind)
  have ok: "core_ok (sv_externals S) (sl_core s) (mset (map permit_reservation (sh_permits H)))" by (rule running_owner [OF S run])
  have st: "sl_state s = Running" by (rule slot_runningD [OF run])
  have "kind \<noteq> CommitOwnerPoisoned" using Some by (auto simp: commit_failure_def split: if_splits)
  then show ?thesis
    using Some st core_commit_refused [where retained = of_retained and frame = frame and view = of_bytes,
        OF services_okD(1) [OF S] ok Some]
    by (simp add: slot_commit_def)
next
  case None
  show ?thesis by (rule accepted_running [OF S run ps wire None]) (use None in blast)
qed

section \<open>Draining\<close>

lemma drained_outcomes:
  assumes S: "services_ok S V" and d: "drain_outcomes S s = (os, s')"
  obtains batch where "s' = s\<lparr>sl_outcomes := batch\<rparr>" "os = items (sv_outcomes S) (sl_outcomes s)"
    "items (sv_outcomes S) batch = []" "vw_outcome_limits V batch = vw_outcome_limits V (sl_outcomes s)"
    "all_outcomes S (H\<lparr>sh_delivered := sh_delivered H @ os\<rparr>) s' = all_outcomes S H s"
proof -
  note b = batch_drains [OF services_okD(3) [OF S]]
  obtain batch where s': "eb_drain (sv_outcomes S) (sl_outcomes s) = (os, batch)" "s' = s\<lparr>sl_outcomes := batch\<rparr>"
    using d by (auto simp: drain_outcomes_def split: prod.splits)
  then have "os = items (sv_outcomes S) (sl_outcomes s)" by (simp add: items_def)
  then show ?thesis using s' b(1,2) [of "sl_outcomes s"] by (intro that [of batch]) (simp_all add: all_outcomes_def)
qed

theorem drain_outcomes_books:
  assumes S: "services_ok S V" and d: "drain_outcomes S s = (os, s')"
  shows "slot_books S V H s \<Longrightarrow> slot_books S V (H\<lparr>sh_delivered := sh_delivered H @ os\<rparr>) s'"
    "slot_running S V H s \<Longrightarrow> slot_running S V (H\<lparr>sh_delivered := sh_delivered H @ os\<rparr>) s'"
proof -
  let ?H = "H\<lparr>sh_delivered := sh_delivered H @ os\<rparr>"
  obtain batch where b: "s' = s\<lparr>sl_outcomes := batch\<rparr>" "items (sv_outcomes S) batch = []"
    "vw_outcome_limits V batch = vw_outcome_limits V (sl_outcomes s)" "all_outcomes S ?H s' = all_outcomes S H s"
    by (rule drained_outcomes [OF S d, where H = H])
  have ev: "all_events S ?H s' = all_events S H s" "stage s' = stage s" "phase_follows s' = phase_follows s"
    by (simp_all add: b(1) all_events_def stage_def phase_follows_def Let_def split: ConnectionPhase.split)
  have "configured V s' = configured V s" "simulates S ?H [] s' = simulates S H [] s" "due_of s' = due_of s"
    "mirrored V due s' = mirrored V due s" "roomy S H [] s \<Longrightarrow> roomy S ?H [] s'" for due
    using b(2-4) by (simp_all add: b(1) configured_def simulates_def roomy_def mirrored_def due_of_def)
  then show books: "slot_books S V H s \<Longrightarrow> slot_books S V ?H s'"
    using ev(1) by (simp add: slot_books_def b(1))
  then show "slot_running S V H s \<Longrightarrow> slot_running S V ?H s'"
    using ev by (simp add: slot_running_def b(1))
qed

theorem drain_events_books:
  assumes S: "services_ok S V" and d: "drain_events S s = (evs, s')"
  shows "slot_books S V H s \<Longrightarrow> slot_books S V (H\<lparr>sh_seen := sh_seen H @ evs\<rparr>) s'"
    "slot_running S V H s \<Longrightarrow> slot_running S V (H\<lparr>sh_seen := sh_seen H @ evs\<rparr>) s'"
proof -
  let ?H = "H\<lparr>sh_seen := sh_seen H @ evs\<rparr>"
  note b = batch_drains [OF services_okD(4) [OF S]]
  obtain batch where s': "eb_drain (sv_events S) (sl_lifecycle s) = (evs, batch)" "s' = s\<lparr>sl_lifecycle := batch\<rparr>"
    using d by (auto simp: drain_events_def split: prod.splits)
  have batch: "items (sv_events S) batch = []" "vw_event_limits V batch = vw_event_limits V (sl_lifecycle s)"
    "evs = items (sv_events S) (sl_lifecycle s)"
    using b(1,2) [of "sl_lifecycle s"] s'(1) by (simp_all add: items_def)
  have ev: "all_events S ?H s' = all_events S H s" "stage s' = stage s" "phase_follows s' = phase_follows s"
    by (simp_all add: s'(2) batch all_events_def stage_def phase_follows_def Let_def split: ConnectionPhase.split)
  have "configured V s' = configured V s" "simulates S ?H [] s' = simulates S H [] s" "due_of s' = due_of s"
    "mirrored V due s' = mirrored V due s" "roomy S ?H [] s' = roomy S H [] s" for due
    using batch by (simp_all add: s'(2) configured_def simulates_def roomy_def mirrored_def due_of_def all_outcomes_def)
  then show books: "slot_books S V H s \<Longrightarrow> slot_books S V ?H s'"
    using ev(1) by (simp add: slot_books_def s'(2))
  then show "slot_running S V H s \<Longrightarrow> slot_running S V ?H s'"
    using ev by (simp add: slot_running_def s'(2))
qed

end
