(* ===== verification/SlotFrame.thy ===== *)
theory SlotFrame
  imports SlotQuantum
begin

text \<open>No operation of a slot changes its limits.\<close>

lemma try_then_limits:
  assumes "sl_limits (snd rs) = l" "\<And>x s. sl_limits s = l \<Longrightarrow> sl_limits (snd (f x s)) = l"
  shows "sl_limits (snd (try_then rs f)) = l"
  using assms by (cases rs; cases "fst rs") (auto simp: try_then_def)

lemma try_then_finish [simp]: "sl_limits (snd (try_then rs (\<lambda>x s. (Inr (g x), s)))) = sl_limits (snd rs)"
  by (rule try_then_limits) simp_all

lemma on_slot_state [simp]: "fst (snd (on_slot t rs)) = snd rs" "fst (on_slot t rs) = fst rs" "snd (snd (on_slot t rs)) = t"
  by (cases rs; simp add: on_slot_def)+

lemma effect_limits [simp]:
  "sl_limits (cancel_deadline S i s) = sl_limits s"
  "sl_limits (snd (schedule_deadline S event d s)) = sl_limits s"
  "sl_limits (snd (publish S outcome s)) = sl_limits s"
  "sl_limits (snd (publish_sequenced S f s)) = sl_limits s"
proof -
  show c: "sl_limits (cancel_deadline S i s) = sl_limits s" for i
    by (simp add: cancel_deadline_def Let_def split: option.split)
  show "sl_limits (snd (schedule_deadline S event d s)) = sl_limits s"
    by (auto simp: schedule_deadline_def c Let_def split: prod.split sum.split)
  show "sl_limits (snd (publish S outcome s)) = sl_limits s"
    by (auto simp: publish_def Let_def split: prod.split sum.split)
  show "sl_limits (snd (publish_sequenced S f s)) = sl_limits s"
    by (auto simp: publish_sequenced_def publish_event_def Let_def split: prod.split sum.split)
qed

lemma interpret_effect_limits: "sl_limits (snd (snd (interpret_effect S e acc))) = sl_limits (snd (snd acc))"
proof (cases acc)
  case (fields a b s)
  then show ?thesis
    by (cases e) (auto simp: case_prod_unfold)
qed

lemma interpret_unit_effect_limits:
  "sl_limits (snd (snd (interpret_unit_effect S e acc))) = sl_limits (snd (snd acc))"
  by (cases e; cases acc) (auto simp: interpret_effect_limits simp del: interpret_effect.simps split: option.split)

lemma fold_limits:
  "sl_limits (snd (snd (fold (interpret_effect S) es acc))) = sl_limits (snd (snd acc))"
  "sl_limits (snd (snd (fold (interpret_unit_effect S) us acc))) = sl_limits (snd (snd acc))"
  by (induction es arbitrary: acc; simp add: interpret_effect_limits)
    (induction us arbitrary: acc; simp add: interpret_unit_effect_limits)

lemma finish_interpretation_limits: "sl_limits (snd (finish_interpretation S acc)) = sl_limits (snd (snd acc))"
proof -
  have "sl_limits (snd (finish_close S r f s)) = sl_limits s" for r f s
    using effect_limits(4) [of S _ s]
    by (auto simp: finish_close_def publish_closing_def case_prod_unfold Let_def split: option.split)
  then show ?thesis
    by (cases acc) (auto simp: finish_interpretation_def case_prod_unfold split: option.split)
qed

lemma interpret_limits [simp]:
  "sl_limits (snd (interpret_unit S t s)) = sl_limits s" "sl_limits (snd (interpret_reply S t' s)) = sl_limits s"
  "sl_limits (snd (slot_apply S input s)) = sl_limits s"
  by (simp_all add: interpret_unit_def interpret_reply_def slot_apply_def finish_interpretation_limits fold_limits
      split: prod.split sum.split)

lemma close_limits [simp]:
  "sl_limits (snd (close_for S reason s)) = sl_limits s" "sl_limits (snd (close_malformed S s)) = sl_limits s"
  "sl_limits (snd (close_decode_error S error s)) = sl_limits s"
  "sl_limits (snd (slot_advance_write S epoch effect n s)) = sl_limits s"
proof -
  show c: "sl_limits (snd (close_for S reason s)) = sl_limits s" for reason
    unfolding close_for_def by (rule try_then_limits) simp_all
  show m: "sl_limits (snd (close_malformed S s)) = sl_limits s"
    unfolding close_malformed_def by (rule try_then_limits) simp_all
  show "sl_limits (snd (close_decode_error S error s)) = sl_limits s" by (cases error) (simp_all add: c m)
  show "sl_limits (snd (slot_advance_write S epoch effect n s)) = sl_limits s"
    unfolding slot_advance_write_def by (auto intro!: try_then_limits split: prod.split sum.split)
qed

lemma drive_limits [simp]:
  "sl_limits (snd (capture_transport_pressure T t s)) = sl_limits s"
  "sl_limits (snd (drive_decoder_once S s)) = sl_limits s"
  "sl_limits (snd (drive_timer S now token event s)) = sl_limits s"
proof -
  show "sl_limits (snd (capture_transport_pressure T t s)) = sl_limits s"
    by (simp add: capture_transport_pressure_def observe_transport_pressure_def record_transport_failure_def Let_def)
  show "sl_limits (snd (drive_decoder_once S s)) = sl_limits s"
    by (auto simp: drive_decoder_once_def Let_def split: prod.split sum.split option.split)
  show "sl_limits (snd (drive_timer S now token event s)) = sl_limits s"
    unfolding drive_timer_def by (auto intro!: try_then_limits simp: Let_def split: option.split)
qed

lemma record_failure_limits [simp]: "sl_limits (record_transport_failure d s) = sl_limits s"
  by (simp add: record_transport_failure_def)

lemma drive_transport_limits [simp]: "sl_limits (fst (snd (drive_transport_once S T remaining s t))) = sl_limits s"
  unfolding drive_transport_once_def publish_transport_opened_def
  by (simp add: Let_def split: prod.split sum.split)

lemma drive_read_limits [simp]: "sl_limits (fst (snd (drive_read_once S T s t))) = sl_limits s"
proof -
  define len where "len = min (decoder_bytes (sl_limits s) - dec_retained_bytes (sv_decoder S) (fd_decoder (sl_driver s)))
      (length (sl_read_buffer s))"
  obtain io filled t1 where "tp_read T (take len (sl_read_buffer s)) t = (io, filled, t1)"
    by (cases "tp_read T (take len (sl_read_buffer s)) t")
  then show ?thesis
    by (cases io) (simp_all add: drive_read_once_def Let_def split: nat.split prod.split sum.split flip: len_def)
qed

lemma drive_write_limits [simp]: "sl_limits (fst (snd (drive_write_once S T s t))) = sl_limits s"
  unfolding drive_write_once_def
  by (simp add: Let_def split: prod.split sum.split option.split nat.split)

lemma drive_deadlines_limits [simp]: "sl_limits (snd (drive_deadlines_loop S now n work s)) = sl_limits s"
proof (induction n arbitrary: work s)
  case (Suc n)
  then show ?case by (auto intro!: try_then_limits split: prod.split option.split)
qed simp

lemma drive_shutdown_limits [simp]: "sl_limits (fst (snd (drive_shutdown_once S T now remaining s t))) = sl_limits s"
proof -
  have "sl_limits (fst (snd (after_shutdown_call T reason deadline budget call s))) = sl_limits s" for reason deadline budget call
    using drive_limits(1) [of T _ s]
    by (cases call) (auto simp: after_shutdown_call_def force_shutdown_settlement_def case_prod_unfold Let_def
        split: sum.split)
  then show ?thesis
    by (auto simp: drive_shutdown_once_def progress_shutdown_def shutdown_timed_out_def force_shutdown_settlement_def
        complete_shutdown_def split: option.split CloseDirective.split ShutdownState.split)
qed

end
