(* ===== verification/SlotDriveInv.thy ===== *)
theory SlotDriveInv
  imports SlotAdmission SlotFrame
begin

text \<open>
  Driving a slot against any transport: every step keeps the invariant, or it reports that the
  transport broke its contract (or that there was no room for a lifecycle event).
\<close>

section \<open>Faults of a transport\<close>

definition adapter_fault :: "EngineError \<Rightarrow> bool" where
  "adapter_fault e \<longleftrightarrow>
     (case e of
        EngInvariant (TransportReadContract _ _) \<Rightarrow> True
      | EngInvariant (TransportProgressContract _ _) \<Rightarrow> True
      | EngInvariant TransportOpenedBeforeEstablishment \<Rightarrow> True
      | EngInvariant (TransportRetainedCapacity _ _) \<Rightarrow> True
      | EngInvariant (TransportLimitContract _ _) \<Rightarrow> True
      | EngInvariant TransportNoProgress \<Rightarrow> True
      | EngCore (CoreInvariant (WriteProgressContract _ _)) \<Rightarrow> True
      | _ \<Rightarrow> False)"

definition drive_faults :: "ConnectionSlotLimits \<Rightarrow> EngineError set" where
  "drive_faults l = event_overflow l \<union> {e. adapter_fault e}"

lemma faults_mono: "upholds (event_overflow l) S V H rs \<Longrightarrow> upholds (drive_faults l) S V H rs"
  by (erule upholds_mono) (simp add: drive_faults_def)

lemma upholds_finish [simp]: "upholds A S V H (try_then rs (\<lambda>_ s. (Inr y, s))) = upholds A S V H rs"
  by (cases rs; cases "fst rs") (auto simp: try_then_def)

section \<open>Pressure\<close>

lemma capture_frame [simp]:
  "slot_running S V H (snd (capture_transport_pressure T t s)) = slot_running S V H s"
  "slot_books S V H (snd (capture_transport_pressure T t s)) = slot_books S V H s"
  "lost_books S V H (snd (capture_transport_pressure T t s)) = lost_books S V H s"
  "sl_state (snd (capture_transport_pressure T t s)) = sl_state s"
  "sl_close_request (snd (capture_transport_pressure T t s)) = sl_close_request s"
  by (simp_all add: capture_transport_pressure_def observe_transport_pressure_def Let_def)
    (simp add: record_transport_failure_def)

lemma capture_result:
  "fst (capture_transport_pressure T t s) = Inr () \<or> (\<exists>e. fst (capture_transport_pressure T t s) = Inl e \<and> adapter_fault e)"
  by (simp add: capture_transport_pressure_def observe_transport_pressure_def adapter_fault_def Let_def)

lemma capture_upholds:
  assumes "slot_running S V H s"
  shows "upholds (drive_faults l) S V H (capture_transport_pressure T t s)"
proof (cases "capture_transport_pressure T t s")
  case (Pair r s')
  then have "slot_running S V H s'" using capture_frame(1) [of S V H T t s] assms by simp
  then show ?thesis
    using capture_result [of T t s] slot_runningD(1,2) [of S V H s']
    by (auto simp: Pair drive_faults_def)
qed

section \<open>Reading and decoding\<close>

theorem decoder_upholds:
  fixes S :: "('g, 'd, 'r, 'e, 'c, 'q, 'k, 'o, 'l) services"
  assumes S: "services_ok S V" and run: "slot_running S V H s"
  shows "upholds (event_overflow (sl_limits s)) S V H (drive_decoder_once S s)"
proof -
  obtain result driver where d: "frame_driver_next_frame (sv_decoder S) (sl_driver s) = (result, driver)" by fastforce
  let ?s = "\<lambda>p. s\<lparr>sl_driver := driver, sl_decoder_pending := p\<rparr>" and ?s1 = "s\<lparr>sl_driver := driver\<rparr>"
  have run': "slot_running S V H (?s p)" "slot_running S V H ?s1" "slot_running S V H (?s1\<lparr>sl_classifier := c\<rparr>)" for p c
    using run by simp_all
  have reply: "upholds (event_overflow (sl_limits s)) S V H
      (case core_apply_reply (sv_externals S) \<lparr>reply_epoch = slot_epoch s, reply_key = key, reply_frame = frame\<rparr> (sl_core s) of
         (Inl e, c) \<Rightarrow> (Inl (EngCore e), ?s1\<lparr>sl_classifier := cl, sl_core := c\<rparr>)
       | (Inr t, c) \<Rightarrow> interpret_reply S t (?s1\<lparr>sl_classifier := cl, sl_core := c\<rparr>))"
    if "sv_frame_retained S frame \<le> reply_bytes (sl_limits s)" for key cl frame
    by (rule reply_upholds [OF S run'(3) [of cl],
          of "\<lparr>reply_epoch = slot_epoch s, reply_key = key, reply_frame = frame\<rparr>"]) (use that in simp_all)
  show ?thesis
  proof (cases result)
    case (Inl e)
    then show ?thesis using close_decode_error_upholds [OF S run'(1) [of False], of e] d by (simp add: drive_decoder_once_def)
  next
    case (Inr frame)
    then show ?thesis
      using d run'(1) close_for_upholds [OF S run'(1) [of False], of InboundRetainedCapacity]
        close_for_upholds [OF S run'(2), of InboundRetainedCapacity] close_malformed_upholds [OF S run'(3)] reply
      by (cases frame) (auto simp: drive_decoder_once_def Let_def not_less split: prod.split option.split)
  qed
qed

theorem read_upholds:
  assumes S: "services_ok S V" and run: "slot_running S V H s" and r: "drive_read_once S T s t = (result, s', t')"
  shows "upholds (drive_faults (sl_limits s)) S V H (result, s')"
proof -
  note close = faults_mono [OF close_for_upholds [OF S]] and decode = faults_mono [OF close_decode_error_upholds [OF S]]
  define len where "len = min (decoder_bytes (sl_limits s) - dec_retained_bytes (sv_decoder S) (fd_decoder (sl_driver s)))
      (length (sl_read_buffer s))"
  obtain io filled t1 where io: "tp_read T (take len (sl_read_buffer s)) t = (io, filled, t1)" by (cases "tp_read T (take len (sl_read_buffer s)) t")
  define s1 where "s1 = s\<lparr>sl_read_buffer := filled @ drop len (sl_read_buffer s)\<rparr>"
  have s1: "slot_running S V H s1" "sl_limits s1 = sl_limits s" "sl_state s1 = Running" "slot_books S V H s1"
    using run slot_runningD(1,2) [OF run] by (simp_all add: s1_def)
  have "(result, s') = (fst (drive_read_once S T s t), fst (snd (drive_read_once S T s t)))" by (simp add: r)
  also have "upholds (drive_faults (sl_limits s)) S V H \<dots>"
  proof (cases "tp_can_read T t \<and> len \<noteq> 0")
    case False
    then show ?thesis
      using run close [OF run, of InboundRetainedCapacity]
      by (auto simp: drive_read_once_def len_def Let_def)
  next
    case True
    show ?thesis
    proof (cases io)
      case (Inl source)
      have "slot_running S V H (record_transport_failure (diagnostic_from_io PhRead source) s1)" using s1 by simp
      from close [OF this, of TransportLost] show ?thesis using True io Inl s1 by (simp add: drive_read_once_def Let_def flip: len_def s1_def)
    next
      case (Inr n)
      obtain fed driver where fed: "frame_driver_feed (sv_externals S) (sv_decoder S) (take n (sl_read_buffer s1)) (sl_driver s1) =
          (fed, driver)" by fastforce
      have "slot_running S V H (s1\<lparr>sl_driver := driver\<rparr>)" "slot_running S V H (s1\<lparr>sl_driver := driver, sl_decoder_pending := True\<rparr>)"
        using s1 by simp_all
      from decode [OF this(1)] this(2) close [OF s1(1), of TransportLost] show ?thesis
        using True io Inr s1 fed
        by (auto simp: drive_read_once_def Let_def drive_faults_def adapter_fault_def split: nat.split sum.split simp flip: len_def s1_def)
    qed
  qed
  finally show ?thesis .
qed

section \<open>Writing\<close>

lemma advance_any:
  assumes S: "services_ok S V" and run: "slot_running S V H s" and fr: "wq_frames (core_writes (sl_core s)) = w # ws"
  shows "upholds (drive_faults (sl_limits s)) S V H (slot_advance_write S (slot_epoch s) (qw_effect w) n s)"
proof (cases "n \<le> remaining_bytes w")
  case True
  then show ?thesis by (rule faults_mono [OF advance_upholds [OF S run fr]])
next
  case False
  have ok: "core_ok (sv_externals S) (sl_core s) (mset (map permit_reservation (sh_permits H)))"
    by (rule running_owner [OF S run])
  obtain c where c: "core_advance_write (sv_externals S) (slot_epoch s) (qw_effect w) n (sl_core s) =
      (Inl (CoreInvariant (WriteProgressContract n (remaining_bytes w))), c)" and broken: "broken_core (sl_core s) c"
    by (rule core_advance_exceeds [OF services_okD(1) [OF S] ok fr, of n]) (use False fr in \<open>auto simp: broken_core_def\<close>)
  have "lost_books S V H (s\<lparr>sl_core := c\<rparr>)"
    unfolding lost_books_def using slot_runningD(2) [OF run] broken by (intro exI [of _ "sl_core s"]) simp
  with c show ?thesis
    using slot_runningD(1) [OF run] by (simp add: slot_advance_write_def drive_faults_def adapter_fault_def)
qed

lemma stable_front:
  assumes "slot_running S V H s" "wq_frames (core_writes (sl_core s)) = w # ws"
  shows "length (of_bytes (qw_frame w)) = wire_bytes (qw_measure w)"
  using slot_runningD(6) [OF assms(1)] assms(2) by (auto simp: configured_def frames_stable_def measured_def)

theorem write_upholds:
  assumes S: "services_ok S V" and run: "slot_running S V H s" and r: "drive_write_once S T s t = (result, s', t')"
  shows "upholds (drive_faults (sl_limits s)) S V H (result, s')"
proof -
  note close = faults_mono [OF close_for_upholds [OF S]]
  have ok: "core_ok (sv_externals S) (sl_core s) (mset (map permit_reservation (sh_permits H)))"
    by (rule running_owner [OF S run])
  have "(result, s') = (fst (drive_write_once S T s t), fst (snd (drive_write_once S T s t)))" by (simp add: r)
  also have "upholds (drive_faults (sl_limits s)) S V H \<dots>"
  proof (cases "wq_frames (core_writes (sl_core s))")
    case Nil
    then show ?thesis using run front_write_idle [OF ok Nil, of of_bytes] by (simp add: drive_write_once_def)
  next
    case (Cons w ws)
    note front = front_write_exact [where view = of_bytes, OF ok Cons stable_front [OF run Cons]] and adv = advance_any [OF S run Cons]
    let ?bytes = "take (io_chunk_bytes (sl_limits s)) (drop (qw_written w) (of_bytes (qw_frame w)))"
    obtain io t1 where io: "tp_write T ?bytes t = (io, t1)" by fastforce
    have "slot_running S V H (record_transport_failure d s)" for d using run by simp
    note lost = close [OF this, of TransportLost] close [OF run, of TransportLost]
    show ?thesis
      using run front adv io lost
      by (cases io) (auto simp: drive_write_once_def Let_def split: nat.split)
  qed
  finally show ?thesis .
qed

section \<open>Transport-local work\<close>

lemma validate_fault: "validate_transport_progress budget p = Inl e \<Longrightarrow> adapter_fault e"
  by (auto simp: validate_transport_progress_def adapter_fault_def split: if_splits)

lemma transport_opened_upholds:
  assumes S: "services_ok S V" and run: "slot_running S V H s" and c: "is_connecting s"
  shows "upholds (drive_faults (sl_limits s)) S V H (publish_transport_opened S (s\<lparr>sl_transport_state := TransportOpen\<rparr>))"
proof -
  let ?s = "s\<lparr>sl_transport_state := TransportOpen\<rparr>"
  note r = slot_runningD [OF run]
  have live: "m_phase (core_machine (sl_core s)) = Live" "sl_transport_state s = Connecting"
    using r(3) c by (cases "m_phase (core_machine (sl_core s))"; simp add: phase_follows_def is_connecting_def Let_def)+
  have "upholds (event_overflow (sl_limits ?s)) S V H (publish_sequenced S EvTransportOpened ?s)"
  proof (rule publish_upholds [OF S, where n = 0])
    show "phase_follows ?s" "0 < stage ?s" using r(3) live by (simp_all add: phase_follows_def stage_def Let_def)
    show "events_ok 0 (slot_epoch ?s) (all_events S H ?s) (sl_event_sequence ?s)"
      using r(5) live by (simp add: stage_def all_events_def)
    show "configured V ?s" "simulates S H [] ?s" "roomy S H [] ?s" "mirrored V (due_of ?s) ?s"
      using r(6-9) by (simp_all add: configured_def simulates_def roomy_def mirrored_def due_of_def all_outcomes_def)
  qed (use r(1,4) in simp_all)
  then show ?thesis by (intro faults_mono) (simp add: publish_transport_opened_def)
qed

theorem transport_upholds:
  assumes S: "services_ok S V" and run: "slot_running S V H s"
    and r: "drive_transport_once S T remaining s t = (result, s', t')"
  shows "upholds (drive_faults (sl_limits s)) S V H (result, s')"
proof -
  have run': "slot_running S V H (record_transport_failure d s)" for d using run by simp
  note close = faults_mono [OF close_for_upholds [OF S run']] and st = slot_runningD(1,2) [OF run]
  have opened: "is_connecting s \<Longrightarrow>
      upholds (drive_faults (sl_limits s)) S V H (publish_transport_opened S (s\<lparr>sl_transport_state := TransportOpen\<rparr>))"
    by (rule transport_opened_upholds [OF S run])
  let ?b = "transport_budget_new 1 (io_chunk_bytes (sl_limits s)) (io_chunk_bytes (sl_limits s))"
  obtain est t1 where est: "tp_drive_establishment T (sl_socket_policy s) ?b t = (est, t1)" by fastforce
  obtain work t2 where work: "tp_drive_transport T ?b t = (work, t2)" by fastforce
  have early: "upholds (drive_faults (sl_limits s)) S V H (Inl (EngInvariant TransportOpenedBeforeEstablishment), s)"
    using st by (simp add: drive_faults_def adapter_fault_def)
  have bad: "upholds (drive_faults (sl_limits s)) S V H (Inl e, s)" if "validate_transport_progress ?b p = Inl e" for p e
    using st validate_fault [OF that] by (simp add: drive_faults_def)
  have "(result, s') = (fst (drive_transport_once S T remaining s t), fst (snd (drive_transport_once S T remaining s t)))"
    by (simp add: r)
  also have "upholds (drive_faults (sl_limits s)) S V H \<dots>"
  proof (cases "is_connecting s")
    case True
    then show ?thesis
      using est run early bad close [of ConnectFailed] opened
      by (cases est) (auto simp: drive_transport_once_def Let_def simp del: upholds_simps(2) split: sum.split)
  next
    case False
    then show ?thesis
      using work run bad close [of TransportLost]
      by (cases work) (auto simp: drive_transport_once_def Let_def simp del: upholds_simps(2) split: sum.split)
  qed
  finally show ?thesis .
qed

end
