(* ===== verification/SlotQuantumInv.thy ===== *)
theory SlotQuantumInv
  imports SlotDriveInv
begin

text \<open>
  One quantum of a slot: deadlines, ready work and shutdown keep the invariant, the two loops over
  transport work return for every transport with well-formed reports, and the work they count stays
  within the budget.
\<close>

section \<open>Deadlines\<close>

text \<open>An elapsed drain bound is dropped before the epoch is closed for it.\<close>

lemma owed_undrained:
  assumes o: "owed False S V H es s" and closing: "m_phase (core_machine (sl_core s)) = Closing"
    "m_close_reason (core_machine (sl_core s)) = Some reason" "reason \<noteq> Drained" "sl_close_request s = None"
  shows "owed False S V H es (s\<lparr>sl_drain_deadline := None\<rparr>)"
proof -
  have "\<not> phase_follows s" using closing(1,4) by (simp add: phase_follows_def Let_def)
  then have "\<exists>reason. close_reasons es = [reason] \<and> closing_owed False S H reason (s\<lparr>sl_drain_deadline := None\<rparr>)"
    using o closing by (auto simp: owed_def closing_owed_def Let_def)
  moreover have "configured V (s\<lparr>sl_drain_deadline := None\<rparr>) = configured V s"
    "simulates S H p (s\<lparr>sl_drain_deadline := None\<rparr>) = simulates S H p s"
    "roomy S H p (s\<lparr>sl_drain_deadline := None\<rparr>) = roomy S H p s"
    "mirrored V due (s\<lparr>sl_drain_deadline := None\<rparr>) = mirrored V due s"
    "due_of (s\<lparr>sl_drain_deadline := None\<rparr>) = due_of s" for p due
    by (simp_all add: configured_def simulates_def roomy_def mirrored_def due_of_def all_outcomes_def)
  ultimately show ?thesis using o by (simp add: owed_def)
qed

lemma drain_bound_upholds:
  assumes S: "services_ok S V" and run: "slot_running S V H s" and dd: "sl_drain_deadline s \<noteq> None"
  shows "upholds (event_overflow (sl_limits s)) S V H (close_for S Requested (s\<lparr>sl_drain_deadline := None\<rparr>))"
proof -
  let ?X = "sv_externals S" and ?m = "core_machine (sl_core s)" and ?input = "CloseRequested (slot_epoch s) Requested"
  have ok: "core_ok ?X (sl_core s) (mset (map permit_reservation (sh_permits H)))" by (rule running_owner [OF S run])
  have gate: "m_gate ?m = Draining" using slot_runningD(3) [OF run] dd by (simp add: phase_follows_def Let_def)
  then have live: "m_phase ?m = Live" using machine_lifecycle [OF ok] by (auto simp: lifecycle_ok_def split: if_splits)
  then have none: "sl_close_request s = None" using slot_runningD(3) [OF run] by (simp add: phase_follows_def Let_def)
  have m': "m_phase (snd (machine_apply ?X ?input ?m)) = Closing"
    "m_close_reason (snd (machine_apply ?X ?input ?m)) = Some Requested"
    using live by (simp_all add: close_requested_def close_into_def close_with_failure_into_def close_records_exact Let_def)
  obtain t c where t: "core_apply ?X ?input (sl_core s) = (Inr t, c)" "core_machine c = snd (machine_apply ?X ?input ?m)"
    "\<forall>e \<in> set (tr_effects t). sent_back {} e" "owed False S V H (map retype_effect (tr_effects t)) (s\<lparr>sl_core := c\<rparr>)"
    by (rule apply_owed [OF S run, of False ?input]) (simp_all add: plain_input_def early_report_def)
  have "owed False S V H (map retype_effect (tr_effects t)) (s\<lparr>sl_core := c, sl_drain_deadline := None\<rparr>)"
    using owed_undrained [OF t(4), of Requested] m' none t(2) by simp
  from interpret_unit_upholds [OF S this t(3)]
  have "upholds (event_overflow (sl_limits s)) S V H (interpret_unit S t (s\<lparr>sl_core := c, sl_drain_deadline := None\<rparr>))"
    by (simp add: missing_bound_def)
  moreover have swap: "s\<lparr>sl_drain_deadline := None, sl_core := c\<rparr> = s\<lparr>sl_core := c, sl_drain_deadline := None\<rparr>"
    by (rule ConnectionSlot.equality) simp_all
  have "close_for S Requested (s\<lparr>sl_drain_deadline := None\<rparr>) = interpret_unit S t (s\<lparr>sl_drain_deadline := None, sl_core := c\<rparr>)"
    using t(1) by (simp add: close_for_def slot_apply_def)
  ultimately show ?thesis unfolding swap by simp
qed

theorem deadlines_upholds:
  assumes S: "services_ok S V" and run: "slot_running S V H s"
  shows "upholds (event_overflow (sl_limits s)) S V H (drive_deadlines_loop S now n work s)"
  using run
proof (induction n arbitrary: work s)
  case (Suc n)
  note run = Suc.prems
  show ?case
  proof (cases "drain_first S now s \<or> connect_first S now s")
    case True
    let ?d = "diagnostic_new PhShutdown FkTimedOut KindTimedOut None"
    have "upholds (event_overflow (sl_limits s)) S V H
        (close_for S Requested ((record_transport_failure ?d s)\<lparr>sl_drain_deadline := None\<rparr>))" if "drain_first S now s"
      using drain_bound_upholds [OF S, of H "record_transport_failure ?d s"] run that
      by (auto simp: drain_first_def record_transport_failure_def split: option.splits)
    then show ?thesis using True close_for_upholds [OF S run, of ConnectTimedOut] by auto
  next
    case False
    obtain due timers where pop: "tq_pop_due (sv_timers S) now (sl_timers s) = (due, timers)" by fastforce
    show ?thesis
    proof (cases due)
      case None
      have "vw_armed V timers = vw_armed V (sl_timers s)" "vw_capacity V timers = vw_capacity V (sl_timers s)"
        using pop_due_law [OF S, of now "sl_timers s"] pop None by simp_all
      then have "slot_running S V H (s\<lparr>sl_timers := timers\<rparr>)"
        using slot_runningD [OF run] by (intro running_recore [OF run, where c' = "sl_core s" and en = "sl_deadlines s" and ti = timers])
          (simp_all add: configured_def simulates_def roomy_def mirrored_def due_of_def all_outcomes_def)
      then show ?thesis using False pop None by simp
    next
      case (Some fired)
      obtain k event where fired: "fired = (k, event)" by fastforce
      note up = timer_upholds [OF S run pop [unfolded Some fired]]
      have "upholds (event_overflow (sl_limits s)) S V H
          (try_then (drive_timer S now k event (s\<lparr>sl_timers := timers\<rparr>)) (\<lambda>_ s1.
             if sl_close_request s1 \<noteq> None then (Inr (work + 1), s1)
             else drive_deadlines_loop S now n (work + 1) s1))"
      proof (rule upholds_try [OF up])
        fix x s1 assume out: "drive_timer S now k event (s\<lparr>sl_timers := timers\<rparr>) = (Inr x, s1)" and s1: "slot_running S V H s1"
        have "sl_limits s1 = sl_limits s" using drive_limits(3) [of S now k event "s\<lparr>sl_timers := timers\<rparr>"] out by simp
        with Suc.IH [OF s1] s1 show "upholds (event_overflow (sl_limits s)) S V H (if sl_close_request s1 \<noteq> None
            then (Inr (work + 1), s1) else drive_deadlines_loop S now n (work + 1) s1)" by simp
      qed
      then show ?thesis using False pop Some fired by simp
    qed
  qed
qed simp

lemma deadlines_work: "drive_deadlines_loop S now n work s = (Inr w, s') \<Longrightarrow> work \<le> w \<and> w \<le> work + n"
proof (induction n arbitrary: work s)
  case (Suc n)
  then show ?case by (fastforce simp: try_then_Inr split: if_splits prod.splits option.splits)
qed simp

section \<open>Ready work\<close>

lemma validate_ok:
  assumes "validate_transport_progress (transport_budget_new (Suc 0) r w) p = Inr ()" "progress_wf p"
  shows "tpr_operations p = Suc 0"
  using assms progress_busy [of p]
  by (auto simp: validate_transport_progress_def progress_fits_def transport_budget_new_def split: if_splits)

text \<open>Each step counts as one unit of work, provided the transport reports well.\<close>

lemma transport_wfD:
  assumes "transport_wf T"
  shows "tp_drive_establishment T policy budget t = (Inr p, t') \<Longrightarrow> progress_wf p"
    "tp_drive_transport T budget t = (Inr p, t') \<Longrightarrow> progress_wf p"
    "tp_begin_shutdown T budget t = (Inr p, t') \<Longrightarrow> progress_wf p"
  using assms unfolding transport_wf_def by blast+

lemma transport_once_unit:
  assumes "transport_wf T" "drive_transport_once S T remaining s t = (Inr (Some n), s', t')"
  shows "n = 1"
  using assms(2)
  by (auto simp: drive_transport_once_def Let_def on_slot_def try_then_Inr
      dest!: transport_wfD(1,2) [OF assms(1)] dest: validate_ok split: if_splits prod.splits sum.splits)

lemma drive_preference_limits: "sl_limits (fst (snd (drive_preference S T remaining preference s t))) = sl_limits s"
  by (cases preference) (simp_all add: drive_preference_def Let_def case_prod_unfold)

lemma preference_upholds:
  assumes S: "services_ok S V" and run: "slot_running S V H s"
    and p: "drive_preference S T remaining preference s t = (result, s', t')"
  shows "upholds (drive_faults (sl_limits s)) S V H (result, s')"
    "transport_wf T \<Longrightarrow> result = Inr (Some n) \<Longrightarrow> n = 1" "sl_limits s' = sl_limits s"
proof -
  have id: "upholds A S V H (map_sum id f r, x) = upholds A S V H (r, x)" for A f r x by (cases r) simp_all
  obtain r1 s1 t1 where r1: "drive_read_once S T s t = (r1, s1, t1)" by (cases "drive_read_once S T s t")
  obtain r2 s2 t2 where r2: "drive_write_once S T s t = (r2, s2, t2)" by (cases "drive_write_once S T s t")
  note up = transport_upholds [OF S run] faults_mono [OF decoder_upholds [OF S run]] read_upholds [OF S run r1] write_upholds [OF S run r2]
  have decode: "upholds (drive_faults (sl_limits s)) S V H (try_then (drive_decoder_once S s) (\<lambda>_ s1. (Inr (Some (1 :: usize)), s1)))"
    using up(2) by simp
  show "upholds (drive_faults (sl_limits s)) S V H (result, s')"
  proof (cases "preference = PrefDecode \<and> sl_decoder_pending s")
    case True
    with p have "try_then (drive_decoder_once S s) (\<lambda>_ s1. (Inr (Some 1), s1)) = (result, s')"
      by (simp add: drive_preference_def on_slot_def split: prod.splits)
    with decode show ?thesis by (simp only:)
  next
    case False
    then show ?thesis
      using p up run r1 r2
      by (cases preference) (auto simp: drive_preference_def Let_def id on_slot_def split: if_splits prod.splits)
  qed
  show "n = 1" if "transport_wf T" "result = Inr (Some n)"
    using p that transport_once_unit [of T S remaining s t] r1 r2
    by (cases preference; cases r1; cases r2)
      (auto simp: drive_preference_def Let_def on_slot_def try_then_Inr split: if_splits prod.splits)
  show "sl_limits s' = sl_limits s" using drive_preference_limits [of S T remaining preference s t] by (simp add: p)
qed

theorem ready_upholds:
  assumes S: "services_ok S V" and run: "slot_running S V H s"
    and p: "drive_ready_loop S T remaining rounds preference s t = (result, s', t')"
  shows "upholds (drive_faults (sl_limits s)) S V H (result, s') \<and>
    (transport_wf T \<longrightarrow> (\<forall>n. result = Inr (Some n) \<longrightarrow> n = 1)) \<and> sl_limits s' = sl_limits s"
  using run p
proof (induction rounds arbitrary: preference s t)
  case (Suc rounds)
  obtain r1 s1 t1 where d: "drive_preference S T remaining preference s t = (r1, s1, t1)"
    by (cases "drive_preference S T remaining preference s t")
  note one = preference_upholds [OF S Suc.prems(1) d]
  obtain pr s2 where c: "capture_transport_pressure T t1 s1 = (pr, s2)" by fastforce
  have s2: "slot_running S V H s2 = slot_running S V H s1" "slot_books S V H s2 = slot_books S V H s1" "sl_state s2 = sl_state s1"
    "sl_limits s2 = sl_limits s1" "lost_books S V H s2 = lost_books S V H s1"
    using capture_frame(1,2,3) [of S V H T t1 s1] capture_frame(4) [of T t1 s1] drive_limits(1) [of T t1 s1] by (simp_all add: c)
  show ?case
  proof (cases r1)
    case (Inl e)
    then show ?thesis using Suc.prems(2) d c one s2 by auto
  next
    case (Inr adv)
    then have run2: "slot_running S V H s2" using one(1) s2 by simp
    show ?thesis
    proof (cases "pr = Inr () \<and> adv = None")
      case True
      then show ?thesis using Suc.IH [OF run2, of "pref_next preference" t1] Suc.prems(2) d c Inr one(3) s2(4) by simp
    next
      case False
      then show ?thesis
        using Suc.prems(2) d c Inr one run2 s2 capture_upholds [OF run2 [unfolded s2(1)], of "sl_limits s" T t1]
        by (cases pr; cases adv) auto
    qed
  qed
qed auto

section \<open>Graceful shutdown\<close>

lemma directive_running:
  assumes "slot_running S V H s" "sl_close_request s = Some (DirCore reason shutdown)"
  shows "slot_running S V H (force_shutdown_settlement reason s)" "slot_running S V H (complete_shutdown reason s)"
    "slot_running S V H (shutdown_timed_out reason s)"
    "slot_running S V H (force_shutdown_settlement reason (record_transport_failure d s))"
proof -
  have fail: "slot_running S V H (record_transport_failure d s)" "sl_close_request (record_transport_failure d s) = sl_close_request s" for d
    using assms(1) by (simp_all add: record_transport_failure_def)
  note set = close_request_running [OF assms] and set' = close_request_running [OF fail(1), unfolded fail(2), OF assms(2)]
  show "slot_running S V H (force_shutdown_settlement reason s)" "slot_running S V H (complete_shutdown reason s)"
    "slot_running S V H (shutdown_timed_out reason s)"
    "slot_running S V H (force_shutdown_settlement reason (record_transport_failure d s))"
    using set set' by (simp_all add: force_shutdown_settlement_def complete_shutdown_def shutdown_timed_out_def)
qed

lemma shutdown_call_upholds:
  assumes run: "slot_running S V H s" and req: "sl_close_request s = Some (DirCore reason shutdown)"
    and call: "after_shutdown_call T reason deadline (transport_budget s) call s = (result, s', t')"
    and wf: "\<And>p t1. call = (Inr p, t1) \<Longrightarrow> transport_wf T \<Longrightarrow> progress_wf p"
  shows "upholds (drive_faults l) S V H (result, s') \<and> (transport_wf T \<longrightarrow> (\<forall>n. result = Inr (Some n) \<longrightarrow> n = 1))"
proof -
  obtain out t1 where out: "call = (out, t1)" by fastforce
  obtain pr s1 where c: "capture_transport_pressure T t1 s = (pr, s1)" by fastforce
  have s1: "slot_running S V H s1" "sl_close_request s1 = Some (DirCore reason shutdown)"
    using capture_frame(1) [of S V H T t1 s] capture_frame(5) [of T t1 s] run req by (simp_all add: c)
  note dir = directive_running [OF s1] and st = slot_runningD(1,2)
  have pr: "pr = Inr () \<or> (\<exists>e. pr = Inl e \<and> adapter_fault e)" using capture_result [of T t1 s] by (simp add: c)
  show ?thesis
  proof (cases out)
    case (Inl source)
    then show ?thesis
      using call out c pr dir(4) st [OF dir(4)] by (auto simp: after_shutdown_call_def drive_faults_def Let_def)
  next
    case (Inr p)
    have unit: "validate_transport_progress (transport_budget s) p = Inr () \<Longrightarrow> transport_wf T \<Longrightarrow> tpr_operations p = 1"
      using validate_ok [of "io_chunk_bytes (sl_limits s)" "io_chunk_bytes (sl_limits s)" p] wf [of p t1] out Inr
      by (simp add: transport_budget_def)
    show ?thesis
      using call out c pr dir(1) st [OF dir(1)] Inr unit close_request_running [OF s1]
      by (auto simp: after_shutdown_call_def drive_faults_def Let_def validate_fault split: sum.splits if_splits)
  qed
qed

theorem shutdown_upholds:
  assumes run: "slot_running S V H s" and d: "drive_shutdown_once S T now remaining s t = (result, s', t')"
  shows "upholds (drive_faults l) S V H (result, s') \<and> (transport_wf T \<longrightarrow> (\<forall>n. result = Inr (Some n) \<longrightarrow> n = 1)) \<and>
    sl_limits s' = sl_limits s"
proof -
  have lim: "sl_limits s' = sl_limits s" using drive_shutdown_limits [of S T now remaining s t] by (simp add: d)
  show ?thesis
  proof (cases "\<exists>reason deadline. sl_close_request s = Some (DirCore reason (ShutPending deadline)) \<or>
      sl_close_request s = Some (DirCore reason (ShutStarted deadline))")
    case False
    then show ?thesis
      using d run lim by (auto simp: drive_shutdown_once_def split: option.splits CloseDirective.splits ShutdownState.splits)
  next
    case True
    then obtain reason deadline shutdown where req: "sl_close_request s = Some (DirCore reason shutdown)"
      "shutdown = ShutPending deadline \<or> shutdown = ShutStarted deadline" by blast
    note dir = directive_running [OF run req(1)]
    have call: "upholds (drive_faults l) S V H (result, s') \<and> (transport_wf T \<longrightarrow> (\<forall>n. result = Inr (Some n) \<longrightarrow> n = 1))"
      if "after_shutdown_call T reason deadline (transport_budget s) call s = (result, s', t')"
        "call = tp_begin_shutdown T (transport_budget s) t \<or> call = tp_drive_transport T (transport_budget s) t" for call
      by (rule shutdown_call_upholds [OF run req(1) that(1)]) (use that(2) in \<open>metis transport_wfD(2,3)\<close>)
    show ?thesis
      using req d run lim dir(2,3) call [of "tp_begin_shutdown T (transport_budget s) t"]
        call [of "tp_drive_transport T (transport_budget s) t"]
      by (auto simp: drive_shutdown_once_def progress_shutdown_def split: if_splits)
  qed
qed

section \<open>The loops return\<close>

lemma io_loop_step:
  assumes S: "services_ok S V" and T: "transport_wf T" and run: "slot_running S V H s" and work: "work < budget" "sl_close_request s = None"
  obtains (stop) r s' transport' where "drive_io_loop S T budget work s transport = Some (r, s', transport')"
      "upholds (drive_faults (sl_limits s)) S V H (r, s')" "sl_limits s' = sl_limits s" "\<forall>w. r = Inr w \<longrightarrow> w \<le> budget"
  | (go) s' transport' where "drive_io_loop S T budget work s transport = drive_io_loop S T budget (work + 1) s' transport'"
      "slot_running S V H s'" "sl_limits s' = sl_limits s"
proof (cases transport)
  case (Some t)
  obtain r s1 t1 where r: "drive_ready_once S T (budget - work) s t = (r, s1, t1)" by (cases "drive_ready_once S T (budget - work) s t")
  note up = ready_upholds [OF S run r [unfolded drive_ready_once_def]]
  show ?thesis
  proof (cases "\<exists>n. r = Inr (Some n)")
    case True
    then have "r = Inr (Some 1)" using up T by auto
    with r Some work up show ?thesis by (intro go [of s1 "Some t1"]) (simp_all add: drive_io_loop.simps [of S T budget work s "Some t"])
  next
    case False
    with r Some work up show ?thesis
      by (intro stop [of "map_sum id (\<lambda>_. work) r" s1 "Some t1"]; cases r)
        (auto simp: drive_io_loop.simps [of S T budget work s "Some t"] split: option.split)
  qed
next
  case None
  show ?thesis
  proof (cases "sl_decoder_pending s")
    case True
    obtain r s1 where r: "drive_decoder_once S s = (r, s1)" by fastforce
    have up: "upholds (drive_faults (sl_limits s)) S V H (r, s1)" "sl_limits s1 = sl_limits s"
      using faults_mono [OF decoder_upholds [OF S run]] drive_limits(2) [of S s] r by simp_all
    show ?thesis
    proof (cases r)
      case (Inl e)
      with r True None work up show ?thesis
        by (intro stop [of "Inl e" s1 None]) (auto simp: drive_io_loop.simps [of S T budget work s None])
    next
      case (Inr u)
      with r True None work up show ?thesis
        by (intro go [of "s1\<lparr>sl_io_preference := PrefRead\<rparr>" None]) (simp_all add: drive_io_loop.simps [of S T budget work s None])
    qed
  next
    case False
    with None work run show ?thesis
      by (intro stop [of "Inr work" s None]) (simp_all add: drive_io_loop.simps [of S T budget work s None])
  qed
qed

text \<open>The result of a loop: it returns, within its budget, with the invariant or a fault of the transport.\<close>

definition loop_ok ::
  "('g, 'd, 'r, 'e, 'c, 'q, 'k, 'o, 'l) services \<Rightarrow> ('q, 'k, 'o, 'l) views \<Rightarrow> 'r slot_history \<Rightarrow>
   ('g, 'd, 'c, 'q, 'k, 'o, 'l) ConnectionSlot \<Rightarrow> usize \<Rightarrow> ('a \<Rightarrow> usize) \<Rightarrow>
   ((EngineError + 'a) \<times> ('g, 'd, 'c, 'q, 'k, 'o, 'l) ConnectionSlot \<times> 't option) option \<Rightarrow> bool" where
  "loop_ok S V H s budget tally out \<longleftrightarrow>
     (\<exists>r s' transport'. out = Some (r, s', transport') \<and> upholds (drive_faults (sl_limits s)) S V H (r, s') \<and>
        sl_limits s' = sl_limits s \<and> (\<forall>p. r = Inr p \<longrightarrow> tally p \<le> budget))"

lemma loop_ok_Some [simp]:
  "loop_ok S V H s budget tally (Some (r, s', transport')) \<longleftrightarrow>
     upholds (drive_faults (sl_limits s)) S V H (r, s') \<and> sl_limits s' = sl_limits s \<and>
     (\<forall>p. r = Inr p \<longrightarrow> tally p \<le> budget)"
  by (simp add: loop_ok_def)

lemma loop_ok_from: "loop_ok S V H s' budget tally out \<Longrightarrow> sl_limits s' = sl_limits s \<Longrightarrow> loop_ok S V H s budget tally out"
  by (simp add: loop_ok_def)

theorem io_loop_returns:
  assumes S: "services_ok S V" and T: "transport_wf T" and run: "slot_running S V H s" and work: "work \<le> budget"
  shows "loop_ok S V H s budget id (drive_io_loop S T budget work s transport)"
  using run work
proof (induction "budget - work" arbitrary: work s transport)
  case 0
  have "\<not> work < budget" using "0.hyps" by simp
  then have "drive_io_loop S T budget work s transport = Some (Inr work, s, transport)"
    by (subst drive_io_loop.simps) simp
  then show ?case using "0.prems" by simp
next
  case (Suc n)
  have lt: "work < budget" using Suc.hyps(2) by simp
  show ?case
  proof (cases "sl_close_request s = None")
    case True
    from S T Suc.prems(1) lt True show ?thesis
    proof (cases rule: io_loop_step [where transport = transport])
      case (stop r s' transport')
      then show ?thesis by simp
    next
      case (go s' transport')
      have "loop_ok S V H s' budget id (drive_io_loop S T budget (work + 1) s' transport')"
        by (rule Suc.hyps(1)) (use Suc.hyps(2) go lt in auto)
      from loop_ok_from [OF this go(3)] show ?thesis by (simp only: go(1))
    qed
  next
    case False
    then have "drive_io_loop S T budget work s transport = Some (Inr work, s, transport)"
      by (subst drive_io_loop.simps) (simp only: if_False simp_thms)
    then show ?thesis using Suc.prems by simp
  qed
qed

theorem close_loop_returns:
  assumes T: "transport_wf T" and run: "slot_running S V H s" and work: "work \<le> budget" "budget \<le> USIZE_MAX"
  shows "loop_ok S V H s budget id (drive_close_loop S T now budget work s transport)"
  using run work
proof (induction "budget - work" arbitrary: work s transport)
  case 0
  have "\<not> work < budget" using "0.hyps" by simp
  then have "drive_close_loop S T now budget work s transport = Some (Inr work, s, transport)"
    by (subst drive_close_loop.simps) simp
  then show ?case using "0.prems" by simp
next
  case (Suc n)
  have lt: "work < budget" using Suc.hyps(2) by simp
  show ?case
  proof (cases transport)
    case None
    then have "drive_close_loop S T now budget work s transport = Some (Inr work, s, transport)"
      by (subst drive_close_loop.simps) simp
    then show ?thesis using Suc.prems by simp
  next
    case (Some t)
    obtain r s1 t1 where r: "drive_shutdown_once S T now (budget - work) s t = (r, s1, t1)"
      by (cases "drive_shutdown_once S T now (budget - work) s t")
    note up = shutdown_upholds [OF Suc.prems(1) r, of "sl_limits s"]
    show ?thesis
    proof (cases "\<exists>n. r = Inr (Some n)")
      case True
      then have one: "r = Inr (Some 1)" using up T by auto
      then have next_loop: "drive_close_loop S T now budget work s transport = drive_close_loop S T now budget (work + 1) s1 (Some t1)"
        using r Some lt Suc.prems(3) by (subst drive_close_loop.simps) (simp add: usize_saturating_add_def)
      have "loop_ok S V H s1 budget id (drive_close_loop S T now budget (work + 1) s1 (Some t1))"
        by (rule Suc.hyps(1)) (use Suc.hyps(2) Suc.prems(3) up one lt in auto)
      from loop_ok_from [OF this] up show ?thesis by (simp add: next_loop)
    next
      case False
      then have "drive_close_loop S T now budget work s transport = Some (map_sum id (\<lambda>_. work) r, s1, Some t1)"
        using r Some lt by (subst drive_close_loop.simps) (auto split: sum.split option.split)
      with up lt show ?thesis by (cases r) auto
    qed
  qed
qed

section \<open>The quantum\<close>

lemma close_quantum_ok:
  assumes "transport_wf T" "slot_running S V H s" "work \<le> budget" "budget \<le> USIZE_MAX"
  shows "loop_ok S V H s budget spr_work (drive_close_quantum S T now budget work s transport)"
proof -
  obtain r s' transport' where "drive_close_loop S T now budget work s transport = Some (r, s', transport')"
    "upholds (drive_faults (sl_limits s)) S V H (r, s')" "sl_limits s' = sl_limits s" "\<forall>w. r = Inr w \<longrightarrow> w \<le> budget"
    using close_loop_returns [OF assms, of now transport] by (auto simp: loop_ok_def)
  then show ?thesis by (cases r) (simp_all add: drive_close_quantum_def with_progress_def)
qed

lemma after_deadlines_ok:
  assumes S: "services_ok S V" and T: "transport_wf T" and run: "slot_running S V H s"
    and work: "work \<le> budget" "budget \<le> USIZE_MAX"
  shows "loop_ok S V H s budget spr_work (drive_after_deadlines S T now budget work s transport)"
proof (cases "sl_close_request s \<noteq> None \<or> work = budget")
  case True
  then show ?thesis
    using close_quantum_ok [OF T run work] run by (auto simp: drive_after_deadlines_def Let_def)
next
  case False
  obtain r s1 tr1 where io: "drive_io_loop S T (budget - work) 0 s transport = Some (r, s1, tr1)"
    "upholds (drive_faults (sl_limits s)) S V H (r, s1)" "sl_limits s1 = sl_limits s" "\<forall>w. r = Inr w \<longrightarrow> w \<le> budget - work"
    using io_loop_returns [OF S T run, of 0 "budget - work" transport] by (auto simp: loop_ok_def)
  show ?thesis
  proof (cases r)
    case (Inl e)
    then show ?thesis using False io by (auto simp: drive_after_deadlines_def drive_io_def with_progress_def)
  next
    case (Inr w)
    have sum: "usize_saturating_add work w = work + w" "work + w \<le> budget"
      using io(4) Inr work by (auto simp: usize_saturating_add_def)
    have "slot_running S V H s1" using io(2) Inr by simp
    from loop_ok_from [OF close_quantum_ok [OF T this sum(2) work(2), of now tr1] io(3)] this
    show ?thesis
      using False io Inr sum by (auto simp: drive_after_deadlines_def drive_io_def with_progress_def Let_def)
  qed
qed

lemma capture_present_upholds:
  assumes "slot_running S V H s" "capture_if_present T transport s = (r, s')"
  shows "upholds (drive_faults l) S V H (r, s')" "sl_limits s' = sl_limits s"
proof -
  show "upholds (drive_faults l) S V H (r, s')"
  proof (cases transport)
    case (Some t)
    then show ?thesis using capture_upholds [OF assms(1), of l T t] assms(2) by (simp add: capture_if_present_def)
  qed (use assms in \<open>auto simp: capture_if_present_def\<close>)
  have "sl_limits (snd (capture_if_present T transport s)) = sl_limits s"
    by (cases transport) (simp_all add: capture_if_present_def)
  then show "sl_limits s' = sl_limits s" by (simp add: assms(2))
qed

theorem quantum_inner_ok:
  assumes S: "services_ok S V" and T: "transport_wf T" and run: "slot_running S V H s"
    and budget: "io_operations (sl_limits s) \<le> USIZE_MAX"
  shows "loop_ok S V H s (io_operations (sl_limits s)) spr_work (drive_quantum_inner S T now s transport)"
proof -
  let ?b = "io_operations (sl_limits s)"
  obtain pr s1 where c: "capture_if_present T transport s = (pr, s1)" by fastforce
  note s1 = capture_present_upholds [OF run c]
  show ?thesis
  proof (cases pr)
    case (Inl e)
    then show ?thesis using c s1 by (simp add: drive_quantum_inner_def)
  next
    case (Inr u)
    have run1: "slot_running S V H s1" using s1(1) Inr by simp
    define step where "step = (if sl_close_request s1 = None then drive_deadlines S now ?b s1 else (Inr 0, s1))"
    obtain dr s2 where d: "step = (dr, s2)" by fastforce
    have inner: "drive_quantum_inner S T now s transport =
        (case step of (Inl e, s2) \<Rightarrow> Some (Inl e, s2, transport)
         | (Inr work, s2) \<Rightarrow> drive_after_deadlines S T now ?b work s2 transport)"
      unfolding step_def by (simp add: drive_quantum_inner_def c Inr s1(2) Let_def split: prod.split sum.split)
    have "upholds (drive_faults (sl_limits s1)) S V H step" "sl_limits (snd step) = sl_limits s1"
      using run1 faults_mono [OF deadlines_upholds [OF S run1, of now ?b 0]] by (simp_all add: step_def drive_deadlines_def)
    then have s2: "upholds (drive_faults (sl_limits s)) S V H (dr, s2)" "sl_limits s2 = sl_limits s" by (simp_all add: d s1(2))
    have bound: "w \<le> ?b" if "dr = Inr w" for w
      using d that deadlines_work [of S now ?b 0 s1 w s2] by (auto simp: step_def drive_deadlines_def split: if_splits)
    show ?thesis
    proof (cases dr)
      case (Inl e)
      then show ?thesis using s2 by (simp add: inner d)
    next
      case (Inr w)
      have run2: "slot_running S V H s2" using s2(1) Inr by simp
      from loop_ok_from [OF after_deadlines_ok [OF S T run2 bound [OF Inr] budget, of now transport] s2(2)]
      show ?thesis using Inr by (simp add: inner d)
    qed
  qed
qed

end
