(* ===== verification/SlotEntry.thy ===== *)
theory SlotEntry
  imports SlotQuantumInv
begin

text \<open>
  The public operations of a slot: each refuses a failed slot, and latches the first failure of its
  own. A failed slot accepts nothing more, but its publications stay until they are drained or
  recovered.
\<close>

section \<open>Failed slots\<close>

text \<open>
  A failed slot asks for its transport to be aborted or has aborted it. Everything it has recorded is
  still right; if the owner itself broke, that is what the owner had recorded before.
\<close>

definition slot_failed ::
  "('g, 'd, 'r, 'e, 'c, 'q, 'k, 'o, 'l) services \<Rightarrow> ('q, 'k, 'o, 'l) views \<Rightarrow> 'r slot_history \<Rightarrow>
   ('g, 'd, 'c, 'q, 'k, 'o, 'l) ConnectionSlot \<Rightarrow> bool" where
  "slot_failed S V H s \<longleftrightarrow>
     (\<exists>reason. sl_state s = Failed reason \<and> (reason = OwnerCore \<and> lost_books S V H s \<or> slot_books S V H s)) \<and> sl_drain_deadline s = None \<and>
     (sl_close_request s = Some DirAbort \<or> sl_close_request s = None \<and> sl_transport_state s = TransportClosed)"

definition slot_holds ::
  "('g, 'd, 'r, 'e, 'c, 'q, 'k, 'o, 'l) services \<Rightarrow> ('q, 'k, 'o, 'l) views \<Rightarrow> 'r slot_history \<Rightarrow>
   ('g, 'd, 'c, 'q, 'k, 'o, 'l) ConnectionSlot \<Rightarrow> bool" where
  "slot_holds S V H s \<longleftrightarrow> slot_running S V H s \<or> slot_failed S V H s"

lemma holds_running: "slot_holds S V H s \<Longrightarrow> sl_state s = Running \<Longrightarrow> slot_running S V H s"
  by (auto simp: slot_holds_def slot_failed_def)

lemma holds_failed: "slot_holds S V H s \<Longrightarrow> sl_state s = Failed reason \<Longrightarrow> slot_failed S V H s"
  by (auto simp: slot_holds_def slot_running_def)

lemma holds_either: "slot_holds S V H s \<Longrightarrow> slot_books S V H s \<or> sl_state s = Failed OwnerCore \<and> lost_books S V H s"
  by (auto simp: slot_holds_def slot_failed_def slot_running_def)

text \<open>The owner whose decisions the slot has published: its own, or the one it had before it broke.\<close>

definition owner_before ::
  "('g, 'd, 'c, 'q, 'k, 'o, 'l) ConnectionSlot \<Rightarrow> (OutboundFrame, 'g) ConnectionCore \<Rightarrow> bool" where
  "owner_before s c \<longleftrightarrow> c = sl_core s \<or> sl_state s = Failed OwnerCore \<and> broken_core c (sl_core s)"

lemma owner_before_machine: "owner_before s c \<Longrightarrow> core_machine c = core_machine (sl_core s)"
  by (auto simp: owner_before_def broken_core_def)

lemma holds_owner:
  assumes "slot_holds S V H s"
  obtains c where "slot_books S V H (s\<lparr>sl_core := c\<rparr>)" "owner_before s c"
  using holds_either [OF assms] that [of "sl_core s"] that by (auto simp: lost_books_def owner_before_def)

lemma holds_books: "slot_holds S V H s \<Longrightarrow> sl_state s \<noteq> Failed OwnerCore \<Longrightarrow> slot_books S V H s"
  by (auto simp: slot_holds_def slot_failed_def slot_running_def)

section \<open>The latch\<close>

definition own_fault :: "EngineError \<Rightarrow> bool" where
  "own_fault e \<longleftrightarrow> (\<forall>reason. e \<noteq> EngOwnerFailed reason)"

lemma latched_fails:
  assumes "sl_state s = Running" "own_fault e" "(\<exists>e'. e = EngCore e') \<and> lost_books S V H s \<or> slot_books S V H s"
  shows "slot_failed S V H (latch_failure e s)" "sl_state (latch_failure e s) = Failed (owner_failure_from e)"
  using assms by (auto simp: slot_failed_def latch_failure_def latch_owner_failure_def own_fault_def split: EngineError.splits)

lemma latch_holds:
  assumes "upholds A S V H rs" "\<forall>e \<in> A. own_fault e" "latch rs = (r, s')"
  shows "slot_holds S V H s'"
    "\<And>x. r = Inr x \<Longrightarrow> slot_running S V H s' \<and> rs = (Inr x, s')"
    "\<And>e. r = Inl e \<Longrightarrow> e \<in> A \<and> sl_state s' = Failed (owner_failure_from e)"
proof -
  have "slot_holds S V H s' \<and> (\<forall>x. r = Inr x \<longrightarrow> slot_running S V H s' \<and> rs = (Inr x, s')) \<and>
    (\<forall>e. r = Inl e \<longrightarrow> e \<in> A \<and> sl_state s' = Failed (owner_failure_from e))"
  proof (cases rs)
    case (Pair x s)
    show ?thesis
    proof (cases x)
      case (Inl e)
      then have "e \<in> A" "sl_state s = Running" "(\<exists>e'. e = EngCore e') \<and> lost_books S V H s \<or> slot_books S V H s" using assms(1) Pair by simp_all
      with latched_fails [of s e S V H] assms(2,3) Pair Inl show ?thesis by (auto simp: latch_def slot_holds_def)
    next
      case (Inr y)
      then show ?thesis using assms Pair by (auto simp: latch_def slot_holds_def)
    qed
  qed
  then show "slot_holds S V H s'"
    "\<And>x. r = Inr x \<Longrightarrow> slot_running S V H s' \<and> rs = (Inr x, s')"
    "\<And>e. r = Inl e \<Longrightarrow> e \<in> A \<and> sl_state s' = Failed (owner_failure_from e)" by blast+
qed

lemma own_faults:
  "e \<in> event_overflow l \<Longrightarrow> own_fault e" "e \<in> drive_faults l \<Longrightarrow> own_fault e" "e \<in> missing_bound b \<Longrightarrow> own_fault e"
  by (auto simp: event_overflow_def drive_faults_def missing_bound_def own_fault_def adapter_fault_def
      split: if_splits EngineError.splits)

section \<open>The contract of a control operation\<close>

text \<open>
  An inner operation keeps the invariant or reports one of its faults. Guarded by the running check
  and the latch it keeps every slot, running or failed.
\<close>

locale slot_operation =
  fixes inner ::
    "('g, 'd, 'r, 'e, 'c, 'q, 'k, 'o, 'l) services \<Rightarrow> ('g, 'd, 'c, 'q, 'k, 'o, 'l) ConnectionSlot \<Rightarrow>
     (EngineError + 'a) \<times> ('g, 'd, 'c, 'q, 'k, 'o, 'l) ConnectionSlot"
    and faults :: "ConnectionSlotLimits \<Rightarrow> EngineError set"
  assumes keeps: "\<And>S V H s. services_ok S V \<Longrightarrow> slot_running S V H s \<Longrightarrow> upholds (faults (sl_limits s)) S V H (inner S s)"
    and own: "\<And>l e. e \<in> faults l \<Longrightarrow> own_fault e"
begin

lemma refused:
  "sl_state s = Failed reason \<Longrightarrow>
   try_then (ensure_running s) (\<lambda>_ s. latch (inner S s)) = (Inl (EngOwnerFailed reason), s)"
  by (simp add: ensure_running_def)

lemma guarded:
  assumes "services_ok S V" "slot_running S V H s" "try_then (ensure_running s) (\<lambda>_ s. latch (inner S s)) = (r, s')"
  shows "slot_holds S V H s'" "\<And>x. r = Inr x \<Longrightarrow> slot_running S V H s' \<and> inner S s = (Inr x, s')"
    "\<And>e. r = Inl e \<Longrightarrow> e \<in> faults (sl_limits s) \<and> sl_state s' = Failed (owner_failure_from e)"
proof -
  have out: "latch (inner S s) = (r, s')" using assms(3) running_state [OF assms(2)] by simp
  note l = latch_holds [OF keeps [OF assms(1,2)] _ out]
  show "slot_holds S V H s'" "\<And>x. r = Inr x \<Longrightarrow> slot_running S V H s' \<and> inner S s = (Inr x, s')"
    "\<And>e. r = Inl e \<Longrightarrow> e \<in> faults (sl_limits s) \<and> sl_state s' = Failed (owner_failure_from e)"
    using l own by blast+
qed

lemma guarded_holds:
  assumes "services_ok S V" "slot_holds S V H s"
  shows "slot_holds S V H (snd (try_then (ensure_running s) (\<lambda>_ s. latch (inner S s))))"
proof (cases "sl_state s")
  case Running
  with guarded(1) [OF assms(1) holds_running [OF assms(2)]] show ?thesis by (metis prod.collapse)
next
  case (Failed reason)
  with assms(2) show ?thesis by (simp add: refused)
qed

lemma never_fails:
  assumes "services_ok S V" "slot_running S V H s" "faults (sl_limits s) = {}"
  obtains x s' where "try_then (ensure_running s) (\<lambda>_ s. latch (inner S s)) = (Inr x, s')"
    "slot_running S V H s'" "inner S s = (Inr x, s')"
proof -
  obtain r s' where out: "try_then (ensure_running s) (\<lambda>_ s. latch (inner S s)) = (r, s')" by fastforce
  with guarded [OF assms(1,2) out] assms(3) that show ?thesis by (cases r) auto
qed

end

interpretation op_open: slot_operation open_admission_inner event_overflow
  by unfold_locales (simp_all add: open_admission_upholds own_faults(1))

interpretation op_cancel: slot_operation "\<lambda>S. cancel_inner S i" event_overflow for i
  by unfold_locales (simp_all add: cancel_upholds own_faults(1))

interpretation op_drain: slot_operation "\<lambda>S. begin_drain_inner S deadline" event_overflow for deadline
  by unfold_locales (simp_all add: begin_drain_upholds own_faults(1))

interpretation op_finalize: slot_operation "\<lambda>S. finalize_inner S reason"
    "\<lambda>l. event_overflow l \<union> missing_bound (reason = Drained)" for reason
  by unfold_locales (use own_faults(1,3) in \<open>auto intro: finalize_upholds\<close>)

lemmas control_defs = slot_open_admission_def slot_cancel_def slot_begin_drain_def slot_finalize_def

end
