(* ===== verification/SlotSystem.thy ===== *)
theory SlotSystem
  imports SlotEntry Recovery
begin

text \<open>
  A slot with its callers and any transport: every interleaving of the public operations, from a new
  slot on. The invariant holds in every reachable state, so the slot refines the owner it contains.
\<close>

section \<open>The quantum and the settlement\<close>

lemma latch_limits [simp]: "sl_limits (latch_failure e s) = sl_limits s" "sl_limits (snd (latch rs)) = sl_limits (snd rs)"
proof -
  show l: "sl_limits (latch_failure e s) = sl_limits s" for e s
    by (simp add: latch_failure_def latch_owner_failure_def)
  show "sl_limits (snd (latch rs)) = sl_limits (snd rs)"
    by (cases rs; cases "fst rs") (auto simp: latch_def l)
qed

theorem quantum_holds:
  assumes S: "services_ok S V" and T: "transport_wf T" and holds: "slot_holds S V H s"
    and budget: "io_operations (sl_limits s) \<le> USIZE_MAX"
  obtains r s' transport' where "drive_quantum S T now s transport = Some (r, s', transport')"
    "slot_holds S V H s'" "sl_limits s' = sl_limits s"
    "\<forall>p. r = Inr p \<longrightarrow> slot_running S V H s' \<and> spr_work p \<le> io_operations (sl_limits s)"
    "\<forall>e. r = Inl e \<longrightarrow> (e \<in> drive_faults (sl_limits s) \<or> (\<exists>reason. sl_state s = Failed reason \<and> e = EngOwnerFailed reason)) \<and>
       sl_state s' = Failed (owner_failure_from e)"
proof (cases "sl_state s")
  case (Failed reason)
  with holds show ?thesis by (intro that [of "Inl (EngOwnerFailed reason)" s transport]) (simp_all add: drive_quantum_def ensure_running_def)
next
  case Running
  have run: "slot_running S V H s" by (rule holds_running [OF holds Running])
  obtain r s1 tr where q: "drive_quantum_inner S T now s transport = Some (r, s1, tr)"
    "upholds (drive_faults (sl_limits s)) S V H (r, s1)" "sl_limits s1 = sl_limits s"
    "\<forall>p. r = Inr p \<longrightarrow> spr_work p \<le> io_operations (sl_limits s)"
    using quantum_inner_ok [OF S T run budget, of now transport] by (auto simp: loop_ok_def)
  obtain r' s' where l: "latch (r, s1) = (r', s')" by fastforce
  note h = latch_holds [OF q(2) _ l]
  have own: "\<forall>e \<in> drive_faults (sl_limits s). own_fault e" using own_faults(2) by blast
  have "sl_limits s' = sl_limits s" using latch_limits(2) [of "(r, s1)"] q(3) by (simp add: l)
  moreover have "drive_quantum S T now s transport = Some (r', s', tr)"
    using q(1) l running_state [OF run] by (simp add: drive_quantum_def)
  ultimately show ?thesis using h(1) [OF own] h(2) [OF own] h(3) [OF own] q(4) by (intro that [of r' s' tr]) auto
qed

lemma settle_running:
  assumes S: "services_ok S V" and run: "slot_running S V H s"
    and r: "sl_close_request s = Some (DirCore reason shutdown)"
  shows "slot_holds S V H (settle_core S reason (s\<lparr>sl_close_request := None\<rparr>))"
proof -
  let ?s = "s\<lparr>sl_close_request := None\<rparr>"
  obtain result s1 where c: "confirm_transport_closed S reason ?s = (result, s1)" by fastforce
  have up: "upholds (event_overflow (sl_limits s)) S V H (result, s1)" using confirm_upholds [OF S run r] by (simp add: c)
  show ?thesis
  proof (cases result)
    case (Inl e)
    with up have e: "own_fault e" "sl_state s1 = Running" "(\<exists>e'. e = EngCore e') \<and> lost_books S V H s1 \<or> slot_books S V H s1"
      using own_faults(1) by auto
    from latched_fails(1) [OF e(2,1,3)] have "slot_failed S V H (abort_transport (latch_failure e s1))"
      by (simp add: slot_failed_def abort_transport_def)
    then show ?thesis using c Inl by (simp add: settle_core_def slot_holds_def)
  next
    case (Inr u)
    then show ?thesis using c up by (simp add: settle_core_def slot_holds_def)
  qed
qed

theorem settle_holds:
  assumes S: "services_ok S V" and holds: "slot_holds S V H s" and r: "settle_transport_closed S s = (done, s')"
  shows "slot_holds S V H s'"
proof (cases "sl_state s")
  case Running
  have run: "slot_running S V H s" by (rule holds_running [OF holds Running])
  have abort: "sl_close_request s \<noteq> Some DirAbort"
    using slot_runningD(3) [OF run] by (auto simp: phase_follows_def Let_def split: ConnectionPhase.splits)
  note defs = settle_transport_closed_def take_close_request_def transport_release_ready_def
  show ?thesis
  proof (cases "sl_close_request s")
    case None
    then show ?thesis using r holds by (simp add: defs)
  next
    case (Some directive)
    then obtain reason shutdown where d: "directive = DirCore reason shutdown" using abort by (cases directive) auto
    show ?thesis
      using r Some d holds settle_running [OF S run, of reason shutdown] by (cases shutdown) (auto simp: defs)
  qed
next
  case (Failed reason)
  have "slot_failed S V H s" by (rule holds_failed [OF holds Failed])
  then have "slot_failed S V H s'"
    using r by (auto simp: slot_failed_def settle_transport_closed_def take_close_request_def transport_release_ready_def
        abort_transport_def)
  then show ?thesis by (simp add: slot_holds_def)
qed

section \<open>All interleavings\<close>

definition slot_initial ::
  "('g, 'd, 'r, 'e, 'c, 'q, 'k, 'o, 'l) services \<Rightarrow> ('g, 'd, 'c, 'q, 'k, 'o, 'l) ConnectionSlot \<times> 'r slot_history \<Rightarrow> bool" where
  "slot_initial S a \<longleftrightarrow>
     (\<exists>ref config connection decoding io transport publication limits decoder classifier s.
        limits_ok connection \<and> io_operations_limit io \<le> USIZE_MAX \<and>
        slot_limits_new connection decoding io transport publication = Inr limits \<and>
        slot_new S ref config limits decoder classifier = Inr s \<and>
        a = (s, \<lparr>sh_permits = [], sh_accepted = [], sh_delivered = [], sh_seen = []\<rparr>))"

text \<open>
  One call of a public operation, with the history of what the callers hold and have taken. The
  transport \<open>T\<close> may answer as it likes; a permit is dropped by its owner at any time.
\<close>

inductive slot_step ::
  "('g, 'd, 'r, 'e, 'c, 'q, 'k, 'o, 'l) services \<Rightarrow> 't SlotTransport \<Rightarrow>
   ('g, 'd, 'c, 'q, 'k, 'o, 'l) ConnectionSlot \<times> 'r slot_history \<Rightarrow>
   ('g, 'd, 'c, 'q, 'k, 'o, 'l) ConnectionSlot \<times> 'r slot_history \<Rightarrow> bool" for S T where
  granted: "slot_reserve S now options s = (Inr p, s') \<Longrightarrow>
    slot_step S T (s, H) (s', H\<lparr>sh_permits := sh_permits H @ [p]\<rparr>)"
| refused: "slot_reserve S now options s = (Inl e, s') \<Longrightarrow> slot_step S T (s, H) (s', H)"
| dropped: "sh_permits H = ps @ p # qs \<Longrightarrow>
    slot_step S T (s, H) (s\<lparr>sl_core := drop_permit (sv_externals S) p (sl_core s)\<rparr>, H\<lparr>sh_permits := ps @ qs\<rparr>)"
| accepted: "sh_permits H = ps @ p # qs \<Longrightarrow> length (of_bytes frame) \<le> USIZE_MAX \<Longrightarrow>
    slot_commit S p frame s = (Inr i, s') \<Longrightarrow>
    slot_step S T (s, H) (s', H\<lparr>sh_permits := ps @ qs, sh_accepted := sh_accepted H @ [i]\<rparr>)"
| accepted_failing: "sh_permits H = ps @ p # qs \<Longrightarrow> length (of_bytes frame) \<le> USIZE_MAX \<Longrightarrow>
    slot_commit S p frame s = (Inl (AcceptedOwnerFailure i e), s') \<Longrightarrow>
    slot_step S T (s, H) (s', H\<lparr>sh_permits := ps @ qs, sh_accepted := sh_accepted H @ [i]\<rparr>)"
| rejected: "sh_permits H = ps @ p # qs \<Longrightarrow> length (of_bytes frame) \<le> USIZE_MAX \<Longrightarrow>
    slot_commit S p frame s = (Inl (Rejected e), s') \<Longrightarrow>
    slot_step S T (s, H) (s', H\<lparr>sh_permits := ps @ ce_permit e # qs\<rparr>)"
| too_late: "sh_permits H = ps @ p # qs \<Longrightarrow> length (of_bytes frame) \<le> USIZE_MAX \<Longrightarrow>
    slot_commit S p frame s = (Inl (CommitOwnerFailed reason p' frame'), s') \<Longrightarrow>
    slot_step S T (s, H) (s', H\<lparr>sh_permits := ps @ p' # qs\<rparr>)"
| open_admission: "slot_open_admission S s = (r, s') \<Longrightarrow> slot_step S T (s, H) (s', H)"
| cancel: "slot_cancel S i s = (rc, s') \<Longrightarrow> slot_step S T (s, H) (s', H)"
| begin_drain: "slot_begin_drain S deadline s = (r, s') \<Longrightarrow> slot_step S T (s, H) (s', H)"
| finalize: "slot_finalize S close_reason s = (r, s') \<Longrightarrow> slot_step S T (s, H) (s', H)"
| take_outcomes: "drain_outcomes S s = (os, s') \<Longrightarrow> slot_step S T (s, H) (s', H\<lparr>sh_delivered := sh_delivered H @ os\<rparr>)"
| take_events: "drain_events S s = (evs, s') \<Longrightarrow> slot_step S T (s, H) (s', H\<lparr>sh_seen := sh_seen H @ evs\<rparr>)"
| quantum: "drive_quantum S T now s transport = Some (rq, s', transport') \<Longrightarrow> slot_step S T (s, H) (s', H)"
| settle: "settle_transport_closed S s = (settled, s') \<Longrightarrow> slot_step S T (s, H) (s', H)"

definition slot_reachable ::
  "('g, 'd, 'r, 'e, 'c, 'q, 'k, 'o, 'l) services \<Rightarrow> 't SlotTransport \<Rightarrow>
   ('g, 'd, 'c, 'q, 'k, 'o, 'l) ConnectionSlot \<Rightarrow> 'r slot_history \<Rightarrow> bool" where
  "slot_reachable S T s H \<longleftrightarrow> (\<exists>a. slot_initial S a \<and> (slot_step S T)\<^sup>*\<^sup>* a (s, H))"

definition slot_inv ::
  "('g, 'd, 'r, 'e, 'c, 'q, 'k, 'o, 'l) services \<Rightarrow> ('q, 'k, 'o, 'l) views \<Rightarrow>
   ('g, 'd, 'c, 'q, 'k, 'o, 'l) ConnectionSlot \<times> 'r slot_history \<Rightarrow> bool" where
  "slot_inv S V a \<longleftrightarrow> slot_holds S V (snd a) (fst a) \<and> io_operations (sl_limits (fst a)) \<le> USIZE_MAX"

subsection \<open>The initial slot\<close>

lemma core_new_empty:
  assumes "externals_ok X" "limits_ok l" and c_def: "c = core_new X ref endpoint lane connection epoch l"
  shows "sys_reachable X (sys_start c :: ('f, 'g, 'r) system)" "pending (core_machine c) = []"
    "wq_frames (core_writes (c :: ('f, 'g) ConnectionCore)) = []" "core_limits c = l" "m_phase (core_machine c) = Live"
    "m_gate (core_machine c) = SessionOnly" "m_epoch (core_machine c) = epoch"
proof -
  have c: "c = core_with_identity_seeds X ref endpoint lane connection epoch l IdentitySeeds_ZERO"
    by (simp add: c_def core_new_def core_with_identity_seeds_def machine_new_def)
  have "sys_initial X (sys_start c :: ('f, 'g, 'r) system)" unfolding sys_initial_def c using assms(2) by blast
  then show "sys_reachable X (sys_start c :: ('f, 'g, 'r) system)" by (auto simp: sys_reachable_def)
  show "pending (core_machine c) = []" "wq_frames (core_writes c) = []" "core_limits c = l" "m_phase (core_machine c) = Live"
    "m_gate (core_machine c) = SessionOnly" "m_epoch (core_machine c) = epoch"
    by (simp_all add: c core_with_identity_seeds_def machine_with_identity_seeds_def matching_new_def
        write_queue_new_def ledger_new_def Let_def)
qed

lemma slot_new_running:
  fixes S :: "('g, 'd, 'r, 'e, 'c, 'q, 'k, 'o, 'l) services"
  assumes S: "services_ok S V" and lim: "slot_limits_new connection decoding io transport publication = Inr limits"
    "limits_ok connection" and new: "slot_new S ref config limits decoder classifier = Inr s"
  shows "slot_running S V \<lparr>sh_permits = [], sh_accepted = [], sh_delivered = [], sh_seen = []\<rparr> s" "sl_limits s = limits"
proof -
  let ?H = "\<lparr>sh_permits = [], sh_accepted = [], sh_delivered = [], sh_seen = []\<rparr> :: 'r slot_history"
  let ?id = "cfg_identity config"
  note l = slot_limits_new_exact [OF lim(1)]
  show fields: "sl_limits s = limits" using new by (auto simp: slot_new_def Let_def split: sum.splits)
  have core: "sl_core s = core_new (sv_externals S) ref (ci_endpoint ?id) (ci_lane ?id) (ci_connection ?id) (ci_epoch ?id) connection"
    using new l(5) by (auto simp: slot_new_def Let_def split: sum.splits)
  have s: "sl_timers s = tq_new (sv_timers S) (cfg_timer_owner config) (timer_limits limits)"
    "sl_deadlines s = []" "sl_outcomes s = eb_new (sv_outcomes S) (outcome_limits limits)"
    "sl_lifecycle s = eb_new (sv_events S) (lifecycle_limits limits)"
    "sl_recovery_outcomes s = eb_new (sv_outcomes S) (outcome_limits limits)"
    "sl_recovery_events s = eb_new (sv_events S) (recovery_lifecycle_limits limits)" "sl_event_sequence s = 0"
    "sl_transport_state s = Connecting" "sl_drain_deadline s = None" "sl_close_request s = None" "sl_state s = Running"
    using new by (auto simp: slot_new_def Let_def split: sum.splits)
  note c = core_new_empty [OF services_okD(1) [OF S] lim(2) core]
  have timers: "vw_armed V (sl_timers s) = Map.empty" "vw_capacity V (sl_timers s) = operation_capacity limits"
    using services_okD(2) [OF S] by (simp_all add: s(1) timer_laws_def timer_limits_def operation_capacity_def)
  note b = batch_drains(4,5) [OF services_okD(3) [OF S]] batch_drains(4,5) [OF services_okD(4) [OF S]]
  have none: "all_outcomes S ?H s = []" "all_events S ?H s = []" using s b by (simp_all add: all_outcomes_def all_events_def)
  have "configured V s"
    using c(3,4) l timers s b by (simp add: configured_def frames_stable_def measured_def fields)
  moreover have "simulates S ?H [] s" unfolding simulates_def
    using c(1) none by (intro exI [of _ "sys_start (sl_core s)"]) (simp add: sys_start_def outcome_replies_def)
  moreover have "roomy S ?H [] s" using none c(2) s b by (simp add: roomy_def all_outcomes_def)
  moreover have "mirrored V (due_of s) s" using timers(1) c(2) s(2) by (simp add: mirrored_def mirrors_def due_of_def)
  moreover have "events_ok n (slot_epoch s) (all_events S ?H s) (sl_event_sequence s)" for n
    using none(2) s(7) by (simp add: events_ok_def)
  moreover have "phase_follows s" using c(5,6) s by (simp add: phase_follows_def Let_def)
  ultimately show "slot_running S V ?H s" using s b by (simp add: slot_running_def slot_books_def)
qed

subsection \<open>The steps\<close>

lemma holds_mono:
  assumes "slot_holds S V H s" "slot_running S V H s \<Longrightarrow> slot_running S V H' s'" "slot_books S V H s \<Longrightarrow> slot_books S V H' s'"
    "lost_books S V H s \<Longrightarrow> lost_books S V H' s'"
    "sl_state s' = sl_state s" "sl_drain_deadline s' = sl_drain_deadline s" "sl_close_request s' = sl_close_request s"
    "sl_transport_state s' = sl_transport_state s"
  shows "slot_holds S V H' s'"
  using assms by (auto simp: slot_holds_def slot_failed_def)

text \<open>A broken owner keeps its books while callers drop permits and drain what was published.\<close>

lemma drop_lost:
  assumes S: "services_ok S V" and lost: "lost_books S V H s" and ps: "sh_permits H = ps @ p # qs"
  shows "lost_books S V (H\<lparr>sh_permits := ps @ qs\<rparr>) (s\<lparr>sl_core := drop_permit (sv_externals S) p (sl_core s)\<rparr>)"
proof -
  obtain c where c: "slot_books S V H (s\<lparr>sl_core := c\<rparr>)" "broken_core c (sl_core s)" using lost by (auto simp: lost_books_def)
  have "broken_core (drop_permit (sv_externals S) p c) (drop_permit (sv_externals S) p (sl_core s))"
    using c(2) by (auto simp: broken_core_def drop_permit_def)
  then show ?thesis using drop_books(1) [OF S c(1) ps] by (auto simp: lost_books_def)
qed

lemma drain_lost:
  assumes S: "services_ok S V"
  shows "drain_outcomes S s = (os, s') \<Longrightarrow> lost_books S V H s \<Longrightarrow> lost_books S V (H\<lparr>sh_delivered := sh_delivered H @ os\<rparr>) s'"
    "drain_events S s = (evs, s') \<Longrightarrow> lost_books S V H s \<Longrightarrow> lost_books S V (H\<lparr>sh_seen := sh_seen H @ evs\<rparr>) s'"
proof -
  have d: "drain_outcomes S (s\<lparr>sl_core := c\<rparr>) = (fst (drain_outcomes S s), snd (drain_outcomes S s)\<lparr>sl_core := c\<rparr>)"
    "drain_events S (s\<lparr>sl_core := c\<rparr>) = (fst (drain_events S s), snd (drain_events S s)\<lparr>sl_core := c\<rparr>)"
    "sl_core (snd (drain_outcomes S s)) = sl_core s" "sl_core (snd (drain_events S s)) = sl_core s" for c
    by (simp_all add: drain_outcomes_def drain_events_def split: prod.split)
  show "drain_outcomes S s = (os, s') \<Longrightarrow> lost_books S V H s \<Longrightarrow> lost_books S V (H\<lparr>sh_delivered := sh_delivered H @ os\<rparr>) s'"
    "drain_events S s = (evs, s') \<Longrightarrow> lost_books S V H s \<Longrightarrow> lost_books S V (H\<lparr>sh_seen := sh_seen H @ evs\<rparr>) s'"
    using drain_outcomes_books(1) [OF S d(1)] drain_events_books(1) [OF S d(2)] d(3,4) by (fastforce simp: lost_books_def)+
qed

lemma commit_holds:
  assumes S: "services_ok S V" and holds: "slot_holds S V H s" and ps: "sh_permits H = ps @ p # qs"
    and wire: "length (of_bytes frame) \<le> USIZE_MAX" and out: "slot_commit S p frame s = (r, s')"
  shows "case r of
      Inr i \<Rightarrow> slot_holds S V (H\<lparr>sh_permits := ps @ qs, sh_accepted := sh_accepted H @ [i]\<rparr>) s'
    | Inl (Rejected e) \<Rightarrow> s' = s \<and> ce_permit e = p
    | Inl (CommitOwnerFailed reason p' frame') \<Rightarrow> s' = s \<and> p' = p
    | Inl (AcceptedOwnerFailure i e) \<Rightarrow> False"
proof (cases "sl_state s")
  case Running
  from commit_running [OF S holds_running [OF holds Running] ps wire] out show ?thesis
    by (auto simp: slot_holds_def)
next
  case (Failed reason)
  then show ?thesis using out by (auto simp: slot_commit_def)
qed

lemma reserve_holds:
  assumes S: "services_ok S V" and holds: "slot_holds S V H s" and out: "slot_reserve S now options s = (r, s')"
  shows "case r of Inr p \<Rightarrow> slot_holds S V (H\<lparr>sh_permits := sh_permits H @ [p]\<rparr>) s' | Inl e \<Rightarrow> slot_holds S V H s'"
proof (cases "sl_state s")
  case Running
  from reserve_running [OF S holds_running [OF holds Running], of now options] out show ?thesis
    by (auto simp: slot_holds_def split: sum.split)
next
  case (Failed reason)
  then show ?thesis using out holds by (auto simp: slot_reserve_def)
qed

lemma slot_limits_kept:
  "sl_limits (snd (slot_reserve S now options s)) = sl_limits s"
  "sl_limits (snd (slot_commit S p frame s)) = sl_limits s"
  "sl_limits (snd (slot_open_admission S s)) = sl_limits s"
  "sl_limits (snd (slot_cancel S i s)) = sl_limits s"
  "sl_limits (snd (slot_begin_drain S deadline s)) = sl_limits s"
  "sl_limits (snd (slot_finalize S reason s)) = sl_limits s"
  "sl_limits (snd (drain_outcomes S s)) = sl_limits s"
  "sl_limits (snd (drain_events S s)) = sl_limits s"
  "sl_limits (snd (settle_transport_closed S s)) = sl_limits s"
proof -
  have l: "sl_limits (latch_owner_failure reason s) = sl_limits s" for reason s
    by (simp add: latch_owner_failure_def)
  have guard: "sl_limits (snd (try_then (ensure_running s) (\<lambda>_ s. latch (f s)))) = sl_limits s"
    if "\<And>s. sl_limits (snd (f s)) = sl_limits s" for f :: "_ \<Rightarrow> (EngineError + 'z) \<times> _"
    by (rule try_then_limits) (simp_all add: that ensure_running_def split: option.split)
  show "sl_limits (snd (slot_reserve S now options s)) = sl_limits s"
    by (simp add: slot_reserve_def l Let_def split: prod.split sum.split)
  show "sl_limits (snd (slot_commit S p frame s)) = sl_limits s"
  proof -
    have "sl_limits (snd (interpret_unit S t (s\<lparr>sl_core := c\<rparr>))) = sl_limits s" for t c by simp
    then show ?thesis
      by (simp add: slot_commit_def l Let_def case_prod_unfold split: option.split sum.split)
  qed
  show "sl_limits (snd (slot_open_admission S s)) = sl_limits s"
    unfolding slot_open_admission_def
    by (rule guard) (auto intro!: try_then_limits simp: open_admission_inner_def publish_admission_opened_def)
  show "sl_limits (snd (slot_cancel S i s)) = sl_limits s"
    unfolding slot_cancel_def by (rule guard) (auto intro!: try_then_limits simp: cancel_inner_def Let_def)
  show "sl_limits (snd (slot_begin_drain S deadline s)) = sl_limits s"
    unfolding slot_begin_drain_def by (rule guard) (auto intro!: try_then_limits simp: begin_drain_inner_def Let_def)
  show "sl_limits (snd (slot_finalize S reason s)) = sl_limits s"
    unfolding slot_finalize_def
    by (rule guard) (auto intro!: try_then_limits simp: finalize_inner_def force_shutdown_def force_shutdown_settlement_def
        split: option.split CloseDirective.split ShutdownState.split)
  show "sl_limits (snd (drain_outcomes S s)) = sl_limits s" "sl_limits (snd (drain_events S s)) = sl_limits s"
    by (simp_all add: drain_outcomes_def drain_events_def split: prod.split)
  have "sl_limits (snd (confirm_transport_closed S reason s)) = sl_limits s" for reason s
    unfolding confirm_transport_closed_def publish_closed_def by (auto intro!: try_then_limits simp: Let_def)
  then have "sl_limits (settle_core S reason s) = sl_limits s" for reason s
    by (simp add: settle_core_def abort_transport_def case_prod_unfold split: sum.split)
  then show "sl_limits (snd (settle_transport_closed S s)) = sl_limits s"
    by (simp add: settle_transport_closed_def take_close_request_def abort_transport_def
        split: option.split CloseDirective.split ShutdownState.split)
qed

lemma slot_limits_after:
  "slot_reserve S now options s = (rr, s') \<Longrightarrow> sl_limits s' = sl_limits s"
  "slot_commit S p frame s = (rm, s') \<Longrightarrow> sl_limits s' = sl_limits s"
  "slot_open_admission S s = (ro, s') \<Longrightarrow> sl_limits s' = sl_limits s"
  "slot_cancel S i s = (rc, s') \<Longrightarrow> sl_limits s' = sl_limits s"
  "slot_begin_drain S deadline s = (rd, s') \<Longrightarrow> sl_limits s' = sl_limits s"
  "slot_finalize S reason s = (rf, s') \<Longrightarrow> sl_limits s' = sl_limits s"
  "drain_outcomes S s = (os, s') \<Longrightarrow> sl_limits s' = sl_limits s"
  "drain_events S s = (evs, s') \<Longrightarrow> sl_limits s' = sl_limits s"
  "settle_transport_closed S s = (settled, s') \<Longrightarrow> sl_limits s' = sl_limits s"
  by (drule arg_cong [where f = "\<lambda>x. sl_limits (snd x)"], simp add: slot_limits_kept)+

theorem slot_inv_step:
  assumes S: "services_ok S V" and T: "transport_wf T" and inv: "slot_inv S V a" and step: "slot_step S T a b"
  shows "slot_inv S V b"
proof -
  have holds: "slot_holds S V (snd a) (fst a)" and budget: "io_operations (sl_limits (fst a)) \<le> USIZE_MAX"
    using inv by (simp_all add: slot_inv_def)
  have lim: "sl_limits (fst b) = sl_limits (fst a)"
    using step
  proof cases
    case (quantum now s transport rq s' transport' H)
    then show ?thesis using quantum_holds [OF S T holds budget, of now transport] by auto
  qed (auto dest: slot_limits_after)
  have "slot_holds S V (snd b) (fst b)"
    using step
  proof cases
    case (granted now options s p s' H)
    then show ?thesis using reserve_holds [OF S holds, of now options] by fastforce
  next
    case (refused now options s e s' H)
    then show ?thesis using reserve_holds [OF S holds, of now options] by fastforce
  next
    case (dropped H ps p qs s)
    then show ?thesis
      using holds drop_books [OF S _ dropped(3), of s] drop_lost [OF S _ dropped(3), of s] slot_runningD(2) [of S V H s]
      by (auto intro: holds_mono [where H = H and s = s])
  next
    case (accepted H ps p qs frame s i s')
    then show ?thesis using commit_holds [OF S, of H s ps p qs frame "Inr i" s'] holds by simp
  next
    case (accepted_failing H ps p qs frame s i e s')
    then show ?thesis using commit_holds [OF S, of H s ps p qs frame "Inl (AcceptedOwnerFailure i e)" s'] holds by simp
  next
    case (rejected H ps p qs frame s e s')
    then show ?thesis using commit_holds [OF S, of H s ps p qs frame "Inl (Rejected e)" s'] holds by (cases H) simp
  next
    case (too_late H ps p qs frame s reason p' frame' s')
    then show ?thesis
      using commit_holds [OF S, of H s ps p qs frame "Inl (CommitOwnerFailed reason p' frame')" s'] holds by (cases H) simp
  next
    case (open_admission s r s' H)
    then show ?thesis using op_open.guarded_holds [OF S holds] by (simp add: control_defs)
  next
    case (cancel i s rc s' H)
    then show ?thesis using op_cancel.guarded_holds [OF S holds, of i] by (simp add: control_defs)
  next
    case (begin_drain deadline s r s' H)
    then show ?thesis using op_drain.guarded_holds [OF S holds, of deadline] by (simp add: control_defs)
  next
    case (finalize reason s r s' H)
    then show ?thesis using op_finalize.guarded_holds [OF S holds, of reason] by (simp add: control_defs)
  next
    case (take_outcomes s os s' H)
    then show ?thesis
      using holds drain_outcomes_books [OF S take_outcomes(3)] drain_lost(1) [OF S take_outcomes(3)]
      by (auto intro!: holds_mono [where H = H and s = s] simp: drain_outcomes_def split: prod.splits)
  next
    case (take_events s evs s' H)
    then show ?thesis
      using holds drain_events_books [OF S take_events(3)] drain_lost(2) [OF S take_events(3)]
      by (auto intro!: holds_mono [where H = H and s = s] simp: drain_events_def split: prod.splits)
  next
    case (quantum now s transport rq s' transport' H)
    then show ?thesis using quantum_holds [OF S T holds budget, of now transport] by auto
  next
    case (settle s settled s' H)
    then show ?thesis using settle_holds [OF S, of H s settled s'] holds by simp
  qed
  with lim budget show ?thesis by (simp add: slot_inv_def)
qed

interpretation slots: invariant_system "\<lambda>a. services_ok S V \<and> transport_wf T \<and> slot_initial S a" "slot_step S T"
  "\<lambda>a. services_ok S V \<and> transport_wf T \<and> slot_inv S V a" for S V T
proof
  fix a assume a: "services_ok S V \<and> transport_wf T \<and> slot_initial S a"
  then obtain ref config connection decoding io transport publication limits decoder classifier s where
    i: "limits_ok connection" "io_operations_limit io \<le> USIZE_MAX"
      "slot_limits_new connection decoding io transport publication = Inr limits"
      "slot_new S ref config limits decoder classifier = Inr s"
      "a = (s, \<lparr>sh_permits = [], sh_accepted = [], sh_delivered = [], sh_seen = []\<rparr>)"
    by (auto simp: slot_initial_def)
  have "io_operations limits \<le> USIZE_MAX"
    using i(2,3) by (auto simp: slot_limits_new_def io_operations_def Let_def split: if_splits option.splits)
  with slot_new_running [OF _ i(3,1,4), of V] a i(5) show "services_ok S V \<and> transport_wf T \<and> slot_inv S V a"
    by (simp add: slot_inv_def slot_holds_def)
qed (use slot_inv_step in blast)

lemma slot_reachable_inv:
  assumes "services_ok S V" "transport_wf T" "slot_reachable S T s H"
  shows "slot_holds S V H s" "io_operations (sl_limits s) \<le> USIZE_MAX"
  using slots.reached_inv [of S V T] assms unfolding slot_reachable_def slot_inv_def by (metis fst_conv snd_conv)+

end
