(* ===== verification/SetSlots.thy ===== *)
theory SetSlots
  imports SetAccess SlotSystem
begin

text \<open>
  What a connection set asks of the slots it owns, as an interface: every call the set makes on a slot
  keeps the slot's own invariant and never revives a failed slot. From it, driving, settling and
  registering one entry keep the entry. The slots of the development provide the interface.
\<close>

section \<open>The interface\<close>

text \<open>A slot invariant is carried from one state to another, and a failed slot stays failed.\<close>

definition carried ::
  "(('g, 'd, 'c, 'q, 'k, 'o, 'l) ConnectionSlot \<Rightarrow> bool) \<Rightarrow> ('g, 'd, 'c, 'q, 'k, 'o, 'l) ConnectionSlot \<Rightarrow>
   ('g, 'd, 'c, 'q, 'k, 'o, 'l) ConnectionSlot \<Rightarrow> bool" where
  "carried Q s s' \<longleftrightarrow> (Q s \<longrightarrow> Q s' \<and> (sl_state s \<noteq> Running \<longrightarrow> sl_state s' \<noteq> Running))"

lemma carried_refl [simp]: "carried Q s s"
  by (simp add: carried_def)

lemma carried_trans [trans]: "carried Q s s1 \<Longrightarrow> carried Q s1 s2 \<Longrightarrow> carried Q s s2"
  by (simp add: carried_def)

locale set_slots =
  fixes E :: "('g, 'd, 'r, 'e, 'c, 'q, 'k, 'o, 'l, 't, 'i, 'y, 'w, 'b, 'p, 'm) set_env"
    and ok :: "('g, 'd, 'c, 'q, 'k, 'o, 'l) ConnectionSlot \<Rightarrow> bool"
  assumes captures: "carried ok s (snd (capture_transport_pressure (en_port E) t s))"
    and observes: "carried ok s (observe_shutdown_complete (en_port E) t s)"
    and records: "carried ok s (record_transport_failure d s)"
    and latches: "carried ok s (latch_owner_failure reason s)"
    and settles: "carried ok s (snd (settle_transport_closed (en_services E) s))"
    and commands: "carried ok s (snd (run_command (en_services E) (command :: 'w ConnectionCommand) s))"
    and drives: "ok s \<Longrightarrow> \<exists>r s' tr'. drive_quantum (en_services E) (en_port E) now s tr = Some (r, s', tr') \<and> carried ok s s'"
begin

lemma latches_failure: "carried ok s (latch_failure e s)"
  by (simp add: latch_failure_def latches)

lemma records_readiness: "carried ok s (record_readiness_failure io s)"
  by (simp add: record_readiness_failure_def records split: option.split)

end

section \<open>Settlement of an entry\<close>

text \<open>The directive that was taken for release is put back before anything else looks at the slot.\<close>

lemma take_close_request_Some:
  "take_close_request s = (Some directive, s') \<longleftrightarrow>
     sl_close_request s = Some directive \<and> settlement_ready directive \<and> s' = s\<lparr>sl_close_request := None\<rparr>"
  by (auto simp: take_close_request_def transport_release_ready_def split: option.splits)

lemma take_close_request_None: "take_close_request s = (None, s') \<Longrightarrow> s' = s"
  by (auto simp: take_close_request_def transport_release_ready_def split: option.splits if_splits)

lemma restored:
  assumes "sl_close_request s = Some directive"
  shows "restore_close_request directive (s\<lparr>sl_close_request := None\<rparr>) = s"
    "restore_close_request directive (snd (capture_transport_pressure T t (s\<lparr>sl_close_request := None\<rparr>))) =
       snd (capture_transport_pressure T t s)"
    "restore_close_request directive (record_readiness_failure io
       (snd (capture_transport_pressure T t (s\<lparr>sl_close_request := None\<rparr>)))) =
       record_readiness_failure io (snd (capture_transport_pressure T t s))"
proof -
  show one: "restore_close_request directive (s\<lparr>sl_close_request := None\<rparr>) = s"
    using assms by (simp add: restore_close_request_def)
  show two: "restore_close_request directive (snd (capture_transport_pressure T t (s\<lparr>sl_close_request := None\<rparr>))) =
       snd (capture_transport_pressure T t s)"
    using assms by (intro ConnectionSlot.equality)
      (simp_all add: restore_close_request_def capture_transport_pressure_def observe_transport_pressure_def
        record_transport_failure_def Let_def)
  show "restore_close_request directive (record_readiness_failure io
       (snd (capture_transport_pressure T t (s\<lparr>sl_close_request := None\<rparr>)))) =
       record_readiness_failure io (snd (capture_transport_pressure T t s))"
    unfolding two [symmetric]
    by (simp add: restore_close_request_def record_readiness_failure_def record_transport_failure_def split: option.split)
qed

lemma capture_unasked:
  "fst (capture_transport_pressure T t (s\<lparr>sl_close_request := cr\<rparr>)) = fst (capture_transport_pressure T t s)"
  by (simp add: capture_transport_pressure_def observe_transport_pressure_def Let_def)

lemma ready_settles:
  assumes "sl_close_request s = Some directive" "settlement_ready directive"
  shows "fst (settle_transport_closed S s)"
proof (cases directive)
  case (DirCore reason shutdown)
  then show ?thesis
    using assms by (cases shutdown) (simp_all add: settle_transport_closed_def take_close_request_def transport_release_ready_def)
qed (use assms in \<open>simp add: settle_transport_closed_def take_close_request_def transport_release_ready_def\<close>)

text \<open>What \<^const>\<open>settle_entry\<close> does, with the directive in its place: the branch for a missing reason is dead.\<close>

definition observed ::
  "('g, 'd, 'r, 'e, 'c, 'q, 'k, 'o, 'l, 't, 'i, 'y, 'w, 'b, 'p, 'm) set_env \<Rightarrow>
   ('g, 'd, 'c, 'q, 'k, 'o, 'l, 't, 'i) ConnectionEntry \<Rightarrow> ('g, 'd, 'c, 'q, 'k, 'o, 'l, 't, 'i) ConnectionEntry" where
  "observed E entry =
     (case ce_transport entry of
        None \<Rightarrow> entry
      | Some t \<Rightarrow> entry\<lparr>ce_slot := observe_shutdown_complete (en_port E) t (ce_slot entry)\<rparr>)"

lemma settle_entry_cases:
  fixes E :: "('g, 'd, 'r, 'e, 'c, 'q, 'k, 'o, 'l, 't, 'i, 'y, 'w, 'b, 'p, 'm) set_env"
  assumes "s = ce_slot (observed E entry)"
  obtains (idle) "\<not> transport_release_ready s" "settle_entry E w entry po = (Inr 0, observed E entry, po)"
  | (stuck) t source t1 po1 where "transport_release_ready s" "ce_transport entry = Some t"
      "mp_deregister (en_poller E) w t po = (Inl source, t1, po1)"
      "settle_entry E w entry po = (Inl (EngMio source), (observed E entry)\<lparr>ce_transport := Some t1,
         ce_slot := latch_failure (EngMio source) (record_readiness_failure (mp_io_error (en_poller E) source)
           (snd (capture_transport_pressure (en_port E) t1 s)))\<rparr>, po1)"
  | (overdrawn) t t1 po1 e where "transport_release_ready s" "ce_transport entry = Some t"
      "mp_deregister (en_poller E) w t po = (Inr (), t1, po1)" "fst (capture_transport_pressure (en_port E) t1 s) = Inl e"
      "settle_entry E w entry po = (Inl e, (observed E entry)\<lparr>ce_transport := None,
         ce_slot := latch_failure e (snd (capture_transport_pressure (en_port E) t1 s))\<rparr>, po1)"
  | (released) t t1 po1 where "transport_release_ready s" "ce_transport entry = Some t"
      "mp_deregister (en_poller E) w t po = (Inr (), t1, po1)" "fst (capture_transport_pressure (en_port E) t1 s) = Inr ()"
      "settle_entry E w entry po = (Inr 1, (observed E entry)\<lparr>
         ce_slot := snd (settle_transport_closed (en_services E) (snd (capture_transport_pressure (en_port E) t1 s))),
         ce_transport := None\<rparr>, po1)"
  | (gone) "transport_release_ready s" "ce_transport entry = None"
      "settle_entry E w entry po = (Inr 1, (observed E entry)\<lparr>
         ce_slot := snd (settle_transport_closed (en_services E) s), ce_transport := None\<rparr>, po)"
proof (cases "take_close_request s")
  case (Pair directive s1)
  have tr: "ce_transport (observed E entry) = ce_transport entry" by (simp add: observed_def split: option.split)
  note unf = settle_entry_def [of E w entry po, folded observed_def, unfolded Let_def]
  show ?thesis
  proof (cases directive)
    case None
    then have "\<not> transport_release_ready s" using Pair by (auto simp: take_close_request_def transport_release_ready_def split: if_splits option.splits)
    moreover have "s1 = s" using take_close_request_None Pair None by blast
    ultimately show ?thesis
      using Pair None assms by (intro idle) (simp_all add: unf)
  next
    case (Some d)
    have d: "sl_close_request s = Some d" "settlement_ready d" "s1 = s\<lparr>sl_close_request := None\<rparr>"
      using Pair Some by (simp_all add: take_close_request_Some)
    have ready: "transport_release_ready s" using d by (simp add: transport_release_ready_def)
    note restored = restored [OF d(1)]
    have fin: "fst (settle_transport_closed (en_services E) s2)" if "sl_close_request s2 = Some d" for s2
      by (rule ready_settles [OF that d(2)])
    show ?thesis
    proof (cases "ce_transport entry")
      case None
      then show ?thesis
        using Pair Some d assms tr restored(1) fin [OF d(1)] ready by (intro gone) (simp_all add: unf case_prod_unfold)
    next
      case (Some t)
      obtain reg t1 po1 where reg: "mp_deregister (en_poller E) w t po = (reg, t1, po1)" by (cases "mp_deregister (en_poller E) w t po")
      obtain pr s2 where cap: "capture_transport_pressure (en_port E) t1 s1 = (pr, s2)" by fastforce
      have s2: "restore_close_request d s2 = snd (capture_transport_pressure (en_port E) t1 s)"
        "restore_close_request d (record_readiness_failure io s2) = record_readiness_failure io (snd (capture_transport_pressure (en_port E) t1 s))"
        "pr = fst (capture_transport_pressure (en_port E) t1 s)" for io
        using restored(2,3) [where T = "en_port E" and t = t1] capture_unasked [where T = "en_port E" and t = t1 and s = s and cr = None] cap by (simp_all add: d(3))
      have req: "sl_close_request (snd (capture_transport_pressure (en_port E) t1 s)) = Some d" using d(1) by simp
      note step = Pair \<open>directive = Some d\<close> assms [symmetric] tr Some reg cap s2
      show ?thesis
      proof (cases reg)
        case (Inl source)
        then show ?thesis using step ready by (intro stuck [of t source t1 po1]) (simp_all add: unf)
      next
        case (Inr u)
        show ?thesis
        proof (cases pr)
          case (Inl e)
          then show ?thesis using step Inr ready by (intro overdrawn [of t t1 po1 e]) (simp_all add: unf)
        next
          case (Inr u')
          then show ?thesis
            using step \<open>reg = Inr u\<close> ready fin [OF req] by (intro released [of t t1 po1]) (simp_all add: unf case_prod_unfold)
        qed
      qed
    qed
  qed
qed

section \<open>One entry\<close>

lemma latch_failure_fails [simp]: "own_fault e \<Longrightarrow> sl_state (latch_failure e s) \<noteq> Running"
  by (cases "sl_state s") (auto simp: latch_failure_def latch_owner_failure_def own_fault_def split: EngineError.splits)

lemma capture_fault: "fst (capture_transport_pressure T t s) = Inl e \<Longrightarrow> own_fault e"
  by (auto simp: capture_transport_pressure_def observe_transport_pressure_def own_fault_def Let_def split: if_splits)

lemma capture_adapter: "fst (capture_transport_pressure T t s) = Inl e \<Longrightarrow> adapter_fault e"
  using capture_result [of T t s] by auto

lemma mio_fault [simp]: "own_fault (EngMio source)"
  by (simp add: own_fault_def)

text \<open>The step of an entry keeps its slot and says when the slot has failed.\<close>

definition entry_kept ::
  "(('g, 'd, 'c, 'q, 'k, 'o, 'l) ConnectionSlot \<Rightarrow> bool) \<Rightarrow> ('g, 'd, 'c, 'q, 'k, 'o, 'l, 't, 'i) ConnectionEntry \<Rightarrow>
   EngineError + 'a \<Rightarrow> ('g, 'd, 'c, 'q, 'k, 'o, 'l, 't, 'i) ConnectionEntry \<Rightarrow> bool" where
  "entry_kept Q entry r entry' \<longleftrightarrow>
     carried Q (ce_slot entry) (ce_slot entry') \<and> ce_ready_queued entry' = ce_ready_queued entry \<and>
     (\<forall>e. r = Inl e \<longrightarrow> sl_state (ce_slot entry') \<noteq> Running \<and> ((\<exists>source. e = EngMio source) \<or> adapter_fault e))"

context set_slots begin

lemma observed_kept:
  "carried ok (ce_slot entry) (ce_slot (observed E entry))" "ce_ready_queued (observed E entry) = ce_ready_queued entry"
  "ce_transport (observed E entry) = ce_transport entry"
  by (simp_all add: observed_def observes split: option.split)

lemma settle_entry_kept:
  assumes "settle_entry E w entry po = (r, entry', po')"
  shows "entry_kept ok entry r entry'"
proof -
  note obs = observed_kept [of entry]
  have cap: "carried ok (ce_slot entry) (snd (capture_transport_pressure (en_port E) t (ce_slot (observed E entry))))" for t
    by (rule carried_trans [OF obs(1) captures])
  from refl [of "ce_slot (observed E entry)"] show ?thesis
  proof (cases rule: settle_entry_cases [where w = w and po = po])
    case idle
    then show ?thesis using assms obs by (auto simp: entry_kept_def)
  next
    case (stuck t source t1 po1)
    then show ?thesis
      using assms obs carried_trans [OF carried_trans [OF cap [of t1] records_readiness] latches_failure]
        latch_failure_fails [OF mio_fault] by (auto simp: entry_kept_def)
  next
    case (overdrawn t t1 po1 e)
    then show ?thesis
      using assms obs carried_trans [OF cap [of t1] latches_failure] latch_failure_fails [OF capture_fault [OF overdrawn(4)]]
        capture_adapter [OF overdrawn(4)]
      by (auto simp: entry_kept_def)
  next
    case (released t t1 po1)
    then show ?thesis using assms obs carried_trans [OF cap [of t1] settles] by (auto simp: entry_kept_def)
  next
    case gone
    then show ?thesis using assms obs carried_trans [OF obs(1) settles] by (auto simp: entry_kept_def)
  qed
qed

lemma sync_interest_kept:
  assumes "sync_interest E w entry po = (r, entry', po')"
  shows "entry_kept ok entry r entry'"
proof (cases "ce_transport entry = None \<or> desired_interest (en_transport E) (ce_slot entry) (the (ce_transport entry)) = ce_interest entry")
  case True
  then show ?thesis using assms by (auto simp: sync_interest_def entry_kept_def Let_def split: option.splits)
next
  case False
  then obtain t where t: "ce_transport entry = Some t" by auto
  let ?d = "desired_interest (en_transport E) (ce_slot entry) t"
  obtain reg t1 po1 where reg: "mp_reregister (en_poller E) w ?d t po = (reg, t1, po1)" by (cases "mp_reregister (en_poller E) w ?d t po")
  obtain pr s1 where cap: "capture_transport_pressure (en_port E) t1 (ce_slot entry) = (pr, s1)" by fastforce
  have s1: "carried ok (ce_slot entry) s1" using captures [of "ce_slot entry" t1] by (simp add: cap)
  note step = assms False t reg cap
  show ?thesis
  proof (cases reg)
    case (Inl source)
    then show ?thesis
      using step carried_trans [OF carried_trans [OF s1 records_readiness] latches_failure]
      by (auto simp: sync_interest_def entry_kept_def Let_def)
  next
    case (Inr u)
    then show ?thesis
      using step s1 carried_trans [OF s1 latches_failure]
      by (auto simp: sync_interest_def entry_kept_def Let_def split: sum.split)
  qed
qed

lemma drive_entry_kept:
  assumes "ok (ce_slot entry)"
  obtains r entry' po' where "drive_entry E now w entry po = Some (r, entry', po')"
    "entry_kept ok (entry\<lparr>ce_ready_queued := False\<rparr>) r entry'"
proof -
  obtain qr s1 tr1 where q: "drive_quantum (en_services E) (en_port E) now (ce_slot entry) (ce_transport entry) = Some (qr, s1, tr1)"
    "carried ok (ce_slot entry) s1" using drives [OF assms] by blast
  obtain p s2 where ps: "(case qr of Inr progress \<Rightarrow> (progress, s1)
      | Inl error \<Rightarrow> (\<lparr>spr_work = 0, spr_saturated = False\<rparr>, latch_failure error s1)) = (p, s2)" by fastforce
  have s2: "carried ok (ce_slot entry) s2"
    using q(2) carried_trans [OF q(2) latches_failure] ps by (auto split: sum.splits)
  define entry1 where "entry1 = entry\<lparr>ce_slot := s2, ce_transport := tr1, ce_ready_queued := False\<rparr>"
  obtain st entry2 po2 where st: "settle_entry E w entry1 po = (st, entry2, po2)" by (cases "settle_entry E w entry1 po")
  obtain sy entry3 po3 where sy: "sync_interest E w entry2 po2 = (sy, entry3, po3)" by (cases "sync_interest E w entry2 po2")
  have k2: "entry_kept ok entry1 st entry2" and k3: "entry_kept ok entry2 sy entry3"
    using settle_entry_kept [OF st] sync_interest_kept [OF sy] by simp_all
  have c2: "carried ok (ce_slot entry) (ce_slot entry2)" using carried_trans [OF s2] k2 by (simp add: entry_kept_def entry1_def)
  then have c3: "carried ok (ce_slot entry) (ce_slot entry3)" using carried_trans k3 by (auto simp: entry_kept_def)
  have drive: "drive_entry E now w entry po =
      Some (case (st, entry2, po2) of
                   (Inl error, entry2, poller2) \<Rightarrow> (Inl error, entry2, poller2)
                 | (Inr settled, entry2, poller2) \<Rightarrow>
                     (case sync_interest E w entry2 poller2 of
                        (Inl error, entry3, poller3) \<Rightarrow> (Inl error, entry3, poller3)
                      | (Inr interest, entry3, poller3) \<Rightarrow>
                          (Inr (usize_saturating_add (usize_saturating_add (spr_work p) settled) interest,
                             state_failure (sl_state (ce_slot entry3)) = None \<and>
                                 (case ce_transport entry3 of
                                    None \<Rightarrow> False
                                  | Some t \<Rightarrow> spr_saturated p \<or> transport_release_ready (ce_slot entry3) \<or>
                                      runnable E now (ce_slot entry3) t)), entry3, poller3)))"
    unfolding st [symmetric] entry1_def drive_entry_def Let_def by (simp add: q(1) ps)
  show ?thesis
  proof (cases st)
    case (Inl e)
    then show ?thesis using drive k2 c2 by (intro that [of "Inl e" entry2 po2]) (auto simp: entry_kept_def entry1_def)
  next
    case (Inr n)
    show ?thesis
    proof (cases sy)
      case (Inl e)
      then show ?thesis
        using drive Inr sy k2 k3 c3 by (intro that [of "Inl e" entry3 po3]) (auto simp: entry_kept_def entry1_def)
    next
      case (Inr m)
      then show ?thesis
        using drive \<open>st = Inr n\<close> sy k2 k3 c3 by (intro that) (auto simp: entry_kept_def entry1_def)
    qed
  qed
qed

end

section \<open>The slots of the development\<close>

definition slot_ok ::
  "('g, 'd, 'r, 'e, 'c, 'q, 'k, 'o, 'l, 't, 'i, 'y, 'w, 'b, 'p, 'm) set_env \<Rightarrow> ('q, 'k, 'o, 'l) views \<Rightarrow>
   'r slot_history \<Rightarrow> ('g, 'd, 'c, 'q, 'k, 'o, 'l) ConnectionSlot \<Rightarrow> bool" where
  "slot_ok E V H s \<longleftrightarrow>
     services_ok (en_services E) V \<and> transport_wf (en_port E) \<and> slot_inv (en_services E) V (s, H)"

lemma slot_okD:
  assumes "slot_ok E V H s"
  shows "services_ok (en_services E) V" "transport_wf (en_port E)" "slot_holds (en_services E) V H s"
    "io_operations (sl_limits s) \<le> USIZE_MAX"
  using assms by (simp_all add: slot_ok_def slot_inv_def)

lemma slot_ok_carried:
  assumes "services_ok (en_services E) V \<Longrightarrow> slot_holds (en_services E) V H s \<Longrightarrow>
      slot_holds (en_services E) V H s' \<and> (sl_state s \<noteq> Running \<longrightarrow> sl_state s' \<noteq> Running)" "sl_limits s' = sl_limits s"
  shows "carried (slot_ok E V H) s s'"
  using assms unfolding carried_def slot_ok_def slot_inv_def by auto

lemma latch_owner_holds:
  assumes "slot_holds S V H s"
  shows "slot_holds S V H (latch_owner_failure reason s)"
proof (cases "sl_state s")
  case Running
  then show ?thesis
    using slot_runningD(2) [OF holds_running [OF assms Running]]
    by (simp add: latch_owner_failure_def slot_holds_def slot_failed_def)
qed (use assms in \<open>simp add: latch_owner_failure_def\<close>)

lemma observe_shutdown_frame:
  "sl_state (observe_shutdown_complete T t s) = sl_state s" "sl_limits (observe_shutdown_complete T t s) = sl_limits s"
  "ce_transport (observed E entry) = ce_transport entry"
  by (simp_all add: observe_shutdown_complete_def complete_shutdown_def observed_def
      split: option.split CloseDirective.split ShutdownState.split)

lemma observe_shutdown_holds:
  assumes "slot_holds S V H s"
  shows "slot_holds S V H (observe_shutdown_complete T t s)"
proof (cases "sl_state s")
  case Running
  note run = holds_running [OF assms Running]
  then show ?thesis
    using assms directive_running(2) [OF run]
    by (auto simp: observe_shutdown_complete_def slot_holds_def split: option.split CloseDirective.split ShutdownState.split)
next
  case (Failed reason)
  then show ?thesis
    using assms holds_failed [OF assms Failed] by (auto simp: observe_shutdown_complete_def slot_failed_def)
qed

lemma settle_state:
  assumes "slot_failed S V H s"
  shows "sl_state (snd (settle_transport_closed S' s)) = sl_state s"
  using assms
  by (auto simp: slot_failed_def settle_transport_closed_def take_close_request_def transport_release_ready_def abort_transport_def)

lemma try_then_map: "snd (try_then rs (\<lambda>x s. (Inr (g x), s))) = snd rs"
  by (cases rs; cases "fst rs") simp_all

lemma run_command_state:
  "snd (run_command S (CmdOpenAdmission c) s) = snd (slot_open_admission S s)"
  "snd (run_command S (CmdCancel c i) s) = snd (slot_cancel S i s)"
  "snd (run_command S (CmdBeginDrain c deadline) s) = snd (slot_begin_drain S deadline s)"
  "snd (run_command S (CmdClose c) s) = snd (slot_finalize S Requested s)"
  by (simp_all add: run_command_def try_then_map)

lemma command_holds:
  assumes "services_ok S V" "slot_holds S V H s"
  shows "slot_holds S V H (snd (run_command S command s))"
  using op_open.guarded_holds [OF assms] op_cancel.guarded_holds [OF assms] op_drain.guarded_holds [OF assms]
    op_finalize.guarded_holds [OF assms, of Requested]
  by (cases command) (simp_all add: run_command_state control_defs)

lemma command_refused: "sl_state s = Failed reason \<Longrightarrow> snd (run_command S command s) = s"
  by (cases command) (simp_all add: run_command_state control_defs ensure_running_def)

lemma command_limits: "sl_limits (snd (run_command S command s)) = sl_limits s"
  by (cases command) (simp_all add: run_command_state slot_limits_kept)

interpretation slots_kept: set_slots E "slot_ok E V H" for E V H
proof
  fix s t d reason command
  show "carried (slot_ok E V H) s (snd (capture_transport_pressure (en_port E) t s))"
    by (rule slot_ok_carried, rule conjI, rule holds_mono [where H = H and s = s])
      (simp_all add: capture_transport_pressure_def observe_transport_pressure_def record_transport_failure_def Let_def)
  show "carried (slot_ok E V H) s (observe_shutdown_complete (en_port E) t s)"
    by (rule slot_ok_carried) (simp_all add: observe_shutdown_holds observe_shutdown_frame)
  show "carried (slot_ok E V H) s (record_transport_failure d s)"
    by (rule slot_ok_carried, rule conjI, rule holds_mono [where H = H and s = s]) (simp_all add: record_transport_failure_def)
  show "carried (slot_ok E V H) s (latch_owner_failure reason s)"
    by (rule slot_ok_carried) (simp_all add: latch_owner_holds, simp_all add: latch_owner_failure_def)
  show "carried (slot_ok E V H) s (snd (settle_transport_closed (en_services E) s))"
  proof (rule slot_ok_carried)
    assume S: "services_ok (en_services E) V" and holds: "slot_holds (en_services E) V H s"
    have "sl_state (snd (settle_transport_closed (en_services E) s)) = sl_state s" if "sl_state s = Failed reason" for reason
      by (rule settle_state [OF holds_failed [OF holds that]])
    then show "slot_holds (en_services E) V H (snd (settle_transport_closed (en_services E) s)) \<and>
        (sl_state s \<noteq> Running \<longrightarrow> sl_state (snd (settle_transport_closed (en_services E) s)) \<noteq> Running)"
      using settle_holds [OF S holds prod.collapse [symmetric]] by (cases "sl_state s") simp_all
  qed (simp add: slot_limits_kept)
  show "carried (slot_ok E V H) s (snd (run_command (en_services E) command s))"
  proof (rule slot_ok_carried)
    assume "services_ok (en_services E) V" "slot_holds (en_services E) V H s"
    then show "slot_holds (en_services E) V H (snd (run_command (en_services E) command s)) \<and>
        (sl_state s \<noteq> Running \<longrightarrow> sl_state (snd (run_command (en_services E) command s)) \<noteq> Running)"
      using command_holds command_refused [of s _ "en_services E" command] by (cases "sl_state s") auto
  qed (rule command_limits)
next
  fix s now tr
  assume ok: "slot_ok E V H s"
  obtain r s' tr' where q: "drive_quantum (en_services E) (en_port E) now s tr = Some (r, s', tr')"
    "slot_holds (en_services E) V H s'" "sl_limits s' = sl_limits s"
    "\<forall>p. r = Inr p \<longrightarrow> slot_running (en_services E) V H s'"
    "\<forall>e. r = Inl e \<longrightarrow> sl_state s' = Failed (owner_failure_from e)"
    by (rule quantum_holds [OF slot_okD [OF ok], of now tr]) blast
  have "sl_state s' \<noteq> Running" if "sl_state s = Failed reason" for reason
    using q(1) that by (simp add: drive_quantum_def ensure_running_def)
  then have "sl_state s \<noteq> Running \<longrightarrow> sl_state s' \<noteq> Running" by (cases "sl_state s") simp_all
  with q(2,3) slot_okD [OF ok] q(1) show "\<exists>r s' tr'. drive_quantum (en_services E) (en_port E) now s tr = Some (r, s', tr') \<and> carried (slot_ok E V H) s s'"
    by (auto intro!: slot_ok_carried)
qed

end
