(* ===== verification/SetInv.thy ===== *)
theory SetInv
  imports SetSlots
begin

text \<open>
  The invariant of a connection set: the resource table keeps what it promises, every slot keeps its own
  invariant, the ready queue holds exactly the connections marked as queued, each once, and after a
  selector failure no slot is left running. The operations inside a turn keep it for any slots that
  keep the interface of \<^verbatim>\<open>SetSlots\<close>.
\<close>

section \<open>The resource table\<close>

text \<open>
  Views of a table: the tokens it has ever issued, its capacity, and its own consistency. A token is never
  issued twice, a lookup finds what was admitted or written last, a removed token finds nothing.
\<close>

record ('w, 'b) table_view =
  tv_valid :: "'b \<Rightarrow> bool"
  tv_issued :: "'b \<Rightarrow> 'w set"
  tv_capacity :: "'b \<Rightarrow> usize"

definition table_same :: "('w, 'b) table_view \<Rightarrow> 'b \<Rightarrow> 'b \<Rightarrow> bool" where
  "table_same U b b' \<longleftrightarrow> tv_valid U b' \<and> tv_issued U b' = tv_issued U b \<and> tv_capacity U b' = tv_capacity U b"

definition admit_laws :: "('w, 'x, 'b) ResourceTable \<Rightarrow> ('w, 'b) table_view \<Rightarrow> 'b \<Rightarrow> bool" where
  "admit_laws T U b \<longleftrightarrow>
     (\<forall>i x. case rt_admit T i x b of
        (None, b') \<Rightarrow> table_same U b b' \<and> (\<forall>w. rt_get T w b' = rt_get T w b)
      | (Some w, b') \<Rightarrow> tv_valid U b' \<and> tv_capacity U b' = tv_capacity U b \<and>
          w \<notin> tv_issued U b \<and> tv_issued U b' = insert w (tv_issued U b) \<and>
          (\<forall>v. rt_get T v b' = (if v = w then Some (i, x) else rt_get T v b)))"

definition table_laws :: "('w, 'x, 'b) ResourceTable \<Rightarrow> ('w, 'b) table_view \<Rightarrow> bool" where
  "table_laws T U \<longleftrightarrow>
     (\<forall>n. tv_valid U (rt_new T n) \<and> tv_capacity U (rt_new T n) = n \<and> (\<forall>w. rt_get T w (rt_new T n) = None)) \<and>
     (\<forall>b. tv_valid U b \<longrightarrow>
        distinct (rt_tokens T b) \<and> length (rt_tokens T b) \<le> tv_capacity U b \<and>
        (\<forall>w. w \<in> set (rt_tokens T b) \<longleftrightarrow> rt_get T w b \<noteq> None) \<and> set (rt_tokens T b) \<subseteq> tv_issued U b \<and>
        admit_laws T U b \<and>
        (\<forall>w x. table_same U b (rt_put T w x b) \<and>
           (\<forall>v. rt_get T v (rt_put T w x b) =
              (if v = w then map_option (\<lambda>(i, _). (i, x)) (rt_get T w b) else rt_get T v b))) \<and>
        (\<forall>w. fst (rt_remove T w b) = rt_get T w b \<and> table_same U b (snd (rt_remove T w b)) \<and>
           (\<forall>v. rt_get T v (snd (rt_remove T w b)) = (if v = w then None else rt_get T v b))))"

lemma table_lawsD:
  assumes "table_laws T U" "tv_valid U b"
  shows "distinct (rt_tokens T b)" "length (rt_tokens T b) \<le> tv_capacity U b"
    "w \<in> set (rt_tokens T b) \<longleftrightarrow> rt_get T w b \<noteq> None" "rt_get T w b \<noteq> None \<Longrightarrow> w \<in> tv_issued U b"
    "table_same U b (rt_put T w x b)"
    "rt_get T v (rt_put T w x b) = (if v = w then map_option (\<lambda>(i, _). (i, x)) (rt_get T w b) else rt_get T v b)"
    "fst (rt_remove T w b) = rt_get T w b" "table_same U b (snd (rt_remove T w b))"
    "rt_get T v (snd (rt_remove T w b)) = (if v = w then None else rt_get T v b)"
  using assms unfolding table_laws_def by blast+

lemma table_new:
  assumes "table_laws T U"
  shows "tv_valid U (rt_new T n)" "tv_capacity U (rt_new T n) = n" "rt_get T w (rt_new T n) = None"
  using assms by (simp_all add: table_laws_def)

lemma table_admit:
  assumes "table_laws T U" "tv_valid U b"
  shows "rt_admit T i x b = (None, b') \<Longrightarrow> table_same U b b' \<and> rt_get T v b' = rt_get T v b"
    "rt_admit T i x b = (Some w, b') \<Longrightarrow> tv_valid U b' \<and> tv_capacity U b' = tv_capacity U b \<and> w \<notin> tv_issued U b \<and>
       tv_issued U b' = insert w (tv_issued U b) \<and> rt_get T v b' = (if v = w then Some (i, x) else rt_get T v b)"
proof -
  have "admit_laws T U b" using assms unfolding table_laws_def by blast
  then have law: "case rt_admit T i x b of
      (None, b') \<Rightarrow> table_same U b b' \<and> (\<forall>w. rt_get T w b' = rt_get T w b)
    | (Some w, b') \<Rightarrow> tv_valid U b' \<and> tv_capacity U b' = tv_capacity U b \<and>
        w \<notin> tv_issued U b \<and> tv_issued U b' = insert w (tv_issued U b) \<and>
        (\<forall>v. rt_get T v b' = (if v = w then Some (i, x) else rt_get T v b))"
    unfolding admit_laws_def by (elim allE)
  show "rt_admit T i x b = (None, b') \<Longrightarrow> table_same U b b' \<and> rt_get T v b' = rt_get T v b"
    "rt_admit T i x b = (Some w, b') \<Longrightarrow> tv_valid U b' \<and> tv_capacity U b' = tv_capacity U b \<and> w \<notin> tv_issued U b \<and>
       tv_issued U b' = insert w (tv_issued U b) \<and> rt_get T v b' = (if v = w then Some (i, x) else rt_get T v b)"
    using law by simp_all
qed

lemma table_same_refl: "tv_valid U b \<Longrightarrow> table_same U b b"
  by (simp add: table_same_def)

lemma table_same_trans: "table_same U b b1 \<Longrightarrow> table_same U b1 b2 \<Longrightarrow> table_same U b b2"
  by (simp add: table_same_def)

section \<open>The invariant\<close>

definition live_entry ::
  "('g, 'd, 'r, 'e, 'c, 'q, 'k, 'o, 'l, 't, 'i, 'y, 'w, 'b, 'p, 'm) set_env \<Rightarrow> ('w, 'y, 'b, 'p, 'm) ConnectionSet \<Rightarrow>
   'w \<Rightarrow> (ConnectionIdentity \<times> ('g, 'd, 'c, 'q, 'k, 'o, 'l, 't, 'i) ConnectionEntry) option" where
  "live_entry E cs w = rt_get (en_table E) w (cs_resources cs)"

text \<open>The ready queue holds exactly the live connections that are marked, each once.\<close>

definition queue_exact ::
  "('g, 'd, 'r, 'e, 'c, 'q, 'k, 'o, 'l, 't, 'i, 'y, 'w, 'b, 'p, 'm) set_env \<Rightarrow> ('w, 'y, 'b, 'p, 'm) ConnectionSet \<Rightarrow> bool" where
  "queue_exact E cs \<longleftrightarrow>
     distinct (cs_ready cs) \<and>
     (\<forall>w. w \<in> set (cs_ready cs) \<longleftrightarrow> (\<exists>i e. live_entry E cs w = Some (i, e) \<and> ce_ready_queued e))"

definition set_ok ::
  "('g, 'd, 'r, 'e, 'c, 'q, 'k, 'o, 'l, 't, 'i, 'y, 'w, 'b, 'p, 'm) set_env \<Rightarrow> ('w, 'b) table_view \<Rightarrow>
   ('w \<Rightarrow> ('g, 'd, 'c, 'q, 'k, 'o, 'l) ConnectionSlot \<Rightarrow> bool) \<Rightarrow> ('w, 'y, 'b, 'p, 'm) ConnectionSet \<Rightarrow> bool" where
  "set_ok E U ok cs \<longleftrightarrow>
     table_laws (en_table E) U \<and> tv_valid U (cs_resources cs) \<and> queue_exact E cs \<and>
     (\<forall>w i e. live_entry E cs w = Some (i, e) \<longrightarrow>
        ok w (ce_slot e) \<and> (cs_owner_failure cs \<noteq> None \<longrightarrow> sl_state (ce_slot e) \<noteq> Running))"

lemma set_okD:
  assumes "set_ok E U ok cs"
  shows "table_laws (en_table E) U" "tv_valid U (cs_resources cs)" "queue_exact E cs"
    "live_entry E cs w = Some (i, e) \<Longrightarrow> ok w (ce_slot e)"
    "live_entry E cs w = Some (i, e) \<Longrightarrow> cs_owner_failure cs \<noteq> None \<Longrightarrow> sl_state (ce_slot e) \<noteq> Running"
  using assms by (auto simp: set_ok_def)

text \<open>
  What an operation keeps: the invariant, the tokens with their identities, a recorded selector failure,
  and, unless the selector fails in it, every connection outside \<open>W\<close>.
\<close>

definition set_kept ::
  "('g, 'd, 'r, 'e, 'c, 'q, 'k, 'o, 'l, 't, 'i, 'y, 'w, 'b, 'p, 'm) set_env \<Rightarrow> ('w, 'b) table_view \<Rightarrow>
   ('w \<Rightarrow> ('g, 'd, 'c, 'q, 'k, 'o, 'l) ConnectionSlot \<Rightarrow> bool) \<Rightarrow> 'w set \<Rightarrow> ('w, 'y, 'b, 'p, 'm) ConnectionSet \<Rightarrow>
   ('w, 'y, 'b, 'p, 'm) ConnectionSet \<Rightarrow> bool" where
  "set_kept E U ok W cs cs' \<longleftrightarrow>
     (set_ok E U ok cs \<longrightarrow>
        set_ok E U ok cs' \<and> table_same U (cs_resources cs) (cs_resources cs') \<and> cs_limits cs' = cs_limits cs \<and>
        (\<forall>w. map_option fst (live_entry E cs' w) = map_option fst (live_entry E cs w)) \<and>
        (cs_owner_failure cs \<noteq> None \<longrightarrow> cs_owner_failure cs' = cs_owner_failure cs) \<and>
        (cs_owner_failure cs' = cs_owner_failure cs \<longrightarrow> (\<forall>w. w \<notin> W \<longrightarrow> live_entry E cs' w = live_entry E cs w)))"

lemma set_kept_refl [simp]: "set_kept E U ok W cs cs"
  by (auto simp: set_kept_def table_same_def set_ok_def)

lemma set_kept_mono: "set_kept E U ok W cs cs' \<Longrightarrow> W \<subseteq> W' \<Longrightarrow> set_kept E U ok W' cs cs'"
  unfolding set_kept_def by blast

lemma set_keptD:
  assumes "set_kept E U ok W cs cs'" "set_ok E U ok cs"
  shows "set_ok E U ok cs'" "cs_limits cs' = cs_limits cs" "table_same U (cs_resources cs) (cs_resources cs')"
    "map_option fst (live_entry E cs' w) = map_option fst (live_entry E cs w)"
    "cs_owner_failure cs \<noteq> None \<Longrightarrow> cs_owner_failure cs' = cs_owner_failure cs"
    "cs_owner_failure cs' = cs_owner_failure cs \<Longrightarrow> w \<notin> W \<Longrightarrow> live_entry E cs' w = live_entry E cs w"
  using assms unfolding set_kept_def by blast+

lemma set_kept_trans [trans]:
  assumes "set_kept E U ok W cs cs1" "set_kept E U ok W cs1 cs2"
  shows "set_kept E U ok W cs cs2"
  unfolding set_kept_def
proof (intro impI)
  assume ok: "set_ok E U ok cs"
  note one = set_keptD [OF assms(1) ok] and two = set_keptD [OF assms(2) set_keptD(1) [OF assms(1) ok]]
  have same: "cs_owner_failure cs1 = cs_owner_failure cs" if "cs_owner_failure cs2 = cs_owner_failure cs"
    using one(5) two(5) that by (cases "cs_owner_failure cs"; cases "cs_owner_failure cs1") auto
  show "set_ok E U ok cs2 \<and> table_same U (cs_resources cs) (cs_resources cs2) \<and> cs_limits cs2 = cs_limits cs \<and>
      (\<forall>w. map_option fst (live_entry E cs2 w) = map_option fst (live_entry E cs w)) \<and>
      (cs_owner_failure cs \<noteq> None \<longrightarrow> cs_owner_failure cs2 = cs_owner_failure cs) \<and>
      (cs_owner_failure cs2 = cs_owner_failure cs \<longrightarrow> (\<forall>w. w \<notin> W \<longrightarrow> live_entry E cs2 w = live_entry E cs w))"
  proof (intro conjI allI impI)
    show "set_ok E U ok cs2" "cs_limits cs2 = cs_limits cs" using one(2) two(1,2) by simp_all
    show "table_same U (cs_resources cs) (cs_resources cs2)" by (rule table_same_trans [OF one(3) two(3)])
    show "map_option fst (live_entry E cs2 w) = map_option fst (live_entry E cs w)" for w using one(4) two(4) by simp
    show "cs_owner_failure cs2 = cs_owner_failure cs" if "cs_owner_failure cs \<noteq> None" using one(5) two(5) that by simp
    show "live_entry E cs2 w = live_entry E cs w" if "cs_owner_failure cs2 = cs_owner_failure cs" "w \<notin> W" for w
      using one(6) [OF same [OF that(1)] that(2)] two(6) [OF _ that(2)] same [OF that(1)] that(1) by simp
  qed
qed

text \<open>Fields the invariant does not speak of.\<close>

lemma set_kept_fields:
  assumes "cs_resources cs' = cs_resources cs" "cs_ready cs' = cs_ready cs" "cs_owner_failure cs' = cs_owner_failure cs"
    "cs_limits cs' = cs_limits cs"
  shows "set_kept E U ok W cs cs'"
  using assms by (auto simp: set_kept_def set_ok_def queue_exact_def live_entry_def table_same_def)

lemma set_kept_fold:
  assumes "\<And>x cs. x \<in> set xs \<Longrightarrow> set_kept E U ok W cs (f x cs)"
  shows "set_kept E U ok W cs (fold f xs cs)"
  using assms
proof (induction xs arbitrary: cs)
  case (Cons x xs)
  have "set_kept E U ok W cs (f x cs)" by (rule Cons.prems) simp
  also have "set_kept E U ok W (f x cs) (fold f xs (f x cs))" by (rule Cons.IH) (rule Cons.prems, simp)
  finally show ?case by simp
qed simp

section \<open>Writing an entry\<close>

lemma live_put:
  assumes "set_ok E U ok cs"
  shows "live_entry E (put_entry E w e cs) v =
    (if v = w then map_option (\<lambda>(i, _). (i, e)) (live_entry E cs w) else live_entry E cs v)"
  using table_lawsD(6) [OF set_okD(1,2) [OF assms]] by (simp add: live_entry_def put_entry_def)

lemma put_fields [simp]:
  "cs_ready (put_entry E w e cs) = cs_ready cs" "cs_owner_failure (put_entry E w e cs) = cs_owner_failure cs"
  "cs_limits (put_entry E w e cs) = cs_limits cs" "cs_poller (put_entry E w e cs) = cs_poller cs"
  by (simp_all add: put_entry_def)

lemma put_swap: "put_entry E w e (cs\<lparr>cs_ready := ready\<rparr>) = (put_entry E w e cs)\<lparr>cs_ready := ready\<rparr>"
  by (cases cs) (simp add: put_entry_def)

lemma put_table:
  assumes "set_ok E U ok cs"
  shows "table_same U (cs_resources cs) (cs_resources (put_entry E w e cs))"
  using table_lawsD(5) [OF set_okD(1,2) [OF assms]] by (simp add: put_entry_def)

text \<open>An entry and the queue written together.\<close>

lemma put_ready:
  assumes ok: "set_ok E U ok cs" and e: "live_entry E cs w = Some (i, e)"
    and ok': "ok' w (ce_slot e')" "cs_owner_failure cs \<noteq> None \<Longrightarrow> sl_state (ce_slot e') \<noteq> Running"
    and same: "\<And>v s. v \<noteq> w \<Longrightarrow> ok v s \<Longrightarrow> ok' v s"
    and ready: "distinct ready" "\<And>v. v \<noteq> w \<Longrightarrow> v \<in> set ready \<longleftrightarrow> v \<in> set (cs_ready cs)" "w \<in> set ready \<longleftrightarrow> ce_ready_queued e'"
  shows "set_ok E U ok' ((put_entry E w e' cs)\<lparr>cs_ready := ready\<rparr>)"
proof -
  let ?cs = "(put_entry E w e' cs)\<lparr>cs_ready := ready\<rparr>"
  have live: "live_entry E ?cs v = (if v = w then Some (i, e') else live_entry E cs v)" for v
    using live_put [OF ok, of w e' v] e by (simp add: live_entry_def)
  have table: "tv_valid U (cs_resources ?cs)" using put_table [OF ok, of w e'] by (simp add: table_same_def)
  have queue: "v \<in> set (cs_ready cs) \<longleftrightarrow> (\<exists>i e. live_entry E cs v = Some (i, e) \<and> ce_ready_queued e)" for v
    using set_okD(3) [OF ok] by (simp add: queue_exact_def)
  have "v \<in> set ready \<longleftrightarrow> (\<exists>i e. live_entry E ?cs v = Some (i, e) \<and> ce_ready_queued e)" for v
    using ready(2) [of v] ready(3) queue [of v] by (cases "v = w") (simp_all add: live)
  then have "queue_exact E ?cs" using ready(1) unfolding queue_exact_def by simp
  moreover have "ok' v (ce_slot f) \<and> (cs_owner_failure ?cs \<noteq> None \<longrightarrow> sl_state (ce_slot f) \<noteq> Running)"
    if "live_entry E ?cs v = Some (j, f)" for v j f
    using that ok' same set_okD(4,5) [OF ok, of v j f] by (cases "v = w") (auto simp: live)
  ultimately show ?thesis using set_okD(1) [OF ok] table unfolding set_ok_def by blast
qed

lemma put_ready_kept:
  assumes e: "live_entry E cs w = Some (i, e)" and w: "w \<in> W" and carried: "carried (ok w) (ce_slot e) (ce_slot e')"
    and ready: "set_ok E U ok cs \<Longrightarrow> distinct ready" "\<And>v. v \<noteq> w \<Longrightarrow> v \<in> set ready \<longleftrightarrow> v \<in> set (cs_ready cs)"
      "set_ok E U ok cs \<Longrightarrow> w \<in> set ready \<longleftrightarrow> ce_ready_queued e'"
  shows "set_kept E U ok W cs ((put_entry E w e' cs)\<lparr>cs_ready := ready\<rparr>)"
proof -
  let ?cs = "(put_entry E w e' cs)\<lparr>cs_ready := ready\<rparr>"
  have "set_ok E U ok ?cs \<and> table_same U (cs_resources cs) (cs_resources ?cs) \<and>
      (\<forall>v. map_option fst (live_entry E ?cs v) = map_option fst (live_entry E cs v)) \<and>
      (\<forall>v. v \<notin> W \<longrightarrow> live_entry E ?cs v = live_entry E cs v)" if ok: "set_ok E U ok cs"
  proof -
    have s: "ok w (ce_slot e')" "cs_owner_failure cs \<noteq> None \<Longrightarrow> sl_state (ce_slot e') \<noteq> Running"
      using carried set_okD(4,5) [OF ok e] by (auto simp: carried_def)
    have live: "live_entry E ?cs v = (if v = w then Some (i, e') else live_entry E cs v)" for v
      using live_put [OF ok, of w e' v] e by (simp add: live_entry_def)
    have "set_ok E U ok ?cs" by (rule put_ready [where ok = ok and ok' = ok, OF ok e s _ ready(1) [OF ok] ready(2) ready(3) [OF ok]])
    then show ?thesis using put_table [OF ok, of w e'] e w by (auto simp: live)
  qed
  then show ?thesis unfolding set_kept_def by simp
qed

lemma put_kept:
  assumes "live_entry E cs w = Some (i, e)" "w \<in> W" "carried (ok w) (ce_slot e) (ce_slot e')"
    "ce_ready_queued e' = ce_ready_queued e"
  shows "set_kept E U ok W cs (put_entry E w e' cs)"
proof -
  have "w \<in> set (cs_ready cs) \<longleftrightarrow> ce_ready_queued e'" "distinct (cs_ready cs)" if "set_ok E U ok cs"
    using set_okD(3) [OF that] assms(1,4) by (simp_all add: queue_exact_def)
  then have "set_kept E U ok W cs ((put_entry E w e' cs)\<lparr>cs_ready := cs_ready cs\<rparr>)"
    by (intro put_ready_kept [where ok = ok, OF assms(1,2,3)]) auto
  moreover have "(put_entry E w e' cs)\<lparr>cs_ready := cs_ready cs\<rparr> = put_entry E w e' cs" by (simp add: put_entry_def)
  ultimately show ?thesis by simp
qed

lemma enqueue_kept:
  assumes "w \<in> W"
  shows "set_kept E U ok W cs (enqueue E w cs)"
proof (cases "live_entry E cs w")
  case None
  then show ?thesis by (simp add: enqueue_def live_entry_def)
next
  case (Some ie)
  then obtain i e where e: "live_entry E cs w = Some (i, e)" by (cases ie) simp
  show ?thesis
  proof (cases "ce_ready_queued e")
    case True
    then show ?thesis using e by (simp add: enqueue_def live_entry_def)
  next
    case False
    have "set_kept E U ok W cs ((put_entry E w (e\<lparr>ce_ready_queued := True\<rparr>) cs)\<lparr>cs_ready := cs_ready cs @ [w]\<rparr>)"
      using False e by (intro put_ready_kept [OF e assms]) (auto simp: set_ok_def queue_exact_def)
    then show ?thesis using e False by (simp add: enqueue_def live_entry_def)
  qed
qed

lemma unqueue_kept:
  assumes "w \<in> W"
  shows "set_kept E U ok W cs (unqueue E w cs)"
proof (cases "live_entry E cs w")
  case None
  have "filter (\<lambda>v. v \<noteq> w) (cs_ready cs) = cs_ready cs" if "set_ok E U ok cs"
    using set_okD(3) [OF that] None by (auto simp: queue_exact_def filter_id_conv)
  then show ?thesis using None by (auto simp: set_kept_def unqueue_def live_entry_def table_same_def set_ok_def)
next
  case (Some ie)
  then obtain i e where e: "live_entry E cs w = Some (i, e)" by (cases ie) simp
  have "set_kept E U ok W cs ((put_entry E w (e\<lparr>ce_ready_queued := False\<rparr>) cs)\<lparr>cs_ready := filter (\<lambda>v. v \<noteq> w) (cs_ready cs)\<rparr>)"
    by (intro put_ready_kept [OF e assms]) (auto simp: set_ok_def queue_exact_def)
  then show ?thesis using e by (simp add: unqueue_def live_entry_def put_swap)
qed

text \<open>Fenced access finds exactly the live entry of that identity.\<close>

lemma set_entry_Inr:
  "set_entry E connection cs = Inr e \<longleftrightarrow> live_entry E cs (ct_resource connection) = Some (ct_identity connection, e)"
  by (auto simp: set_entry_def live_entry_def split: option.split)

lemma set_entry_Inl:
  "set_entry E connection cs = Inl e \<longleftrightarrow>
     e = AccessStale \<and> (\<forall>entry. live_entry E cs (ct_resource connection) \<noteq> Some (ct_identity connection, entry))"
  by (auto simp: set_entry_def live_entry_def split: option.split)

end
