(* ===== verification/SetTurnInv.thy ===== *)
theory SetTurnInv
  imports SetInv "HOL-Library.Sublist"
begin

text \<open>
  Turns of a connection set: the set-wide latch, settlement, commands, readiness, candidates and ready
  rounds keep the set, and a turn returns. The interface \<open>set_owner\<close> asks the slots of every token to keep
  the calls of the set.
\<close>

section \<open>The selector\<close>

text \<open>What a selector failure does to one entry.\<close>

definition failed_entry ::
  "('g, 'd, 'r, 'e, 'c, 'q, 'k, 'o, 'l, 't, 'i, 'y, 'w, 'b, 'p, 'm) set_env \<Rightarrow> MioError \<Rightarrow>
   ('g, 'd, 'c, 'q, 'k, 'o, 'l, 't, 'i) ConnectionEntry \<Rightarrow> ('g, 'd, 'c, 'q, 'k, 'o, 'l, 't, 'i) ConnectionEntry" where
  "failed_entry E source e =
     e\<lparr>ce_slot := latch_owner_failure OwnerReadiness
          (record_readiness_failure (mp_io_error (en_poller E) source) (ce_slot e)), ce_ready_queued := False\<rparr>"

lemma latch_owner_fails: "sl_state (latch_owner_failure reason s) \<noteq> Running"
  by (cases "sl_state s") (simp_all add: latch_owner_failure_def)

lemma failed_entry_fails:
  "sl_state (ce_slot (failed_entry E source e)) \<noteq> Running" "\<not> ce_ready_queued (failed_entry E source e)"
  by (simp_all add: failed_entry_def latch_owner_fails)

text \<open>Every token of the list is failed, everything else stays.\<close>

lemma fail_entries:
  assumes "table_laws (en_table E) U" "tv_valid U b"
  shows "table_same U b (fold (fail_entry E source) ws b)"
    "rt_get (en_table E) v b = Some (i, e) \<Longrightarrow>
     \<exists>n. rt_get (en_table E) v (fold (fail_entry E source) ws b) = Some (i, (failed_entry E source ^^ n) e) \<and> (v \<in> set ws \<longrightarrow> n \<noteq> 0)"
    "rt_get (en_table E) v b = None \<Longrightarrow> rt_get (en_table E) v (fold (fail_entry E source) ws b) = None"
proof -
  let ?T = "en_table E" and ?f = "fail_entry E source"
  have one: "table_same U b (?f w b)" "rt_get ?T v (?f w b) =
      map_option (\<lambda>(i, e). (i, if v = w then failed_entry E source e else e)) (rt_get ?T v b)"
    if "tv_valid U b" for w b v
  proof -
    note put = table_lawsD(5,6) [OF assms(1) that]
    show "table_same U b (?f w b)"
      using put(1) that by (auto simp: fail_entry_def table_same_refl split: option.split)
    show "rt_get ?T v (?f w b) = map_option (\<lambda>(i, e). (i, if v = w then failed_entry E source e else e)) (rt_get ?T v b)"
      by (cases "rt_get ?T w b"; cases "rt_get ?T v b") (auto simp: fail_entry_def put(2) failed_entry_def)
  qed
  have "table_same U b (fold ?f ws b) \<and>
    (case rt_get ?T v b of None \<Rightarrow> rt_get ?T v (fold ?f ws b) = None
     | Some (i, e) \<Rightarrow> \<exists>n. rt_get ?T v (fold ?f ws b) = Some (i, (failed_entry E source ^^ n) e) \<and> (v \<in> set ws \<longrightarrow> n \<noteq> 0))"
    using assms(2)
  proof (induction ws arbitrary: b)
    case Nil
    then show ?case by (auto simp: table_same_refl intro!: exI [of _ 0] split: option.split)
  next
    case (Cons w ws)
    note f = one [OF Cons.prems]
    have v: "tv_valid U (?f w b)" using f(1) by (simp add: table_same_def)
    note IH = Cons.IH [OF v, unfolded f(2) [of v]]
    have same: "table_same U b (fold ?f (w # ws) b)" using table_same_trans [OF f(1)] IH by auto
    show ?case
    proof (cases "rt_get ?T v b")
      case None
      then show ?thesis using IH same by simp
    next
      case (Some ie)
      then obtain i e where ie: "rt_get ?T v b = Some (i, e)" by (cases ie) simp
      let ?e = "if v = w then failed_entry E source e else e"
      obtain n where n: "rt_get ?T v (fold ?f ws (?f w b)) = Some (i, (failed_entry E source ^^ n) ?e)" "v \<in> set ws \<longrightarrow> n \<noteq> 0"
        using IH ie by auto
      show ?thesis
      proof (cases "v = w")
        case True
        then show ?thesis using same ie n by (auto simp: funpow_swap1 intro!: exI [of _ "Suc n"])
      next
        case False
        then show ?thesis using same ie n by auto
      qed
    qed
  qed
  then show "table_same U b (fold ?f ws b)"
    "rt_get ?T v b = Some (i, e) \<Longrightarrow>
     \<exists>n. rt_get ?T v (fold ?f ws b) = Some (i, (failed_entry E source ^^ n) e) \<and> (v \<in> set ws \<longrightarrow> n \<noteq> 0)"
    "rt_get ?T v b = None \<Longrightarrow> rt_get ?T v (fold ?f ws b) = None" by auto
qed

lemma latched_entries:
  assumes "table_laws (en_table E) U" "tv_valid U (cs_resources cs)" "cs_owner_failure cs = None"
  shows "table_same U (cs_resources cs) (cs_resources (latch_selector_failure E source cs))"
    "live_entry E cs v = Some (i, e) \<Longrightarrow>
     \<exists>n. live_entry E (latch_selector_failure E source cs) v = Some (i, (failed_entry E source ^^ Suc n) e)"
    "live_entry E cs v = None \<Longrightarrow> live_entry E (latch_selector_failure E source cs) v = None"
    "cs_ready (latch_selector_failure E source cs) = []"
    "cs_owner_failure (latch_selector_failure E source cs) = Some OwnerReadiness"
proof -
  let ?ws = "rt_tokens (en_table E) (cs_resources cs)"
  note f = fail_entries [OF assms(1,2), where source = source and ws = ?ws]
  show "\<exists>n. live_entry E (latch_selector_failure E source cs) v = Some (i, (failed_entry E source ^^ Suc n) e)"
    if e: "live_entry E cs v = Some (i, e)"
  proof -
    have "v \<in> set ?ws" using table_lawsD(3) [OF assms(1,2)] e by (simp add: live_entry_def)
    then obtain n where "rt_get (en_table E) v (fold (fail_entry E source) ?ws (cs_resources cs)) =
        Some (i, (failed_entry E source ^^ n) e)" "n \<noteq> 0"
      using f(2) [of v i e] e by (auto simp: live_entry_def)
    then show ?thesis using assms(3) by (cases n) (auto simp: latch_selector_failure_def live_entry_def)
  qed
qed (use fail_entries [OF assms(1,2), where source = source and ws = "rt_tokens (en_table E) (cs_resources cs)"] assms(3) in
  \<open>simp_all add: latch_selector_failure_def live_entry_def\<close>)

text \<open>
  What the rounds do to the queue: \<open>served\<close> are the connections taken from its front, in order, and \<open>again\<close>
  those of them put back at its end. What was queued before, followed by what was put back, is what was
  served, followed by what is queued now; only a failure of the selector empties the queue.
\<close>

definition round_result ::
  "nat \<Rightarrow> 'w list \<Rightarrow> 'w list \<Rightarrow> ('w, 'y, 'b, 'p, 'm) ConnectionSet \<Rightarrow> EngineError + usize \<Rightarrow>
   ('w, 'y, 'b, 'p, 'm) ConnectionSet \<Rightarrow> bool" where
  "round_result n served again cs r cs' \<longleftrightarrow>
     length served \<le> n \<and>
     (case r of
        Inl e \<Rightarrow> ((\<exists>source. e = EngMio source) \<and> cs_owner_failure cs' \<noteq> None \<or> adapter_fault e) \<and>
          served \<noteq> [] \<and> subseq again (butlast served)
      | Inr _ \<Rightarrow> subseq again served \<and> (length served = n \<or> cs_ready cs' = [])) \<and>
     (if cs_owner_failure cs' = cs_owner_failure cs then cs_ready cs @ again = served @ cs_ready cs'
      else isl r \<and> cs_ready cs' = [])"

lemma round_result_step:
  assumes "round_result n served again cs3 r cs'" "cs_ready cs = w # rest" "cs_ready cs3 = rest @ (if b then [w] else [])"
    "cs_owner_failure cs3 = cs_owner_failure cs"
  shows "round_result (Suc n) (w # served) ((if b then [w] else []) @ again) cs r cs'"
proof (cases r)
  case (Inl e)
  then show ?thesis using assms by (auto simp: round_result_def)
next
  case (Inr x)
  then show ?thesis using assms by (auto simp: round_result_def split: if_splits)
qed

text \<open>Fairness: without an error the first \<open>n\<close> connections of the queue are served before any other.\<close>

lemma round_result_prefix:
  assumes "round_result n served again cs (Inr x) cs'"
  shows "prefix (take n (cs_ready cs)) served"
proof -
  have q: "cs_ready cs @ again = served @ cs_ready cs'" and n: "length served = n \<or> cs_ready cs' = []"
    using assms by (auto simp: round_result_def split: if_splits)
  show ?thesis
  proof (cases "cs_ready cs' = []")
    case True
    then have "served = cs_ready cs @ again" using q by simp
    then show ?thesis by (metis append_take_drop_id append.assoc prefixI)
  next
    case False
    then have "served = take n (cs_ready cs @ again)" using q n by simp
    then show ?thesis by simp
  qed
qed

section \<open>The operations of a set keep it\<close>

locale set_owner =
  fixes E :: "('g, 'd, 'r, 'e, 'c, 'q, 'k, 'o, 'l, 't, 'i, 'y, 'w, 'b, 'p, 'm) set_env"
    and ok :: "'w \<Rightarrow> ('g, 'd, 'c, 'q, 'k, 'o, 'l) ConnectionSlot \<Rightarrow> bool"
  assumes slots: "\<And>w. set_slots E (ok w)"
begin

lemma failed_entry_carried:
  "carried (ok w) (ce_slot e) (ce_slot (failed_entry E source e))"
  "carried (ok w) (ce_slot e) (ce_slot ((failed_entry E source ^^ n) e))"
proof -
  show one: "carried (ok w) (ce_slot e) (ce_slot (failed_entry E source e))" for e
    using carried_trans [OF set_slots.records_readiness [OF slots] set_slots.latches [OF slots]]
    by (simp add: failed_entry_def)
  show "carried (ok w) (ce_slot e) (ce_slot ((failed_entry E source ^^ n) e))"
    by (induction n) (auto intro: carried_trans one)
qed

lemma latch_kept: "set_kept E U ok W cs (latch_selector_failure E source cs)"
proof (cases "cs_owner_failure cs")
  case (Some reason)
  then show ?thesis by (simp add: latch_selector_failure_def)
next
  case None
  let ?cs = "latch_selector_failure E source cs"
  have "set_ok E U ok ?cs \<and> table_same U (cs_resources cs) (cs_resources ?cs) \<and>
      (\<forall>w. map_option fst (live_entry E ?cs w) = map_option fst (live_entry E cs w))" if ok: "set_ok E U ok cs"
  proof -
    note l = latched_entries [OF set_okD(1,2) [OF ok] None, where source = source]
    have entry: "\<exists>e n. live_entry E cs w = Some (i, e) \<and> f = (failed_entry E source ^^ Suc n) e"
      if f: "live_entry E ?cs w = Some (i, f)" for w i f
    proof (cases "live_entry E cs w")
      case (Some ie)
      then show ?thesis using l(2) [of w "fst ie" "snd ie"] f by (cases ie) auto
    qed (use l(3) f in simp)
    have "ok w (ce_slot f) \<and> sl_state (ce_slot f) \<noteq> Running \<and> \<not> ce_ready_queued f" if f: "live_entry E ?cs w = Some (i, f)" for w i f
    proof -
      obtain e n where e: "live_entry E cs w = Some (i, e)" "f = (failed_entry E source ^^ Suc n) e" using entry [OF f] by blast
      have "ok w (ce_slot f)"
        using failed_entry_carried(2) [where w = w and e = e and n = "Suc n"] set_okD(4) [OF ok e(1)] unfolding e(2) carried_def by blast
      then show ?thesis by (simp add: e(2) failed_entry_fails)
    qed
    then have "set_ok E U ok ?cs"
      using l(1,4) set_okD(1) [OF ok] unfolding set_ok_def queue_exact_def table_same_def by auto
    moreover have "map_option fst (live_entry E ?cs w) = map_option fst (live_entry E cs w)" for w
    proof (cases "live_entry E cs w")
      case (Some ie)
      then show ?thesis using l(2) [of w "fst ie" "snd ie"] by auto
    qed (use l(3) in simp)
    ultimately show ?thesis using l(1) by blast
  qed
  then show ?thesis using None by (auto simp: set_kept_def latch_selector_failure_def)
qed

lemma latch_error_kept: "set_kept E U ok W cs (latch_readiness_error E e cs)"
  by (cases e) (simp_all add: latch_readiness_error_def latch_kept)

lemma poll_selector_kept: "set_kept E U ok W cs (snd (poll_selector E maximum cs))"
proof -
  obtain r events po where p: "mp_poll (en_poller E) maximum (cs_poll_events cs) (cs_poller cs) = (r, events, po)"
    by (cases "mp_poll (en_poller E) maximum (cs_poll_events cs) (cs_poller cs)")
  let ?cs = "cs\<lparr>cs_poll_events := events, cs_poller := po\<rparr>"
  have "set_kept E U ok W cs ?cs" by (rule set_kept_fields) simp_all
  then have "set_kept E U ok W cs (latch_selector_failure E source ?cs)" "set_kept E U ok W cs ?cs" for source
    using set_kept_trans latch_kept by blast+
  then show ?thesis
    using p by (auto simp: poll_selector_def resolve_selector_poll_def split: sum.split)
qed

lemma observe_poll_kept: "set_kept E U ok W cs (observe_poll report cs)"
  by (rule set_kept_fields) (simp_all add: observe_poll_def)

lemma poll_io_kept: "set_kept E U ok W cs (snd (poll_io E maximum cs))"
proof (cases "poll_selector E maximum cs")
  case (Pair r cs1)
  then have "set_kept E U ok W cs cs1" using poll_selector_kept [of U W cs maximum] by simp
  then show ?thesis using set_kept_trans [OF _ observe_poll_kept] Pair by (cases r) (auto simp: poll_io_def)
qed

lemma settle_connection_kept:
  assumes "w \<in> W"
  shows "set_kept E U ok W cs (snd (settle_connection E w cs))"
proof (cases "live_entry E cs w")
  case None
  then show ?thesis by (simp add: settle_connection_def live_entry_def)
next
  case (Some ie)
  then obtain i e where e: "live_entry E cs w = Some (i, e)" by (cases ie) simp
  obtain r e1 po where s: "settle_entry E w e (cs_poller cs) = (r, e1, po)" by (cases "settle_entry E w e (cs_poller cs)")
  let ?cs = "(put_entry E w e1 cs)\<lparr>cs_poller := po\<rparr>"
  have "entry_kept (ok w) e r e1" by (rule set_slots.settle_entry_kept [OF slots s])
  then have "set_kept E U ok W cs (put_entry E w e1 cs)" by (intro put_kept [OF e assms]) (simp_all add: entry_kept_def)
  also have "set_kept E U ok W (put_entry E w e1 cs) ?cs" by (rule set_kept_fields) simp_all
  finally have k: "set_kept E U ok W cs ?cs" .
  then have "set_kept E U ok W cs (latch_readiness_error E error ?cs)" "set_kept E U ok W cs (unqueue E w ?cs)" for error
    using set_kept_trans latch_error_kept unqueue_kept [OF assms] by blast+
  with k show ?thesis
    using e s by (auto simp: settle_connection_def live_entry_def Let_def split: sum.split option.split)
qed

lemma apply_command_kept:
  assumes "ct_resource (cmd_connection command) \<in> W"
  shows "set_kept E U ok W cs (apply_command E command cs)"
proof (cases "set_entry E (cmd_connection command) cs")
  case (Inl e)
  then have "apply_command E command cs = cs\<lparr>cs_stale_commands := u64_saturating_add (cs_stale_commands cs) 1\<rparr>"
    by (simp add: apply_command_def)
  then show ?thesis by (simp add: set_kept_fields)
next
  case (Inr entry)
  let ?w = "ct_resource (cmd_connection command)"
  obtain r s1 where r: "run_command (en_services E) command (ce_slot entry) = (r, s1)" by fastforce
  define s2 where "s2 = (case r of Inl error \<Rightarrow> latch_failure error s1 | Inr _ \<Rightarrow> s1)"
  have c: "carried (ok ?w) (ce_slot entry) s1" using set_slots.commands [OF slots, of ?w "ce_slot entry" command] by (simp add: r)
  have "carried (ok ?w) (ce_slot entry) s2"
    using c carried_trans [OF c set_slots.latches_failure [OF slots]] by (auto simp: s2_def split: sum.split)
  then have "set_kept E U ok W cs (put_entry E ?w (entry\<lparr>ce_slot := s2\<rparr>) cs)"
    using put_kept Inr assms by (fastforce simp: set_entry_Inr)
  also have "set_kept E U ok W (put_entry E ?w (entry\<lparr>ce_slot := s2\<rparr>) cs) (enqueue E ?w (put_entry E ?w (entry\<lparr>ce_slot := s2\<rparr>) cs))"
    by (rule enqueue_kept [OF assms])
  finally show ?thesis using Inr r by (simp add: apply_command_def s2_def Let_def)
qed

lemma drive_commands_kept: "set_kept E U ok UNIV cs (snd (drive_commands E cs))"
proof -
  obtain n left buffer mb where m: "mb_drain_into (en_mailbox E) [] (stl_commands_per_turn (cs_limits cs)) (cs_commands cs) =
      ((n, left), buffer, mb)" by (metis prod.collapse)
  let ?cs = "cs\<lparr>cs_commands := mb, cs_command_more_pending := left\<rparr>"
  have "set_kept E U ok UNIV cs ?cs" by (rule set_kept_fields) simp_all
  also have "set_kept E U ok UNIV ?cs (fold (apply_command E) buffer ?cs)"
    by (rule set_kept_fold) (simp add: apply_command_kept)
  finally show ?thesis by (simp add: drive_commands_def m)
qed

lemma ingest_event_kept: "set_kept E U ok UNIV cs (ingest_event E event cs)"
proof (cases event)
  case (PollResource w y)
  have stale: "set_kept E U ok UNIV cs (cs\<lparr>cs_stale_resource_events := n\<rparr>)" for n by (rule set_kept_fields) simp_all
  show ?thesis
  proof (cases "\<exists>i e t. live_entry E cs w = Some (i, e) \<and> ce_transport e = Some t")
    case False
    then show ?thesis using PollResource stale by (auto simp: ingest_event_def live_entry_def Let_def split: option.split)
  next
    case True
    then obtain i e t where e: "live_entry E cs w = Some (i, e)" "ce_transport e = Some t" by blast
    obtain s1 t1 where o: "observe_transport_readiness (en_transport E) y (ce_slot e) t = (s1, t1)" by fastforce
    have t1: "t1 = rg_observe_readiness (en_transport E) y t"
      using o by (auto simp: observe_transport_readiness_def Let_def split: prod.splits sum.splits)
    have c: "carried (ok w) (ce_slot e) (snd (capture_transport_pressure (en_port E) t1 (ce_slot e)))"
      by (rule set_slots.captures [OF slots])
    then have s1: "carried (ok w) (ce_slot e) s1"
      using o carried_trans [OF c set_slots.latches_failure [OF slots]]
      by (auto simp: observe_transport_readiness_def Let_def t1 split: prod.splits sum.splits)
    let ?e = "e\<lparr>ce_slot := s1, ce_transport := Some t1\<rparr>"
    show ?thesis
    proof (cases "ce_ready_queued e")
      case True
      have "set_kept E U ok UNIV cs (put_entry E w ?e cs)" by (rule put_kept [OF e(1)]) (simp_all add: s1)
      then show ?thesis using PollResource e o True by (simp add: ingest_event_def live_entry_def Let_def)
    next
      case False
      have "set_kept E U ok UNIV cs ((put_entry E w (?e\<lparr>ce_ready_queued := True\<rparr>) cs)\<lparr>cs_ready := cs_ready cs @ [w]\<rparr>)"
        using e(1) s1 False by (intro put_ready_kept [OF e(1)]) (auto simp: set_ok_def queue_exact_def)
      then show ?thesis using PollResource e o False by (simp add: ingest_event_def live_entry_def Let_def)
    qed
  qed
qed (simp add: ingest_event_def)

lemma ingest_readiness_kept: "set_kept E U ok UNIV cs (snd (ingest_readiness E cs))"
proof -
  have "set_kept E U ok UNIV cs (cs\<lparr>cs_poll_events := []\<rparr>)" by (rule set_kept_fields) simp_all
  also have "set_kept E U ok UNIV (cs\<lparr>cs_poll_events := []\<rparr>) (fold (ingest_event E) (cs_poll_events cs) (cs\<lparr>cs_poll_events := []\<rparr>))"
    by (rule set_kept_fold) (rule ingest_event_kept)
  finally show ?thesis by (simp add: ingest_readiness_def Let_def)
qed

lemma enqueue_candidates_kept: "set_kept E U ok UNIV cs (enqueue_candidates E now cs)"
  unfolding enqueue_candidates_def
  by (rule set_kept_fold) (auto simp: enqueue_candidate_def intro: enqueue_kept split: option.split)

lemma ingest_batches_kept: "set_kept E U ok UNIV cs (snd (ingest_poll_batches E cs))"
proof -
  obtain n cs1 where i: "ingest_readiness E cs = (n, cs1)" by fastforce
  have k1: "set_kept E U ok UNIV cs cs1" using ingest_readiness_kept [of U cs] by (simp add: i)
  obtain r cs2 where p: "poll_selector E 0 cs1 = (r, cs2)" by fastforce
  have k2: "set_kept E U ok UNIV cs cs2" using set_kept_trans [OF k1] poll_selector_kept [of U UNIV cs1 0] by (simp add: p)
  have "set_kept E U ok UNIV cs (snd (ingest_readiness E (observe_poll report cs2)))" for report
    by (rule set_kept_trans [OF set_kept_trans [OF k2 observe_poll_kept] ingest_readiness_kept])
  then show ?thesis
    using k1 k2 i p by (cases r) (auto simp: ingest_poll_batches_def case_prod_unfold)
qed

subsection \<open>Ready rounds\<close>

lemma round_step:
  assumes ok: "set_ok E U ok cs" and ready: "cs_ready cs = w # rest"
  obtains i e r e1 po where "live_entry E cs w = Some (i, e)" "drive_entry E now w e (cs_poller cs) = Some (r, e1, po)"
    "entry_kept (ok w) (e\<lparr>ce_ready_queued := False\<rparr>) r e1"
    "set_kept E U ok {w} cs ((put_entry E w e1 (cs\<lparr>cs_ready := rest\<rparr>))\<lparr>cs_poller := po\<rparr>)"
    "live_entry E ((put_entry E w e1 (cs\<lparr>cs_ready := rest\<rparr>))\<lparr>cs_poller := po\<rparr>) w = Some (i, e1)"
proof -
  have q: "distinct (w # rest)" "\<And>v. v \<in> set (w # rest) \<longleftrightarrow> (\<exists>i e. live_entry E cs v = Some (i, e) \<and> ce_ready_queued e)"
    using set_okD(3) [OF ok] ready by (simp_all add: queue_exact_def)
  have "w \<in> set (w # rest)" by simp
  then obtain i e where e: "live_entry E cs w = Some (i, e)" unfolding q(2) by blast
  obtain r e1 po where d: "drive_entry E now w e (cs_poller cs) = Some (r, e1, po)"
    "entry_kept (ok w) (e\<lparr>ce_ready_queued := False\<rparr>) r e1"
    by (rule set_slots.drive_entry_kept [OF slots set_okD(4) [OF ok e], of now w "cs_poller cs"])
  let ?cs = "(put_entry E w e1 cs)\<lparr>cs_ready := rest\<rparr>"
  have "set_kept E U ok {w} cs ?cs"
    using d(2) q(1) ready by (intro put_ready_kept [OF e]) (auto simp: entry_kept_def)
  also have "set_kept E U ok {w} ?cs (?cs\<lparr>cs_poller := po\<rparr>)" by (rule set_kept_fields) simp_all
  finally have k: "set_kept E U ok {w} cs (?cs\<lparr>cs_poller := po\<rparr>)" .
  have "live_entry E (?cs\<lparr>cs_poller := po\<rparr>) w = Some (i, e1)"
    using live_put [OF ok, of w e1 w] e by (simp add: live_entry_def)
  with that [OF e d] k show ?thesis by (simp add: put_swap)
qed

theorem rounds_return:
  assumes "set_ok E U ok cs"
  shows "\<exists>r cs' served again. drive_ready_rounds E now n work cs = Some (r, cs') \<and> set_kept E U ok (set served) cs cs' \<and>
    round_result n served again cs r cs'"
  using assms
proof (induction n arbitrary: work cs)
  case (Suc n)
  note ok = Suc.prems
  show ?case
  proof (cases "cs_ready cs")
    case (Cons w rest)
    obtain i e r e1 po where d: "live_entry E cs w = Some (i, e)" "drive_entry E now w e (cs_poller cs) = Some (r, e1, po)"
      "entry_kept (ok w) (e\<lparr>ce_ready_queued := False\<rparr>) r e1"
      "set_kept E U ok {w} cs ((put_entry E w e1 (cs\<lparr>cs_ready := rest\<rparr>))\<lparr>cs_poller := po\<rparr>)"
      "live_entry E ((put_entry E w e1 (cs\<lparr>cs_ready := rest\<rparr>))\<lparr>cs_poller := po\<rparr>) w = Some (i, e1)"
      by (rule round_step [OF ok Cons])
    let ?cs2 = "(put_entry E w e1 (cs\<lparr>cs_ready := rest\<rparr>))\<lparr>cs_poller := po\<rparr>"
    have get: "rt_get (en_table E) w (cs_resources cs) = Some (i, e)" using d(1) by (simp add: live_entry_def)
    show ?thesis
    proof (cases r)
      case (Inl err)
      have "set_kept E U ok (set [w]) cs (latch_readiness_error E err ?cs2)"
        using set_kept_trans [OF d(4) latch_error_kept] by simp
      moreover have "round_result (Suc n) [w] [] cs (Inl err) (latch_readiness_error E err ?cs2)"
        using d(3) Inl Cons
        by (auto simp: round_result_def entry_kept_def latch_readiness_error_def latch_selector_failure_def split: EngineError.splits)
      moreover have "drive_ready_rounds E now (Suc n) work cs = Some (Inl err, latch_readiness_error E err ?cs2)"
        using Cons get d(2) Inl by (simp add: Let_def)
      ultimately show ?thesis by blast
    next
      case (Inr pr)
      then obtain progress requeue where pr: "r = Inr (progress, requeue)" by (cases pr) simp
      define cs3 where "cs3 = (if requeue then enqueue E w ?cs2 else ?cs2)"
      have k: "set_kept E U ok {w} cs cs3"
        using d(4) set_kept_trans [OF d(4) enqueue_kept] by (simp add: cs3_def)
      have calm: "cs_owner_failure cs3 = cs_owner_failure cs" by (simp add: cs3_def enqueue_def split: option.split)
      have q: "cs_ready cs3 = rest @ (if requeue then [w] else [])"
        using d(3,5) by (auto simp: cs3_def enqueue_def live_entry_def entry_kept_def)
      obtain r' cs' served again where IH: "drive_ready_rounds E now n (usize_saturating_add work progress) cs3 = Some (r', cs')"
        "set_kept E U ok (set served) cs3 cs'" "round_result n served again cs3 r' cs'"
        using Suc.IH [OF set_keptD(1) [OF k ok]] by blast
      have "set_kept E U ok (set (w # served)) cs cs'"
        by (rule set_kept_trans [OF set_kept_mono [OF k] set_kept_mono [OF IH(2)]]) auto
      moreover note round_result_step [OF IH(3) Cons q calm]
      moreover have "drive_ready_rounds E now (Suc n) work cs = Some (r', cs')"
        using Cons get d(2) pr IH(1) by (simp add: Let_def cs3_def)
      ultimately show ?thesis by blast
    qed
  next
    case Nil
    then show ?thesis by (intro exI [of _ "Inr work"] exI [of _ cs] exI [of _ "[]"]) (simp add: round_result_def)
  qed
next
  case 0
  show ?case by (intro exI [of _ "Inr work"] exI [of _ cs] exI [of _ "[]"]) (simp add: round_result_def)
qed

text \<open>One turn: it returns, keeps the set, and reports an error only when the selector or an adapter failed.\<close>

theorem turn_returns:
  assumes ok: "set_ok E U ok cs"
  shows "\<exists>r cs'. turn_component E now cs = Some (r, cs') \<and> set_kept E U ok UNIV cs cs' \<and>
    (\<forall>e. r = Inl e \<longrightarrow> cs_owner_failure cs' \<noteq> None \<or> adapter_fault e)"
proof (cases "cs_owner_failure cs")
  case (Some reason)
  then show ?thesis by (simp add: turn_component_def ensure_owner_running_def)
next
  case None
  obtain n cs1 where c: "drive_commands E cs = (n, cs1)" by fastforce
  obtain p cs2 where i: "ingest_poll_batches E cs1 = (p, cs2)" by fastforce
  have k1: "set_kept E U ok UNIV cs cs1" using drive_commands_kept [of U cs] by (simp add: c)
  have k2: "set_kept E U ok UNIV cs cs2" using set_kept_trans [OF k1] ingest_batches_kept [of U cs1] by (simp add: i)
  show ?thesis
  proof (cases p)
    case (Inl e)
    then have "cs_owner_failure cs2 \<noteq> None"
      using i by (auto simp: ingest_poll_batches_def poll_selector_def resolve_selector_poll_def ensure_owner_running_def
          latch_selector_failure_def case_prod_unfold split: if_splits option.splits sum.splits)
    then show ?thesis using None c i Inl k2 by (auto simp: turn_component_def ensure_owner_running_def)
  next
    case (Inr polled)
    have k3: "set_kept E U ok UNIV cs (enqueue_candidates E now cs2)" by (rule set_kept_trans [OF k2 enqueue_candidates_kept])
    obtain r cs3 served again where d: "drive_ready E now (enqueue_candidates E now cs2) = Some (r, cs3)"
      "set_kept E U ok (set served) (enqueue_candidates E now cs2) cs3"
      "round_result (stl_ready_connections_per_turn (cs_limits (enqueue_candidates E now cs2))) served again
         (enqueue_candidates E now cs2) r cs3"
      using rounds_return [OF set_keptD(1) [OF k3 ok]] unfolding drive_ready_def by blast
    have err: "\<forall>e. r = Inl e \<longrightarrow> cs_owner_failure cs3 \<noteq> None \<or> adapter_fault e" using d(3) by (auto simp: round_result_def)
    have "set_kept E U ok UNIV cs cs3" by (rule set_kept_trans [OF k3 set_kept_mono [OF d(2)]]) simp
    then show ?thesis using None c i Inr d(1) err by (cases r) (auto simp: turn_component_def ensure_owner_running_def Let_def)
  qed
qed

text \<open>The ready rounds of a turn, on the queue as commands, readiness and due deadlines have left it.\<close>

theorem turn_serves:
  fixes now :: Moment
  assumes ok: "set_ok E U ok cs" and run: "cs_owner_failure cs = None"
    and c: "drive_commands E cs = (commands, cs1)" and i: "ingest_poll_batches E cs1 = (Inr polled, cs2)"
  defines "mid \<equiv> enqueue_candidates E now cs2" and "n \<equiv> stl_ready_connections_per_turn (cs_limits cs)"
  shows "\<exists>r driven cs' served again. turn_component E now cs = Some (r, cs') \<and> isl r = isl driven \<and>
    (\<forall>e. r = Inl e \<longrightarrow> driven = Inl e) \<and> set_kept E U ok (set served) mid cs' \<and> set_ok E U ok mid \<and>
    round_result n served again mid driven cs'"
proof -
  have k1: "set_kept E U ok UNIV cs cs1" using drive_commands_kept [of U cs] by (simp add: c)
  have k2: "set_kept E U ok UNIV cs cs2" using set_kept_trans [OF k1] ingest_batches_kept [of U cs1] by (simp add: i)
  have k3: "set_kept E U ok UNIV cs mid" unfolding mid_def by (rule set_kept_trans [OF k2 enqueue_candidates_kept])
  note mid = set_keptD(1,2) [OF k3 ok]
  obtain driven cs' served again where d: "drive_ready E now mid = Some (driven, cs')"
    "set_kept E U ok (set served) mid cs'" "round_result n served again mid driven cs'"
    using rounds_return [OF mid(1)] unfolding drive_ready_def n_def mid(2) [symmetric] by blast
  have "turn_component E now cs = Some (case driven of
      Inl e \<Rightarrow> (Inl e, cs')
    | Inr x \<Rightarrow> (Inr \<lparr>turn_work = to_u64 (usize_saturating_add (usize_saturating_add commands polled) x),
        turn_next = (if cs_command_more_pending cs' \<or> cs_poll_saturated cs' \<or> cs_ready cs' \<noteq> [] then NextNow
          else (case earliest_deadline E cs' of None \<Rightarrow> NextWake | Some d \<Rightarrow> NextWakeOr d))\<rparr>, cs'))"
    using run c i d(1) unfolding mid_def
    by (cases driven) (simp_all add: turn_component_def ensure_owner_running_def Let_def)
  then show ?thesis using d(2,3) mid(1) by (cases driven) (auto, metis sum.disc(2))
qed

end

end
