(* ===== verification/SetCalls.thy ===== *)
theory SetCalls
  imports SetTurnInv
begin

text \<open>
  The calls on a connection set from outside a turn: connecting, direct calls fenced by generation,
  retirement and recovery. Each keeps the set and, unless the selector fails in it, every connection
  but the one it names; a token that has been issued never names another connection.
\<close>

section \<open>What a call does to the set\<close>

text \<open>
  Tokens are only added, capacity and limits stay, an issued token keeps its identity or loses its
  connection, a selector failure is never taken back, and unless the selector fails in the call only
  connections in \<open>W\<close> change.
\<close>

definition set_effect ::
  "('g, 'd, 'r, 'e, 'c, 'q, 'k, 'o, 'l, 't, 'i, 'y, 'w, 'b, 'p, 'm) set_env \<Rightarrow> ('w, 'b) table_view \<Rightarrow> 'w set \<Rightarrow>
   ('w, 'y, 'b, 'p, 'm) ConnectionSet \<Rightarrow> ('w, 'y, 'b, 'p, 'm) ConnectionSet \<Rightarrow> bool" where
  "set_effect E U W cs cs' \<longleftrightarrow>
     tv_issued U (cs_resources cs) \<subseteq> tv_issued U (cs_resources cs') \<and>
     tv_capacity U (cs_resources cs') = tv_capacity U (cs_resources cs) \<and> cs_limits cs' = cs_limits cs \<and>
     (\<forall>w \<in> tv_issued U (cs_resources cs).
        live_entry E cs' w = None \<or> map_option fst (live_entry E cs' w) = map_option fst (live_entry E cs w)) \<and>
     (cs_owner_failure cs \<noteq> None \<longrightarrow> cs_owner_failure cs' = cs_owner_failure cs) \<and>
     (cs_owner_failure cs' = cs_owner_failure cs \<longrightarrow>
        (\<forall>w \<in> tv_issued U (cs_resources cs). w \<notin> W \<longrightarrow> live_entry E cs' w = live_entry E cs w))"

lemma set_effectD:
  assumes "set_effect E U W cs cs'"
  shows "tv_issued U (cs_resources cs) \<subseteq> tv_issued U (cs_resources cs')"
    "tv_capacity U (cs_resources cs') = tv_capacity U (cs_resources cs)" "cs_limits cs' = cs_limits cs"
    "w \<in> tv_issued U (cs_resources cs) \<Longrightarrow>
       live_entry E cs' w = None \<or> map_option fst (live_entry E cs' w) = map_option fst (live_entry E cs w)"
    "cs_owner_failure cs \<noteq> None \<Longrightarrow> cs_owner_failure cs' = cs_owner_failure cs"
    "cs_owner_failure cs' = cs_owner_failure cs \<Longrightarrow> w \<in> tv_issued U (cs_resources cs) \<Longrightarrow> w \<notin> W \<Longrightarrow>
       live_entry E cs' w = live_entry E cs w"
  using assms unfolding set_effect_def by blast+

lemma set_effect_refl [simp]: "set_effect E U W cs cs"
  by (simp add: set_effect_def)

lemma set_effect_mono: "set_effect E U W cs cs' \<Longrightarrow> W \<subseteq> W' \<Longrightarrow> set_effect E U W' cs cs'"
  unfolding set_effect_def by blast

lemma kept_effect: "set_kept E U ok W cs cs' \<Longrightarrow> set_ok E U ok cs \<Longrightarrow> set_effect E U W cs cs'"
  unfolding set_kept_def set_effect_def table_same_def by simp

lemma set_effect_trans [trans]:
  assumes "set_effect E U W cs cs1" "set_effect E U W cs1 cs2"
  shows "set_effect E U W cs cs2"
proof -
  note one = set_effectD [OF assms(1)] and two = set_effectD [OF assms(2)]
  have same: "cs_owner_failure cs1 = cs_owner_failure cs" if "cs_owner_failure cs2 = cs_owner_failure cs"
    using one(5) two(5) that by (cases "cs_owner_failure cs"; cases "cs_owner_failure cs1") auto
  show ?thesis unfolding set_effect_def
  proof (intro conjI ballI impI)
    fix w assume w: "w \<in> tv_issued U (cs_resources cs)"
    have w1: "w \<in> tv_issued U (cs_resources cs1)" using one(1) w by blast
    show "live_entry E cs2 w = None \<or> map_option fst (live_entry E cs2 w) = map_option fst (live_entry E cs w)"
      using one(4) [OF w] two(4) [OF w1] by auto
    show "live_entry E cs2 w = live_entry E cs w" if "cs_owner_failure cs2 = cs_owner_failure cs" "w \<notin> W"
      using one(6) [OF same [OF that(1)] w that(2)] two(6) [OF _ w1 that(2)] same [OF that(1)] that(1) by simp
  qed (use one(1,2,3,5) two(1,2,3,5) in auto)
qed

text \<open>A connection that was not there before does not count.\<close>

lemma set_effect_fresh:
  assumes "set_effect E U (insert v W) cs cs'" "v \<notin> tv_issued U (cs_resources cs)"
  shows "set_effect E U W cs cs'"
  using assms unfolding set_effect_def by auto

lemma set_ok_cong:
  assumes "set_ok E U ok cs" "\<And>w i e. live_entry E cs w = Some (i, e) \<Longrightarrow> ok w (ce_slot e) \<Longrightarrow> ok' w (ce_slot e)"
  shows "set_ok E U ok' cs"
  using assms unfolding set_ok_def by blast

lemma live_issued: "set_ok E U ok cs \<Longrightarrow> live_entry E cs w \<noteq> None \<Longrightarrow> w \<in> tv_issued U (cs_resources cs)"
  unfolding live_entry_def by (rule table_lawsD(4) [OF set_okD(1,2)])

section \<open>A connection leaves\<close>

lemma removed_ok:
  assumes ok: "set_ok E U ok cs"
    and cs': "cs' = cs\<lparr>cs_ready := filter (\<lambda>token. token \<noteq> w) (cs_ready cs),
                      cs_resources := snd (rt_remove (en_table E) w (cs_resources cs))\<rparr>"
  shows "set_ok E U ok cs'" "live_entry E cs' w = None" "set_effect E U {w} cs cs'"
    "tv_issued U (cs_resources cs') = tv_issued U (cs_resources cs)"
proof -
  note t = table_lawsD(8,9) [OF set_okD(1,2) [OF ok], where w = w]
  have live: "live_entry E cs' v = (if v = w then None else live_entry E cs v)" for v
    by (simp add: cs' live_entry_def t(2))
  show "live_entry E cs' w = None" by (simp add: live)
  show "tv_issued U (cs_resources cs') = tv_issued U (cs_resources cs)" using t(1) by (simp add: cs' table_same_def)
  have "queue_exact E cs'"
    using set_okD(3) [OF ok] unfolding queue_exact_def by (auto simp: live) (auto simp: cs')
  then show "set_ok E U ok cs'"
    using set_okD(1,4,5) [OF ok] t(1) unfolding set_ok_def by (auto simp: live table_same_def) (auto simp: cs')
  show "set_effect E U {w} cs cs'"
    using t(1) unfolding set_effect_def by (auto simp: live table_same_def) (auto simp: cs')
qed

lemma remove_resource_ok:
  assumes "set_ok E U ok cs" "w \<notin> set (cs_ready cs)"
  shows "set_ok E U ok (remove_resource E w cs)" "live_entry E (remove_resource E w cs) w = None"
    "set_effect E U {w} cs (remove_resource E w cs)"
    "tv_issued U (cs_resources (remove_resource E w cs)) = tv_issued U (cs_resources cs)"
proof -
  have ready: "filter (\<lambda>token. token \<noteq> w) (cs_ready cs) = cs_ready cs" using assms(2) by (auto simp: filter_id_conv)
  have "remove_resource E w cs = cs\<lparr>cs_ready := filter (\<lambda>token. token \<noteq> w) (cs_ready cs),
      cs_resources := snd (rt_remove (en_table E) w (cs_resources cs))\<rparr>"
    unfolding ready by (simp add: remove_resource_def)
  from removed_ok [OF assms(1) this] show "set_ok E U ok (remove_resource E w cs)"
    "live_entry E (remove_resource E w cs) w = None" "set_effect E U {w} cs (remove_resource E w cs)"
    "tv_issued U (cs_resources (remove_resource E w cs)) = tv_issued U (cs_resources cs)"
    by blast+
qed

lemma removed_others:
  "set_ok E U ok cs \<Longrightarrow> v \<noteq> w \<Longrightarrow> live_entry E (remove_resource E w cs) v = live_entry E cs v"
  using table_lawsD(9) [OF set_okD(1,2), where w = w and v = v] by (simp add: live_entry_def remove_resource_def)

text \<open>What a slot holds for its owner: operations and frames, outcomes and lifecycle events.\<close>

definition holdings ::
  "('g, 'd, 'c, 'q, 'k, 'o, 'l) ConnectionSlot \<Rightarrow> (OutboundFrame, 'g) ConnectionCore \<times> 'o \<times> 'o \<times> 'l \<times> 'l" where
  "holdings s = (sl_core s, sl_outcomes s, sl_recovery_outcomes s, sl_lifecycle s, sl_recovery_events s)"

lemma captured_holdings: "holdings (snd (capture_transport_pressure T t s)) = holdings s"
  by (simp add: holdings_def capture_transport_pressure_def observe_transport_pressure_def record_transport_failure_def Let_def)

lemma failed_holdings: "holdings (ce_slot ((failed_entry E source ^^ n) e)) = holdings (ce_slot e)"
proof -
  have "holdings (ce_slot (failed_entry E source e)) = holdings (ce_slot e)" for e
    by (simp add: holdings_def failed_entry_def latch_owner_failure_def record_readiness_failure_def
        record_transport_failure_def split: option.split)
  then show ?thesis by (induction n) simp_all
qed

section \<open>A connection arrives\<close>

text \<open>The entry of a connection before its transport is there.\<close>

definition new_entry ::
  "('g, 'd, 'r, 'e, 'c, 'q, 'k, 'o, 'l, 't, 'i, 'y, 'w, 'b, 'p, 'm) set_env \<Rightarrow>
   ('g, 'd, 'c, 'q, 'k, 'o, 'l) ConnectionSlot \<Rightarrow> ('g, 'd, 'c, 'q, 'k, 'o, 'l, 't, 'i) ConnectionEntry" where
  "new_entry E slot =
     \<lparr>ce_slot = slot, ce_transport = None, ce_interest = rg_read_write (en_transport E), ce_ready_queued = False\<rparr>"

lemma new_entry_simps [simp]: "ce_slot (new_entry E slot) = slot" "\<not> ce_ready_queued (new_entry E slot)"
  by (simp_all add: new_entry_def)


text \<open>What connecting does: it adds one connection under a token that was never issued before, or none.\<close>

definition connect_result ::
  "('g, 'd, 'r, 'e, 'c, 'q, 'k, 'o, 'l, 't, 'i, 'y, 'w, 'b, 'p, 'm) set_env \<Rightarrow> ('w, 'b) table_view \<Rightarrow> ConnectionIdentity \<Rightarrow>
   ('w, 'y, 'b, 'p, 'm) ConnectionSet \<Rightarrow> 'e ConnectError + 'w ConnectionToken \<Rightarrow> ('w, 'y, 'b, 'p, 'm) ConnectionSet \<Rightarrow> bool" where
  "connect_result E U i cs r cs' \<longleftrightarrow>
     set_effect E U {} cs cs' \<and>
     (case r of Inl _ \<Rightarrow> (\<forall>w. map_option fst (live_entry E cs' w) = map_option fst (live_entry E cs w))
      | Inr c \<Rightarrow> ct_resource c \<notin> tv_issued U (cs_resources cs) \<and> ct_identity c = i \<and>
          map_option fst (live_entry E cs' (ct_resource c)) = Some i \<and>
          (\<forall>w. live_entry E cs w = None \<longrightarrow> w \<noteq> ct_resource c \<longrightarrow> live_entry E cs' w = None))"

text \<open>
  What the callers of a set add to what a turn asks of the slots: control calls, and the
  two fields that connecting writes.
\<close>

locale set_client = set_owner E ok
  for E :: "('g, 'd, 'r, 'e, 'c, 'q, 'k, 'o, 'l, 't, 'i, 'y, 'w, 'b, 'p, 'm) set_env"
    and ok :: "'w \<Rightarrow> ('g, 'd, 'c, 'q, 'k, 'o, 'l) ConnectionSlot \<Rightarrow> bool" +
  assumes observed_pressure: "\<And>w s pressure. carried (ok w) s (s\<lparr>sl_transport_pressure := pressure\<rparr>)"
    and declared_limit: "\<And>w s limit. carried (ok w) s (s\<lparr>sl_transport_retained_limit := limit\<rparr>)"
    and finalizes: "\<And>w s reason. carried (ok w) s (snd (slot_finalize (en_services E) reason s))"
begin

lemma observed_contract: "carried (ok w) s (snd (observe_transport_pressure (en_port E) t s))"
  using observed_pressure by (simp add: observe_transport_pressure_def Let_def)

lemma admit_ok:
  assumes ok: "set_ok E U ok cs" and none: "cs_owner_failure cs = None" and e: "ok w (ce_slot e)" "\<not> ce_ready_queued e"
    and admit: "rt_admit (en_table E) i e (cs_resources cs) = (Some w, b)"
  shows "set_ok E U ok (cs\<lparr>cs_resources := b\<rparr>)" "live_entry E (cs\<lparr>cs_resources := b\<rparr>) w = Some (i, e)"
    "w \<notin> tv_issued U (cs_resources cs)" "set_effect E U {} cs (cs\<lparr>cs_resources := b\<rparr>)"
proof -
  let ?cs = "cs\<lparr>cs_resources := b\<rparr>"
  note t = table_admit(2) [OF set_okD(1,2) [OF ok] admit]
  show fresh: "w \<notin> tv_issued U (cs_resources cs)" using t by blast
  have live: "live_entry E ?cs v = (if v = w then Some (i, e) else live_entry E cs v)" for v
    using t [of v] by (simp add: live_entry_def)
  then show "live_entry E ?cs w = Some (i, e)" by simp
  have gone: "live_entry E cs w = None" using live_issued [OF ok, of w] fresh by blast
  then have "queue_exact E ?cs"
    using set_okD(3) [OF ok] e(2) unfolding queue_exact_def by (auto simp: live split: if_splits)
  then show "set_ok E U ok ?cs"
    using set_okD(1,4) [OF ok] t e(1) none unfolding set_ok_def by (auto simp: live split: if_splits)
  show "set_effect E U {} cs ?cs"
    using t fresh unfolding set_effect_def by (auto simp: live)
qed

text \<open>Undoing a registration gives the resource back.\<close>

lemma undo_ok:
  assumes ok: "set_ok E U ok cs" and e: "live_entry E cs w = Some (i, e)" "\<not> ce_ready_queued e" "ce_transport e = Some t"
    and undo: "undo_registration E w pressure err cs = (error, cs')"
  shows "set_ok E U ok cs'" "live_entry E cs' w = None" "set_effect E U {w} cs cs'"
    "tv_issued U (cs_resources cs') = tv_issued U (cs_resources cs)"
    "\<And>v. v \<noteq> w \<Longrightarrow> map_option fst (live_entry E cs' v) = map_option fst (live_entry E cs v)"
proof -
  obtain cleanup t1 po where d: "mp_deregister (en_poller E) w t (cs_poller cs) = (cleanup, t1, po)" by (metis prod.collapse)
  define s1 where "s1 = snd (observe_transport_pressure (en_port E) t1 ((ce_slot e)\<lparr>sl_transport_pressure := Some pressure\<rparr>))"
  define cs1 where "cs1 = (put_entry E w (e\<lparr>ce_slot := s1, ce_transport := Some t1\<rparr>) cs)\<lparr>cs_poller := po\<rparr>"
  have "carried (ok w) (ce_slot e) s1"
    unfolding s1_def by (rule carried_trans [OF observed_pressure observed_contract])
  then have "set_kept E U ok {w} cs (put_entry E w (e\<lparr>ce_slot := s1, ce_transport := Some t1\<rparr>) cs)"
    by (intro put_kept [OF e(1)]) simp_all
  also have "set_kept E U ok {w} (put_entry E w (e\<lparr>ce_slot := s1, ce_transport := Some t1\<rparr>) cs) cs1"
    by (rule set_kept_fields) (simp_all add: cs1_def)
  finally have k1: "set_kept E U ok {w} cs cs1" .
  define cs2 where "cs2 = (case cleanup of Inl source \<Rightarrow> latch_selector_failure E source cs1 | Inr _ \<Rightarrow> cs1)"
  have k2: "set_kept E U ok {w} cs cs2"
    using k1 set_kept_trans [OF k1 latch_kept] by (cases cleanup) (simp_all add: cs2_def)
  have "w \<notin> set (cs_ready cs)" using set_okD(3) [OF ok] e(1,2) by (simp add: queue_exact_def)
  then have "w \<notin> set (cs_ready cs2)"
    by (auto simp: cs2_def cs1_def put_entry_def latch_selector_failure_def split: sum.splits if_splits)
  note r = remove_resource_ok [OF set_keptD(1) [OF k2 ok] this]
  have cs': "cs' = remove_resource E w cs2"
    using undo e d
    by (auto simp: undo_registration_def live_entry_def Let_def cs2_def cs1_def s1_def split: sum.splits)
  show "map_option fst (live_entry E cs' v) = map_option fst (live_entry E cs v)" if "v \<noteq> w" for v
    using removed_others [OF set_keptD(1) [OF k2 ok] that] set_keptD(4) [OF k2 ok, of v] by (simp add: cs')
  from cs' r set_effect_trans [OF kept_effect [OF k2 ok] r(3)] set_keptD(3) [OF k2 ok]
  show "set_ok E U ok cs'" "live_entry E cs' w = None" "set_effect E U {w} cs cs'"
    "tv_issued U (cs_resources cs') = tv_issued U (cs_resources cs)" by (simp_all add: table_same_def)
qed

text \<open>Registration either completes, with the connection queued for its first quantum, or leaves nothing behind.\<close>

lemma register_ok:
  assumes ok: "set_ok E U ok cs" and e: "live_entry E cs (ct_resource token) = Some (i, e)" "\<not> ce_ready_queued e"
    and reg: "register_transport E token t pressure limit cs = (r, cs')"
  shows "set_ok E U ok cs'" "set_effect E U {ct_resource token} cs cs'"
    "tv_issued U (cs_resources cs') = tv_issued U (cs_resources cs)"
    "case r of Inr c \<Rightarrow> c = token \<and> map_option fst (live_entry E cs' (ct_resource token)) = Some i
     | Inl _ \<Rightarrow> live_entry E cs' (ct_resource token) = None"
    "\<forall>v. v \<noteq> ct_resource token \<longrightarrow> map_option fst (live_entry E cs' v) = map_option fst (live_entry E cs v)"
proof -
  let ?w = "ct_resource token" and ?d = "desired_interest (en_transport E) (ce_slot e) t"
  let ?s0 = "(ce_slot e)\<lparr>sl_transport_pressure := Some pressure, sl_transport_retained_limit := Some limit\<rparr>"
  obtain reg t1 po where m: "mp_register (en_poller E) ?w ?d t (cs_poller cs) = (reg, t1, po)" by (metis prod.collapse)
  define post where "post = fst (observe_transport_pressure (en_port E) t1 ?s0)"
  define e1 where "e1 = e\<lparr>ce_interest := ?d, ce_slot := snd (observe_transport_pressure (en_port E) t1 ?s0), ce_transport := Some t1\<rparr>"
  define cs1 where "cs1 = (put_entry E ?w e1 cs)\<lparr>cs_poller := po\<rparr>"
  define bad where "bad \<longleftrightarrow> tl_retained_bytes (tp_pressure_limit (en_port E) t1) \<noteq> limit \<or> prs_total post > limit"
  define error :: "'e ConnectError" where
    "error = (if tl_retained_bytes (tp_pressure_limit (en_port E) t1) \<noteq> limit
       then ConnectTransportLimit limit (tl_retained_bytes (tp_pressure_limit (en_port E) t1)) else ConnectTransportCapacity limit post)"
  have "carried (ok ?w) (ce_slot e) (ce_slot e1)"
    using carried_trans [OF carried_trans [OF observed_pressure declared_limit] observed_contract] by (simp add: e1_def)
  then have "set_kept E U ok {?w} cs (put_entry E ?w e1 cs)" by (intro put_kept [OF e(1)]) (simp_all add: e1_def)
  also have "set_kept E U ok {?w} (put_entry E ?w e1 cs) cs1" by (rule set_kept_fields) (simp_all add: cs1_def)
  finally have k1: "set_kept E U ok {?w} cs cs1" .
  note ok1 = set_keptD(1) [OF k1 ok] and f1 = kept_effect [OF k1 ok]
  have live1: "live_entry E cs1 ?w = Some (i, e1)" using live_put [OF ok, of ?w e1 ?w] e(1) by (simp add: cs1_def live_entry_def)
  have e1: "\<not> ce_ready_queued e1" "ce_transport e1 = Some t1" using e(2) by (simp_all add: e1_def)
  then have ready: "?w \<notin> set (cs_ready cs1)" using set_okD(3) [OF ok1] live1 by (simp add: queue_exact_def)
  have out: "(r, cs') = (case reg of
        Inl source \<Rightarrow> (Inl (ConnectMio source), remove_resource E ?w cs1)
      | Inr _ \<Rightarrow> if bad then (case undo_registration E ?w post error cs1 of (error, cs2) \<Rightarrow> (Inl error, cs2))
                 else (Inr token, enqueue E ?w cs1))"
    using e(1) m unfolding reg [symmetric] register_transport_def live_entry_def Let_def
    by (cases reg) (simp_all add: case_prod_unfold cs1_def e1_def bad_def post_def error_def)
  note removed = remove_resource_ok [OF ok1 ready] and queued = enqueue_kept [where ok = ok and E = E and U = U and cs = cs1, OF singletonI [of ?w]]
  have same1: "tv_issued U (cs_resources cs1) = tv_issued U (cs_resources cs)" using set_keptD(3) [OF k1 ok] by (simp add: table_same_def)
  note others = removed_others [OF ok1, of _ ?w] and ids = set_keptD(4) [OF k1 ok]
  have "set_ok E U ok cs' \<and> set_effect E U {?w} cs cs' \<and> tv_issued U (cs_resources cs') = tv_issued U (cs_resources cs1) \<and>
      (case r of Inr c \<Rightarrow> c = token \<and> map_option fst (live_entry E cs' ?w) = Some i | Inl _ \<Rightarrow> live_entry E cs' ?w = None) \<and>
      (\<forall>v. v \<noteq> ?w \<longrightarrow> map_option fst (live_entry E cs' v) = map_option fst (live_entry E cs v))"
  proof (cases reg)
    case (Inl source)
    then show ?thesis using out removed set_effect_trans [OF f1 removed(3)] others ids by simp
  next
    case (Inr u)
    show ?thesis
    proof (cases bad)
      case True
      obtain err cs2 where u: "undo_registration E ?w post error cs1 = (err, cs2)" by fastforce
      note undone = undo_ok [OF ok1 live1 e1 u]
      show ?thesis using out Inr True u undone set_effect_trans [OF f1 undone(3)] ids by simp
    next
      case False
      show ?thesis
        using out Inr False set_keptD(1,3,4) [OF queued ok1] live1 set_effect_trans [OF f1 kept_effect [OF queued ok1]] ids e(1)
        by (simp add: table_same_def)
    qed
  qed
  then show "set_ok E U ok cs'" "set_effect E U {?w} cs cs'" "tv_issued U (cs_resources cs') = tv_issued U (cs_resources cs)"
    "case r of Inr c \<Rightarrow> c = token \<and> map_option fst (live_entry E cs' ?w) = Some i | Inl _ \<Rightarrow> live_entry E cs' ?w = None"
    "\<forall>v. v \<noteq> ?w \<longrightarrow> map_option fst (live_entry E cs' v) = map_option fst (live_entry E cs v)"
    using same1 by simp_all
qed

text \<open>
  Connecting: the set keeps its invariant and every other connection; a failed attempt leaves no new
  connection, a successful one a token that was never issued before.
\<close>

lemma admitted_ok:
  assumes ok: "set_ok E U ok cs" and none: "cs_owner_failure cs = None"
    and slot: "slot_new (en_services E) ref (cc_slot config) limits decoder classifier = Inr slot" "ok w slot"
    and admit: "rt_admit (en_table E) (cfg_identity (cc_slot config)) (new_entry E slot) (cs_resources cs) = (Some w, b)"
    and out: "connect_with E ref config limits decoder classifier connector cs = (r, cs')"
  shows "set_ok E U ok cs' \<and> connect_result E U (cfg_identity (cc_slot config)) cs r cs' \<and> (\<forall>c. r = Inr c \<longrightarrow> ct_resource c = w)"
proof -
  let ?cs = "cs\<lparr>cs_resources := b\<rparr>" and ?i = "cfg_identity (cc_slot config)"
  let ?token = "\<lparr>ct_resource = w, ct_identity = ?i\<rparr>"
  have a: "set_ok E U ok ?cs" "live_entry E ?cs w = Some (?i, new_entry E slot)" "w \<notin> tv_issued U (cs_resources cs)"
    "set_effect E U {} cs ?cs"
    using admit_ok [OF ok none, of w "new_entry E slot" ?i b] admit slot(2) by simp_all
  have others: "live_entry E ?cs v = live_entry E cs v" if "v \<noteq> w" for v
    using table_admit(2) [OF set_okD(1,2) [OF ok] admit, of v] that by (simp add: live_entry_def)
  have "w \<notin> set (cs_ready ?cs)" using set_okD(3) [OF a(1)] a(2) by (simp add: queue_exact_def)
  note removed = remove_resource_ok [OF a(1) this]
  have "(\<exists>err. r = Inl err \<and> cs' = remove_resource E w ?cs) \<or>
      (\<exists>t pressure limit. register_transport E ?token t pressure limit ?cs = (r, cs'))"
    using out none slot(1) admit unfolding connect_with_def Let_def new_entry_def by (auto split: sum.splits if_splits)
  then have step: "set_ok E U ok cs' \<and> set_effect E U {w} ?cs cs' \<and>
      tv_issued U (cs_resources cs') = tv_issued U (cs_resources ?cs) \<and>
      (case r of Inr c \<Rightarrow> c = ?token \<and> map_option fst (live_entry E cs' w) = Some ?i | Inl _ \<Rightarrow> live_entry E cs' w = None) \<and>
      (\<forall>v. v \<noteq> w \<longrightarrow> map_option fst (live_entry E cs' v) = map_option fst (live_entry E ?cs v))"
  proof (elim disjE exE conjE)
    fix t pressure limit assume "register_transport E ?token t pressure limit ?cs = (r, cs')"
    from register_ok [OF a(1) _ _ this, of ?i "new_entry E slot"] a(2) show ?thesis by (cases r) simp_all
  qed (use removed removed_others [OF a(1), of _ w] in simp)
  have effect: "set_effect E U {} cs cs'"
    using set_effect_fresh [OF set_effect_trans [OF set_effect_mono [OF a(4), of "{w}"]] a(3), of cs'] step by simp
  have kept: "map_option fst (live_entry E cs' v) = map_option fst (live_entry E cs v)" if "v \<noteq> w" for v
    using step others [OF that] that by simp
  have "live_entry E cs w = None" using live_issued [OF ok, of w] a(3) by blast
  then have "map_option fst (live_entry E cs' v) = map_option fst (live_entry E cs v)" if "isl r" for v
    using kept [of v] step that by (cases "v = w"; cases r) simp_all
  moreover have "live_entry E cs' v = None" if "live_entry E cs v = None" "v \<noteq> w" for v
    using kept [OF that(2)] that(1) by simp
  ultimately show ?thesis unfolding connect_result_def using step effect a(3) by (cases r) auto
qed

lemma unadmitted_ok:
  assumes ok: "set_ok E U ok cs"
    and not: "\<nexists>slot w b. cs_owner_failure cs = None \<and>
      slot_new (en_services E) ref (cc_slot config) limits decoder classifier = Inr slot \<and>
      rt_admit (en_table E) (cfg_identity (cc_slot config)) (new_entry E slot) (cs_resources cs) = (Some w, b)"
    and out: "connect_with E ref config limits decoder classifier connector cs = (r, cs')"
  shows "set_ok E U ok cs' \<and> connect_result E U i cs r cs' \<and> (\<exists>e. r = Inl e)"
proof (cases "cs_owner_failure cs = None \<and> \<not> isl (slot_new (en_services E) ref (cc_slot config) limits decoder classifier)")
  case False
  then have "cs' = cs \<and> (\<exists>e. r = Inl e)"
    using out by (cases "cs_owner_failure cs"; cases "slot_new (en_services E) ref (cc_slot config) limits decoder classifier")
      (auto simp: connect_with_def)
  then show ?thesis using ok by (auto simp: connect_result_def)
next
  case True
  let ?i = "cfg_identity (cc_slot config)"
  obtain slot where slot: "slot_new (en_services E) ref (cc_slot config) limits decoder classifier = Inr slot"
    using True by (cases "slot_new (en_services E) ref (cc_slot config) limits decoder classifier") simp_all
  obtain b where b: "rt_admit (en_table E) ?i (new_entry E slot) (cs_resources cs) = (None, b)"
    using not slot True by (metis option.exhaust surj_pair)
  then have out: "cs' = cs\<lparr>cs_resources := b\<rparr>" "r = Inl ConnectResourceAdmission"
    using out slot True by (simp_all add: connect_with_def new_entry_def)
  note same = table_admit(1) [OF set_okD(1,2) [OF ok] b]
  have live: "live_entry E cs' v = live_entry E cs v" for v using same [of v] out(1) by (simp add: live_entry_def)
  have "set_ok E U ok cs'" using ok same unfolding set_ok_def queue_exact_def live by (simp add: out table_same_def)
  moreover have "set_effect E U {} cs cs'" using same unfolding set_effect_def live by (simp add: out table_same_def)
  ultimately show ?thesis using live out(2) by (simp add: connect_result_def)
qed

section \<open>Direct calls\<close>

lemma settle_after_kept:
  assumes "w \<in> W"
  shows "set_kept E U ok W cs (snd (settle_after E w result cs))"
    "set_kept E U ok W cs (snd (settle_connection E w (enqueue E w cs)))"
proof -
  have "set_kept E U ok W cs (enqueue E w cs)" by (rule enqueue_kept [OF assms])
  also have "set_kept E U ok W (enqueue E w cs) (snd (settle_connection E w (enqueue E w cs)))"
    by (rule settle_connection_kept [OF assms])
  finally show k: "set_kept E U ok W cs (snd (settle_connection E w (enqueue E w cs)))" .
  then show "set_kept E U ok W cs (snd (settle_after E w result cs))"
    by (simp add: settle_after_def case_prod_unfold split: sum.split)
qed

lemma on_entry_kept:
  assumes "\<And>s. carried (ok (ct_resource c)) s (snd (call s))" "ct_resource c \<in> W"
  shows "set_kept E U ok W cs (snd (on_entry E c call cs))"
proof (cases "set_entry E c cs")
  case (Inl e)
  then show ?thesis by (simp add: on_entry_def)
next
  case (Inr e)
  obtain r s1 where call: "call (ce_slot e) = (r, s1)" by fastforce
  have "carried (ok (ct_resource c)) (ce_slot e) s1" using assms(1) [of "ce_slot e"] by (simp add: call)
  then have "set_kept E U ok W cs (put_entry E (ct_resource c) (e\<lparr>ce_slot := s1\<rparr>) cs)"
    using Inr assms(2) by (intro put_kept) (simp_all add: set_entry_Inr)
  from set_kept_trans [OF this settle_after_kept(1) [OF assms(2)]] show ?thesis by (simp add: on_entry_def Inr call)
qed

lemma controls_kept:
  assumes "ct_resource c \<in> W"
  shows "set_kept E U ok W cs (snd (set_open_admission E c cs))"
    "set_kept E U ok W cs (snd (set_cancel E c i cs))"
    "set_kept E U ok W cs (snd (set_begin_drain E c deadline cs))"
    "set_kept E U ok W cs (snd (set_finalize E c reason cs))"
proof -
  note command = set_slots.commands [OF slots, of "ct_resource c"]
  have calls: "carried (ok (ct_resource c)) s (snd (slot_open_admission (en_services E) s))"
    "carried (ok (ct_resource c)) s (snd (slot_cancel (en_services E) i s))"
    "carried (ok (ct_resource c)) s (snd (slot_begin_drain (en_services E) deadline s))" for s
    using command [of s "CmdOpenAdmission c"] command [of s "CmdCancel c i"] command [of s "CmdBeginDrain c deadline"]
    by (simp_all add: run_command_state)
  show "set_kept E U ok W cs (snd (set_open_admission E c cs))"
    "set_kept E U ok W cs (snd (set_cancel E c i cs))"
    "set_kept E U ok W cs (snd (set_begin_drain E c deadline cs))"
    "set_kept E U ok W cs (snd (set_finalize E c reason cs))"
    unfolding set_open_admission_def set_cancel_def set_begin_drain_def set_finalize_def
    by (rule on_entry_kept [OF calls(1) assms] on_entry_kept [OF calls(2) assms] on_entry_kept [OF calls(3) assms]
        on_entry_kept [OF finalizes assms])+
qed

section \<open>Retirement and recovery\<close>

lemma retire_ok:
  assumes ok: "set_ok E U ok cs" and out: "set_retire E c cs = (r, cs')"
  shows "set_ok E U ok cs'" "set_effect E U {ct_resource c} cs cs'" "r = Inr () \<Longrightarrow> live_entry E cs' (ct_resource c) = None"
proof -
  let ?cs = "cs\<lparr>cs_ready := filter (\<lambda>token. token \<noteq> ct_resource c) (cs_ready cs),
    cs_resources := snd (rt_remove (en_table E) (ct_resource c) (cs_resources cs))\<rparr>"
  note removed = removed_ok [OF ok refl, of "ct_resource c"]
  have "cs' = cs \<and> r \<noteq> Inr () \<or> cs' = ?cs"
    using out by (auto simp: set_retire_def Let_def split: sum.splits option.splits if_splits prod.splits)
  then show "set_ok E U ok cs'" "set_effect E U {ct_resource c} cs cs'" "r = Inr () \<Longrightarrow> live_entry E cs' (ct_resource c) = None"
    using ok removed by auto
qed

lemma latched_live:
  assumes ok: "set_ok E U ok cs" and e: "live_entry E cs w = Some (i, e)"
  obtains e' where "live_entry E (case cleanup of None \<Rightarrow> cs | Some source \<Rightarrow> latch_selector_failure E source cs) w = Some (i, e')"
    "carried (ok w) (ce_slot e) (ce_slot e')" "holdings (ce_slot e') = holdings (ce_slot e)"
proof (cases "cleanup = None \<or> cs_owner_failure cs \<noteq> None")
  case True
  then show ?thesis using that [of e] e by (cases cleanup) (auto simp: latch_selector_failure_def)
next
  case False
  then obtain source where source: "cleanup = Some source" "cs_owner_failure cs = None" by auto
  obtain n where "live_entry E (latch_selector_failure E source cs) w = Some (i, (failed_entry E source ^^ Suc n) e)"
    using latched_entries(2) [OF set_okD(1,2) [OF ok] source(2), of w i e source] e by blast
  then show ?thesis
    using that failed_entry_carried(2) [where w = w and e = e and n = "Suc n"] source(1) by (simp add: failed_holdings del: funpow.simps)
qed

text \<open>The connection is taken out of the set, whatever the selector says, and its slot is drained into the report.\<close>

lemma recover_ok:
  assumes ok: "set_ok E U ok cs" and e: "live_entry E cs (ct_resource c) = Some (ct_identity c, e)"
    and out: "recover_connection E c reason cs = (r, cs')"
  shows "set_ok E U ok cs'" "set_effect E U {ct_resource c} cs cs'" "live_entry E cs' (ct_resource c) = None"
    "\<exists>s flag. r = Inr (fst (slot_recover_owned (en_services E) reason flag s)) \<and>
       carried (ok (ct_resource c)) (ce_slot e) s \<and> holdings s = holdings (ce_slot e)"
proof -
  let ?w = "ct_resource c"
  define step where "step = (case ce_transport e of
      None \<Rightarrow> (None, False, e, cs_poller cs)
    | Some t \<Rightarrow>
        (let (deregistration, t1, poller) = mp_deregister (en_poller E) ?w t (cs_poller cs);
             (pressure, s1) = capture_transport_pressure (en_port E) t1 (ce_slot e)
         in ((case deregistration of Inl source \<Rightarrow> Some source | Inr _ \<Rightarrow> None), isl pressure,
             e\<lparr>ce_slot := s1, ce_transport := Some t1\<rparr>, poller)))"
  obtain cleanup failed e1 po where st: "step = (cleanup, failed, e1, po)" by (metis prod.collapse)
  have e1: "carried (ok ?w) (ce_slot e) (ce_slot e1)" "holdings (ce_slot e1) = holdings (ce_slot e)"
    "ce_ready_queued e1 = ce_ready_queued e"
    using st set_slots.captures [OF slots, of ?w "ce_slot e"]
    by (auto simp: step_def Let_def case_prod_unfold captured_holdings split: option.splits)
  let ?cs1 = "(put_entry E ?w e1 cs)\<lparr>cs_poller := po\<rparr>"
  let ?cs2 = "case cleanup of None \<Rightarrow> ?cs1 | Some source \<Rightarrow> latch_selector_failure E source ?cs1"
  have "set_kept E U ok {?w} cs (put_entry E ?w e1 cs)" using e1 by (intro put_kept [OF e]) simp_all
  also have "set_kept E U ok {?w} (put_entry E ?w e1 cs) ?cs1" by (rule set_kept_fields) simp_all
  finally have k1: "set_kept E U ok {?w} cs ?cs1" .
  then have k2: "set_kept E U ok {?w} cs ?cs2" using set_kept_trans [OF k1 latch_kept] by (cases cleanup) simp_all
  have live1: "live_entry E ?cs1 ?w = Some (ct_identity c, e1)" using live_put [OF ok, of ?w e1 ?w] e by (simp add: live_entry_def)
  obtain e2 where e2: "live_entry E ?cs2 ?w = Some (ct_identity c, e2)" "carried (ok ?w) (ce_slot e) (ce_slot e2)"
    "holdings (ce_slot e2) = holdings (ce_slot e)"
    by (rule latched_live [OF set_keptD(1) [OF k1 ok] live1, of cleanup])
      (use e1 carried_trans [OF e1(1)] in auto)
  let ?cs3 = "?cs2\<lparr>cs_ready := filter (\<lambda>token. token \<noteq> ?w) (cs_ready ?cs2),
    cs_resources := snd (rt_remove (en_table E) ?w (cs_resources ?cs2))\<rparr>"
  note ok2 = set_keptD(1) [OF k2 ok]
  note removed = removed_ok [OF ok2 refl, of ?w]
  have rem: "fst (rt_remove (en_table E) ?w (cs_resources ?cs2)) = Some (ct_identity c, e2)"
    using table_lawsD(7) [OF set_okD(1,2) [OF ok2], of ?w] e2(1) by (simp add: live_entry_def)
  have entry: "set_entry E c cs = Inr e" using e by (simp add: set_entry_Inr)
  have res: "r = Inr (fst (slot_recover_owned (en_services E) reason (cleanup \<noteq> None \<or> failed) (ce_slot e2)))" "cs' = ?cs3"
    using out rem unfolding recover_connection_def Let_def entry sum.case step_def [unfolded Let_def, symmetric] st prod.case
    by (simp_all add: case_prod_unfold)
  then show "set_ok E U ok cs'" "set_effect E U {?w} cs cs'" "live_entry E cs' ?w = None"
    using removed set_effect_trans [OF kept_effect [OF k2 ok] removed(3)] by simp_all
  show "\<exists>s flag. r = Inr (fst (slot_recover_owned (en_services E) reason flag s)) \<and>
      carried (ok ?w) (ce_slot e) s \<and> holdings s = holdings (ce_slot e)"
    using res(1) e2 by blast
qed

end

end
