(* ===== verification/SetSystem.thy ===== *)
theory SetSystem
  imports SetCalls
begin

text \<open>
  A connection set with its callers: connections made and given up, direct calls, command producers,
  polls and turns, in every order, with the history of what the callers of each connection hold and
  have taken. The invariant holds in every reachable state.
\<close>

section \<open>The slots of a set\<close>

lemma slot_ok_fields:
  assumes "\<And>H. slot_running (en_services E) V H s \<Longrightarrow> slot_running (en_services E) V H s'"
    "\<And>H. slot_books (en_services E) V H s \<Longrightarrow> slot_books (en_services E) V H s'"
    "\<And>H. lost_books (en_services E) V H s \<Longrightarrow> lost_books (en_services E) V H s'"
    "sl_state s' = sl_state s" "sl_drain_deadline s' = sl_drain_deadline s" "sl_close_request s' = sl_close_request s"
    "sl_transport_state s' = sl_transport_state s" "sl_limits s' = sl_limits s"
  shows "carried (slot_ok E V H) s s'"
  by (rule slot_ok_carried, rule conjI, rule holds_mono [where H = H and s = s]) (simp_all add: assms)

interpretation connections: set_client E "\<lambda>w. slot_ok E V (G w)" for E V G
proof
  fix w s reason pressure limit
  show "carried (slot_ok E V (G w)) s (s\<lparr>sl_transport_pressure := pressure\<rparr>)"
    "carried (slot_ok E V (G w)) s (s\<lparr>sl_transport_retained_limit := limit\<rparr>)"
    by (rule slot_ok_fields, simp_all)+
  show "carried (slot_ok E V (G w)) s (snd (slot_finalize (en_services E) reason s))"
  proof (rule slot_ok_carried)
    assume "services_ok (en_services E) V" "slot_holds (en_services E) V (G w) s"
    from op_finalize.guarded_holds [OF this, of reason]
    show "slot_holds (en_services E) V (G w) (snd (slot_finalize (en_services E) reason s)) \<and>
        (sl_state s \<noteq> Running \<longrightarrow> sl_state (snd (slot_finalize (en_services E) reason s)) \<noteq> Running)"
      by (cases "sl_state s") (simp_all add: control_defs ensure_running_def)
  qed (rule slot_limits_kept)
qed

lemma slot_step_ok:
  assumes "slot_ok E V H s" "slot_step (en_services E) (en_port E) (s, H) (s', H')"
  shows "slot_ok E V H' s'" "sl_state s \<noteq> Running \<Longrightarrow> sl_state s' \<noteq> Running"
proof -
  note ok = slot_okD [OF assms(1)]
  show "slot_ok E V H' s'"
    using slot_inv_step [OF ok(1,2) _ assms(2)] assms(1) by (simp add: slot_ok_def)
  assume "sl_state s \<noteq> Running"
  then obtain reason where failed: "sl_state s = Failed reason" by (cases "sl_state s") simp_all
  from assms(2) show "sl_state s' \<noteq> Running"
  proof cases
    case (settle settled)
    then show ?thesis using settle_state [OF holds_failed [OF ok(3) failed], of "en_services E"] failed by simp
  qed (use failed in \<open>auto simp: slot_reserve_def slot_commit_def control_defs ensure_running_def drain_outcomes_def drain_events_def
      drive_quantum_def split: prod.splits\<close>)
qed

text \<open>One step of the slot of a live token, told to its history.\<close>

lemma put_step:
  assumes ok: "set_ok E U (\<lambda>w. slot_ok E V (G w)) cs" and e: "live_entry E cs w = Some (i, e)"
    and step: "slot_step (en_services E) (en_port E) (ce_slot e, G w) (s1, H1)"
  shows "set_ok E U (\<lambda>v. slot_ok E V ((G(w := H1)) v)) (put_entry E w (e\<lparr>ce_slot := s1\<rparr>) cs)"
    "set_effect E U {w} cs (put_entry E w (e\<lparr>ce_slot := s1\<rparr>) cs)"
proof -
  let ?e = "e\<lparr>ce_slot := s1\<rparr>"
  have ready: "distinct (cs_ready cs)" "w \<in> set (cs_ready cs) \<longleftrightarrow> ce_ready_queued ?e"
    using set_okD(3) [OF ok] e by (auto simp: queue_exact_def)
  note s1 = slot_step_ok [OF set_okD(4) [OF ok e] step]
  have "set_ok E U (\<lambda>v. slot_ok E V ((G(w := H1)) v)) ((put_entry E w ?e cs)\<lparr>cs_ready := cs_ready cs\<rparr>)"
    by (rule put_ready [OF ok e]) (use s1 set_okD(5) [OF ok e] ready in auto)
  then show "set_ok E U (\<lambda>v. slot_ok E V ((G(w := H1)) v)) (put_entry E w ?e cs)" by (simp add: put_entry_def)
  show "set_effect E U {w} cs (put_entry E w ?e cs)"
    using put_table [OF ok, of w ?e] e unfolding set_effect_def table_same_def live_put [OF ok]
    by (auto simp: put_entry_def)
qed

section \<open>Histories\<close>

text \<open>What a call tells the callers of its connection.\<close>

definition new_history :: "'r slot_history" where
  "new_history = \<lparr>sh_permits = [], sh_accepted = [], sh_delivered = [], sh_seen = []\<rparr>"

definition told_reserve :: "ConnectionReserveError + OperationPermit \<Rightarrow> 'r slot_history \<Rightarrow> 'r slot_history" where
  "told_reserve r H = (case r of Inl _ \<Rightarrow> H | Inr p \<Rightarrow> H\<lparr>sh_permits := sh_permits H @ [p]\<rparr>)"

definition told_commit ::
  "OperationPermit list \<Rightarrow> OperationPermit list \<Rightarrow> OutboundFrame ConnectionCommitError + OperationId \<Rightarrow>
   'r slot_history \<Rightarrow> 'r slot_history" where
  "told_commit ps qs r H =
     (case r of
        Inr i \<Rightarrow> H\<lparr>sh_permits := ps @ qs, sh_accepted := sh_accepted H @ [i]\<rparr>
      | Inl (CommitConnection (AcceptedOwnerFailure i _)) \<Rightarrow> H\<lparr>sh_permits := ps @ qs, sh_accepted := sh_accepted H @ [i]\<rparr>
      | Inl (CommitConnection (Rejected e)) \<Rightarrow> H\<lparr>sh_permits := ps @ ce_permit e # qs\<rparr>
      | Inl (CommitConnection (CommitOwnerFailed _ p _)) \<Rightarrow> H\<lparr>sh_permits := ps @ p # qs\<rparr>
      | Inl (CommitStale p _) \<Rightarrow> H\<lparr>sh_permits := ps @ p # qs\<rparr>)"

definition told_outcomes :: "ConnectionAccessError + 'r EngineOutcome list \<Rightarrow> 'r slot_history \<Rightarrow> 'r slot_history" where
  "told_outcomes r H = (case r of Inl _ \<Rightarrow> H | Inr os \<Rightarrow> H\<lparr>sh_delivered := sh_delivered H @ os\<rparr>)"

definition told_events :: "ConnectionAccessError + ConnectionEvent list \<Rightarrow> 'r slot_history \<Rightarrow> 'r slot_history" where
  "told_events r H = (case r of Inl _ \<Rightarrow> H | Inr evs \<Rightarrow> H\<lparr>sh_seen := sh_seen H @ evs\<rparr>)"

lemma told_simps [simp]:
  "told_reserve (Inl e) H = H" "told_reserve (Inr p) H = H\<lparr>sh_permits := sh_permits H @ [p]\<rparr>"
  "told_outcomes (Inl e') H = H" "told_outcomes (Inr os) H = H\<lparr>sh_delivered := sh_delivered H @ os\<rparr>"
  "told_events (Inl e') H = H" "told_events (Inr evs) H = H\<lparr>sh_seen := sh_seen H @ evs\<rparr>"
  "told_commit ps qs (Inr i) H = H\<lparr>sh_permits := ps @ qs, sh_accepted := sh_accepted H @ [i]\<rparr>"
  "told_commit ps qs (Inl (CommitConnection (AcceptedOwnerFailure i e''))) H =
     H\<lparr>sh_permits := ps @ qs, sh_accepted := sh_accepted H @ [i]\<rparr>"
  "told_commit ps qs (Inl (CommitConnection (Rejected err))) H = H\<lparr>sh_permits := ps @ ce_permit err # qs\<rparr>"
  "told_commit ps qs (Inl (CommitConnection (CommitOwnerFailed reason p frame))) H = H\<lparr>sh_permits := ps @ p # qs\<rparr>"
  "told_commit ps qs (Inl (CommitStale p frame)) H = H\<lparr>sh_permits := ps @ p # qs\<rparr>"
  by (simp_all add: told_reserve_def told_outcomes_def told_events_def told_commit_def)

text \<open>A permit dropped by its owner gives its reservation back to the ledger of its connection, if that is still there.\<close>

definition drop_held ::
  "('g, 'd, 'r, 'e, 'c, 'q, 'k, 'o, 'l, 't, 'i, 'y, 'w, 'b, 'p, 'm) set_env \<Rightarrow> 'w \<Rightarrow> OperationPermit \<Rightarrow>
   ('w, 'y, 'b, 'p, 'm) ConnectionSet \<Rightarrow> ('w, 'y, 'b, 'p, 'm) ConnectionSet" where
  "drop_held E w p cs =
     (case rt_get (en_table E) w (cs_resources cs) of
        None \<Rightarrow> cs
      | Some (_, e) \<Rightarrow>
          put_entry E w (e\<lparr>ce_slot := (ce_slot e)\<lparr>sl_core := drop_permit (sv_externals (en_services E)) p (sl_core (ce_slot e))\<rparr>\<rparr>) cs)"

text \<open>A permit of another ledger or epoch than the connection it is presented to.\<close>

definition is_foreign ::
  "('g, 'd, 'r, 'e, 'c, 'q, 'k, 'o, 'l, 't, 'i, 'y, 'w, 'b, 'p, 'm) set_env \<Rightarrow> 'w ConnectionToken \<Rightarrow> OperationPermit \<Rightarrow>
   ('w, 'y, 'b, 'p, 'm) ConnectionSet \<Rightarrow> bool" where
  "is_foreign E c p cs \<longleftrightarrow>
     (case set_entry E c cs of
        Inl _ \<Rightarrow> True
      | Inr e \<Rightarrow> permit_ledger p \<noteq> m_ledger_ref (core_machine (sl_core (ce_slot e))) \<or>
          permit_epoch p \<noteq> m_epoch (core_machine (sl_core (ce_slot e))))"

section \<open>All interleavings\<close>

text \<open>
  One call, with the connections it may change. Producers on other threads may change the
  mailbox at any time. The connector of a connection may be any function, so it stands for the
  address too.
\<close>

inductive set_step ::
  "('g, 'd, 'r, 'e, 'c, 'q, 'k, 'o, 'l, 't, 'i, 'y, 'w, 'b, 'p, 'm) set_env \<Rightarrow> 'w set \<Rightarrow>
   ('w, 'y, 'b, 'p, 'm) ConnectionSet \<times> ('w \<Rightarrow> 'r slot_history) \<Rightarrow>
   ('w, 'y, 'b, 'p, 'm) ConnectionSet \<times> ('w \<Rightarrow> 'r slot_history) \<Rightarrow> bool" for E where
  connected: "limits_ok connection \<Longrightarrow> io_operations_limit io \<le> USIZE_MAX \<Longrightarrow>
    slot_limits_new connection decoding io transport publication = Inr limits \<Longrightarrow>
    connect_with E ref (config :: unit ConnectionConfig) limits decoder classifier connector cs = (r, cs') \<Longrightarrow>
    set_step E {} (cs, G) (cs', case r of Inl _ \<Rightarrow> G | Inr c \<Rightarrow> G(ct_resource c := new_history))"
| reserved: "set_reserve E c now options cs = (rr, cs') \<Longrightarrow>
    set_step E {ct_resource c} (cs, G) (cs', G(ct_resource c := told_reserve rr (G (ct_resource c))))"
| dropped: "sh_permits (G w) = ps @ p # qs \<Longrightarrow>
    set_step E {w} (cs, G) (drop_held E w p cs, G(w := (G w)\<lparr>sh_permits := ps @ qs\<rparr>))"
| committed: "sh_permits (G (ct_resource c)) = ps @ p # qs \<Longrightarrow> length (of_bytes frame) \<le> USIZE_MAX \<Longrightarrow>
    set_commit E c p frame cs = (rm, cs') \<Longrightarrow>
    set_step E {ct_resource c} (cs, G) (cs', G(ct_resource c := told_commit ps qs rm (G (ct_resource c))))"
| committed_foreign: "is_foreign E c p cs \<Longrightarrow> set_commit E c p frame cs = (rm, cs') \<Longrightarrow>
    set_step E {ct_resource c} (cs, G) (cs', G)"
| admission_opened: "set_open_admission E c cs = (ri, cs') \<Longrightarrow> set_step E {ct_resource c} (cs, G) (cs', G)"
| cancelled: "set_cancel E c i cs = (rc, cs') \<Longrightarrow> set_step E {ct_resource c} (cs, G) (cs', G)"
| drain_begun: "set_begin_drain E c deadline cs = (ri, cs') \<Longrightarrow> set_step E {ct_resource c} (cs, G) (cs', G)"
| finalized: "set_finalize E c reason cs = (ri, cs') \<Longrightarrow> set_step E {ct_resource c} (cs, G) (cs', G)"
| outcomes_taken: "set_drain_outcomes E c cs = (ro, cs') \<Longrightarrow>
    set_step E {ct_resource c} (cs, G) (cs', G(ct_resource c := told_outcomes ro (G (ct_resource c))))"
| events_taken: "set_drain_events E c cs = (re, cs') \<Longrightarrow>
    set_step E {ct_resource c} (cs, G) (cs', G(ct_resource c := told_events re (G (ct_resource c))))"
| retired: "set_retire E c cs = (rt, cs') \<Longrightarrow> set_step E {ct_resource c} (cs, G) (cs', G)"
| recovered: "set_try_recover E c cs = (rv, cs') \<Longrightarrow> set_step E {ct_resource c} (cs, G) (cs', G)"
| abandoned: "set_abandon E c failure cs = (rv, cs') \<Longrightarrow> set_step E {ct_resource c} (cs, G) (cs', G)"
| produced: "set_step E {} (cs, G) (cs\<lparr>cs_commands := mailbox\<rparr>, G)"
| polled: "poll_io E maximum cs = (rw, cs') \<Longrightarrow> set_step E {} (cs, G) (cs', G)"
| turned: "turn_component E now cs = Some (rn, cs') \<Longrightarrow> set_step E UNIV (cs, G) (cs', G)"

definition set_initial ::
  "('g, 'd, 'r, 'e, 'c, 'q, 'k, 'o, 'l, 't, 'i, 'y, 'w, 'b, 'p, 'm) set_env \<Rightarrow>
   ('w, 'y, 'b, 'p, 'm) ConnectionSet \<times> ('w \<Rightarrow> 'r slot_history) \<Rightarrow> bool" where
  "set_initial E a \<longleftrightarrow> (\<exists>limits. set_new E limits = Inr (fst a)) \<and> snd a = (\<lambda>_. new_history)"

definition set_run ::
  "('g, 'd, 'r, 'e, 'c, 'q, 'k, 'o, 'l, 't, 'i, 'y, 'w, 'b, 'p, 'm) set_env \<Rightarrow>
   ('w, 'y, 'b, 'p, 'm) ConnectionSet \<times> ('w \<Rightarrow> 'r slot_history) \<Rightarrow>
   ('w, 'y, 'b, 'p, 'm) ConnectionSet \<times> ('w \<Rightarrow> 'r slot_history) \<Rightarrow> bool" where
  "set_run E = (\<lambda>a b. \<exists>W. set_step E W a b)\<^sup>*\<^sup>*"

definition set_reachable ::
  "('g, 'd, 'r, 'e, 'c, 'q, 'k, 'o, 'l, 't, 'i, 'y, 'w, 'b, 'p, 'm) set_env \<Rightarrow>
   ('w, 'y, 'b, 'p, 'm) ConnectionSet \<times> ('w \<Rightarrow> 'r slot_history) \<Rightarrow> bool" where
  "set_reachable E b \<longleftrightarrow> (\<exists>a. set_initial E a \<and> set_run E a b)"

text \<open>What the properties assume of the code that is only called.\<close>

definition env_ok ::
  "('g, 'd, 'r, 'e, 'c, 'q, 'k, 'o, 'l, 't, 'i, 'y, 'w, 'b, 'p, 'm) set_env \<Rightarrow> ('q, 'k, 'o, 'l) views \<Rightarrow> ('w, 'b) table_view \<Rightarrow> bool" where
  "env_ok E V U \<longleftrightarrow> services_ok (en_services E) V \<and> transport_wf (en_port E) \<and> table_laws (en_table E) U"

definition set_inv ::
  "('g, 'd, 'r, 'e, 'c, 'q, 'k, 'o, 'l, 't, 'i, 'y, 'w, 'b, 'p, 'm) set_env \<Rightarrow> ('q, 'k, 'o, 'l) views \<Rightarrow> ('w, 'b) table_view \<Rightarrow>
   ('w, 'y, 'b, 'p, 'm) ConnectionSet \<times> ('w \<Rightarrow> 'r slot_history) \<Rightarrow> bool" where
  "set_inv E V U a \<longleftrightarrow>
     set_ok E U (\<lambda>w. slot_ok E V (snd a w)) (fst a) \<and>
     tv_capacity U (cs_resources (fst a)) = stl_max_connections (cs_limits (fst a))"

subsection \<open>The steps keep it\<close>

definition step_keeps ::
  "('g, 'd, 'r, 'e, 'c, 'q, 'k, 'o, 'l, 't, 'i, 'y, 'w, 'b, 'p, 'm) set_env \<Rightarrow> ('q, 'k, 'o, 'l) views \<Rightarrow> ('w, 'b) table_view \<Rightarrow> 'w set \<Rightarrow>
   ('w, 'y, 'b, 'p, 'm) ConnectionSet \<Rightarrow> ('w, 'y, 'b, 'p, 'm) ConnectionSet \<Rightarrow> ('w \<Rightarrow> 'r slot_history) \<Rightarrow> bool" where
  "step_keeps E V U W cs cs' G' \<longleftrightarrow> set_ok E U (\<lambda>w. slot_ok E V (G' w)) cs' \<and> set_effect E U W cs cs'"

lemma kept_keeps:
  "set_ok E U (\<lambda>w. slot_ok E V (G w)) cs \<Longrightarrow> set_kept E U (\<lambda>w. slot_ok E V (G w)) W cs cs' \<Longrightarrow> step_keeps E V U W cs cs' G"
  unfolding step_keeps_def using set_keptD(1) kept_effect by blast

lemma same_keeps: "set_ok E U (\<lambda>w. slot_ok E V (G w)) cs \<Longrightarrow> step_keeps E V U W cs cs G"
  by (simp add: step_keeps_def)

lemma put_keeps:
  assumes "set_ok E U (\<lambda>w. slot_ok E V (G w)) cs" "set_entry E c cs = Inr e"
    "slot_step (en_services E) (en_port E) (ce_slot e, G (ct_resource c)) (s1, H1)"
  shows "step_keeps E V U {ct_resource c} cs (put_entry E (ct_resource c) (e\<lparr>ce_slot := s1\<rparr>) cs) (G(ct_resource c := H1))"
  using put_step [OF assms(1) assms(2) [unfolded set_entry_Inr] assms(3)] unfolding step_keeps_def by blast

lemma reserve_keeps:
  assumes ok: "set_ok E U (\<lambda>w. slot_ok E V (G w)) cs" and out: "set_reserve E c now options cs = (r, cs')"
  shows "step_keeps E V U {ct_resource c} cs cs' (G(ct_resource c := told_reserve r (G (ct_resource c))))"
proof (cases "set_entry E c cs")
  case (Inl e)
  then show ?thesis using same_keeps [OF ok] out by (auto simp: set_reserve_def)
next
  case (Inr e)
  obtain q s1 where s: "slot_reserve (en_services E) now options (ce_slot e) = (q, s1)" by fastforce
  have "slot_step (en_services E) (en_port E) (ce_slot e, G (ct_resource c)) (s1, told_reserve r (G (ct_resource c)))"
    using s out Inr by (cases q) (auto simp: set_reserve_def intro: slot_step.granted slot_step.refused)
  from put_keeps [OF ok Inr this] show ?thesis using s out Inr by (simp add: set_reserve_def)
qed

lemma drain_keeps:
  assumes ok: "set_ok E U (\<lambda>w. slot_ok E V (G w)) cs"
  shows "set_drain_outcomes E c cs = (ro, cs') \<Longrightarrow>
      step_keeps E V U {ct_resource c} cs cs' (G(ct_resource c := told_outcomes ro (G (ct_resource c))))"
    "set_drain_events E c cs = (re, cs') \<Longrightarrow>
      step_keeps E V U {ct_resource c} cs cs' (G(ct_resource c := told_events re (G (ct_resource c))))"
proof -
  show "step_keeps E V U {ct_resource c} cs cs' (G(ct_resource c := told_outcomes ro (G (ct_resource c))))"
    if out: "set_drain_outcomes E c cs = (ro, cs')"
  proof (cases "set_entry E c cs")
    case (Inr e)
    obtain os s1 where s: "drain_outcomes (en_services E) (ce_slot e) = (os, s1)" by fastforce
    from put_keeps [OF ok Inr slot_step.take_outcomes [OF s]] show ?thesis
      using s out Inr by (auto simp: set_drain_outcomes_def)
  qed (use same_keeps [OF ok] out in \<open>auto simp: set_drain_outcomes_def\<close>)
  show "step_keeps E V U {ct_resource c} cs cs' (G(ct_resource c := told_events re (G (ct_resource c))))"
    if out: "set_drain_events E c cs = (re, cs')"
  proof (cases "set_entry E c cs")
    case (Inr e)
    obtain evs s1 where s: "drain_events (en_services E) (ce_slot e) = (evs, s1)" by fastforce
    from put_keeps [OF ok Inr slot_step.take_events [OF s]] show ?thesis
      using s out Inr by (auto simp: set_drain_events_def)
  qed (use same_keeps [OF ok] out in \<open>auto simp: set_drain_events_def\<close>)
qed

lemma drop_keeps:
  assumes ok: "set_ok E U (\<lambda>w. slot_ok E V (G w)) cs" and ps: "sh_permits (G w) = ps @ p # qs"
  shows "step_keeps E V U {w} cs (drop_held E w p cs) (G(w := (G w)\<lparr>sh_permits := ps @ qs\<rparr>))"
proof (cases "live_entry E cs w")
  case None
  have "set_ok E U (\<lambda>v. slot_ok E V ((G(w := H)) v)) cs" for H by (rule set_ok_cong [OF ok]) (use None in auto)
  then show ?thesis using None by (simp add: drop_held_def live_entry_def step_keeps_def)
next
  case (Some ie)
  then obtain i e where e: "live_entry E cs w = Some (i, e)" by (cases ie) simp
  from put_step [OF ok e slot_step.dropped [where S = "en_services E" and T = "en_port E" and s = "ce_slot e", OF ps]]
  show ?thesis using e by (simp add: drop_held_def live_entry_def step_keeps_def)
qed

text \<open>A commit on the slot, then its settlement, which never changes what the caller is told of the permit.\<close>

lemma settled_keeps:
  assumes "step_keeps E V U {w} cs cs1 G"
  shows "step_keeps E V U {w} cs (snd (settle_connection E w (enqueue E w cs1))) G"
proof -
  have ok: "set_ok E U (\<lambda>w. slot_ok E V (G w)) cs1" using assms by (simp add: step_keeps_def)
  have k: "set_kept E U (\<lambda>w. slot_ok E V (G w)) {w} cs1 (snd (settle_connection E w (enqueue E w cs1)))"
    by (rule connections.settle_after_kept(2)) simp
  from assms set_keptD(1) [OF k ok] set_effect_trans [OF _ kept_effect [OF k ok]] show ?thesis by (simp add: step_keeps_def)
qed

lemma set_commit_stale:
  "set_entry E c cs = Inl e \<Longrightarrow>
     set_commit E c p frame cs =
       (Inl (CommitStale p frame), snd (settle_connection E (ct_resource c) (enqueue E (ct_resource c) cs)))"
  by (simp add: set_commit_def case_prod_unfold Let_def)

lemma set_commit_live:
  assumes "set_entry E c cs = Inr e" "slot_commit (en_services E) p frame (ce_slot e) = (q, s1)" "set_commit E c p frame cs = (r, cs')"
  shows "cs' = snd (settle_connection E (ct_resource c) (enqueue E (ct_resource c) (put_entry E (ct_resource c) (e\<lparr>ce_slot := s1\<rparr>) cs)))"
    "told_commit ps qs r H = told_commit ps qs (map_sum CommitConnection id q) H"
  using assms unfolding set_commit_def Let_def
  by (cases q; auto simp: case_prod_unfold split: sum.splits)+

lemma commit_keeps:
  assumes ok: "set_ok E U (\<lambda>w. slot_ok E V (G w)) cs" and out: "set_commit E c p frame cs = (r, cs')"
    and ps: "sh_permits (G (ct_resource c)) = ps @ p # qs" and wire: "length (of_bytes frame) \<le> USIZE_MAX"
  shows "step_keeps E V U {ct_resource c} cs cs' (G(ct_resource c := told_commit ps qs r (G (ct_resource c))))"
proof (cases "set_entry E c cs")
  case (Inl e)
  have "(G (ct_resource c))\<lparr>sh_permits := ps @ p # qs\<rparr> = G (ct_resource c)" using ps [symmetric] by simp
  then show ?thesis
    using settled_keeps [OF same_keeps [OF ok], of "ct_resource c"] out set_commit_stale [OF Inl, of p frame] by auto
next
  case (Inr e)
  obtain q s1 where s: "slot_commit (en_services E) p frame (ce_slot e) = (q, s1)" by fastforce
  note r = set_commit_live [OF Inr s out]
  have "slot_step (en_services E) (en_port E) (ce_slot e, G (ct_resource c))
      (s1, told_commit ps qs (map_sum CommitConnection id q) (G (ct_resource c)))"
  proof (cases q)
    case (Inr i)
    then show ?thesis using slot_step.accepted [OF ps wire] s by simp
  next
    case (Inl err)
    then show ?thesis
      using slot_step.accepted_failing [OF ps wire] slot_step.rejected [OF ps wire] slot_step.too_late [OF ps wire] s
      by (cases err) simp_all
  qed
  from settled_keeps [OF put_keeps [OF ok Inr this]] show ?thesis by (simp add: r)
qed

text \<open>A foreign permit is refused and leaves the slot as it was.\<close>

lemma foreign_refused:
  assumes ok: "slot_ok E V H s" and foreign: "permit_ledger p \<noteq> m_ledger_ref (core_machine (sl_core s)) \<or>
      permit_epoch p \<noteq> m_epoch (core_machine (sl_core s))"
  shows "(\<exists>err. slot_commit (en_services E) p frame s = (Inl (Rejected err), s) \<and>
      ce_failure err = Policy ForeignPermit \<and> ce_permit err = p \<and> ce_frame err = frame) \<or>
    (\<exists>reason. slot_commit (en_services E) p frame s = (Inl (CommitOwnerFailed reason p frame), s))"
proof (cases "sl_state s")
  case Running
  note S = slot_okD(1) [OF ok]
  have own: "core_ok (sv_externals (en_services E)) (sl_core s) (mset (map permit_reservation (sh_permits H)))"
    by (rule running_owner [OF S holds_running [OF slot_okD(3) [OF ok] Running]])
  have "commit_failure p (of_retained frame) (core_machine (sl_core s)) = Some ForeignPermit"
    using foreign by (auto simp: commit_failure_def)
  from core_commit_refused [where retained = of_retained and frame = frame and view = of_bytes,
      OF services_okD(1) [OF S] own this]
  show ?thesis using Running by (simp add: slot_commit_def)
qed (simp add: slot_commit_def)

lemma foreign_keeps:
  assumes ok: "set_ok E U (\<lambda>w. slot_ok E V (G w)) cs" and foreign: "is_foreign E c p cs"
    and out: "set_commit E c p frame cs = (r, cs')"
  shows "step_keeps E V U {ct_resource c} cs cs' G"
proof (cases "set_entry E c cs")
  case (Inl e)
  then show ?thesis
    using settled_keeps [OF same_keeps [OF ok], of "ct_resource c"] out set_commit_stale [OF Inl, of p frame] by auto
next
  case (Inr e)
  have e: "live_entry E cs (ct_resource c) = Some (ct_identity c, e)" using Inr by (simp add: set_entry_Inr)
  obtain q where s: "slot_commit (en_services E) p frame (ce_slot e) = (q, ce_slot e)"
    using foreign_refused [OF set_okD(4) [OF ok e]] foreign Inr by (fastforce simp: is_foreign_def)
  have "set_kept E U (\<lambda>w. slot_ok E V (G w)) {ct_resource c} cs (put_entry E (ct_resource c) e cs)"
    by (rule put_kept [OF e]) (simp_all add: carried_def)
  from settled_keeps [OF kept_keeps [OF ok this]] show ?thesis by (simp add: set_commit_live(1) [OF Inr s out])
qed

text \<open>A new connection starts with an empty history.\<close>

lemma new_slot_ok:
  assumes env: "env_ok E V U" and limits: "limits_ok connection" "io_operations_limit io \<le> USIZE_MAX"
    "slot_limits_new connection decoding io transport publication = Inr limits"
    and new: "slot_new (en_services E) ref config limits decoder classifier = Inr s"
  shows "slot_ok E V new_history s"
proof -
  have "io_operations limits \<le> USIZE_MAX"
    using limits(2,3) by (auto simp: slot_limits_new_def io_operations_def Let_def split: if_splits option.splits)
  then show ?thesis
    using slot_new_running [OF _ limits(3,1) new, of V] env
    by (simp add: slot_ok_def slot_inv_def slot_holds_def env_ok_def new_history_def)
qed

lemma connect_outcome:
  assumes ok: "set_ok E U (\<lambda>w. slot_ok E V (G w)) cs"
    and new: "\<And>s. slot_new (en_services E) ref (cc_slot config) limits decoder classifier = Inr s \<Longrightarrow> slot_ok E V new_history s"
    and out: "connect_with E ref config limits decoder classifier connector cs = (r, cs')"
  shows "step_keeps E V U {} cs cs' (case r of Inl _ \<Rightarrow> G | Inr c \<Rightarrow> G(ct_resource c := new_history)) \<and>
    connect_result E U (cfg_identity (cc_slot config)) cs r cs'"
proof (cases "\<exists>s w b. cs_owner_failure cs = None \<and> slot_new (en_services E) ref (cc_slot config) limits decoder classifier = Inr s \<and>
    rt_admit (en_table E) (cfg_identity (cc_slot config)) (new_entry E s) (cs_resources cs) = (Some w, b)")
  case False
  from connections.unadmitted_ok [where i = "cfg_identity (cc_slot config)", OF ok this out] show ?thesis
    by (auto simp: step_keeps_def connect_result_def)
next
  case True
  then obtain s w b where none: "cs_owner_failure cs = None"
    and s: "slot_new (en_services E) ref (cc_slot config) limits decoder classifier = Inr s"
    and w: "rt_admit (en_table E) (cfg_identity (cc_slot config)) (new_entry E s) (cs_resources cs) = (Some w, b)"
    by blast
  have fresh: "live_entry E cs w = None"
    using table_admit(2) [OF set_okD(1,2) [OF ok] w] live_issued [OF ok, of w] by blast
  let ?G = "G(w := new_history)"
  have ok1: "set_ok E U (\<lambda>v. slot_ok E V (?G v)) cs" by (rule set_ok_cong [OF ok]) (use fresh in auto)
  have "slot_ok E V (?G w) s" using new [OF s] by simp
  note res = connections.admitted_ok [OF ok1 none s this w out]
  note c = res [unfolded connect_result_def]
  show ?thesis
  proof (cases r)
    case (Inl e)
    have "set_ok E U (\<lambda>v. slot_ok E V (?G v)) cs'" using c by blast
    moreover have "map_option fst (live_entry E cs' w) = map_option fst (live_entry E cs w)" using c Inl by simp
    then have "live_entry E cs' w = None" using fresh by simp
    ultimately have "set_ok E U (\<lambda>v. slot_ok E V (G v)) cs'" by (elim set_ok_cong) (auto split: if_splits)
    then show ?thesis using res c Inl by (simp add: step_keeps_def)
  next
    case (Inr t)
    then show ?thesis using res c by (simp add: step_keeps_def)
  qed
qed

lemmas connect_keeps = connect_outcome [THEN conjunct1]

lemma connect_fresh:
  assumes "set_ok E U (\<lambda>w. slot_ok E V (G w)) cs"
    "\<And>s. slot_new (en_services E) ref (cc_slot config) limits decoder classifier = Inr s \<Longrightarrow> slot_ok E V new_history s"
    "connect_with E ref config limits decoder classifier connector cs = (Inr c, cs')"
  shows "ct_resource c \<notin> tv_issued U (cs_resources cs)"
  using connect_outcome [OF assms] by (simp add: connect_result_def)

lemma recover_keeps:
  assumes ok: "set_ok E U (\<lambda>w. slot_ok E V (G w)) cs"
  shows "set_try_recover E c cs = (r, cs') \<Longrightarrow> step_keeps E V U {ct_resource c} cs cs' G"
    "set_abandon E c failure cs = (r, cs') \<Longrightarrow> step_keeps E V U {ct_resource c} cs cs' G"
proof -
  note recover = connections.recover_ok [OF ok]
  show "set_try_recover E c cs = (r, cs') \<Longrightarrow> step_keeps E V U {ct_resource c} cs cs' G"
    using recover(1,2) same_keeps [OF ok]
    by (auto simp: set_try_recover_def step_keeps_def set_entry_Inr split: sum.splits option.splits)
  show "set_abandon E c failure cs = (r, cs') \<Longrightarrow> step_keeps E V U {ct_resource c} cs cs' G"
    using recover(1,2) same_keeps [OF ok]
    by (auto simp: set_abandon_def step_keeps_def set_entry_Inr split: sum.splits)
qed

lemma control_keeps:
  assumes ok: "set_ok E U (\<lambda>w. slot_ok E V (G w)) cs"
  shows "set_open_admission E c cs = (ri, cs') \<Longrightarrow> step_keeps E V U {ct_resource c} cs cs' G"
    "set_cancel E c i cs = (rc, cs') \<Longrightarrow> step_keeps E V U {ct_resource c} cs cs' G"
    "set_begin_drain E c deadline cs = (ri, cs') \<Longrightarrow> step_keeps E V U {ct_resource c} cs cs' G"
    "set_finalize E c reason cs = (ri, cs') \<Longrightarrow> step_keeps E V U {ct_resource c} cs cs' G"
    "set_retire E c cs = (rt, cs') \<Longrightarrow> step_keeps E V U {ct_resource c} cs cs' G"
    "poll_io E maximum cs = (rw, cs') \<Longrightarrow> step_keeps E V U {} cs cs' G"
  using kept_keeps [OF ok connections.controls_kept(1) [OF singletonI]] kept_keeps [OF ok connections.controls_kept(2) [OF singletonI]]
    kept_keeps [OF ok connections.controls_kept(3) [OF singletonI]] kept_keeps [OF ok connections.controls_kept(4) [OF singletonI]]
    kept_keeps [OF ok connections.poll_io_kept] connections.retire_ok(1,2) [OF ok, of c rt cs']
  by (metis snd_conv step_keeps_def)+

subsection \<open>Reachable sets\<close>

lemma step_kept:
  assumes ok: "set_ok E U (\<lambda>w. slot_ok E V (G w)) cs" and env: "env_ok E V U" and step: "set_step E W (cs, G) (cs', G')"
  shows "step_keeps E V U W cs cs' G'"
  using step
proof cases
  case (connected connection io decoding transport publication limits ref config decoder classifier connector r)
  have "slot_ok E V new_history s" if "slot_new (en_services E) ref (cc_slot config) limits decoder classifier = Inr s" for s
    by (rule new_slot_ok [OF env connected(3-5) that])
  then show ?thesis unfolding connected(1,2) by (rule connect_keeps [OF ok _ connected(6)])
next
  case (produced mailbox)
  show ?thesis using kept_keeps [OF ok set_kept_fields [where cs' = "cs\<lparr>cs_commands := mailbox\<rparr>"]] produced by simp
next
  case (turned now rn)
  then show ?thesis using connections.turn_returns [OF ok, of now] kept_keeps [OF ok] by auto
qed (use ok in \<open>blast intro: reserve_keeps drop_keeps commit_keeps foreign_keeps drain_keeps recover_keeps control_keeps\<close>)+

interpretation sets: invariant_system "\<lambda>a. env_ok E V U \<and> set_initial E a" "\<lambda>a b. \<exists>W. set_step E W a b"
  "\<lambda>a. env_ok E V U \<and> set_inv E V U a" for E V U
proof
  fix a assume a: "env_ok E V U \<and> set_initial E a"
  then obtain limits cs where new: "set_new E limits = Inr cs" "fst a = cs" by (auto simp: set_initial_def)
  have T: "table_laws (en_table E) U" using a by (simp add: env_ok_def)
  have "cs_resources (fst a) = rt_new (en_table E) (stl_max_connections limits)" "cs_ready (fst a) = []" "cs_limits (fst a) = limits"
    unfolding new(2) using new(1) by (auto simp: set_new_def split: sum.splits)
  with table_new [OF T] T a show "env_ok E V U \<and> set_inv E V U a"
    by (simp add: set_inv_def set_ok_def queue_exact_def live_entry_def)
next
  fix a b assume a: "env_ok E V U \<and> set_inv E V U a" and "\<exists>W. set_step E W a b"
  then obtain W where "set_step E W (fst a, snd a) (fst b, snd b)" by auto
  with step_kept [where E = E and V = V and U = U and G = "snd a" and cs = "fst a"] a
  have "step_keeps E V U W (fst a) (fst b) (snd b)" by (auto simp: set_inv_def)
  with a show "env_ok E V U \<and> set_inv E V U b"
    using set_effectD(2,3) [of E U W "fst a" "fst b"] by (simp add: set_inv_def step_keeps_def)
qed

lemma set_reachable_inv: "env_ok E V U \<Longrightarrow> set_reachable E a \<Longrightarrow> set_inv E V U a"
  using sets.reached_inv [of E V U] unfolding set_reachable_def set_run_def by blast

lemma set_run_step: "set_run E a b \<Longrightarrow> set_step E W b c \<Longrightarrow> set_run E a c"
  unfolding set_run_def by (erule rtranclp.rtrancl_into_rtrancl) (rule exI)

lemma set_reachable_step: "set_reachable E a \<Longrightarrow> set_step E W a b \<Longrightarrow> set_reachable E b"
  unfolding set_reachable_def using set_run_step by blast

text \<open>What a run does to the tokens it started with.\<close>

lemma run_effect:
  assumes "set_run E a b" "env_ok E V U" "set_inv E V U a"
  shows "set_effect E U UNIV (fst a) (fst b)"
  using assms(1) unfolding set_run_def
proof (induction rule: rtranclp_induct)
  case (step b c)
  then obtain W where W: "set_step E W (fst b, snd b) (fst c, snd c)" by auto
  have "set_inv E V U b" using sets.run_inv [OF step(1), of V U] assms(2,3) by blast
  with step_kept [OF _ assms(2) W] have "set_effect E U W (fst b) (fst c)" by (auto simp: set_inv_def step_keeps_def)
  from set_effect_trans [OF step(3) set_effect_mono [OF this subset_UNIV]] show ?case .
qed simp

end
