(* ===== verification/SlotScenario.thy ===== *)
theory SlotScenario
  imports SlotSystem Scenario Components
begin

text \<open>
  A small run of one slot, used to instantiate the properties: a timer queue and publication batches
  that keep lists, the buffering decoder, and a transport that opens at once, takes every byte and
  never has anything to read. The steps of the run are evaluated from the definitions.
\<close>

section \<open>Timers and batches that keep lists\<close>

type_synonym list_timers = "usize \<times> (nat \<times> Deadline \<times> DeadlineEvent) list"
type_synonym 'a list_batch = "(usize \<times> RetainedBytes) \<times> 'a list"

definition fresh_token :: "(nat \<times> 'a) list \<Rightarrow> nat" where
  "fresh_token xs = Suc (sum_list (map fst xs))"

definition live_tokens :: "list_timers \<Rightarrow> nat list" where
  "live_tokens q = remdups (map fst (snd q))"

definition due_token :: "Moment \<Rightarrow> list_timers \<Rightarrow> nat option" where
  "due_token now q =
     find (\<lambda>k. case map_of (snd q) k of None \<Rightarrow> False | Some (deadline, _) \<Rightarrow> deadline \<le> now) (map fst (snd q))"

definition without_token :: "nat \<Rightarrow> list_timers \<Rightarrow> list_timers" where
  "without_token k q = (fst q, filter (\<lambda>entry. fst entry \<noteq> k) (snd q))"

definition list_timer_queue :: "(list_timers, nat) TimerQueue" where
  "list_timer_queue =
     \<lparr>tq_new = (\<lambda>owner limits. (fst limits, [])),
      tq_schedule = (\<lambda>deadline event q.
        if length (live_tokens q) < fst q
        then (Inr (fresh_token (snd q)), (fst q, (fresh_token (snd q), deadline, event) # snd q))
        else (Inl undefined, q)),
      tq_cancel = without_token,
      tq_next_deadline = (\<lambda>q. if snd q = [] then None else Some (Min ((fst \<circ> snd) ` set (snd q)))),
      tq_pop_due = (\<lambda>now q.
        case due_token now q of
          None \<Rightarrow> (None, q)
        | Some k \<Rightarrow> (map_option (\<lambda>(_, event). (k, event)) (map_of (snd q) k), without_token k q)),
      tq_len = (\<lambda>q. length (live_tokens q))\<rparr>"

definition list_event_batch :: "('a \<Rightarrow> RetainedBytes) \<Rightarrow> ('a list_batch, 'a) EventBatch" where
  "list_event_batch charge =
     \<lparr>eb_new = (\<lambda>limits. (limits, [])),
      eb_try_push = (\<lambda>c x b.
        if length (snd b) < fst (fst b) \<and> sum_list (map charge (snd b)) + c \<le> snd (fst b)
        then (Inr (), (fst b, snd b @ [x])) else (Inl (x, undefined), b)),
      eb_drain = (\<lambda>b. (snd b, (fst b, []))),
      eb_len = (\<lambda>b. length (snd b))\<rparr>"

lemma map_of_without: "map_of (filter (\<lambda>entry. fst entry \<noteq> k) xs) = (map_of xs)(k := None)"
  by (induction xs) (auto simp: fun_eq_iff)

lemma fresh_token_unused: "map_of xs (fresh_token xs) = None"
proof -
  have "fresh_token xs \<notin> set (map fst xs)"
    using member_le_sum_list [of "fresh_token xs" "map fst xs"] by (auto simp: fresh_token_def)
  then show ?thesis by (simp add: map_of_eq_None_iff)
qed

lemma card_live: "card (dom (map_of (snd q))) = length (live_tokens q)"
  by (simp add: live_tokens_def dom_map_of_conv_image_fst length_remdups_card_conv)

lemma due_token_due: "due_token now q = Some k \<Longrightarrow> \<exists>deadline event. map_of (snd q) k = Some (deadline, event) \<and> deadline \<le> now"
  by (auto simp: due_token_def find_Some_iff split: option.splits)

lemma list_batch_laws: "batch_laws (list_event_batch charge) fst charge"
  by (auto simp: batch_laws_def items_def list_event_batch_def)

lemma list_timer_laws: "timer_laws CX list_timer_queue (\<lambda>q. map_of (snd q)) fst"
proof -
  have pop: "case fst (tq_pop_due list_timer_queue now q) of
          None \<Rightarrow> map_of (snd (snd (tq_pop_due list_timer_queue now q))) = map_of (snd q)
        | Some (k, event) \<Rightarrow>
            (\<exists>deadline. map_of (snd q) k = Some (deadline, event) \<and> is_elapsed_at CX deadline now) \<and>
            map_of (snd (snd (tq_pop_due list_timer_queue now q))) = (map_of (snd q))(k := None)" for now q
    using due_token_due [of now q]
    by (auto simp: list_timer_queue_def without_token_def map_of_without counting_externals_def split: option.split)
  show ?thesis
    unfolding timer_laws_def
    using pop
    by (auto simp: list_timer_queue_def fresh_token_unused card_live without_token_def map_of_without split: option.split)
qed

section \<open>Services and transport of the run\<close>

type_synonym demo_services =
  "(nat \<times> nat, byte list, byte list, unit, unit, list_timers, nat, byte list EngineOutcome list_batch,
    ConnectionEvent list_batch) services"

type_synonym demo_slot =
  "(nat \<times> nat, byte list, unit, list_timers, nat, byte list EngineOutcome list_batch,
    ConnectionEvent list_batch) ConnectionSlot"

definition demo_services :: demo_services where
  "demo_services =
     \<lparr>sv_externals = CX, sv_decoder = buffering,
      sv_reply_key = (\<lambda>frame c. (case frame of [] \<Rightarrow> None | b # _ \<Rightarrow> Some (of_nat (unat b)), c)),
      sv_frame_retained = length, sv_timers = list_timer_queue,
      sv_outcomes = list_event_batch (engine_outcome_retained_bytes length),
      sv_events = list_event_batch (\<lambda>_. 0)\<rparr>"

definition demo_views ::
  "(list_timers, nat, byte list EngineOutcome list_batch, ConnectionEvent list_batch) views" where
  "demo_views = \<lparr>vw_armed = (\<lambda>q. map_of (snd q)), vw_capacity = fst, vw_outcome_limits = fst, vw_event_limits = fst\<rparr>"

lemma demo_services_ok: "services_ok demo_services demo_views"
  using counting_externals_ok list_timer_laws list_batch_laws [of "engine_outcome_retained_bytes length"]
    list_batch_laws [of "\<lambda>_. 0"]
  by (simp add: services_ok_def demo_services_def demo_views_def)

text \<open>The state of the transport is whether it is open.\<close>

definition demo_transport :: "bool SlotTransport" where
  "demo_transport =
     \<lparr>tp_drive_establishment = (\<lambda>policy budget t. (Inr transport_progress_operation, True)),
      tp_drive_transport = (\<lambda>budget t. (Inr transport_progress_operation, t)),
      tp_begin_shutdown = (\<lambda>budget t. (Inr transport_progress_operation, False)),
      tp_can_establish = (\<lambda>t. \<not> t), tp_has_transport_work = (\<lambda>t. False),
      tp_is_shutdown_complete = (\<lambda>t. \<not> t), tp_is_open = (\<lambda>t. t), tp_can_read = (\<lambda>t. False),
      tp_can_write = (\<lambda>t. t), tp_pressure = (\<lambda>t. TransportPressure_ZERO),
      tp_pressure_limit = (\<lambda>t. \<lparr>tl_retained_bytes = 0\<rparr>), tp_clear_read = (\<lambda>t. t), tp_clear_write = (\<lambda>t. t),
      tp_read = (\<lambda>buffer t. (Inl \<lparr>ioe_kind = WouldBlock, ioe_raw_os_error = None\<rparr>, buffer, t)),
      tp_write = (\<lambda>bytes t. (Inr (length bytes), t))\<rparr>"

lemma demo_transport_wf: "transport_wf demo_transport"
  by (simp add: transport_wf_def demo_transport_def progress_wf_constructors)

text \<open>A transport that claims one byte more than it was offered.\<close>

definition overreporting_transport :: "bool SlotTransport" where
  "overreporting_transport = demo_transport\<lparr>tp_write := (\<lambda>bytes t. (Inr (Suc (length bytes)), t))\<rparr>"

lemma overreporting_wf: "transport_wf overreporting_transport"
  using demo_transport_wf by (simp add: transport_wf_def overreporting_transport_def)

section \<open>The states of the run\<close>

definition demo_slot_limits :: ConnectionSlotLimits where
  "demo_slot_limits = \<lparr>sl_connection = demo_limits, sl_decoder = \<lparr>dl_buffered_bytes = 16, dl_reply_bytes = 8\<rparr>,
     sl_io = \<lparr>io_operations_limit = 1, io_chunk_limit = 3\<rparr>, sl_transport = \<lparr>tl_retained_bytes = 0\<rparr>,
     sl_publication = \<lparr>pl_lifecycle_events = 4\<rparr>, sl_outcome_bytes = 16, sl_operation_capacity = 2\<rparr>"

definition demo_config :: ConnectionSlotConfig where
  "demo_config = slot_config_new \<lparr>ci_endpoint = 1, ci_lane = 2, ci_connection = 3, ci_epoch = 5\<rparr> 50 9"

definition slot0 :: demo_slot where
  "slot0 = \<lparr>sl_core = demo_owner SessionOnly 0 (demo_ledger 0 0 0 0 0 False 1) [] [],
     sl_driver = \<lparr>fd_decoder = [], fd_max_retained_bytes = 16, fd_failed = False\<rparr>, sl_classifier = (),
     sl_limits = demo_slot_limits, sl_connect_deadline = 50, sl_socket_policy = TcpSocketPolicy_DEFAULT,
     sl_timers = (2, []), sl_deadlines = [], sl_outcomes = ((2, 16), []), sl_lifecycle = ((4, 0), []),
     sl_recovery_outcomes = ((2, 16), []), sl_recovery_events = ((4, 0), []), sl_event_sequence = 0,
     sl_read_buffer = [0, 0, 0], sl_decoder_pending = False, sl_io_preference = PrefTransport,
     sl_transport_state = Connecting, sl_transport_diagnostic = None, sl_transport_pressure = None,
     sl_transport_retained_limit = None, sl_transport_contract_diverged = False, sl_drain_deadline = None,
     sl_close_request = None, sl_state = Running\<rparr>"

definition slot_opened :: demo_slot where
  "slot_opened = slot0\<lparr>sl_transport_state := TransportOpen, sl_transport_pressure := Some TransportPressure_ZERO,
     sl_transport_retained_limit := Some 0, sl_io_preference := PrefDecode,
     sl_lifecycle := ((4, 0), [EvTransportOpened 1 5]), sl_event_sequence := 1\<rparr>"

definition slot_admitting :: demo_slot where
  "slot_admitting = slot_opened\<lparr>sl_core := demo_owner Open 0 (demo_ledger 0 0 0 0 0 False 1) [] [],
     sl_lifecycle := ((4, 0), [EvTransportOpened 1 5, EvAdmissionOpened 2 5]), sl_event_sequence := 2\<rparr>"

definition slot_reserved :: demo_slot where
  "slot_reserved = slot_admitting\<lparr>sl_core := demo_owner Open 1 (demo_ledger 1 1 8 1 8 True 2) [] []\<rparr>"

definition demo_outbound :: OutboundFrame where
  "demo_outbound = \<lparr>of_bytes = [10, 20, 30], of_retained = 3\<rparr>"

definition slot_committed :: demo_slot where
  "slot_committed = slot_reserved\<lparr>
     sl_core := demo_owner Open 1 (demo_ledger 1 0 8 1 3 True 2) [demo_record Queued NotSent True]
       [\<lparr>qw_operation = 0, qw_effect = 0, qw_frame = demo_outbound,
         qw_measure = \<lparr>wire_bytes = 3, measure_retained_bytes = 3\<rparr>, qw_written = 0, qw_started = False\<rparr>],
     sl_timers := (2, [(1, 100, \<lparr>dev_epoch = 5, dev_operation = 0\<rparr>)]),
     sl_deadlines := [\<lparr>den_operation = 0, den_token = 1\<rparr>]\<rparr>"

definition slot_written :: demo_slot where
  "slot_written = slot_committed\<lparr>
     sl_core := demo_owner Open 1 (demo_ledger 1 0 8 0 0 True 2) [demo_record AwaitingReply PossiblySent False] [],
     sl_io_preference := PrefTransport\<rparr>"

definition demo_outcome :: "byte list EngineOutcome" where
  "demo_outcome = \<lparr>eo_epoch = 5, eo_operation = 0, eo_outcome = OutFailed (ConnectionClosed Requested) PossiblySent\<rparr>"

definition slot_closing :: demo_slot where
  "slot_closing = slot_written\<lparr>
     sl_core := (let c = demo_owner Open 1 (demo_ledger 0 0 0 0 0 False 2) [] [] in
       c\<lparr>core_machine := (core_machine c)\<lparr>m_phase := Closing, m_gate := GateClosed, m_close_reason := Some Requested\<rparr>\<rparr>),
     sl_timers := (2, []), sl_deadlines := [], sl_outcomes := ((2, 16), [demo_outcome]),
     sl_lifecycle := ((4, 0), [EvTransportOpened 1 5, EvAdmissionOpened 2 5, EvClosing 3 5 Requested]),
     sl_event_sequence := 3, sl_transport_state := TransportClosing,
     sl_close_request := Some (DirCore Requested ShutImmediate)\<rparr>"

definition slot_drained :: demo_slot where
  "slot_drained = slot_closing\<lparr>sl_outcomes := ((2, 16), [])\<rparr>"

definition slot_closed :: demo_slot where
  "slot_closed = snd (settle_transport_closed demo_services slot_drained)"

text \<open>A request to finalize as drained that no drain deadline bounds: the slot fails.\<close>

definition slot_unbounded :: demo_slot where
  "slot_unbounded = snd (slot_finalize demo_services Drained slot_written)"

text \<open>The front frame reported as written beyond its end: the owner breaks and the slot with it.\<close>

definition slot_lost :: demo_slot where
  "slot_lost = fst (snd (the (drive_quantum demo_services overreporting_transport 1 slot_committed (Some True))))"

section \<open>The run is a run of the slot\<close>

definition slot_demo_history ::
  "OperationPermit list \<Rightarrow> OperationId list \<Rightarrow> byte list EngineOutcome list \<Rightarrow> byte list slot_history" where
  "slot_demo_history ps accepted delivered =
     \<lparr>sh_permits = ps, sh_accepted = accepted, sh_delivered = delivered, sh_seen = []\<rparr>"

abbreviation demo_reaches :: "demo_slot \<Rightarrow> byte list slot_history \<Rightarrow> bool" where
  "demo_reaches \<equiv> slot_reachable demo_services demo_transport"

lemma slot_reachable_step: "slot_reachable S T s H \<Longrightarrow> slot_step S T (s, H) (s', H') \<Longrightarrow> slot_reachable S T s' H'"
  unfolding slot_reachable_def by (meson rtranclp.rtrancl_into_rtrancl)

lemma right_value: "\<not> isl r \<Longrightarrow> projr r = x \<Longrightarrow> r = Inr x"
  by (cases r) auto

lemma reached_by: "snd rs = s \<Longrightarrow> rs = (fst rs, s)"
  by (cases rs) simp

lemma slot0_reached: "slot_reachable demo_services T slot0 (slot_demo_history [] [] [])"
proof -
  have "slot_limits_new demo_limits \<lparr>dl_buffered_bytes = 16, dl_reply_bytes = 8\<rparr>
     \<lparr>io_operations_limit = 1, io_chunk_limit = 3\<rparr> \<lparr>tl_retained_bytes = 0\<rparr> \<lparr>pl_lifecycle_events = 4\<rparr> = Inr demo_slot_limits"
    by code_simp
  moreover have "\<not> isl (slot_new demo_services 7 demo_config demo_slot_limits [] ())"
    "projr (slot_new demo_services 7 demo_config demo_slot_limits [] ()) = slot0" by code_simp+
  then have "slot_new demo_services 7 demo_config demo_slot_limits [] () = Inr slot0" by (rule right_value)
  moreover have "io_operations_limit \<lparr>io_operations_limit = 1, io_chunk_limit = 3\<rparr> \<le> USIZE_MAX"
    by (simp add: USIZE_MAX_def)
  ultimately have "slot_initial demo_services (slot0, slot_demo_history [] [] [])"
    unfolding slot_initial_def slot_demo_history_def using demo_limits_ok by blast
  then show ?thesis unfolding slot_reachable_def by blast
qed

lemma demo_drives:
  assumes "slot_reachable demo_services T s H" "drive_quantum demo_services T now s transport \<noteq> None"
    "fst (snd (the (drive_quantum demo_services T now s transport))) = s'"
  shows "slot_reachable demo_services T s' H"
  using slot_reachable_step [OF assms(1) slot_step.quantum, of now transport] assms(2,3) by fastforce

lemma slot_opened_reachable: "demo_reaches slot_opened (slot_demo_history [] [] [])"
  by (rule demo_drives [OF slot0_reached, where now = 0 and transport = "Some False"]) code_simp+

lemma slot_opened_overreporting: "slot_reachable demo_services overreporting_transport slot_opened (slot_demo_history [] [] [])"
  by (rule demo_drives [OF slot0_reached, where now = 0 and transport = "Some False"]) code_simp+

text \<open>From the opened slot to the committed operation the transport has no part in the run.\<close>

lemma slot_admitting_reached:
  assumes "slot_reachable demo_services T slot_opened (slot_demo_history [] [] [])"
  shows "slot_reachable demo_services T slot_admitting (slot_demo_history [] [] [])"
proof -
  have "snd (slot_open_admission demo_services slot_opened) = slot_admitting" by code_simp
  then show ?thesis
    by (rule slot_reachable_step [OF assms slot_step.open_admission [OF reached_by]])
qed

lemma slot_reserved_reached:
  assumes "slot_reachable demo_services T slot_opened (slot_demo_history [] [] [])"
  shows "slot_reachable demo_services T slot_reserved (slot_demo_history [demo_permit] [] [])"
proof -
  have "slot_reserve demo_services 0 demo_options slot_admitting = (Inr demo_permit, slot_reserved)" by code_simp
  from slot_reachable_step [OF slot_admitting_reached [OF assms] slot_step.granted [OF this]] show ?thesis
    by (simp add: slot_demo_history_def)
qed

lemma slot_committed_reached:
  assumes "slot_reachable demo_services T slot_opened (slot_demo_history [] [] [])"
  shows "slot_reachable demo_services T slot_committed (slot_demo_history [] [0] [])"
proof -
  let ?r = "slot_commit demo_services demo_permit demo_outbound slot_reserved"
  have "\<not> isl (fst ?r)" "projr (fst ?r) = 0" "snd ?r = slot_committed" by code_simp+
  then have "?r = (Inr 0, slot_committed)" by (metis right_value prod.collapse)
  moreover have "length (of_bytes demo_outbound) \<le> USIZE_MAX" by (simp add: demo_outbound_def USIZE_MAX_def)
  ultimately show ?thesis
    using slot_reachable_step [OF slot_reserved_reached [OF assms] slot_step.accepted, of "[]" demo_permit "[]"]
    by (simp add: slot_demo_history_def)
qed

lemmas slot0_reachable = slot0_reached [where T = demo_transport]
lemmas slot_admitting_reachable = slot_admitting_reached [OF slot_opened_reachable]
lemmas slot_reserved_reachable = slot_reserved_reached [OF slot_opened_reachable]
lemmas slot_committed_reachable = slot_committed_reached [OF slot_opened_reachable]

lemma slot_written_reachable: "demo_reaches slot_written (slot_demo_history [] [0] [])"
proof (rule demo_drives [OF slot_committed_reachable])
  show "drive_quantum demo_services demo_transport 1 slot_committed (Some True) \<noteq> None" by code_simp
  show "fst (snd (the (drive_quantum demo_services demo_transport 1 slot_committed (Some True)))) = slot_written"
    by code_simp
qed

lemma slot_lost_reachable: "slot_reachable demo_services overreporting_transport slot_lost (slot_demo_history [] [0] [])"
proof (rule demo_drives [OF slot_committed_reached [OF slot_opened_overreporting]])
  show "drive_quantum demo_services overreporting_transport 1 slot_committed (Some True) \<noteq> None" by code_simp
qed (simp add: slot_lost_def)

lemma slot_closing_reachable: "demo_reaches slot_closing (slot_demo_history [] [0] [])"
proof -
  have "snd (slot_finalize demo_services Requested slot_written) = slot_closing" by code_simp
  then show ?thesis
    by (rule slot_reachable_step [OF slot_written_reachable slot_step.finalize [OF reached_by]])
qed

lemma slot_drained_reachable: "demo_reaches slot_drained (slot_demo_history [] [0] [demo_outcome])"
proof -
  have "drain_outcomes demo_services slot_closing = ([demo_outcome], slot_drained)" by code_simp
  from slot_reachable_step [OF slot_closing_reachable slot_step.take_outcomes [OF this]] show ?thesis
    by (simp add: slot_demo_history_def)
qed

lemma slot_closed_reachable: "demo_reaches slot_closed (slot_demo_history [] [0] [demo_outcome])"
  unfolding slot_closed_def
  by (rule slot_reachable_step [OF slot_drained_reachable slot_step.settle]) (rule surjective_pairing)

lemma slot_unbounded_reachable: "demo_reaches slot_unbounded (slot_demo_history [] [0] [])"
  unfolding slot_unbounded_def
  by (rule slot_reachable_step [OF slot_written_reachable slot_step.finalize]) (rule surjective_pairing)

end
