(* ===== verification/SetScenario.thy ===== *)
theory SetScenario
  imports SetSystem SlotScenario
begin

text \<open>
  A small run of a connection set, used to instantiate the properties: a resource table that numbers
  its tokens and keeps a list, a mailbox that keeps a list, and a selector that reports nothing, and
  fails when it is asked to wait for seven units.
\<close>

section \<open>A resource table that keeps a list\<close>

type_synonym 'x list_table = "usize \<times> nat \<times> (nat \<times> ConnectionIdentity \<times> 'x) list"

definition list_resource_table :: "(nat, 'x, 'x list_table) ResourceTable" where
  "list_resource_table =
     \<lparr>rt_new = (\<lambda>n. (n, 0, [])),
      rt_admit = (\<lambda>i x (n, k, l). if length l < n then (Some k, (n, Suc k, l @ [(k, i, x)])) else (None, (n, k, l))),
      rt_get = (\<lambda>w (n, k, l). map_of l w),
      rt_put = (\<lambda>w x (n, k, l). (n, k, map (\<lambda>(v, i, y). (v, i, if v = w then x else y)) l)),
      rt_remove = (\<lambda>w (n, k, l). (map_of l w, (n, k, filter (\<lambda>entry. fst entry \<noteq> w) l))),
      rt_tokens = (\<lambda>(n, k, l). map fst l)\<rparr>"

definition list_table_view :: "(nat, 'x list_table) table_view" where
  "list_table_view =
     \<lparr>tv_valid = (\<lambda>(n, k, l). distinct (map fst l) \<and> set (map fst l) \<subseteq> {..<k} \<and> length l \<le> n),
      tv_issued = (\<lambda>(n, k, l). {..<k}), tv_capacity = fst\<rparr>"

lemma list_put:
  "map fst (map (\<lambda>(v, i, y). (v, i, if v = w then x else y)) l) = map fst l"
  "map_of (map (\<lambda>(v, i, y). (v, i, if v = w then x else y)) l) v =
     (if v = w then map_option (\<lambda>(i, _). (i, x)) (map_of l w) else map_of l v)"
  by (induction l) (auto split: prod.splits)

lemma list_table_laws: "table_laws list_resource_table list_table_view"
  unfolding table_laws_def
proof (intro conjI allI impI)
  fix b :: "'x list_table" assume valid: "tv_valid list_table_view b"
  obtain n k l where b: "b = (n, k, l)" by (cases b)
  have l: "distinct (map fst l)" "set (map fst l) \<subseteq> {..<k}" "length l \<le> n" using valid by (simp_all add: b list_table_view_def)
  have fresh: "k \<notin> fst ` set l" using l(2) by auto
  then have "map_of l k = None" by (simp add: map_of_eq_None_iff)
  then show "admit_laws list_resource_table list_table_view b"
    using l fresh by (auto simp: admit_laws_def list_resource_table_def list_table_view_def table_same_def b map_add_def
        split: option.split)
qed (auto simp: list_resource_table_def list_table_view_def table_same_def list_put map_of_without distinct_map_filter
    map_of_eq_None_iff image_subset_iff simp del: map_map intro: le_trans [OF length_filter_le], force+)

section \<open>Selector, mailbox and transport\<close>

type_synonym demo_entry =
  "(nat \<times> nat, byte list, unit, list_timers, nat, byte list EngineOutcome list_batch, ConnectionEvent list_batch, bool, bool) ConnectionEntry"

type_synonym demo_set = "(nat, unit, demo_entry list_table, unit, nat ConnectionCommand list) ConnectionSet"

definition demo_poller :: "(bool, bool, unit, nat, unit) MioPoller" where
  "demo_poller =
     \<lparr>mp_new = (\<lambda>events connections. Inr ()), mp_register = (\<lambda>w interest t p. (Inr (), t, p)),
      mp_reregister = (\<lambda>w interest t p. (Inr (), t, p)), mp_deregister = (\<lambda>w t p. (Inr (), t, p)),
      mp_poll = (\<lambda>maximum events p.
        (if maximum = 7 then Inl undefined else Inr \<lparr>pr_observed = 0, pr_stale = 0, pr_saturated = False\<rparr>, [], p)),
      mp_io_error = (\<lambda>_. None)\<rparr>"

definition list_mailbox :: "(nat, nat ConnectionCommand list) Mailbox" where
  "list_mailbox =
     \<lparr>mb_new = (\<lambda>n. []), mb_drain_into = (\<lambda>buffer n m. ((min n (length m), n < length m), buffer @ take n m, drop n m)),
      mb_close = (\<lambda>m. []), mb_try_send = (\<lambda>command m. (Inr (), m @ [command])),
      mb_try_send_control = (\<lambda>command m. (Inr (), m @ [command]))\<rparr>"

definition demo_registered :: "(bool, bool, unit) RegisteredTransport" where
  "demo_registered = \<lparr>rg_slot = demo_transport, rg_desired_interest = (\<lambda>writes t. writes), rg_read_write = True,
     rg_observe_readiness = (\<lambda>y t. t)\<rparr>"

definition demo_env ::
  "(nat \<times> nat, byte list, byte list, unit, unit, list_timers, nat, byte list EngineOutcome list_batch, ConnectionEvent list_batch,
    bool, bool, unit, nat, demo_entry list_table, unit, nat ConnectionCommand list) set_env" where
  "demo_env = \<lparr>en_services = demo_services, en_transport = demo_registered, en_table = list_resource_table,
     en_poller = demo_poller, en_mailbox = list_mailbox\<rparr>"

lemma demo_env_ok: "env_ok demo_env demo_views list_table_view"
  using demo_services_ok demo_transport_wf list_table_laws by (simp add: env_ok_def demo_env_def demo_registered_def)

section \<open>The run\<close>

definition demo_set_limits :: ConnectionSetLimits where
  "demo_set_limits = \<lparr>stl_max_connections = 2, stl_poll_events = 4, stl_command_capacity = 4, stl_commands_per_turn = 2,
     stl_ready_connections_per_turn = 1\<rparr>"

definition demo_token :: "nat ConnectionToken" where
  "demo_token = \<lparr>ct_resource = 0, ct_identity = cfg_identity demo_config\<rparr>"

definition set_empty :: demo_set where
  "set_empty = projr (set_new demo_env demo_set_limits)"

text \<open>One connection under the token 0, and whether it is queued.\<close>

definition set_of :: "demo_slot \<Rightarrow> bool \<Rightarrow> bool \<Rightarrow> demo_set" where
  "set_of s t queued =
     \<lparr>cs_limits = demo_set_limits, cs_poller = (), cs_poll_events = [],
      cs_resources = (2, 1, [(0, cfg_identity demo_config,
        \<lparr>ce_slot = s, ce_transport = Some t, ce_interest = False, ce_ready_queued = queued\<rparr>)]),
      cs_ready = (if queued then [0] else []), cs_commands = [], cs_command_more_pending = False,
      cs_poll_saturated = False, cs_stale_backend_events = 0, cs_stale_resource_events = 0, cs_stale_commands = 0,
      cs_owner_failure = None\<rparr>"

definition set_connected :: demo_set where
  "set_connected = set_of (slot0\<lparr>sl_transport_pressure := Some TransportPressure_ZERO, sl_transport_retained_limit := Some 0\<rparr>)
     False True"

definition set_opened :: demo_set where
  "set_opened = set_of slot_opened True False"

definition set_admitting :: demo_set where
  "set_admitting = set_of slot_admitting True True"

definition set_reserved :: demo_set where
  "set_reserved = set_of slot_reserved True True"

definition set_committed :: demo_set where
  "set_committed = set_of slot_committed True True"

text \<open>A second connection that cannot be made, the selector failing, the first connection given up.\<close>

definition set_second :: demo_set where
  "set_second = snd (connect_with demo_env 8 \<lparr>cc_slot = demo_config, cc_address = ()\<rparr> demo_slot_limits [] ()
     (\<lambda>_ _. Inl \<lparr>ioe_kind = WouldBlock, ioe_raw_os_error = None\<rparr>) set_committed)"

definition set_abandoned :: demo_set where
  "set_abandoned = snd (set_abandon demo_env demo_token OwnerInvariant set_committed)"

definition set_stopped :: demo_set where
  "set_stopped = snd (poll_io demo_env 7 set_committed)"

section \<open>The run is a run of the set\<close>

definition demo_histories :: "OperationPermit list \<Rightarrow> OperationId list \<Rightarrow> nat \<Rightarrow> byte list slot_history" where
  "demo_histories ps accepted = (\<lambda>_. new_history)(0 := slot_demo_history ps accepted [])"

abbreviation demo_set_reaches :: "demo_set \<Rightarrow> (nat \<Rightarrow> byte list slot_history) \<Rightarrow> bool" where
  "demo_set_reaches cs G \<equiv> set_reachable demo_env (cs, G)"

lemma no_histories: "demo_histories [] [] = (\<lambda>_. new_history)"
  by (simp add: demo_histories_def new_history_def slot_demo_history_def fun_eq_iff)

lemma set_empty_reachable: "demo_set_reaches set_empty (demo_histories [] [])"
proof -
  have "\<not> isl (set_new demo_env demo_set_limits)" by code_simp
  then have "set_new demo_env demo_set_limits = Inr set_empty" unfolding set_empty_def by (rule right_value) (rule refl)
  then show ?thesis by (auto simp: set_reachable_def set_initial_def set_run_def no_histories)
qed

lemma demo_limits_new:
  "slot_limits_new demo_limits \<lparr>dl_buffered_bytes = 16, dl_reply_bytes = 8\<rparr>
     \<lparr>io_operations_limit = 1, io_chunk_limit = 3\<rparr> \<lparr>tl_retained_bytes = 0\<rparr> \<lparr>pl_lifecycle_events = 4\<rparr> = Inr demo_slot_limits"
  by code_simp

lemma set_connected_by:
  "connect_with demo_env 7 \<lparr>cc_slot = demo_config, cc_address = ()\<rparr> demo_slot_limits [] () (\<lambda>_ _. Inr False) set_empty =
     (Inr demo_token, set_connected)"
proof -
  let ?r = "connect_with demo_env 7 \<lparr>cc_slot = demo_config, cc_address = ()\<rparr> demo_slot_limits [] () (\<lambda>_ _. Inr False) set_empty"
  have "\<not> isl (fst ?r)" "projr (fst ?r) = demo_token" "snd ?r = set_connected" by code_simp+
  then show ?thesis using right_value [of "fst ?r"] by (simp add: prod_eq_iff)
qed

lemma set_connected_reachable: "demo_set_reaches set_connected (demo_histories [] [])"
proof -
  have "io_operations_limit \<lparr>io_operations_limit = 1, io_chunk_limit = 3\<rparr> \<le> USIZE_MAX" by (simp add: USIZE_MAX_def)
  from set_reachable_step [OF set_empty_reachable set_step.connected [OF demo_limits_ok this demo_limits_new set_connected_by]]
  show ?thesis by (simp add: demo_histories_def demo_token_def fun_upd_def new_history_def slot_demo_history_def)
qed

lemma set_opened_reachable: "demo_set_reaches set_opened (demo_histories [] [])"
proof -
  have "turn_component demo_env 1 set_connected \<noteq> None" "snd (the (turn_component demo_env 1 set_connected)) = set_opened"
    by code_simp+
  then obtain r where "turn_component demo_env 1 set_connected = Some (r, set_opened)" by auto
  from set_reachable_step [OF set_connected_reachable set_step.turned [OF this]] show ?thesis .
qed

lemma set_admitting_reachable: "demo_set_reaches set_admitting (demo_histories [] [])"
proof -
  have "snd (set_open_admission demo_env demo_token set_opened) = set_admitting" by code_simp
  then show ?thesis by (rule set_reachable_step [OF set_opened_reachable set_step.admission_opened [OF reached_by]])
qed

lemma set_reserved_reachable: "demo_set_reaches set_reserved (demo_histories [demo_permit] [])"
proof -
  have "fst (set_reserve demo_env demo_token 0 demo_options set_admitting) = Inr demo_permit"
    "snd (set_reserve demo_env demo_token 0 demo_options set_admitting) = set_reserved" by code_simp+
  then have "set_reserve demo_env demo_token 0 demo_options set_admitting = (Inr demo_permit, set_reserved)"
    by (simp add: prod_eq_iff)
  from set_reachable_step [OF set_admitting_reachable set_step.reserved [OF this]] show ?thesis
    by (simp add: demo_histories_def demo_token_def slot_demo_history_def)
qed

lemma set_committed_reachable: "demo_set_reaches set_committed (demo_histories [] [0])"
proof -
  let ?r = "set_commit demo_env demo_token demo_permit demo_outbound set_reserved"
  have "\<not> isl (fst ?r)" "projr (fst ?r) = 0" "snd ?r = set_committed" by code_simp+
  then have r: "?r = (Inr 0, set_committed)" using right_value [of "fst ?r"] by (simp add: prod_eq_iff)
  have "length (of_bytes demo_outbound) \<le> USIZE_MAX" by (simp add: demo_outbound_def USIZE_MAX_def)
  moreover have "sh_permits (demo_histories [demo_permit] [] (ct_resource demo_token)) = [] @ demo_permit # []"
    by (simp add: demo_histories_def demo_token_def slot_demo_history_def)
  ultimately show ?thesis
    using set_reachable_step [OF set_reserved_reachable set_step.committed [where ps = "[]" and qs = "[]", OF _ _ r]]
    by (simp add: demo_histories_def demo_token_def slot_demo_history_def)
qed

lemma set_stopped_reachable: "demo_set_reaches set_stopped (demo_histories [] [0])"
  unfolding set_stopped_def
  by (rule set_reachable_step [OF set_committed_reachable set_step.polled]) (rule surjective_pairing)

lemma set_abandoned_reachable: "demo_set_reaches set_abandoned (demo_histories [] [0])"
  unfolding set_abandoned_def
  by (rule set_reachable_step [OF set_committed_reachable set_step.abandoned]) (rule surjective_pairing)

lemma set_second_step: "set_step demo_env {} (set_committed, demo_histories [] [0]) (set_second, demo_histories [] [0])"
proof -
  let ?r = "connect_with demo_env 8 \<lparr>cc_slot = demo_config, cc_address = ()\<rparr> demo_slot_limits [] ()
     (\<lambda>_ _. Inl \<lparr>ioe_kind = WouldBlock, ioe_raw_os_error = None\<rparr>) set_committed"
  have "isl (fst ?r)" by code_simp
  then obtain err where r: "?r = (Inl err, set_second)" by (cases ?r) (auto simp: set_second_def isl_def)
  have "io_operations_limit \<lparr>io_operations_limit = 1, io_chunk_limit = 3\<rparr> \<le> USIZE_MAX" by (simp add: USIZE_MAX_def)
  from set_step.connected [OF demo_limits_ok this demo_limits_new r] show ?thesis by simp
qed

end
