(* ===== verification/SlotTheorems.thy ===== *)
theory SlotTheorems
  imports SlotScenario
begin

text \<open>
  The properties of a connection slot: for every sequence of calls by the application and its host,
  and for every transport.
\<close>

section \<open>What the invariant gives\<close>

lemma books_owner:
  fixes S :: "('g, 'd, 'r, 'e, 'c, 'q, 'k, 'o, 'l) services"
  assumes "services_ok S V" "slot_books S V H s"
  obtains h :: "(OutboundFrame, 'g, 'r) system" where "sys_reachable (sv_externals S) h" "sys_core h = sl_core s"
    "sys_permits h = sh_permits H" "sys_accepted h = sh_accepted H"
    "sys_published h = map outcome_entry (all_outcomes S H s)" "sys_replies h = outcome_replies (all_outcomes S H s)"
    "outcomes_once h" "core_ok (sv_externals S) (sl_core s) (mset (map permit_reservation (sh_permits H)))"
proof -
  obtain h :: "(OutboundFrame, 'g, 'r) system" where h: "sys_reachable (sv_externals S) h" "sys_core h = sl_core s"
    "sys_permits h = sh_permits H" "sys_accepted h = sh_accepted H"
    "sys_published h = map outcome_entry (all_outcomes S H s)" "sys_replies h = outcome_replies (all_outcomes S H s)"
    using assms(2) by (auto simp: slot_books_def simulates_def)
  note inv = sys_inv_parts [OF sys_reachable_inv [OF services_okD(1) [OF assms(1)] h(1)]]
  show ?thesis using that [OF h inv(4)] inv(1) by (simp only: h)
qed

lemma reachable_books:
  "services_ok S V \<Longrightarrow> transport_wf T \<Longrightarrow> slot_reachable S T s H \<Longrightarrow> sl_state s \<noteq> Failed OwnerCore \<Longrightarrow> slot_books S V H s"
  by (rule holds_books [OF slot_reachable_inv(1)])

lemma reachable_owner:
  assumes "services_ok S V" "transport_wf T" "slot_reachable S T s H"
  obtains c where "slot_books S V H (s\<lparr>sl_core := c\<rparr>)" "owner_before s c"
  by (rule holds_owner [OF slot_reachable_inv(1) [OF assms]])

lemma reachable_running:
  "services_ok S V \<Longrightarrow> transport_wf T \<Longrightarrow> slot_reachable S T s H \<Longrightarrow> sl_state s = Running \<Longrightarrow> slot_running S V H s"
  by (rule holds_running [OF slot_reachable_inv(1)])

lemma books_once:
  fixes S :: "('g, 'd, 'r, 'e, 'c, 'q, 'k, 'o, 'l) services"
  assumes "services_ok S V" "slot_books S V H s"
  shows "let os = sh_delivered H @ items (sv_outcomes S) (sl_outcomes s);
             live = live_ids (pending (core_machine (sl_core s)))
         in distinct (map eo_operation os) \<and> set (sh_accepted H) = eo_operation ` set os \<union> set live \<and>
            eo_operation ` set os \<inter> set live = {} \<and> (\<forall>o' \<in> set os. eo_epoch o' = slot_epoch s)"
proof -
  obtain h :: "(OutboundFrame, 'g, 'r) system" where h: "sys_core h = sl_core s" "sys_accepted h = sh_accepted H"
    "sys_published h = map outcome_entry (all_outcomes S H s)" and once: "outcomes_once h"
    by (rule books_owner [OF assms])
  have fst: "map fst (map outcome_entry os) = map eo_operation os" for os :: "'r EngineOutcome list"
    by (simp add: outcome_entry_def)
  have "distinct (map eo_operation (all_outcomes S H s))"
    "set (sh_accepted H) = eo_operation ` set (all_outcomes S H s) \<union> set (live_ids (pending (core_machine (sl_core s))))"
    "eo_operation ` set (all_outcomes S H s) \<inter> set (live_ids (pending (core_machine (sl_core s)))) = {}"
    using once unfolding outcomes_once_def h fst by (simp_all add: outcome_entry_def image_image)
  then show ?thesis using assms(2) by (simp add: Let_def slot_books_def roomy_def all_outcomes_def)
qed

lemma owner_ok:
  assumes "services_ok S V" "slot_books S V H (s\<lparr>sl_core := c\<rparr>)"
  shows "core_ok (sv_externals S) c (mset (map permit_reservation (sh_permits H)))"
  by (rule books_owner [OF assms]) simp

text \<open>The same for a slot whose owner broke, by the books of the owner it had before.\<close>

lemma owner_once:
  assumes "services_ok S V" "slot_books S V H (s\<lparr>sl_core := c\<rparr>)" "owner_before s c"
  shows "let os = sh_delivered H @ items (sv_outcomes S) (sl_outcomes s);
             live = live_ids (pending (core_machine (sl_core s)))
         in distinct (map eo_operation os) \<and> set (sh_accepted H) = eo_operation ` set os \<union> set live \<and>
            eo_operation ` set os \<inter> set live = {} \<and> (\<forall>o' \<in> set os. eo_epoch o' = slot_epoch s)"
  using books_once [OF assms(1,2)] by (simp add: owner_before_machine [OF assms(3)])

text \<open>
  Recovery of an owner that broke: the operations the owner had, in wire order, the one at the front
  as possibly sent, all others with their recorded certainty.
\<close>

lemma broken_front:
  assumes ok: "core_ok X c P" and fr: "wq_frames (core_writes c) = w # ws" and r: "r \<in> set (pending (core_machine c))"
  shows "frame_key w = (rec_id r, rec_effect r) \<longleftrightarrow> rec_id r = qw_operation w"
proof
  obtain ys front zs where front: "first_held (pending (core_machine c)) ys front zs" "held_write_of front = frame_write w"
    by (rule front_record [OF ok fr])
  assume "rec_id r = qw_operation w"
  moreover have "front \<in> set (pending (core_machine c))" "rec_id front = qw_operation w"
    using front by (auto simp: first_held_def held_write_of_def frame_write_def)
  moreover have "distinct (map rec_id (pending (core_machine c)))"
    using core_ok_parts(2) [OF ok] by (simp add: machine_ok_def machine_core_def)
  ultimately have "r = front" using r by (metis distinct_map inj_onD)
  then show "frame_key w = (rec_id r, rec_effect r)" using front(2) by (simp add: held_write_of_def frame_write_def)
qed simp

lemma broken_recovered:
  assumes ok: "core_ok X c P" and fr: "wq_frames (core_writes c) = w # ws" and r: "r \<in> set (pending (core_machine c))"
  defines "ro \<equiv> recovered_of (w\<lparr>qw_started := True\<rparr> # ws) r"
  shows "ro_operation ro = rec_id r" "(ro_frame ro \<noteq> None) = rec_write_held r"
    "ro_delivery ro = (if rec_id r = qw_operation w then PossiblySent else rec_delivery r)"
  using recovered_of_held [OF ok r] broken_front [OF ok fr r] unfolding ro_def fr
  by (auto simp: recovered_of_def weaken_def split: option.splits if_splits)

lemma owner_recovers:
  assumes X: "externals_ok X" and ok: "core_ok X c P" and before: "c' = c \<or> broken_core c c'"
  shows "cr_epoch (fst (core_recover X c')) = m_epoch (core_machine c) \<and>
    map (\<lambda>ro. (ro_operation ro, ro_delivery ro, ro_frame ro \<noteq> None)) (cr_operations (fst (core_recover X c'))) =
       map (\<lambda>r. (rec_id r, if core_poisoned c' \<noteq> None \<and> rec_id r \<in> front_operations c' then PossiblySent else rec_delivery r,
         rec_write_held r)) (live_records (pending (core_machine c))) \<and>
    cr_unmatched_writes (fst (core_recover X c')) = [] \<and>
    (cr_ownership_diverged (fst (core_recover X c')) \<longleftrightarrow> core_poisoned c' \<noteq> None)"
proof (cases "broken_core c c'")
  case False
  then have "c' = c" using before by blast
  then show ?thesis
    using healthy_recovers(1,2) [OF X ok] core_ok_parts(7) [OF ok] by simp
next
  case True
  then obtain w ws mo mw where fr: "wq_frames (core_writes c) = w # ws"
    and c': "core_machine c' = core_machine c" "core_poisoned c' \<noteq> None"
      "core_writes c' = (core_writes c)\<lparr>wq_frames := w\<lparr>qw_started := True\<rparr> # ws\<rparr>"
    and j: "core_journal c' = journal_of mo mw [] [] None True"
    unfolding broken_core_def by blast
  have ids: "write_identities (core_writes c') = held_ids (pending (core_machine c'))"
    using joined_identities [OF core_ok_parts(1) [OF ok]] fr by (simp add: c' write_identities_def)
  have m: "machine_ok (core_machine c') P" using core_ok_parts(2) [OF ok] by (simp add: c'(1))
  note rec = core_recover_exact(1) [OF X m ids j]
  have "front_operations c' = {qw_operation w}" by (simp add: front_operations_def c'(3))
  then show ?thesis
    using broken_recovered [OF ok fr] c' by (auto simp: rec)
qed

lemma owner_reports:
  fixes S :: "('g, 'd, 'r, 'e, 'c, 'q, 'k, 'o, 'l) services"
  assumes S: "services_ok S V" and books: "slot_books S V H (s\<lparr>sl_core := c\<rparr>)" and before: "owner_before s c"
  shows "let rep = fst (slot_recover_owned S reason flag s); rs = live_records (pending (core_machine (sl_core s)));
             broken = (core_poisoned (sl_core s) \<noteq> None) in
    map (\<lambda>ro. (ro_operation ro, ro_delivery ro, ro_frame ro \<noteq> None)) (rr_operations rep) =
      map (\<lambda>r. (rec_id r, if broken \<and> rec_id r \<in> front_operations (sl_core s) then PossiblySent else rec_delivery r,
        rec_write_held r)) rs \<and>
    (broken \<longrightarrow> sl_state s = Failed OwnerCore) \<and>
    rr_unmatched_writes rep = [] \<and> rr_epoch rep = slot_epoch s \<and> rr_reason rep = reason \<and>
    rr_ownership_diverged rep = (broken \<or> flag \<or> sl_transport_contract_diverged s) \<and>
    rr_outcomes rep = items (sv_outcomes S) (sl_outcomes s) \<and>
    rr_events rep = items (sv_events S) (sl_lifecycle s) @ items (sv_events S) (sl_recovery_events s) \<and>
    distinct (map eo_operation (sh_delivered H @ rr_outcomes rep) @ map ro_operation (rr_operations rep)) \<and>
    set (sh_accepted H) = set (map eo_operation (sh_delivered H @ rr_outcomes rep) @ map ro_operation (rr_operations rep))"
proof -
  let ?m = "core_machine (sl_core s)" and ?rec = "fst (core_recover (sv_externals S) (sl_core s))"
  have m: "core_machine c = ?m" by (rule owner_before_machine [OF before])
  have ok: "core_ok (sv_externals S) c (mset (map permit_reservation (sh_permits H)))"
    by (rule owner_ok [OF S books])
  have state: "core_poisoned (sl_core s) \<noteq> None \<longrightarrow> sl_state s = Failed OwnerCore"
    using before core_ok_parts(7) [OF ok] by (auto simp: owner_before_def)
  have "sl_core s = c \<or> broken_core c (sl_core s)" using before by (auto simp: owner_before_def)
  note rec = owner_recovers [OF services_okD(1) [OF S] ok this, unfolded m]
  note ops = rec [THEN conjunct2, THEN conjunct1]
  have none: "items (sv_outcomes S) (sl_recovery_outcomes s) = []" using books by (simp add: slot_books_def roomy_def)
  have ids: "map ro_operation (cr_operations ?rec) = live_ids (pending ?m)"
    using arg_cong [OF ops, of "map fst"] by (simp add: live_ids_def comp_def)
  have "distinct (live_ids (pending ?m))"
    using machine_lifecycle [OF ok] by (simp add: live_ids_def distinct_map_filter m)
  with owner_once [OF S books before]
  have all: "distinct (map eo_operation (all_outcomes S H s) @ live_ids (pending ?m))"
    "set (sh_accepted H) = set (map eo_operation (all_outcomes S H s) @ live_ids (pending ?m))"
    unfolding Let_def all_outcomes_def by auto
  have rep: "fst (slot_recover_owned S reason flag s) = \<lparr>rr_epoch = slot_epoch s, rr_reason = reason,
      rr_operations = cr_operations ?rec, rr_unmatched_writes = [],
      rr_outcomes = items (sv_outcomes S) (sl_outcomes s),
      rr_events = items (sv_events S) (sl_lifecycle s) @ items (sv_events S) (sl_recovery_events s),
      rr_transport_diagnostic = sl_transport_diagnostic s, rr_transport_pressure = sl_transport_pressure s,
      rr_transport_retained_limit = sl_transport_retained_limit s,
      rr_transport_retained_ceiling = Some (transport_retained_bytes (sl_limits s)),
      rr_ownership_diverged = (core_poisoned (sl_core s) \<noteq> None \<or> flag \<or> sl_transport_contract_diverged s)\<rparr>"
    using rec none by (simp add: slot_recover_owned_def items_def Let_def case_prod_unfold)
  show ?thesis using ops state all unfolding Let_def rep by (simp add: ids all_outcomes_def)
qed

lemma mirrors_timers:
  assumes "mirrors armed entries epoch due"
  shows "(\<exists>!k. armed k = Some (d, \<lparr>dev_epoch = epoch, dev_operation = i\<rparr>)) \<longleftrightarrow> due i = Some d"
    "armed k = Some (d, event) \<Longrightarrow> \<exists>i. due i = Some d \<and> event = \<lparr>dev_epoch = epoch, dev_operation = i\<rparr>"
proof -
  have dist: "distinct (map den_operation entries)" and dom: "den_operation ` set entries = dom due"
    and armed: "\<And>k d event. armed k = Some (d, event) \<longleftrightarrow> (\<exists>entry \<in> set entries. den_token entry = k \<and>
      due (den_operation entry) = Some d \<and> event = \<lparr>dev_epoch = epoch, dev_operation = den_operation entry\<rparr>)"
    using assms unfolding mirrors_def by blast+
  show "armed k = Some (d, event) \<Longrightarrow> \<exists>i. due i = Some d \<and> event = \<lparr>dev_epoch = epoch, dev_operation = i\<rparr>"
    using armed by blast
  show "(\<exists>!k. armed k = Some (d, \<lparr>dev_epoch = epoch, dev_operation = i\<rparr>)) \<longleftrightarrow> due i = Some d"
  proof
    assume due: "due i = Some d"
    then have "i \<in> den_operation ` set entries" unfolding dom by auto
    then obtain entry where entry: "entry \<in> set entries" "den_operation entry = i" by auto
    have unique: "other = entry" if "other \<in> set entries" "den_operation other = i" for other
      using dist that entry by (simp add: distinct_map inj_on_def)
    have "armed (den_token entry) = Some (d, \<lparr>dev_epoch = epoch, dev_operation = i\<rparr>)"
      using armed [THEN iffD2] entry due by blast
    moreover have "k = den_token entry" if k: "armed k = Some (d, \<lparr>dev_epoch = epoch, dev_operation = i\<rparr>)" for k
    proof -
      obtain other where "other \<in> set entries" "den_token other = k" "i = den_operation other"
        using k armed by auto
      with unique [of other] show ?thesis by simp
    qed
    ultimately show "\<exists>!k. armed k = Some (d, \<lparr>dev_epoch = epoch, dev_operation = i\<rparr>)" by blast
  next
    assume "\<exists>!k. armed k = Some (d, \<lparr>dev_epoch = epoch, dev_operation = i\<rparr>)"
    then obtain k where "armed k = Some (d, \<lparr>dev_epoch = epoch, dev_operation = i\<rparr>)" by blast
    then show "due i = Some d" unfolding armed by auto
  qed
qed

section \<open>Refinement\<close>

text \<open>
  C5. A slot that has not lost its owner refines the aggregate owner: there is a run of the owner with
  its environment whose core is the core of the slot, with the same permits and accepted operations,
  and whose published outcomes and replies are, in order, those the slot has handed out or still holds.
\<close>

theorem slot_refines_owner:
  assumes "services_ok S V" "transport_wf T" "slot_reachable S T s H" "sl_state s \<noteq> Failed OwnerCore"
  shows "\<exists>h. sys_reachable (sv_externals S) h \<and> sys_core h = sl_core s \<and> sys_permits h = sh_permits H \<and>
    sys_accepted h = sh_accepted H \<and> sys_published h = map outcome_entry (all_outcomes S H s) \<and>
    sys_replies h = outcome_replies (all_outcomes S H s)"
  by (rule books_owner [OF assms(1) reachable_books [OF assms]]) blast

theorem slot_refines_owner_witness:
  "\<exists>h :: (OutboundFrame, nat \<times> nat, byte list) system. sys_reachable CX h \<and> sys_core h = sl_core slot_closing \<and>
     sys_accepted h = [0] \<and> sys_published h = [(0, Some PossiblySent)]"
proof -
  have "sl_state slot_closing \<noteq> Failed OwnerCore"
    "map outcome_entry (all_outcomes demo_services (slot_demo_history [] [0] []) slot_closing) = [(0, Some PossiblySent)]"
    "sh_accepted (slot_demo_history [] [0] []) = [0]"
    by code_simp+
  moreover have "sv_externals demo_services = CX" by (simp add: demo_services_def)
  ultimately show ?thesis
    using slot_refines_owner [OF demo_services_ok demo_transport_wf slot_closing_reachable] by metis
qed

text \<open>
  C6. Each operation a slot accepted has exactly one outcome, handed out once or waiting to be drained,
  or the slot still owns the operation and has none. No outcome is lost when batches fill up or when
  the slot fails, whatever the reason, and every outcome names the epoch of the slot.
\<close>

theorem slot_outcomes_once:
  assumes "services_ok S V" "transport_wf T" "slot_reachable S T s H"
  shows "let os = sh_delivered H @ items (sv_outcomes S) (sl_outcomes s);
             live = live_ids (pending (core_machine (sl_core s)))
         in distinct (map eo_operation os) \<and> set (sh_accepted H) = eo_operation ` set os \<union> set live \<and>
            eo_operation ` set os \<inter> set live = {} \<and> (\<forall>o' \<in> set os. eo_epoch o' = slot_epoch s)"
  by (rule reachable_owner [OF assms], rule owner_once [OF assms(1)])

theorem slot_outcomes_once_witness:
  "map eo_operation (sh_delivered (slot_demo_history [] [0] [demo_outcome]) @
       items (sv_outcomes demo_services) (sl_outcomes slot_drained)) = [0] \<and>
   set (live_ids (pending (core_machine (sl_core slot_drained)))) = {} \<and>
   set (live_ids (pending (core_machine (sl_core slot_written)))) = {0} \<and>
   sl_state slot_lost = Failed OwnerCore \<and> set (live_ids (pending (core_machine (sl_core slot_lost)))) = {0}"
proof -
  have s: "sl_state slot_lost = Failed OwnerCore"
    "sh_delivered (slot_demo_history [] [0] []) @ items (sv_outcomes demo_services) (sl_outcomes slot_lost) = []"
    "sh_delivered (slot_demo_history [] [0] [demo_outcome]) @ items (sv_outcomes demo_services) (sl_outcomes slot_drained)
       = [demo_outcome]" "eo_operation demo_outcome = 0"
    "sh_delivered (slot_demo_history [] [0] []) @ items (sv_outcomes demo_services) (sl_outcomes slot_written) = []"
    "sh_accepted (slot_demo_history [] [0] [demo_outcome]) = [0]" "sh_accepted (slot_demo_history [] [0] []) = [0]"
    by code_simp+
  note once = slot_outcomes_once [OF demo_services_ok demo_transport_wf]
  have "set (live_ids (pending (core_machine (sl_core slot_drained)))) \<subseteq> {0}"
    "0 \<notin> set (live_ids (pending (core_machine (sl_core slot_drained))))"
    using once [OF slot_drained_reachable] unfolding s Let_def by (simp_all add: s)
  moreover have "set (live_ids (pending (core_machine (sl_core slot_written)))) = {0}"
    using once [OF slot_written_reachable] unfolding s Let_def by simp
  moreover have "set (live_ids (pending (core_machine (sl_core slot_lost)))) = {0}"
    using slot_outcomes_once [OF demo_services_ok overreporting_wf slot_lost_reachable] unfolding s Let_def by simp
  ultimately show ?thesis by (simp add: s(1,3,4) subset_singleton_iff) blast
qed

section \<open>Well-formed states\<close>

text \<open>
  C7. The parts of a slot agree. Running or failed, each operation the owner still has on record has one
  armed timer, at its own deadline and for the epoch of the slot, and there is no other timer, so the
  queue never runs out of room. While the slot runs, a close request waits exactly while the owner is closing and
  names its reason, the transport state follows the phase, admission is open only on an open
  transport, and a drain deadline is set exactly while the owner drains.
\<close>

theorem slot_well_formed:
  assumes "services_ok S V" "transport_wf T" "slot_reachable S T s H"
  shows "let m = core_machine (sl_core s); armed = vw_armed V (sl_timers s) in
    (\<forall>i d. (\<exists>!k. armed k = Some (d, \<lparr>dev_epoch = m_epoch m, dev_operation = i\<rparr>)) \<longleftrightarrow>
       (\<exists>r \<in> set (pending m). rec_id r = i \<and> rec_deadline r = d)) \<and>
    (\<forall>k d event. armed k = Some (d, event) \<longrightarrow>
       (\<exists>r \<in> set (pending m). rec_deadline r = d \<and> event = \<lparr>dev_epoch = m_epoch m, dev_operation = rec_id r\<rparr>)) \<and>
    tq_len (sv_timers S) (sl_timers s) = length (pending m) \<and> length (pending m) \<le> vw_capacity V (sl_timers s) \<and>
    (sl_state s = Running \<longrightarrow>
       (m_phase m = Live \<longleftrightarrow> sl_transport_state s \<in> {Connecting, TransportOpen}) \<and>
       (m_phase m = Closing \<longleftrightarrow> (\<exists>reason shutdown. sl_close_request s = Some (DirCore reason shutdown) \<and>
          m_close_reason m = Some reason)) \<and>
       (m_phase m = PhaseClosed \<longleftrightarrow> sl_transport_state s = TransportClosed) \<and>
       (m_phase m = Live \<and> m_gate m = Open \<longrightarrow> sl_transport_state s = TransportOpen) \<and>
       (sl_drain_deadline s \<noteq> None \<longleftrightarrow> m_gate m = Draining))"
proof -
  let ?m = "core_machine (sl_core s)" and ?armed = "vw_armed V (sl_timers s)"
  obtain c where books: "slot_books S V H (s\<lparr>sl_core := c\<rparr>)" and before: "owner_before s c"
    by (rule reachable_owner [OF assms])
  note c = owner_before_machine [OF before]
  have ok: "core_ok (sv_externals S) c (mset (map permit_reservation (sh_permits H)))"
    by (rule owner_ok [OF assms(1) books])
  have dist: "distinct (map fst (timed (pending ?m)))" using machine_lifecycle [OF ok] by (simp add: timed_def comp_def c)
  have due: "due_of s i = Some d \<longleftrightarrow> (\<exists>r \<in> set (pending ?m). rec_id r = i \<and> rec_deadline r = d)" for i d
    using map_of_eq_Some_iff [OF dist, of i d] by (auto simp: due_of_def timed_def)
  have m: "mirrors ?armed (sl_deadlines s) (m_epoch ?m) (due_of s)"
    using books by (simp add: slot_books_def mirrored_def due_of_def c)
  have "card (dom (due_of s)) = length (pending ?m)"
    using distinct_card [OF dist] by (simp add: due_of_def dom_map_of_conv_image_fst timed_def image_image)
  then have len: "tq_len (sv_timers S) (sl_timers s) = length (pending ?m)"
    using mirrors_card [OF m] services_okD(2) [OF assms(1)] by (simp add: timer_laws_def)
  have "vw_capacity V (sl_timers s) = max_operations (core_limits (sl_core s))"
    using books by (simp add: slot_books_def configured_def c)
  then have room: "length (pending ?m) \<le> vw_capacity V (sl_timers s)"
    using machine_ok_accounts(3) [OF core_ok_parts(2) [OF ok]] by (simp add: c)
  have phase: "phase_follows s" if "sl_state s = Running"
    by (rule slot_runningD [OF reachable_running [OF assms(1-3) that]])
  have timers: "\<forall>i d. (\<exists>!k. ?armed k = Some (d, \<lparr>dev_epoch = m_epoch ?m, dev_operation = i\<rparr>)) \<longleftrightarrow>
       (\<exists>r \<in> set (pending ?m). rec_id r = i \<and> rec_deadline r = d)"
    using mirrors_timers(1) [OF m] by (simp add: due)
  have others: "\<forall>k d event. ?armed k = Some (d, event) \<longrightarrow>
       (\<exists>r \<in> set (pending ?m). rec_deadline r = d \<and> event = \<lparr>dev_epoch = m_epoch ?m, dev_operation = rec_id r\<rparr>)"
  proof (intro allI impI)
    fix k d event assume "?armed k = Some (d, event)"
    then obtain i where "due_of s i = Some d" "event = \<lparr>dev_epoch = m_epoch ?m, dev_operation = i\<rparr>"
      using mirrors_timers(2) [OF m] by blast
    then show "\<exists>r \<in> set (pending ?m). rec_deadline r = d \<and> event = \<lparr>dev_epoch = m_epoch ?m, dev_operation = rec_id r\<rparr>"
      unfolding due by auto
  qed
  have "sl_state s = Running \<longrightarrow>
       (m_phase ?m = Live \<longleftrightarrow> sl_transport_state s \<in> {Connecting, TransportOpen}) \<and>
       (m_phase ?m = Closing \<longleftrightarrow> (\<exists>reason shutdown. sl_close_request s = Some (DirCore reason shutdown) \<and>
          m_close_reason ?m = Some reason)) \<and>
       (m_phase ?m = PhaseClosed \<longleftrightarrow> sl_transport_state s = TransportClosed) \<and>
       (m_phase ?m = Live \<and> m_gate ?m = Open \<longrightarrow> sl_transport_state s = TransportOpen) \<and>
       (sl_drain_deadline s \<noteq> None \<longleftrightarrow> m_gate ?m = Draining)"
    using phase by (cases "m_phase ?m") (auto simp: phase_follows_def Let_def)
  then show ?thesis unfolding Let_def using timers others len room by (intro conjI)
qed

theorem slot_well_formed_witness:
  "(\<exists>!k. vw_armed demo_views (sl_timers slot_written) k = Some (100, \<lparr>dev_epoch = 5, dev_operation = 0\<rparr>)) \<and>
   (m_phase (core_machine (sl_core slot_written)) = Live \<longleftrightarrow> sl_transport_state slot_written \<in> {Connecting, TransportOpen})"
proof -
  have s: "sl_state slot_written = Running" "m_epoch (core_machine (sl_core slot_written)) = 5"
    "map (\<lambda>r. (rec_id r, rec_deadline r)) (pending (core_machine (sl_core slot_written))) = [(0, 100)]"
    by code_simp+
  have r: "\<exists>r \<in> set (pending (core_machine (sl_core slot_written))). rec_id r = 0 \<and> rec_deadline r = 100"
    using s(3) by (cases "pending (core_machine (sl_core slot_written))") auto
  note w = slot_well_formed [OF demo_services_ok demo_transport_wf slot_written_reachable, unfolded Let_def s]
  show ?thesis
    by (intro conjI) (rule w [THEN conjunct1, rule_format, THEN iffD2, OF r],
      rule w [THEN conjunct2, THEN conjunct2, THEN conjunct2, THEN conjunct2, THEN mp, OF refl, THEN conjunct1])
qed

text \<open>
  C11. The lifecycle events of a slot, handed out or still held, are numbered from one without a gap,
  also when the batch had no room and the event was kept for recovery. There are at most four, each
  kind at most once and in the order opened, admitting, closing, closed, all for the epoch of the slot.
  This holds for a running slot and for one that failed, whatever the reason.
\<close>

theorem slot_events_ordered:
  assumes "services_ok S V" "transport_wf T" "slot_reachable S T s H"
  shows "let evs = sh_seen H @ items (sv_events S) (sl_lifecycle s) @ items (sv_events S) (sl_recovery_events s) in
    map ev_sequence evs = map of_nat [1..<Suc (length evs)] \<and> sl_event_sequence s = of_nat (length evs) \<and>
    length evs \<le> 4 \<and> sorted_wrt (<) (map ev_rank evs) \<and> (\<forall>ev \<in> set evs. ev_epoch ev = slot_epoch s)"
proof -
  obtain c where books: "slot_books S V H (s\<lparr>sl_core := c\<rparr>)" and before: "owner_before s c"
    by (rule reachable_owner [OF assms])
  have "events_ok 4 (slot_epoch s) (all_events S H s) (sl_event_sequence s)"
    using books by (simp add: slot_books_def all_events_def owner_before_machine [OF before])
  with events_ok_length [OF this] show ?thesis by (simp add: events_ok_def all_events_def Let_def)
qed

theorem slot_events_ordered_witness:
  "map ev_sequence (items (sv_events demo_services) (sl_lifecycle slot_closing)) = [1, 2, 3]"
proof -
  have s: "sh_seen (slot_demo_history [] [0] []) = []"
    "items (sv_events demo_services) (sl_recovery_events slot_closing) = []"
    "length (items (sv_events demo_services) (sl_lifecycle slot_closing)) = 3"
    by code_simp+
  have "map ev_sequence (items (sv_events demo_services) (sl_lifecycle slot_closing)) = map of_nat [1..<Suc 3]"
    using slot_events_ordered [OF demo_services_ok demo_transport_wf slot_closing_reachable] s
    by (simp add: Let_def del: upt_Suc)
  also have "\<dots> = [1, 2, 3]" by code_simp
  finally show ?thesis .
qed

section \<open>Driving a slot\<close>

text \<open>
  C8. A quantum always returns, whatever the transport does: it reports at most as much work as the
  configured number of operations, or the first fault and a slot that has failed for it. The only
  faults are a transport that broke its contract, a lifecycle batch that was configured too small,
  and a slot that had failed before.
\<close>

theorem quantum_returns_bounded:
  assumes "services_ok S V" "transport_wf T" "slot_reachable S T s H"
  shows "\<exists>r s' transport'. drive_quantum S T now s transport = Some (r, s', transport') \<and>
    (case r of
       Inr p \<Rightarrow> spr_work p \<le> io_operations (sl_limits s) \<and> sl_state s' = Running
     | Inl e \<Rightarrow> sl_state s' = Failed (owner_failure_from e) \<and>
         (adapter_fault e \<or> sl_state s = Failed (owner_failure_from e) \<or>
          pl_lifecycle_events (sl_publication (sl_limits s)) < 4 \<and> (\<exists>failure. e = EngInvariant (LifecyclePublication failure))))"
proof -
  note inv = slot_reachable_inv [OF assms]
  obtain r s' transport' where q: "drive_quantum S T now s transport = Some (r, s', transport')"
    "\<forall>p. r = Inr p \<longrightarrow> slot_running S V H s' \<and> spr_work p \<le> io_operations (sl_limits s)"
    "\<forall>e. r = Inl e \<longrightarrow> (e \<in> drive_faults (sl_limits s) \<or> (\<exists>reason. sl_state s = Failed reason \<and> e = EngOwnerFailed reason)) \<and>
       sl_state s' = Failed (owner_failure_from e)"
    by (rule quantum_holds [OF assms(1,2) inv])
  show ?thesis
  proof (intro exI conjI, rule q(1), cases r)
    case (Inl e)
    then show "case r of
       Inr p \<Rightarrow> spr_work p \<le> io_operations (sl_limits s) \<and> sl_state s' = Running
     | Inl e \<Rightarrow> sl_state s' = Failed (owner_failure_from e) \<and>
         (adapter_fault e \<or> sl_state s = Failed (owner_failure_from e) \<or>
          pl_lifecycle_events (sl_publication (sl_limits s)) < 4 \<and> (\<exists>failure. e = EngInvariant (LifecyclePublication failure)))"
      using q(3) by (auto simp: drive_faults_def event_overflow_def split: if_splits)
  next
    case (Inr p)
    then show "case r of
       Inr p \<Rightarrow> spr_work p \<le> io_operations (sl_limits s) \<and> sl_state s' = Running
     | Inl e \<Rightarrow> sl_state s' = Failed (owner_failure_from e) \<and>
         (adapter_fault e \<or> sl_state s = Failed (owner_failure_from e) \<or>
          pl_lifecycle_events (sl_publication (sl_limits s)) < 4 \<and> (\<exists>failure. e = EngInvariant (LifecyclePublication failure)))"
      using q(2) slot_runningD(1) by auto
  qed
qed

theorem quantum_returns_bounded_witness:
  "\<exists>r s' transport'. drive_quantum demo_services demo_transport 1 slot_committed (Some True) = Some (r, s', transport') \<and>
     (case r of Inr p \<Rightarrow> spr_work p \<le> 1 \<and> sl_state s' = Running | Inl e \<Rightarrow> adapter_fault e)"
proof -
  have "io_operations (sl_limits slot_committed) = 1" "pl_lifecycle_events (sl_publication (sl_limits slot_committed)) = 4"
    "sl_state slot_committed = Running" by code_simp+
  with quantum_returns_bounded [OF demo_services_ok demo_transport_wf slot_committed_reachable, of 1 "Some True"]
  show ?thesis by (fastforce split: sum.splits)
qed

section \<open>Calls of the application\<close>

text \<open>
  C9. With room for the four lifecycle events of an epoch, no call of the application fails a running
  slot: opening admission, cancelling, draining and finalizing (for any reason but \<open>Drained\<close>, which is
  the slot's own) return without an error, a reservation is granted or refused, and a commit accepts
  the operation with its timer armed or hands back the permit and the frame. In particular the code
  for a failure after acceptance is never reached.
\<close>

theorem slot_calls_never_fail:
  assumes S: "services_ok S V" and T: "transport_wf T" and reach: "slot_reachable S T s H" and running: "sl_state s = Running"
    and room: "4 \<le> pl_lifecycle_events (sl_publication (sl_limits s))"
  shows "(\<exists>d s'. slot_open_admission S s = (Inr d, s') \<and> sl_state s' = Running) \<and>
    (\<exists>d s'. slot_cancel S i s = (Inr d, s') \<and> sl_state s' = Running) \<and>
    (\<exists>d s'. slot_begin_drain S deadline s = (Inr d, s') \<and> sl_state s' = Running) \<and>
    (reason \<noteq> Drained \<longrightarrow> (\<exists>d s'. slot_finalize S reason s = (Inr d, s') \<and> sl_state s' = Running)) \<and>
    sl_state (snd (slot_reserve S now options s)) = Running \<and>
    (p \<in> set (sh_permits H) \<and> length (of_bytes frame) \<le> USIZE_MAX \<longrightarrow>
       (\<exists>s'. slot_commit S p frame s = (Inr (permit_operation p), s') \<and> sl_state s' = Running) \<or>
       (\<exists>kind. slot_commit S p frame s = (Inl (Rejected \<lparr>ce_failure = Policy kind, ce_permit = p, ce_frame = frame\<rparr>), s)))"
proof -
  have run: "slot_running S V H s" by (rule reachable_running [OF S T reach running])
  have none: "event_overflow (sl_limits s) = {}" using room by (simp add: event_overflow_def)
  note ok = slot_runningD(1)
  have "\<exists>d s'. slot_open_admission S s = (Inr d, s') \<and> sl_state s' = Running"
    using op_open.never_fails [OF S run none] ok unfolding control_defs by metis
  moreover have "\<exists>d s'. slot_cancel S i s = (Inr d, s') \<and> sl_state s' = Running"
    using op_cancel.never_fails [OF S run none] ok unfolding control_defs by metis
  moreover have "\<exists>d s'. slot_begin_drain S deadline s = (Inr d, s') \<and> sl_state s' = Running"
    using op_drain.never_fails [OF S run none] ok unfolding control_defs by metis
  moreover have "\<exists>d s'. slot_finalize S reason s = (Inr d, s') \<and> sl_state s' = Running" if "reason \<noteq> Drained"
  proof -
    have "event_overflow (sl_limits s) \<union> missing_bound (reason = Drained) = {}" using none that by (simp add: missing_bound_def)
    from op_finalize.never_fails [OF S run this] ok show ?thesis unfolding control_defs by metis
  qed
  moreover have "sl_state (snd (slot_reserve S now options s)) = Running"
    using reserve_running [OF S run, of now options] ok
    by (cases "slot_reserve S now options s"; cases "fst (slot_reserve S now options s)") fastforce+
  moreover have "(\<exists>s'. slot_commit S p frame s = (Inr (permit_operation p), s') \<and> sl_state s' = Running) \<or>
       (\<exists>kind. slot_commit S p frame s = (Inl (Rejected \<lparr>ce_failure = Policy kind, ce_permit = p, ce_frame = frame\<rparr>), s))"
    if p: "p \<in> set (sh_permits H)" and wire: "length (of_bytes frame) \<le> USIZE_MAX"
  proof -
    obtain ps qs where "sh_permits H = ps @ p # qs" using split_list [OF p] by blast
    from commit_running [OF S run this wire] ok show ?thesis by blast
  qed
  ultimately show ?thesis by blast
qed

theorem slot_calls_never_fail_witness:
  "(\<exists>s'. slot_commit demo_services demo_permit demo_outbound slot_reserved = (Inr 0, s') \<and> sl_state s' = Running) \<or>
   (\<exists>kind. slot_commit demo_services demo_permit demo_outbound slot_reserved =
      (Inl (Rejected \<lparr>ce_failure = Policy kind, ce_permit = demo_permit, ce_frame = demo_outbound\<rparr>), slot_reserved))"
proof -
  have s: "sl_state slot_reserved = Running" "pl_lifecycle_events (sl_publication (sl_limits slot_reserved)) = 4"
    "demo_permit \<in> set (sh_permits (slot_demo_history [demo_permit] [] []))" "permit_operation demo_permit = 0" by code_simp+
  have "length (of_bytes demo_outbound) \<le> USIZE_MAX" by (simp add: demo_outbound_def USIZE_MAX_def)
  with slot_calls_never_fail [OF demo_services_ok demo_transport_wf slot_reserved_reachable s(1),
      where p = demo_permit and frame = demo_outbound] s show ?thesis by simp
qed

section \<open>Recovery\<close>

text \<open>
  C10. Recovering a slot, running or failed for whatever reason, hands over everything it owns: the
  operations without an outcome in wire order, with the delivery certainty the owner has recorded and
  the frames it still holds, the outcomes and events that were never drained, and no frame without an
  operation. If the owner was poisoned, which happens only to a slot that failed with it, the
  operation at the front of the writer counts as possibly sent and the report says that ownership
  diverged; all else is the same. Together with what was drained before, the report accounts for each
  accepted operation exactly once.
\<close>

theorem slot_recovers_everything:
  assumes "services_ok S V" "transport_wf T" "slot_reachable S T s H"
  shows "let rep = slot_recover S reason s; rs = live_records (pending (core_machine (sl_core s)));
             broken = (core_poisoned (sl_core s) \<noteq> None) in
    map (\<lambda>ro. (ro_operation ro, ro_delivery ro, ro_frame ro \<noteq> None)) (rr_operations rep) =
      map (\<lambda>r. (rec_id r, if broken \<and> rec_id r \<in> front_operations (sl_core s) then PossiblySent else rec_delivery r,
        rec_write_held r)) rs \<and>
    (broken \<longrightarrow> sl_state s = Failed OwnerCore) \<and>
    rr_unmatched_writes rep = [] \<and> rr_epoch rep = slot_epoch s \<and> rr_reason rep = reason \<and>
    rr_ownership_diverged rep = (broken \<or> sl_transport_contract_diverged s) \<and>
    rr_outcomes rep = items (sv_outcomes S) (sl_outcomes s) \<and>
    rr_events rep = items (sv_events S) (sl_lifecycle s) @ items (sv_events S) (sl_recovery_events s) \<and>
    distinct (map eo_operation (sh_delivered H @ rr_outcomes rep) @ map ro_operation (rr_operations rep)) \<and>
    set (sh_accepted H) = set (map eo_operation (sh_delivered H @ rr_outcomes rep) @ map ro_operation (rr_operations rep))"
proof -
  obtain c where books: "slot_books S V H (s\<lparr>sl_core := c\<rparr>)" and before: "owner_before s c"
    by (rule reachable_owner [OF assms])
  show ?thesis using owner_reports [OF assms(1) books before, of reason False] by (simp only: slot_recover_def simp_thms)
qed

theorem slot_recovers_everything_witness:
  "map ro_operation (rr_operations (slot_recover demo_services OwnerInvariant slot_unbounded)) @
   map eo_operation (rr_outcomes (slot_recover demo_services OwnerInvariant slot_unbounded)) = [0] \<and>
   map (\<lambda>ro. (ro_operation ro, ro_delivery ro, ro_frame ro \<noteq> None))
     (rr_operations (slot_recover demo_services OwnerCore slot_lost)) = [(0, PossiblySent, True)] \<and>
   rr_ownership_diverged (slot_recover demo_services OwnerCore slot_lost)"
proof -
  have s: "sl_state slot_unbounded = Failed OwnerInvariant" "sh_delivered (slot_demo_history [] [0] []) = []"
    "sh_accepted (slot_demo_history [] [0] []) = [0]" by code_simp+
  have one: "xs = [0]" if "distinct xs" "set xs = {0}" for xs :: "OperationId list"
    using that by (cases xs; cases "tl xs") auto
  let ?r = "slot_recover demo_services OwnerInvariant slot_unbounded"
  note w = slot_recovers_everything [OF demo_services_ok demo_transport_wf slot_unbounded_reachable, of OwnerInvariant,
      unfolded Let_def s(2,3) append_Nil]
  have "distinct (map eo_operation (rr_outcomes ?r) @ map ro_operation (rr_operations ?r))"
    "set [0] = set (map eo_operation (rr_outcomes ?r) @ map ro_operation (rr_operations ?r))"
    using w by blast+
  then have "map ro_operation (rr_operations ?r) @ map eo_operation (rr_outcomes ?r) = [0]" by (intro one) auto
  moreover have "core_poisoned (sl_core slot_lost) \<noteq> None" "front_operations (sl_core slot_lost) = {0}"
    "map (\<lambda>r. (rec_id r, rec_write_held r)) (live_records (pending (core_machine (sl_core slot_lost)))) = [(0, True)]"
    by code_simp+
  then have "map (\<lambda>ro. (ro_operation ro, ro_delivery ro, ro_frame ro \<noteq> None))
      (rr_operations (slot_recover demo_services OwnerCore slot_lost)) = [(0, PossiblySent, True)]"
    "rr_ownership_diverged (slot_recover demo_services OwnerCore slot_lost)"
    using slot_recovers_everything [OF demo_services_ok overreporting_wf slot_lost_reachable, of OwnerCore]
    by (auto simp: Let_def map_eq_Cons_conv)
  ultimately show ?thesis by blast
qed

section \<open>A finalization the slot cannot bound\<close>

text \<open>
  Finalizing an open slot with the reason \<open>Drained\<close>, without a drain having been begun, reports a
  missing shutdown deadline and fails the whole slot.
\<close>

lemma finalize_drained_fails:
  "isl (fst (slot_finalize demo_services Drained slot_written))" "sl_state slot_unbounded = Failed OwnerInvariant"
  "sl_close_request slot_unbounded = Some DirAbort"
  by code_simp+

section \<open>A write report beyond the slice\<close>

text \<open>
  The slot offers at most a chunk of the front frame, but the owner compares the reported count with
  the rest of the whole frame. A transport that claims three bytes of a slice of two completes the
  three-byte frame, and neither the slot nor the owner reports a fault.
\<close>

definition slot_small_chunks :: demo_slot where
  "slot_small_chunks = slot_committed\<lparr>sl_limits := demo_slot_limits\<lparr>sl_io := \<lparr>io_operations_limit = 1, io_chunk_limit = 2\<rparr>\<rparr>\<rparr>"

lemma overreported_write_accepted:
  "\<not> isl (fst (drive_write_once demo_services overreporting_transport slot_small_chunks True))"
  "wq_frames (core_writes (sl_core (fst (snd (drive_write_once demo_services overreporting_transport slot_small_chunks True))))) = []"
  "core_poisoned (sl_core (fst (snd (drive_write_once demo_services overreporting_transport slot_small_chunks True)))) = None"
  by code_simp+

end
