(* ===== verification/SetTheorems.thy ===== *)
theory SetTheorems
  imports SetScenario SlotTheorems
begin

text \<open>
  The properties of a connection set: for every sequence of connects, direct calls, commands, polls
  and turns, for every transport, selector and mailbox.
\<close>

section \<open>What the invariant gives\<close>

lemma reachable_ok:
  assumes "env_ok E V U" "set_reachable E (cs, G)"
  shows "set_ok E U (\<lambda>w. slot_ok E V (G w)) cs" "tv_capacity U (cs_resources cs) = stl_max_connections (cs_limits cs)"
  using set_reachable_inv [OF assms] by (simp_all add: set_inv_def)

lemma live_owner:
  assumes "env_ok E V U" "set_reachable E (cs, G)" "live_entry E cs w = Some (i, e)"
  obtains c where "services_ok (en_services E) V" "slot_books (en_services E) V (G w) ((ce_slot e)\<lparr>sl_core := c\<rparr>)"
    "owner_before (ce_slot e) c"
  using slot_okD(1,3) [OF set_okD(4) [OF reachable_ok(1) [OF assms(1,2)] assms(3)]] holds_owner by blast

lemma gone_entry: "live_entry E cs (ct_resource c) = None \<Longrightarrow> set_entry E c cs = Inl AccessStale"
  by (simp add: set_entry_Inl)

text \<open>The connection of the run, before and after the selector has failed.\<close>

definition demo_live :: "demo_set \<Rightarrow> demo_entry" where
  "demo_live cs = snd (the (live_entry demo_env cs 0))"

lemma demo_live_entry:
  "live_entry demo_env set_committed 0 = Some (cfg_identity demo_config, demo_live set_committed)"
  "live_entry demo_env set_stopped 0 = Some (cfg_identity demo_config, demo_live set_stopped)"
proof -
  have some: "x = Some (i, snd (the x))" if "map_option fst x = Some i" for x :: "('x \<times> 'y) option" and i
    using that by auto
  have ids: "map_option fst (live_entry demo_env set_committed 0) = Some (cfg_identity demo_config)"
    "map_option fst (live_entry demo_env set_stopped 0) = Some (cfg_identity demo_config)" by code_simp+
  show "live_entry demo_env set_committed 0 = Some (cfg_identity demo_config, demo_live set_committed)"
    "live_entry demo_env set_stopped 0 = Some (cfg_identity demo_config, demo_live set_stopped)"
    unfolding demo_live_def by (rule some [OF ids(1)] some [OF ids(2)])+
qed

lemma demo_live_state: "sl_state (ce_slot (demo_live set_committed)) = Running"
  "sl_state (ce_slot (demo_live set_stopped)) = Failed OwnerReadiness"
  by code_simp+

lemma demo_accepted: "sh_accepted (demo_histories [] [0] 0) = [0]" "sh_delivered (demo_histories [] [0] 0) = []"
  by (simp_all add: demo_histories_def slot_demo_history_def)

section \<open>Every connection of a set\<close>

text \<open>
  C12. Each connection of a set refines an aggregate owner of its own: whatever is done to the set, there is
  a run of the owner whose core is the core of that connection, with the permits its callers hold, the
  operations accepted from them, and the outcomes they were handed or still have to take. Turns,
  commands of the mailbox, the shared selector and the other connections add nothing to it. If the
  connection failed because its transport claimed more bytes than the front frame had left, it is the
  run up to that claim: the policy half of the core is still that of the run, the core is poisoned, and
  only the front frame is marked as started and the journal left armed.
\<close>

theorem set_refines_owners:
  assumes "env_ok E V U" "set_reachable E (cs, G)" "live_entry E cs w = Some (i, e)"
  shows "\<exists>h. sys_reachable (sv_externals (en_services E)) h \<and>
    core_machine (sys_core h) = core_machine (sl_core (ce_slot e)) \<and>
    (sys_core h = sl_core (ce_slot e) \<or>
     sl_state (ce_slot e) = Failed OwnerCore \<and> broken_core (sys_core h) (sl_core (ce_slot e))) \<and>
    sys_permits h = sh_permits (G w) \<and> sys_accepted h = sh_accepted (G w) \<and>
    sys_published h = map outcome_entry (all_outcomes (en_services E) (G w) (ce_slot e)) \<and>
    sys_replies h = outcome_replies (all_outcomes (en_services E) (G w) (ce_slot e))"
proof -
  obtain c where c: "services_ok (en_services E) V" "slot_books (en_services E) V (G w) ((ce_slot e)\<lparr>sl_core := c\<rparr>)"
    "owner_before (ce_slot e) c" by (rule live_owner [OF assms])
  obtain h where h: "sys_reachable (sv_externals (en_services E)) h" "sys_core h = sl_core ((ce_slot e)\<lparr>sl_core := c\<rparr>)"
    "sys_permits h = sh_permits (G w)"
    "sys_accepted h = sh_accepted (G w)"
    "sys_published h = map outcome_entry (all_outcomes (en_services E) (G w) ((ce_slot e)\<lparr>sl_core := c\<rparr>))"
    "sys_replies h = outcome_replies (all_outcomes (en_services E) (G w) ((ce_slot e)\<lparr>sl_core := c\<rparr>))"
    by (rule books_owner [OF c(1,2)])
  then show ?thesis
    using c(3) owner_before_machine [OF c(3)] by (intro exI [of _ h]) (simp add: owner_before_def all_outcomes_def)
qed

theorem set_refines_owners_witness:
  "\<exists>h :: (OutboundFrame, nat \<times> nat, byte list) system. sys_reachable CX h \<and>
     sys_core h = sl_core (ce_slot (demo_live set_stopped)) \<and> sys_accepted h = [0]"
proof -
  have "sl_state (ce_slot (demo_live set_stopped)) \<noteq> Failed OwnerCore" "sv_externals (en_services demo_env) = CX"
    by (simp_all add: demo_live_state demo_env_def demo_services_def)
  then show ?thesis
    using set_refines_owners [OF demo_env_ok set_stopped_reachable demo_live_entry(2)] demo_accepted by metis
qed

text \<open>
  Every operation a connection of a set accepted has exactly one outcome, handed out or waiting in
  the batch of that connection, or the connection still owns it. This holds also after the
  selector has failed and every connection with it.
\<close>

theorem set_outcomes_once:
  assumes "env_ok E V U" "set_reachable E (cs, G)" "live_entry E cs w = Some (i, e)"
  shows "let os = sh_delivered (G w) @ items (sv_outcomes (en_services E)) (sl_outcomes (ce_slot e));
             live = live_ids (pending (core_machine (sl_core (ce_slot e))))
         in distinct (map eo_operation os) \<and> set (sh_accepted (G w)) = eo_operation ` set os \<union> set live \<and>
            eo_operation ` set os \<inter> set live = {} \<and> (\<forall>o' \<in> set os. eo_epoch o' = slot_epoch (ce_slot e))"
  by (rule live_owner [OF assms], rule owner_once)

theorem set_outcomes_once_witness:
  "set (map eo_operation (items (sv_outcomes demo_services) (sl_outcomes (ce_slot (demo_live set_stopped)))) @
     live_ids (pending (core_machine (sl_core (ce_slot (demo_live set_stopped)))))) = {0}"
proof -
  have "en_services demo_env = demo_services" by (simp add: demo_env_def)
  then show ?thesis
    using set_outcomes_once [OF demo_env_ok set_stopped_reachable demo_live_entry(2)] demo_accepted by (simp add: Let_def)
qed

section \<open>The ready queue\<close>

text \<open>
  C13. The ready queue of a set names exactly the live connections marked as queued, each once, so it never
  holds more entries than the set may have connections.
\<close>

theorem set_ready_queue:
  assumes "env_ok E V U" "set_reachable E (cs, G)"
  shows "distinct (cs_ready cs) \<and>
    set (cs_ready cs) = {w. \<exists>i e. live_entry E cs w = Some (i, e) \<and> ce_ready_queued e} \<and>
    length (cs_ready cs) \<le> length (rt_tokens (en_table E) (cs_resources cs)) \<and>
    length (rt_tokens (en_table E) (cs_resources cs)) \<le> stl_max_connections (cs_limits cs)"
proof -
  note ok = reachable_ok [OF assms]
  note t = table_lawsD(1-3) [OF set_okD(1,2) [OF ok(1)]]
  have q: "distinct (cs_ready cs)" "set (cs_ready cs) = {w. \<exists>i e. live_entry E cs w = Some (i, e) \<and> ce_ready_queued e}"
    using set_okD(3) [OF ok(1)] by (auto simp: queue_exact_def)
  then have "set (cs_ready cs) \<subseteq> set (rt_tokens (en_table E) (cs_resources cs))" using t(3) by (auto simp: live_entry_def)
  then have "length (cs_ready cs) \<le> length (rt_tokens (en_table E) (cs_resources cs))"
    using card_mono [OF finite_set] distinct_card [OF q(1)] distinct_card [OF t(1)] by metis
  with q t(2) ok(2) show ?thesis by simp
qed

theorem set_ready_queue_witness:
  "cs_ready set_committed = [0] \<and> ce_ready_queued (demo_live set_committed) \<and> length (cs_ready set_committed) \<le> 2"
proof -
  have "cs_ready set_committed = [0]" "stl_max_connections (cs_limits set_committed) = 2" by code_simp+
  moreover note queue = set_ready_queue [OF demo_env_ok set_committed_reachable]
  moreover have "0 \<in> {w. \<exists>i e. live_entry demo_env set_committed w = Some (i, e) \<and> ce_ready_queued e}"
    using queue calculation(1) by (metis list.set_intros(1))
  ultimately show ?thesis using demo_live_entry(1) by simp
qed

text \<open>
  C17. The ready rounds of a turn are first in, first out and fair. They start from the queue as the
  commands of the turn, the readiness reports and due deadlines have left it, and take at most the
  configured number \<open>n\<close> of connections from its front. Those that ask for more go back to its end, in the
  order they were served: the queue before, followed by what was put back, is what was served, followed by
  the queue after. A turn without an error serves \<open>n\<close> connections or empties the queue, so the first \<open>n\<close> of
  the queue come first. After an error of a transport the same law holds, with the failed connection served
  last and not put back; only a failure of the selector empties the queue. Connections that were not served
  keep slot and transport.
\<close>

theorem set_rounds_fair:
  assumes env: "env_ok E V U" and reach: "set_reachable E (cs, G)" and run: "cs_owner_failure cs = None"
    and prelude: "drive_commands E cs = (commands, cs1)" "ingest_poll_batches E cs1 = (Inr polled, cs2)"
  shows "\<exists>r cs' served again. turn_component E now cs = Some (r, cs') \<and>
    (let mid = enqueue_candidates E now cs2; n = stl_ready_connections_per_turn (cs_limits cs) in
     length served \<le> n \<and>
     (if cs_owner_failure cs' = cs_owner_failure mid
      then cs_ready mid @ again = served @ cs_ready cs' \<and> (\<forall>w. w \<notin> set served \<longrightarrow> live_entry E cs' w = live_entry E mid w)
      else isl r \<and> cs_ready cs' = []) \<and>
     (case r of
        Inr _ \<Rightarrow> subseq again served \<and> prefix (take n (cs_ready mid)) served \<and> (length served = n \<or> cs_ready cs' = [])
      | Inl e \<Rightarrow> (cs_owner_failure cs' \<noteq> None \<or> adapter_fault e) \<and> served \<noteq> [] \<and> subseq again (butlast served)))"
proof -
  let ?mid = "enqueue_candidates E now cs2" and ?n = "stl_ready_connections_per_turn (cs_limits cs)"
  let ?ok = "\<lambda>w. slot_ok E V (G w)"
  obtain r driven cs' served again where turn: "turn_component E now cs = Some (r, cs')"
    and r: "isl r = isl driven" "\<forall>e. r = Inl e \<longrightarrow> driven = Inl e"
    and kept: "set_kept E U ?ok (set served) ?mid cs'" "set_ok E U ?ok ?mid"
    and res: "round_result ?n served again ?mid driven cs'"
    using connections.turn_serves [OF reachable_ok(1) [OF env reach] run prelude, of now] by blast
  have others: "live_entry E cs' w = live_entry E ?mid w" if "cs_owner_failure cs' = cs_owner_failure ?mid" "w \<notin> set served" for w
    by (rule set_keptD(6) [OF kept that])
  have "case r of
      Inr _ \<Rightarrow> subseq again served \<and> prefix (take ?n (cs_ready ?mid)) served \<and> (length served = ?n \<or> cs_ready cs' = [])
    | Inl e \<Rightarrow> (cs_owner_failure cs' \<noteq> None \<or> adapter_fault e) \<and> served \<noteq> [] \<and> subseq again (butlast served)"
    using res r round_result_prefix [of ?n served again ?mid _ cs']
    by (cases r; cases driven) (auto simp: round_result_def)
  with turn res r(1) others show ?thesis
    by (intro exI [of _ r] exI [of _ cs'] exI [of _ served] exI [of _ again]) (simp add: round_result_def Let_def)
qed

theorem set_rounds_fair_witness:
  "\<exists>r cs' served. turn_component demo_env 1 set_committed = Some (r, cs') \<and> length served \<le> 1 \<and> (\<not> isl r \<longrightarrow> served = [0 :: nat])"
proof -
  let ?cs1 = "snd (drive_commands demo_env set_committed)"
  let ?cs2 = "snd (ingest_poll_batches demo_env ?cs1)"
  have s: "cs_owner_failure set_committed = None" "\<not> isl (fst (ingest_poll_batches demo_env ?cs1))"
    "cs_ready (enqueue_candidates demo_env 1 ?cs2) = [0]" "stl_ready_connections_per_turn (cs_limits set_committed) = 1"
    by code_simp+
  then obtain polled where polled: "ingest_poll_batches demo_env ?cs1 = (Inr polled, ?cs2)"
    by (cases "ingest_poll_batches demo_env ?cs1"; cases "fst (ingest_poll_batches demo_env ?cs1)") auto
  have one: "xs = [0]" if "prefix [0] xs" "length xs \<le> 1" for xs :: "nat list" using that by (cases xs) auto
  obtain r cs' served again where turn: "turn_component demo_env 1 set_committed = Some (r, cs')" "length served \<le> 1"
    and fair: "case r of
      Inr _ \<Rightarrow> subseq again served \<and> prefix (take 1 [0 :: nat]) served \<and> (length served = 1 \<or> cs_ready cs' = [])
    | Inl e \<Rightarrow> (cs_owner_failure cs' \<noteq> None \<or> adapter_fault e) \<and> served \<noteq> [] \<and> subseq again (butlast served)"
    using set_rounds_fair [OF demo_env_ok set_committed_reachable s(1) surjective_pairing polled, of 1]
    unfolding s(3,4) Let_def by (elim exE conjE) (rule that)
  have "served = [0]" if "\<not> isl r" using fair that one turn(2) by (cases r) simp_all
  with turn show ?thesis by blast
qed

section \<open>Turns and the selector\<close>

text \<open>
  C16. A turn of a set always returns, and the set stays reachable. It reports an error only when the
  selector failed, for the whole set, or when a transport broke its contract.
\<close>

theorem set_turn_returns:
  assumes "env_ok E V U" "set_reachable E (cs, G)"
  shows "\<exists>r cs'. turn_component E now cs = Some (r, cs') \<and> set_reachable E (cs', G) \<and>
    (\<forall>e. r = Inl e \<longrightarrow> cs_owner_failure cs' \<noteq> None \<or> adapter_fault e)"
proof -
  obtain r cs' where "turn_component E now cs = Some (r, cs')" "\<forall>e. r = Inl e \<longrightarrow> cs_owner_failure cs' \<noteq> None \<or> adapter_fault e"
    using connections.turn_returns [OF reachable_ok(1) [OF assms], of now] by blast
  with set_reachable_step [OF assms(2) set_step.turned] show ?thesis by blast
qed

theorem set_turn_returns_witness:
  "\<exists>r cs'. turn_component demo_env 1 set_committed = Some (r, cs') \<and> set_reachable demo_env (cs', demo_histories [] [0])"
  using set_turn_returns [OF demo_env_ok set_committed_reachable, of 1] by blast

text \<open>
  C15. A failure of the selector stops the whole set for good: no connection is left running, the set takes
  no new connection, no poll, no turn and no producer, and no later call takes the failure back.
\<close>

theorem selector_failure_stops_set:
  assumes env: "env_ok E V U" and reach: "set_reachable E (cs, G)" and failed: "cs_owner_failure cs = Some reason"
    and run: "set_run E (cs, G) (cs', G')"
  shows "cs_owner_failure cs' = Some reason \<and>
    (\<forall>w i e. live_entry E cs' w = Some (i, e) \<longrightarrow> sl_state (ce_slot e) \<noteq> Running) \<and>
    turn_component E now cs' = Some (Inl (EngOwnerFailed reason), cs') \<and>
    poll_io E maximum cs' = (Inl (EngOwnerFailed reason), cs') \<and>
    connect_with E ref config limits decoder classifier connector cs' = (Inl (ConnectOwnerFailed reason), cs') \<and>
    set_port E c cs' = Inl (AccessOwner (EngOwnerFailed reason))"
proof -
  have later: "cs_owner_failure cs' = Some reason"
    using set_effectD(5) [OF run_effect [OF run env set_reachable_inv [OF env reach]]] failed by simp
  have "set_reachable E (cs', G')" using reach run unfolding set_reachable_def set_run_def by (meson rtranclp_trans)
  from set_okD(5) [OF reachable_ok(1) [OF env this]] later show ?thesis
    by (auto simp: turn_component_def poll_io_def poll_selector_def ensure_owner_running_def connect_with_def set_port_def)
qed

theorem selector_failure_stops_set_witness:
  "cs_owner_failure set_stopped = Some OwnerReadiness \<and>
   turn_component demo_env 1 set_stopped = Some (Inl (EngOwnerFailed OwnerReadiness), set_stopped) \<and>
   set_port demo_env demo_token set_stopped = Inl (AccessOwner (EngOwnerFailed OwnerReadiness))"
proof -
  have failed: "cs_owner_failure set_stopped = Some OwnerReadiness" by code_simp
  have "set_run demo_env (set_stopped, demo_histories [] [0]) (set_stopped, demo_histories [] [0])" by (simp add: set_run_def)
  from selector_failure_stops_set [OF demo_env_ok set_stopped_reachable failed this] failed show ?thesis by blast
qed

section \<open>Tokens\<close>

text \<open>
  C14. A token outlives its connection without harm: once the connection is gone, no later call makes the
  token name a connection again, and every call with it reports a stale token, hands back the permit and
  the frame where it took one, and leaves the set as it is.
\<close>

theorem gone_token_fenced:
  assumes env: "env_ok E V U" and reach: "set_reachable E (cs, G)"
    and gone: "ct_resource c \<in> tv_issued U (cs_resources cs)" "live_entry E cs (ct_resource c) = None"
    and run: "set_run E (cs, G) (cs', G')"
  shows "set_entry E c cs' = Inl AccessStale \<and> set_reserve E c now options cs' = (Inl ReserveStale, cs') \<and>
    fst (set_commit E c p frame cs') = Inl (CommitStale p frame) \<and> snd (set_commit E c p frame cs') = cs' \<and>
    set_open_admission E c cs' = (Inl AccessStale, cs') \<and> set_cancel E c i cs' = (Inl AccessStale, cs') \<and>
    set_begin_drain E c deadline cs' = (Inl AccessStale, cs') \<and> set_finalize E c reason cs' = (Inl AccessStale, cs') \<and>
    set_drain_outcomes E c cs' = (Inl AccessStale, cs') \<and> set_drain_events E c cs' = (Inl AccessStale, cs') \<and>
    set_retire E c cs' = (Inl RetireStale, cs') \<and> set_try_recover E c cs' = (Inl RecoveryStale, cs') \<and>
    set_abandon E c failure cs' = (Inl RecoveryStale, cs')"
proof -
  have "live_entry E cs' (ct_resource c) = None"
    using set_effectD(4) [OF run_effect [OF run env set_reachable_inv [OF env reach]], of "ct_resource c"] gone by auto
  then have entry: "set_entry E c cs' = Inl AccessStale" "rt_get (en_table E) (ct_resource c) (cs_resources cs') = None"
    by (simp_all add: gone_entry live_entry_def)
  show ?thesis
    by (simp add: entry set_reserve_def set_commit_def Let_def enqueue_def settle_connection_def on_entry_def set_open_admission_def
        set_cancel_def set_begin_drain_def set_finalize_def set_drain_outcomes_def set_drain_events_def set_retire_def
        set_try_recover_def set_abandon_def)
qed

theorem gone_token_fenced_witness:
  "set_entry demo_env demo_token set_abandoned = Inl AccessStale \<and>
   set_reserve demo_env demo_token 0 demo_options set_abandoned = (Inl ReserveStale, set_abandoned)"
proof -
  have "live_entry demo_env set_abandoned (ct_resource demo_token) = None \<or> False" by code_simp
  then have gone: "live_entry demo_env set_abandoned (ct_resource demo_token) = None" by simp
  have "fst (snd (cs_resources set_abandoned)) = 1" by code_simp
  then have issued: "ct_resource demo_token \<in> tv_issued list_table_view (cs_resources set_abandoned)"
    by (simp add: list_table_view_def demo_token_def case_prod_unfold)
  have "set_run demo_env (set_abandoned, demo_histories [] [0]) (set_abandoned, demo_histories [] [0])" by (simp add: set_run_def)
  from gone_token_fenced [OF demo_env_ok set_abandoned_reachable issued gone this] show ?thesis by blast
qed

text \<open>
  C18. A call that names one connection changes that connection only: as long as the selector does not fail
  in it, every other connection keeps its slot, its transport and its place, and its callers are told
  nothing.
\<close>

theorem set_calls_isolated:
  assumes env: "env_ok E V U" and reach: "set_reachable E (cs, G)" and step: "set_step E W (cs, G) (cs', G')"
    and calm: "cs_owner_failure cs' = cs_owner_failure cs" and other: "live_entry E cs v = Some entry" "v \<notin> W"
  shows "live_entry E cs' v = Some entry \<and> G' v = G v"
proof -
  note ok = reachable_ok(1) [OF env reach]
  have issued: "v \<in> tv_issued U (cs_resources cs)" using live_issued [OF ok, of v] other(1) by simp
  have "set_effect E U W cs cs'" using step_kept [OF ok env step] by (simp add: step_keeps_def)
  then have "live_entry E cs' v = live_entry E cs v" by (rule set_effectD(6) [OF _ calm issued other(2)])
  moreover have "G' v = G v"
    using step
  proof cases
    case (connected connection io decoding transport publication limits ref config decoder classifier connector r)
    have new: "slot_ok E V new_history s" if "slot_new (en_services E) ref (cc_slot config) limits decoder classifier = Inr s" for s
      by (rule new_slot_ok [OF env connected(3-5) that])
    have "v \<noteq> ct_resource c" if "r = Inr c" for c using connect_fresh [OF ok new connected(6) [unfolded that]] issued by blast
    then show ?thesis using connected(2) by (auto split: sum.splits)
  qed (use other(2) in auto)
  ultimately show ?thesis using other(1) by simp
qed

theorem set_calls_isolated_witness:
  "live_entry demo_env set_second 0 = Some (cfg_identity demo_config, demo_live set_committed)"
proof -
  have "cs_owner_failure set_second = cs_owner_failure set_committed" by code_simp
  from set_calls_isolated [OF demo_env_ok set_committed_reachable set_second_step this demo_live_entry(1)]
  show ?thesis by simp
qed

text \<open>
  C19. Connecting is all or nothing: it yields a token that was never issued before and that names the new
  connection with its identity, or an error and the connections that were there before, none added and
  none lost. Unless the selector failed in it these are exactly as they were; if the selector failed
  while the attempt was undone, they are all there with their identities and none is running.
\<close>

theorem set_connect_atomic:
  assumes env: "env_ok E V U" and reach: "set_reachable E (cs, G)"
    and limits: "limits_ok connection" "io_operations_limit io \<le> USIZE_MAX"
      "slot_limits_new connection decoding io transport publication = Inr limits"
    and out: "connect_with E ref config limits decoder classifier connector cs = (r, cs')"
  shows "case r of
      Inr c \<Rightarrow> ct_resource c \<notin> tv_issued U (cs_resources cs) \<and> ct_identity c = cfg_identity (cc_slot config) \<and>
        map_option fst (live_entry E cs' (ct_resource c)) = Some (ct_identity c)
    | Inl _ \<Rightarrow> (\<forall>w. map_option fst (live_entry E cs' w) = map_option fst (live_entry E cs w)) \<and>
        (if cs_owner_failure cs' = cs_owner_failure cs then live_entry E cs' = live_entry E cs
         else \<forall>w i e. live_entry E cs' w = Some (i, e) \<longrightarrow> sl_state (ce_slot e) \<noteq> Running)"
proof -
  note ok = reachable_ok(1) [OF env reach]
  have new: "slot_ok E V new_history s" if "slot_new (en_services E) ref (cc_slot config) limits decoder classifier = Inr s" for s
    by (rule new_slot_ok [OF env limits that])
  note all = connect_outcome [OF ok new out]
  have res: "connect_result E U (cfg_identity (cc_slot config)) cs r cs'" using all by blast
  then have effect: "set_effect E U {} cs cs'" by (simp add: connect_result_def)
  have "live_entry E cs' w = live_entry E cs w"
    if "r = Inl err" "cs_owner_failure cs' = cs_owner_failure cs" for err w
  proof (cases "w \<in> tv_issued U (cs_resources cs)")
    case True
    then show ?thesis using set_effectD(6) [OF effect that(2)] by simp
  next
    case False
    then have "live_entry E cs w = None" using live_issued [OF ok, of w] by blast
    moreover have "map_option fst (live_entry E cs' w) = map_option fst (live_entry E cs w)"
      using res that(1) by (simp add: connect_result_def)
    ultimately show ?thesis by simp
  qed
  then have same: "live_entry E cs' = live_entry E cs" if "r = Inl err" "cs_owner_failure cs' = cs_owner_failure cs" for err
    using that by blast
  have ids: "map_option fst (live_entry E cs' w) = map_option fst (live_entry E cs w)" if "r = Inl err" for w err
    using res that by (simp add: connect_result_def)
  have stopped: "sl_state (ce_slot e) \<noteq> Running"
    if "r = Inl err" "cs_owner_failure cs' \<noteq> cs_owner_failure cs" "live_entry E cs' w = Some (i, e)" for err w i e
  proof -
    have "cs_owner_failure cs' \<noteq> None" using set_effectD(5) [OF effect] that(2) by metis
    moreover have "set_ok E U (\<lambda>w. slot_ok E V (G w)) cs'" using all that(1) by (simp add: step_keeps_def)
    ultimately show ?thesis by (intro set_okD(5) [OF _ that(3)])
  qed
  show ?thesis
  proof (cases r)
    case (Inl err)
    then show ?thesis using same [OF Inl] ids [OF Inl] stopped [OF Inl] by simp
  next
    case (Inr c)
    then show ?thesis using res by (simp add: connect_result_def)
  qed
qed

theorem set_connect_atomic_witness:
  "map_option fst (live_entry demo_env set_connected 0) = Some (cfg_identity demo_config)"
  using set_connect_atomic [OF demo_env_ok set_empty_reachable demo_limits_ok _ demo_limits_new set_connected_by]
  by (simp add: USIZE_MAX_def demo_token_def)

section \<open>Recovery of one connection\<close>

text \<open>
  What a report accounts for, of a slot and what its callers have been handed: the operations without
  an outcome in wire order, with recorded certainty and frame, undrained outcomes and events, and every
  accepted operation once. Of a poisoned owner the operation at the front counts as possibly sent.
\<close>

definition hands_over ::
  "('g, 'd, 'r, 'e, 'c, 'q, 'k, 'o, 'l) services \<Rightarrow> 'r slot_history \<Rightarrow> ('g, 'd, 'c, 'q, 'k, 'o, 'l) ConnectionSlot \<Rightarrow>
   OwnerFailure \<Rightarrow> (OutboundFrame, 'r) RecoveryReport \<Rightarrow> bool" where
  "hands_over S H s reason rep \<longleftrightarrow>
     (let broken = (core_poisoned (sl_core s) \<noteq> None) in
      map (\<lambda>ro. (ro_operation ro, ro_delivery ro, ro_frame ro \<noteq> None)) (rr_operations rep) =
        map (\<lambda>r. (rec_id r, if broken \<and> rec_id r \<in> front_operations (sl_core s) then PossiblySent else rec_delivery r,
          rec_write_held r)) (live_records (pending (core_machine (sl_core s)))) \<and>
      (broken \<longrightarrow> sl_state s = Failed OwnerCore \<and> rr_ownership_diverged rep) \<and>
      rr_unmatched_writes rep = [] \<and> rr_epoch rep = slot_epoch s \<and> rr_reason rep = reason \<and>
      rr_outcomes rep = items (sv_outcomes S) (sl_outcomes s) \<and>
      rr_events rep = items (sv_events S) (sl_lifecycle s) @ items (sv_events S) (sl_recovery_events s) \<and>
      distinct (map eo_operation (sh_delivered H @ rr_outcomes rep) @ map ro_operation (rr_operations rep)) \<and>
      set (sh_accepted H) = set (map eo_operation (sh_delivered H @ rr_outcomes rep) @ map ro_operation (rr_operations rep)))"

lemma recovery_hands_over:
  assumes env: "env_ok E V U" and reach: "set_reachable E (cs, G)"
    and e: "live_entry E cs (ct_resource c) = Some (ct_identity c, e)" and out: "recover_connection E c reason cs = (r, cs')"
  obtains rep where "r = Inr rep" "hands_over (en_services E) (G (ct_resource c)) (ce_slot e) reason rep"
    "live_entry E cs' (ct_resource c) = None"
proof -
  note rec = connections.recover_ok [OF reachable_ok(1) [OF env reach] e out]
  obtain s flag where s: "r = Inr (fst (slot_recover_owned (en_services E) reason flag s))"
    "holdings s = holdings (ce_slot e)" using rec(4) by blast
  obtain c' where c': "services_ok (en_services E) V" "slot_books (en_services E) V (G (ct_resource c)) ((ce_slot e)\<lparr>sl_core := c'\<rparr>)"
    "owner_before (ce_slot e) c'" by (rule live_owner [OF env reach e])
  have core: "sl_core s = sl_core (ce_slot e)" "sl_outcomes s = sl_outcomes (ce_slot e)" "sl_lifecycle s = sl_lifecycle (ce_slot e)"
    "sl_recovery_outcomes s = sl_recovery_outcomes (ce_slot e)" "sl_recovery_events s = sl_recovery_events (ce_slot e)"
    using s(2) by (simp_all add: holdings_def)
  note all = owner_reports [OF c', of reason flag, unfolded Let_def]
  let ?rep = "\<lambda>s. fst (slot_recover_owned (en_services E) reason flag s)"
  have parts: "rr_operations (?rep s) = rr_operations (?rep (ce_slot e))" "rr_unmatched_writes (?rep s) = rr_unmatched_writes (?rep (ce_slot e))"
    "rr_reason (?rep s) = rr_reason (?rep (ce_slot e))" "rr_events (?rep s) = rr_events (?rep (ce_slot e))"
    "rr_outcomes (?rep s) = rr_outcomes (?rep (ce_slot e))" "rr_epoch (?rep s) = rr_epoch (?rep (ce_slot e))"
    "cr_ownership_diverged (fst (core_recover (sv_externals (en_services E)) (sl_core (ce_slot e)))) \<Longrightarrow> rr_ownership_diverged (?rep s)"
    by (simp_all add: slot_recover_owned_def core Let_def case_prod_unfold)
  have "rr_ownership_diverged (?rep s)" if "core_poisoned (sl_core (ce_slot e)) \<noteq> None"
    using owner_recovers [OF services_okD(1) [OF c'(1)] owner_ok [OF c'(1,2)], of "sl_core (ce_slot e)"] c'(3) that
    by (intro parts(7)) (auto simp: owner_before_def)
  then have "hands_over (en_services E) (G (ct_resource c)) (ce_slot e) reason (?rep s)"
    using all unfolding hands_over_def Let_def parts(1-6) by blast
  then show ?thesis by (rule that [OF s(1) _ rec(3)])
qed

text \<open>
  C20. Recovering or abandoning a connection of a set accounts for everything it owned: each
  operation its callers ever had accepted is among the outcomes they took, the outcomes of the
  report or the operations of the report, and there once; frames not yet written come back with their
  operation, lifecycle events not yet taken come back in order. The token is stale from then on.
  Abandoning does so for any connection, for the reason it failed with or else the requested one;
  recovering does so for a failed connection, and refuses a running one without changing the set.
\<close>

theorem set_recovers_everything:
  assumes env: "env_ok E V U" and reach: "set_reachable E (cs, G)"
    and e: "live_entry E cs (ct_resource c) = Some (ct_identity c, e)"
    and abandoned: "set_abandon E c requested cs = (r, cs')" and recovered: "set_try_recover E c cs = (q, cs'')"
  shows "(\<exists>rep. r = Inr rep \<and> live_entry E cs' (ct_resource c) = None \<and>
      hands_over (en_services E) (G (ct_resource c)) (ce_slot e)
        (case sl_state (ce_slot e) of Running \<Rightarrow> requested | Failed reason \<Rightarrow> reason) rep) \<and>
    (case sl_state (ce_slot e) of
       Running \<Rightarrow> q = Inl RecoveryOwnerRunning \<and> cs'' = cs
     | Failed reason \<Rightarrow> (\<exists>rep. q = Inr rep \<and> live_entry E cs'' (ct_resource c) = None \<and>
         hands_over (en_services E) (G (ct_resource c)) (ce_slot e) reason rep))"
proof -
  have entry: "set_entry E c cs = Inr e" by (rule set_entry_Inr [THEN iffD2, OF e])
  have "recover_connection E c (case sl_state (ce_slot e) of Running \<Rightarrow> requested | Failed reason \<Rightarrow> reason) cs = (r, cs')"
    using abandoned by (cases "sl_state (ce_slot e)") (simp_all add: set_abandon_def entry)
  note one = recovery_hands_over [OF env reach e this]
  have two: "recover_connection E c reason cs = (q, cs'')" if "sl_state (ce_slot e) = Failed reason" for reason
    using recovered that by (simp add: set_try_recover_def entry)
  have "\<exists>rep. q = Inr rep \<and> live_entry E cs'' (ct_resource c) = None \<and>
         hands_over (en_services E) (G (ct_resource c)) (ce_slot e) reason rep" if "sl_state (ce_slot e) = Failed reason" for reason
    using recovery_hands_over [OF env reach e two [OF that]] by metis
  moreover have "q = Inl RecoveryOwnerRunning \<and> cs'' = cs" if "sl_state (ce_slot e) = Running"
    using recovered that by (simp add: set_try_recover_def entry)
  ultimately show ?thesis using one by (cases "sl_state (ce_slot e)") (simp, metis, simp, metis)
qed

theorem set_recovers_everything_witness:
  "(\<exists>rep cs'. set_abandon demo_env demo_token OwnerInvariant set_stopped = (Inr rep, cs') \<and> rr_reason rep = OwnerReadiness \<and>
     map eo_operation (rr_outcomes rep) @ map ro_operation (rr_operations rep) = [0]) \<and>
   (\<exists>rep cs'. set_try_recover demo_env demo_token set_stopped = (Inr rep, cs') \<and> rr_reason rep = OwnerReadiness)"
proof -
  have one: "xs = [0]" if "distinct xs" "{0} = set xs" for xs :: "OperationId list"
    using that by (cases xs; cases "tl xs") auto
  obtain r cs' where out: "set_abandon demo_env demo_token OwnerInvariant set_stopped = (r, cs')" by fastforce
  obtain q cs'' where rec: "set_try_recover demo_env demo_token set_stopped = (q, cs'')" by fastforce
  have token: "ct_resource demo_token = 0" "ct_identity demo_token = cfg_identity demo_config" by (simp_all add: demo_token_def)
  have "live_entry demo_env set_stopped (ct_resource demo_token) = Some (ct_identity demo_token, demo_live set_stopped)"
    by (simp only: token demo_live_entry(2))
  note all = set_recovers_everything [OF demo_env_ok set_stopped_reachable this out rec, unfolded token demo_live_state]
  then obtain rep where rep: "r = Inr rep" "rr_reason rep = OwnerReadiness"
    "distinct (map eo_operation (rr_outcomes rep) @ map ro_operation (rr_operations rep))"
    "{0} = set (map eo_operation (rr_outcomes rep) @ map ro_operation (rr_operations rep))"
    unfolding hands_over_def Let_def demo_accepted by auto
  obtain rep' where "q = Inr rep'" "rr_reason rep' = OwnerReadiness"
    using all unfolding hands_over_def Let_def by auto
  with out rec rep(1,2) one [OF rep(3,4)] show ?thesis by simp
qed

end
