(* ===== verification/Standalone.thy ===== *)
theory Standalone
  imports SetAccess
begin

text \<open>
  \<^verbatim>\<open>crates/bornera/src/standalone.rs\<close>, \<^verbatim>\<open>standalone/connect.rs\<close> and the standalone part of \<^verbatim>\<open>recovery.rs\<close>: one
  connection in a set of capacity one, with the errors of the set folded into those of a slot.
\<close>

record ('w, 'y, 'b, 'p, 'm) StandaloneConnection =
  sa_set :: "('w, 'y, 'b, 'p, 'm) ConnectionSet"
  sa_connection :: "'w ConnectionToken"

fun standalone_error :: "ConnectionAccessError \<Rightarrow> EngineError" where
  "standalone_error AccessStale = EngInvariant InvResourceToken"
| "standalone_error (AccessOwner source) = source"

text \<open>A call on the set of a standalone connection with its one token.\<close>

definition on_set ::
  "(('w, 'y, 'b, 'p, 'm) ConnectionSet \<Rightarrow> 'z \<times> ('w, 'y, 'b, 'p, 'm) ConnectionSet) \<Rightarrow>
   ('w, 'y, 'b, 'p, 'm) StandaloneConnection \<Rightarrow> 'z \<times> ('w, 'y, 'b, 'p, 'm) StandaloneConnection" where
  "on_set f sa = (case f (sa_set sa) of (result, cs) \<Rightarrow> (result, sa\<lparr>sa_set := cs\<rparr>))"

definition standalone_connect_with ::
  "('g, 'd, 'r, 'e, 'c, 'q, 'k, 'o, 'l, 't, 'i, 'y, 'w, 'b, 'p, 'm) set_env \<Rightarrow> LedgerRef \<Rightarrow> 'a ConnectionConfig \<Rightarrow>
   ConnectionSlotLimits \<Rightarrow> 'd \<Rightarrow> 'c \<Rightarrow> ('a \<Rightarrow> TransportLimits \<Rightarrow> IoError + 't) \<Rightarrow>
   'e ConnectError + ('w, 'y, 'b, 'p, 'm) StandaloneConnection" where
  "standalone_connect_with E ref config limits decoder classifier connector =
     (case set_new E (set_limits_standalone limits) of
        Inl e \<Rightarrow> Inl (ConnectMio e)
      | Inr cs \<Rightarrow>
          (case connect_with E ref config limits decoder classifier connector cs of
             (Inl e, _) \<Rightarrow> Inl e
           | (Inr token, cs1) \<Rightarrow> Inr \<lparr>sa_set = cs1, sa_connection = token\<rparr>))"

definition standalone_reserve ::
  "('g, 'd, 'r, 'e, 'c, 'q, 'k, 'o, 'l, 't, 'i, 'y, 'w, 'b, 'p, 'm) set_env \<Rightarrow> Moment \<Rightarrow> OperationOptions \<Rightarrow>
   ('w, 'y, 'b, 'p, 'm) StandaloneConnection \<Rightarrow>
   (ReserveError + OperationPermit) \<times> ('w, 'y, 'b, 'p, 'm) StandaloneConnection" where
  "standalone_reserve E now options sa =
     (case on_set (set_reserve E (sa_connection sa) now options) sa of
        (Inr permit, sa1) \<Rightarrow> (Inr permit, sa1)
      | (Inl (ReserveRejected error), sa1) \<Rightarrow> (Inl error, sa1)
      | (Inl ReserveStale, sa1) \<Rightarrow> (Inl OwnerPoisoned, sa1))"

definition standalone_commit ::
  "('g, 'd, 'r, 'e, 'c, 'q, 'k, 'o, 'l, 't, 'i, 'y, 'w, 'b, 'p, 'm) set_env \<Rightarrow> OperationPermit \<Rightarrow> OutboundFrame \<Rightarrow>
   ('w, 'y, 'b, 'p, 'm) StandaloneConnection \<Rightarrow>
   (OutboundFrame EngineCommitError + OperationId) \<times> ('w, 'y, 'b, 'p, 'm) StandaloneConnection" where
  "standalone_commit E permit frame sa =
     (case on_set (set_commit E (sa_connection sa) permit frame) sa of
        (Inr operation, sa1) \<Rightarrow> (Inr operation, sa1)
      | (Inl (CommitConnection error), sa1) \<Rightarrow> (Inl error, sa1)
      | (Inl (CommitStale permit' frame'), sa1) \<Rightarrow> (Inl (CommitOwnerFailed OwnerInvariant permit' frame'), sa1))"

definition standalone_open_admission ::
  "('g, 'd, 'r, 'e, 'c, 'q, 'k, 'o, 'l, 't, 'i, 'y, 'w, 'b, 'p, 'm) set_env \<Rightarrow>
   ('w, 'y, 'b, 'p, 'm) StandaloneConnection \<Rightarrow>
   (EngineError + InputDisposition) \<times> ('w, 'y, 'b, 'p, 'm) StandaloneConnection" where
  "standalone_open_admission E sa =
     apfst (map_sum standalone_error id) (on_set (set_open_admission E (sa_connection sa)) sa)"

definition standalone_cancel ::
  "('g, 'd, 'r, 'e, 'c, 'q, 'k, 'o, 'l, 't, 'i, 'y, 'w, 'b, 'p, 'm) set_env \<Rightarrow> OperationId \<Rightarrow>
   ('w, 'y, 'b, 'p, 'm) StandaloneConnection \<Rightarrow>
   (EngineError + CancelOutcome) \<times> ('w, 'y, 'b, 'p, 'm) StandaloneConnection" where
  "standalone_cancel E operation sa =
     apfst (map_sum standalone_error id) (on_set (set_cancel E (sa_connection sa) operation) sa)"

definition standalone_begin_drain ::
  "('g, 'd, 'r, 'e, 'c, 'q, 'k, 'o, 'l, 't, 'i, 'y, 'w, 'b, 'p, 'm) set_env \<Rightarrow> Deadline \<Rightarrow>
   ('w, 'y, 'b, 'p, 'm) StandaloneConnection \<Rightarrow>
   (EngineError + InputDisposition) \<times> ('w, 'y, 'b, 'p, 'm) StandaloneConnection" where
  "standalone_begin_drain E deadline sa =
     apfst (map_sum standalone_error id) (on_set (set_begin_drain E (sa_connection sa) deadline) sa)"

definition standalone_finalize ::
  "('g, 'd, 'r, 'e, 'c, 'q, 'k, 'o, 'l, 't, 'i, 'y, 'w, 'b, 'p, 'm) set_env \<Rightarrow> CloseReason \<Rightarrow>
   ('w, 'y, 'b, 'p, 'm) StandaloneConnection \<Rightarrow>
   (EngineError + InputDisposition) \<times> ('w, 'y, 'b, 'p, 'm) StandaloneConnection" where
  "standalone_finalize E reason sa =
     apfst (map_sum standalone_error id) (on_set (set_finalize E (sa_connection sa) reason) sa)"

definition standalone_drain_outcomes ::
  "('g, 'd, 'r, 'e, 'c, 'q, 'k, 'o, 'l, 't, 'i, 'y, 'w, 'b, 'p, 'm) set_env \<Rightarrow>
   ('w, 'y, 'b, 'p, 'm) StandaloneConnection \<Rightarrow>
   (EngineError + 'r EngineOutcome list) \<times> ('w, 'y, 'b, 'p, 'm) StandaloneConnection" where
  "standalone_drain_outcomes E sa =
     apfst (map_sum standalone_error id) (on_set (set_drain_outcomes E (sa_connection sa)) sa)"

definition standalone_drain_events ::
  "('g, 'd, 'r, 'e, 'c, 'q, 'k, 'o, 'l, 't, 'i, 'y, 'w, 'b, 'p, 'm) set_env \<Rightarrow>
   ('w, 'y, 'b, 'p, 'm) StandaloneConnection \<Rightarrow>
   (EngineError + ConnectionEvent list) \<times> ('w, 'y, 'b, 'p, 'm) StandaloneConnection" where
  "standalone_drain_events E sa =
     apfst (map_sum standalone_error id) (on_set (set_drain_events E (sa_connection sa)) sa)"

definition standalone_snapshot ::
  "('g, 'd, 'r, 'e, 'c, 'q, 'k, 'o, 'l, 't, 'i, 'y, 'w, 'b, 'p, 'm) set_env \<Rightarrow>
   ('w, 'y, 'b, 'p, 'm) StandaloneConnection \<Rightarrow> EngineError + ConnectionSlotSnapshot" where
  "standalone_snapshot E sa = map_sum standalone_error id (set_connection_snapshot E (sa_connection sa) (sa_set sa))"

definition standalone_is_transport_open ::
  "('g, 'd, 'r, 'e, 'c, 'q, 'k, 'o, 'l, 't, 'i, 'y, 'w, 'b, 'p, 'm) set_env \<Rightarrow>
   ('w, 'y, 'b, 'p, 'm) StandaloneConnection \<Rightarrow> EngineError + bool" where
  "standalone_is_transport_open E sa = map_sum standalone_error id (set_is_transport_open E (sa_connection sa) (sa_set sa))"

definition standalone_ensure_running ::
  "('g, 'd, 'r, 'e, 'c, 'q, 'k, 'o, 'l, 't, 'i, 'y, 'w, 'b, 'p, 'm) set_env \<Rightarrow>
   ('w, 'y, 'b, 'p, 'm) StandaloneConnection \<Rightarrow> EngineError + unit" where
  "standalone_ensure_running E sa =
     (case standalone_snapshot E sa of
        Inl e \<Rightarrow> Inl e
      | Inr snapshot \<Rightarrow>
          (case ss_owner_failure snapshot of None \<Rightarrow> Inr () | Some reason \<Rightarrow> Inl (EngOwnerFailed reason)))"

definition standalone_turn ::
  "('g, 'd, 'r, 'e, 'c, 'q, 'k, 'o, 'l, 't, 'i, 'y, 'w, 'b, 'p, 'm) set_env \<Rightarrow> Moment \<Rightarrow>
   ('w, 'y, 'b, 'p, 'm) StandaloneConnection \<Rightarrow>
   ((EngineError + Turn) \<times> ('w, 'y, 'b, 'p, 'm) StandaloneConnection) option" where
  "standalone_turn E now sa =
     (case standalone_ensure_running E sa of
        Inl e \<Rightarrow> Some (Inl e, sa)
      | Inr _ \<Rightarrow>
          (case turn_component E now (sa_set sa) of
             None \<Rightarrow> None
           | Some (Inl e, cs) \<Rightarrow> Some (Inl e, sa\<lparr>sa_set := cs\<rparr>)
           | Some (Inr turn, cs) \<Rightarrow>
               (let sa1 = sa\<lparr>sa_set := cs\<rparr> in
                case standalone_snapshot E sa1 of
                  Inl e \<Rightarrow> Some (Inl e, sa1)
                | Inr snapshot \<Rightarrow>
                    (case ss_owner_failure snapshot of
                       Some reason \<Rightarrow> Some (Inl (EngOwnerFailed reason), sa1)
                     | None \<Rightarrow>
                         Some (Inr (if ss_transport snapshot = TransportClosed then turn\<lparr>turn_next := NextStop\<rparr> else turn),
                               sa1)))))"

definition standalone_poll_io ::
  "('g, 'd, 'r, 'e, 'c, 'q, 'k, 'o, 'l, 't, 'i, 'y, 'w, 'b, 'p, 'm) set_env \<Rightarrow> Span \<Rightarrow>
   ('w, 'y, 'b, 'p, 'm) StandaloneConnection \<Rightarrow>
   (EngineError + WaitOutcome) \<times> ('w, 'y, 'b, 'p, 'm) StandaloneConnection" where
  "standalone_poll_io E maximum sa =
     (case standalone_ensure_running E sa of
        Inl e \<Rightarrow> (Inl e, sa)
      | Inr _ \<Rightarrow> on_set (poll_io E maximum) sa)"

section \<open>Recovery\<close>

definition empty_diverged :: "ConnectionEpoch \<Rightarrow> OwnerFailure \<Rightarrow> (OutboundFrame, 'r) RecoveryReport" where
  "empty_diverged epoch reason =
     \<lparr>rr_epoch = epoch, rr_reason = reason, rr_operations = [], rr_unmatched_writes = [], rr_outcomes = [],
      rr_events = [], rr_transport_diagnostic = None, rr_transport_pressure = None,
      rr_transport_retained_limit = None, rr_transport_retained_ceiling = None, rr_ownership_diverged = True\<rparr>"

text \<open>Recovery consumes the connection, so only the report is left.\<close>

definition standalone_recover_owned ::
  "('g, 'd, 'r, 'e, 'c, 'q, 'k, 'o, 'l, 't, 'i, 'y, 'w, 'b, 'p, 'm) set_env \<Rightarrow> OwnerFailure \<Rightarrow>
   ('w, 'y, 'b, 'p, 'm) StandaloneConnection \<Rightarrow> (OutboundFrame, 'r) RecoveryReport" where
  "standalone_recover_owned E reason sa =
     (let resource = ct_resource (sa_connection sa); epoch = ci_epoch (ct_identity (sa_connection sa));
          cs = sa_set sa
      in case rt_get (en_table E) resource (cs_resources cs) of
           None \<Rightarrow> empty_diverged epoch reason
         | Some (_, entry) \<Rightarrow>
             (let (cleanup_failed, pressure_failed, entry1) =
                    (case ce_transport entry of
                       None \<Rightarrow> (False, False, entry)
                     | Some t \<Rightarrow>
                         (let (deregistration, t1, _) = mp_deregister (en_poller E) resource t (cs_poller cs);
                              (pressure, s1) = capture_transport_pressure (en_port E) t1 (ce_slot entry)
                          in (isl deregistration, isl pressure, entry\<lparr>ce_slot := s1, ce_transport := Some t1\<rparr>)))
              in case fst (rt_remove (en_table E) resource (rt_put (en_table E) resource entry1 (cs_resources cs))) of
                   None \<Rightarrow> empty_diverged epoch reason
                 | Some (_, entry2) \<Rightarrow>
                     fst (slot_recover_owned (en_services E) reason (cleanup_failed \<or> pressure_failed) (ce_slot entry2))))"

definition standalone_try_recover ::
  "('g, 'd, 'r, 'e, 'c, 'q, 'k, 'o, 'l, 't, 'i, 'y, 'w, 'b, 'p, 'm) set_env \<Rightarrow>
   ('w, 'y, 'b, 'p, 'm) StandaloneConnection \<Rightarrow>
   ('w, 'y, 'b, 'p, 'm) StandaloneConnection + (OutboundFrame, 'r) RecoveryReport" where
  "standalone_try_recover E sa =
     (let failure =
            (case set_entry E (sa_connection sa) (sa_set sa) of
               Inr entry \<Rightarrow> state_failure (sl_state (ce_slot entry))
             | Inl _ \<Rightarrow> Some (case cs_owner_failure (sa_set sa) of None \<Rightarrow> OwnerInvariant | Some reason \<Rightarrow> reason))
      in case failure of
           None \<Rightarrow> Inl sa
         | Some reason \<Rightarrow> Inr (standalone_recover_owned E reason sa))"

definition standalone_abandon ::
  "('g, 'd, 'r, 'e, 'c, 'q, 'k, 'o, 'l, 't, 'i, 'y, 'w, 'b, 'p, 'm) set_env \<Rightarrow> OwnerFailure \<Rightarrow>
   ('w, 'y, 'b, 'p, 'm) StandaloneConnection \<Rightarrow> (OutboundFrame, 'r) RecoveryReport" where
  "standalone_abandon E requested sa =
     standalone_recover_owned E
       (case set_entry E (sa_connection sa) (sa_set sa) of
          Inl _ \<Rightarrow> requested
        | Inr entry \<Rightarrow>
            (case state_failure (sl_state (ce_slot entry)) of None \<Rightarrow> requested | Some reason \<Rightarrow> reason)) sa"

end
