(* ===== verification/SimWire.thy ===== *)
theory SimWire
  imports Framing "HOL-Library.Sublist"
begin

text \<open>
  \<^verbatim>\<open>crates/bornera-sim/src/frame.rs\<close> and \<^verbatim>\<open>wire.rs\<close>: the bounded protocol of the simulator. A reply is a
  header of eight bytes (match key and payload length, both big-endian) and its payload. The decoder
  takes the bytes in chunks of any size and hands out complete replies.
\<close>

unbundle bit_operations_syntax

section \<open>Frames and replies\<close>

record SimFrame =
  sf_bytes :: "byte list"
  sf_retained :: RetainedBytes

datatype SimFrameError = SimFrameTooLarge

definition sim_frame_copy_from_slice :: "'g externals \<Rightarrow> byte list \<Rightarrow> SimFrameError + SimFrame" where
  "sim_frame_copy_from_slice X bytes =
     (case rb_try_from X (length bytes) of
        None \<Rightarrow> Inl SimFrameTooLarge
      | Some retained \<Rightarrow> Inr \<lparr>sf_bytes = bytes, sf_retained = retained\<rparr>)"

record SimReply =
  srp_key :: MatchKey
  srp_payload :: "byte list"

definition retained_or_max :: "'g externals \<Rightarrow> usize \<Rightarrow> RetainedBytes" where
  "retained_or_max X n = (case rb_try_from X n of None \<Rightarrow> USIZE_MAX | Some retained \<Rightarrow> retained)"

definition sim_reply_retained_bytes :: "'g externals \<Rightarrow> SimReply \<Rightarrow> RetainedBytes" where
  "sim_reply_retained_bytes X r = retained_or_max X (length (srp_payload r))"

datatype SimWireError = PayloadTooLarge | UndrainedFrame | MultipleFrames | StateDiverged

section \<open>The decoder\<close>

definition HEADER_BYTES :: usize where
  "HEADER_BYTES = 8"

record SimDecoder =
  sd_maximum_payload :: RetainedBytes
  sd_header :: "byte list"
  sd_header_used :: usize
  sd_key :: "MatchKey option"
  sd_payload :: "byte list option"
  sd_payload_used :: usize
  sd_ready :: "SimReply option"

definition sim_decoder_new :: "RetainedBytes \<Rightarrow> SimDecoder" where
  "sim_decoder_new maximum_payload =
     \<lparr>sd_maximum_payload = maximum_payload, sd_header = replicate HEADER_BYTES 0, sd_header_used = 0,
      sd_key = None, sd_payload = None, sd_payload_used = 0, sd_ready = None\<rparr>"

text \<open>\<^verbatim>\<open>u32::from_be_bytes\<close> and \<^verbatim>\<open>to_be_bytes\<close>, and a slice written in place.\<close>

definition u32_from_be :: "byte list \<Rightarrow> u32" where
  "u32_from_be bs =
     push_bit 24 (ucast (bs ! 0)) OR push_bit 16 (ucast (bs ! 1)) OR push_bit 8 (ucast (bs ! 2)) OR ucast (bs ! 3)"

definition u32_to_be :: "u32 \<Rightarrow> byte list" where
  "u32_to_be w = [ucast (drop_bit 24 w), ucast (drop_bit 16 w), ucast (drop_bit 8 w), ucast w]"

definition copy_at :: "usize \<Rightarrow> byte list \<Rightarrow> byte list \<Rightarrow> byte list" where
  "copy_at i bytes buffer = take i buffer @ bytes @ drop (i + length bytes) buffer"

text \<open>Both halves return the result, the decoder and what is left of the input.\<close>

definition accept_header :: "'g externals \<Rightarrow> SimDecoder \<Rightarrow> byte list \<Rightarrow> (SimWireError + unit) \<times> SimDecoder \<times> byte list" where
  "accept_header X d input =
     (let needed = HEADER_BYTES - sd_header_used d;
          accepted = min needed (length input);
          d1 = d\<lparr>sd_header := copy_at (sd_header_used d) (take accepted input) (sd_header d),
                 sd_header_used := usize_saturating_add (sd_header_used d) accepted\<rparr>;
          rest = drop accepted input
      in if sd_header_used d1 \<noteq> HEADER_BYTES then (Inr (), d1, rest)
         else
           (let key = u32_from_be (take 4 (sd_header d1));
                length = unat (u32_from_be (drop 4 (sd_header d1)))
            in case rb_try_from X length of
                 None \<Rightarrow> (Inl PayloadTooLarge, d1, rest)
               | Some retained \<Rightarrow>
                   if retained > sd_maximum_payload d1 then (Inl PayloadTooLarge, d1, rest)
                   else if length = 0
                   then (Inr (), d1\<lparr>sd_ready := Some \<lparr>srp_key = key, srp_payload = []\<rparr>, sd_header_used := 0\<rparr>, rest)
                   else (Inr (), d1\<lparr>sd_key := Some key, sd_payload := Some (replicate length 0)\<rparr>, rest)))"

definition accept_payload :: "SimDecoder \<Rightarrow> byte list \<Rightarrow> (SimWireError + unit) \<times> SimDecoder \<times> byte list" where
  "accept_payload d input =
     (case sd_payload d of
        None \<Rightarrow> (Inr (), d, input)
      | Some payload \<Rightarrow>
          (let needed = length payload - sd_payload_used d;
               accepted = min needed (length input);
               payload1 = copy_at (sd_payload_used d) (take accepted input) payload;
               d1 = d\<lparr>sd_payload := Some payload1, sd_payload_used := usize_saturating_add (sd_payload_used d) accepted\<rparr>;
               rest = drop accepted input
           in if sd_payload_used d1 \<noteq> length payload1 then (Inr (), d1, rest)
              else
                (case sd_key d1 of
                   None \<Rightarrow> (Inl StateDiverged, d1\<lparr>sd_key := None\<rparr>, rest)
                 | Some key \<Rightarrow>
                     (Inr (), d1\<lparr>sd_key := None, sd_payload := None,
                                 sd_ready := Some \<lparr>srp_key = key, srp_payload = payload1\<rparr>,
                                 sd_header_used := 0, sd_payload_used := 0\<rparr>, rest))))"

text \<open>The loop of \<^verbatim>\<open>feed\<close>; \<open>None\<close> would mean that it does not end.\<close>

partial_function (option) feed_loop ::
  "'g externals \<Rightarrow> SimDecoder \<Rightarrow> byte list \<Rightarrow> ((SimWireError + unit) \<times> SimDecoder) option" where
  [code]: "feed_loop X d bytes =
     (if bytes = [] then Some (Inr (), d)
      else
        (case (if sd_payload d \<noteq> None then accept_payload d bytes else accept_header X d bytes) of
           (Inl e, d1, rest) \<Rightarrow> Some (Inl e, d1)
         | (Inr _, d1, rest) \<Rightarrow>
             if sd_ready d1 \<noteq> None \<and> rest \<noteq> [] then Some (Inl MultipleFrames, d1) else feed_loop X d1 rest))"

definition sim_feed :: "'g externals \<Rightarrow> byte list \<Rightarrow> SimDecoder \<Rightarrow> ((SimWireError + unit) \<times> SimDecoder) option" where
  "sim_feed X bytes d = (if sd_ready d \<noteq> None then Some (Inl UndrainedFrame, d) else feed_loop X d bytes)"

definition sim_next_frame :: "SimDecoder \<Rightarrow> (SimWireError + SimReply option) \<times> SimDecoder" where
  "sim_next_frame d = (Inr (sd_ready d), d\<lparr>sd_ready := None\<rparr>)"

definition sim_decoder_retained_bytes :: "'g externals \<Rightarrow> SimDecoder \<Rightarrow> RetainedBytes" where
  "sim_decoder_retained_bytes X d =
     (case sd_payload d of
        None \<Rightarrow> (case sd_ready d of None \<Rightarrow> 0 | Some reply \<Rightarrow> sim_reply_retained_bytes X reply)
      | Some payload \<Rightarrow> retained_or_max X (length payload))"

definition sim_reply_key :: "SimReply \<Rightarrow> SimWireError + MatchKey" where
  "sim_reply_key frame = Inr (srp_key frame)"

definition encode_reply :: "MatchKey \<Rightarrow> SimFrame \<Rightarrow> SimWireError + byte list" where
  "encode_reply key payload =
     (if length (sf_bytes payload) < 2 ^ 32
      then Inr (u32_to_be key @ u32_to_be (of_nat (length (sf_bytes payload))) @ sf_bytes payload)
      else Inl PayloadTooLarge)"

section \<open>Words and buffers\<close>

lemma u32_be_roundtrip: "u32_from_be (u32_to_be w @ rest) = w"
proof (rule bit_word_eqI)
  fix n assume "n < LENGTH(32)"
  then show "bit (u32_from_be (u32_to_be w @ rest)) n = bit w n"
    by (cases "n < 8"; cases "n < 16"; cases "n < 24") (auto simp: u32_from_be_def u32_to_be_def bit_simps)
qed

lemma u32_to_be_length [simp]: "length (u32_to_be w) = 4"
  by (simp add: u32_to_be_def)

lemma u32_from_be_take [simp]: "u32_from_be (take 4 bs) = u32_from_be bs"
  by (simp add: u32_from_be_def)

lemma copy_at_take:
  assumes "i + length bytes \<le> length buffer"
  shows "length (copy_at i bytes buffer) = length buffer"
    "take (i + length bytes) (copy_at i bytes buffer) = take i buffer @ bytes"
  using assms by (simp_all add: copy_at_def)

lemma saturating_small: "a + b \<le> USIZE_MAX \<Longrightarrow> usize_saturating_add a b = a + b"
  by (simp add: usize_saturating_add_def)

section \<open>Receiving one reply\<close>

text \<open>The conversion of a length into retained bytes loses nothing on a 64-bit host.\<close>

definition exact_sizes :: "'g externals \<Rightarrow> bool" where
  "exact_sizes X \<longleftrightarrow> (\<forall>n. n \<le> USIZE_MAX \<longrightarrow> rb_try_from X n = Some n)"

definition wire_of :: "MatchKey \<Rightarrow> byte list \<Rightarrow> byte list" where
  "wire_of key payload = u32_to_be key @ u32_to_be (of_nat (length payload)) @ payload"

text \<open>
  The decoder between two replies, with the bytes of a reply it has taken so far, and with a
  complete reply.
\<close>

definition receiving :: "SimDecoder \<Rightarrow> byte list \<Rightarrow> bool" where
  "receiving d taken \<longleftrightarrow>
     length (sd_header d) = 8 \<and> sd_ready d = None \<and>
     (case sd_payload d of
        None \<Rightarrow> sd_key d = None \<and> sd_payload_used d = 0 \<and> sd_header_used d < 8 \<and> taken = take (sd_header_used d) (sd_header d)
      | Some p \<Rightarrow> sd_header_used d = 8 \<and> sd_key d = Some (u32_from_be (sd_header d)) \<and>
          length p = unat (u32_from_be (drop 4 (sd_header d))) \<and> sd_payload_used d < length p \<and>
          taken = sd_header d @ take (sd_payload_used d) p)"

definition complete :: "SimDecoder \<Rightarrow> MatchKey \<Rightarrow> byte list \<Rightarrow> bool" where
  "complete d key payload \<longleftrightarrow>
     sd_ready d = Some \<lparr>srp_key = key, srp_payload = payload\<rparr> \<and> receiving (d\<lparr>sd_ready := None\<rparr>) []"

text \<open>What feeding a piece of an encoded reply leaves behind.\<close>

definition took :: "SimDecoder \<Rightarrow> MatchKey \<Rightarrow> byte list \<Rightarrow> byte list \<Rightarrow> SimDecoder \<Rightarrow> bool" where
  "took d key payload taken d' \<longleftrightarrow>
     sd_maximum_payload d' = sd_maximum_payload d \<and>
     (if taken = wire_of key payload then complete d' key payload else receiving d' taken)"

lemma new_receiving: "receiving (sim_decoder_new n) []"
  by (simp add: receiving_def sim_decoder_new_def HEADER_BYTES_def)

lemma wire_of_length [simp]: "length (wire_of key payload) = 8 + length payload"
  by (simp add: wire_of_def)

lemma wire_of_header:
  assumes "length payload < 2 ^ 32"
  shows "u32_from_be (take 8 (wire_of key payload)) = key"
    "unat (u32_from_be (drop 4 (take 8 (wire_of key payload)))) = length payload"
proof -
  have t: "take 8 (wire_of key payload) = u32_to_be key @ u32_to_be (of_nat (length payload))" by (simp add: wire_of_def)
  show "u32_from_be (take 8 (wire_of key payload)) = key" unfolding t by (rule u32_be_roundtrip)
  have "u32_from_be (drop 4 (take 8 (wire_of key payload))) = of_nat (length payload)"
    using u32_be_roundtrip [of "of_nat (length payload)" "[]"] unfolding t by simp
  then show "unat (u32_from_be (drop 4 (take 8 (wire_of key payload)))) = length payload"
    using assms by (simp add: unat_of_nat take_bit_nat_eq_self)
qed

lemma payload_step:
  assumes d: "receiving d taken" "sd_payload d = Some p" and small: "length payload < 2 ^ 32"
    and wire: "taken @ bytes @ left = wire_of key payload" and bytes: "bytes \<noteq> []"
  shows "\<exists>d'. accept_payload d bytes = (Inr (), d', []) \<and> took d key payload (taken @ bytes) d'"
proof -
  let ?u = "sd_payload_used d" and ?p = "copy_at (sd_payload_used d) bytes p"
  have h: "length (sd_header d) = 8" "sd_ready d = None" "sd_header_used d = 8" "sd_key d = Some (u32_from_be (sd_header d))"
    "length p = unat (u32_from_be (drop 4 (sd_header d)))" "?u < length p" "taken = sd_header d @ take ?u p"
    using d by (simp_all add: receiving_def)
  have header: "sd_header d = take 8 (wire_of key payload)" using h(1,7) wire [symmetric] by simp
  note k = wire_of_header [OF small, of key, folded header]
  have len: "length p = length payload" using h(5) k(2) by simp
  have fit: "?u + length bytes + length left = length payload" using arg_cong [OF wire, of length] h(1,6,7) len by simp
  have payload: "take ?u p @ bytes @ left = payload"
    using arg_cong [OF wire, of "drop 8"] h(1,7) by (simp add: wire_of_def)
  have max: "length payload \<le> USIZE_MAX" using small by (simp add: USIZE_MAX_def)
  have sat: "usize_saturating_add ?u (length bytes) = ?u + length bytes" using fit max by (intro saturating_small) simp
  have acc: "min (length p - ?u) (length bytes) = length bytes" using fit len by simp
  note c = copy_at_take [of ?u bytes p]
  show ?thesis
  proof (cases "left = []")
    case True
    then have full: "?p = payload" using payload fit len by (simp add: copy_at_def)
    have "taken @ bytes = wire_of key payload" "length payload - ?u = length bytes" using wire fit True by simp_all
    with full h k sat acc d(2) fit True len show ?thesis
      by (simp add: accept_payload_def Let_def took_def complete_def receiving_def)
  next
    case False
    then have part: "?u + length bytes \<noteq> length ?p" "?u + length bytes < length p" using c(1) fit len by (cases left; simp)+
    have "taken @ bytes \<noteq> wire_of key payload" using wire False by (metis append_assoc append_self_conv)
    with part h sat acc d(2) c fit len show ?thesis
      by (simp add: accept_payload_def Let_def took_def receiving_def)
  qed
qed

lemma header_step:
  assumes X: "exact_sizes X" and d: "receiving d taken" "sd_payload d = None"
    and small: "length payload < 2 ^ 32" "length payload \<le> sd_maximum_payload d"
    and wire: "taken @ bytes @ left = wire_of key payload" and bytes: "bytes \<noteq> []"
  shows "\<exists>d' rest. accept_header X d bytes = (Inr (), d', rest) \<and> (rest \<noteq> [] \<longrightarrow> sd_payload d' \<noteq> None \<and> sd_ready d' = None) \<and>
    (\<exists>first. bytes = first @ rest \<and> took d key payload (taken @ first) d')"
proof -
  let ?u = "sd_header_used d" and ?n = "8 - sd_header_used d"
  have h: "length (sd_header d) = 8" "sd_ready d = None" "sd_key d = None" "sd_payload_used d = 0" "?u < 8" "taken = take ?u (sd_header d)"
    using d by (simp_all add: receiving_def)
  have taken: "length taken = ?u" using h by simp
  show ?thesis
  proof (cases "length bytes < ?n")
    case True
    have sat: "usize_saturating_add ?u (length bytes) = ?u + length bytes" using True by (intro saturating_small) (simp add: USIZE_MAX_def)
    have ne: "taken @ bytes \<noteq> wire_of key payload" using taken True by (auto dest: arg_cong [where f = length])
    have m: "min ?n (length bytes) = length bytes" "?u + length bytes \<noteq> 8" using True by simp_all
    have c: "length (copy_at ?u bytes (sd_header d)) = 8" "take (?u + length bytes) (copy_at ?u bytes (sd_header d)) = taken @ bytes"
      using copy_at_take [of ?u bytes "sd_header d"] h True by simp_all
    have "accept_header X d bytes =
        (Inr (), d\<lparr>sd_header := copy_at ?u bytes (sd_header d), sd_header_used := ?u + length bytes\<rparr>, [])"
      by (simp add: accept_header_def HEADER_BYTES_def Let_def m sat)
    with ne c h d(2) True show ?thesis by (auto simp: took_def receiving_def)
  next
    case False
    let ?first = "take ?n bytes" and ?rest = "drop ?n bytes"
    let ?d = "d\<lparr>sd_header := copy_at ?u ?first (sd_header d), sd_header_used := 8\<rparr>"
    have len: "length ?first = ?n" using False by simp
    have sat: "usize_saturating_add ?u ?n = 8" using h(5) by (subst saturating_small) (simp_all add: USIZE_MAX_def)
    have copy: "copy_at ?u ?first (sd_header d) = taken @ ?first" using h len by (simp add: copy_at_def)
    have "taken @ ?first = take 8 (wire_of key payload)"
      unfolding wire [symmetric] using taken h(5) False by simp
    then have header: "sd_header ?d = take 8 (wire_of key payload)" by (simp add: copy)
    note k = wire_of_header [OF small(1), of key, folded header]
    have size: "rb_try_from X (length payload) = Some (length payload)"
      using X small(1) by (simp add: exact_sizes_def USIZE_MAX_def)
    have min: "min ?n (length bytes) = ?n" using False by simp
    have step: "accept_header X d bytes =
        (if length payload = 0
         then (Inr (), ?d\<lparr>sd_ready := Some \<lparr>srp_key = key, srp_payload = []\<rparr>, sd_header_used := 0\<rparr>, ?rest)
         else (Inr (), ?d\<lparr>sd_key := Some key, sd_payload := Some (replicate (length payload) 0)\<rparr>, ?rest))"
      using k size small(2) by (simp add: accept_header_def HEADER_BYTES_def Let_def min sat)
    have eight: "length (sd_header ?d) = 8" unfolding header by simp
    have split: "bytes = ?first @ ?rest" by simp
    show ?thesis
    proof (cases "payload = []")
      case True
      have rest: "?rest = []" using arg_cong [OF wire, of length] taken True h(5) by simp
      have full: "taken @ ?first = wire_of key payload" using header copy True by simp
      have "complete (?d\<lparr>sd_ready := Some \<lparr>srp_key = key, srp_payload = []\<rparr>, sd_header_used := 0\<rparr>) key []"
        using h d(2) eight by (simp add: complete_def receiving_def)
      then show ?thesis using step rest full split True by (intro exI [of _ "?d\<lparr>sd_ready := Some \<lparr>srp_key = key, srp_payload = []\<rparr>, sd_header_used := 0\<rparr>"]
            exI [of _ "?rest"]) (auto simp: took_def intro!: exI [of _ ?first])
    next
      case False
      have part: "taken @ ?first \<noteq> wire_of key payload"
        using taken len h(5) False by (auto dest: arg_cong [where f = length])
      have "receiving (?d\<lparr>sd_key := Some key, sd_payload := Some (replicate (length payload) 0)\<rparr>) (taken @ ?first)"
        using h d(2) eight k False copy by (simp add: receiving_def)
      then show ?thesis using step part split False h(2)
        by (intro exI [of _ "?d\<lparr>sd_key := Some key, sd_payload := Some (replicate (length payload) 0)\<rparr>"] exI [of _ "?rest"])
          (auto simp: took_def intro!: exI [of _ ?first])
    qed
  qed
qed

lemma feed_loop_rest: "feed_loop X d [] = Some (Inr (), d)"
  by (subst feed_loop.simps) simp

lemma feed_piece:
  assumes X: "exact_sizes X" and d: "receiving d taken" and small: "length payload < 2 ^ 32" "length payload \<le> sd_maximum_payload d"
    and wire: "taken @ bytes @ left = wire_of key payload" and bytes: "bytes \<noteq> []"
  shows "\<exists>d'. sim_feed X bytes d = Some (Inr (), d') \<and> took d key payload (taken @ bytes) d'"
proof -
  have ready: "sd_ready d = None" using d by (simp add: receiving_def)
  have rest: "\<exists>d'. feed_loop X d bytes = Some (Inr (), d') \<and> took d key payload (taken @ bytes) d'"
    if r: "receiving d taken" "sd_payload d \<noteq> None" "taken @ bytes @ left = wire_of key payload" "bytes \<noteq> []" for d taken bytes
  proof -
    obtain p where p: "sd_payload d = Some p" using r(2) by blast
    obtain d' where "accept_payload d bytes = (Inr (), d', [])" "took d key payload (taken @ bytes) d'"
      using payload_step [OF r(1) p small(1) r(3,4)] by blast
    then show ?thesis using r(4) p by (subst feed_loop.simps) (simp add: feed_loop_rest)
  qed
  show ?thesis
  proof (cases "sd_payload d")
    case (Some p)
    then show ?thesis using rest [OF d _ wire bytes] ready by (simp add: sim_feed_def)
  next
    case None
    obtain d1 left1 first where h: "accept_header X d bytes = (Inr (), d1, left1)" "left1 \<noteq> [] \<longrightarrow> sd_payload d1 \<noteq> None"
      "bytes = first @ left1" "took d key payload (taken @ first) d1" "left1 \<noteq> [] \<longrightarrow> sd_ready d1 = None"
      using header_step [OF X d None small wire bytes] by blast
    show ?thesis
    proof (cases "left1 = []")
      case True
      then show ?thesis using h None bytes ready by (subst sim_feed_def, subst feed_loop.simps) (simp add: feed_loop_rest)
    next
      case False
      have "receiving d1 (taken @ first)" using h(4,5) False by (auto simp: took_def complete_def split: if_splits)
      moreover have "(taken @ first) @ left1 @ left = wire_of key payload" using wire h(3) by simp
      ultimately obtain d' where "feed_loop X d1 left1 = Some (Inr (), d')" "took d1 key payload ((taken @ first) @ left1) d'"
        using rest h(2) False by blast
      then show ?thesis
        using h None bytes ready False by (subst sim_feed_def, subst feed_loop.simps) (simp add: took_def)
    qed
  qed
qed

section \<open>Chunks\<close>

text \<open>Chunks fed one after the other, stopping at the first error.\<close>

fun feed_chunks :: "'g externals \<Rightarrow> byte list list \<Rightarrow> SimDecoder \<Rightarrow> ((SimWireError + unit) \<times> SimDecoder) option" where
  "feed_chunks X [] d = Some (Inr (), d)"
| "feed_chunks X (bytes # chunks) d =
     (case sim_feed X bytes d of
        None \<Rightarrow> None
      | Some (Inl e, d1) \<Rightarrow> Some (Inl e, d1)
      | Some (Inr _, d1) \<Rightarrow> feed_chunks X chunks d1)"

lemma feed_chunks_took:
  assumes X: "exact_sizes X" and small: "length payload < 2 ^ 32"
  shows "receiving d taken \<Longrightarrow> length payload \<le> sd_maximum_payload d \<Longrightarrow> chunks \<noteq> [] \<Longrightarrow> [] \<notin> set chunks \<Longrightarrow>
    taken @ concat chunks @ left = wire_of key payload \<Longrightarrow>
    \<exists>d'. feed_chunks X chunks d = Some (Inr (), d') \<and> took d key payload (taken @ concat chunks) d'"
proof (induction chunks arbitrary: d taken)
  case (Cons bytes chunks)
  have wire: "taken @ bytes @ (concat chunks @ left) = wire_of key payload" and ne: "bytes \<noteq> []" using Cons.prems(4,5) by auto
  obtain d1 where f: "sim_feed X bytes d = Some (Inr (), d1)" "took d key payload (taken @ bytes) d1"
    using feed_piece [OF X Cons.prems(1) small Cons.prems(2) wire ne] by blast
  show ?case
  proof (cases "chunks = []")
    case True
    then show ?thesis using f by simp
  next
    case False
    have part: "taken @ bytes \<noteq> wire_of key payload"
    proof
      assume "taken @ bytes = wire_of key payload"
      with wire have "concat chunks = []" by (metis append_assoc append_is_Nil_conv append_self_conv)
      with False Cons.prems(4) show False by (cases chunks) auto
    qed
    have "receiving d1 (taken @ bytes)" "length payload \<le> sd_maximum_payload d1" using f(2) part Cons.prems(2) by (simp_all add: took_def)
    moreover have "(taken @ bytes) @ concat chunks @ left = wire_of key payload" using wire by simp
    ultimately obtain d' where "feed_chunks X chunks d1 = Some (Inr (), d')" "took d1 key payload ((taken @ bytes) @ concat chunks) d'"
      using Cons.IH [of d1 "taken @ bytes"] False Cons.prems(4) by auto
    then show ?thesis using f by (simp add: took_def)
  qed
qed simp

text \<open>
  C39. The wire format of the simulator round-trips through any chunking: an encoded reply within the
  bound of the decoder, cut into non-empty chunks in any way and fed after any number of earlier
  replies, is taken without an error, is not handed out before its last byte, comes out with the same
  key and payload, and leaves the decoder ready for the next reply.
\<close>

theorem sim_wire_roundtrip:
  assumes "exact_sizes X" "receiving d []" "length (sf_bytes payload) \<le> sd_maximum_payload d"
    "encode_reply key payload = Inr encoded" "[] \<notin> set chunks" "concat chunks = encoded" "prefix early chunks" "early \<noteq> chunks"
  shows "(\<exists>d1. feed_chunks X early d = Some (Inr (), d1) \<and> fst (sim_next_frame d1) = Inr None) \<and>
    (\<exists>d1 d2. feed_chunks X chunks d = Some (Inr (), d1) \<and>
       sim_next_frame d1 = (Inr (Some \<lparr>srp_key = key, srp_payload = sf_bytes payload\<rparr>), d2) \<and>
       receiving d2 [] \<and> sd_maximum_payload d2 = sd_maximum_payload d)"
proof -
  let ?p = "sf_bytes payload"
  have small: "length ?p < 2 ^ 32" and enc: "encoded = wire_of key ?p"
    using assms(4) by (auto simp: encode_reply_def wire_of_def split: if_splits)
  have "concat chunks \<noteq> []" using arg_cong [OF enc, of length] assms(6) by auto
  then have ne: "chunks \<noteq> []" by auto
  obtain d1 where all: "feed_chunks X chunks d = Some (Inr (), d1)" "took d key ?p (concat chunks) d1"
    using feed_chunks_took [OF assms(1) small assms(2,3) ne assms(5), of "[]" key] assms(6) enc by auto
  obtain rest where rest: "chunks = early @ rest" "rest \<noteq> []" using assms(7,8) by (auto simp: prefix_def)
  have "\<exists>d1. feed_chunks X early d = Some (Inr (), d1) \<and> sd_ready d1 = None"
  proof (cases "early = []")
    case True
    then show ?thesis using assms(2) by (simp add: receiving_def)
  next
    case False
    have "[] @ concat early @ concat rest = wire_of key ?p" using assms(6) rest(1) enc by simp
    moreover have "concat rest \<noteq> []" using rest assms(5) by (cases rest) auto
    ultimately have part: "concat early \<noteq> wire_of key ?p" by (metis append_Nil append_self_conv)
    have "[] \<notin> set early" using assms(5) rest(1) by auto
    from feed_chunks_took [OF assms(1) small assms(2,3) False this, of "concat rest" key] obtain d1 where
      "feed_chunks X early d = Some (Inr (), d1)" "took d key ?p (concat early) d1" using assms(6) rest(1) enc by auto
    then show ?thesis using part by (auto simp: took_def receiving_def)
  qed
  with all enc assms(6) show ?thesis by (auto simp: sim_next_frame_def took_def complete_def)
qed

theorem sim_wire_roundtrip_witness:
  "\<exists>d1 d2. feed_chunks counting_externals [[0, 0], [0, 5, 0, 0, 0], [1, 42]] (sim_decoder_new 4) = Some (Inr (), d1) \<and>
     sim_next_frame d1 = (Inr (Some \<lparr>srp_key = 5, srp_payload = [42]\<rparr>), d2) \<and> receiving d2 []"
proof -
  have X: "exact_sizes counting_externals" by (simp add: exact_sizes_def counting_externals_def)
  have e: "encode_reply 5 \<lparr>sf_bytes = [42], sf_retained = 1\<rparr> = Inr (concat [[0, 0], [0, 5, 0, 0, 0], [1, 42]])" by code_simp
  have "length (sf_bytes \<lparr>sf_bytes = [42], sf_retained = 1\<rparr>) \<le> sd_maximum_payload (sim_decoder_new 4)"
    by (simp add: sim_decoder_new_def)
  from sim_wire_roundtrip [OF X new_receiving this e _ refl, of "[]"] show ?thesis by auto
qed

section \<open>Any input\<close>

text \<open>What holds of a decoder whatever it was fed.\<close>

definition sim_decoder_ok :: "SimDecoder \<Rightarrow> bool" where
  "sim_decoder_ok d \<longleftrightarrow>
     sd_header_used d \<le> 8 \<and>
     (case sd_payload d of
        None \<Rightarrow> sd_payload_used d = 0
      | Some p \<Rightarrow> sd_payload_used d \<le> length p \<and> length p \<le> sd_maximum_payload d \<and> length p < 2 ^ 32) \<and>
     (case sd_ready d of None \<Rightarrow> True | Some r \<Rightarrow> length (srp_payload r) \<le> sd_maximum_payload d \<and> length (srp_payload r) < 2 ^ 32)"

lemma header_keeps:
  assumes X: "exact_sizes X" and ok: "sim_decoder_ok d" "sd_payload d = None" and step: "accept_header X d input = (r, d', rest)"
  shows "sim_decoder_ok d'" "sd_maximum_payload d' = sd_maximum_payload d" "length rest \<le> length input"
    "r = Inr () \<Longrightarrow> input \<noteq> [] \<Longrightarrow> sd_ready d' = None \<or> rest = [] \<Longrightarrow> length rest < length input \<or> sd_payload d' \<noteq> None"
proof -
  define a where "a = min (8 - sd_header_used d) (length input)"
  define h where "h = copy_at (sd_header_used d) (take a input) (sd_header d)"
  define n where "n = unat (u32_from_be (drop 4 h))"
  let ?d = "d\<lparr>sd_header := h, sd_header_used := sd_header_used d + a\<rparr>"
  have u: "sd_header_used d \<le> 8" "sd_header_used d + a \<le> 8" "input \<noteq> [] \<Longrightarrow> a = 0 \<Longrightarrow> sd_header_used d = 8"
    using ok(1) by (auto simp: sim_decoder_ok_def a_def min_def split: if_splits)
  have sat: "usize_saturating_add (sd_header_used d) a = sd_header_used d + a"
    using u by (intro saturating_small) (simp add: USIZE_MAX_def)
  have n: "n < 2 ^ 32" unfolding n_def using unsigned_less [where 'a = nat and w = "u32_from_be (drop 4 h)"] by simp
  then have size: "rb_try_from X n = Some n" using X by (simp add: exact_sizes_def USIZE_MAX_def)
  have out: "(r, d', rest) =
      (if sd_header_used d + a \<noteq> 8 then (Inr (), ?d, drop a input)
       else if n > sd_maximum_payload d then (Inl PayloadTooLarge, ?d, drop a input)
       else if n = 0 then (Inr (), ?d\<lparr>sd_ready := Some \<lparr>srp_key = u32_from_be h, srp_payload = []\<rparr>, sd_header_used := 0\<rparr>, drop a input)
       else (Inr (), ?d\<lparr>sd_key := Some (u32_from_be h), sd_payload := Some (replicate n 0)\<rparr>, drop a input))"
    unfolding step [symmetric] accept_header_def HEADER_BYTES_def Let_def a_def [symmetric] h_def [symmetric] sat
    by (simp add: n_def [symmetric] size)
  have rest: "rest = drop a input" using out by (auto split: if_splits)
  then show "length rest \<le> length input" by simp
  have "sim_decoder_ok ?d" using ok u by (auto simp: sim_decoder_ok_def split: option.splits)
  then show "sim_decoder_ok d'" "sd_maximum_payload d' = sd_maximum_payload d"
    using out ok(2) n by (auto simp: sim_decoder_ok_def split: if_splits option.splits)
  assume "r = Inr ()" "input \<noteq> []" "sd_ready d' = None \<or> rest = []"
  show "length rest < length input \<or> sd_payload d' \<noteq> None"
  proof (cases "a = 0")
    case True
    with out u(3) \<open>r = Inr ()\<close> \<open>input \<noteq> []\<close> \<open>sd_ready d' = None \<or> rest = []\<close> show ?thesis by (auto split: if_splits)
  qed (use rest \<open>input \<noteq> []\<close> in auto)
qed

lemma payload_keeps:
  assumes ok: "sim_decoder_ok d" "sd_payload d = Some p" and step: "accept_payload d input = (r, d', rest)"
  shows "sim_decoder_ok d'" "sd_maximum_payload d' = sd_maximum_payload d" "length rest \<le> length input"
    "r = Inr () \<Longrightarrow> input \<noteq> [] \<Longrightarrow> sd_ready d' = None \<or> rest = [] \<Longrightarrow> length rest < length input"
proof -
  let ?a = "min (length p - sd_payload_used d) (length input)"
  define p1 where "p1 = copy_at (sd_payload_used d) (take ?a input) p"
  let ?d = "d\<lparr>sd_payload := Some p1, sd_payload_used := sd_payload_used d + ?a\<rparr>"
  have u: "sd_payload_used d \<le> length p" "length p < 2 ^ 32" "length p \<le> sd_maximum_payload d" "sd_header_used d \<le> 8"
    using ok by (simp_all add: sim_decoder_ok_def)
  have sat: "usize_saturating_add (sd_payload_used d) ?a = sd_payload_used d + ?a"
    using u by (intro saturating_small) (auto simp: USIZE_MAX_def min_def)
  have len: "length p1 = length p" unfolding p1_def using u by (intro copy_at_take(1)) auto
  have out: "(r, d', rest) = (if sd_payload_used d + ?a \<noteq> length p1 then (Inr (), ?d, drop ?a input)
      else (case sd_key d of None \<Rightarrow> (Inl StateDiverged, ?d\<lparr>sd_key := None\<rparr>, drop ?a input)
            | Some key \<Rightarrow> (Inr (), ?d\<lparr>sd_key := None, sd_payload := None, sd_ready := Some \<lparr>srp_key = key, srp_payload = p1\<rparr>,
                sd_header_used := 0, sd_payload_used := 0\<rparr>, drop ?a input)))"
    unfolding step [symmetric] by (simp add: accept_payload_def ok(2) Let_def sat p1_def split: option.split)
  have rest: "rest = drop ?a input" using out by (auto split: if_splits option.splits)
  then show "length rest \<le> length input" by simp
  have "sim_decoder_ok ?d" using ok u len by (auto simp: sim_decoder_ok_def split: option.splits)
  then show "sim_decoder_ok d'" "sd_maximum_payload d' = sd_maximum_payload d"
    using out u len by (auto simp: sim_decoder_ok_def split: if_splits option.splits)
  assume "r = Inr ()" "input \<noteq> []" "sd_ready d' = None \<or> rest = []"
  show "length rest < length input"
  proof (cases "?a = 0")
    case True
    then have "sd_payload_used d + ?a = length p1" "rest = input"
      using \<open>input \<noteq> []\<close> u(1) rest len by (auto simp: min_def split: if_splits)
    with out \<open>r = Inr ()\<close> \<open>input \<noteq> []\<close> \<open>sd_ready d' = None \<or> rest = []\<close> show ?thesis by (auto split: option.splits)
  qed (use rest \<open>input \<noteq> []\<close> in auto)
qed

lemma feed_loop_returns:
  assumes X: "exact_sizes X"
  shows "sim_decoder_ok d \<Longrightarrow>
    \<exists>r d'. feed_loop X d bytes = Some (r, d') \<and> sim_decoder_ok d' \<and> sd_maximum_payload d' = sd_maximum_payload d"
proof (induction "2 * length bytes + (if sd_payload d = None then 1 else 0)" arbitrary: d bytes rule: less_induct)
  case less
  show ?case
  proof (cases "bytes = []")
    case True
    then show ?thesis using less.prems by (simp add: feed_loop_rest)
  next
    case False
    define step where "step = (if sd_payload d \<noteq> None then accept_payload d bytes else accept_header X d bytes)"
    obtain r d1 rest where s: "step = (r, d1, rest)" by (metis prod.collapse)
    have k: "sim_decoder_ok d1" "sd_maximum_payload d1 = sd_maximum_payload d"
      using s header_keeps(1,2) [OF X less.prems] payload_keeps(1,2) [OF less.prems] by (auto simp: step_def split: if_splits)
    have shrink: "2 * length rest + (if sd_payload d1 = None then 1 else 0) < 2 * length bytes + (if sd_payload d = None then 1 else 0)"
      if go: "r = Inr ()" "sd_ready d1 = None \<or> rest = []"
    proof (cases "sd_payload d")
      case None
      then have "accept_header X d bytes = (r, d1, rest)" using s by (simp add: step_def)
      from header_keeps(3,4) [OF X less.prems None this] go False None show ?thesis by auto
    next
      case (Some p)
      then have "accept_payload d bytes = (r, d1, rest)" using s by (simp add: step_def)
      from payload_keeps(4) [OF less.prems Some this] go False Some show ?thesis by auto
    qed
    have unfold: "feed_loop X d bytes =
        (case r of Inl e \<Rightarrow> Some (Inl e, d1)
         | Inr _ \<Rightarrow> if sd_ready d1 \<noteq> None \<and> rest \<noteq> [] then Some (Inl MultipleFrames, d1) else feed_loop X d1 rest)"
      using False s by (subst feed_loop.simps) (simp add: step_def split: sum.split)
    show ?thesis
    proof (cases "(\<exists>e. r = Inl e) \<or> sd_ready d1 \<noteq> None \<and> rest \<noteq> []")
      case True
      then show ?thesis using unfold k by (auto split: sum.split)
    next
      case False
      then have r: "r = Inr ()" "sd_ready d1 = None \<or> rest = []" by (cases r; auto)+
      from less.hyps [OF shrink [OF r] k(1)] obtain r' d' where
        "feed_loop X d1 rest = Some (r', d')" "sim_decoder_ok d'" "sd_maximum_payload d' = sd_maximum_payload d1" by blast
      then show ?thesis using unfold r k(2) by auto
    qed
  qed
qed

text \<open>
  C40. Whatever bytes arrive, the decoder of the simulator returns and never keeps or hands out more
  than the payload it was created for.
\<close>

theorem sim_decoder_bounded:
  assumes "exact_sizes X" "sim_decoder_ok d"
  shows "\<exists>r d'. sim_feed X bytes d = Some (r, d') \<and> sim_decoder_ok d' \<and> sim_decoder_ok (snd (sim_next_frame d')) \<and>
    sd_maximum_payload d' = sd_maximum_payload d \<and> sim_decoder_retained_bytes X d' \<le> sd_maximum_payload d"
proof -
  have "\<exists>r d'. sim_feed X bytes d = Some (r, d') \<and> sim_decoder_ok d' \<and> sd_maximum_payload d' = sd_maximum_payload d"
    using feed_loop_returns [OF assms, of bytes] assms(2) by (auto simp: sim_feed_def)
  then obtain r d' where d': "sim_feed X bytes d = Some (r, d')" "sim_decoder_ok d'" "sd_maximum_payload d' = sd_maximum_payload d"
    by blast
  have retained: "retained_or_max X n = n" if "n < 2 ^ 32" for n
    using that assms(1) by (simp add: retained_or_max_def exact_sizes_def USIZE_MAX_def)
  have "sim_decoder_retained_bytes X d' \<le> sd_maximum_payload d'"
    using d'(2) retained
    by (auto simp: sim_decoder_ok_def sim_decoder_retained_bytes_def sim_reply_retained_bytes_def split: option.splits)
  moreover have "sim_decoder_ok (snd (sim_next_frame d'))"
    using d'(2) by (auto simp: sim_decoder_ok_def sim_next_frame_def split: option.splits)
  ultimately show ?thesis using d' by auto
qed

lemma new_decoder_ok: "sim_decoder_ok (sim_decoder_new n)"
  by (simp add: sim_decoder_ok_def sim_decoder_new_def)

theorem sim_decoder_bounded_witness:
  "\<exists>r d'. sim_feed counting_externals [1, 2, 3, 4, 0, 0, 0, 9, 7] (sim_decoder_new 4) = Some (r, d') \<and>
     sim_decoder_retained_bytes counting_externals d' \<le> 4"
proof -
  have "exact_sizes counting_externals" by (simp add: exact_sizes_def counting_externals_def)
  from sim_decoder_bounded [OF this new_decoder_ok, of "[1, 2, 3, 4, 0, 0, 0, 9, 7]" 4] show ?thesis
    by (auto simp: sim_decoder_new_def)
qed

section \<open>The decoder as the slot sees it\<close>

text \<open>The loop always returns, so the other branch is never taken.\<close>

definition sim_frame_decoder :: "'g externals \<Rightarrow> (SimDecoder, SimReply, SimWireError) FrameDecoder" where
  "sim_frame_decoder X =
     \<lparr>dec_feed = (\<lambda>bytes d. case sim_feed X bytes d of None \<Rightarrow> (Inl StateDiverged, d) | Some r \<Rightarrow> r),
      dec_next_frame = sim_next_frame, dec_retained_bytes = sim_decoder_retained_bytes X\<rparr>"

end
