(* ===== verification/SimTransport.thy ===== *)
theory SimTransport
  imports SlotSystem SimWire
begin

text \<open>
  \<^verbatim>\<open>crates/bornera-sim/src/slot_transport.rs\<close> and \<^verbatim>\<open>slot_transport_state.rs\<close>: the in-memory transport of the
  simulator, as an instance of the transport port of a slot.
\<close>

section \<open>State\<close>

datatype SimPhase = SimConnecting | SimOpen | SimClosed

datatype SimShutdownState = SimNotStarted | SimFlushing | SimComplete

datatype Interest = InterestReadable | InterestWritable | InterestReadWrite

text \<open>The buffers of the source are vectors with a capacity that is reserved once.\<close>

record SimTransport =
  st_phase :: SimPhase
  st_connect_ready :: bool
  st_inbound :: "byte list"
  st_inbound_capacity :: usize
  st_peer_closed :: bool
  st_write_credit :: usize
  st_outbound :: "byte list"
  st_outbound_capacity :: usize
  st_limits :: TransportLimits
  st_applied_policy :: "TcpSocketPolicy option"
  st_shutdown :: SimShutdownState

definition sim_transport_pressure :: "'g externals \<Rightarrow> usize \<Rightarrow> usize \<Rightarrow> TransportPressure" where
  "sim_transport_pressure X inbound_capacity outbound_capacity =
     (case transport_pressure_new X (retained_or_max X inbound_capacity) (retained_or_max X outbound_capacity) 0 0 of
        Inl _ \<Rightarrow> TransportPressure_MAX
      | Inr pressure \<Rightarrow> pressure)"

text \<open>The allocator \<open>A\<close> answers a request for exactly so many bytes with the capacity it gives, or fails.\<close>

definition sim_transport_new ::
  "'g externals \<Rightarrow> (usize \<Rightarrow> usize option) \<Rightarrow> TransportLimits \<Rightarrow> unit + SimTransport" where
  "sim_transport_new X A limits =
     (let total = tl_retained_bytes limits in
      if total > USIZE_MAX then Inl ()
      else
        (let inbound_limit = total div 2; outbound_limit = total - inbound_limit in
         case A inbound_limit of
           None \<Rightarrow> Inl ()
         | Some inbound_capacity \<Rightarrow>
             (case A outbound_limit of
                None \<Rightarrow> Inl ()
              | Some outbound_capacity \<Rightarrow>
                  (let pressure = sim_transport_pressure X inbound_capacity outbound_capacity in
                   if prs_total pressure > tl_retained_bytes limits then Inl ()
                   else
                     Inr \<lparr>st_phase = SimConnecting, st_connect_ready = False, st_inbound = [],
                          st_inbound_capacity = inbound_capacity, st_peer_closed = False, st_write_credit = 0,
                          st_outbound = [], st_outbound_capacity = outbound_capacity,
                          st_limits = \<lparr>tl_retained_bytes = prs_total pressure\<rparr>, st_applied_policy = None,
                          st_shutdown = SimNotStarted\<rparr>))))"

section \<open>Stimuli\<close>

definition observe_connect_ready :: "SimTransport \<Rightarrow> SimTransport" where
  "observe_connect_ready t = t\<lparr>st_connect_ready := True\<rparr>"

definition inject_read :: "byte list \<Rightarrow> SimTransport \<Rightarrow> (unit + unit) \<times> SimTransport" where
  "inject_read bytes t =
     (if length bytes > st_inbound_capacity t - length (st_inbound t) then (Inl (), t)
      else (Inr (), t\<lparr>st_inbound := st_inbound t @ bytes\<rparr>))"

definition observe_peer_closed :: "SimTransport \<Rightarrow> SimTransport" where
  "observe_peer_closed t = t\<lparr>st_peer_closed := True\<rparr>"

definition allow_write :: "usize \<Rightarrow> SimTransport \<Rightarrow> SimTransport" where
  "allow_write bytes t = t\<lparr>st_write_credit := bytes\<rparr>"

definition sim_close :: "SimTransport \<Rightarrow> SimTransport" where
  "sim_close t =
     t\<lparr>st_phase := SimClosed, st_connect_ready := False, st_inbound := [], st_write_credit := 0, st_shutdown := SimComplete\<rparr>"

section \<open>Reading and writing\<close>

text \<open>\<^verbatim>\<open>ErrorKind::NotConnected\<close>, one of the categories that are only passed on.\<close>

definition NotConnected :: IoError where
  "NotConnected = \<lparr>ioe_kind = KindPlatform 0, ioe_raw_os_error = None\<rparr>"

definition io_error :: "ErrorKind \<Rightarrow> IoError" where
  "io_error kind = \<lparr>ioe_kind = kind, ioe_raw_os_error = None\<rparr>"

definition sim_read :: "byte list \<Rightarrow> SimTransport \<Rightarrow> (IoError + usize) \<times> byte list \<times> SimTransport" where
  "sim_read buffer t =
     (if st_phase t \<noteq> SimOpen then (Inl NotConnected, buffer, t)
      else
        (let count = min (length buffer) (length (st_inbound t));
             buffer1 = take count (st_inbound t) @ drop count buffer;
             t1 = t\<lparr>st_inbound := drop count (st_inbound t)\<rparr>
         in if count \<noteq> 0 then (Inr count, buffer1, t1)
            else if st_peer_closed t1 then (Inr 0, buffer1, t1)
            else (Inl (io_error WouldBlock), buffer1, t1)))"

definition sim_write :: "byte list \<Rightarrow> SimTransport \<Rightarrow> (IoError + usize) \<times> SimTransport" where
  "sim_write buffer t =
     (if st_phase t \<noteq> SimOpen then (Inl NotConnected, t)
      else
        (let available = st_outbound_capacity t - length (st_outbound t);
             written = min (min (length buffer) (st_write_credit t)) available
         in if written = 0
            then (Inl (io_error (if available = 0 \<and> buffer \<noteq> [] then KindOther else WouldBlock)), t)
            else (Inr written, t\<lparr>st_outbound := st_outbound t @ take written buffer,
                                st_write_credit := st_write_credit t - written\<rparr>)))"

section \<open>The transport port\<close>

definition sim_drive_establishment ::
  "TcpSocketPolicy \<Rightarrow> TransportBudget \<Rightarrow> SimTransport \<Rightarrow> (TransportError + TransportProgress) \<times> SimTransport" where
  "sim_drive_establishment policy budget t =
     (case st_phase t of
        SimOpen \<Rightarrow> (Inr TransportProgress_IDLE, t)
      | SimClosed \<Rightarrow> (Inl (transport_error_from_io PhConnect NotConnected), t)
      | SimConnecting \<Rightarrow>
          if st_connect_ready t
          then (Inr transport_progress_operation,
                t\<lparr>st_phase := SimOpen, st_connect_ready := False, st_applied_policy := Some policy\<rparr>)
          else (Inr transport_progress_operation, t))"

definition sim_drive_transport ::
  "TransportBudget \<Rightarrow> SimTransport \<Rightarrow> (TransportError + TransportProgress) \<times> SimTransport" where
  "sim_drive_transport budget t =
     (if st_shutdown t \<noteq> SimFlushing then (Inr TransportProgress_IDLE, t)
      else (Inr (transport_progress_new 1 0 1), t\<lparr>st_shutdown := SimComplete\<rparr>))"

definition sim_begin_shutdown ::
  "TransportBudget \<Rightarrow> SimTransport \<Rightarrow> (TransportError + TransportProgress) \<times> SimTransport" where
  "sim_begin_shutdown budget t = (Inr transport_progress_operation, t\<lparr>st_shutdown := SimFlushing\<rparr>)"

definition sim_can_read :: "SimTransport \<Rightarrow> bool" where
  "sim_can_read t \<longleftrightarrow>
     st_phase t = SimOpen \<and> st_shutdown t = SimNotStarted \<and> (st_inbound t \<noteq> [] \<or> st_peer_closed t)"

definition sim_can_write :: "SimTransport \<Rightarrow> bool" where
  "sim_can_write t \<longleftrightarrow> st_phase t = SimOpen \<and> st_shutdown t = SimNotStarted \<and> st_write_credit t \<noteq> 0"

definition sim_desired_interest :: "bool \<Rightarrow> SimTransport \<Rightarrow> Interest" where
  "sim_desired_interest has_writes t =
     (if st_shutdown t = SimFlushing then InterestWritable
      else if st_phase t = SimConnecting \<or> has_writes then InterestReadWrite
      else InterestReadable)"

definition sim_slot_transport :: "'g externals \<Rightarrow> SimTransport SlotTransport" where
  "sim_slot_transport X =
     \<lparr>tp_drive_establishment = sim_drive_establishment, tp_drive_transport = sim_drive_transport,
      tp_begin_shutdown = sim_begin_shutdown,
      tp_can_establish = (\<lambda>t. st_phase t = SimConnecting \<and> st_connect_ready t),
      tp_has_transport_work = (\<lambda>t. st_shutdown t = SimFlushing),
      tp_is_shutdown_complete = (\<lambda>t. st_shutdown t = SimComplete),
      tp_is_open = (\<lambda>t. st_phase t = SimOpen), tp_can_read = sim_can_read, tp_can_write = sim_can_write,
      tp_pressure = (\<lambda>t. sim_transport_pressure X (st_inbound_capacity t) (st_outbound_capacity t)),
      tp_pressure_limit = st_limits, tp_clear_read = (\<lambda>t. t), tp_clear_write = (\<lambda>t. t\<lparr>st_write_credit := 0\<rparr>),
      tp_read = sim_read, tp_write = sim_write\<rparr>"

lemma sim_transport_wf: "transport_wf (sim_slot_transport X)"
  by (auto simp: transport_wf_def sim_slot_transport_def sim_drive_establishment_def sim_drive_transport_def sim_begin_shutdown_def
      progress_wf_constructors split: SimPhase.splits if_splits)

section \<open>The contract of the port\<close>

text \<open>
  Everything a slot or a trace may do to the transport. The buffers stay within their capacities, the
  reported pressure never changes and equals the declared limit, written bytes are appended and never
  taken back, and bytes come out of the inbound buffer in the order they went in.
\<close>

definition sim_transport_ok :: "'g externals \<Rightarrow> SimTransport \<Rightarrow> bool" where
  "sim_transport_ok X t \<longleftrightarrow>
     length (st_inbound t) \<le> st_inbound_capacity t \<and> length (st_outbound t) \<le> st_outbound_capacity t \<and>
     tl_retained_bytes (st_limits t) = prs_total (sim_transport_pressure X (st_inbound_capacity t) (st_outbound_capacity t))"

inductive sim_move :: "SimTransport \<Rightarrow> SimTransport \<Rightarrow> bool" where
  "sim_move t (observe_connect_ready t)"
| "sim_move t (snd (inject_read bytes t))"
| "sim_move t (observe_peer_closed t)"
| "sim_move t (allow_write n t)"
| "sim_move t (sim_close t)"
| "sim_move t (snd (snd (sim_read buffer t)))"
| "sim_move t (snd (sim_write buffer t))"
| "sim_move t (snd (sim_drive_establishment policy budget t))"
| "sim_move t (snd (sim_drive_transport budget t))"
| "sim_move t (snd (sim_begin_shutdown budget t))"
| "sim_move t (t\<lparr>st_write_credit := 0\<rparr>)"

definition sim_kept :: "'g externals \<Rightarrow> SimTransport \<Rightarrow> SimTransport \<Rightarrow> bool" where
  "sim_kept X t t' \<longleftrightarrow>
     (sim_transport_ok X t \<longrightarrow> sim_transport_ok X t') \<and> st_limits t' = st_limits t \<and>
     tp_pressure (sim_slot_transport X) t' = tp_pressure (sim_slot_transport X) t \<and> prefix (st_outbound t) (st_outbound t')"

lemmas sim_moves = observe_connect_ready_def inject_read_def observe_peer_closed_def allow_write_def sim_close_def sim_read_def
  sim_write_def sim_drive_establishment_def sim_drive_transport_def sim_begin_shutdown_def

lemma sim_move_kept: "sim_move t t' \<Longrightarrow> sim_kept X t t'"
  by (induction rule: sim_move.induct)
    (auto simp: sim_kept_def sim_transport_ok_def sim_slot_transport_def sim_moves Let_def split: SimPhase.splits)

end
