(* ===== verification/SimCore.thy ===== *)
theory SimCore
  imports SlotSystem SimWire Scenario
begin

text \<open>
  \<^verbatim>\<open>crates/bornera-sim/src/config.rs\<close>, \<^verbatim>\<open>trace.rs\<close>, \<^verbatim>\<open>replay.rs\<close> and \<^verbatim>\<open>report.rs\<close>: the replay of a bounded trace
  on one aggregate owner. The generated tests of the crate check a few hundred traces for what is
  shown here of every trace: each submitted operation is reported exactly once, and the reported
  certainty is never better than what the trace has written.
\<close>

section \<open>Traces\<close>

type_synonym OperationIndex = usize

datatype EpochTarget = TargetCurrent | TargetStale

datatype TraceAction =
    TraceSubmit Moment OperationOptions SimFrame
  | TraceAdvanceWrite usize
  | TraceReply OperationIndex SimFrame EpochTarget
  | TraceCancel OperationIndex EpochTarget
  | TraceDeadline OperationIndex Moment EpochTarget
  | TraceOpenAdmission EpochTarget
  | TraceBeginDrain EpochTarget
  | TraceClose EpochTarget CloseReason
  | TraceEpochClosed EpochTarget
  | TraceRecover

fun trace_action_retained_bytes :: "TraceAction \<Rightarrow> RetainedBytes" where
  "trace_action_retained_bytes (TraceSubmit _ _ frame) = sf_retained frame"
| "trace_action_retained_bytes (TraceReply _ frame _) = sf_retained frame"
| "trace_action_retained_bytes _ = 0"

record TraceLimits =
  trl_actions :: usize
  trl_retained_bytes :: RetainedBytes

record Trace =
  tra_limits :: TraceLimits
  tra_actions :: "TraceAction list"
  tra_retained_bytes :: RetainedBytes

datatype TraceAdmissionFailure = TraceActionCapacity | TraceByteCapacity

definition trace_new :: "TraceLimits \<Rightarrow> Trace" where
  "trace_new limits = \<lparr>tra_limits = limits, tra_actions = [], tra_retained_bytes = 0\<rparr>"

definition trace_try_push ::
  "'g externals \<Rightarrow> TraceAction \<Rightarrow> Trace \<Rightarrow> (TraceAction \<times> TraceAdmissionFailure + unit) \<times> Trace" where
  "trace_try_push X action t =
     (if length (tra_actions t) \<ge> trl_actions (tra_limits t) then (Inl (action, TraceActionCapacity), t)
      else
        (case rb_checked_add X (tra_retained_bytes t) (trace_action_retained_bytes action) of
           None \<Rightarrow> (Inl (action, TraceByteCapacity), t)
         | Some retained \<Rightarrow>
             if retained > trl_retained_bytes (tra_limits t) then (Inl (action, TraceByteCapacity), t)
             else (Inr (), t\<lparr>tra_actions := tra_actions t @ [action], tra_retained_bytes := retained\<rparr>)))"

section \<open>Replay\<close>

record SimulationConfig =
  sim_endpoint :: EndpointId
  sim_lane :: LaneId
  sim_connection :: ConnectionId
  sim_epoch :: ConnectionEpoch
  sim_limits :: ConnectionLimits

datatype StepResult =
    StepSubmitted OperationIndex OperationId MatchKey "unit ConnectionTransition"
  | StepReserveRejected ReserveError
  | StepCommitRejected FrameCommitFailure
  | StepUnitTransition "unit ConnectionTransition"
  | StepReplyTransition "SimFrame ConnectionTransition"
  | StepWriteTransition OperationId usize "unit ConnectionTransition"
  | StepNoPendingWrite
  | StepUnknownOperation OperationIndex
  | StepCoreFailed ConnectionCoreError
  | StepRecovered "SimFrame ConnectionRecovery"

record StepObservation =
  so_action :: usize
  so_result :: StepResult
  so_snapshot :: ConnectionSnapshot

record ReplayReport =
  rpt_observations :: "StepObservation list"
  rpt_final_snapshot :: ConnectionSnapshot

record Accepted =
  ac_operation :: OperationId
  ac_key :: MatchKey

definition unit_result :: "ConnectionCoreError + unit ConnectionTransition \<Rightarrow> StepResult" where
  "unit_result result = (case result of Inl e \<Rightarrow> StepCoreFailed e | Inr t \<Rightarrow> StepUnitTransition t)"

definition reply_result :: "ConnectionCoreError + SimFrame ConnectionTransition \<Rightarrow> StepResult" where
  "reply_result result = (case result of Inl e \<Rightarrow> StepCoreFailed e | Inr t \<Rightarrow> StepReplyTransition t)"

definition accepted_operation :: "Accepted list \<Rightarrow> OperationIndex \<Rightarrow> Accepted option" where
  "accepted_operation accepted index = (if index < length accepted then Some (accepted ! index) else None)"

definition select_epoch :: "ConnectionEpoch \<Rightarrow> EpochTarget \<Rightarrow> ConnectionEpoch" where
  "select_epoch epoch target = (case target of TargetCurrent \<Rightarrow> epoch | TargetStale \<Rightarrow> epoch + 1)"

type_synonym 'g replay_state = "(SimFrame, 'g) ConnectionCore \<times> Accepted list"

definition unit_step :: "'g externals \<Rightarrow> ConnectionInput \<Rightarrow> 'g replay_state \<Rightarrow> StepResult \<times> 'g replay_state" where
  "unit_step X input st =
     (case core_apply X input (fst st) of (result, c) \<Rightarrow> (unit_result result, c, snd st))"

definition with_operation ::
  "'g externals \<Rightarrow> OperationIndex \<Rightarrow> EpochTarget \<Rightarrow> (ConnectionEpoch \<Rightarrow> OperationId \<Rightarrow> ConnectionInput) \<Rightarrow>
   'g replay_state \<Rightarrow> StepResult \<times> 'g replay_state" where
  "with_operation X index target input st =
     (case accepted_operation (snd st) index of
        None \<Rightarrow> (StepUnknownOperation index, st)
      | Some accepted \<Rightarrow>
          unit_step X (input (select_epoch (m_epoch (core_machine (fst st))) target) (ac_operation accepted)) st)"

definition replay_submit ::
  "'g externals \<Rightarrow> Moment \<Rightarrow> OperationOptions \<Rightarrow> SimFrame \<Rightarrow> 'g replay_state \<Rightarrow> StepResult \<times> 'g replay_state" where
  "replay_submit X now options frame st =
     (case core_reserve X now options (fst st) of
        (Inl e, c) \<Rightarrow> (StepReserveRejected e, c, snd st)
      | (Inr permit, c) \<Rightarrow>
          (let key = res_match_key (permit_reservation permit) in
           case core_commit X sf_bytes sf_retained permit frame c of
             (Inr (operation, transition), c1) \<Rightarrow>
               (StepSubmitted (length (snd st)) operation key transition,
                c1, snd st @ [\<lparr>ac_operation = operation, ac_key = key\<rparr>])
           | (Inl e, c1) \<Rightarrow> (StepCommitRejected (ce_failure e), drop_permit X (ce_permit e) c1, snd st)))"

definition replay_advance_write :: "'g externals \<Rightarrow> usize \<Rightarrow> 'g replay_state \<Rightarrow> StepResult \<times> 'g replay_state" where
  "replay_advance_write X bytes st =
     (case front_write sf_bytes USIZE_MAX (fst st) of
        (Inl e, c) \<Rightarrow> (StepCoreFailed e, c, snd st)
      | (Inr None, c) \<Rightarrow> (StepNoPendingWrite, c, snd st)
      | (Inr (Some front), c) \<Rightarrow>
          (case core_advance_write X (m_epoch (core_machine c)) (ws_effect front) bytes c of
             (Inl e, c1) \<Rightarrow> (StepCoreFailed e, c1, snd st)
           | (Inr t, c1) \<Rightarrow> (StepWriteTransition (ws_operation front) bytes t, c1, snd st)))"

fun trace_apply :: "'g externals \<Rightarrow> TraceAction \<Rightarrow> 'g replay_state \<Rightarrow> StepResult \<times> 'g replay_state" where
  "trace_apply X (TraceSubmit now options frame) st = replay_submit X now options frame st"
| "trace_apply X (TraceAdvanceWrite bytes) st = replay_advance_write X bytes st"
| "trace_apply X (TraceReply index frame target) st =
     (case accepted_operation (snd st) index of
        None \<Rightarrow> (StepUnknownOperation index, st)
      | Some accepted \<Rightarrow>
          (case core_apply_reply X \<lparr>reply_epoch = select_epoch (m_epoch (core_machine (fst st))) target,
                  reply_key = ac_key accepted, reply_frame = frame\<rparr> (fst st) of
             (result, c) \<Rightarrow> (reply_result result, c, snd st)))"
| "trace_apply X (TraceCancel index target) st = with_operation X index target Cancel st"
| "trace_apply X (TraceDeadline index now target) st =
     with_operation X index target (\<lambda>epoch operation. InputDeadlineElapsed epoch operation now) st"
| "trace_apply X (TraceOpenAdmission target) st =
     unit_step X (OpenAdmission (select_epoch (m_epoch (core_machine (fst st))) target)) st"
| "trace_apply X (TraceBeginDrain target) st =
     unit_step X (BeginDrain (select_epoch (m_epoch (core_machine (fst st))) target)) st"
| "trace_apply X (TraceClose target reason) st =
     unit_step X (CloseRequested (select_epoch (m_epoch (core_machine (fst st))) target) reason) st"
| "trace_apply X (TraceEpochClosed target) st =
     unit_step X (EpochClosed (select_epoch (m_epoch (core_machine (fst st))) target)) st"
| "trace_apply X TraceRecover st = (case core_recover X (fst st) of (r, c) \<Rightarrow> (StepRecovered r, c, snd st))"

text \<open>The loop of \<^verbatim>\<open>Simulator::replay\<close> and the report it ends with.\<close>

definition replay_one ::
  "'g externals \<Rightarrow> TraceAction \<Rightarrow> 'g replay_state \<times> StepObservation list \<Rightarrow> 'g replay_state \<times> StepObservation list" where
  "replay_one X action so =
     (case trace_apply X action (fst so) of
        (result, st) \<Rightarrow>
          (st, snd so @ [\<lparr>so_action = length (snd so), so_result = result,
                          so_snapshot = machine_snapshot (core_machine (fst st))\<rparr>]))"

definition replay_start :: "'g externals \<Rightarrow> LedgerRef \<Rightarrow> SimulationConfig \<Rightarrow> 'g replay_state" where
  "replay_start X ref config =
     (core_new X ref (sim_endpoint config) (sim_lane config) (sim_connection config) (sim_epoch config) (sim_limits config), [])"

definition replay_run ::
  "'g externals \<Rightarrow> LedgerRef \<Rightarrow> SimulationConfig \<Rightarrow> TraceAction list \<Rightarrow> 'g replay_state \<times> StepObservation list" where
  "replay_run X ref config actions = fold (replay_one X) actions (replay_start X ref config, [])"

definition simulator_replay :: "'g externals \<Rightarrow> LedgerRef \<Rightarrow> SimulationConfig \<Rightarrow> Trace \<Rightarrow> ReplayReport" where
  "simulator_replay X ref config trace =
     (case replay_run X ref config (tra_actions trace) of
        (st, observations) \<Rightarrow>
          \<lparr>rpt_observations = observations, rpt_final_snapshot = machine_snapshot (core_machine (fst st))\<rparr>)"

section \<open>What a report says\<close>

fun result_submitted :: "StepResult \<Rightarrow> OperationId list" where
  "result_submitted (StepSubmitted _ operation _ _) = [operation]"
| "result_submitted _ = []"

fun result_told :: "StepResult \<Rightarrow> (OperationId \<times> Delivery option) list" where
  "result_told (StepSubmitted _ _ _ t) = publications (tr_effects t)"
| "result_told (StepUnitTransition t) = publications (tr_effects t)"
| "result_told (StepReplyTransition t) = publications (tr_effects t)"
| "result_told (StepWriteTransition _ _ t) = publications (tr_effects t)"
| "result_told _ = []"

fun result_written :: "StepResult \<Rightarrow> OperationId list" where
  "result_written (StepWriteTransition operation bytes _) = (if bytes \<noteq> 0 then [operation] else [])"
| "result_written _ = []"

fun result_recovered :: "StepResult \<Rightarrow> SimFrame RecoveredOperation list" where
  "result_recovered (StepRecovered r) = cr_operations r"
| "result_recovered _ = []"

definition reported :: "(StepResult \<Rightarrow> 'a list) \<Rightarrow> StepObservation list \<Rightarrow> 'a list" where
  "reported f observations = concat (map (f \<circ> so_result) observations)"

lemma reported_simps [simp]: "reported f [] = []" "reported f (xs @ ys) = reported f xs @ reported f ys"
  "reported f [ob] = f (so_result ob)"
  by (simp_all add: reported_def)

fun action_frames :: "TraceAction \<Rightarrow> SimFrame list" where
  "action_frames (TraceSubmit _ _ frame) = [frame]"
| "action_frames _ = []"

section \<open>Replay refines the owner\<close>

text \<open>
  The owner behind a replay: a reachable state \<open>h\<close> of the owner with the history of the report. The
  replayed owner is that state, or it was poisoned there and nothing but recovery is left to do, or
  it has been recovered.
\<close>

definition traced :: "'g externals \<Rightarrow> (SimFrame, 'g, SimFrame) system \<Rightarrow> StepObservation list \<Rightarrow> bool" where
  "traced X h obs \<longleftrightarrow>
     sys_reachable X h \<and> sys_permits h = [] \<and> sys_accepted h = reported result_submitted obs \<and>
     sys_published h = reported result_told obs \<and> sys_sent h = set (reported result_written obs)"

definition stopped :: "(SimFrame, 'g, SimFrame) system \<Rightarrow> (SimFrame, 'g) ConnectionCore \<Rightarrow> bool" where
  "stopped h c \<longleftrightarrow>
     core_poisoned c \<noteq> None \<and> core_machine c = core_machine (sys_core h) \<and>
     write_identities (core_writes c) = held_ids (pending (core_machine c)) \<and>
     (\<exists>mo mw armed. core_journal c = journal_of mo mw [] [] None armed)"

definition spent ::
  "(SimFrame, 'g, SimFrame) system \<Rightarrow> (SimFrame, 'g) ConnectionCore \<Rightarrow> SimFrame RecoveredOperation list \<Rightarrow> bool" where
  "spent h c ros \<longleftrightarrow>
     core_poisoned c \<noteq> None \<and> \<not> led_poisoned (m_ledger (core_machine c)) \<and> pending (core_machine c) = [] \<and>
     wq_frames (core_writes c) = [] \<and> (\<exists>mo mw. core_journal c = journal_of mo mw [] [] None False) \<and>
     map ro_operation ros = live_ids (pending (core_machine (sys_core h))) \<and>
     (\<forall>ro \<in> set ros. ro_operation ro \<in> sys_sent h \<longrightarrow> ro_delivery ro = PossiblySent)"

definition replay_inv :: "'g externals \<Rightarrow> 'g replay_state \<Rightarrow> StepObservation list \<Rightarrow> bool" where
  "replay_inv X st obs \<longleftrightarrow>
     (\<exists>h. traced X h obs \<and>
        ((fst st = sys_core h \<or> stopped h (fst st)) \<and> reported result_recovered obs = [] \<or>
         spent h (fst st) (reported result_recovered obs)))"

lemma traced_owner:
  assumes "externals_ok X" "traced X h obs"
  shows "core_ok X (sys_core h) {#}" "sys_inv X h" "sys_reachable X h" "sys_permits h = []"
  using assms sys_reachable_inv [OF assms(1), of h] sys_inv_parts(1) [of X h] by (auto simp: traced_def)

text \<open>One step of the owner, with what the result of the action reports of it.\<close>

lemma traced_step:
  assumes "traced X h obs" "sys_reachable X h'" "sys_permits h' = []"
    "sys_accepted h' = sys_accepted h @ result_submitted (so_result ob)"
    "sys_published h' = sys_published h @ result_told (so_result ob)"
    "sys_sent h' = set (result_written (so_result ob)) \<union> sys_sent h"
  shows "traced X h' (obs @ [ob])"
  using assms by (auto simp: traced_def)

lemma quiet_step:
  assumes "traced X h obs" "result_submitted (so_result ob) = []" "result_told (so_result ob) = []"
    "result_written (so_result ob) = []"
  shows "traced X h (obs @ [ob])"
  using assms by (auto simp: traced_def)

lemma recovered_certainty:
  assumes "rec_delivery r = PossiblySent"
  shows "ro_delivery (recovered_of ws r) = PossiblySent"
  using assms by (simp add: recovered_of_def weaken_def split: option.split)

lemma recovered_operation: "ro_operation (recovered_of ws r) = rec_id r"
  by (simp add: recovered_of_def split: option.split)

lemma recover_journal:
  "core_journal c = journal_of mo mw [] [] None armed \<Longrightarrow>
   core_journal (snd (core_recover X c)) = journal_of mo mw [] [] None False"
  by (simp add: core_recover_def Let_def take_writes_of take_operations_of case_prod_unfold)

text \<open>Recovery of an owner whose policy half is that of a reachable state.\<close>

lemma recover_spent:
  assumes X: "externals_ok X" and t: "traced X h obs" and m: "core_machine c = core_machine (sys_core h)"
    and ids: "write_identities (core_writes c) = held_ids (pending (core_machine c))"
    and j: "core_journal c = journal_of mo mw [] [] None armed"
  shows "spent h (snd (core_recover X c)) (cr_operations (fst (core_recover X c)))"
proof -
  have ok: "machine_ok (core_machine c) {#}" using core_ok_parts(2) [OF traced_owner(1) [OF X t]] by (simp add: m)
  note r = core_recover_exact [OF X ok ids j]
  have truth: "rec_delivery rec = PossiblySent" if "rec \<in> set (pending (core_machine c))" "rec_id rec \<in> sys_sent h" for rec
    using sys_inv_parts(5) [OF traced_owner(2) [OF X t]] that
    by (fastforce simp: delivery_truth_def owned_def m)
  show ?thesis
    using r(2-5) recover_journal [OF j, of X] truth
    by (auto simp: spent_def r(1) accounts_def live_ids_def recovered_operation comp_def m intro: recovered_certainty)
qed

lemma recover_again:
  assumes "spent h c ros"
  shows "cr_operations (fst (core_recover X c)) = []" "spent h (snd (core_recover X c)) ros"
proof -
  obtain mo mw where j: "core_journal c = journal_of mo mw [] [] None False" using assms by (auto simp: spent_def)
  have c: "pending (core_machine c) = []" "wq_frames (core_writes c) = []" "core_poisoned c \<noteq> None"
    "\<not> led_poisoned (m_ledger (core_machine c))" using assms by (simp_all add: spent_def)
  have wire: "recover_in_wire_order X [] \<lparr>rv_journal = [], rv_current = [], rv_writes = [], rv_operations = [],
      rv_diverged = d, rv_ledger = L\<rparr> = \<lparr>rv_journal = [], rv_current = [], rv_writes = [], rv_operations = [],
      rv_diverged = d, rv_ledger = L\<rparr>" for d L
    by (simp add: recover_in_wire_order_def Let_def usize_saturating_add_def)
  show "cr_operations (fst (core_recover X c)) = []" "spent h (snd (core_recover X c)) ros"
    using assms c j
    by (auto simp: core_recover_def Let_def discard_all_def budget_clear_def take_writes_of take_operations_of wire spent_def)
qed

subsection \<open>A live owner\<close>

text \<open>What the actions of a trace do to an owner in a reachable state.\<close>

definition live_step ::
  "'g externals \<Rightarrow> (SimFrame, 'g, SimFrame) system \<Rightarrow> StepObservation list \<Rightarrow> StepResult \<times> 'g replay_state \<Rightarrow> bool" where
  "live_step X h obs rs \<longleftrightarrow>
     (\<forall>ob. so_result ob = fst rs \<longrightarrow> replay_inv X (snd rs) (obs @ [ob]))"

lemma live_stepI:
  fixes h h' :: "(SimFrame, 'g, SimFrame) system"
  assumes "traced X h obs" "reported result_recovered obs = []" "result_recovered r = []"
    "sys_reachable X h'" "sys_permits h' = []" "sys_accepted h' = sys_accepted h @ result_submitted r"
    "sys_published h' = sys_published h @ result_told r" "sys_sent h' = set (result_written r) \<union> sys_sent h"
    "c = sys_core h'"
  shows "live_step X h obs (r, c, accepted)"
  unfolding live_step_def replay_inv_def using assms traced_step [OF assms(1,4,5)] by (intro allI impI exI [of _ h']) simp

lemma live_quiet:
  assumes "traced X h obs" "reported result_recovered obs = []" "result_recovered r = []"
    "result_submitted r = []" "result_told r = []" "result_written r = []" "fst st = sys_core h \<or> stopped h (fst st)"
  shows "live_step X h obs (r, st)"
  unfolding live_step_def replay_inv_def using assms quiet_step [OF assms(1)] by (intro allI impI exI [of _ h]) simp

lemma unit_live:
  assumes X: "externals_ok X" and t: "traced X h obs" "reported result_recovered obs = []" and c: "fst st = sys_core h"
  shows "live_step X h obs (unit_step X input st)"
proof -
  obtain t c' where r: "core_apply X input (sys_core h) = (Inr t, c')"
    by (rule core_apply_answer [OF X traced_owner(1) [OF X t(1)]])
  from sys_reachable_step [OF traced_owner(3) [OF X t(1)] sys_step.input [OF r]]
  show ?thesis using t r traced_owner(4) [OF X t(1)]
    by (auto simp: unit_step_def unit_result_def c intro: live_stepI)
qed

lemma with_operation_live:
  assumes "externals_ok X" "traced X h obs" "reported result_recovered obs = []" "fst st = sys_core h"
  shows "live_step X h obs (with_operation X index target input st)"
  using unit_live [OF assms] live_quiet [OF assms(2,3), of _ st] assms(4)
  by (auto simp: with_operation_def split: option.split)

lemma reply_live:
  assumes X: "externals_ok X" and t: "traced X h obs" "reported result_recovered obs = []" and c: "fst st = sys_core h"
  shows "live_step X h obs (trace_apply X (TraceReply index frame target) st)"
proof (cases "accepted_operation (snd st) index")
  case None
  then show ?thesis using live_quiet [OF t, of _ st] c by simp
next
  case (Some a)
  let ?r = "\<lparr>reply_epoch = select_epoch (m_epoch (core_machine (fst st))) target, reply_key = ac_key a, reply_frame = frame\<rparr>"
  obtain t' c' where r: "core_apply_reply X ?r (sys_core h) = (Inr t', c')"
    by (rule core_apply_reply_exact [OF X traced_owner(1) [OF X t(1)], of ?r]) blast
  from sys_reachable_step [OF traced_owner(3) [OF X t(1)] sys_step.reply [OF r]]
  show ?thesis using t r traced_owner(4) [OF X t(1)] Some c
    by (auto simp: reply_result_def intro: live_stepI)
qed

lemma submit_live:
  assumes X: "externals_ok X" and t: "traced X h obs" "reported result_recovered obs = []" and c: "fst st = sys_core h"
    and fits: "length (sf_bytes frame) \<le> USIZE_MAX"
  shows "live_step X h obs (replay_submit X now options frame st)"
proof -
  note h = traced_owner [OF X t(1)]
  obtain r c1 where res: "core_reserve X now options (sys_core h) = (r, c1)" by fastforce
  show ?thesis
  proof (cases r)
    case (Inl e)
    with core_reserve_refused(1) [OF X h(1)] res have "c1 = sys_core h" by simp
    then show ?thesis using Inl res c t by (auto simp: replay_submit_def intro: live_quiet)
  next
    case (Inr p)
    let ?h = "h\<lparr>sys_core := c1, sys_permits := [p]\<rparr>"
    have h1: "sys_reachable X ?h"
      using sys_reachable_step [OF h(3) sys_step.reserve [OF res [unfolded Inr]]] h(4) by simp
    have ps: "sys_permits ?h = [] @ p # []" by simp
    from core_commit_total [where retained = sf_retained and view = sf_bytes and frame = frame,
        OF X sys_reachable_inv [OF X h1] ps fits]
    show ?thesis
    proof (elim disjE exE conjE)
      fix kind
      assume k: "core_commit X sf_bytes sf_retained p frame (sys_core ?h) =
        (Inl \<lparr>ce_failure = Policy kind, ce_permit = p, ce_frame = frame\<rparr>, sys_core ?h)"
      from sys_reachable_step [OF h1 sys_step.drop [OF ps]] show ?thesis
        using k res Inr c t h(4) by (auto simp: replay_submit_def Let_def intro: live_stepI)
    next
      fix t' c2
      assume k: "core_commit X sf_bytes sf_retained p frame (sys_core ?h) = (Inr (permit_operation p, t'), c2)"
      have quiet: "publications (tr_effects t') = []"
        using k by (auto simp: core_commit_def Let_def commit_permit_exact transition_push_def transition_new_def
            split: prod.splits sum.splits option.splits)
      from sys_reachable_step [OF h1 sys_step.commit [OF ps fits k]] show ?thesis
        using k res Inr c t quiet by (auto simp: replay_submit_def Let_def intro: live_stepI)
    qed
  qed
qed

text \<open>The writer half of an owner that refuses to go on after an impossible report.\<close>

lemma advance_live:
  assumes X: "externals_ok X" and t: "traced X h obs" "reported result_recovered obs = []" and c: "fst st = sys_core h"
  shows "live_step X h obs (replay_advance_write X n st)"
proof (cases "wq_frames (core_writes (sys_core h))")
  case Nil
  show ?thesis using front_write_idle [OF traced_owner(1) [OF X t(1)] Nil] c t
    by (auto simp: replay_advance_write_def intro: live_quiet)
next
  case (Cons w ws)
  let ?c = "sys_core h"
  note h = traced_owner [OF X t(1)]
  have ids: "write_identities (core_writes ?c) = held_ids (pending (core_machine ?c))"
    by (rule joined_identities [OF core_ok_parts(1) [OF h(1)]])
  have j: "core_journal ?c = journal_of (max_operations (core_limits ?c)) (max_write_frames (core_limits ?c)) [] [] None False"
    using core_ok_parts(8) [OF h(1)] by (simp add: journal_new_of)
  show ?thesis
  proof (cases "length (sf_bytes (qw_frame w)) = wire_bytes (qw_measure w)")
    case False
    have "stopped h (?c\<lparr>core_poisoned := Some source\<rparr>)" for source using ids j by (auto simp: stopped_def)
    then show ?thesis using front_write_violation [where view = sf_bytes, OF h(1) Cons False, of USIZE_MAX] c t
      by (auto simp: replay_advance_write_def Let_def intro: live_quiet)
  next
    case True
    note f = front_write_exact [where view = sf_bytes, OF h(1) Cons True, of USIZE_MAX]
    show ?thesis
    proof (cases "n \<le> remaining_bytes w")
      case fit: True
      obtain t' c' where a: "core_advance_write X (m_epoch (core_machine ?c)) (qw_effect w) n ?c = (Inr t', c')"
        by (rule core_advance_answer [OF X h(1) Cons fit])
      have "n \<le> offered ?c" using Cons fit by (simp add: offered_def)
      note reach = sys_reachable_step [OF h(3) sys_step.advance [OF this a]]
      have "live_step X h obs (StepWriteTransition (qw_operation w) n t', c', snd st)"
        by (rule live_stepI [OF t _ reach]) (use h(4) Cons in \<open>auto simp: front_operations_def\<close>)
      then show ?thesis using a c f by (simp add: replay_advance_write_def)
    next
      case over: False
      then have "remaining_bytes w < n" by simp
      from core_advance_exceeds [OF X h(1) Cons this] obtain c' where
        a: "core_advance_write X (m_epoch (core_machine ?c)) (qw_effect w) n ?c =
          (Inl (CoreInvariant (WriteProgressContract n (remaining_bytes w))), c')"
        "core_poisoned c' = Some (WriteProgressContract n (remaining_bytes w))" "core_machine c' = core_machine ?c"
        "core_writes c' = (core_writes ?c)\<lparr>wq_frames := w\<lparr>qw_started := True\<rparr> # ws\<rparr>"
        "core_journal c' = journal_of (max_operations (core_limits ?c)) (max_write_frames (core_limits ?c)) [] [] None True"
        by metis
      have "stopped h c'" using a ids Cons by (auto simp: stopped_def write_identities_def)
      then show ?thesis using a(1) c t f by (auto simp: replay_advance_write_def intro: live_quiet)
    qed
  qed
qed

subsection \<open>A poisoned owner\<close>

lemma poisoned_answers:
  assumes "core_poisoned c = Some source" "\<not> led_poisoned (m_ledger (core_machine c))"
  shows "core_reserve X now options c = (Inl OwnerPoisoned, c)" "core_apply X input c = (Inl (CorePoisoned source), c)"
    "core_apply_reply X reply c = (Inl (CorePoisoned source), c)" "front_write view n c = (Inl (CorePoisoned source), c)"
  using assms by (simp_all add: ensure_healthy_def core_reserve_def core_apply_def core_apply_reply_def front_write_def)

text \<open>Nothing but recovery changes a poisoned owner, and nothing is reported of an operation.\<close>

lemma poisoned_step:
  assumes p: "core_poisoned (fst st) \<noteq> None" "\<not> led_poisoned (m_ledger (core_machine (fst st)))"
    and a: "action \<noteq> TraceRecover" and r: "trace_apply X action st = (r, st')"
  shows "st' = st" "result_submitted r = []" "result_told r = []" "result_written r = []" "result_recovered r = []"
proof -
  obtain source where s: "core_poisoned (fst st) = Some source" using p(1) by blast
  have "st' = st \<and> result_submitted r = [] \<and> result_told r = [] \<and> result_written r = [] \<and> result_recovered r = []"
    using r a
    by (cases action)
      (auto simp: poisoned_answers [OF s p(2)] replay_submit_def replay_advance_write_def unit_step_def with_operation_def
        unit_result_def reply_result_def split: option.splits)
  then show "st' = st" "result_submitted r = []" "result_told r = []" "result_written r = []" "result_recovered r = []" by auto
qed

lemma stopped_owner:
  assumes "externals_ok X" "traced X h obs" "stopped h c"
  shows "\<not> led_poisoned (m_ledger (core_machine c))"
  using core_ok_parts(2) [OF traced_owner(1) [OF assms(1,2)]] machine_ok_accounts(1) assms(3) by (auto simp: stopped_def)

lemma recover_step:
  assumes X: "externals_ok X" and inv: "replay_inv X st obs" and res: "so_result ob = fst (trace_apply X TraceRecover st)"
  shows "replay_inv X (snd (trace_apply X TraceRecover st)) (obs @ [ob])"
proof -
  obtain h where t: "traced X h obs" and cs: "(fst st = sys_core h \<or> stopped h (fst st)) \<and> reported result_recovered obs = [] \<or>
      spent h (fst st) (reported result_recovered obs)" using inv by (auto simp: replay_inv_def)
  have r: "so_result ob = StepRecovered (fst (core_recover X (fst st)))"
    "fst (snd (trace_apply X TraceRecover st)) = snd (core_recover X (fst st))"
    using res by (simp_all add: case_prod_unfold)
  have t': "traced X h (obs @ [ob])" by (rule quiet_step [OF t]) (simp_all add: r(1))
  have ids: "write_identities (core_writes (sys_core h)) = held_ids (pending (core_machine (sys_core h)))"
    by (rule joined_identities [OF core_ok_parts(1) [OF traced_owner(1) [OF X t]]])
  have j: "core_journal (sys_core h) =
      journal_of (max_operations (core_limits (sys_core h))) (max_write_frames (core_limits (sys_core h))) [] [] None False"
    using core_ok_parts(8) [OF traced_owner(1) [OF X t]] by (simp add: journal_new_of)
  have "spent h (snd (core_recover X (fst st))) (reported result_recovered (obs @ [ob]))"
    using cs
  proof (elim disjE conjE)
    assume "fst st = sys_core h" "reported result_recovered obs = []"
    with recover_spent [OF X t _ _ j] ids show ?thesis by (simp add: r)
  next
    assume b: "stopped h (fst st)" "reported result_recovered obs = []"
    then obtain mo mw armed where "core_journal (fst st) = journal_of mo mw [] [] None armed" by (auto simp: stopped_def)
    with recover_spent [OF X t _ _ this] b show ?thesis by (simp add: r stopped_def)
  next
    assume "spent h (fst st) (reported result_recovered obs)"
    with recover_again [OF this, of X] show ?thesis by (simp add: r)
  qed
  with t' show ?thesis unfolding replay_inv_def r(2) by blast
qed

theorem replay_step:
  assumes X: "externals_ok X" and inv: "replay_inv X st obs" and res: "trace_apply X action st = (so_result ob, st')"
    and fits: "\<forall>frame \<in> set (action_frames action). length (sf_bytes frame) \<le> USIZE_MAX"
  shows "replay_inv X st' (obs @ [ob])"
proof (cases "action = TraceRecover")
  case True
  with recover_step [OF X inv, of ob] res show ?thesis by (metis fst_conv snd_conv)
next
  case False
  obtain h where t: "traced X h obs" and cs: "(fst st = sys_core h \<or> stopped h (fst st)) \<and> reported result_recovered obs = [] \<or>
      spent h (fst st) (reported result_recovered obs)" using inv by (auto simp: replay_inv_def)
  have quiet: ?thesis if p: "core_poisoned (fst st) \<noteq> None" "\<not> led_poisoned (m_ledger (core_machine (fst st)))"
    using poisoned_step [OF p False res] quiet_step [OF t, of ob] cs by (auto simp: replay_inv_def)
  from cs show ?thesis
  proof (elim disjE conjE)
    assume l: "fst st = sys_core h" "reported result_recovered obs = []"
    note live = X t l(2,1)
    have "live_step X h obs (trace_apply X action st)"
      using False fits submit_live [OF live] advance_live [OF live] reply_live [OF live] with_operation_live [OF live]
        unit_live [OF live]
      by (cases action) simp_all
    then show ?thesis using res by (simp add: live_step_def)
  next
    assume "stopped h (fst st)"
    then show ?thesis using quiet stopped_owner [OF X t] by (simp add: stopped_def)
  next
    assume "spent h (fst st) (reported result_recovered obs)"
    then show ?thesis using quiet by (simp add: spent_def)
  qed
qed

lemma replay_start_inv:
  assumes "externals_ok X" "limits_ok (sim_limits config)"
  shows "replay_inv X (replay_start X ref config) []"
proof -
  let ?c = "fst (replay_start X ref config)"
  have "sys_reachable X (sys_start ?c :: (SimFrame, _, SimFrame) system)"
    using core_new_empty(1) [OF assms refl] by (simp add: replay_start_def)
  then have "traced X (sys_start ?c) []" by (simp add: traced_def sys_start_def)
  then show ?thesis unfolding replay_inv_def by (intro exI [of _ "sys_start ?c"]) (simp add: sys_start_def)
qed

lemma replay_run_inv:
  assumes "externals_ok X" "limits_ok (sim_limits config)"
    and "\<forall>action \<in> set actions. \<forall>frame \<in> set (action_frames action). length (sf_bytes frame) \<le> USIZE_MAX"
  shows "replay_inv X (fst (replay_run X ref config actions)) (snd (replay_run X ref config actions))"
  using assms(3)
proof (induction actions rule: rev_induct)
  case Nil
  then show ?case using replay_start_inv [OF assms(1,2)] by (simp add: replay_run_def)
next
  case (snoc action actions)
  let ?so = "replay_run X ref config actions"
  obtain r st where a: "trace_apply X action (fst ?so) = (r, st)" by (rule prod.exhaust)
  let ?ob = "\<lparr>so_action = length (snd ?so), so_result = r, so_snapshot = machine_snapshot (core_machine (fst st))\<rparr>"
  have "replay_run X ref config (actions @ [action]) = (st, snd ?so @ [?ob])"
    using a by (simp add: replay_run_def replay_one_def)
  moreover have "replay_inv X st (snd ?so @ [?ob])"
    by (rule replay_step [OF assms(1) snoc.IH]) (use snoc.prems a in auto)
  ultimately show ?case by simp
qed

section \<open>Every operation is reported once\<close>

text \<open>
  C21. Whatever a trace does, also when it reports impossible progress, recovers the owner in the middle
  or goes on after that: each submitted operation has its outcome in the report, or was handed back
  by a recovery, or is still owned at the end, exactly one of the three and once. A published certainty
  is \<open>PossiblySent\<close> exactly when a report of written bytes named the operation, and an operation that
  was handed back is never called unsent after such a report.
\<close>

theorem trace_replay_accounts:
  assumes "externals_ok X" "limits_ok (sim_limits config)"
    and "\<forall>action \<in> set actions. \<forall>frame \<in> set (action_frames action). length (sf_bytes frame) \<le> USIZE_MAX"
  shows "let (st, obs) = replay_run X ref config actions;
      settled = map fst (reported result_told obs) @ map ro_operation (reported result_recovered obs) @
        live_ids (pending (core_machine (fst st)))
    in distinct settled \<and> set (reported result_submitted obs) = set settled \<and> distinct (reported result_submitted obs) \<and>
      (\<forall>(i, od) \<in> set (reported result_told obs). \<forall>d. od = Some d \<longrightarrow>
         (d = PossiblySent \<longleftrightarrow> i \<in> set (reported result_written obs))) \<and>
      (\<forall>ro \<in> set (reported result_recovered obs). ro_operation ro \<in> set (reported result_written obs) \<longrightarrow>
         ro_delivery ro = PossiblySent)"
proof -
  obtain st obs where run: "replay_run X ref config actions = (st, obs)" by fastforce
  then obtain h where t: "traced X h obs" and cs: "(fst st = sys_core h \<or> stopped h (fst st)) \<and> reported result_recovered obs = [] \<or>
      spent h (fst st) (reported result_recovered obs)"
    using replay_run_inv [OF assms, of ref] by (auto simp: replay_inv_def)
  note inv = traced_owner(2) [OF assms(1) t]
  have report: "sys_accepted h = reported result_submitted obs" "sys_published h = reported result_told obs"
    "sys_sent h = set (reported result_written obs)" using t by (simp_all add: traced_def)
  let ?live = "live_ids (pending (core_machine (sys_core h)))"
  have rest: "map ro_operation (reported result_recovered obs) @ live_ids (pending (core_machine (fst st))) = ?live"
    using cs by (auto simp: stopped_def spent_def live_ids_def)
  have once: "distinct (map fst (reported result_told obs))" "distinct (reported result_submitted obs)"
    "set (reported result_submitted obs) = fst ` set (reported result_told obs) \<union> set ?live"
    "fst ` set (reported result_told obs) \<inter> set ?live = {}"
    using sys_inv_parts(3,4) [OF inv] unfolding fresh_ids_def outcomes_once_def report by auto
  have "distinct (map rec_id (pending (core_machine (sys_core h))))"
    using core_ok_parts(2) [OF traced_owner(1) [OF assms(1) t]] by (simp add: machine_ok_def machine_core_def)
  then have live: "distinct ?live" by (simp add: live_ids_def distinct_map_filter)
  have truth: "\<forall>(i, od) \<in> set (reported result_told obs). \<forall>d. od = Some d \<longrightarrow>
      (d = PossiblySent \<longleftrightarrow> i \<in> set (reported result_written obs))"
    using sys_inv_parts(5) [OF inv] unfolding delivery_truth_def report by blast
  have handed: "\<forall>ro \<in> set (reported result_recovered obs). ro_operation ro \<in> set (reported result_written obs) \<longrightarrow>
      ro_delivery ro = PossiblySent" using cs report(3) by (auto simp: spent_def)
  show ?thesis unfolding run Let_def prod.case
    using once live truth handed by (simp add: rest)
qed

text \<open>
  A trace with a cancelled operation, a partial write, impossible progress and a recovery, on which
  the theorem is applied.
\<close>

definition demo_sim_config :: SimulationConfig where
  "demo_sim_config = \<lparr>sim_endpoint = 1, sim_lane = 2, sim_connection = 3, sim_epoch = 5, sim_limits = demo_limits\<rparr>"

definition demo_sim_frame :: SimFrame where
  "demo_sim_frame = \<lparr>sf_bytes = [10, 20, 30], sf_retained = 3\<rparr>"

definition demo_actions :: "TraceAction list" where
  "demo_actions = [TraceOpenAdmission TargetCurrent, TraceSubmit 0 demo_options demo_sim_frame,
     TraceSubmit 0 demo_options demo_sim_frame, TraceCancel 1 TargetCurrent, TraceAdvanceWrite 2, TraceAdvanceWrite 7,
     TraceRecover, TraceSubmit 0 demo_options demo_sim_frame]"

theorem trace_replay_accounts_witness:
  "\<exists>st obs. replay_run counting_externals 7 demo_sim_config demo_actions = (st, obs) \<and>
     mset (map fst (reported result_told obs) @ map ro_operation (reported result_recovered obs) @
       live_ids (pending (core_machine (fst st)))) = {#0, 1#}"
proof -
  let ?r = "replay_run counting_externals 7 demo_sim_config demo_actions"
  have sub: "reported result_submitted (snd ?r) = [0, 1]" by code_simp
  have "limits_ok (sim_limits demo_sim_config)"
    by (simp add: demo_sim_config_def limits_ok_def demo_limits_def USIZE_MAX_def)
  moreover have "\<forall>action \<in> set demo_actions. \<forall>frame \<in> set (action_frames action). length (sf_bytes frame) \<le> USIZE_MAX"
    by (simp add: demo_actions_def demo_sim_frame_def USIZE_MAX_def)
  ultimately have w: "let (st, obs) = ?r;
      settled = map fst (reported result_told obs) @ map ro_operation (reported result_recovered obs) @
        live_ids (pending (core_machine (fst st)))
    in distinct settled \<and> set (reported result_submitted obs) = set settled"
    using trace_replay_accounts [OF counting_externals_ok, of demo_sim_config demo_actions 7]
    by (simp add: Let_def case_prod_unfold)
  have two: "mset xs = {#0, 1#}" if "distinct xs" "set [0, 1] = set xs" for xs :: "OperationId list"
    using that set_eq_iff_mset_eq_distinct [of "[0, 1]" xs] by simp
  obtain st obs where r: "?r = (st, obs)" by (rule prod.exhaust)
  have "distinct (map fst (reported result_told obs) @ map ro_operation (reported result_recovered obs) @
      live_ids (pending (core_machine (fst st)))) \<and>
    set [0, 1] = set (map fst (reported result_told obs) @ map ro_operation (reported result_recovered obs) @
      live_ids (pending (core_machine (fst st))))"
    using w sub unfolding r by (simp only: Let_def prod.case snd_conv)
  then show ?thesis using two r by blast
qed

end
