(* ===== verification/SimSlot.thy ===== *)
theory SimSlot
  imports SlotTheorems SimTransport SimCore
begin

text \<open>
  \<^verbatim>\<open>crates/bornera-sim/src/slot_trace.rs\<close>, \<^verbatim>\<open>slot_apply.rs\<close>, \<^verbatim>\<open>slot_replay.rs\<close>, \<^verbatim>\<open>slot_report.rs\<close> and \<^verbatim>\<open>slot_config.rs\<close>: the
  replay of timed stimuli on one slot over the in-memory transport. The virtual timeline comes from
  the crate calandria-sim and is a parameter; nothing is assumed of it, so the properties hold for
  any order in which events are delivered.
\<close>

section \<open>Traces\<close>

datatype SlotAction =
    ActConnectReady
  | ActOpenAdmission
  | ActSubmit OperationOptions SimFrame
  | ActWriteReady usize
  | ActReply OperationIndex SimFrame
  | ActCancel OperationIndex
  | ActBeginDrain Deadline
  | ActClose CloseReason
  | ActPeerClosed
  | ActSettleTransport
  | ActDrive
  | ActRecover OwnerFailure

fun slot_action_retained_bytes :: "SlotAction \<Rightarrow> RetainedBytes" where
  "slot_action_retained_bytes (ActSubmit _ frame) = sf_retained frame"
| "slot_action_retained_bytes (ActReply _ payload) = sf_retained payload"
| "slot_action_retained_bytes _ = 0"

record SlotTraceLimits =
  stl_actions :: usize
  stl_retained_bytes :: RetainedBytes

record TimedSlotAction =
  tsa_at :: Moment
  tsa_action :: SlotAction

record SlotTrace =
  sta_limits :: SlotTraceLimits
  sta_actions :: "TimedSlotAction list"
  sta_retained_bytes :: RetainedBytes

datatype SlotTraceAdmissionFailure = SlotActionCapacity | SlotByteCapacity

record SlotTraceAdmissionError =
  stae_at :: Moment
  stae_action :: SlotAction
  stae_failure :: SlotTraceAdmissionFailure

definition slot_trace_new :: "SlotTraceLimits \<Rightarrow> SlotTrace" where
  "slot_trace_new limits = \<lparr>sta_limits = limits, sta_actions = [], sta_retained_bytes = 0\<rparr>"

definition slot_trace_try_push ::
  "'g externals \<Rightarrow> Moment \<Rightarrow> SlotAction \<Rightarrow> SlotTrace \<Rightarrow> (SlotTraceAdmissionError + unit) \<times> SlotTrace" where
  "slot_trace_try_push X at action t =
     (let refuse = (\<lambda>failure. (Inl \<lparr>stae_at = at, stae_action = action, stae_failure = failure\<rparr>, t)) in
      if length (sta_actions t) \<ge> stl_actions (sta_limits t) then refuse SlotActionCapacity
      else
        (case rb_checked_add X (sta_retained_bytes t) (slot_action_retained_bytes action) of
           None \<Rightarrow> refuse SlotByteCapacity
         | Some next \<Rightarrow>
             if next > stl_retained_bytes (sta_limits t) then refuse SlotByteCapacity
             else (Inr (), t\<lparr>sta_actions := sta_actions t @ [\<lparr>tsa_at = at, tsa_action = action\<rparr>],
                             sta_retained_bytes := next\<rparr>)))"

section \<open>Observations\<close>

datatype SlotActionFailure =
    FailUnknownOperation OperationIndex
  | FailReserve ReserveError
  | FailCommit FrameCommitFailure
  | FailOwner OwnerFailure
  | FailReplyEncoding
  | FailFrameEncoding
  | FailSimulatedInputCapacity
  | FailSlotRecovered

datatype SlotActionResult =
    ResConnectReady
  | ResAdmission InputDisposition
  | ResSubmitted OperationIndex OperationId MatchKey
  | ResSubmittedOwnerFailed OperationIndex OperationId MatchKey OwnerFailure
  | ResWriteReady usize
  | ResReplyInjected OperationIndex
  | ResCancelled CancelOutcome
  | ResDrain InputDisposition
  | ResClose InputDisposition
  | ResPeerClosed
  | ResTransportSettled bool
  | ResDriven
  | ResRejected SlotActionFailure
  | ResRecovered

datatype SlotObservationKind = KindAction usize SlotActionResult | KindDeadline

record SlotStepObservation =
  sso_at :: Moment
  sso_kind :: SlotObservationKind
  sso_progress :: "SlotProgress option"
  sso_drive_failure :: "SlotActionFailure option"
  sso_snapshot :: "ConnectionSlotSnapshot option"
  sso_recovery :: "(OutboundFrame, SimReply) RecoveryReport option"
  sso_outcomes :: "SimReply EngineOutcome list"
  sso_events :: "ConnectionEvent list"

record SlotReplayReport =
  srr_observations :: "SlotStepObservation list"
  srr_final_snapshot :: "ConnectionSlotSnapshot option"
  srr_outbound :: "byte list"
  srr_applied_policy :: "TcpSocketPolicy option"

section \<open>The replay owner\<close>

text \<open>The slot of the simulator: its own decoder, classifier and reply type, timers and batches as given.\<close>

type_synonym ('g, 'q, 'k, 'o, 'l) sim_slot = "('g, SimDecoder, unit, 'q, 'k, 'o, 'l) ConnectionSlot"
type_synonym ('g, 'q, 'k, 'o, 'l) sim_services = "('g, SimDecoder, SimReply, SimWireError, unit, 'q, 'k, 'o, 'l) services"

definition sim_services ::
  "'g externals \<Rightarrow> ('q, 'k) TimerQueue \<Rightarrow> ('o, SimReply EngineOutcome) EventBatch \<Rightarrow>
   ('l, ConnectionEvent) EventBatch \<Rightarrow> ('g, 'q, 'k, 'o, 'l) sim_services" where
  "sim_services X timers outcomes events =
     \<lparr>sv_externals = X, sv_decoder = sim_frame_decoder X,
      sv_reply_key = (\<lambda>frame c. (case sim_reply_key frame of Inl _ \<Rightarrow> None | Inr key \<Rightarrow> Some key, c)),
      sv_frame_retained = sim_reply_retained_bytes X, sv_timers = timers, sv_outcomes = outcomes, sv_events = events\<rparr>"

datatype ReplayEvent = ReplayAction usize SlotAction | ReplayDeadline

fun replay_event_retained_bytes :: "ReplayEvent \<Rightarrow> RetainedBytes" where
  "replay_event_retained_bytes (ReplayAction _ action) = slot_action_retained_bytes action"
| "replay_event_retained_bytes ReplayDeadline = 0"

record ('g, 'q, 'k, 'o, 'l, 'v) ReplayOwner =
  rw_slot :: "('g, 'q, 'k, 'o, 'l) sim_slot option"
  rw_transport :: SimTransport
  rw_accepted :: "Accepted list"
  rw_observations :: "SlotStepObservation list"
  rw_recovery :: "(OutboundFrame, SimReply) RecoveryReport option"
  rw_deadline :: "'v option"
  rw_horizon :: "Moment option"

definition rejected_owner :: "EngineError \<Rightarrow> SlotActionResult" where
  "rejected_owner error = ResRejected (FailOwner (owner_failure_from error))"

definition owner_result :: "('a \<Rightarrow> SlotActionResult) \<Rightarrow> EngineError + 'a \<Rightarrow> SlotActionResult" where
  "owner_result f result = (case result of Inl error \<Rightarrow> rejected_owner error | Inr x \<Rightarrow> f x)"

text \<open>
  \<^verbatim>\<open>submit\<close> in \<^verbatim>\<open>slot_apply.rs\<close>: a permit that comes back from a refused commit is dropped with the error.
\<close>

definition slot_submit ::
  "('g, 'q, 'k, 'o, 'l) sim_services \<Rightarrow> OperationPermit \<Rightarrow> SimFrame \<Rightarrow> ('g, 'q, 'k, 'o, 'l) sim_slot \<Rightarrow> Accepted list \<Rightarrow>
   SlotActionResult \<times> ('g, 'q, 'k, 'o, 'l) sim_slot \<times> Accepted list" where
  "slot_submit S permit frame s accepted =
     (let operation = permit_operation permit;
          key = res_match_key (permit_reservation permit);
          dropped = (\<lambda>p s. s\<lparr>sl_core := drop_permit (sv_externals S) p (sl_core s)\<rparr>)
      in case outbound_frame_copy_from_slice (sv_externals S) (sf_bytes frame) of
           Inl _ \<Rightarrow> (ResRejected FailFrameEncoding, dropped permit s, accepted)
         | Inr outbound \<Rightarrow>
             (case slot_commit S permit outbound s of
                (Inr committed, s1) \<Rightarrow>
                  (ResSubmitted (length accepted) committed key, s1,
                   accepted @ [\<lparr>ac_operation = operation, ac_key = key\<rparr>])
              | (Inl (Rejected error), s1) \<Rightarrow>
                  (ResRejected (FailCommit (ce_failure error)), dropped (ce_permit error) s1, accepted)
              | (Inl (AcceptedOwnerFailure committed source), s1) \<Rightarrow>
                  (ResSubmittedOwnerFailed (length accepted) committed key (owner_failure_from source), s1,
                   accepted @ [\<lparr>ac_operation = committed, ac_key = key\<rparr>])
              | (Inl (CommitOwnerFailed reason p _), s1) \<Rightarrow>
                  (ResRejected (FailOwner reason), dropped p s1, accepted)))"

type_synonym ('g, 'q, 'k, 'o, 'l, 'v) action_step =
  "SlotActionResult \<times> ('g, 'q, 'k, 'o, 'l, 'v) ReplayOwner"

text \<open>The actions on a slot that is still there.\<close>

fun act_on_slot ::
  "('g, 'q, 'k, 'o, 'l) sim_services \<Rightarrow> Moment \<Rightarrow> SlotAction \<Rightarrow> ('g, 'q, 'k, 'o, 'l) sim_slot \<Rightarrow>
   ('g, 'q, 'k, 'o, 'l, 'v) ReplayOwner \<Rightarrow> ('g, 'q, 'k, 'o, 'l, 'v) action_step" where
  "act_on_slot S now ActConnectReady s ow = (ResConnectReady, ow\<lparr>rw_transport := observe_connect_ready (rw_transport ow)\<rparr>)"
| "act_on_slot S now ActOpenAdmission s ow =
     (case slot_open_admission S s of (r, s1) \<Rightarrow> (owner_result ResAdmission r, ow\<lparr>rw_slot := Some s1\<rparr>))"
| "act_on_slot S now (ActSubmit options frame) s ow =
     (case slot_reserve S now options s of
        (Inl error, s1) \<Rightarrow> (ResRejected (FailReserve error), ow\<lparr>rw_slot := Some s1\<rparr>)
      | (Inr permit, s1) \<Rightarrow>
          (case slot_submit S permit frame s1 (rw_accepted ow) of
             (result, s2, accepted) \<Rightarrow> (result, ow\<lparr>rw_slot := Some s2, rw_accepted := accepted\<rparr>)))"
| "act_on_slot S now (ActWriteReady bytes) s ow =
     (ResWriteReady bytes, ow\<lparr>rw_transport := allow_write bytes (rw_transport ow)\<rparr>)"
| "act_on_slot S now (ActReply operation payload) s ow =
     (case accepted_operation (rw_accepted ow) operation of
        None \<Rightarrow> (ResRejected (FailUnknownOperation operation), ow)
      | Some accepted \<Rightarrow>
          (case encode_reply (ac_key accepted) payload of
             Inl _ \<Rightarrow> (ResRejected FailReplyEncoding, ow)
           | Inr encoded \<Rightarrow>
               (case inject_read encoded (rw_transport ow) of
                  (Inr _, t) \<Rightarrow> (ResReplyInjected operation, ow\<lparr>rw_transport := t\<rparr>)
                | (Inl _, t) \<Rightarrow> (ResRejected FailSimulatedInputCapacity, ow\<lparr>rw_transport := t\<rparr>))))"
| "act_on_slot S now (ActCancel operation) s ow =
     (case accepted_operation (rw_accepted ow) operation of
        None \<Rightarrow> (ResRejected (FailUnknownOperation operation), ow)
      | Some accepted \<Rightarrow>
          (case slot_cancel S (ac_operation accepted) s of (r, s1) \<Rightarrow> (owner_result ResCancelled r, ow\<lparr>rw_slot := Some s1\<rparr>)))"
| "act_on_slot S now (ActBeginDrain deadline) s ow =
     (case slot_begin_drain S deadline s of (r, s1) \<Rightarrow> (owner_result ResDrain r, ow\<lparr>rw_slot := Some s1\<rparr>))"
| "act_on_slot S now (ActClose reason) s ow =
     (case slot_finalize S reason s of (r, s1) \<Rightarrow> (owner_result ResClose r, ow\<lparr>rw_slot := Some s1\<rparr>))"
| "act_on_slot S now ActPeerClosed s ow = (ResPeerClosed, ow\<lparr>rw_transport := observe_peer_closed (rw_transport ow)\<rparr>)"
| "act_on_slot S now ActSettleTransport s ow =
     (if ss_owner_failure (slot_snapshot S s) \<noteq> None \<or> transport_release_ready s
      then (case settle_transport_closed S s of
              (settled, s1) \<Rightarrow>
                (ResTransportSettled settled, ow\<lparr>rw_slot := Some s1, rw_transport := sim_close (rw_transport ow)\<rparr>))
      else (ResTransportSettled False, ow))"
| "act_on_slot S now ActDrive s ow = (ResDriven, ow)"
| "act_on_slot S now (ActRecover reason) s ow =
     (ResRecovered, ow\<lparr>rw_slot := None, rw_transport := sim_close (rw_transport ow),
                       rw_recovery := Some (slot_recover S reason s)\<rparr>)"

definition apply_action ::
  "('g, 'q, 'k, 'o, 'l) sim_services \<Rightarrow> Moment \<Rightarrow> SlotAction \<Rightarrow> ('g, 'q, 'k, 'o, 'l, 'v) ReplayOwner \<Rightarrow>
   ('g, 'q, 'k, 'o, 'l, 'v) action_step" where
  "apply_action S now action ow =
     (case rw_slot ow of
        None \<Rightarrow> (ResRejected FailSlotRecovered, ow)
      | Some s \<Rightarrow> act_on_slot S now action s ow)"

text \<open>\<open>None\<close> would mean that the quantum does not return. The transport is lent to the quantum and comes back.\<close>

definition replay_drive ::
  "('g, 'q, 'k, 'o, 'l) sim_services \<Rightarrow> Moment \<Rightarrow> ('g, 'q, 'k, 'o, 'l, 'v) ReplayOwner \<Rightarrow>
   ((SlotProgress option \<times> SlotActionFailure option) \<times> ('g, 'q, 'k, 'o, 'l, 'v) ReplayOwner) option" where
  "replay_drive S now ow =
     (case rw_slot ow of
        None \<Rightarrow> Some ((None, None), ow)
      | Some s \<Rightarrow>
          map_option
            (\<lambda>(r, s1, transport).
               ((case r of Inr progress \<Rightarrow> (Some progress, None) | Inl error \<Rightarrow> (None, Some (FailOwner (owner_failure_from error)))),
                ow\<lparr>rw_slot := Some s1,
                   rw_transport := (case transport of None \<Rightarrow> rw_transport ow | Some t \<Rightarrow> t)\<rparr>))
            (drive_quantum S (sim_slot_transport (sv_externals S)) now s (Some (rw_transport ow))))"

definition replay_observe ::
  "('g, 'q, 'k, 'o, 'l) sim_services \<Rightarrow> ('g, 'q, 'k, 'o, 'l, 'v) ReplayOwner \<Rightarrow>
   (ConnectionSlotSnapshot option \<times> SimReply EngineOutcome list \<times> ConnectionEvent list) \<times> ('g, 'q, 'k, 'o, 'l, 'v) ReplayOwner" where
  "replay_observe S ow =
     (case rw_slot ow of
        None \<Rightarrow> ((None, [], []), ow)
      | Some s \<Rightarrow>
          (let snapshot = slot_snapshot S s;
               (outcomes, s1) = drain_outcomes S s;
               (events, s2) = drain_events S s1
           in ((Some snapshot, outcomes, events), ow\<lparr>rw_slot := Some s2\<rparr>)))"

section \<open>Events and the timeline\<close>

text \<open>What \<^verbatim>\<open>calandria_sim::Timeline\<close> offers: a queue of events with a clock, and tokens that
  know their moment. An event is scheduled together with the charge the timeline asks it for.\<close>

typedecl ScheduleFailure
typedecl TimelineId

record ('w, 'v) Timeline =
  tm_new :: "TimelineId \<Rightarrow> usize \<times> RetainedBytes \<Rightarrow> 'w"
  tm_schedule_at :: "Moment \<Rightarrow> RetainedBytes \<Rightarrow> ReplayEvent \<Rightarrow> 'w \<Rightarrow> (ScheduleFailure + 'v) \<times> 'w"
  tm_cancel :: "'v \<Rightarrow> 'w \<Rightarrow> 'w"
  tm_pop_next :: "'w \<Rightarrow> ('v \<times> ReplayEvent) option \<times> 'w"
  tm_now :: "'w \<Rightarrow> Moment"
  tm_at :: "'v \<Rightarrow> Moment"

text \<open>The second half of \<^verbatim>\<open>apply_event\<close>: drive, drain and record.\<close>

definition finish_event ::
  "('g, 'q, 'k, 'o, 'l) sim_services \<Rightarrow> Moment \<Rightarrow> SlotObservationKind \<Rightarrow> ('g, 'q, 'k, 'o, 'l, 'v) ReplayOwner \<Rightarrow>
   ('g, 'q, 'k, 'o, 'l, 'v) ReplayOwner option" where
  "finish_event S at kind ow1 =
     (case replay_drive S at ow1 of
        None \<Rightarrow> None
      | Some ((progress, drive_failure), ow2) \<Rightarrow>
          (case replay_observe S ow2 of
             ((snapshot, outcomes, events), ow3) \<Rightarrow>
               Some (ow3\<lparr>rw_recovery := None,
                         rw_observations := rw_observations ow3 @
                           [\<lparr>sso_at = at, sso_kind = kind, sso_progress = progress, sso_drive_failure = drive_failure,
                             sso_snapshot = snapshot, sso_recovery = rw_recovery ow3, sso_outcomes = outcomes,
                             sso_events = events\<rparr>]\<rparr>)))"

definition apply_event ::
  "('g, 'q, 'k, 'o, 'l) sim_services \<Rightarrow> ('w, 'v) Timeline \<Rightarrow> 'v \<Rightarrow> ReplayEvent \<Rightarrow>
   ('g, 'q, 'k, 'o, 'l, 'v) ReplayOwner \<Rightarrow> ('g, 'q, 'k, 'o, 'l, 'v) ReplayOwner option" where
  "apply_event S L token event ow =
     (let at = tm_at L token in
      case event of
        ReplayAction index action \<Rightarrow>
          (case apply_action S at action ow of (result, ow1) \<Rightarrow> finish_event S at (KindAction index result) ow1)
      | ReplayDeadline \<Rightarrow>
          finish_event S at KindDeadline (if rw_deadline ow = Some token then ow\<lparr>rw_deadline := None\<rparr> else ow))"

datatype SlotReplayError =
    TimelineCapacityOverflow | Schedule ScheduleFailure | SlotConstruction | TransportConstruction

definition desired_deadline ::
  "('g, 'q, 'k, 'o, 'l) sim_services \<Rightarrow> ('g, 'q, 'k, 'o, 'l, 'v) ReplayOwner \<Rightarrow> Moment option" where
  "desired_deadline S ow =
     (case rw_slot ow of
        None \<Rightarrow> None
      | Some s \<Rightarrow>
          if ss_owner_failure (slot_snapshot S s) \<noteq> None then None
          else
            (case slot_next_deadline S s of
               None \<Rightarrow> None
             | Some at \<Rightarrow>
                 (case rw_horizon ow of
                    None \<Rightarrow> None
                  | Some horizon \<Rightarrow> if at \<le> horizon then Some at else None)))"

definition sync_deadline ::
  "('g, 'q, 'k, 'o, 'l) sim_services \<Rightarrow> ('w, 'v) Timeline \<Rightarrow> ('g, 'q, 'k, 'o, 'l, 'v) ReplayOwner \<Rightarrow> 'w \<Rightarrow>
   (SlotReplayError + unit) \<times> ('g, 'q, 'k, 'o, 'l, 'v) ReplayOwner \<times> 'w" where
  "sync_deadline S L ow timeline =
     (let desired = desired_deadline S ow in
      if map_option (tm_at L) (rw_deadline ow) = desired then (Inr (), ow, timeline)
      else
        (let (ow1, timeline1) =
               (case rw_deadline ow of
                  None \<Rightarrow> (ow, timeline)
                | Some token \<Rightarrow> (ow\<lparr>rw_deadline := None\<rparr>, tm_cancel L token timeline))
         in case desired of
              None \<Rightarrow> (Inr (), ow1, timeline1)
            | Some at \<Rightarrow>
                (case tm_schedule_at L (max at (tm_now L timeline1)) (replay_event_retained_bytes ReplayDeadline) ReplayDeadline timeline1 of
                   (Inl failure, timeline2) \<Rightarrow> (Inl (Schedule failure), ow1, timeline2)
                 | (Inr token, timeline2) \<Rightarrow> (Inr (), ow1\<lparr>rw_deadline := Some token\<rparr>, timeline2))))"

definition slot_replay_report ::
  "('g, 'q, 'k, 'o, 'l) sim_services \<Rightarrow> ('g, 'q, 'k, 'o, 'l, 'v) ReplayOwner \<Rightarrow> SlotReplayReport" where
  "slot_replay_report S ow =
     \<lparr>srr_observations = rw_observations ow, srr_final_snapshot = map_option (slot_snapshot S) (rw_slot ow),
      srr_outbound = st_outbound (rw_transport ow), srr_applied_policy = st_applied_policy (rw_transport ow)\<rparr>"

text \<open>The loop of \<^verbatim>\<open>SlotSimulator::replay\<close>; whether it ends depends on the timeline.\<close>

partial_function (option) replay_loop ::
  "('g, 'q, 'k, 'o, 'l) sim_services \<Rightarrow> ('w, 'v) Timeline \<Rightarrow> ('g, 'q, 'k, 'o, 'l, 'v) ReplayOwner \<Rightarrow> 'w \<Rightarrow>
   (SlotReplayError + ('g, 'q, 'k, 'o, 'l, 'v) ReplayOwner) option" where
  "replay_loop S L ow timeline =
     (case tm_pop_next L timeline of
        (None, timeline1) \<Rightarrow> Some (Inr ow)
      | (Some (token, event), timeline1) \<Rightarrow>
          (case apply_event S L token event ow of
             None \<Rightarrow> None
           | Some ow1 \<Rightarrow>
               (case sync_deadline S L ow1 timeline1 of
                  (Inl e, _) \<Rightarrow> Some (Inl e)
                | (Inr _, ow2, timeline2) \<Rightarrow> replay_loop S L ow2 timeline2)))"

record SlotSimulationConfig =
  ssc_slot :: ConnectionSlotConfig
  ssc_limits :: ConnectionSlotLimits
  ssc_timeline :: TimelineId

fun schedule_actions ::
  "('w, 'v) Timeline \<Rightarrow> usize \<Rightarrow> TimedSlotAction list \<Rightarrow> 'w \<Rightarrow> (SlotReplayError + unit) \<times> 'w" where
  "schedule_actions L index [] timeline = (Inr (), timeline)"
| "schedule_actions L index (entry # rest) timeline =
     (let event = ReplayAction index (tsa_action entry) in
      case tm_schedule_at L (tsa_at entry) (replay_event_retained_bytes event) event timeline of
        (Inl failure, timeline1) \<Rightarrow> (Inl (Schedule failure), timeline1)
      | (Inr _, timeline1) \<Rightarrow> schedule_actions L (Suc index) rest timeline1)"

definition replay_owner_new ::
  "'g externals \<Rightarrow> (usize \<Rightarrow> usize option) \<Rightarrow> ('g, 'q, 'k, 'o, 'l) sim_slot \<Rightarrow> TransportLimits \<Rightarrow> Moment option \<Rightarrow>
   SlotReplayError + ('g, 'q, 'k, 'o, 'l, 'v) ReplayOwner" where
  "replay_owner_new X A slot transport_limits horizon =
     (case sim_transport_new X A transport_limits of
        Inl _ \<Rightarrow> Inl TransportConstruction
      | Inr transport \<Rightarrow>
          Inr \<lparr>rw_slot = Some slot, rw_transport = transport, rw_accepted = [], rw_observations = [], rw_recovery = None,
               rw_deadline = None, rw_horizon = horizon\<rparr>)"

definition horizon_of :: "TimedSlotAction list \<Rightarrow> Moment option" where
  "horizon_of actions = (if actions = [] then None else Some (Max (tsa_at ` set actions)))"

definition slot_simulator_replay ::
  "('g, 'q, 'k, 'o, 'l) sim_services \<Rightarrow> ('w, 'v) Timeline \<Rightarrow> (usize \<Rightarrow> usize option) \<Rightarrow> LedgerRef \<Rightarrow>
   SlotSimulationConfig \<Rightarrow> SlotTrace \<Rightarrow> (SlotReplayError + SlotReplayReport) option" where
  "slot_simulator_replay S L A ref config trace =
     (let actions = sta_actions trace in
      case usize_checked_add (length actions) 1 of
        None \<Rightarrow> Some (Inl TimelineCapacityOverflow)
      | Some capacity \<Rightarrow>
          (case schedule_actions L 0 actions
                  (tm_new L (ssc_timeline config) (capacity, stl_retained_bytes (sta_limits trace))) of
             (Inl e, _) \<Rightarrow> Some (Inl e)
           | (Inr _, timeline) \<Rightarrow>
               (case Option.bind (usize_checked_mul (length actions) 2) (\<lambda>n. usize_checked_add n 1) of
                  None \<Rightarrow> Some (Inl TimelineCapacityOverflow)
                | Some _ \<Rightarrow>
                    (case slot_new S ref (ssc_slot config) (ssc_limits config)
                            (sim_decoder_new (reply_bytes (ssc_limits config))) () of
                       Inl _ \<Rightarrow> Some (Inl SlotConstruction)
                     | Inr slot \<Rightarrow>
                         (case replay_owner_new (sv_externals S) A slot (sl_transport (ssc_limits config)) (horizon_of actions) of
                            Inl e \<Rightarrow> Some (Inl e)
                          | Inr ow \<Rightarrow>
                              (case sync_deadline S L ow timeline of
                                 (Inl e, _) \<Rightarrow> Some (Inl e)
                               | (Inr _, ow1, timeline1) \<Rightarrow>
                                   map_option (map_sum id (slot_replay_report S)) (replay_loop S L ow1 timeline1)))))))"

section \<open>Replay refines the slot\<close>

text \<open>The history of a slot as its observations tell it. No permit is left between two events.\<close>

fun kind_submitted :: "SlotObservationKind \<Rightarrow> OperationId list" where
  "kind_submitted (KindAction _ (ResSubmitted _ operation _)) = [operation]"
| "kind_submitted (KindAction _ (ResSubmittedOwnerFailed _ operation _ _)) = [operation]"
| "kind_submitted _ = []"

definition observed_history :: "SlotStepObservation list \<Rightarrow> SimReply slot_history" where
  "observed_history obs =
     \<lparr>sh_permits = [], sh_accepted = concat (map (kind_submitted \<circ> sso_kind) obs),
      sh_delivered = concat (map sso_outcomes obs), sh_seen = concat (map sso_events obs)\<rparr>"

definition recoveries :: "SlotStepObservation list \<Rightarrow> (OutboundFrame, SimReply) RecoveryReport list" where
  "recoveries obs = concat (map (\<lambda>ob. case sso_recovery ob of None \<Rightarrow> [] | Some r \<Rightarrow> [r]) obs)"

fun event_fits :: "ReplayEvent \<Rightarrow> bool" where
  "event_fits (ReplayAction _ (ActSubmit _ frame)) \<longleftrightarrow> length (sf_bytes frame) \<le> USIZE_MAX"
| "event_fits _ \<longleftrightarrow> True"

abbreviation slot_runs ::
  "('g, 'q, 'k, 'o, 'l) sim_services \<Rightarrow> ('g, 'q, 'k, 'o, 'l) sim_slot \<times> SimReply slot_history \<Rightarrow>
   ('g, 'q, 'k, 'o, 'l) sim_slot \<times> SimReply slot_history \<Rightarrow> bool" where
  "slot_runs S \<equiv> (slot_step S (sim_slot_transport (sv_externals S)))\<^sup>*\<^sup>*"

lemma reachable_run:
  "slot_reachable S T s H \<Longrightarrow> (slot_step S T)\<^sup>*\<^sup>* (s, H) (s', H') \<Longrightarrow> slot_reachable S T s' H'"
  unfolding slot_reachable_def by (meson rtranclp_trans)

lemma drop_run:
  fixes S :: "('g, 'q, 'k, 'o, 'l) sim_services"
  assumes "slot_runs S a (s, H\<lparr>sh_permits := [p]\<rparr>)" "sh_permits H = []"
  shows "slot_runs S a (s\<lparr>sl_core := drop_permit (sv_externals S) p (sl_core s)\<rparr>, H)"
proof -
  have "slot_step S (sim_slot_transport (sv_externals S)) (s, H\<lparr>sh_permits := [p]\<rparr>)
      (s\<lparr>sl_core := drop_permit (sv_externals S) p (sl_core s)\<rparr>, H\<lparr>sh_permits := [p], sh_permits := [] @ []\<rparr>)"
    by (rule slot_step.dropped [where ps = "[]" and qs = "[]"]) simp
  with assms show ?thesis by (cases H) (simp add: rtranclp.rtrancl_into_rtrancl)
qed

text \<open>Submitting with a granted permit: the operation is accepted, or the permit is gone again.\<close>

lemma submit_run:
  fixes S :: "('g, 'q, 'k, 'o, 'l) sim_services"
  assumes run: "slot_runs S a (s, H\<lparr>sh_permits := [p]\<rparr>)" and H: "sh_permits H = []"
    and fits: "length (sf_bytes frame) \<le> USIZE_MAX" and r: "slot_submit S p frame s accepted = (result, s', accepted')"
  shows "slot_runs S a (s', H\<lparr>sh_accepted := sh_accepted H @ kind_submitted (KindAction index result)\<rparr>)"
proof (cases "outbound_frame_copy_from_slice (sv_externals S) (sf_bytes frame)")
  case (Inl e)
  then show ?thesis using r drop_run [OF run H] by (auto simp: slot_submit_def Let_def)
next
  case (Inr outbound)
  let ?T = "sim_slot_transport (sv_externals S)" and ?H = "H\<lparr>sh_permits := [p]\<rparr>"
  have wire: "length (of_bytes outbound) \<le> USIZE_MAX"
    using Inr fits by (auto simp: outbound_frame_copy_from_slice_def split: option.splits)
  have ps: "sh_permits ?H = [] @ p # []" by simp
  obtain rc s1 where c: "slot_commit S p outbound s = (rc, s1)" by (rule prod.exhaust)
  note then_step = rtranclp.rtrancl_into_rtrancl [OF run]
  consider (ok) i where "rc = Inr i" | (late) i e where "rc = Inl (AcceptedOwnerFailure i e)"
    | (no) e where "rc = Inl (Rejected e)" | (dead) reason p' f where "rc = Inl (CommitOwnerFailed reason p' f)"
    by (metis sum.exhaust EngineCommitError.exhaust)
  then show ?thesis
  proof cases
    case ok
    from then_step [OF slot_step.accepted [OF ps wire c [unfolded ok]]] show ?thesis
      using r Inr c ok H by (cases H) (auto simp: slot_submit_def Let_def)
  next
    case late
    from then_step [OF slot_step.accepted_failing [OF ps wire c [unfolded late]]] show ?thesis
      using r Inr c late H by (cases H) (auto simp: slot_submit_def Let_def)
  next
    case no
    from then_step [OF slot_step.rejected [OF ps wire c [unfolded no]]]
    have "slot_runs S a (s1, H\<lparr>sh_permits := [ce_permit e]\<rparr>)" by (cases H) simp
    from drop_run [OF this H] show ?thesis using r Inr c no by (auto simp: slot_submit_def Let_def)
  next
    case dead
    from then_step [OF slot_step.too_late [OF ps wire c [unfolded dead]]]
    have "slot_runs S a (s1, H\<lparr>sh_permits := [p']\<rparr>)" by (cases H) simp
    from drop_run [OF this H] show ?thesis using r Inr c dead by (auto simp: slot_submit_def Let_def)
  qed
qed

lemma no_submission: "(\<And>x. kind_submitted (KindAction index (f x)) = []) \<Longrightarrow> kind_submitted (KindAction index (owner_result f r)) = []"
  by (simp add: owner_result_def rejected_owner_def split: sum.split)

text \<open>What one action leaves: a later state of the slot, or the report of its recovery.\<close>

definition acted ::
  "('g, 'q, 'k, 'o, 'l) sim_services \<Rightarrow> usize \<Rightarrow> ('g, 'q, 'k, 'o, 'l) sim_slot \<Rightarrow> SimReply slot_history \<Rightarrow>
   ('g, 'q, 'k, 'o, 'l, 'v) ReplayOwner \<Rightarrow> ('g, 'q, 'k, 'o, 'l, 'v) action_step \<Rightarrow> bool" where
  "acted S index s H ow out \<longleftrightarrow>
     rw_observations (snd out) = rw_observations ow \<and>
     (\<exists>s'. slot_runs S (s, H) (s', H\<lparr>sh_accepted := sh_accepted H @ kind_submitted (KindAction index (fst out))\<rparr>) \<and>
        (rw_slot (snd out) = Some s' \<and> rw_recovery (snd out) = rw_recovery ow \<or>
         rw_slot (snd out) = None \<and> (\<exists>reason. rw_recovery (snd out) = Some (slot_recover S reason s'))))"

lemma acted_step:
  fixes S :: "('g, 'q, 'k, 'o, 'l) sim_services"
  assumes "rw_slot ow' = Some s'" "s' = s \<or> slot_step S (sim_slot_transport (sv_externals S)) (s, H) (s', H)"
    "kind_submitted (KindAction index r) = []" "rw_observations ow' = rw_observations ow" "rw_recovery ow' = rw_recovery ow"
  shows "acted S index s H ow (r, ow')"
  using assms by (auto simp: acted_def intro: exI [of _ s'])

lemma submit_acted:
  fixes S :: "('g, 'q, 'k, 'o, 'l) sim_services" and ow :: "('g, 'q, 'k, 'o, 'l, 'v) ReplayOwner"
  assumes H: "sh_permits H = []" and fits: "length (sf_bytes frame) \<le> USIZE_MAX"
  shows "acted S index s H ow (act_on_slot S now (ActSubmit options frame) s ow)"
proof -
  obtain r s1 where res: "slot_reserve S now options s = (r, s1)" by (rule prod.exhaust)
  show ?thesis
  proof (cases r)
    case (Inl e)
    then show ?thesis using res by (auto intro!: acted_step slot_step.refused)
  next
    case (Inr p)
    from slot_step.granted [OF res [unfolded Inr]] H
    have run: "slot_runs S (s, H) (s1, H\<lparr>sh_permits := [p]\<rparr>)" by (metis append_Nil r_into_rtranclp)
    obtain result s2 accepted where sub: "slot_submit S p frame s1 (rw_accepted ow) = (result, s2, accepted)" by (metis prod_cases3)
    from submit_run [OF run H fits sub] show ?thesis using res Inr sub by (auto simp: acted_def)
  qed
qed

lemma action_acted:
  fixes S :: "('g, 'q, 'k, 'o, 'l) sim_services" and ow :: "('g, 'q, 'k, 'o, 'l, 'v) ReplayOwner"
  assumes s: "rw_slot ow = Some s" and H: "sh_permits H = []" and fits: "event_fits (ReplayAction index action)"
  shows "acted S index s H ow (apply_action S now action ow)"
proof -
  note control = slot_step.open_admission slot_step.cancel slot_step.begin_drain slot_step.finalize slot_step.settle
  have "acted S index s H ow (act_on_slot S now action s ow)"
  proof (cases action)
    case (ActSubmit options frame)
    then show ?thesis using submit_acted [OF H, of frame] fits by simp
  next
    case (ActRecover reason)
    then show ?thesis by (auto simp: acted_def)
  qed (use s in \<open>auto intro!: acted_step no_submission intro: control split: prod.split option.split sum.split\<close>)
  with s show ?thesis by (simp add: apply_action_def)
qed

subsection \<open>Whole events\<close>

text \<open>
  The owner of a replay with the slot \<open>s\<close> behind it: the slot it still has, or the one it has recovered,
  was reached by a run with the history of the observations.
\<close>

definition replayed ::
  "('g, 'q, 'k, 'o, 'l) sim_services \<Rightarrow> SimReply slot_history \<Rightarrow> ('g, 'q, 'k, 'o, 'l) sim_slot \<Rightarrow>
   (OutboundFrame, SimReply) RecoveryReport list \<Rightarrow> ('g, 'q, 'k, 'o, 'l) sim_slot option \<Rightarrow> bool" where
  "replayed S H s rs slot \<longleftrightarrow>
     slot_reachable S (sim_slot_transport (sv_externals S)) s H \<and>
     (case slot of Some s' \<Rightarrow> s' = s \<and> rs = [] | None \<Rightarrow> \<exists>reason. rs = [slot_recover S reason s])"

definition replay_slot_inv ::
  "('g, 'q, 'k, 'o, 'l) sim_services \<Rightarrow> ('g, 'q, 'k, 'o, 'l, 'v) ReplayOwner \<Rightarrow> bool" where
  "replay_slot_inv S ow \<longleftrightarrow>
     rw_recovery ow = None \<and>
     (\<exists>s. replayed S (observed_history (rw_observations ow)) s (recoveries (rw_observations ow)) (rw_slot ow))"

lemma finish_gone:
  assumes "replayed S H s (recoveries obs @ (case rw_recovery ow of None \<Rightarrow> [] | Some r \<Rightarrow> [r])) (rw_slot ow)" "rw_slot ow = None"
    "rw_observations ow = obs"
    "H = (observed_history obs)\<lparr>sh_accepted := sh_accepted (observed_history obs) @ kind_submitted kind\<rparr>"
  shows "\<exists>ow'. finish_event S at kind ow = Some ow' \<and> replay_slot_inv S ow'"
  using assms
  by (auto simp: finish_event_def replay_drive_def replay_observe_def replay_slot_inv_def observed_history_def recoveries_def)

lemma finish_driven:
  fixes S :: "('g, 'q, 'k, 'o, 'l) sim_services"
  assumes S: "services_ok S V" and re: "slot_reachable S (sim_slot_transport (sv_externals S)) s H"
    and ow: "rw_slot ow = Some s" "rw_observations ow = obs" "rw_recovery ow = None" "recoveries obs = []"
    and H: "H = (observed_history obs)\<lparr>sh_accepted := sh_accepted (observed_history obs) @ kind_submitted kind\<rparr>"
  shows "\<exists>ow'. finish_event S at kind ow = Some ow' \<and> replay_slot_inv S ow'"
proof -
  let ?T = "sim_slot_transport (sv_externals S)"
  note inv = slot_reachable_inv [OF S sim_transport_wf re]
  obtain r s1 tr where q: "drive_quantum S ?T at s (Some (rw_transport ow)) = Some (r, s1, tr)"
    by (rule quantum_holds [OF S sim_transport_wf inv])
  obtain os s2 where o: "drain_outcomes S s1 = (os, s2)" by (rule prod.exhaust)
  obtain evs s3 where e: "drain_events S s2 = (evs, s3)" by (rule prod.exhaust)
  let ?H = "H\<lparr>sh_delivered := sh_delivered H @ os, sh_seen := sh_seen H @ evs\<rparr>"
  have "(slot_step S ?T)\<^sup>*\<^sup>* (s, H) (s3, ?H)"
    using slot_step.quantum [where H = H, OF q] slot_step.take_outcomes [where H = H and T = ?T, OF o]
      slot_step.take_events [where H = "H\<lparr>sh_delivered := sh_delivered H @ os\<rparr>" and T = ?T, OF e]
    by simp
  from reachable_run [OF re this] show ?thesis
    using q o e ow
    by (cases r) (auto simp: finish_event_def replay_drive_def replay_observe_def replay_slot_inv_def replayed_def
        observed_history_def recoveries_def H)
qed

theorem event_replayed:
  fixes S :: "('g, 'q, 'k, 'o, 'l) sim_services" and ow :: "('g, 'q, 'k, 'o, 'l, 'v) ReplayOwner"
  assumes S: "services_ok S V" and inv: "replay_slot_inv S ow" and fits: "event_fits event"
  shows "\<exists>ow'. apply_event S L token event ow = Some ow' \<and> replay_slot_inv S ow'"
proof -
  let ?obs = "rw_observations ow" let ?H = "observed_history ?obs"
  obtain s where s: "replayed S ?H s (recoveries ?obs) (rw_slot ow)" and none: "rw_recovery ow = None"
    using inv by (auto simp: replay_slot_inv_def)
  note re = s [unfolded replayed_def, THEN conjunct1]
  show ?thesis
  proof (cases event)
    case ReplayDeadline
    let ?ow = "if rw_deadline ow = Some token then ow\<lparr>rw_deadline := None\<rparr> else ow"
    have ow: "rw_slot ?ow = rw_slot ow" "rw_observations ?ow = ?obs" "rw_recovery ?ow = None" using none by simp_all
    have H: "?H = ?H\<lparr>sh_accepted := sh_accepted ?H @ kind_submitted KindDeadline\<rparr>" by simp
    have "\<exists>ow'. finish_event S (tm_at L token) KindDeadline ?ow = Some ow' \<and> replay_slot_inv S ow'"
    proof (cases "rw_slot ow")
      case None
      then show ?thesis using finish_gone [OF _ _ ow(2) H, of S s] s ow(1,3) by simp
    next
      case (Some s')
      then show ?thesis using finish_driven [OF S re _ ow(2,3) _ H] s ow(1) by (simp add: replayed_def)
    qed
    then show ?thesis using ReplayDeadline by (simp add: apply_event_def Let_def)
  next
    case (ReplayAction index action)
    obtain result ow1 where a: "apply_action S (tm_at L token) action ow = (result, ow1)" by (rule prod.exhaust)
    let ?H1 = "?H\<lparr>sh_accepted := sh_accepted ?H @ kind_submitted (KindAction index result)\<rparr>"
    have "\<exists>ow'. finish_event S (tm_at L token) (KindAction index result) ow1 = Some ow' \<and> replay_slot_inv S ow'"
    proof (cases "rw_slot ow")
      case None
      then have o1: "ow1 = ow" "result = ResRejected FailSlotRecovered" using a by (simp_all add: apply_action_def)
      have "?H = ?H\<lparr>sh_accepted := sh_accepted ?H @ kind_submitted (KindAction index result)\<rparr>" by (simp add: o1)
      from finish_gone [OF _ None refl this, of S s] s none show ?thesis by (simp add: o1)
    next
      case (Some s')
      then have s': "rw_slot ow = Some s" "recoveries ?obs = []" using s by (simp_all add: replayed_def)
      have "acted S index s ?H ow (result, ow1)"
        using action_acted [OF s'(1), of ?H index action S "tm_at L token"] fits ReplayAction a
        by (simp add: observed_history_def)
      then obtain s1 where run: "slot_runs S (s, ?H) (s1, ?H1)" and o1: "rw_observations ow1 = ?obs"
        and alt: "rw_slot ow1 = Some s1 \<and> rw_recovery ow1 = None \<or>
          rw_slot ow1 = None \<and> (\<exists>reason. rw_recovery ow1 = Some (slot_recover S reason s1))"
        using none by (auto simp: acted_def)
      have re1: "slot_reachable S (sim_slot_transport (sv_externals S)) s1 ?H1" by (rule reachable_run [OF re run])
      from alt show ?thesis
      proof (elim disjE conjE exE)
        assume "rw_slot ow1 = Some s1" "rw_recovery ow1 = None"
        then show ?thesis using finish_driven [OF S re1 _ o1 _ s'(2) refl] by blast
      next
        fix reason assume g: "rw_slot ow1 = None" "rw_recovery ow1 = Some (slot_recover S reason s1)"
        then have "replayed S ?H1 s1 (recoveries ?obs @ (case rw_recovery ow1 of None \<Rightarrow> [] | Some r \<Rightarrow> [r])) (rw_slot ow1)"
          using re1 s'(2) by (auto simp: replayed_def)
        from finish_gone [OF this g(1) o1 refl] show ?thesis .
      qed
    qed
    then show ?thesis using ReplayAction a by (simp add: apply_event_def Let_def)
  qed
qed

text \<open>Each event leaves one observation.\<close>

lemma action_observations [simp]: "rw_observations (snd (apply_action S now action ow)) = rw_observations ow"
proof -
  have "rw_observations (snd (act_on_slot S now action s ow)) = rw_observations ow" for s
    by (cases action) (auto split: prod.split sum.split option.split)
  then show ?thesis by (simp add: apply_action_def split: option.split)
qed

lemma finish_records: "finish_event S at kind ow = Some ow' \<Longrightarrow> length (rw_observations ow') = Suc (length (rw_observations ow))"
  by (auto simp: finish_event_def replay_drive_def replay_observe_def Let_def split: option.splits prod.splits)

lemma event_records:
  "apply_event S L token event ow = Some ow' \<Longrightarrow> length (rw_observations ow') = Suc (length (rw_observations ow))"
  by (auto simp: apply_event_def Let_def case_prod_unfold dest!: finish_records split: ReplayEvent.splits if_splits)

text \<open>All states a replay may come to, whatever the timeline delivers and however it answers.\<close>

inductive replay_reaches ::
  "('g, 'q, 'k, 'o, 'l) sim_services \<Rightarrow> ('w, 'v) Timeline \<Rightarrow> ('g, 'q, 'k, 'o, 'l, 'v) ReplayOwner \<Rightarrow> bool"
  for S :: "('g, 'q, 'k, 'o, 'l) sim_services" and L :: "('w, 'v) Timeline" where
  start: "slot_limits_new connection decoding io transport publication = Inr limits \<Longrightarrow> limits_ok connection \<Longrightarrow>
    io_operations_limit io \<le> USIZE_MAX \<Longrightarrow>
    slot_new S ref config limits (sim_decoder_new (reply_bytes limits)) () = Inr s \<Longrightarrow>
    replay_owner_new (sv_externals S) A s (sl_transport limits) horizon = Inr ow \<Longrightarrow> replay_reaches S L ow"
| event: "replay_reaches S L ow \<Longrightarrow> event_fits event \<Longrightarrow> apply_event S L token event ow = Some ow' \<Longrightarrow> replay_reaches S L ow'"
| sync: "replay_reaches S L ow \<Longrightarrow> sync_deadline S L ow timeline = (result, ow', timeline') \<Longrightarrow> replay_reaches S L ow'"

lemma sync_keeps:
  assumes "sync_deadline S L ow timeline = (result, ow', timeline')"
  shows "rw_slot ow' = rw_slot ow" "rw_observations ow' = rw_observations ow" "rw_recovery ow' = rw_recovery ow"
proof -
  have "rw_slot ow' = rw_slot ow \<and> rw_observations ow' = rw_observations ow \<and> rw_recovery ow' = rw_recovery ow"
    using assms by (auto simp: sync_deadline_def Let_def split: if_splits option.splits prod.splits sum.splits)
  then show "rw_slot ow' = rw_slot ow" "rw_observations ow' = rw_observations ow" "rw_recovery ow' = rw_recovery ow" by simp_all
qed

lemma replay_reaches_inv:
  assumes S: "services_ok S V" and re: "replay_reaches S L ow"
  shows "replay_slot_inv S ow"
  using re
proof (induction rule: replay_reaches.induct)
  case (start connection decoding io transport publication limits ref config s A horizon ow)
  then have "slot_initial S (s, \<lparr>sh_permits = [], sh_accepted = [], sh_delivered = [], sh_seen = []\<rparr>)"
    unfolding slot_initial_def by blast
  then have "slot_reachable S (sim_slot_transport (sv_externals S)) s (observed_history [])"
    unfolding slot_reachable_def observed_history_def by auto
  with start(5) show ?case
    by (auto simp: replay_owner_new_def replay_slot_inv_def replayed_def recoveries_def split: sum.splits)
next
  case (event ow event token ow')
  then show ?case using event_replayed [OF S event.IH event.hyps(2), of L token] by auto
next
  case (sync ow timeline result ow' timeline')
  then show ?case using sync_keeps [OF sync.hyps(2)] by (simp add: replay_slot_inv_def)
qed

text \<open>What the loop of the simulator returns is such a state.\<close>

definition delivers_fitting :: "('w, 'v) Timeline \<Rightarrow> bool" where
  "delivers_fitting L \<longleftrightarrow>
     (\<forall>timeline token event timeline'. tm_pop_next L timeline = (Some (token, event), timeline') \<longrightarrow> event_fits event)"

lemma replay_loop_reaches:
  assumes loop: "replay_loop S L ow timeline = Some (Inr ow')" and start: "replay_reaches S L ow" "delivers_fitting L"
  shows "replay_reaches S L ow'"
proof -
  have "delivers_fitting L \<longrightarrow> replay_reaches S L ow \<longrightarrow> (\<forall>ow''. (Inr ow' :: SlotReplayError + _) = Inr ow'' \<longrightarrow> replay_reaches S L ow'')"
  proof (rule replay_loop.raw_induct [where P = "\<lambda>S L ow timeline r. delivers_fitting L \<longrightarrow> replay_reaches S L ow \<longrightarrow>
      (\<forall>ow''. r = Inr ow'' \<longrightarrow> replay_reaches S L ow'')", OF _ loop], intro impI allI)
    fix rec S L ow timeline r ow''
    assume IH: "\<And>S L ow timeline r. rec S L ow timeline = Some r \<Longrightarrow> delivers_fitting L \<longrightarrow> replay_reaches S L ow \<longrightarrow>
        (\<forall>ow''. r = Inr ow'' \<longrightarrow> replay_reaches S L ow'')"
      and out: "(case tm_pop_next L timeline of (None, timeline1) \<Rightarrow> Some (Inr ow)
        | (Some (token, event), timeline1) \<Rightarrow>
            (case apply_event S L token event ow of None \<Rightarrow> None
             | Some ow1 \<Rightarrow> (case sync_deadline S L ow1 timeline1 of (Inl e, _) \<Rightarrow> Some (Inl e)
                 | (Inr _, ow2, timeline2) \<Rightarrow> rec S L ow2 timeline2))) = Some r"
      and L: "delivers_fitting L" and re: "replay_reaches S L ow" and r: "r = Inr ow''"
    show "replay_reaches S L ow''"
    proof (cases "fst (tm_pop_next L timeline)")
      case None
      then show ?thesis using out re r by (auto simp: case_prod_unfold)
    next
      case (Some te)
      then obtain token event timeline1 where pop: "tm_pop_next L timeline = (Some (token, event), timeline1)"
        by (metis prod.collapse)
      obtain ow1 where a: "apply_event S L token event ow = Some ow1" using out pop by (auto split: option.splits)
      obtain sr ow2 timeline2 where y: "sync_deadline S L ow1 timeline1 = (sr, ow2, timeline2)" by (metis prod_cases3)
      have fits: "event_fits event" using L pop by (auto simp: delivers_fitting_def)
      have "replay_reaches S L ow2" by (rule replay_reaches.sync [OF replay_reaches.event [OF re fits a] y])
      then show ?thesis using IH [of S L ow2 timeline2 r] L out pop a y r by (cases sr) auto
    qed
  qed
  with start show ?thesis by simp
qed

section \<open>The property\<close>

text \<open>
  C22. Whatever is delivered to a replay and in whatever order, each event is processed to its end, and
  the slot is a slot as its own theory knows it: it was reached by calls of the public operations
  with no permit left over, and the observations hold exactly what it accepted, delivered and
  published. After a recovery, the one report in the observations is the recovery of such a slot.
\<close>

theorem slot_replay_refines:
  assumes "services_ok S V" "replay_reaches S L ow"
  shows "(\<exists>s. slot_reachable S (sim_slot_transport (sv_externals S)) s (observed_history (rw_observations ow)) \<and>
      (case rw_slot ow of
         Some s' \<Rightarrow> s' = s \<and> recoveries (rw_observations ow) = []
       | None \<Rightarrow> \<exists>reason. recoveries (rw_observations ow) = [slot_recover S reason s])) \<and>
    (\<forall>token event. event_fits event \<longrightarrow>
       (\<exists>ow'. apply_event S L token event ow = Some ow' \<and> length (rw_observations ow') = Suc (length (rw_observations ow))))"
proof -
  note inv = replay_reaches_inv [OF assms]
  show ?thesis
    using inv event_replayed [OF assms(1) inv] event_records by (fastforce simp: replay_slot_inv_def replayed_def)
qed

section \<open>A replay\<close>

text \<open>A timeline that keeps a sorted list, and a small replay on which the property is applied.\<close>

definition list_timeline :: "((Moment \<times> ReplayEvent) list, Moment) Timeline" where
  "list_timeline =
     \<lparr>tm_new = (\<lambda>_ _. []),
      tm_schedule_at = (\<lambda>at charge event w. (Inr at, takeWhile (\<lambda>e. fst e \<le> at) w @ (at, event) # dropWhile (\<lambda>e. fst e \<le> at) w)),
      tm_cancel = (\<lambda>at w. filter (\<lambda>e. e \<noteq> (at, ReplayDeadline)) w),
      tm_pop_next = (\<lambda>w. case w of [] \<Rightarrow> (None, []) | e # es \<Rightarrow> (Some e, es)),
      tm_now = (\<lambda>w. case w of [] \<Rightarrow> 0 | e # _ \<Rightarrow> fst e), tm_at = (\<lambda>at. at)\<rparr>"

type_synonym demo_sim_services =
  "(nat \<times> nat, list_timers, nat, SimReply EngineOutcome list_batch, ConnectionEvent list_batch) sim_services"

definition demo_sim_services :: demo_sim_services where
  "demo_sim_services = sim_services CX list_timer_queue
     (list_event_batch (engine_outcome_retained_bytes (sim_reply_retained_bytes CX))) (list_event_batch (\<lambda>_. 0))"

definition demo_sim_views ::
  "(list_timers, nat, SimReply EngineOutcome list_batch, ConnectionEvent list_batch) views" where
  "demo_sim_views = \<lparr>vw_armed = (\<lambda>q. map_of (snd q)), vw_capacity = fst, vw_outcome_limits = fst, vw_event_limits = fst\<rparr>"

lemma demo_sim_services_ok: "services_ok demo_sim_services demo_sim_views"
  using counting_externals_ok list_timer_laws list_batch_laws [of "engine_outcome_retained_bytes (sim_reply_retained_bytes CX)"]
    list_batch_laws [of "\<lambda>_. 0"]
  by (simp add: services_ok_def demo_sim_services_def sim_services_def demo_sim_views_def)

definition demo_sim_limits :: ConnectionSlotLimits where
  "demo_sim_limits = \<lparr>sl_connection = demo_limits, sl_decoder = \<lparr>dl_buffered_bytes = 16, dl_reply_bytes = 8\<rparr>,
     sl_io = \<lparr>io_operations_limit = 1, io_chunk_limit = 3\<rparr>, sl_transport = \<lparr>tl_retained_bytes = 64\<rparr>,
     sl_publication = \<lparr>pl_lifecycle_events = 4\<rparr>, sl_outcome_bytes = 16, sl_operation_capacity = 2\<rparr>"

type_synonym demo_replay =
  "(nat \<times> nat, list_timers, nat, SimReply EngineOutcome list_batch, ConnectionEvent list_batch, Moment) ReplayOwner"

definition demo_replay0 :: demo_replay where
  "demo_replay0 =
     projr (replay_owner_new CX Some (projr (slot_new demo_sim_services 7 demo_config demo_sim_limits (sim_decoder_new 8) ()))
       (sl_transport demo_sim_limits) (Some 40))"

definition demo_events :: "ReplayEvent list" where
  "demo_events = [ReplayAction 0 ActConnectReady, ReplayAction 1 (ActSubmit (options_session demo_options) demo_sim_frame),
     ReplayAction 2 (ActRecover OwnerInvariant)]"

fun demo_run :: "ReplayEvent list \<Rightarrow> demo_replay \<Rightarrow> demo_replay option" where
  "demo_run [] ow = Some ow"
| "demo_run (event # events) ow = Option.bind (apply_event demo_sim_services list_timeline 1 event ow) (demo_run events)"

lemma demo_run_reaches:
  "demo_run events ow = Some ow' \<Longrightarrow> replay_reaches demo_sim_services list_timeline ow \<Longrightarrow> list_all event_fits events \<Longrightarrow>
   replay_reaches demo_sim_services list_timeline ow'"
  by (induction events arbitrary: ow) (auto simp: bind_eq_Some_conv intro: replay_reaches.event)

lemma demo_replay0_reaches: "replay_reaches demo_sim_services list_timeline demo_replay0"
proof -
  let ?slot = "slot_new demo_sim_services 7 demo_config demo_sim_limits (sim_decoder_new 8) ()"
  let ?ow = "replay_owner_new CX Some (projr ?slot) (sl_transport demo_sim_limits) (Some 40) :: _ + demo_replay"
  have "\<not> isl ?slot" "\<not> isl ?ow" by code_simp+
  then have new: "?slot = Inr (projr ?slot)" "?ow = Inr demo_replay0" by (simp_all add: demo_replay0_def)
  have lim: "slot_limits_new demo_limits \<lparr>dl_buffered_bytes = 16, dl_reply_bytes = 8\<rparr> \<lparr>io_operations_limit = 1, io_chunk_limit = 3\<rparr>
      \<lparr>tl_retained_bytes = 64\<rparr> \<lparr>pl_lifecycle_events = 4\<rparr> = Inr demo_sim_limits"
    by code_simp
  have "limits_ok demo_limits" by (simp add: limits_ok_def demo_limits_def USIZE_MAX_def)
  moreover have "reply_bytes demo_sim_limits = 8" "sv_externals demo_sim_services = CX"
    by (simp_all add: reply_bytes_def demo_sim_limits_def demo_sim_services_def sim_services_def)
  ultimately show ?thesis
    using replay_reaches.start [OF lim, of demo_sim_services 7 demo_config "projr ?slot" Some "Some 40" demo_replay0 list_timeline] new
    by (simp add: USIZE_MAX_def)
qed

theorem slot_replay_refines_witness:
  "\<exists>ow s reason. demo_run demo_events demo_replay0 = Some ow \<and>
     slot_reachable demo_sim_services (sim_slot_transport CX) s (observed_history (rw_observations ow)) \<and>
     sh_accepted (observed_history (rw_observations ow)) = [0] \<and>
     recoveries (rw_observations ow) = [slot_recover demo_sim_services reason s]"
proof -
  have "map_option (\<lambda>ow. (concat (map (kind_submitted \<circ> sso_kind) (rw_observations ow)), Option.is_none (rw_slot ow)))
      (demo_run demo_events demo_replay0) = Some ([0], True)"
    by code_simp
  then obtain ow where ow: "demo_run demo_events demo_replay0 = Some ow"
    "concat (map (kind_submitted \<circ> sso_kind) (rw_observations ow)) = [0]" "rw_slot ow = None"
    by (auto simp: Option.is_none_def)
  have "list_all event_fits demo_events" by (simp add: demo_events_def demo_sim_frame_def USIZE_MAX_def)
  then have "replay_reaches demo_sim_services list_timeline ow" by (rule demo_run_reaches [OF ow(1) demo_replay0_reaches])
  from slot_replay_refines [OF demo_sim_services_ok this] obtain s reason where
    "slot_reachable demo_sim_services (sim_slot_transport (sv_externals demo_sim_services)) s (observed_history (rw_observations ow))"
    "recoveries (rw_observations ow) = [slot_recover demo_sim_services reason s]"
    using ow(3) by auto
  moreover have "sv_externals demo_sim_services = CX" by (simp add: demo_sim_services_def sim_services_def)
  ultimately show ?thesis using ow by (auto simp: observed_history_def)
qed

end
