(* ===== verification/Spec2Isabelle.thy ===== *)
theory Spec2Isabelle
  imports Scenario Components Behaviour SetTheorems Standalone SimSlot
begin

text \<open>
  Verification of the Bornera connection runtime, in three layers. \<^verbatim>\<open>bornera-core\<close> is the deterministic core:
  one owner per connection epoch that admits operations against fixed limits, queues their complete
  outbound frames, matches replies in wire order, and tells for every accepted operation, exactly
  once, how it ended and whether any byte of it may have reached the peer. A connection slot of the
  crate \<^verbatim>\<open>bornera\<close> drives one such owner against a transport, arms its timers, publishes its outcomes and
  lifecycle events in bounded batches, and closes or recovers it. A connection set owns many slots
  that share one selector and one command mailbox, and drives them in bounded turns. The crate
  \<^verbatim>\<open>bornera-sim\<close> replays traces on the owner and on a slot, with a wire protocol and an in-memory transport.

  \<^bold>\<open>The core and its theories.\<close> Paths are below \<^verbatim>\<open>src/crates/bornera-core/src/\<close>.
  \<^item> \<^verbatim>\<open>Prelude\<close>: 64-bit counters with the checked and wrapping operations of Rust, list positions.
  \<^item> \<^verbatim>\<open>Vocabulary\<close>: \<^verbatim>\<open>identity.rs\<close>, \<^verbatim>\<open>delivery.rs\<close>, \<^verbatim>\<open>limits.rs\<close>, gates and options of \<^verbatim>\<open>admission/\<close>, outcomes,
    and the record \<open>externals\<close> of the functions that come from the crates calandria and bytebudget.
  \<^item> \<^verbatim>\<open>KeySet\<close>: \<^verbatim>\<open>admission/key_set.rs\<close>, the open-addressing hash set of match keys in use.
  \<^item> \<^verbatim>\<open>Ledger\<close>: \<^verbatim>\<open>admission/ledger.rs\<close> and \<^verbatim>\<open>permit.rs\<close>, the reservation accounting shared by permits.
  \<^item> \<^verbatim>\<open>WriteQueue\<close>: \<^verbatim>\<open>write/\<close>, the bounded FIFO of complete frames with exact progress.
  \<^item> \<^verbatim>\<open>Matching\<close>: \<^verbatim>\<open>operation/record.rs\<close> and \<^verbatim>\<open>matching/ordered_verified.rs\<close>, the pending operations.
  \<^item> \<^verbatim>\<open>Framing\<close>: \<^verbatim>\<open>framing/\<close>, the driver around a caller-supplied frame decoder.
  \<^item> \<^verbatim>\<open>Machine\<close>: the policy machine of \<^verbatim>\<open>connection/\<close> (reserve, commit, inputs, replies, write progress,
    closing and draining); \<^verbatim>\<open>MachineInv\<close> and \<^verbatim>\<open>MachineSteps\<close>: its invariant and the contract of its steps.
  \<^item> \<^verbatim>\<open>Journal\<close>: \<^verbatim>\<open>connection/journal.rs\<close>, the preallocated recovery slots.
  \<^item> \<^verbatim>\<open>Core\<close>: \<^verbatim>\<open>connection/core.rs\<close>, \<^verbatim>\<open>progress.rs\<close> and \<^verbatim>\<open>integrity.rs\<close>, the aggregate owner; \<^verbatim>\<open>CoreInv\<close> and
    \<^verbatim>\<open>CoreSteps\<close>: its invariant and every entry point on it.
  \<^item> \<^verbatim>\<open>Recovery\<close>: \<^verbatim>\<open>connection/recovery.rs\<close> and \<^verbatim>\<open>recovery_item.rs\<close>.
  \<^item> \<^verbatim>\<open>System\<close>: the owner with its outstanding permits, as a step relation over every entry point in
    any order; \<^verbatim>\<open>Scenario\<close>: a concrete run on which the properties are instantiated.
  \<^item> \<^verbatim>\<open>Components\<close>: properties of single components (key table, identities, ledger, writer, journal,
    decoder driver); \<^verbatim>\<open>Behaviour\<close>: monotone lifecycle and order of replies.

  \<^bold>\<open>The slot and its theories.\<close> Paths are below \<^verbatim>\<open>src/crates/bornera/src/\<close>.
  \<^item> \<^verbatim>\<open>Transport\<close>: \<^verbatim>\<open>socket.rs\<close>, \<^verbatim>\<open>config/\<close>, \<^verbatim>\<open>transport/\<close>, \<^verbatim>\<open>frame.rs\<close>: limits, budget, progress and pressure
    reports, complete frames, and the trait \<^verbatim>\<open>SlotTransport\<close> as a record of functions on a state \<open>'t\<close>.
  \<^item> \<^verbatim>\<open>Slot\<close>: \<^verbatim>\<open>slot.rs\<close>, \<^verbatim>\<open>state.rs\<close>, \<^verbatim>\<open>lifecycle.rs\<close>, \<^verbatim>\<open>transition.rs\<close>, \<^verbatim>\<open>failure.rs\<close>, \<^verbatim>\<open>admission.rs\<close>: the record
    \<open>ConnectionSlot\<close>, the failure latch, numbered events, the interpretation of the owner's effects, and
    reservation and commit. The record \<open>services\<close> holds what comes from other crates and from the caller:
    timer queue, publication batches, decoder, reply classifier.
  \<^item> \<^verbatim>\<open>SlotControl\<close>: \<^verbatim>\<open>control.rs\<close>, \<^verbatim>\<open>slot_close.rs\<close>, \<^verbatim>\<open>snapshot.rs\<close> and the slot part of \<^verbatim>\<open>recovery.rs\<close>.
  \<^item> \<^verbatim>\<open>SlotDrive\<close> and \<^verbatim>\<open>SlotQuantum\<close>: \<^verbatim>\<open>drive/\<close>, one bounded quantum of deadlines, transport work, decoding,
    reading, writing and graceful shutdown.
  \<^item> \<^verbatim>\<open>SlotOwner\<close>: what the owner promises to the slot that interprets its effects. \<^verbatim>\<open>SlotEffects\<close>: the laws
    of timers and batches, and the exact result of interpreting a transition. \<^verbatim>\<open>SlotInv\<close>: the invariant.
    \<^verbatim>\<open>SlotSteps\<close>, \<^verbatim>\<open>SlotOps\<close>, \<^verbatim>\<open>SlotAdmission\<close>: inputs, control, permits and commits keep it. \<^verbatim>\<open>SlotFrame\<close>,
    \<^verbatim>\<open>SlotDriveInv\<close>, \<^verbatim>\<open>SlotQuantumInv\<close>: driving keeps it and returns.
  \<^item> \<^verbatim>\<open>SlotEntry\<close>: the locale \<open>slot_operation\<close>, the contract of a guarded and latched operation, with its
    instances. \<^verbatim>\<open>SlotSystem\<close>: every interleaving of the public operations against any transport.
    \<^verbatim>\<open>SlotScenario\<close>: a concrete run. \<^verbatim>\<open>SlotTheorems\<close>: the properties of slots.

  \<^bold>\<open>The set and its theories.\<close> Paths are below \<^verbatim>\<open>src/crates/bornera/src/\<close>.
  \<^item> \<^verbatim>\<open>SetState\<close>: \<^verbatim>\<open>set.rs\<close>, \<^verbatim>\<open>set_failure.rs\<close>, \<^verbatim>\<open>set_settle.rs\<close>, \<^verbatim>\<open>token.rs\<close>, \<^verbatim>\<open>command.rs\<close>, \<^verbatim>\<open>connection_error.rs\<close>: the records
    \<open>ConnectionSet\<close> and \<open>ConnectionEntry\<close>, fencing by generation, the ready queue, the set-wide failure
    latch, releasing a transport. The record \<open>set_env\<close> holds what comes from other crates: resource
    table, selector, mailbox.
  \<^item> \<^verbatim>\<open>SetTurn\<close>: \<^verbatim>\<open>set_drive.rs\<close> and \<^verbatim>\<open>set_drive/ready.rs\<close>, one bounded turn. \<^verbatim>\<open>SetAccess\<close>: \<^verbatim>\<open>set_connect.rs\<close>,
    \<^verbatim>\<open>set_access.rs\<close>, \<^verbatim>\<open>port.rs\<close>, \<^verbatim>\<open>set_recovery.rs\<close>. \<^verbatim>\<open>Standalone\<close>: \<^verbatim>\<open>standalone.rs\<close>, the owner of one connection on
    its own selector.
  \<^item> \<^verbatim>\<open>SetSlots\<close>: the locale \<open>set_slots\<close>, what a set asks of a slot, with its instance for the slots of this
    development. \<^verbatim>\<open>SetInv\<close>: the laws of the resource table and the invariant of a set. \<^verbatim>\<open>SetTurnInv\<close>: the
    locale \<open>set_owner\<close>, in which a turn keeps the invariant and returns. \<^verbatim>\<open>SetCalls\<close>: the locale
    \<open>set_client\<close>, which extends it to connecting, direct calls, retirement and recovery.
  \<^item> \<^verbatim>\<open>SetSystem\<close>: every interleaving of the calls on a set, with the history of each connection.
    \<^verbatim>\<open>SetScenario\<close>: a concrete run. \<^verbatim>\<open>SetTheorems\<close>: the properties of sets.

  \<^bold>\<open>The simulator and its theories.\<close> Paths are below \<^verbatim>\<open>src/crates/bornera-sim/src/\<close>.
  \<^item> \<^verbatim>\<open>SimWire\<close>: \<^verbatim>\<open>frame.rs\<close> and \<^verbatim>\<open>wire.rs\<close>, the reply format with its streaming decoder. \<^verbatim>\<open>SimTransport\<close>:
    \<^verbatim>\<open>slot_transport.rs\<close>, an instance of \<^verbatim>\<open>SlotTransport\<close>, and what every stimulus keeps of it.
  \<^item> \<^verbatim>\<open>SimCore\<close>: \<^verbatim>\<open>trace.rs\<close>, \<^verbatim>\<open>replay.rs\<close> and \<^verbatim>\<open>report.rs\<close>, the replay of a trace on one owner, and that its
    report accounts for every operation. \<^verbatim>\<open>SimSlot\<close>: \<^verbatim>\<open>slot_trace.rs\<close>, \<^verbatim>\<open>slot_apply.rs\<close>, \<^verbatim>\<open>slot_replay.rs\<close> and
    \<^verbatim>\<open>slot_report.rs\<close>, the replay of timed stimuli on a slot; the record \<open>Timeline\<close> holds what comes from
    the crate calandria-sim.

  \<^bold>\<open>State.\<close> Structs are records and enums are datatypes with the constructors of the source. The
  ledger that permits share through \<^verbatim>\<open>Rc<RefCell<..>>\<close> is a field of the machine; a permit carries the
  identity of that allocation, which is what the code compares. An operation that changes state
  returns its result together with the new state, an error is \<open>Inl\<close>. A frame's byte view is a
  function argument of each call that looks at it, so a frame may change its view between calls.
  Counters, byte counts and instants are natural numbers with the 64-bit bound written out at
  every checked operation; identities and match keys are machine words. A step that may touch the
  transport carries the pair of slot and transport state.

  \<^bold>\<open>What is assumed.\<close> \<open>externals_ok\<close>: checked addition and subtraction of retained bytes are exact and
  fail on overflow and underflow only, and a byte budget counts what is reserved and not released
  within its limit. \<open>limits_ok\<close>: the limits passed the constructors' checks and fit a 64-bit host
  (the hash table of twice the operation count must be allocatable). \<open>services_ok\<close>: a timer queue with
  room arms a timer under a fresh token, cancels exactly the named timer and pops only due ones, and
  a batch takes an item exactly while its limits allow it and returns its items in order; the
  \<open>views\<close> name the armed timers and limits of the opaque states. \<open>transport_wf\<close>: a progress report is idle
  or counts at least one operation, which its constructors enforce. \<open>table_laws\<close>: the resource table
  issues no token twice, a lookup finds what was admitted or written last, a removed token finds
  nothing, and no more entries are live than its capacity; \<open>env_ok\<close> collects the last three for a set.
  \<open>exact_sizes\<close>: a length of at most 64 bits is converted to retained bytes without loss;
  \<open>exact_conversion\<close>: a conversion that succeeds keeps the number. \<open>honest_decoder\<close>, where it is named: a
  decoder keeps no more than it is fed.
  All hold of the instances used in \<^verbatim>\<open>Scenario\<close>, \<^verbatim>\<open>SlotScenario\<close> and \<^verbatim>\<open>SetScenario\<close>. Selector, mailbox
  and timeline may answer anything. Nothing else is assumed of a transport: what it reports beyond its
  contract is a fault the slot detects, or progress within the front frame.

  \<^bold>\<open>What the groups of lemmas show.\<close> \<^verbatim>\<open>KeySet\<close>: the table is a set, and its removal loop ends. \<^verbatim>\<open>Ledger\<close>:
  every operation is one step on the multisets of permits and operations it stands for.
  \<^verbatim>\<open>WriteQueue\<close>: progress and discards on every branch. \<^verbatim>\<open>MachineSteps\<close>: each step removes operations
  with their deadline cancelled, their frame discarded and exactly one outcome published.
  \<^verbatim>\<open>CoreSteps\<close>: policy and writer never disagree. \<^verbatim>\<open>System\<close>: the invariant of all reachable states.
  \<^verbatim>\<open>SlotTheorems\<close>: a slot refines its owner, loses no outcome, keeps exactly the timers it needs, numbers
  its events, returns from every quantum within its budget, never fails by a call of the
  application (finalizing with the reason \<open>Drained\<close> excepted), and recovers everything. Except for the
  refinement itself this includes a slot whose owner was poisoned by an over-reported write: its books are
  those of the owner just before (\<open>lost_books\<close>, \<open>owner_before\<close>). \<^verbatim>\<open>SetTheorems\<close>: each connection of a set refines an owner of its
  own; the ready queue is exact, and a turn serves it first in, first out; a turn returns; a selector failure stops the whole set for
  good; a token whose connection is gone stays stale; a call on one connection leaves the
  others alone; connecting is all or nothing; recovering one connection accounts for
  everything it owned. \<^verbatim>\<open>SimWire\<close>: the wire format round-trips through any chunking, within bounds.
  \<^verbatim>\<open>SimCore\<close>: a replay refines the owner until it is poisoned or recovered, and its report names every
  submitted operation once. \<^verbatim>\<open>SimSlot\<close>: a replay on a slot is a run of the slot with the history of its
  observations. This theory: the properties of the reachable states of the owner.

  \<^bold>\<open>Loops and bounds.\<close> The removal loop of the hash set is a \<open>while\<close> whose termination is proved; probe
  loops are bounded by the table size as in the source; the inner loop of recovery ends because it
  empties one journal slot per round. The two loops over transport work are partial functions into
  \<open>option\<close>; they return because an accepted progress report counts at least one operation
  (\<open>io_loop_returns\<close>, \<open>close_loop_returns\<close>). The decoder loop of the simulator is one, too; it takes at least
  one byte in each round. The loop of a slot replay ends when its timeline is empty, which is left to
  the timeline; each event is shown to be processed to its end. No fuel is used.

  \<^bold>\<open>Not modelled.\<close> The TCP transport and \<^verbatim>\<open>bornera-rustls\<close>, which are calls into the operating system
  and the TLS library; wake and pulse handles and the
  snapshot of a set, which only read the selector and the mailbox; \<^verbatim>\<open>Display\<close> and \<^verbatim>\<open>Debug\<close> texts.
\<close>

section \<open>Outcomes\<close>

lemma sys_step_history:
  assumes "sys_step X s s'"
  shows "set (sys_published s) \<subseteq> set (sys_published s')" "sys_sent s \<subseteq> sys_sent s'"
  using assms by (cases; auto)+

lemma sys_run_history:
  assumes "(sys_step X)\<^sup>*\<^sup>* s s'"
  shows "set (sys_published s) \<subseteq> set (sys_published s') \<and> sys_sent s \<subseteq> sys_sent s'"
  using assms by (induction rule: rtranclp_induct) (use sys_step_history in blast)+

lemma sys_reachable_run: "sys_reachable X s \<Longrightarrow> (sys_step X)\<^sup>*\<^sup>* s s' \<Longrightarrow> sys_reachable X s'"
  unfolding sys_reachable_def by (meson rtranclp_trans)

text \<open>
  C1. In every reachable state the published outcomes name each operation at most once, and an
  operation was accepted exactly when it has its outcome or is still waiting for it, never both:
  each accepted operation gets exactly one terminal outcome.
\<close>

theorem outcome_exactly_once:
  assumes "externals_ok X" "sys_reachable X s"
  shows "distinct (map fst (sys_published s)) \<and>
    fst ` set (sys_published s) \<subseteq> set (sys_accepted s) \<and>
    (\<forall>i. i \<in> set (sys_accepted s) \<longleftrightarrow>
       (i \<in> fst ` set (sys_published s)) \<noteq>
       (i \<in> set (live_ids (pending (core_machine (sys_core s))))))"
  using sys_inv_parts(4) [OF sys_reachable_inv [OF assms]] unfolding outcomes_once_def by blast

theorem outcome_exactly_once_witness:
  "0 \<in> set (live_ids (pending (core_machine core_written))) \<and>
   0 \<notin> fst ` set (sys_published demo_written) \<and> 0 \<in> fst ` set (sys_published demo_replied)"
  using outcome_exactly_once [OF counting_externals_ok demo_written_reachable]
    outcome_exactly_once [OF counting_externals_ok demo_replied_reachable]
  by (simp add: demo_state_def demo_defs)

text \<open>
  C2. A delivery certainty reported with an outcome is exact: \<open>PossiblySent\<close> is reported exactly for
  operations of which the transport accepted a byte. \<open>NotSent\<close> is final: no continuation of the
  run ever puts a byte of that operation on the wire, so it can be retried elsewhere.
\<close>

theorem delivery_certainty_exact:
  assumes "externals_ok X" "sys_reachable X s" "(i, Some d) \<in> set (sys_published s)"
    and "(sys_step X)\<^sup>*\<^sup>* s s'"
  shows "(d = PossiblySent \<longleftrightarrow> i \<in> sys_sent s) \<and> (d = NotSent \<longrightarrow> i \<notin> sys_sent s')"
proof -
  have truth: "d = PossiblySent \<longleftrightarrow> i \<in> sys_sent t"
    if "sys_reachable X t" "(i, Some d) \<in> set (sys_published t)" for t
    using sys_inv_parts(5) [OF sys_reachable_inv [OF assms(1) that(1)]] that(2)
    unfolding delivery_truth_def by blast
  have "(i, Some d) \<in> set (sys_published s')" using sys_run_history [OF assms(4)] assms(3) by blast
  then show ?thesis
    using truth [OF assms(2,3)] truth [OF sys_reachable_run [OF assms(2,4)]] by (cases d) auto
qed

theorem delivery_certainty_exact_witness:
  "0 \<notin> sys_sent demo_cancelled"
  using delivery_certainty_exact [OF counting_externals_ok demo_cancelled_reachable, of 0 NotSent demo_cancelled]
  by (simp add: demo_state_def)

section \<open>The owner never faults on its own\<close>

text \<open>
  C4. In every reachable state each input and each reply is applied without an error, and the
  owner stays healthy. Write progress within the offered bytes is applied, or refused with the
  owner unchanged. Poison can only come from a transport that reports more bytes than it was
  offered or from a frame whose byte view changes.
\<close>

theorem owner_never_faults:
  assumes "externals_ok X" "sys_reachable X s"
  shows "core_poisoned (sys_core s) = None \<and> ensure_healthy (sys_core s) = (Inr (), sys_core s) \<and>
    (\<exists>t c'. core_apply X input (sys_core s) = (Inr t, c')) \<and>
    (\<exists>t c'. core_apply_reply X reply (sys_core s) = (Inr t, c')) \<and>
    (n \<le> offered (sys_core s) \<longrightarrow>
       (\<exists>t c'. core_advance_write X epoch effect n (sys_core s) = (Inr t, c')) \<or>
       (\<exists>e. core_advance_write X epoch effect n (sys_core s) = (Inl (CoreWrite e), sys_core s)))"
proof -
  note inv = sys_reachable_inv [OF assms]
  note ok = sys_inv_parts(1) [OF inv]
  have "\<exists>t c'. core_apply X input (sys_core s) = (Inr t, c')"
    by (rule core_apply_exact [OF assms(1) ok]) blast
  moreover have "\<exists>t c'. core_apply_reply X reply (sys_core s) = (Inr t, c')"
    by (rule core_apply_reply_exact [OF assms(1) ok]) blast
  ultimately show ?thesis
    using core_ok_parts(7) [OF ok] joined_healthy(1) [OF assms(1) core_ok_parts(1) [OF ok]]
      core_advance_total [OF assms(1) ok, of n epoch effect] by blast
qed

theorem owner_never_faults_witness:
  "\<exists>t c'. core_apply CX (Cancel 5 0) core_committed = (Inr t, c')"
  using owner_never_faults [OF counting_externals_ok demo_committed_reachable, of "Cancel 5 0" demo_reply 0 0 0]
  by (simp only: demo_state_core)

text \<open>
  C23. The ownership audit that debug builds run before each step never fires in a reachable state,
  with or without debug assertions: skipping it in release builds changes nothing.
\<close>

theorem hot_path_audit_redundant:
  assumes "externals_ok X" "sys_reachable X s"
  shows "verify_ownership X (sys_core s) = (Inr (), sys_core s) \<and>
    verify_ownership_on_hot_path (X\<lparr>debug_assertions := b\<rparr>) (sys_core s) = (Inr (), sys_core s)"
proof -
  have joined: "core_joined X (sys_core s) (mset (map permit_reservation (sys_permits s)))"
    by (rule core_ok_parts(1) [OF sys_inv_parts(1) [OF sys_reachable_inv [OF assms]]])
  have "externals_ok (X\<lparr>debug_assertions := b\<rparr>)"
    using assms(1) by (simp add: externals_ok_def bytes_laws_def budget_laws_def)
  moreover have "core_joined (X\<lparr>debug_assertions := b\<rparr>) (sys_core s) (mset (map permit_reservation (sys_permits s)))"
  proof -
    have "queue_inv (X\<lparr>debug_assertions := b\<rparr>) q = queue_inv X q" for q :: "('b, 'a) WriteQueue"
      by (simp add: queue_inv_def)
    then show ?thesis using joined by (simp add: core_joined_def)
  qed
  ultimately show ?thesis
    using joined_healthy(2) [OF assms(1) joined] joined_healthy(3) by blast
qed

theorem hot_path_audit_redundant_witness:
  "verify_ownership_on_hot_path (CX\<lparr>debug_assertions := False\<rparr>) core_writing = (Inr (), core_writing)"
  using hot_path_audit_redundant [OF counting_externals_ok demo_writing_reachable, of False] by simp

text \<open>
  The audit is exact: it accepts an owner precisely when the retained bytes of the queued frames
  add up to the budget and the writer's identities are, in wire order, those of the records that
  still hold a frame.
\<close>

theorem ownership_audit_exact:
  "verify_ownership X c = (Inr (), c) \<longleftrightarrow>
     accounting_is_valid X (core_writes c) \<and>
     write_identities (core_writes c) = held_ids (pending (core_machine c))"
  using ownership_merge_None [of "pending (core_machine c)" "write_identities (core_writes c)"]
  by (auto simp: verify_ownership_def ownership_merge_violation_def core_poison_def
      split: option.splits if_splits)

section \<open>Admission\<close>

text \<open>
  C24. In every reachable state the ledger's counters are exact and within the configured limits:
  permits, owned operations, match keys, retained bytes, buffered frames and their bytes are those
  of the permits and accepted operations that exist.
\<close>

theorem snapshot_exact:
  assumes "externals_ok X" "sys_reachable X s"
  shows "let sn = machine_snapshot (core_machine (sys_core s)); rs = pending (core_machine (sys_core s));
      lim = core_limits (sys_core s)
    in sn_reserved_permits sn = length (sys_permits s) \<and>
       sn_owned_operations sn = length (sys_permits s) + length rs \<and>
       sn_active_operations sn + sn_terminal_slots sn = length rs \<and>
       sn_active_match_keys sn = sn_owned_operations sn \<and>
       sn_owned_operations sn \<le> max_operations lim \<and>
       sn_retained_bytes sn =
         sum_list (map (\<lambda>p. res_retained_bytes (permit_reservation p)) (sys_permits s)) +
         sum_list (map (\<lambda>r. res_retained_bytes (rec_reservation r)) rs) \<and>
       sn_retained_bytes sn \<le> max_retained_bytes lim \<and>
       sn_buffered_write_frames sn = length (sys_permits s) + queued_frames (core_writes (sys_core s)) \<and>
       sn_buffered_write_frames sn \<le> max_write_frames lim \<and>
       sn_buffered_write_retained_bytes sn =
         sum_list (map (\<lambda>p. res_write_retained_bytes (permit_reservation p)) (sys_permits s)) +
         queue_retained_bytes X (core_writes (sys_core s)) \<and>
       sn_buffered_write_retained_bytes sn \<le> max_write_retained_bytes lim"
proof -
  let ?c = "sys_core s" and ?rs = "pending (core_machine (sys_core s))"
  let ?P = "mset (map permit_reservation (sys_permits s))" and ?L = "m_ledger (core_machine (sys_core s))"
  note ok = sys_inv_parts(1) [OF sys_reachable_inv [OF assms]]
  note acc = core_accounts [OF ok]
  have hold: "size (holders ?P (mset (charges ?rs))) = length (sys_permits s) + length ?rs"
    "sum_retained (holders ?P (mset (charges ?rs))) =
       sum_list (map (\<lambda>p. res_retained_bytes (permit_reservation p)) (sys_permits s)) +
       sum_list (map (\<lambda>r. res_retained_bytes (rec_reservation r)) ?rs)"
    by (simp_all add: holders_def comp_def image_mset.compositionality flip: sum_mset_sum_list)
  have wr: "size (writers ?P (mset (charges ?rs))) = length (sys_permits s) + length (wq_frames (core_writes ?c))"
    "sum_write (writers ?P (mset (charges ?rs))) =
       sum_list (map (\<lambda>p. res_write_retained_bytes (permit_reservation p)) (sys_permits s)) +
       bb_used X (wq_budget (core_writes ?c))"
    unfolding held_totals(3) [OF ok] using held_totals(1,2) [OF ok]
    by (simp_all add: comp_def image_mset.compositionality del: mset_filter flip: sum_mset_sum_list)
  have "led_permits ?L = length (sys_permits s)" "led_operations ?L = length (sys_permits s) + length ?rs"
    "led_operations ?L \<le> max_operations (core_limits ?c)"
    "led_retained_bytes ?L \<le> max_retained_bytes (core_limits ?c)"
    "led_write_frames ?L \<le> max_write_frames (core_limits ?c)"
    "led_write_retained_bytes ?L \<le> max_write_retained_bytes (core_limits ?c)"
    "led_retained_bytes ?L = sum_retained (holders ?P (mset (charges ?rs)))"
    "led_write_frames ?L = size (writers ?P (mset (charges ?rs)))"
    "led_write_retained_bytes ?L = sum_write (writers ?P (mset (charges ?rs)))"
    using acc hold unfolding accounts_def by auto
  with hold wr accounts_len [OF acc] active_terminal_len [of "m_matching (core_machine ?c)"] show ?thesis
    by (simp add: machine_snapshot_def Let_def queued_frames_def queue_retained_bytes_def pending_operations_def)
qed

theorem snapshot_exact_witness:
  "sn_owned_operations (machine_snapshot (core_machine core_reserved)) = 1"
  using snapshot_exact [OF counting_externals_ok demo_reserved_reachable]
  by (simp add: Let_def demo_state_def) (simp add: demo_defs)

text \<open>
  The match keys of all outstanding permits and accepted operations are pairwise distinct and
  lie in the configured key range, so a reply key names at most one of them.
\<close>

theorem match_keys_unique:
  assumes "externals_ok X" "sys_reachable X s"
  shows "distinct (map (\<lambda>p. res_match_key (permit_reservation p)) (sys_permits s) @
       map (\<lambda>r. res_match_key (rec_reservation r)) (pending (core_machine (sys_core s)))) \<and>
    (\<forall>k \<in> res_match_key ` permit_reservation ` set (sys_permits s) \<union>
        res_match_key ` rec_reservation ` set (pending (core_machine (sys_core s))).
       ks_first (match_keys (core_limits (sys_core s))) \<le> k \<and>
       k \<le> ks_last (match_keys (core_limits (sys_core s))))"
proof -
  let ?ks = "map (\<lambda>p. res_match_key (permit_reservation p)) (sys_permits s) @
       map (\<lambda>r. res_match_key (rec_reservation r)) (pending (core_machine (sys_core s)))"
  let ?L = "m_ledger (core_machine (sys_core s))"
  note acc = core_accounts [OF sys_inv_parts(1) [OF sys_reachable_inv [OF assms]]]
  have "mset ?ks = image_mset res_match_key (holders (mset (map permit_reservation (sys_permits s)))
      (mset (charges (pending (core_machine (sys_core s))))))"
    by (simp add: holders_def image_mset.compositionality comp_def)
  also have "\<dots> = mset_set (key_set_keys (led_active_keys ?L))" using acc by (simp add: accounts_def)
  finally have keys: "mset ?ks = mset_set (key_set_keys (led_active_keys ?L))" .
  have fin: "finite (key_set_keys (led_active_keys ?L))"
    using acc active.finite_keys by (simp add: accounts_def)
  have set: "set ?ks = key_set_keys (led_active_keys ?L)"
    using arg_cong [OF keys, of set_mset] fin by simp
  have "key_set_keys (led_active_keys ?L) \<subseteq> key_space (match_keys (core_limits (sys_core s)))"
    using acc by (simp add: accounts_def)
  moreover have "distinct ?ks"
    unfolding distinct_count_atmost_1 keys set using fin by simp
  ultimately show ?thesis using set by (auto simp: key_space_def)
qed

theorem match_keys_unique_witness:
  "1 \<le> res_match_key (permit_reservation demo_permit) \<and> res_match_key (permit_reservation demo_permit) \<le> 4"
  using match_keys_unique [OF counting_externals_ok demo_reserved_reachable]
  by (simp add: demo_state_def) (simp add: demo_defs)

lemma later_grant:
  assumes X: "externals_ok X" and reach: "sys_reachable X s"
    and res: "core_reserve X now options (sys_core s) = (Inr p, c')"
    and run: "(sys_step X)\<^sup>*\<^sup>* (s\<lparr>sys_core := c', sys_permits := sys_permits s @ [p]\<rparr>) s'"
    and later: "core_reserve X now' options' (sys_core s') = (Inr p', c'')"
  shows "permit_operation p < permit_operation p' \<and> permit_effect p < permit_effect p'"
proof -
  let ?s = "s\<lparr>sys_core := c', sys_permits := sys_permits s @ [p]\<rparr>"
  let ?g = "\<lambda>s. m_identities (core_machine (sys_core s))"
  have one: "sys_reachable X ?s" by (rule sys_reachable_step [OF reach sys_step.reserve [OF res]])
  then have "sys_reachable X s'" using run unfolding sys_reachable_def by (meson rtranclp_trans)
  note r = core_reserve_ok [OF X sys_inv_parts(1) [OF sys_reachable_inv [OF X this]] later]
  have "below_next (gen_operation (?g ?s)) (permit_operation p)" "below_next (gen_effect (?g ?s)) (permit_effect p)"
    using sys_inv_parts(3) [OF sys_reachable_inv [OF X one]] by (simp_all add: fresh_ids_def)
  then have "below_next (gen_operation (?g s')) (permit_operation p)" "below_next (gen_effect (?g s')) (permit_effect p)"
    using forward_run [OF run] by (simp_all add: forward_def ids_forward_def)
  then show ?thesis using r(6,7) by (simp add: below_next_def)
qed

text \<open>
  C25. A reservation in a reachable state fails with exactly the first error of the documented order
  and then changes nothing, or succeeds with fresh identities and with a match key that is not in use.
  The operation identity is that of no outstanding permit and no operation ever accepted, the effect
  identity that of no outstanding permit and no pending operation, and whatever happens next, also if
  the permit is dropped, every later grant has larger identities of both kinds.
\<close>

theorem reserve_exact:
  assumes "externals_ok X" "sys_reachable X s"
  shows "case machine_refusal X now options (core_machine (sys_core s)) of
      Some e \<Rightarrow> core_reserve X now options (sys_core s) = (Inl e, sys_core s)
    | None \<Rightarrow> \<exists>p c'. core_reserve X now options (sys_core s) = (Inr p, c') \<and>
        permit_operation p \<notin> permit_operation ` set (sys_permits s) \<union> set (sys_accepted s) \<and>
        permit_effect p \<notin> permit_effect ` set (sys_permits s) \<union> rec_effect ` set (pending (core_machine (sys_core s))) \<and>
        (\<forall>s' now' options' p' c''.
           (sys_step X)\<^sup>*\<^sup>* (s\<lparr>sys_core := c', sys_permits := sys_permits s @ [p]\<rparr>) s' \<and>
           core_reserve X now' options' (sys_core s') = (Inr p', c'') \<longrightarrow>
           permit_operation p < permit_operation p' \<and> permit_effect p < permit_effect p') \<and>
        res_match_key (permit_reservation p) \<notin>
          res_match_key ` permit_reservation ` set (sys_permits s) \<union>
          res_match_key ` rec_reservation ` set (pending (core_machine (sys_core s))) \<and>
        pending (core_machine c') = pending (core_machine (sys_core s)) \<and>
        core_writes c' = core_writes (sys_core s)"
proof -
  let ?m = "core_machine (sys_core s)"
  note inv = sys_reachable_inv [OF assms]
  note ok = sys_inv_parts(1) [OF inv] and X = assms(1)
  note m = core_ok_parts(2) [OF ok]
  show ?thesis
  proof (cases "machine_refusal X now options ?m")
    case (Some e)
    then show ?thesis using machine_reserve_refused [OF X m Some] core_reserve_machine [OF X ok] by simp
  next
    case None
    obtain p c' where res: "core_reserve X now options (sys_core s) = (Inr p, c')"
      by (rule machine_reserve_accepted [OF X m None]) (simp add: core_reserve_machine [OF X ok])
    note r = core_reserve_ok [OF X ok res]
    have "permit_operation p \<notin> permit_operation ` set (sys_permits s) \<union> set (sys_accepted s)"
      "permit_effect p \<notin> permit_effect ` set (sys_permits s) \<union> rec_effect ` set (pending ?m)"
      using sys_inv_parts(3) [OF inv] r(6,7) by (fastforce simp: fresh_ids_def below_next_def)+
    moreover have "permit_operation p < permit_operation p' \<and> permit_effect p < permit_effect p'"
      if "(sys_step X)\<^sup>*\<^sup>* (s\<lparr>sys_core := c', sys_permits := sys_permits s @ [p]\<rparr>) s'"
        "core_reserve X now' options' (sys_core s') = (Inr p', c'')" for s' now' options' p' c''
      by (rule later_grant [OF X assms(2) res that])
    moreover have "key_set_keys (led_active_keys (m_ledger ?m)) =
        res_match_key ` permit_reservation ` set (sys_permits s) \<union> res_match_key ` rec_reservation ` set (pending ?m)"
      using account_keys [OF core_accounts [OF ok]] by (simp add: image_image image_Un)
    moreover have "core_writes c' = core_writes (sys_core s)"
      using res by (auto simp: core_reserve_machine [OF X ok])
    ultimately show ?thesis using None res r(2,12) by auto
  qed
qed

theorem reserve_exact_witness:
  "core_reserve CX 200 demo_options core_open = (Inl DeadlineElapsed, core_open) \<and>
   (\<exists>p c'. core_reserve CX 0 demo_options core_open = (Inr p, c') \<and> pending (core_machine c') = [] \<and>
      (\<forall>p' c''. core_reserve CX 0 demo_options c' = (Inr p', c'') \<longrightarrow> permit_effect p < permit_effect p'))"
proof -
  note reserve = reserve_exact [OF counting_externals_ok demo_open_reachable]
  have late: "core_reserve CX 200 demo_options core_open = (Inl DeadlineElapsed, core_open)"
    using reserve [of 200 demo_options]
    by (simp add: machine_refusal_def demo_defs counting_externals_def identity_available_def)
  have owner: "sys_core demo_open = core_open" by (simp add: demo_state_def)
  have "machine_refusal CX 0 demo_options (core_machine core_open) = None"
    using reserve [of 0 demo_options] demo_reserve_step unfolding owner
    by (cases "machine_refusal CX 0 demo_options (core_machine core_open)") simp_all
  moreover have "pending (core_machine core_open) = []" by (simp add: demo_defs)
  ultimately have granted: "machine_refusal CX 0 demo_options (core_machine core_open) = None"
    "pending (core_machine core_open) = []" by blast+
  obtain p c' where p: "core_reserve CX 0 demo_options core_open = (Inr p, c')" "pending (core_machine c') = []"
    "\<forall>s' now' options' p' c''. (sys_step CX)\<^sup>*\<^sup>* (demo_open\<lparr>sys_core := c', sys_permits := sys_permits demo_open @ [p]\<rparr>) s' \<and>
       core_reserve CX now' options' (sys_core s') = (Inr p', c'') \<longrightarrow>
       permit_operation p < permit_operation p' \<and> permit_effect p < permit_effect p'"
    using reserve [of 0 demo_options] unfolding owner granted option.case by (elim exE conjE) (rule that)
  have "\<forall>p' c''. core_reserve CX 0 demo_options c' = (Inr p', c'') \<longrightarrow> permit_effect p < permit_effect p'"
    using p(3) [rule_format, of "demo_open\<lparr>sys_core := c', sys_permits := sys_permits demo_open @ [p]\<rparr>" 0 demo_options] by simp
  with p late show ?thesis by blast
qed

text \<open>
  C26. A commit with a held permit is decided by policy alone. When the policy refuses, the permit and
  the exact frame come back and nothing changes; otherwise the writer always has room, and the
  operation joins the tail of both owners in one step.
\<close>

theorem commit_atomic:
  assumes "externals_ok X" "sys_reachable X s" "p \<in> set (sys_permits s)"
    and "length (view frame) \<le> USIZE_MAX"
  shows "case commit_failure p (retained frame) (core_machine (sys_core s)) of
      Some kind \<Rightarrow> core_commit X view retained p frame (sys_core s) =
        (Inl \<lparr>ce_failure = Policy kind, ce_permit = p, ce_frame = frame\<rparr>, sys_core s)
    | None \<Rightarrow> \<exists>t c'. core_commit X view retained p frame (sys_core s) = (Inr (permit_operation p, t), c') \<and>
        pending (core_machine c') =
          pending (core_machine (sys_core s)) @ [committed_record p (retained frame)] \<and>
        wq_frames (core_writes c') =
          wq_frames (core_writes (sys_core s)) @ [committed_frame view retained p frame]"
proof -
  note inv = sys_reachable_inv [OF assms(1,2)]
  obtain ps qs where ps: "sys_permits s = ps @ p # qs" using assms(3) by (meson split_list)
  show ?thesis
  proof (cases "commit_failure p (retained frame) (core_machine (sys_core s))")
    case (Some kind)
    then show ?thesis
      using core_commit_refused [where view = view and retained = retained and frame = frame,
          OF assms(1) sys_inv_parts(1) [OF inv] Some] by simp
  next
    case None
    show ?thesis
      by (rule core_commit_accepted [where view = view and retained = retained and frame = frame,
            OF assms(1) core_ok_rotate [OF inv ps] None permit_fresh [OF inv ps] assms(4)])
        (simp add: None)
  qed
qed

theorem commit_atomic_witness:
  "\<exists>t c'. core_commit CX id length demo_permit demo_frame core_reserved = (Inr (0, t), c') \<and>
     length (pending (core_machine c')) = 1"
  using commit_atomic [OF counting_externals_ok demo_reserved_reachable, of demo_permit id demo_frame length]
  by (simp add: demo_state_def commit_failure_def demo_defs USIZE_MAX_def) auto

section \<open>Writing\<close>

text \<open>
  The slice offered to the transport is the next unwritten part of the oldest frame, at most as
  long as asked for, and carries that frame's identities; without a frame nothing is offered.
\<close>

theorem front_write_offers:
  assumes "externals_ok X" "sys_reachable X s"
    and "\<forall>w \<in> set (wq_frames (core_writes (sys_core s))). length (view (qw_frame w)) = wire_bytes (qw_measure w)"
  shows "front_write view n (sys_core s) =
    (Inr (case wq_frames (core_writes (sys_core s)) of
        [] \<Rightarrow> None
      | w # _ \<Rightarrow> Some \<lparr>ws_epoch = m_epoch (core_machine (sys_core s)), ws_operation = qw_operation w,
          ws_effect = qw_effect w, ws_bytes = take n (drop (qw_written w) (view (qw_frame w)))\<rparr>), sys_core s)"
proof -
  note ok = sys_inv_parts(1) [OF sys_reachable_inv [OF assms(1,2)]]
  show ?thesis
    using front_write_exact [OF ok, of _ _ view n] front_write_idle [OF ok] assms(3)
    by (cases "wq_frames (core_writes (sys_core s))") auto
qed

theorem front_write_offers_witness:
  "front_write id 10 core_writing =
     (Inr (Some \<lparr>ws_epoch = 5, ws_operation = 0, ws_effect = 0, ws_bytes = [30]\<rparr>), core_writing)"
  using front_write_offers [OF counting_externals_ok demo_writing_reachable, of id 10]
  by (simp add: demo_defs)

text \<open>
  C27. Progress on the oldest frame moves exactly that frame: after \<open>n\<close> bytes it has \<open>n\<close> more
  written, or has left the queue when nothing remains, and the frames behind it are untouched. The
  first byte makes the operation possibly sent, and a report of zero bytes changes no certainty.
\<close>

theorem write_progress_exact:
  assumes "externals_ok X" "sys_reachable X s" "wq_frames (core_writes (sys_core s)) = w # ws"
    and "n \<le> remaining_bytes w"
  shows "\<exists>t c'. core_advance_write X (m_epoch (core_machine (sys_core s))) (qw_effect w) n (sys_core s) = (Inr t, c') \<and>
    tr_disposition t = Applied \<and>
    wq_frames (core_writes c') = (if n < remaining_bytes w then progressed n w # ws else ws) \<and>
    (\<forall>(i, d) \<in> set (owned (pending (core_machine c'))).
       d = (if i = qw_operation w \<and> 0 < n then PossiblySent
            else the (map_of (owned (pending (core_machine (sys_core s)))) i)))"
proof -
  note ok = sys_inv_parts(1) [OF sys_reachable_inv [OF assms(1,2)]] and X = assms(1)
  let ?m = "core_machine (sys_core s)"
  have dist: "distinct (map fst (owned (pending ?m)))"
    using core_ok_parts(2) [OF ok] by (simp add: machine_ok_def machine_core_def op_ids_def)
  have marked: "d = (if i = qw_operation w \<and> 0 < n then PossiblySent else the (map_of (owned (pending ?m)) i))"
    if "(i, d) \<in> set (mark_sent (qw_operation w) n (owned (pending ?m)))" for i d
    using that map_of_is_SomeI [OF dist] by (auto simp: mark_sent_def)
  consider "n < remaining_bytes w" | "n = remaining_bytes w" using assms(4) by linarith
  then show ?thesis
  proof cases
    case 1
    show ?thesis
      by (rule core_advance_pending [OF X ok assms(3) 1]) (use 1 marked in auto)
  next
    case 2
    show ?thesis
    proof (rule core_advance_complete [OF X ok assms(3) 2])
      fix t c' assume c': "core_advance_write X (m_epoch ?m) (qw_effect w) n (sys_core s) = (Inr t, c')"
        "wq_frames (core_writes c') = ws" "tr_disposition t = Applied"
        "settles (mark_sent (qw_operation w) n (owned (pending ?m))) (live_ids (pending ?m)) (tr_effects t) (core_machine c')"
      then have "set (owned (pending (core_machine c'))) \<subseteq> set (mark_sent (qw_operation w) n (owned (pending ?m)))"
        by (intro removes_subset [of fst _ "cancel_ids (tr_effects t)"]) (simp add: settles_def)
      with marked c' 2 show ?thesis by (intro exI [of _ t] exI [of _ c']) auto
    qed
  qed
qed

theorem write_progress_exact_witness:
  "\<exists>t c'. core_advance_write CX 5 0 2 core_committed = (Inr t, c') \<and>
     wq_frames (core_writes c') = [progressed 2 (demo_write 0)]"
proof -
  have "wq_frames (core_writes (sys_core demo_committed)) = demo_write 0 # []"
    "m_epoch (core_machine core_committed) = 5" "qw_effect (demo_write 0) = 0" "remaining_bytes (demo_write 0) = 3"
    by (simp_all add: demo_defs remaining_bytes_def)
  with write_progress_exact [OF counting_externals_ok demo_committed_reachable this(1), of 2] show ?thesis
    by auto
qed

section \<open>Faults and recovery\<close>

text \<open>
  Recovering a healthy owner returns every operation that has no outcome yet, in wire order,
  each with the certainty the owner had recorded and its frame exactly when the writer still held
  it. No frame is left over, no disagreement is reported, all capacity except that of outstanding
  permits is released, and the owner is unusable afterwards.
\<close>

theorem recover_healthy_exact:
  assumes "externals_ok X" "sys_reachable X s"
  shows "let c = sys_core s; rs = pending (core_machine c); (rec, c') = core_recover X c in
      rec = \<lparr>cr_epoch = m_epoch (core_machine c),
             cr_operations = map (recovered_of (wq_frames (core_writes c))) (live_records rs),
             cr_unmatched_writes = [], cr_ownership_diverged = False\<rparr> \<and>
      map (\<lambda>ro. (ro_operation ro, ro_delivery ro, ro_frame ro \<noteq> None)) (cr_operations rec) =
        map (\<lambda>r. (rec_id r, rec_delivery r, rec_write_held r)) (live_records rs) \<and>
      led_operations (m_ledger (core_machine c')) = length (sys_permits s) \<and>
      core_poisoned c' \<noteq> None"
  using healthy_recovers [OF assms(1) sys_inv_parts(1) [OF sys_reachable_inv [OF assms]]]
  by (simp add: Let_def case_prod_unfold)

theorem recover_healthy_exact_witness:
  "cr_operations (fst (core_recover CX core_committed)) =
     [\<lparr>ro_operation = 0, ro_delivery = NotSent, ro_frame = Some demo_frame\<rparr>]"
  using recover_healthy_exact [OF counting_externals_ok demo_committed_reachable]
  by (simp add: Let_def case_prod_unfold) (simp add: recovered_of_def weaken_def demo_defs)

text \<open>
  C28. A transport that reports more bytes than it was offered poisons the owner and nothing else:
  recovery then still returns every unfinished operation with its frame, reports the disagreement,
  and the operation at the front counts as possibly sent even if no byte of it was reported before.
\<close>

theorem impossible_progress_recovers:
  assumes "externals_ok X" "sys_reachable X s" "wq_frames (core_writes (sys_core s)) = w # ws"
    and "remaining_bytes w < n"
  shows "\<exists>c'. core_advance_write X (m_epoch (core_machine (sys_core s))) (qw_effect w) n (sys_core s) =
      (Inl (CoreInvariant (WriteProgressContract n (remaining_bytes w))), c') \<and>
    core_poisoned c' = Some (WriteProgressContract n (remaining_bytes w)) \<and>
    map ro_operation (cr_operations (fst (core_recover X c'))) = live_ids (pending (core_machine (sys_core s))) \<and>
    (\<forall>ro \<in> set (cr_operations (fst (core_recover X c'))).
       ro_operation ro = qw_operation w \<longrightarrow> ro_delivery ro = PossiblySent \<and> ro_frame ro = Some (qw_frame w)) \<and>
    cr_unmatched_writes (fst (core_recover X c')) = [] \<and> cr_ownership_diverged (fst (core_recover X c'))"
proof -
  let ?m = "core_machine (sys_core s)" and ?w = "w\<lparr>qw_started := True\<rparr>"
  note ok = sys_inv_parts(1) [OF sys_reachable_inv [OF assms(1,2)]]
  obtain c' where c': "core_advance_write X (m_epoch ?m) (qw_effect w) n (sys_core s) =
      (Inl (CoreInvariant (WriteProgressContract n (remaining_bytes w))), c')"
    "core_poisoned c' = Some (WriteProgressContract n (remaining_bytes w))" "core_machine c' = ?m"
    "core_writes c' = (core_writes (sys_core s))\<lparr>wq_frames := ?w # ws\<rparr>"
    "core_journal c' = journal_of (max_operations (core_limits (sys_core s))) (max_write_frames (core_limits (sys_core s))) [] [] None True"
    by (rule core_advance_exceeds [OF assms(1) ok assms(3,4)])
  have ids: "write_identities (core_writes c') = held_ids (pending (core_machine c'))"
    using joined_identities [OF core_ok_parts(1) [OF ok]] assms(3) by (simp add: c'(3,4) write_identities_def)
  have m: "machine_ok (core_machine c') (mset (map permit_reservation (sys_permits s)))"
    using core_ok_parts(2) [OF ok] by (simp add: c'(3))
  note rec = core_recover_exact [OF assms(1) m ids c'(5)]
  obtain ys r zs where r: "first_held (pending ?m) ys r zs" "held_write_of r = frame_write w"
    by (rule front_record [OF ok assms(3)])
  have front: "ro_delivery (recovered_of (?w # ws) r') = PossiblySent \<and> ro_frame (recovered_of (?w # ws) r') = Some (qw_frame w)"
    if r': "r' \<in> set (pending ?m)" "rec_id r' = qw_operation w" for r'
  proof -
    have "distinct (map rec_id (pending ?m))" using core_ok_parts(2) [OF ok] by (simp add: machine_ok_def machine_core_def)
    moreover have "r \<in> set (pending ?m)" "rec_id r = qw_operation w"
      using r by (auto simp: first_held_def held_write_of_def frame_write_def)
    ultimately have "r' = r" using r' by (metis distinct_map inj_onD)
    then have "(rec_id r', rec_effect r') = frame_key w" using r(2) by (simp add: held_write_of_def frame_write_def)
    then show ?thesis by (simp add: recovered_of_def weaken_def)
  qed
  have name: "ro_operation (recovered_of (?w # ws) r) = rec_id r" for r
    by (simp add: recovered_of_def split: option.split)
  show ?thesis
  proof (intro exI conjI)
    show "core_advance_write X (m_epoch ?m) (qw_effect w) n (sys_core s) =
      (Inl (CoreInvariant (WriteProgressContract n (remaining_bytes w))), c')" by (rule c'(1))
    show "core_poisoned c' = Some (WriteProgressContract n (remaining_bytes w))" by (rule c'(2))
    show "map ro_operation (cr_operations (fst (core_recover X c'))) = live_ids (pending ?m)"
      using rec(1) name by (simp add: c'(3,4) live_ids_def comp_def)
    show "\<forall>ro \<in> set (cr_operations (fst (core_recover X c'))).
       ro_operation ro = qw_operation w \<longrightarrow> ro_delivery ro = PossiblySent \<and> ro_frame ro = Some (qw_frame w)"
      using rec(1) name front by (auto simp: c'(3,4))
  qed (use rec(1) in simp_all)
qed

theorem impossible_progress_recovers_witness:
  "\<exists>c'. core_advance_write CX 5 0 4 core_committed = (Inl (CoreInvariant (WriteProgressContract 4 3)), c') \<and>
     core_poisoned c' = Some (WriteProgressContract 4 3)"
proof -
  have "wq_frames (core_writes (sys_core demo_committed)) = demo_write 0 # []"
    "m_epoch (core_machine core_committed) = 5" "qw_effect (demo_write 0) = 0" "remaining_bytes (demo_write 0) = 3"
    by (simp_all add: demo_defs remaining_bytes_def)
  with impossible_progress_recovers [OF counting_externals_ok demo_committed_reachable this(1), of 4] show ?thesis
    by auto
qed

section \<open>Life of an epoch\<close>

text \<open>
  Gate and phase only ever go forward, whatever callers, transport and clock do: the gate from
  session-only over open and draining to closed, the phase from live over closing to closed. The
  epoch never changes, and the reason of a closure is never replaced.
\<close>

theorem lifecycle_forward:
  assumes "(sys_step X)\<^sup>*\<^sup>* s s'"
  shows "gate_rank (m_gate (core_machine (sys_core s))) \<le> gate_rank (m_gate (core_machine (sys_core s'))) \<and>
    phase_rank (m_phase (core_machine (sys_core s))) \<le> phase_rank (m_phase (core_machine (sys_core s'))) \<and>
    m_epoch (core_machine (sys_core s')) = m_epoch (core_machine (sys_core s)) \<and>
    (m_phase (core_machine (sys_core s)) \<noteq> Live \<longrightarrow>
       m_close_reason (core_machine (sys_core s')) = m_close_reason (core_machine (sys_core s)))"
  using forward_run [OF assms] by (simp add: forward_def)

theorem lifecycle_forward_witness:
  "gate_rank (m_gate (core_machine core_writing)) \<le> gate_rank (m_gate (core_machine core_closing))"
proof -
  have "sys_step CX demo_writing demo_closing"
    using sys_step.input [of CX "CloseRequested 5 Requested" demo_writing] demo_close_step
    by (simp add: demo_state_def)
  then have "(sys_step CX)\<^sup>*\<^sup>* demo_writing demo_closing" by blast
  from lifecycle_forward [OF this] show ?thesis by simp
qed

text \<open>
  C30. Phase, gate, close reason and pending work agree in every reachable state. A live epoch has no
  close reason; an epoch that is closing or closed admits nothing, keeps its reason, owns neither
  operation nor frame, and has published the outcome of everything it ever accepted; a draining
  epoch is live and still has work to finish, since the last operation to leave closes it.
\<close>

theorem lifecycle_exact:
  assumes "externals_ok X" "sys_reachable X s"
  shows "let m = core_machine (sys_core s) in
    (if m_phase m = Live then m_gate m \<noteq> GateClosed \<and> m_close_reason m = None
     else m_gate m = GateClosed \<and> m_close_reason m \<noteq> None \<and> pending m = [] \<and>
       wq_frames (core_writes (sys_core s)) = [] \<and> set (sys_accepted s) = fst ` set (sys_published s)) \<and>
    (m_gate m = Draining \<longrightarrow> m_phase m = Live \<and> pending m \<noteq> [])"
proof -
  let ?m = "core_machine (sys_core s)"
  note inv = sys_reachable_inv [OF assms]
  note ok = sys_inv_parts(1) [OF inv]
  have life: "lifecycle_ok ?m" "m_gate ?m = Draining \<longrightarrow> pending ?m \<noteq> []"
    using core_ok_parts(2) [OF ok] by (simp_all add: machine_ok_def machine_core_def)
  have "set (sys_accepted s) = fst ` set (sys_published s) \<union> set (live_ids (pending ?m))"
    using sys_inv_parts(4) [OF inv] unfolding outcomes_once_def by blast
  then show ?thesis
    using life closed_empty [OF ok] by (auto simp: Let_def lifecycle_ok_def split: if_splits)
qed

theorem lifecycle_exact_witness:
  "m_close_reason (core_machine core_closing) \<noteq> None \<and> pending (core_machine core_draining) \<noteq> []"
  using lifecycle_exact [OF counting_externals_ok demo_closing_reachable]
    lifecycle_exact [OF counting_externals_ok demo_draining_reachable]
  by (simp add: Let_def) (simp add: demo_defs)

text \<open>
  C31. A closed epoch is final: once the phase has left live, no later step accepts an operation,
  publishes an outcome, delivers a reply or puts a byte on the wire.
\<close>

theorem closed_epoch_final:
  assumes "externals_ok X" "sys_reachable X s" "m_phase (core_machine (sys_core s)) \<noteq> Live"
    and "(sys_step X)\<^sup>*\<^sup>* s s'"
  shows "sys_accepted s' = sys_accepted s \<and> sys_published s' = sys_published s \<and>
    sys_replies s' = sys_replies s \<and> sys_sent s' = sys_sent s"
proof -
  have "history s' = history s"
    using closed_epoch.run_inv [of X s s' s] sys_reachable_inv [OF assms(1,2)] assms by blast
  then show ?thesis by (simp add: history_def)
qed

theorem closed_epoch_final_witness:
  "\<exists>s'. sys_step CX demo_closing s' \<and> m_phase (core_machine (sys_core s')) = PhaseClosed \<and>
     sys_published s' = [(0, Some PossiblySent)]"
proof -
  have dead: "m_phase (core_machine (sys_core demo_closing)) \<noteq> Live" by (simp add: demo_defs)
  let ?c = "core_closing\<lparr>core_machine := (core_machine core_closing)\<lparr>m_phase := PhaseClosed\<rparr>\<rparr>"
  have "core_apply CX (EpochClosed 5) core_closing = (Inr (transition_new Applied), ?c)" by code_simp
  then obtain s' where s': "sys_step CX demo_closing s'" "sys_core s' = ?c"
    using sys_step.input [of CX "EpochClosed 5" demo_closing "transition_new Applied" ?c] by fastforce
  then have "sys_published s' = [(0, Some PossiblySent)]"
    using closed_epoch_final [OF counting_externals_ok demo_closing_reachable dead r_into_rtranclp [of "sys_step CX", OF s'(1)]]
    by (simp add: demo_state_def)
  with s' show ?thesis by (intro exI [of _ s']) simp
qed

text \<open>
  C32. Whatever an owner still owes can be settled in one step: closing a live epoch publishes an
  outcome for exactly the operations that have none, in wire order and with the recorded delivery
  certainty, and leaves neither operation nor frame behind.
\<close>

theorem close_settles_all:
  assumes "externals_ok X" "sys_reachable X s" "m_phase (core_machine (sys_core s)) = Live"
  shows "\<exists>t c'. core_apply X (CloseRequested (m_epoch (core_machine (sys_core s))) reason) (sys_core s) = (Inr t, c') \<and>
    publications (tr_effects t) =
      map (\<lambda>r. (rec_id r, Some (rec_delivery r))) (live_records (pending (core_machine (sys_core s)))) \<and>
    close_reasons (tr_effects t) = [reason] \<and>
    m_phase (core_machine c') = Closing \<and> pending (core_machine c') = [] \<and> wq_frames (core_writes c') = []"
proof -
  let ?m = "core_machine (sys_core s)"
  note ok = sys_inv_parts(1) [OF sys_reachable_inv [OF assms(1,2)]]
  have "machine_apply X (CloseRequested (m_epoch ?m) reason) ?m =
      close_with_failure_into X reason None (transition_new Applied) ?m"
    using assms(3) by (simp add: close_requested_def close_into_def)
  from core_closes [OF assms(1) ok assms(3) this] obtain t c' where
    t: "core_apply X (CloseRequested (m_epoch ?m) reason) (sys_core s) = (Inr t, c')"
    "closes reason None (sys_core s) t c'" by blast
  moreover have "publications (concat (map (record_close_effects ep reason None) rs)) =
      map (\<lambda>r. (rec_id r, Some (rec_delivery r))) (live_records rs)" for ep rs
    by (induction rs) (simp_all add: record_close_effects_def)
  ultimately show ?thesis
    by (intro exI [of _ t] exI [of _ c']) (simp add: closes_def close_effects_def close_effect_lists)
qed

theorem close_settles_all_witness:
  "\<exists>t c'. core_apply CX (CloseRequested 5 Requested) core_writing = (Inr t, c') \<and>
     publications (tr_effects t) = [(0, Some PossiblySent)]"
  using close_settles_all [OF counting_externals_ok demo_writing_reachable, of Requested]
  by (auto simp: demo_defs)

section \<open>Inputs and replies\<close>

text \<open>
  Everything that names another epoch is fenced: the owner answers that it is stale and stays
  exactly as it was, for inputs, replies and write progress alike.
\<close>

theorem stale_epoch_fenced:
  assumes "externals_ok X" "sys_reachable X s"
    and "input_epoch input \<noteq> m_epoch (core_machine (sys_core s))"
    and "reply_epoch reply \<noteq> m_epoch (core_machine (sys_core s))"
    and "epoch \<noteq> m_epoch (core_machine (sys_core s))"
  shows "core_apply X input (sys_core s) = (Inr (ignored input IgnoredStaleEpoch), sys_core s) \<and>
    core_apply_reply X reply (sys_core s) = (Inr (transition_new IgnoredStaleEpoch), sys_core s) \<and>
    core_advance_write X epoch effect n (sys_core s) =
      (Inl (CoreWrite (ProgressStaleEpoch (m_epoch (core_machine (sys_core s))) epoch)), sys_core s)"
proof -
  note ok = sys_inv_parts(1) [OF sys_reachable_inv [OF assms(1,2)]] and X = assms(1)
  have "machine_apply_reply X reply (core_machine (sys_core s)) =
      (transition_new IgnoredStaleEpoch, core_machine (sys_core s))"
    using assms(4) by (simp add: machine_apply_reply_def Let_def)
  from core_apply_reply_plain [OF X ok this] show ?thesis
    using core_apply_plain [OF X ok machine_apply_stale [OF assms(3)]] core_advance_refused(1) [OF X ok assms(5)]
    by simp
qed

theorem stale_epoch_fenced_witness:
  "core_apply CX (CloseRequested 4 Requested) core_writing =
     (Inr (transition_new IgnoredStaleEpoch), core_writing)"
proof -
  have "input_epoch (CloseRequested 4 Requested) \<noteq> m_epoch (core_machine (sys_core demo_writing))"
    "reply_epoch (demo_reply\<lparr>reply_epoch := 4\<rparr>) \<noteq> m_epoch (core_machine (sys_core demo_writing))"
    "4 \<noteq> m_epoch (core_machine (sys_core demo_writing))"
    by (simp_all add: demo_defs)
  from stale_epoch_fenced [OF counting_externals_ok demo_writing_reachable this] show ?thesis by simp
qed

text \<open>
  C3. Replies are delivered in wire order: the operations that received a reply, followed by those
  still pending, form a subsequence of the operations in the order in which they were accepted.
\<close>

theorem replies_in_wire_order:
  assumes "externals_ok X" "sys_reachable X s"
  shows "subseq (map fst (sys_replies s) @ op_ids (pending (core_machine (sys_core s)))) (sys_accepted s)"
  using sys_reachable_order [OF assms] by (simp add: in_order_def)

theorem replies_in_wire_order_witness: "subseq [0] (sys_accepted demo_replied)"
  using replies_in_wire_order [OF counting_externals_ok demo_replied_reachable]
  by (simp add: demo_state_def demo_defs)

text \<open>
  A reply with the key of the oldest pending operation, once that operation's frame has been
  written, completes exactly that operation: it gets the reply frame unless it was cancelled
  before, it leaves the queue, and the frames of the other operations are untouched.
\<close>

theorem reply_completes_front:
  assumes "externals_ok X" "sys_reachable X s" "pending (core_machine (sys_core s)) = r # rs"
    and "awaits_reply r" "reply_epoch reply = m_epoch (core_machine (sys_core s))"
    and "reply_key reply = res_match_key (rec_reservation r)"
  shows "\<exists>t c'. core_apply_reply X reply (sys_core s) = (Inr t, c') \<and> tr_disposition t = Applied \<and>
    reply_deliveries (tr_effects t) = (if rec_phase r = Terminal then [] else [(rec_id r, reply_frame reply)]) \<and>
    pub_ids (tr_effects t) = (if rec_phase r = Terminal then [] else [rec_id r]) \<and>
    pending (core_machine c') = rs \<and> core_writes c' = core_writes (sys_core s)"
proof -
  note ok = sys_inv_parts(1) [OF sys_reachable_inv [OF assms(1,2)]]
  let ?m = "core_machine (sys_core s)" and ?m1 = "without X rs r False (m_ledger (core_machine (sys_core s))) (core_machine (sys_core s))"
  define t where "t = (if rec_phase r \<noteq> Terminal
        then transition_push (PublishOutcome (m_epoch ?m) (rec_id r) (OutReply (reply_frame reply)))
               (transition_push (CancelDeadline (m_epoch ?m) (rec_id r)) (transition_new Applied))
        else transition_push (CancelDeadline (m_epoch ?m) (rec_id r)) (transition_new Applied))"
  have step: "machine_apply_reply X reply ?m = (fst (finish_drain X t ?m1), snd (finish_drain X t ?m1))"
    using apply_reply_match(1) [OF assms(1) core_ok_parts(2) [OF ok] assms(3-6)] by (simp add: t_def)
  have "discard_ids (tr_effects (fst (finish_drain X t ?m1))) = []" by (simp add: finish_drain_discards t_def)
  from core_apply_reply_plain [OF assms(1) ok step this] show ?thesis
    by (simp add: finish_drain_exact pub_ids_publications) (simp add: t_def)
qed

theorem reply_completes_front_witness:
  "\<exists>t c'. core_apply_reply CX demo_reply core_written = (Inr t, c') \<and>
     reply_deliveries (tr_effects t) = [(0, 99)] \<and> pending (core_machine c') = []"
proof -
  have "pending (core_machine (sys_core demo_written)) = demo_record AwaitingReply PossiblySent False # []"
    "awaits_reply (demo_record AwaitingReply PossiblySent False)"
    "reply_epoch demo_reply = m_epoch (core_machine (sys_core demo_written))"
    "reply_key demo_reply = res_match_key (rec_reservation (demo_record AwaitingReply PossiblySent False))"
    by (simp_all add: demo_defs demo_reply_def awaits_reply_def)
  from reply_completes_front [OF counting_externals_ok demo_written_reachable this] show ?thesis
    by (auto simp: demo_defs demo_reply_def)
qed

text \<open>
  C33. A reply that cannot belong to the oldest pending operation ends the epoch. With nothing
  written and pending it is unexpected; with another key than the oldest operation's it is a
  mismatch, and that operation fails with both keys while all others fail with the closure.
\<close>

theorem reply_violation_closes:
  assumes "externals_ok X" "sys_reachable X s" "m_phase (core_machine (sys_core s)) = Live"
    and "reply_epoch reply = m_epoch (core_machine (sys_core s))"
    and "\<not> (\<exists>r rs. pending (core_machine (sys_core s)) = r # rs \<and> awaits_reply r \<and>
           reply_key reply = res_match_key (rec_reservation r))"
  shows "\<exists>t c'. core_apply_reply X reply (sys_core s) = (Inr t, c') \<and> tr_disposition t = Fault \<and>
    (case pending (core_machine (sys_core s)) of
       [] \<Rightarrow> closes UnexpectedReply None (sys_core s) t c'
     | r # _ \<Rightarrow>
         if awaits_reply r
         then closes (CloseMatchKeyMismatch (res_match_key (rec_reservation r)) (reply_key reply))
                (Some (rec_id r, FailMatchKeyMismatch (res_match_key (rec_reservation r)) (reply_key reply)))
                (sys_core s) t c'
         else closes UnexpectedReply None (sys_core s) t c')"
proof -
  let ?m = "core_machine (sys_core s)"
  note ok = sys_inv_parts(1) [OF sys_reachable_inv [OF assms(1,2)]]
  note close = core_reply_closes [OF assms(1) ok assms(3)]
  show ?thesis
  proof (cases "pending ?m")
    case Nil
    then have "machine_apply_reply X reply ?m =
        close_with_failure_into X UnexpectedReply None (transition_new Fault) ?m"
      using assms(3,4) by (simp add: machine_apply_reply_def matching_front_def close_into_def Let_def)
    from close [OF this] Nil show ?thesis by simp
  next
    case (Cons r rs)
    show ?thesis
    proof (cases "awaits_reply r")
      case True
      then have "machine_apply_reply X reply ?m =
          close_with_failure_into X (CloseMatchKeyMismatch (res_match_key (rec_reservation r)) (reply_key reply))
            (Some (rec_id r, FailMatchKeyMismatch (res_match_key (rec_reservation r)) (reply_key reply)))
            (transition_new Fault) ?m"
        using assms(3-5) Cons by (auto simp: machine_apply_reply_def matching_front_def awaits_reply_def Let_def)
      from close [OF this] Cons True show ?thesis by simp
    next
      case False
      then have "machine_apply_reply X reply ?m =
          close_with_failure_into X UnexpectedReply None (transition_new Fault) ?m"
        using assms(3,4) Cons
        by (auto simp: machine_apply_reply_def matching_front_def awaits_reply_def close_into_def Let_def)
      from close [OF this] Cons False show ?thesis by simp
    qed
  qed
qed

theorem reply_violation_closes_witness:
  "\<exists>t c'. core_apply_reply CX (demo_reply\<lparr>reply_key := 2\<rparr>) core_written = (Inr t, c') \<and>
     m_close_reason (core_machine c') = Some (CloseMatchKeyMismatch 1 2)"
proof -
  let ?r = "demo_reply\<lparr>reply_key := 2\<rparr>"
  have p: "pending (core_machine (sys_core demo_written)) = [demo_record AwaitingReply PossiblySent False]"
    and r: "res_match_key (rec_reservation (demo_record AwaitingReply PossiblySent False)) = 1"
      "awaits_reply (demo_record AwaitingReply PossiblySent False)"
    by (simp_all add: demo_defs awaits_reply_def)
  have "m_phase (core_machine (sys_core demo_written)) = Live"
    "reply_epoch ?r = m_epoch (core_machine (sys_core demo_written))"
    "\<not> (\<exists>r rs. pending (core_machine (sys_core demo_written)) = r # rs \<and> awaits_reply r \<and>
        reply_key ?r = res_match_key (rec_reservation r))"
    unfolding p using r by (simp_all add: demo_defs demo_reply_def)
  from reply_violation_closes [OF counting_externals_ok demo_written_reachable this] show ?thesis
    unfolding p using r by (auto simp: closes_def demo_reply_def)
qed

text \<open>
  C34. Cancelling a pending operation has three outcomes. Already ended: nothing changes. No byte
  sent: the operation and its frame are withdrawn and it is reported not sent. Possibly sent: only
  the observation ends; the record keeps its place in the wire order and the frame keeps flowing.
\<close>

theorem cancel_exact:
  assumes "externals_ok X" "sys_reachable X s" "pending (core_machine (sys_core s)) = ys @ r # zs"
  shows "\<exists>t c'. core_apply X (Cancel (m_epoch (core_machine (sys_core s))) (rec_id r)) (sys_core s) = (Inr t, c') \<and>
    (if rec_phase r = Terminal
     then c' = sys_core s \<and> t = transition_cancelled CancelAlreadyTerminal (transition_new AlreadyTerminal)
     else if rec_delivery r = NotSent
     then withdrawn ys r zs (sys_core s) t c' \<and> tr_cancel_outcome t = Some CancelledNotSent
     else publications (tr_effects t) = [(rec_id r, Some PossiblySent)] \<and>
       tr_cancel_outcome t = Some (ObservationCancelled PossiblySent) \<and>
       pending (core_machine c') = ys @ r\<lparr>rec_phase := Terminal\<rparr> # zs \<and>
       core_writes c' = core_writes (sys_core s))"
proof -
  let ?m = "core_machine (sys_core s)" and ?in = "Cancel (m_epoch (core_machine (sys_core s))) (rec_id r)"
  note ok = sys_inv_parts(1) [OF sys_reachable_inv [OF assms(1,2)]] and X = assms(1) and p = assms(3)
  have m: "machine_ok ?m (mset (map permit_reservation (sys_permits s)))" by (rule core_ok_parts [OF ok])
  then have "machine_core ?m (mset (map permit_reservation (sys_permits s)))" by (simp add: machine_ok_def)
  note at = matching_at [OF p split_distinct [OF this p]]
  consider (ended) "rec_phase r = Terminal" | (unsent) "rec_phase r \<noteq> Terminal" "rec_delivery r = NotSent"
    | (sent) "rec_phase r \<noteq> Terminal" "rec_delivery r = PossiblySent" by (cases "rec_delivery r") auto
  then show ?thesis
  proof cases
    case ended
    then have "machine_apply X ?in ?m = (transition_cancelled CancelAlreadyTerminal (transition_new AlreadyTerminal), ?m)"
      by (simp add: machine_cancel_def at)
    from core_apply_plain [OF X ok this] ended show ?thesis by simp
  next
    case unsent
    obtain t where "machine_apply X ?in ?m = finish_drain X t (without X (ys @ zs) r (rec_write_held r) (m_ledger ?m) ?m)"
      "tr_disposition t = Applied" "publications (tr_effects t) = [(rec_id r, Some NotSent)]"
      "discard_ids (tr_effects t) = (if rec_write_held r then [(rec_id r, rec_effect r)] else [])"
      "tr_cancel_outcome t = Some CancelledNotSent"
      using machine_cancel_unsent [OF m p unsent] by blast
    with core_withdrawal [OF X ok p this(1-4)] unsent show ?thesis by auto
  next
    case sent
    then have "machine_apply X ?in ?m = (transition_cancelled (ObservationCancelled PossiblySent)
        (transition_push (PublishOutcome (m_epoch ?m) (rec_id r) (OutCancelled PossiblySent)) (transition_new Applied)),
        with_record (ys @ r\<lparr>rec_phase := Terminal\<rparr> # zs) ?m)"
      by (simp add: machine_cancel_def at with_record_def)
    from core_apply_plain [OF X ok this] sent show ?thesis by simp
  qed
qed

theorem cancel_exact_witness:
  "\<exists>t c'. core_apply CX (Cancel 5 0) core_committed = (Inr t, c') \<and>
     tr_cancel_outcome t = Some CancelledNotSent \<and> pending (core_machine c') = []"
proof -
  have p: "pending (core_machine (sys_core demo_committed)) = [] @ demo_record Queued NotSent True # []"
    by (simp add: demo_defs)
  from cancel_exact [OF counting_externals_ok demo_committed_reachable p] show ?thesis
    by (auto simp: withdrawn_def demo_record_def) (simp add: demo_defs)
qed

text \<open>
  C35. A reported deadline is judged again by the owner. If it has not elapsed, it is only scheduled
  again. If it has, an operation of which no byte was sent fails alone and is withdrawn; for one
  that may have been sent the stream can no longer be trusted, and the epoch closes.
\<close>

theorem deadline_exact:
  assumes "externals_ok X" "sys_reachable X s" "pending (core_machine (sys_core s)) = ys @ r # zs"
  shows "\<exists>t c'. core_apply X (InputDeadlineElapsed (m_epoch (core_machine (sys_core s))) (rec_id r) now) (sys_core s) =
      (Inr t, c') \<and> tr_disposition t = Applied \<and>
    (if \<not> is_elapsed_at X (rec_deadline r) now
     then c' = sys_core s \<and>
       tr_effects t = [ScheduleDeadline (m_epoch (core_machine (sys_core s))) (rec_id r) (rec_deadline r)]
     else if rec_delivery r = NotSent then withdrawn ys r zs (sys_core s) t c'
     else closes DeadlineAfterPossibleSend None (sys_core s) t c')"
proof -
  let ?m = "core_machine (sys_core s)"
  let ?in = "InputDeadlineElapsed (m_epoch (core_machine (sys_core s))) (rec_id r) now"
  note ok = sys_inv_parts(1) [OF sys_reachable_inv [OF assms(1,2)]] and X = assms(1) and p = assms(3)
  have m: "machine_ok ?m (mset (map permit_reservation (sys_permits s)))" by (rule core_ok_parts [OF ok])
  then have core: "machine_core ?m (mset (map permit_reservation (sys_permits s)))" by (simp add: machine_ok_def)
  note at = matching_at [OF p split_distinct [OF core p]]
  consider (early) "\<not> is_elapsed_at X (rec_deadline r) now"
    | (unsent) "is_elapsed_at X (rec_deadline r) now" "rec_delivery r = NotSent"
    | (sent) "is_elapsed_at X (rec_deadline r) now" "rec_delivery r = PossiblySent" by (cases "rec_delivery r") auto
  then show ?thesis
  proof cases
    case early
    then have "machine_apply X ?in ?m =
        (transition_push (ScheduleDeadline (m_epoch ?m) (rec_id r) (rec_deadline r)) (transition_new Applied), ?m)"
      by (simp add: deadline_elapsed_def at)
    from core_apply_plain [OF X ok this] early show ?thesis by simp
  next
    case unsent
    obtain t where "machine_apply X ?in ?m = finish_drain X t (without X (ys @ zs) r (rec_write_held r) (m_ledger ?m) ?m)"
      "tr_disposition t = Applied" "publications (tr_effects t) = [(rec_id r, Some NotSent)]"
      "discard_ids (tr_effects t) = (if rec_write_held r then [(rec_id r, rec_effect r)] else [])"
      using deadline_unsent [OF m p unsent] by blast
    with core_withdrawal [OF X ok p this(1-4)] unsent show ?thesis by (auto simp: withdrawn_def)
  next
    case sent
    have live: "m_phase ?m = Live" using pending_live [OF core] p by simp
    have "machine_apply X ?in ?m =
        close_with_failure_into X DeadlineAfterPossibleSend None (transition_new Applied) ?m"
      using sent by (simp add: deadline_elapsed_def at close_into_def)
    from core_closes [OF X ok live this] sent show ?thesis by auto
  qed
qed

theorem deadline_exact_witness:
  "\<exists>t c'. core_apply CX (InputDeadlineElapsed 5 0 200) core_writing = (Inr t, c') \<and>
     m_close_reason (core_machine c') = Some DeadlineAfterPossibleSend"
proof -
  have p: "pending (core_machine (sys_core demo_writing)) = [] @ demo_record Writing PossiblySent True # []"
    by (simp add: demo_defs)
  have r: "rec_deadline (demo_record Writing PossiblySent True) = 100" "rec_id (demo_record Writing PossiblySent True) = 0"
    "rec_delivery (demo_record Writing PossiblySent True) = PossiblySent" "m_epoch (core_machine core_writing) = 5"
    by (simp_all add: demo_defs)
  have "is_elapsed_at CX 100 200" by (simp add: counting_externals_def)
  with deadline_exact [OF counting_externals_ok demo_writing_reachable p, of 200] show ?thesis
    unfolding r demo_state_core by (auto simp: closes_def)
qed

text \<open>
  C29. The owner implements the policy machine: its answer to an input is the machine's, without the
  discards, which it has executed on its own writer; its machine is the machine's next state, its
  writer has lost exactly the discarded frames, and nothing else has changed.
\<close>

theorem core_refines_machine:
  assumes "externals_ok X" "sys_reachable X s"
  shows "let c = sys_core s; (t, m') = machine_apply X input (core_machine c) in
    \<exists>q. core_apply X input c =
        (Inr (t\<lparr>tr_effects := filter (\<lambda>e. \<not> is_DiscardWrite e) (tr_effects t)\<rparr>),
         c\<lparr>core_machine := m', core_writes := q\<rparr>) \<and>
      wq_frames q = filter (\<lambda>w. (qw_operation w, qw_effect w) \<notin> set (discard_ids (tr_effects t)))
        (wq_frames (core_writes c))"
proof -
  note ok = sys_inv_parts(1) [OF sys_reachable_inv [OF assms]]
  show ?thesis
    by (rule core_apply_exact [OF assms(1) ok, of input])
      (auto simp: Let_def case_prod_unfold visible_def)
qed

theorem core_refines_machine_witness:
  "\<exists>q. core_apply CX (Cancel 5 0) core_committed =
     (Inr ((fst (machine_apply CX (Cancel 5 0) (core_machine core_committed)))\<lparr>tr_effects :=
        [CancelDeadline 5 0, PublishOutcome 5 0 (OutCancelled NotSent)]\<rparr>),
      core_committed\<lparr>core_machine := snd (machine_apply CX (Cancel 5 0) (core_machine core_committed)), core_writes := q\<rparr>)"
proof -
  have "tr_effects (fst (machine_apply CX (Cancel 5 0) (core_machine core_committed))) =
      [DiscardWrite 0 5 0, CancelDeadline 5 0, PublishOutcome 5 0 (OutCancelled NotSent)]" by code_simp
  with core_refines_machine [OF counting_externals_ok demo_committed_reachable, of "Cancel 5 0"] show ?thesis
    by (auto simp: Let_def case_prod_unfold)
qed

section \<open>Poison\<close>

text \<open>
  Poison is latched. An owner that has recorded a violation refuses every further entry point,
  keeps its state, and hands a permit and a frame offered for commit back to the caller.
\<close>

theorem poison_latched:
  assumes "core_poisoned c = Some source" "\<not> led_poisoned (m_ledger (core_machine c))"
  shows "core_reserve X now options c = (Inl OwnerPoisoned, c) \<and>
    core_commit X view retained p frame c =
      (Inl \<lparr>ce_failure = Policy CommitOwnerPoisoned, ce_permit = p, ce_frame = frame\<rparr>, c) \<and>
    core_apply X input c = (Inl (CorePoisoned source), c) \<and>
    core_apply_reply X reply c = (Inl (CorePoisoned source), c) \<and>
    front_write view n c = (Inl (CorePoisoned source), c) \<and>
    core_advance_write X epoch effect n c = (Inl (CorePoisoned source), c)"
proof -
  have "ensure_healthy c = (Inl (CorePoisoned source), c)" using assms by (simp add: ensure_healthy_def)
  with assms show ?thesis
    by (simp add: core_reserve_def core_commit_def core_apply_def core_apply_reply_def front_write_def
        core_advance_write_def)
qed

theorem poison_latched_witness:
  "core_apply CX (OpenAdmission 5) (core_open\<lparr>core_poisoned := Some WriteAccounting\<rparr>) =
     (Inl (CorePoisoned WriteAccounting), core_open\<lparr>core_poisoned := Some WriteAccounting\<rparr>)"
proof -
  let ?c = "core_open\<lparr>core_poisoned := Some WriteAccounting\<rparr>"
  have c: "core_poisoned ?c = Some WriteAccounting" "\<not> led_poisoned (m_ledger (core_machine ?c))"
    by (simp_all add: demo_defs)
  show ?thesis
    using poison_latched [OF c, of CX 0 demo_options id length demo_permit demo_frame "OpenAdmission 5" demo_reply]
    by simp
qed

text \<open>
  A frame that changes the length of its byte view after commit is caught before any of it is
  offered: the owner reports both lengths and is poisoned, and no state of policy or writer moves.
\<close>

theorem frame_change_poisons:
  assumes "externals_ok X" "sys_reachable X s" "wq_frames (core_writes (sys_core s)) = w # ws"
    and "length (view (qw_frame w)) \<noteq> wire_bytes (qw_measure w)"
  shows "let source = CoreFrameContractViolation
        (WireLengthChanged (wire_bytes (qw_measure w)) (length (view (qw_frame w)))) in
    front_write view n (sys_core s) =
      (Inl (CoreInvariant source), (sys_core s)\<lparr>core_poisoned := Some source\<rparr>)"
  using front_write_violation [where view = view, OF sys_inv_parts(1) [OF sys_reachable_inv [OF assms(1,2)]] assms(3,4)]
  by (simp add: Let_def)

theorem frame_change_poisons_witness:
  "front_write (\<lambda>_. []) 8 core_writing =
     (Inl (CoreInvariant (CoreFrameContractViolation (WireLengthChanged 3 0))),
      core_writing\<lparr>core_poisoned := Some (CoreFrameContractViolation (WireLengthChanged 3 0))\<rparr>)"
proof -
  have w: "wq_frames (core_writes (sys_core demo_writing)) = demo_write 2 # []"
    "wire_bytes (qw_measure (demo_write 2)) = 3" by (simp_all add: demo_defs)
  with frame_change_poisons [OF counting_externals_ok demo_writing_reachable w(1), of "\<lambda>_. []" 8] show ?thesis
    by (simp add: Let_def)
qed

end
